(* ===== verification/Prelude.thy ===== *)
theory Prelude
  imports Main "HOL-Library.Word" "HOL-Library.Multiset" "HOL-Library.AList"
begin

text \<open>
  What the components share: the names of the machine integers, byte strings and their
  big-endian integers, fixed-width codecs (the locale \<open>fixed_codec\<close>, from which the wire
  format of every packed struct of the UDP protocol follows), ASCII predicates, Rust's
  unsigned integer parser and the white space Rust's \<open>trim\<close> removes.

  Conventions of the whole development. A \<open>usize\<close>, \<open>u64\<close>, \<open>u32\<close>, \<open>u16\<close> or \<open>u8\<close> that is
  computed with is a word of that width (\<open>usize\<close> is 64 bit), so its arithmetic wraps, as in
  the release profile of \<open>Cargo.toml\<close>, which leaves overflow checks off; lengths and indices
  of collections are \<open>nat\<close>. A fixed array \<open>[u8; n]\<close> is the word of \<open>8 * n\<close> bits whose
  big-endian bytes are the array (\<open>word_be\<close>). A \<open>&str\<close> is its list of UTF-8 bytes.
\<close>

unbundle bit_operations_syntax

type_synonym u8 = "8 word"
type_synonym u16 = "16 word"
type_synonym u32 = "32 word"
type_synonym u64 = "64 word"
type_synonym u128 = "128 word"
type_synonym bytes = "8 word list"

named_theorems codec_simps \<open>lengths and inverse laws of the byte codecs\<close>

subsection \<open>String literals\<close>

text \<open>\<open>str ''abc''\<close> is the byte string Rust writes \<open>"abc"\<close> or \<open>b"abc"\<close>.\<close>

definition str :: "string \<Rightarrow> bytes" where
  "str s = map of_char s"

lemma str_Nil [simp]: "str [] = []"
  by (simp add: str_def)

lemma str_Cons [simp]: "str (c # s) = of_char c # str s"
  by (simp add: str_def)

lemma length_str [simp]: "length (str s) = length s"
  by (simp add: str_def)

subsection \<open>Big-endian integers\<close>

fun nat_be :: "nat \<Rightarrow> nat \<Rightarrow> bytes" where
  "nat_be 0 x = []"
| "nat_be (Suc n) x = nat_be n (x div 256) @ [word_of_nat (x mod 256)]"

definition be_nat :: "bytes \<Rightarrow> nat" where
  "be_nat bs = foldl (\<lambda>acc b. acc * 256 + unat b) 0 bs"

lemma length_nat_be [simp, codec_simps]: "length (nat_be n x) = n"
  by (induction n arbitrary: x) auto

lemma be_nat_Nil [simp]: "be_nat [] = 0"
  by (simp add: be_nat_def)

lemma be_nat_snoc [simp]: "be_nat (bs @ [b]) = be_nat bs * 256 + unat b"
  by (simp add: be_nat_def)

lemma unat_byte_of_mod [simp]: "unat (word_of_nat (x mod 256) :: u8) = x mod 256"
  by (simp add: unat_of_nat)

lemma be_nat_nat_be: "be_nat (nat_be n x) = x mod 256 ^ n"
proof (induction n arbitrary: x)
  case 0
  then show ?case by simp
next
  case (Suc n)
  have "be_nat (nat_be (Suc n) x) = (x div 256) mod 256 ^ n * 256 + x mod 256"
    by (simp add: Suc.IH)
  also have "\<dots> = x mod (256 * 256 ^ n)"
    by (simp add: mod_mult2_eq)
  finally show ?case by simp
qed

lemma unat_byte_lt [simp]: "unat (b :: u8) < 256"
  using unsigned_less [of b] by simp

lemma be_nat_less: "be_nat bs < 256 ^ length bs"
proof (induction bs rule: rev_induct)
  case Nil
  then show ?case by simp
next
  case (snoc b bs)
  have "be_nat bs * 256 + unat b < (be_nat bs + 1) * 256"
    using unat_byte_lt [of b] by simp
  also have "\<dots> \<le> 256 ^ length bs * 256"
    using snoc.IH by (intro mult_le_mono1) simp
  finally show ?case by simp
qed

lemma nat_be_be_nat: "nat_be (length bs) (be_nat bs) = bs"
proof (induction bs rule: rev_induct)
  case Nil
  then show ?case by simp
next
  case (snoc b bs)
  have "(be_nat bs * 256 + unat b) div 256 = be_nat bs"
    using unat_byte_lt [of b] by (simp add: div_mult_self3)
  moreover have "(be_nat bs * 256 + unat b) mod 256 = unat b"
    using unat_byte_lt [of b] by simp
  ultimately show ?case using snoc.IH by simp
qed

definition word_be :: "nat \<Rightarrow> 'a::len word \<Rightarrow> bytes" where
  "word_be n w = nat_be n (unat w)"

definition be_word :: "bytes \<Rightarrow> 'a::len word" where
  "be_word bs = word_of_nat (be_nat bs)"

lemma length_word_be [simp, codec_simps]: "length (word_be n w) = n"
  by (simp add: word_be_def)

lemma be_word_word_be:
  assumes "LENGTH('a) = 8 * n"
  shows "be_word (word_be n (w :: 'a::len word)) = w"
proof -
  have "(256 :: nat) ^ n = 2 ^ LENGTH('a)"
    using assms by (simp add: power_mult)
  then show ?thesis
    using unsigned_less [of w] by (simp add: be_word_def word_be_def be_nat_nat_be)
qed

lemma word_be_be_word:
  assumes "LENGTH('a) = 8 * n" and "length bs = n"
  shows "word_be n (be_word bs :: 'a::len word) = bs"
proof -
  have "be_nat bs < 2 ^ LENGTH('a)"
    using be_nat_less [of bs] assms by (simp add: power_mult)
  then have "unat (be_word bs :: 'a word) = be_nat bs"
    by (simp add: be_word_def unat_of_nat)
  then show ?thesis
    using nat_be_be_nat [of bs] assms(2) by (simp add: word_be_def)
qed

lemma be_word_inverse [simp, codec_simps]:
  "be_word (word_be 2 (a :: u16)) = a"
  "be_word (word_be 4 (b :: u32)) = b"
  "be_word (word_be 8 (c :: u64)) = c"
  "be_word (word_be 16 (d :: u128)) = d"
  "be_word (word_be 20 (e :: 160 word)) = e"
  by (rule be_word_word_be, simp)+

lemma word_be_inverse [codec_simps]:
  "length bs = 2 \<Longrightarrow> word_be 2 (be_word bs :: u16) = bs"
  "length bs = 4 \<Longrightarrow> word_be 4 (be_word bs :: u32) = bs"
  "length bs = 8 \<Longrightarrow> word_be 8 (be_word bs :: u64) = bs"
  "length bs = 16 \<Longrightarrow> word_be 16 (be_word bs :: u128) = bs"
  "length bs = 20 \<Longrightarrow> word_be 20 (be_word bs :: 160 word) = bs"
  by (rule word_be_be_word, simp, assumption)+

subsection \<open>Results\<close>

text \<open>Rust's \<open>Result\<close> is a sum with the error on the left; \<open>and_then\<close> is the \<open>?\<close> operator.\<close>

fun and_then :: "'e + 'a \<Rightarrow> ('a \<Rightarrow> 'e + 'b) \<Rightarrow> 'e + 'b" where
  "and_then (Inl e) f = Inl e"
| "and_then (Inr a) f = f a"

fun map_err :: "('e \<Rightarrow> 'f) \<Rightarrow> 'e + 'a \<Rightarrow> 'f + 'a" where
  "map_err g (Inl e) = Inl (g e)"
| "map_err g (Inr a) = Inr a"

definition ok_or :: "'e \<Rightarrow> 'a option \<Rightarrow> 'e + 'a" where
  "ok_or e x = (case x of None \<Rightarrow> Inl e | Some a \<Rightarrow> Inr a)"

lemma ok_or_simps [simp]: "ok_or e None = Inl e" "ok_or e (Some a) = Inr a"
  by (simp_all add: ok_or_def)

lemma and_then_Inr: "and_then r f = Inr b \<longleftrightarrow> (\<exists>a. r = Inr a \<and> f a = Inr b)"
  by (cases r) auto

text \<open>A check, and an update of the state that may fail: \<open>update(..)?\<close> goes on with the updated state.\<close>

definition ensure :: "bool \<Rightarrow> 'e \<Rightarrow> 'e + unit" where
  "ensure b e = (if b then Inr () else Inl e)"

definition proceed :: "('s \<Rightarrow> 's \<times> ('e + unit)) \<Rightarrow> 's \<Rightarrow> 'e + 's" where
  "proceed f s = (let (s', res) = f s in and_then res (\<lambda>_. Inr s'))"

lemma ensure_Inr [simp]: "ensure b e = Inr u \<longleftrightarrow> b"
  by (simp add: ensure_def)

lemma proceed_Inr: "proceed f s = Inr s' \<longleftrightarrow> (\<exists>u. f s = (s', Inr u))"
  by (cases "f s") (auto simp: proceed_def and_then_Inr)

lemma map_err_Inr [simp]: "map_err g r = Inr a \<longleftrightarrow> r = Inr a"
  by (cases r) auto

lemma ok_or_Inr [simp]: "ok_or e x = Inr a \<longleftrightarrow> x = Some a"
  by (cases x) auto

datatype io_error = UnexpectedEof | InvalidData | WriteZero

text \<open>\<open>Read::read_exact\<close> on a slice: the bytes read and the rest, or the end-of-file error.\<close>

definition read_exact :: "nat \<Rightarrow> bytes \<Rightarrow> io_error + bytes \<times> bytes" where
  "read_exact n bs =
     (if n \<le> length bs then Inr (take n bs, drop n bs) else Inl UnexpectedEof)"

subsection \<open>Slices of a byte string\<close>

text \<open>\<open>sub bs i n\<close> is the slice \<open>bs[i..i + n]\<close>.\<close>

definition sub :: "'a list \<Rightarrow> nat \<Rightarrow> nat \<Rightarrow> 'a list" where
  "sub bs i n = take n (drop i bs)"

lemma length_sub [simp]: "i + n \<le> length bs \<Longrightarrow> length (sub bs i n) = n"
  by (simp add: sub_def)

lemma sub_append_skip: "length xs \<le> i \<Longrightarrow> sub (xs @ ys) i n = sub ys (i - length xs) n"
  by (simp add: sub_def)

lemma sub_append_hit: "length xs = n \<Longrightarrow> sub (xs @ ys) 0 n = xs"
  by (simp add: sub_def)

lemma sub_all: "length xs = n \<Longrightarrow> sub xs 0 n = xs"
  by (simp add: sub_def)

lemma sub_join: "sub bs i n @ sub bs (i + n) m = sub bs i (n + m)"
  by (simp add: sub_def take_add add.commute [of i n])

lemma sub_drop: "j = i + n \<Longrightarrow> sub bs i n @ drop j bs = drop i bs"
  by (simp add: sub_def) (metis add.commute append_take_drop_id drop_drop)

lemma sub_last: "i + n = length bs \<Longrightarrow> sub bs i n = drop i bs"
  by (auto simp: sub_def)

text \<open>Reading a field out of an encoded struct, and putting the fields of one back together.\<close>

lemmas sub_codec = sub_append_skip sub_append_hit sub_all
lemmas sub_glue = sub_drop sub_last

text \<open>\<open>chunks n bs\<close> cuts \<open>bs\<close> into pieces of \<open>n\<close> bytes (the last may be shorter).\<close>

function chunks :: "nat \<Rightarrow> 'a list \<Rightarrow> 'a list list" where
  "chunks n xs = (if n = 0 \<or> xs = [] then [] else take n xs # chunks n (drop n xs))"
  by pat_completeness auto
termination
  by (relation "measure (\<lambda>(n, xs). length xs)") auto

declare chunks.simps [simp del]

lemma chunks_Nil [simp]: "chunks n [] = []"
  by (simp add: chunks.simps)

lemma chunks_append:
  assumes "length x = n" and "0 < n"
  shows "chunks n (x @ ys) = x # chunks n ys"
  using assms by (subst chunks.simps) auto

lemma concat_chunks: "0 < n \<Longrightarrow> concat (chunks n xs) = xs"
proof (induction n xs rule: chunks.induct)
  case (1 n xs)
  then show ?case by (subst chunks.simps) (simp add: "1.IH")
qed

lemma chunks_exact: "n dvd length xs \<Longrightarrow> c \<in> set (chunks n xs) \<Longrightarrow> length c = n"
proof (induction n xs rule: chunks.induct)
  case (1 n xs)
  show ?case
  proof (cases "n = 0 \<or> xs = []")
    case True
    then show ?thesis using "1.prems" by (simp add: chunks.simps)
  next
    case False
    then have le: "n \<le> length xs" and dv: "n dvd length (drop n xs)"
      using "1.prems"(1) by (auto intro: dvd_imp_le)
    from "1.prems"(2) False have "c = take n xs \<or> c \<in> set (chunks n (drop n xs))"
      by (simp add: chunks.simps [of n xs])
    then show ?thesis using "1.IH" [OF False dv] le by auto
  qed
qed

lemma length_chunks: "0 < n \<Longrightarrow> n dvd length xs \<Longrightarrow> length (chunks n xs) = length xs div n"
proof (induction n xs rule: chunks.induct)
  case (1 n xs)
  show ?case
  proof (cases "xs = []")
    case True
    then show ?thesis by simp
  next
    case False
    then have le: "n \<le> length xs" and dv: "n dvd length (drop n xs)"
      using "1.prems" by (auto intro: dvd_imp_le)
    have "length (chunks n xs) = Suc (length (drop n xs) div n)"
      using False "1.prems" "1.IH" [OF _ "1.prems"(1) dv] by (simp add: chunks.simps [of n xs])
    then show ?thesis using le "1.prems"(1) by (simp add: div_if)
  qed
qed

subsection \<open>Fixed-width codecs\<close>

text \<open>
  A packed struct is read with \<open>read_from_prefix\<close> (its first \<open>width\<close> bytes, \<open>None\<close> when there
  are fewer) and a list of them with \<open>slice_from\<close> (\<open>None\<close> unless the bytes divide evenly).
\<close>

definition read_from_prefix :: "nat \<Rightarrow> (bytes \<Rightarrow> 'a) \<Rightarrow> bytes \<Rightarrow> 'a option" where
  "read_from_prefix n dec bs = (if n \<le> length bs then Some (dec (take n bs)) else None)"

definition slice_from :: "nat \<Rightarrow> (bytes \<Rightarrow> 'a) \<Rightarrow> bytes \<Rightarrow> 'a list option" where
  "slice_from n dec bs = (if length bs mod n = 0 then Some (map dec (chunks n bs)) else None)"

locale fixed_codec =
  fixes width :: nat
    and enc :: "'a \<Rightarrow> bytes"
    and dec :: "bytes \<Rightarrow> 'a"
  assumes width_pos: "0 < width"
    and length_enc: "length (enc x) = width"
    and dec_enc: "dec (enc x) = x"
    and enc_dec: "length bs = width \<Longrightarrow> enc (dec bs) = bs"
begin

lemma enc_inj: "enc x = enc y \<Longrightarrow> x = y"
  by (metis dec_enc)

lemma read_enc: "read_from_prefix width dec (enc x @ rest) = Some x"
  by (simp add: read_from_prefix_def length_enc dec_enc)

lemma read_Some: "read_from_prefix width dec bs = Some x \<Longrightarrow> bs = enc x @ drop width bs"
  by (auto simp: read_from_prefix_def enc_dec split: if_splits)

lemma length_concat_enc: "length (concat (map enc xs)) = width * length xs"
  by (induction xs) (auto simp: length_enc)

lemma chunks_concat_enc: "chunks width (concat (map enc xs)) = map enc xs"
  by (induction xs) (auto simp: chunks_append length_enc width_pos)

lemma slice_enc: "slice_from width dec (concat (map enc xs)) = Some xs"
  by (simp add: slice_from_def length_concat_enc chunks_concat_enc o_def dec_enc)

lemma slice_Some:
  assumes "slice_from width dec bs = Some xs"
  shows "concat (map enc xs) = bs"
proof -
  have m: "width dvd length bs" and xs: "xs = map dec (chunks width bs)"
    using assms by (auto simp: slice_from_def split: if_splits)
  have "map (enc \<circ> dec) (chunks width bs) = chunks width bs"
    by (rule map_idI) (simp add: enc_dec chunks_exact [OF m])
  then show ?thesis by (simp add: xs concat_chunks width_pos)
qed

lemma slice_length:
  assumes "slice_from width dec bs = Some xs"
  shows "width * length xs = length bs"
  using slice_Some [OF assms] length_concat_enc [of xs] by simp

end

interpretation be16: fixed_codec 2 "word_be 2 :: u16 \<Rightarrow> bytes" be_word
  by unfold_locales (auto simp: codec_simps)

interpretation be32: fixed_codec 4 "word_be 4 :: u32 \<Rightarrow> bytes" be_word
  by unfold_locales (auto simp: codec_simps)

interpretation be64: fixed_codec 8 "word_be 8 :: u64 \<Rightarrow> bytes" be_word
  by unfold_locales (auto simp: codec_simps)

interpretation be160: fixed_codec 20 "word_be 20 :: 160 word \<Rightarrow> bytes" be_word
  by unfold_locales (auto simp: codec_simps)

subsection \<open>ASCII\<close>

definition ascii_digit :: "u8 \<Rightarrow> bool" where
  "ascii_digit c = (48 \<le> c \<and> c \<le> 57)"

definition ascii_upper :: "u8 \<Rightarrow> bool" where
  "ascii_upper c = (65 \<le> c \<and> c \<le> 90)"

definition ascii_lower :: "u8 \<Rightarrow> bool" where
  "ascii_lower c = (97 \<le> c \<and> c \<le> 122)"

definition ascii_alphabetic :: "u8 \<Rightarrow> bool" where
  "ascii_alphabetic c = (ascii_upper c \<or> ascii_lower c)"

definition ascii_alphanumeric :: "u8 \<Rightarrow> bool" where
  "ascii_alphanumeric c = (ascii_alphabetic c \<or> ascii_digit c)"

definition ascii_hexdigit :: "u8 \<Rightarrow> bool" where
  "ascii_hexdigit c = (ascii_digit c \<or> (65 \<le> c \<and> c \<le> 70) \<or> (97 \<le> c \<and> c \<le> 102))"

definition to_lower :: "u8 \<Rightarrow> u8" where
  "to_lower c = (if ascii_upper c then c + 32 else c)"

definition to_upper :: "u8 \<Rightarrow> u8" where
  "to_upper c = (if ascii_lower c then c - 32 else c)"

lemmas ascii_defs = ascii_digit_def ascii_upper_def ascii_lower_def ascii_alphabetic_def
  ascii_alphanumeric_def ascii_hexdigit_def to_lower_def to_upper_def

text \<open>\<open>eq_ignore_ascii_case\<close> compares two byte strings up to the case of ASCII letters.\<close>

definition eq_ignore_case :: "bytes \<Rightarrow> bytes \<Rightarrow> bool" where
  "eq_ignore_case a b = (map to_lower a = map to_lower b)"

lemma eq_ignore_case_refl [simp]: "eq_ignore_case a a"
  by (simp add: eq_ignore_case_def)

lemma eq_ignore_case_length: "eq_ignore_case a b \<Longrightarrow> length a = length b"
  using map_eq_imp_length_eq by (auto simp: eq_ignore_case_def)

definition starts_with :: "bytes \<Rightarrow> bytes \<Rightarrow> bool" where
  "starts_with s p = (take (length p) s = p)"

definition ends_with :: "bytes \<Rightarrow> bytes \<Rightarrow> bool" where
  "ends_with s p = (length p \<le> length s \<and> drop (length s - length p) s = p)"

text \<open>All windows of \<open>n\<close> consecutive elements, in order, as \<open>slice::windows\<close> lists them.\<close>

definition windows :: "nat \<Rightarrow> 'a list \<Rightarrow> 'a list list" where
  "windows n xs = map (\<lambda>i. sub xs i n) [0..<length xs + 1 - n]"

text \<open>\<open>split sep s\<close> is Rust's \<open>s.split(sep)\<close>: always at least one piece.\<close>

fun split_on :: "'a \<Rightarrow> 'a list \<Rightarrow> 'a list list" where
  "split_on sep [] = [[]]"
| "split_on sep (c # cs) =
     (if c = sep then [] # split_on sep cs
      else (case split_on sep cs of [] \<Rightarrow> [[c]] | p # ps \<Rightarrow> (c # p) # ps))"

lemma split_on_ne [simp]: "split_on sep s \<noteq> []"
  by (induction s) (auto split: list.splits)

lemma split_on_append: "split_on sep (a @ sep # b) = split_on sep a @ split_on sep b"
  by (induction a) (auto split: list.splits)

subsection \<open>UTF-8\<close>

text \<open>
  One step of the standard library's decoder at the head of a non-empty byte string: the number of
  bytes consumed and whether they are a well-formed character (else they are a maximal prefix of
  an ill-formed one, which \<open>String::from_utf8_lossy\<close> replaces by U+FFFD).
\<close>

definition cont_byte :: "u8 \<Rightarrow> bool" where
  "cont_byte b = (0x80 \<le> b \<and> b \<le> 0xBF)"

definition nth_sat :: "(u8 \<Rightarrow> bool) \<Rightarrow> bytes \<Rightarrow> nat \<Rightarrow> bool" where
  "nth_sat P bs i = (i < length bs \<and> P (bs ! i))"

definition in_range :: "u8 \<Rightarrow> u8 \<Rightarrow> u8 \<Rightarrow> bool" where
  "in_range lo hi c = (lo \<le> c \<and> c \<le> hi)"

definition seq2 :: "bytes \<Rightarrow> nat \<times> bool" where
  "seq2 bs = (if nth_sat cont_byte bs 1 then (2, True) else (1, False))"

definition seq3 :: "u8 \<Rightarrow> u8 \<Rightarrow> bytes \<Rightarrow> nat \<times> bool" where
  "seq3 lo hi bs = (if \<not> nth_sat (in_range lo hi) bs 1 then (1, False)
     else if \<not> nth_sat cont_byte bs 2 then (2, False) else (3, True))"

definition seq4 :: "u8 \<Rightarrow> u8 \<Rightarrow> bytes \<Rightarrow> nat \<times> bool" where
  "seq4 lo hi bs = (if \<not> nth_sat (in_range lo hi) bs 1 then (1, False)
     else if \<not> nth_sat cont_byte bs 2 then (2, False)
     else if \<not> nth_sat cont_byte bs 3 then (3, False) else (4, True))"

definition utf8_step :: "bytes \<Rightarrow> nat \<times> bool" where
  "utf8_step bs =
     (if hd bs < 0x80 then (1, True)
      else if in_range 0xC2 0xDF (hd bs) then seq2 bs
      else if hd bs = 0xE0 then seq3 0xA0 0xBF bs
      else if hd bs = 0xED then seq3 0x80 0x9F bs
      else if in_range 0xE1 0xEF (hd bs) then seq3 0x80 0xBF bs
      else if hd bs = 0xF0 then seq4 0x90 0xBF bs
      else if in_range 0xF1 0xF3 (hd bs) then seq4 0x80 0xBF bs
      else if hd bs = 0xF4 then seq4 0x80 0x8F bs
      else (1, False))"

lemma seq_pos [simp]: "0 < fst (seq2 bs)" "0 < fst (seq3 lo hi bs)" "0 < fst (seq4 lo hi bs)"
  by (simp_all add: seq2_def seq3_def seq4_def)

lemma utf8_step_pos: "0 < fst (utf8_step bs)"
  by (simp add: utf8_step_def)

lemma utf8_step_consumes: "(n, ok) = utf8_step bs \<Longrightarrow> 0 < n"
  using utf8_step_pos [of bs] by (metis fst_conv)

function from_utf8_lossy :: "bytes \<Rightarrow> bytes" where
  "from_utf8_lossy bs =
     (if bs = [] then []
      else (let (n, ok) = utf8_step bs
            in (if ok then take n bs else [0xEF, 0xBF, 0xBD]) @ from_utf8_lossy (drop n bs)))"
  by pat_completeness auto
termination
  by (relation "measure length") (auto dest: utf8_step_consumes)

function valid_utf8 :: "bytes \<Rightarrow> bool" where
  "valid_utf8 bs =
     (if bs = [] then True
      else (let (n, ok) = utf8_step bs in if ok then valid_utf8 (drop n bs) else False))"
  by pat_completeness auto
termination
  by (relation "measure length") (auto dest: utf8_step_consumes)

declare from_utf8_lossy.simps [simp del] valid_utf8.simps [simp del]

lemma from_utf8_lossy_valid: "valid_utf8 bs \<Longrightarrow> from_utf8_lossy bs = bs"
proof (induction bs rule: from_utf8_lossy.induct)
  case (1 bs)
  show ?case
  proof (cases "bs = []")
    case True
    then show ?thesis by (simp add: from_utf8_lossy.simps)
  next
    case False
    obtain n ok where st: "utf8_step bs = (n, ok)" by (cases "utf8_step bs") auto
    have ok: "ok" and v: "valid_utf8 (drop n bs)"
      using "1.prems" False st by (auto simp: valid_utf8.simps [of bs] split: if_splits)
    have "from_utf8_lossy (drop n bs) = drop n bs"
      using "1.IH" [OF False refl] st v by auto
    then show ?thesis using False st ok by (simp add: from_utf8_lossy.simps [of bs])
  qed
qed

subsection \<open>Rust's \<open>str::chars\<close>\<close>

definition code_point :: "bytes \<Rightarrow> nat" where
  "code_point bs =
     (case bs of
        [a] \<Rightarrow> unat a
      | [a, b] \<Rightarrow> (unat a mod 32) * 64 + unat b mod 64
      | [a, b, d] \<Rightarrow> (unat a mod 16) * 4096 + (unat b mod 64) * 64 + unat d mod 64
      | [a, b, d, e] \<Rightarrow> (unat a mod 8) * 262144 + (unat b mod 64) * 4096 + (unat d mod 64) * 64 +
          unat e mod 64
      | _ \<Rightarrow> 0)"

function chars :: "bytes \<Rightarrow> nat list" where
  "chars bs =
     (if bs = [] then []
      else (let n = fst (utf8_step bs) in code_point (take n bs) # chars (drop n bs)))"
  by pat_completeness auto
termination
  by (relation "measure length") (auto simp: utf8_step_pos)

declare chars.simps [simp del]

lemma chars_Nil [simp]: "chars [] = []"
  by (simp add: chars.simps)

lemma chars_ascii: "b < 0x80 \<Longrightarrow> chars (b # bs) = unat b # chars bs"
  by (subst chars.simps) (simp add: utf8_step_def code_point_def)

lemma chars_all_ascii: "list_all (\<lambda>b. b < 0x80) bs \<Longrightarrow> chars bs = map unat bs"
  by (induction bs) (auto simp: chars_ascii)

subsection \<open>Rust's \<open>str::trim\<close>, \<open>str::lines\<close> and \<open>str::parse\<close>\<close>

text \<open>The UTF-8 encodings of the characters with the Unicode property White\_Space.\<close>

definition white_space :: "bytes list" where
  "white_space = [[9], [10], [11], [12], [13], [32], [0xC2, 0x85], [0xC2, 0xA0],
     [0xE1, 0x9A, 0x80]] @ map (\<lambda>i. [0xE2, 0x80, 0x80 + word_of_nat i]) [0..<11] @
     [[0xE2, 0x80, 0xA8], [0xE2, 0x80, 0xA9], [0xE2, 0x80, 0xAF], [0xE2, 0x81, 0x9F],
      [0xE3, 0x80, 0x80]]"

definition strip_prefixes :: "bytes list \<Rightarrow> bytes \<Rightarrow> nat" where
  "strip_prefixes ps s = (case filter (\<lambda>p. p \<noteq> [] \<and> starts_with s p) ps of
     [] \<Rightarrow> 0 | p # _ \<Rightarrow> length p)"

definition strip_suffixes :: "bytes list \<Rightarrow> bytes \<Rightarrow> nat" where
  "strip_suffixes ps s = (case filter (\<lambda>p. p \<noteq> [] \<and> ends_with s p) ps of
     [] \<Rightarrow> 0 | p # _ \<Rightarrow> length p)"

function trim_start_matches :: "bytes list \<Rightarrow> bytes \<Rightarrow> bytes" where
  "trim_start_matches ps s =
     (if strip_prefixes ps s = 0 \<or> s = [] then s
      else trim_start_matches ps (drop (strip_prefixes ps s) s))"
  by pat_completeness auto
termination
  by (relation "measure (\<lambda>(ps, s). length s)") auto

function trim_end_matches :: "bytes list \<Rightarrow> bytes \<Rightarrow> bytes" where
  "trim_end_matches ps s =
     (if strip_suffixes ps s = 0 \<or> s = [] then s
      else trim_end_matches ps (take (length s - strip_suffixes ps s) s))"
  by pat_completeness auto
termination
  by (relation "measure (\<lambda>(ps, s). length s)") auto

declare trim_start_matches.simps [simp del] trim_end_matches.simps [simp del]

definition trim :: "bytes \<Rightarrow> bytes" where
  "trim s = trim_end_matches white_space (trim_start_matches white_space s)"

text \<open>
  \<open>lines\<close>: pieces ended by a line feed, a carriage return before it dropped, and no empty
  piece after a final line feed.
\<close>

definition strip_cr :: "bytes \<Rightarrow> bytes" where
  "strip_cr l = (if l \<noteq> [] \<and> last l = 13 then butlast l else l)"

definition lines :: "bytes \<Rightarrow> bytes list" where
  "lines s = (let ps = split_on 10 s
     in map strip_cr (butlast ps) @ (if last ps = [] then [] else [last ps]))"

lemma split_on_single: "sep \<notin> set a \<Longrightarrow> split_on sep a = [a]"
  by (induction a) auto

lemma lines_newline: "lines (a @ 10 # b) = map strip_cr (split_on 10 a) @ lines b"
  by (simp add: lines_def Let_def split_on_append butlast_append)

text \<open>
  \<open>s.parse::<uN>()\<close> for an unsigned type with the largest value \<open>m\<close>: an optional plus sign, then at
  least one digit and nothing else, and an error on overflow.
\<close>

definition digits_value :: "bytes \<Rightarrow> nat" where
  "digits_value ds = foldl (\<lambda>acc d. acc * 10 + unat (d - 48)) 0 ds"

definition parse_uint :: "nat \<Rightarrow> bytes \<Rightarrow> nat option" where
  "parse_uint m s =
     (let ds = (if s \<noteq> [] \<and> hd s = 43 then tl s else s)
      in if ds = [] \<or> \<not> list_all ascii_digit ds then None
         else if m < digits_value ds then None else Some (digits_value ds))"

lemma parse_uint_le: "parse_uint m s = Some n \<Longrightarrow> n \<le> m"
  by (auto simp: parse_uint_def Let_def split: if_splits)

text \<open>\<open>to_string\<close> of an unsigned integer.\<close>

function dec_string :: "nat \<Rightarrow> bytes" where
  "dec_string n = (if n < 10 then [48 + word_of_nat n]
     else dec_string (n div 10) @ [48 + word_of_nat (n mod 10)])"
  by pat_completeness auto
termination by (relation "measure id") auto

declare dec_string.simps [simp del]

lemma ascii_digit_small:
  "d < 10 \<Longrightarrow> ascii_digit (48 + word_of_nat d) \<and> unat ((48 + word_of_nat d :: u8) - 48) = d"
proof -
  assume "d < 10"
  then have "unat (48 + word_of_nat d :: u8) = 48 + d" "unat (word_of_nat d :: u8) = d"
    by (simp_all add: unat_word_ariths unat_of_nat)
  then show ?thesis using \<open>d < 10\<close> by (simp add: ascii_digit_def word_le_nat_alt)
qed

lemma dec_string_ok:
  "dec_string n \<noteq> [] \<and> list_all ascii_digit (dec_string n) \<and> digits_value (dec_string n) = n"
proof (induction n rule: dec_string.induct)
  case (1 n)
  show ?case
  proof (cases "n < 10")
    case True
    then show ?thesis
      using ascii_digit_small [OF True] by (simp add: dec_string.simps [of n] digits_value_def)
  next
    case False
    then show ?thesis
      using "1.IH" ascii_digit_small [of "n mod 10"]
      by (simp add: dec_string.simps [of n] digits_value_def)
  qed
qed

lemma parse_dec_string: "n \<le> m \<Longrightarrow> parse_uint m (dec_string n) = Some n"
proof -
  assume "n \<le> m"
  moreover have "hd (dec_string n) \<noteq> 43"
    using dec_string_ok [of n] by (cases "dec_string n") (auto simp: ascii_digit_def)
  ultimately show ?thesis using dec_string_ok [of n] by (simp add: parse_uint_def)
qed

definition u8_max :: nat where "u8_max = 255"
definition u16_max :: nat where "u16_max = 65535"
definition u32_max :: nat where "u32_max = 4294967295"
definition u64_max :: nat where "u64_max = 18446744073709551615"

definition sat_add :: "nat \<Rightarrow> nat \<Rightarrow> nat \<Rightarrow> nat" where
  "sat_add m a b = min m (a + b)"

definition sat_mul :: "nat \<Rightarrow> nat \<Rightarrow> nat \<Rightarrow> nat" where
  "sat_mul m a b = min m (a * b)"

lemmas sat_defs = sat_add_def sat_mul_def u32_max_def u64_max_def

subsection \<open>Lists and association lists\<close>

lemma length_filter_conv_compl:
  "length xs - length (filter P xs) = length (filter (\<lambda>x. \<not> P x) xs)"
  using sum_length_filter_compl [of P xs] by simp

lemma map_of_Some_mem: "map_of m k = Some v \<Longrightarrow> k \<in> fst ` set m"
  by (force dest: map_of_SomeD)

lemma distinct_map_filter: "distinct (map f xs) \<Longrightarrow> distinct (map f (filter P xs))"
  by (induction xs) auto

lemma mset_filter_length: "mset xs = mset ys \<Longrightarrow> length (filter P xs) = length (filter P ys)"
  by (metis mset_filter size_mset)

lemma mset_distinct_keys: "mset xs = mset ys \<Longrightarrow> distinct (map f xs) = distinct (map f ys)"
  by (metis mset_eq_imp_distinct_iff mset_map)

lemma mset_map_of:
  assumes "mset xs = mset ys" and "distinct (map fst xs)"
  shows "map_of xs k = map_of ys k"
proof -
  have d: "distinct (map fst ys)" using assms mset_distinct_keys by blast
  have s: "set xs = set ys" using assms(1) by (rule mset_eq_setD)
  show ?thesis
  proof (cases "map_of xs k")
    case None
    then show ?thesis using s by (metis map_of_eq_None_iff)
  next
    case (Some v)
    then show ?thesis using assms(2) d s by (metis map_of_eq_Some_iff)
  qed
qed

end
