(* ===== verification/Crates.thy ===== *)
theory Crates
  imports Prelude
begin

text \<open>
  The third-party crates the tracker calls. Their code is not part of the repository, so what
  they compute is an argument of the definitions that use it, and what the tracker relies on is
  stated here as the assumptions of a locale, each a sentence of the crate's documentation.

  An \<open>indexmap::IndexMap\<close> is observed through its entries in index order, so its value is that
  list; \<open>get\<close>, \<open>len\<close>, \<open>iter\<close>, \<open>get_range\<close> and \<open>retain\<close> (documented to keep the order) read or
  filter it. The two operations that decide where an entry goes, \<open>insert\<close> and \<open>swap_remove\<close>,
  are parameters. \<open>rand::Rng::gen_range\<close> is a parameter that threads the generator's state.
  Reference instances of both show that the assumptions can be met.
\<close>

subsection \<open>\<open>indexmap\<close>\<close>

type_synonym ('k, 'v) index_map = "('k \<times> 'v) list"

record ('k, 'v) index_map_ops =
  im_insert :: "'k \<Rightarrow> 'v \<Rightarrow> ('k, 'v) index_map \<Rightarrow> ('k, 'v) index_map"
  im_swap_remove :: "'k \<Rightarrow> ('k, 'v) index_map \<Rightarrow> ('k, 'v) index_map"

abbreviation im_keys :: "('k, 'v) index_map \<Rightarrow> 'k list" where
  "im_keys m \<equiv> map fst m"

text \<open>\<open>get_range(a..b)\<close>: the slice of the entries, \<open>None\<close> when the range is out of bounds.\<close>

definition im_get_range :: "nat \<Rightarrow> nat \<Rightarrow> ('k, 'v) index_map \<Rightarrow> ('k, 'v) index_map option" where
  "im_get_range a b m = (if a \<le> b \<and> b \<le> length m then Some (sub m a (b - a)) else None)"

lemma map_of_filter_key: "map_of (filter (\<lambda>e. fst e \<noteq> k) m) = (map_of m)(k := None)"
  by (induction m) (auto simp: fun_eq_iff)

lemma notin_keysD: "k \<notin> fst ` set m \<Longrightarrow> e \<in> set m \<Longrightarrow> fst e \<noteq> k"
  by auto

locale index_map =
  fixes ops :: "('k, 'v) index_map_ops"
  assumes insert_new: "k \<notin> set (im_keys m) \<Longrightarrow> im_insert ops k v m = m @ [(k, v)]"
    and insert_old: "k \<in> set (im_keys m) \<Longrightarrow> distinct (im_keys m) \<Longrightarrow>
      im_insert ops k v m = map (\<lambda>e. if fst e = k then (fst e, v) else e) m"
    and swap_remove: "distinct (im_keys m) \<Longrightarrow>
      mset (im_swap_remove ops k m) = mset (filter (\<lambda>e. fst e \<noteq> k) m)"
begin

lemma distinct_insert: "distinct (im_keys m) \<Longrightarrow> distinct (im_keys (im_insert ops k v m))"
proof (cases "k \<in> set (im_keys m)")
  case True
  assume d: "distinct (im_keys m)"
  have "im_keys (im_insert ops k v m) = im_keys m"
    unfolding insert_old [OF True d] by simp
  then show ?thesis using d by simp
next
  case False
  assume "distinct (im_keys m)"
  then show ?thesis using False by (simp add: insert_new)
qed

lemma distinct_swap_remove:
  "distinct (im_keys m) \<Longrightarrow> distinct (im_keys (im_swap_remove ops k m))"
  by (simp add: mset_distinct_keys [OF swap_remove] distinct_map_filter)

lemma set_swap_remove:
  "distinct (im_keys m) \<Longrightarrow> set (im_swap_remove ops k m) = {e \<in> set m. fst e \<noteq> k}"
  using mset_eq_setD [OF swap_remove [of m k]] by auto

lemma swap_remove_notin:
  "distinct (im_keys m) \<Longrightarrow> k \<notin> set (im_keys (im_swap_remove ops k m))"
  by (auto simp: set_swap_remove)

lemma length_filter_swap_remove:
  "distinct (im_keys m) \<Longrightarrow>
   length (filter P (im_swap_remove ops k m)) = length (filter P (filter (\<lambda>e. fst e \<noteq> k) m))"
  by (rule mset_filter_length) (rule swap_remove)

lemma length_swap_remove:
  "distinct (im_keys m) \<Longrightarrow>
   length (im_swap_remove ops k m) = length (filter (\<lambda>e. fst e \<noteq> k) m)"
  using length_filter_swap_remove [of m "\<lambda>_. True"] by simp

lemma map_of_swap_remove:
  assumes "distinct (im_keys m)"
  shows "map_of (im_swap_remove ops k m) = (map_of m)(k := None)"
proof
  fix x
  have "map_of (im_swap_remove ops k m) x = map_of (filter (\<lambda>e. fst e \<noteq> k) m) x"
    using assms by (intro mset_map_of swap_remove distinct_swap_remove)
  then show "map_of (im_swap_remove ops k m) x = ((map_of m)(k := None)) x"
    by (simp add: map_of_filter_key)
qed

lemma map_of_insert:
  assumes "distinct (im_keys m)"
  shows "map_of (im_insert ops k v m) = (map_of m)(k \<mapsto> v)"
proof (cases "k \<in> set (im_keys m)")
  case True
  have "map_of (map (\<lambda>e. if fst e = k then (fst e, v) else e) m) =
      (\<lambda>x. if x = k \<and> k \<in> set (im_keys m) then Some v else map_of m x)"
    by (induction m) (auto simp: fun_eq_iff)
  then show ?thesis
    using True assms by (simp add: insert_old fun_eq_iff)
next
  case False
  then have "map_of m k = None" by (simp add: map_of_eq_None_iff)
  then show ?thesis
    using False by (auto simp: insert_new fun_eq_iff map_add_def split: option.splits)
qed

end

text \<open>The instance whose swap removal moves the last entry into the gap.\<close>

fun ref_swap_remove :: "'k \<Rightarrow> ('k, 'v) index_map \<Rightarrow> ('k, 'v) index_map" where
  "ref_swap_remove k [] = []"
| "ref_swap_remove k (e # es) =
     (if fst e = k then (if es = [] then [] else last es # butlast es)
      else e # ref_swap_remove k es)"

definition ref_index_map :: "('k, 'v) index_map_ops" where
  "ref_index_map = \<lparr>im_insert = AList.update, im_swap_remove = ref_swap_remove\<rparr>"

lemma ref_index_map_sel [simp]:
  "im_insert ref_index_map = AList.update" "im_swap_remove ref_index_map = ref_swap_remove"
  by (simp_all add: ref_index_map_def)

lemma update_new: "k \<notin> set (im_keys m) \<Longrightarrow> AList.update k v m = m @ [(k, v)]"
  by (induction m) auto

lemma update_old:
  "k \<in> set (im_keys m) \<Longrightarrow> distinct (im_keys m) \<Longrightarrow>
   AList.update k v m = map (\<lambda>e. if fst e = k then (fst e, v) else e) m"
proof (induction m)
  case Nil
  then show ?case by simp
next
  case (Cons e m)
  show ?case
  proof (cases "fst e = k")
    case True
    then have "map (\<lambda>e. if fst e = k then (fst e, v) else e) m = m"
      using Cons.prems by (intro map_idI) (auto dest: notin_keysD)
    then show ?thesis using True by (cases e) auto
  next
    case False
    then show ?thesis using Cons by (cases e) auto
  qed
qed

lemma mset_ref_swap_remove:
  "distinct (im_keys m) \<Longrightarrow> mset (ref_swap_remove k m) = mset (filter (\<lambda>e. fst e \<noteq> k) m)"
proof (induction m)
  case Nil
  then show ?case by simp
next
  case (Cons e m)
  show ?case
  proof (cases "fst e = k")
    case True
    then have "filter (\<lambda>e. fst e \<noteq> k) m = m"
      using Cons.prems by (auto simp: filter_id_conv dest: notin_keysD)
    moreover have "m \<noteq> [] \<Longrightarrow> add_mset (last m) (mset (butlast m)) = mset m"
      by (metis append_butlast_last_id mset.simps(1,2) mset_append union_mset_add_mset_right
          add.right_neutral)
    ultimately show ?thesis using True by auto
  next
    case False
    then show ?thesis using Cons by simp
  qed
qed

interpretation ref: index_map "ref_index_map :: ('k, 'v) index_map_ops"
  by unfold_locales (auto simp: update_new update_old mset_ref_swap_remove)

lemmas ref_index_map_laws = ref.index_map_axioms

subsection \<open>\<open>rand\<close>\<close>

text \<open>\<open>gen_range(lo..=hi)\<close> draws a number of the inclusive range.\<close>

type_synonym 'r gen_range = "nat \<Rightarrow> nat \<Rightarrow> 'r \<Rightarrow> nat \<times> 'r"

locale rng_source =
  fixes gen :: "'r gen_range"
  assumes in_range: "lo \<le> hi \<Longrightarrow> lo \<le> fst (gen lo hi r) \<and> fst (gen lo hi r) \<le> hi"
begin

lemma below: "fst (gen 0 n r) \<le> n"
  using in_range [of 0 n r] by simp

lemma drawn: "lo \<le> hi \<Longrightarrow> gen lo hi r = (x, r') \<Longrightarrow> lo \<le> x \<and> x \<le> hi"
  using in_range [of lo hi r] by simp

end

text \<open>A generator over a stored list of numbers, each folded into the range.\<close>

fun ref_gen_range :: "nat list gen_range" where
  "ref_gen_range lo hi [] = (lo, [])"
| "ref_gen_range lo hi (x # xs) = (lo + x mod (hi - lo + 1), xs)"

interpretation ref_rng: rng_source ref_gen_range
proof
  fix lo hi :: nat and r :: "nat list"
  assume le: "lo \<le> hi"
  show "lo \<le> fst (ref_gen_range lo hi r) \<and> fst (ref_gen_range lo hi r) \<le> hi"
  proof (cases r)
    case Nil
    then show ?thesis using le by simp
  next
    case (Cons x xs)
    have "x mod (hi - lo + 1) < hi - lo + 1" by (rule mod_less_divisor) simp
    then show ?thesis unfolding Cons ref_gen_range.simps fst_conv using le by linarith
  qed
qed

lemmas ref_gen_range_laws = ref_rng.rng_source_axioms

subsection \<open>\<open>hex\<close>\<close>

text \<open>
  \<open>encode_to_slice\<close> writes two lower case hexadecimal digits per byte; \<open>decode_to_slice\<close> fills a
  slice of \<open>n\<close> bytes from exactly \<open>2 * n\<close> digits of either case and fails on anything else.
\<close>

record hex_ops =
  hex_encode :: "bytes \<Rightarrow> bytes"
  hex_decode :: "nat \<Rightarrow> bytes \<Rightarrow> bytes option"

locale hex_crate =
  fixes ops :: hex_ops
  assumes length_encode: "length (hex_encode ops bs) = 2 * length bs"
    and encode_digits: "c \<in> set (hex_encode ops bs) \<Longrightarrow> ascii_hexdigit c"
    and decode_encode: "hex_decode ops (length bs) (hex_encode ops bs) = Some bs"
    and decode_length: "hex_decode ops n s = Some bs \<Longrightarrow> length bs = n \<and> length s = 2 * n"
    and decode_digits: "hex_decode ops n s = Some bs \<Longrightarrow> c \<in> set s \<Longrightarrow> ascii_hexdigit c"
    and decode_case: "eq_ignore_case s t \<Longrightarrow> hex_decode ops n s = hex_decode ops n t"
begin

lemma encode_inj: "length a = length b \<Longrightarrow> hex_encode ops a = hex_encode ops b \<Longrightarrow> a = b"
  by (metis decode_encode option.inject)

lemma decode_wrong_length: "length s \<noteq> 2 * n \<Longrightarrow> hex_decode ops n s = None"
  using decode_length by (cases "hex_decode ops n s") auto

lemma decode_encode_n: "length bs = n \<Longrightarrow> hex_decode ops n (hex_encode ops bs) = Some bs"
  using decode_encode by blast

end

definition hex_digit :: "nat \<Rightarrow> u8" where
  "hex_digit n = (if n < 10 then 48 + word_of_nat n else 87 + word_of_nat n)"

definition hex_value :: "u8 \<Rightarrow> nat option" where
  "hex_value c = (if ascii_digit c then Some (unat c - 48)
     else if 97 \<le> c \<and> c \<le> 102 then Some (unat c - 87)
     else if 65 \<le> c \<and> c \<le> 70 then Some (unat c - 55) else None)"

fun ref_hex_encode :: "bytes \<Rightarrow> bytes" where
  "ref_hex_encode [] = []"
| "ref_hex_encode (b # bs) =
     hex_digit (unat b div 16) # hex_digit (unat b mod 16) # ref_hex_encode bs"

fun ref_hex_decode :: "nat \<Rightarrow> bytes \<Rightarrow> bytes option" where
  "ref_hex_decode 0 [] = Some []"
| "ref_hex_decode (Suc n) (h # l # s) =
     (case (hex_value h, hex_value l, ref_hex_decode n s) of
        (Some a, Some b, Some bs) \<Rightarrow> Some (word_of_nat (a * 16 + b) # bs)
      | _ \<Rightarrow> None)"
| "ref_hex_decode _ _ = None"

definition ref_hex :: hex_ops where
  "ref_hex = \<lparr>hex_encode = ref_hex_encode, hex_decode = ref_hex_decode\<rparr>"

lemma ref_hex_sel [simp]:
  "hex_encode ref_hex = ref_hex_encode" "hex_decode ref_hex = ref_hex_decode"
  by (simp_all add: ref_hex_def)

lemma unat_hex_digit:
  "n < 16 \<Longrightarrow> unat (hex_digit n) = (if n < 10 then 48 + n else 87 + n)"
  by (simp add: hex_digit_def unat_word_ariths unat_of_nat)

lemma hex_digit_table: "n < 16 \<Longrightarrow> hex_value (hex_digit n) = Some n \<and> ascii_hexdigit (hex_digit n)"
  by (auto simp: hex_value_def ascii_hexdigit_def ascii_digit_def word_le_nat_alt unat_hex_digit)

lemma hex_value_digit: "hex_value c = Some v \<Longrightarrow> ascii_hexdigit c"
  by (auto simp: hex_value_def ascii_hexdigit_def split: if_splits)

lemma hex_value_lower: "hex_value (to_lower c) = hex_value c"
proof (cases "ascii_upper c")
  case True
  then have "65 \<le> unat c" "unat c \<le> 90" "unat (c + 32) = unat c + 32"
    by (auto simp: ascii_upper_def word_le_nat_alt unat_word_ariths)
  then show ?thesis
    using True by (auto simp: hex_value_def to_lower_def ascii_digit_def word_le_nat_alt)
next
  case False
  then show ?thesis by (simp add: to_lower_def)
qed

lemma ref_decode_encode: "ref_hex_decode (length bs) (ref_hex_encode bs) = Some bs"
proof (induction bs)
  case Nil
  then show ?case by simp
next
  case (Cons b bs)
  have "unat b div 16 < 16" using unat_byte_lt [of b] by (simp add: div_less_iff_less_mult)
  then show ?case using Cons by (simp add: hex_digit_table)
qed

lemma ref_decode_lower: "ref_hex_decode n (map to_lower s) = ref_hex_decode n s"
  by (induction n s rule: ref_hex_decode.induct) (auto simp: hex_value_lower)

interpretation ref_hex: hex_crate ref_hex
proof
  fix bs s t :: bytes and n :: nat and c :: u8
  show "length (hex_encode ref_hex bs) = 2 * length bs" by (induction bs) auto
  show "c \<in> set (hex_encode ref_hex bs) \<Longrightarrow> ascii_hexdigit c"
    using unat_byte_lt by (induction bs) (auto simp: hex_digit_table div_less_iff_less_mult)
  show "hex_decode ref_hex (length bs) (hex_encode ref_hex bs) = Some bs"
    by (simp add: ref_decode_encode)
  show "hex_decode ref_hex n s = Some bs \<Longrightarrow> length bs = n \<and> length s = 2 * n"
    by (simp, induction n s arbitrary: bs rule: ref_hex_decode.induct) (auto split: option.splits)
  show "hex_decode ref_hex n s = Some bs \<Longrightarrow> c \<in> set s \<Longrightarrow> ascii_hexdigit c"
    by (simp, induction n s arbitrary: bs rule: ref_hex_decode.induct)
      (auto split: option.splits dest: hex_value_digit)
  show "eq_ignore_case s t \<Longrightarrow> hex_decode ref_hex n s = hex_decode ref_hex n t"
    by (simp add: eq_ignore_case_def) (metis ref_decode_lower)
qed

lemmas ref_hex_laws = ref_hex.hex_crate_axioms

end
