(* ===== verification/Common_Lib.thy ===== *)
theory Common_Lib
  imports Prelude
begin

text \<open>
  \<open>crates/common/src/lib.rs\<close>: deadlines counted in seconds since the server's start, the checks
  of worker counts and intervals at startup, the ASCII substring search, and canonical IP and
  socket addresses. An IP address is the word of its octets; \<open>SocketAddr\<close> carries the fields of
  \<open>SocketAddrV4\<close> and \<open>SocketAddrV6\<close>.
\<close>

subsection \<open>Deadlines\<close>

type_synonym seconds_since_start = u32

datatype valid_until = ValidUntil seconds_since_start

text \<open>\<open>Instant::elapsed\<close> is the number of seconds since the start; more than a \<open>u32\<close> is a panic.\<close>

definition seconds_elapsed :: "nat \<Rightarrow> seconds_since_start option" where
  "seconds_elapsed secs = (if secs \<le> u32_max then Some (word_of_nat secs) else None)"

definition valid_until_new :: "nat \<Rightarrow> u32 \<Rightarrow> valid_until option" where
  "valid_until_new secs offset_seconds =
     map_option (\<lambda>now. ValidUntil (now + offset_seconds)) (seconds_elapsed secs)"

definition new_with_now :: "seconds_since_start \<Rightarrow> u32 \<Rightarrow> valid_until" where
  "new_with_now now offset_seconds = ValidUntil (now + offset_seconds)"

fun valid :: "valid_until \<Rightarrow> seconds_since_start \<Rightarrow> bool" where
  "valid (ValidUntil t) now = (now < t)"

lemma valid_antimono: "valid v now \<Longrightarrow> earlier \<le> now \<Longrightarrow> valid v earlier"
  by (cases v) auto

lemma valid_new_with_now:
  assumes "unat now + unat off < 2 ^ 32"
  shows "valid (new_with_now now off) t \<longleftrightarrow> unat t < unat now + unat off"
  using assms by (simp add: new_with_now_def word_less_nat_alt unat_word_ariths)

subsection \<open>Startup checks\<close>

datatype config_error = ZeroSwarmWorkers | ZeroInterval bytes

text \<open>
  \<open>parallelism\<close> is what \<open>available_parallelism\<close> reports, \<open>None\<close> for its error. The socket worker
  count is changed in place also where the call fails.
\<close>

definition validate_worker_counts ::
  "nat option \<Rightarrow> nat \<Rightarrow> nat option \<Rightarrow> nat \<times> (config_error + unit)" where
  "validate_worker_counts parallelism socket_workers swarm_workers =
     (let socket_workers' =
        (if socket_workers = 0 then (case parallelism of Some n \<Rightarrow> n | None \<Rightarrow> 1)
         else socket_workers)
      in (socket_workers',
          if swarm_workers = Some 0 then Inl ZeroSwarmWorkers else Inr ()))"

definition validate_interval :: "bytes \<Rightarrow> nat \<Rightarrow> config_error + unit" where
  "validate_interval name seconds = (if seconds = 0 then Inl (ZeroInterval name) else Inr ())"

subsection \<open>Substring search\<close>

definition contains_ascii_case_insensitive :: "bytes \<Rightarrow> bytes \<Rightarrow> bool" where
  "contains_ascii_case_insensitive haystack needle =
     (needle = [] \<or>
      (length needle \<le> length haystack \<and>
       list_ex (\<lambda>window. eq_ignore_case window needle) (windows (length needle) haystack)))"

text \<open>The specification: some part of the haystack equals the needle up to ASCII case.\<close>

lemma contains_spec:
  "contains_ascii_case_insensitive haystack needle \<longleftrightarrow>
   (\<exists>pre w post. haystack = pre @ w @ post \<and> eq_ignore_case w needle)"
proof
  assume c: "contains_ascii_case_insensitive haystack needle"
  consider "needle = []" | i where "eq_ignore_case (sub haystack i (length needle)) needle"
    using c by (auto simp: contains_ascii_case_insensitive_def windows_def list_ex_iff)
  then show "\<exists>pre w post. haystack = pre @ w @ post \<and> eq_ignore_case w needle"
  proof cases
    case 1
    then have "haystack = [] @ [] @ haystack \<and> eq_ignore_case [] needle" by simp
    then show ?thesis by blast
  next
    case 2
    have "haystack = take i haystack @ sub haystack i (length needle) @
        drop (i + length needle) haystack"
      by (metis add.commute append_take_drop_id drop_drop sub_def)
    then show ?thesis using 2 by blast
  qed
next
  assume "\<exists>pre w post. haystack = pre @ w @ post \<and> eq_ignore_case w needle"
  then obtain pre w post where h: "haystack = pre @ w @ post" and e: "eq_ignore_case w needle"
    by blast
  have len: "length w = length needle" using e by (rule eq_ignore_case_length)
  have "sub haystack (length pre) (length needle) = w"
    by (simp add: h sub_def len)
  then have "w \<in> set (windows (length needle) haystack)"
    unfolding windows_def using len h by (auto intro!: image_eqI [where x = "length pre"])
  then show "contains_ascii_case_insensitive haystack needle"
    using e len h by (auto simp: contains_ascii_case_insensitive_def list_ex_iff)
qed

subsection \<open>IP and socket addresses\<close>

datatype ip_addr = V4 u32 | V6 u128

fun is_ipv6 :: "ip_addr \<Rightarrow> bool" where
  "is_ipv6 (V4 a) = False"
| "is_ipv6 (V6 a) = True"

fun octets :: "ip_addr \<Rightarrow> bytes" where
  "octets (V4 a) = word_be 4 a"
| "octets (V6 a) = word_be 16 a"

definition mapped_prefix :: bytes where
  "mapped_prefix = replicate 10 0 @ [0xFF, 0xFF]"

fun canonical_ip :: "ip_addr \<Rightarrow> ip_addr" where
  "canonical_ip (V4 a) = V4 a"
| "canonical_ip (V6 addr) =
     (let os = word_be 16 addr
      in if take 12 os = mapped_prefix then V4 (be_word (drop 12 os)) else V6 addr)"

definition to_ipv6_mapped :: "u32 \<Rightarrow> u128" where
  "to_ipv6_mapped a = be_word (mapped_prefix @ word_be 4 a)"

lemma octets_to_ipv6_mapped: "word_be 16 (to_ipv6_mapped a) = mapped_prefix @ word_be 4 a"
  unfolding to_ipv6_mapped_def by (rule word_be_be_word) (simp_all add: mapped_prefix_def)

lemma canonical_mapped [simp]: "canonical_ip (V6 (to_ipv6_mapped a)) = V4 a"
  by (simp add: octets_to_ipv6_mapped mapped_prefix_def)

lemma canonical_idem [simp]: "canonical_ip (canonical_ip ip) = canonical_ip ip"
  by (cases ip) (auto simp: Let_def)

lemma canonical_V6D: "canonical_ip ip = V6 a \<Longrightarrow> ip = V6 a"
  by (cases ip) (auto simp: Let_def split: if_splits)

lemma canonical_V4_iff: "canonical_ip ip = V4 a \<longleftrightarrow> ip = V4 a \<or> ip = V6 (to_ipv6_mapped a)"
proof (cases ip)
  case (V4 x)
  then show ?thesis by simp
next
  case (V6 x)
  show ?thesis
  proof (cases "take 12 (word_be 16 x) = mapped_prefix")
    case True
    have b: "word_be 4 (be_word (drop 12 (word_be 16 x)) :: u32) = drop 12 (word_be 16 x)"
      by (rule word_be_be_word) simp_all
    have "to_ipv6_mapped (be_word (drop 12 (word_be 16 x))) = be_word (word_be 16 x)"
      unfolding to_ipv6_mapped_def b True [symmetric] by simp
    then have "x = to_ipv6_mapped (be_word (drop 12 (word_be 16 x)))" by simp
    moreover have "canonical_ip ip = V4 (be_word (drop 12 (word_be 16 x)))"
      using True V6 by simp
    ultimately show ?thesis
      using V6 by (metis canonical_mapped ip_addr.distinct(1) ip_addr.inject(1) ip_addr.inject(2))
  next
    case False
    then have "x \<noteq> to_ipv6_mapped a"
      by (auto simp: octets_to_ipv6_mapped mapped_prefix_def)
    then show ?thesis using False V6 by simp
  qed
qed

datatype socket_addr = SocketV4 u32 u16 | SocketV6 u128 u16 u32 u32

datatype canonical_socket_addr = Canonical socket_addr

fun canonical_new :: "socket_addr \<Rightarrow> canonical_socket_addr" where
  "canonical_new (SocketV4 ip port) = Canonical (SocketV4 ip port)"
| "canonical_new (SocketV6 ip port flow scope) =
     (case canonical_ip (V6 ip) of
        V4 a \<Rightarrow> Canonical (SocketV4 a port)
      | V6 _ \<Rightarrow> Canonical (SocketV6 ip port flow scope))"

fun get_ipv6_mapped :: "canonical_socket_addr \<Rightarrow> socket_addr" where
  "get_ipv6_mapped (Canonical (SocketV4 ip port)) = SocketV6 (to_ipv6_mapped ip) port 0 0"
| "get_ipv6_mapped (Canonical addr) = addr"

fun get_addr :: "canonical_socket_addr \<Rightarrow> socket_addr" where
  "get_addr (Canonical a) = a"

fun get_ipv4 :: "canonical_socket_addr \<Rightarrow> socket_addr option" where
  "get_ipv4 (Canonical (SocketV4 ip port)) = Some (SocketV4 ip port)"
| "get_ipv4 (Canonical _) = None"

fun is_ipv4 :: "canonical_socket_addr \<Rightarrow> bool" where
  "is_ipv4 (Canonical (SocketV4 ip port)) = True"
| "is_ipv4 (Canonical _) = False"

fun socket_ip :: "socket_addr \<Rightarrow> ip_addr" where
  "socket_ip (SocketV4 ip port) = V4 ip"
| "socket_ip (SocketV6 ip port flow scope) = V6 ip"

fun socket_port :: "socket_addr \<Rightarrow> u16" where
  "socket_port (SocketV4 ip port) = port"
| "socket_port (SocketV6 ip port flow scope) = port"

lemma canonical_new_ip: "socket_ip (get_addr (canonical_new a)) = canonical_ip (socket_ip a)"
  by (cases a) (auto simp del: canonical_ip.simps(2) split: ip_addr.splits dest: canonical_V6D)

lemma canonical_new_port: "socket_port (get_addr (canonical_new a)) = socket_port a"
  by (cases a) (auto split: ip_addr.splits)

end
