(* ===== verification/Peer_Store.thy ===== *)
theory Peer_Store
  imports Crates Common_Lib
begin

text \<open>
  What the peer maps of the UDP and the HTTP tracker promise. Both trackers keep the peers of a
  torrent in a small array that is converted to an index map when it is full; the four structures
  share one contract, the locale \<open>peer_store\<close>: seen through \<open>abs\<close>, each is a finite map from the
  peer's address to the peer, its seeder and leecher counts are the numbers of such peers in that
  map, and cleaning drops exactly the peers that are no longer alive. The theory also holds the facts
  about the sampling of response peers from two disjoint slices, which both trackers use.
\<close>

subsection \<open>Counting in a finite map\<close>

definition num_with :: "('p \<Rightarrow> bool) \<Rightarrow> ('k \<rightharpoonup> 'p) \<Rightarrow> nat" where
  "num_with P m = card {k. \<exists>p. m k = Some p \<and> P p}"

lemma num_with_map_of:
  assumes "distinct (map fst xs)"
  shows "num_with P (map_of xs) = length (filter (\<lambda>e. P (snd e)) xs)"
proof -
  have "{k. \<exists>p. map_of xs k = Some p \<and> P p} = set (map fst (filter (\<lambda>e. P (snd e)) xs))"
    using assms by (force simp: map_of_eq_Some_iff)
  then show ?thesis
    using assms unfolding num_with_def
    by (metis distinct_card distinct_map_filter length_map)
qed

lemma num_with_True: "num_with (\<lambda>_. True) m = card (dom m)"
  by (simp add: num_with_def dom_def)

lemma num_with_empty [simp]: "num_with P Map.empty = 0"
  by (simp add: num_with_def)

lemma length_split_filter:
  "length xs = length (filter P xs) + length (filter (\<lambda>x. \<not> P x) xs)"
  by (simp add: sum_length_filter_compl)

lemma leechers_of_difference:
  "(of_nat (length xs) :: u64) - of_nat (length (filter P xs)) =
   of_nat (length (filter (\<lambda>x. \<not> P x) xs))"
  by (subst length_split_filter [of xs P]) simp

text \<open>Keeping the entries with a property, seen as a map.\<close>

definition restrict_with :: "('p \<Rightarrow> bool) \<Rightarrow> ('k \<rightharpoonup> 'p) \<Rightarrow> ('k \<rightharpoonup> 'p)" where
  "restrict_with P m = (\<lambda>k. case m k of Some p \<Rightarrow> if P p then Some p else None | None \<Rightarrow> None)"

lemma map_of_filter_val:
  "distinct (map fst xs) \<Longrightarrow> map_of (filter (\<lambda>e. P (snd e)) xs) = restrict_with P (map_of xs)"
proof (induction xs)
  case Nil
  then show ?case by (simp add: restrict_with_def)
next
  case (Cons e xs)
  then have "map_of xs (fst e) = None" by (simp add: map_of_eq_None_iff)
  then show ?case using Cons by (auto simp: restrict_with_def fun_eq_iff split: option.splits)
qed

lemma restrict_with_empty_iff:
  "restrict_with P m = Map.empty \<longleftrightarrow> (\<forall>k p. m k = Some p \<longrightarrow> \<not> P p)"
  unfolding restrict_with_def fun_eq_iff
  by (intro iff_allI) (auto split: option.split)

lemma filter_fresh: "k \<notin> fst ` set es \<Longrightarrow> filter (\<lambda>e. fst e \<noteq> k) es = es"
  by (auto simp: filter_id_conv)

subsection \<open>The contract\<close>

locale peer_store =
  fixes peers :: "'s \<Rightarrow> ('k \<times> 'p) list"
    and inv :: "'s \<Rightarrow> bool"
    and room :: "'s \<Rightarrow> bool"
    and seeder :: "'p \<Rightarrow> bool"
    and put :: "'k \<Rightarrow> 'p \<Rightarrow> 's \<Rightarrow> 's option"
    and del :: "'k \<Rightarrow> 's \<Rightarrow> 'p option \<times> 's"
    and counts :: "'s \<Rightarrow> u64 \<times> u64"
    and alive :: "'t \<Rightarrow> 'p \<Rightarrow> bool"
    and clean :: "'t \<Rightarrow> 's \<Rightarrow> 's"
  assumes inv_distinct: "inv s \<Longrightarrow> distinct (map fst (peers s))"
    and put_law: "inv s \<Longrightarrow> room s \<Longrightarrow> k \<notin> fst ` set (peers s) \<Longrightarrow>
      \<exists>s'. put k p s = Some s' \<and> inv s' \<and> mset (peers s') = mset ((k, p) # peers s)"
    and del_inv: "inv s \<Longrightarrow> inv (snd (del k s))"
    and del_peers: "inv s \<Longrightarrow>
      mset (peers (snd (del k s))) = mset (filter (\<lambda>e. fst e \<noteq> k) (peers s))"
    and del_result: "inv s \<Longrightarrow> fst (del k s) = map_of (peers s) k"
    and counts_law: "inv s \<Longrightarrow> counts s =
      (of_nat (length (filter (\<lambda>e. seeder (snd e)) (peers s))),
       of_nat (length (filter (\<lambda>e. \<not> seeder (snd e)) (peers s))))"
    and clean_inv: "inv s \<Longrightarrow> inv (clean t s)"
    and clean_peers: "inv s \<Longrightarrow> peers (clean t s) = filter (\<lambda>e. alive t (snd e)) (peers s)"
begin

definition abs :: "'s \<Rightarrow> ('k \<rightharpoonup> 'p)" where
  "abs s = map_of (peers s)"

lemma counts_abs:
  "inv s \<Longrightarrow> counts s = (of_nat (num_with seeder (abs s)), of_nat (num_with (\<lambda>p. \<not> seeder p) (abs s)))"
  by (simp add: counts_law abs_def num_with_map_of inv_distinct)

lemma card_abs: "inv s \<Longrightarrow> length (peers s) = card (dom (abs s))"
  by (simp add: abs_def num_with_True [symmetric] num_with_map_of inv_distinct)

lemma keys_abs: "inv s \<Longrightarrow> set (map fst (peers s)) = dom (abs s)"
  by (auto simp: abs_def dom_map_of_conv_image_fst)

lemma del_abs: "inv s \<Longrightarrow> abs (snd (del k s)) = (abs s)(k := None)"
proof -
  assume i: "inv s"
  have "map_of (peers (snd (del k s))) x = map_of (filter (\<lambda>e. fst e \<noteq> k) (peers s)) x" for x
    by (rule mset_map_of) (simp_all add: i del_peers del_inv inv_distinct)
  then show "abs (snd (del k s)) = (abs s)(k := None)"
    by (auto simp: abs_def map_of_filter_key)
qed

lemma del_notin: "inv s \<Longrightarrow> k \<notin> fst ` set (peers (snd (del k s)))"
  using mset_eq_setD [OF del_peers] by fastforce

lemma put_abs:
  assumes "inv s" and "room s" and "k \<notin> fst ` set (peers s)"
  shows "\<exists>s'. put k p s = Some s' \<and> inv s' \<and> abs s' = (abs s)(k \<mapsto> p)"
proof -
  obtain s' where s': "put k p s = Some s'" "inv s'" "mset (peers s') = mset ((k, p) # peers s)"
    using put_law [OF assms] by blast
  have "map_of (peers s') x = map_of ((k, p) # peers s) x" for x
    using s' by (intro mset_map_of) (simp_all add: inv_distinct)
  then show ?thesis using s' by (auto simp: abs_def)
qed

lemma replace_abs:
  assumes "inv s" and "room (snd (del k s))"
  shows "\<exists>s'. put k p (snd (del k s)) = Some s' \<and> inv s' \<and> abs s' = (abs s)(k \<mapsto> p)"
  using put_abs [OF del_inv [OF assms(1)] assms(2) del_notin [OF assms(1)]]
  by (simp add: del_abs assms(1))

lemma clean_abs: "inv s \<Longrightarrow> abs (clean t s) = restrict_with (alive t) (abs s)"
  by (simp add: abs_def clean_peers map_of_filter_val inv_distinct)

end

subsection \<open>Response peers from two slices\<close>

text \<open>
  Two slices of the entries that do not overlap, the first of \<open>n\<close> and the second of \<open>k\<close> entries,
  give \<open>n + k\<close> distinct keys of the map.
\<close>

lemma keys_sub: "map fst (sub xs i n) = sub (map fst xs) i n"
  by (simp add: sub_def take_map drop_map)

lemma set_sub: "set (sub xs i n) \<subseteq> set xs"
  unfolding sub_def by (meson set_drop_subset set_take_subset subset_trans)

lemma distinct_two_slices:
  assumes d: "distinct xs" and "i + n \<le> j"
  shows "distinct (sub xs i n @ sub xs j k)"
proof -
  have "set (take n (drop i xs)) \<inter> set (drop j xs) = {}"
  proof -
    have "take n (drop i xs) = drop i (take (i + n) xs)"
      by (simp add: drop_take)
    then have "set (take n (drop i xs)) \<subseteq> set (take j xs)"
      by (metis assms(2) set_drop_subset set_take_subset_set_take subset_trans)
    then show ?thesis using set_take_disj_set_drop_if_distinct [OF d, of j j] by blast
  qed
  then show ?thesis
    using d set_take_subset [of k "drop j xs"] by (auto simp: sub_def)
qed

lemma halves_fit:
  fixes len m :: nat
  assumes "m < len"
  shows "(m + 1) div 2 \<le> len div 2" and "m div 2 \<le> len - len div 2"
    and "(m + 1) div 2 + m div 2 = m"
  using assms by auto

text \<open>
  The selection both trackers make. The subtractions are those of the code; the lemma shows that none
  goes below zero and no range leaves the map.
\<close>

definition sub_index :: "nat \<Rightarrow> nat \<Rightarrow> nat option" where
  "sub_index a b = (if b \<le> a then Some (a - b) else None)"

definition range_keys :: "nat \<Rightarrow> nat \<Rightarrow> ('k, 'v) index_map \<Rightarrow> 'k list" where
  "range_keys a b es = (case im_get_range a b es of Some s \<Rightarrow> im_keys s | None \<Rightarrow> [])"

definition sample_halves ::
  "'r gen_range \<Rightarrow> 'r \<Rightarrow> nat \<Rightarrow> ('k, 'v) index_map \<Rightarrow> ('k list \<times> 'r) option" where
  "sample_halves gen r max_num es =
     (if length es \<le> max_num then Some (im_keys es, r)
      else
        let middle = length es div 2;
            num_one = (max_num + 1) div 2;
            num_two = max_num div 2
        in Option.bind (sub_index middle num_one) (\<lambda>top_one.
             let (offset_one, r1) = gen 0 top_one r;
                 peers = range_keys offset_one (offset_one + num_one) es
             in if 0 < num_two then
                  Option.bind (Option.bind (sub_index (length es) middle) (\<lambda>d. sub_index d num_two))
                    (\<lambda>top_two.
                     let (o2, r2) = gen 0 top_two r1;
                         offset_two = middle + o2
                     in Some (peers @ range_keys offset_two (offset_two + num_two) es, r2))
                else Some (peers, r1)))"

lemma range_keys_in: "a + n \<le> length es \<Longrightarrow> range_keys a (a + n) es = sub (im_keys es) a n"
  by (simp add: range_keys_def im_get_range_def keys_sub)

context rng_source
begin

lemma sample_halves_ok:
  fixes es :: "('k, 'v) index_map"
  assumes d: "distinct (im_keys es)"
  shows "\<exists>ps r'. sample_halves gen r n es = Some (ps, r') \<and> distinct ps \<and>
    set ps \<subseteq> set (im_keys es) \<and> length ps = min n (length es)"
proof (cases "length es \<le> n")
  case True
  then show ?thesis using d by (simp add: sample_halves_def Let_def)
next
  case False
  let ?ks = "im_keys es"
  let ?mid = "length es div 2" and ?n1 = "(n + 1) div 2" and ?n2 = "n div 2"
  have fit: "?n1 \<le> ?mid" "?n2 \<le> length es - ?mid" "?n1 + ?n2 = n"
    using halves_fit [of n "length es"] False by auto
  obtain o1 r1 where g1: "gen 0 (?mid - ?n1) r = (o1, r1)" by (cases "gen 0 (?mid - ?n1) r")
  then have o1: "o1 + ?n1 \<le> ?mid" using drawn [OF _ g1] fit(1) by simp
  define o2 where "o2 = fst (gen 0 (length es - ?mid - ?n2) r1)"
  have "o2 \<le> length es - ?mid - ?n2" unfolding o2_def by (rule below)
  then have o2: "?mid + o2 + ?n2 \<le> length es" using fit(2) by linarith
  let ?p1 = "sub ?ks o1 ?n1" and ?p2 = "sub ?ks (?mid + o2) ?n2"
  have s1: "range_keys o1 (o1 + ?n1) es = ?p1"
    using o1 by (intro range_keys_in) linarith
  have s2: "range_keys (?mid + o2) (?mid + o2 + ?n2) es = ?p2"
    using o2 by (rule range_keys_in)
  have res: "\<exists>r'. sample_halves gen r n es = Some (?p1 @ ?p2, r')"
    using False fit g1 s1 s2
    by (cases "n div 2 = 0")
      (auto simp: sample_halves_def Let_def sub_index_def o2_def case_prod_unfold sub_def)
  have "distinct (?p1 @ ?p2)"
    using d o1 by (intro distinct_two_slices) auto
  moreover have "set (?p1 @ ?p2) \<subseteq> set ?ks"
    using set_sub by fastforce
  moreover have "length (?p1 @ ?p2) = n"
    using o1 o2 fit(3) by simp
  ultimately show ?thesis
    using res False by (metis min_absorb1 nat_le_linear)
qed

end

subsection \<open>Association lists\<close>

lemma filter_split_count:
  "length (filter P xs) =
   length (filter P (filter Q xs)) + length (filter (\<lambda>x. P x \<and> \<not> Q x) xs)"
  by (induction xs) auto

lemma map_of_split_length:
  assumes "distinct (map fst xs)"
  shows "length (filter (\<lambda>e. P (snd e)) xs) =
    length (filter (\<lambda>e. P (snd e)) (filter (\<lambda>e. fst e \<noteq> k) xs)) +
    (case map_of xs k of Some p \<Rightarrow> if P p then 1 else 0 | None \<Rightarrow> 0)"
  using assms
proof (induction xs)
  case Nil
  then show ?case by simp
next
  case (Cons e xs)
  show ?case
  proof (cases "fst e = k")
    case True
    then have "filter (\<lambda>e. fst e \<noteq> k) xs = xs" "map_of xs k = None"
      using Cons.prems by (auto simp: filter_id_conv map_of_eq_None_iff dest: notin_keysD)
    then show ?thesis using True by simp
  next
    case False
    then show ?thesis using Cons by auto
  qed
qed

lemma take_conforms:
  assumes "distinct (im_keys es)"
  shows "distinct (map fst (take n es)) \<and> set (map fst (take n es)) \<subseteq> dom (map_of es) \<and>
    length (take n es) = min n (card (dom (map_of es)))"
proof -
  have "card (dom (map_of es)) = length es"
    using assms by (simp add: num_with_True [symmetric] num_with_map_of)
  then show ?thesis
    using assms set_take_subset [of n es]
    by (auto simp: take_map [symmetric] dom_map_of_conv_image_fst min.commute dest: in_set_takeD)
qed

lemma fold_insert_fresh:
  assumes "\<And>k v m. k \<notin> set (im_keys m) \<Longrightarrow> ins k v m = m @ [(k, v)]"
    and "distinct (im_keys (acc @ es))"
  shows "fold (\<lambda>(k, v). ins k v) es acc = acc @ es"
  using assms(2)
proof (induction es arbitrary: acc)
  case Nil
  then show ?case by simp
next
  case (Cons e es)
  then show ?case by (cases e) (simp add: assms(1))
qed

lemma map_of_filter_entry:
  "distinct (map fst xs) \<Longrightarrow> map_of (filter P xs) k =
   (case map_of xs k of Some v \<Rightarrow> if P (k, v) then Some v else None | None \<Rightarrow> None)"
proof (induction xs)
  case Nil
  then show ?case by simp
next
  case (Cons e xs)
  then have "map_of xs (fst e) = None" by (simp add: map_of_eq_None_iff)
  then show ?case using Cons by (cases e) (auto split: option.splits)
qed

lemma list_all2_keys:
  "list_all2 (\<lambda>e e'. fst e = fst e' \<and> R (snd e) (snd e')) xs ys \<Longrightarrow> im_keys ys = im_keys xs"
  by (induction rule: list_all2_induct) auto

lemma list_all2_map_of:
  "list_all2 (\<lambda>e e'. fst e = fst e' \<and> R (snd e) (snd e')) xs ys \<Longrightarrow>
   (case map_of xs k of None \<Rightarrow> map_of ys k = None
    | Some v \<Rightarrow> \<exists>v'. map_of ys k = Some v' \<and> R v v')"
  by (induction rule: list_all2_induct) (auto split: option.splits)

lemma map_of_reset:
  "map_of (map (\<lambda>(h, td). (h, f td)) xs) k = map_option f (map_of xs k)"
  by (induction xs) auto

lemma list_all_update:
  "list_all P xs \<Longrightarrow> P (k, v) \<Longrightarrow> list_all P (AList.update k v xs)"
  by (induction xs) (auto split: prod.splits)

end
