(* ===== verification/Udp_Protocol.thy ===== *)
theory Udp_Protocol
  imports Prelude
begin

text \<open>
  \<open>crates/udp_protocol\<close> (\<open>common.rs\<close>, \<open>request.rs\<close>, \<open>response.rs\<close>): the messages of the UDP
  tracker protocol, their writers and parsers. Every \<open>repr(C, packed)\<close> struct is a record with an
  encoder that lays its fields out in declaration order, each integer in network byte order, and
  a decoder that reads them back; each such pair is an instance of the locale \<open>fixed_codec\<close>.
  A newtype around an \<open>I32\<close>, \<open>I64\<close> or \<open>U16\<close> is the word of its bits; \<open>get()\<close> on a signed one is
  \<open>sint\<close>. \<open>write_bytes\<close> yields the bytes written; what the sink accepts is the caller's matter.
\<close>

subsection \<open>Common types\<close>

type_synonym announce_interval = u32
type_synonym connection_id = u64
type_synonym transaction_id = u32
type_synonym number_of_bytes = u64
type_synonym number_of_peers = u32
type_synonym number_of_downloads = u32
type_synonym port = u16
type_synonym peer_key = u32
type_synonym info_hash = "160 word"
type_synonym peer_id = "160 word"
type_synonym ipv4_addr_bytes = u32
type_synonym ipv6_addr_bytes = u128

record 'i response_peer =
  ip_address :: 'i
  peer_port :: port

definition read_i32_ne :: "bytes \<Rightarrow> io_error + u32 \<times> bytes" where
  "read_i32_ne bs = and_then (read_exact 4 bs) (\<lambda>(tmp, rest). Inr (be_word tmp, rest))"

definition read_i64_ne :: "bytes \<Rightarrow> io_error + u64 \<times> bytes" where
  "read_i64_ne bs = and_then (read_exact 8 bs) (\<lambda>(tmp, rest). Inr (be_word tmp, rest))"

lemma read_i32_be [simp]: "read_i32_ne (word_be 4 (w :: u32) @ rest) = Inr (w, rest)"
  by (simp add: read_i32_ne_def read_exact_def)

lemma read_i64_be [simp]: "read_i64_ne (word_be 8 (w :: u64) @ rest) = Inr (w, rest)"
  by (simp add: read_i64_ne_def read_exact_def)

lemma read_i32_be_all [simp]: "read_i32_ne (word_be 4 (w :: u32)) = Inr (w, [])"
  using read_i32_be [of w "[]"] by simp

lemma read_i32_Inr: "read_i32_ne bs = Inr (w, rest) \<Longrightarrow> bs = word_be 4 w @ rest"
  by (auto simp: read_i32_ne_def read_exact_def and_then_Inr codec_simps split: if_splits)

lemma read_i64_Inr: "read_i64_ne bs = Inr (w, rest) \<Longrightarrow> bs = word_be 8 w @ rest"
  by (auto simp: read_i64_ne_def read_exact_def and_then_Inr codec_simps split: if_splits)

definition peer4_bytes :: "ipv4_addr_bytes response_peer \<Rightarrow> bytes" where
  "peer4_bytes p = word_be 4 (ip_address p) @ word_be 2 (peer_port p)"

definition peer4_of :: "bytes \<Rightarrow> ipv4_addr_bytes response_peer" where
  "peer4_of bs = \<lparr>ip_address = be_word (sub bs 0 4), peer_port = be_word (sub bs 4 2)\<rparr>"

definition peer6_bytes :: "ipv6_addr_bytes response_peer \<Rightarrow> bytes" where
  "peer6_bytes p = word_be 16 (ip_address p) @ word_be 2 (peer_port p)"

definition peer6_of :: "bytes \<Rightarrow> ipv6_addr_bytes response_peer" where
  "peer6_of bs = \<lparr>ip_address = be_word (sub bs 0 16), peer_port = be_word (sub bs 16 2)\<rparr>"

interpretation peer4: fixed_codec 6 peer4_bytes peer4_of
  by unfold_locales (auto simp: peer4_bytes_def peer4_of_def sub_codec sub_glue codec_simps)

interpretation peer6: fixed_codec 18 peer6_bytes peer6_of
  by unfold_locales (auto simp: peer6_bytes_def peer6_of_def sub_codec sub_glue codec_simps)

subsection \<open>Requests\<close>

definition PROTOCOL_IDENTIFIER :: u64 where
  "PROTOCOL_IDENTIFIER = 4497486125440"

datatype announce_event = Started | Stopped | Completed | NoEvent

type_synonym announce_event_bytes = u32
type_synonym announce_action_placeholder = u32

fun event_to_bytes :: "announce_event \<Rightarrow> announce_event_bytes" where
  "event_to_bytes NoEvent = 0"
| "event_to_bytes Completed = 1"
| "event_to_bytes Started = 2"
| "event_to_bytes Stopped = 3"

definition event_of_bytes :: "announce_event_bytes \<Rightarrow> announce_event" where
  "event_of_bytes b =
     (if b = 1 then Completed else if b = 2 then Started else if b = 3 then Stopped
      else NoEvent)"

lemma event_of_to [simp]: "event_of_bytes (event_to_bytes e) = e"
  by (cases e) (auto simp: event_of_bytes_def)

record connect_request =
  cr_transaction_id :: transaction_id

record announce_request =
  ar_connection_id :: connection_id
  ar_action_placeholder :: announce_action_placeholder
  ar_transaction_id :: transaction_id
  ar_info_hash :: info_hash
  ar_peer_id :: peer_id
  ar_bytes_downloaded :: number_of_bytes
  ar_bytes_left :: number_of_bytes
  ar_bytes_uploaded :: number_of_bytes
  ar_event :: announce_event_bytes
  ar_ip_address :: ipv4_addr_bytes
  ar_key :: peer_key
  ar_peers_wanted :: number_of_peers
  ar_port :: port

record scrape_request =
  sr_connection_id :: connection_id
  sr_transaction_id :: transaction_id
  sr_info_hashes :: "info_hash list"

datatype request =
    ReqConnect connect_request
  | ReqAnnounce announce_request
  | ReqScrape scrape_request

datatype request_parse_error =
    Sendable connection_id transaction_id bytes
  | Unsendable "io_error + bytes"

definition unsendable_io :: "io_error \<Rightarrow> request_parse_error" where
  "unsendable_io e = Unsendable (Inl e)"

definition unsendable_text :: "bytes \<Rightarrow> request_parse_error" where
  "unsendable_text t = Unsendable (Inr t)"

definition sendable_text ::
  "bytes \<Rightarrow> connection_id \<Rightarrow> transaction_id \<Rightarrow> request_parse_error" where
  "sendable_text t cid tid = Sendable cid tid t"

definition announce_request_bytes :: "announce_request \<Rightarrow> bytes" where
  "announce_request_bytes r =
     word_be 8 (ar_connection_id r) @ word_be 4 (ar_action_placeholder r) @
     word_be 4 (ar_transaction_id r) @ word_be 20 (ar_info_hash r) @ word_be 20 (ar_peer_id r) @
     word_be 8 (ar_bytes_downloaded r) @ word_be 8 (ar_bytes_left r) @
     word_be 8 (ar_bytes_uploaded r) @ word_be 4 (ar_event r) @ word_be 4 (ar_ip_address r) @
     word_be 4 (ar_key r) @ word_be 4 (ar_peers_wanted r) @ word_be 2 (ar_port r)"

definition announce_request_of :: "bytes \<Rightarrow> announce_request" where
  "announce_request_of bs = \<lparr>
     ar_connection_id = be_word (sub bs 0 8),
     ar_action_placeholder = be_word (sub bs 8 4),
     ar_transaction_id = be_word (sub bs 12 4),
     ar_info_hash = be_word (sub bs 16 20),
     ar_peer_id = be_word (sub bs 36 20),
     ar_bytes_downloaded = be_word (sub bs 56 8),
     ar_bytes_left = be_word (sub bs 64 8),
     ar_bytes_uploaded = be_word (sub bs 72 8),
     ar_event = be_word (sub bs 80 4),
     ar_ip_address = be_word (sub bs 84 4),
     ar_key = be_word (sub bs 88 4),
     ar_peers_wanted = be_word (sub bs 92 4),
     ar_port = be_word (sub bs 96 2)\<rparr>"

interpretation announce_req: fixed_codec 98 announce_request_bytes announce_request_of
  by unfold_locales
    (auto simp: announce_request_bytes_def announce_request_of_def sub_codec sub_glue codec_simps)

definition write_connect_request :: "connect_request \<Rightarrow> bytes" where
  "write_connect_request r =
     word_be 8 PROTOCOL_IDENTIFIER @ word_be 4 (0 :: u32) @ word_be 4 (cr_transaction_id r)"

definition write_scrape_request :: "scrape_request \<Rightarrow> bytes" where
  "write_scrape_request r =
     word_be 8 (sr_connection_id r) @ word_be 4 (2 :: u32) @ word_be 4 (sr_transaction_id r) @
     concat (map (word_be 20) (sr_info_hashes r))"

fun write_request :: "request \<Rightarrow> bytes" where
  "write_request (ReqConnect r) = write_connect_request r"
| "write_request (ReqAnnounce r) = announce_request_bytes r"
| "write_request (ReqScrape r) = write_scrape_request r"

definition parse_connect :: "bytes \<Rightarrow> request_parse_error + request" where
  "parse_connect bs =
     and_then (map_err unsendable_io (read_i64_ne bs)) (\<lambda>(protocol_identifier, b1).
     and_then (map_err unsendable_io (read_i32_ne b1)) (\<lambda>(_, b2).
     and_then (map_err unsendable_io (read_i32_ne b2)) (\<lambda>(tid, _).
       if protocol_identifier = PROTOCOL_IDENTIFIER
       then Inr (ReqConnect \<lparr>cr_transaction_id = tid\<rparr>)
       else Inl (unsendable_text (str ''Protocol identifier missing'')))))"

definition parse_announce :: "bytes \<Rightarrow> request_parse_error + request" where
  "parse_announce bs =
     and_then (ok_or (unsendable_text (str ''invalid data''))
                 (read_from_prefix 98 announce_request_of bs)) (\<lambda>r.
       if ar_port r = 0 then
         Inl (sendable_text (str ''Port can't be 0'') (ar_connection_id r) (ar_transaction_id r))
       else if \<not> (0 \<le> sint (ar_event r) \<and> sint (ar_event r) \<le> 3) then
         Inl (sendable_text (str ''Invalid announce event'')
           (ar_connection_id r) (ar_transaction_id r))
       else Inr (ReqAnnounce r))"

definition parse_scrape :: "bytes \<Rightarrow> u8 \<Rightarrow> request_parse_error + request" where
  "parse_scrape bs max_scrape_torrents =
     and_then (map_err unsendable_io (read_i64_ne bs)) (\<lambda>(cid, b1).
     and_then (map_err unsendable_io (read_i32_ne b1)) (\<lambda>(_, b2).
     and_then (map_err unsendable_io (read_i32_ne b2)) (\<lambda>(tid, remaining_bytes).
       if remaining_bytes = [] then
         Inl (sendable_text (str ''Full scrapes are not allowed'') cid tid)
       else
         and_then (ok_or (sendable_text (str ''Invalid info hash list'') cid tid)
                    (slice_from 20 be_word remaining_bytes)) (\<lambda>info_hashes.
           Inr (ReqScrape \<lparr>sr_connection_id = cid, sr_transaction_id = tid,
             sr_info_hashes =
               take (min (unat max_scrape_torrents) (length info_hashes)) info_hashes\<rparr>)))))"

definition parse_request :: "bytes \<Rightarrow> u8 \<Rightarrow> request_parse_error + request" where
  "parse_request bs max_scrape_torrents =
     and_then (ok_or (unsendable_text (str ''Couldn't parse action''))
                 (if 12 \<le> length bs then Some (be_word (sub bs 8 4) :: u32) else None)) (\<lambda>action.
       if action = 0 then parse_connect bs
       else if action = 1 then parse_announce bs
       else if action = 2 then parse_scrape bs max_scrape_torrents
       else Inl (unsendable_text (str ''Invalid action'')))"

definition filter_info_hashes :: "(info_hash \<Rightarrow> bool) \<Rightarrow> scrape_request \<Rightarrow> scrape_request" where
  "filter_info_hashes f r = r\<lparr>sr_info_hashes := filter f (sr_info_hashes r)\<rparr>"

subsection \<open>Responses\<close>

record connect_response =
  cs_transaction_id :: transaction_id
  cs_connection_id :: connection_id

record announce_response_fixed =
  af_transaction_id :: transaction_id
  af_announce_interval :: announce_interval
  af_leechers :: number_of_peers
  af_seeders :: number_of_peers

record 'i announce_response =
  as_fixed :: announce_response_fixed
  as_peers :: "'i response_peer list"

record torrent_scrape_statistics =
  ts_seeders :: number_of_peers
  ts_completed :: number_of_downloads
  ts_leechers :: number_of_peers

record scrape_response =
  ss_transaction_id :: transaction_id
  ss_torrent_stats :: "torrent_scrape_statistics list"

record error_response =
  er_transaction_id :: transaction_id
  er_message :: bytes

datatype response =
    ResConnect connect_response
  | ResAnnounceIpv4 "ipv4_addr_bytes announce_response"
  | ResAnnounceIpv6 "ipv6_addr_bytes announce_response"
  | ResScrape scrape_response
  | ResError error_response

definition connect_response_bytes :: "connect_response \<Rightarrow> bytes" where
  "connect_response_bytes r =
     word_be 4 (cs_transaction_id r) @ word_be 8 (cs_connection_id r)"

definition connect_response_of :: "bytes \<Rightarrow> connect_response" where
  "connect_response_of bs =
     \<lparr>cs_transaction_id = be_word (sub bs 0 4), cs_connection_id = be_word (sub bs 4 8)\<rparr>"

definition announce_fixed_bytes :: "announce_response_fixed \<Rightarrow> bytes" where
  "announce_fixed_bytes r =
     word_be 4 (af_transaction_id r) @ word_be 4 (af_announce_interval r) @
     word_be 4 (af_leechers r) @ word_be 4 (af_seeders r)"

definition announce_fixed_of :: "bytes \<Rightarrow> announce_response_fixed" where
  "announce_fixed_of bs = \<lparr>
     af_transaction_id = be_word (sub bs 0 4), af_announce_interval = be_word (sub bs 4 4),
     af_leechers = be_word (sub bs 8 4), af_seeders = be_word (sub bs 12 4)\<rparr>"

definition scrape_statistics_bytes :: "torrent_scrape_statistics \<Rightarrow> bytes" where
  "scrape_statistics_bytes t =
     word_be 4 (ts_seeders t) @ word_be 4 (ts_completed t) @ word_be 4 (ts_leechers t)"

definition scrape_statistics_of :: "bytes \<Rightarrow> torrent_scrape_statistics" where
  "scrape_statistics_of bs = \<lparr>
     ts_seeders = be_word (sub bs 0 4), ts_completed = be_word (sub bs 4 4),
     ts_leechers = be_word (sub bs 8 4)\<rparr>"

interpretation connect_res: fixed_codec 12 connect_response_bytes connect_response_of
  by unfold_locales
    (auto simp: connect_response_bytes_def connect_response_of_def sub_codec sub_glue codec_simps)

interpretation announce_fixed: fixed_codec 16 announce_fixed_bytes announce_fixed_of
  by unfold_locales
    (auto simp: announce_fixed_bytes_def announce_fixed_of_def sub_codec sub_glue codec_simps)

interpretation scrape_stats: fixed_codec 12 scrape_statistics_bytes scrape_statistics_of
  by unfold_locales
    (auto simp: scrape_statistics_bytes_def scrape_statistics_of_def sub_codec sub_glue codec_simps)

definition write_connect_response :: "connect_response \<Rightarrow> bytes" where
  "write_connect_response r = word_be 4 (0 :: u32) @ connect_response_bytes r"

definition write_announce_response :: "('i response_peer \<Rightarrow> bytes) \<Rightarrow> 'i announce_response \<Rightarrow> bytes"
  where "write_announce_response peer_bytes r =
     word_be 4 (1 :: u32) @ announce_fixed_bytes (as_fixed r) @
     concat (map peer_bytes (as_peers r))"

definition write_scrape_response :: "scrape_response \<Rightarrow> bytes" where
  "write_scrape_response r =
     word_be 4 (2 :: u32) @ word_be 4 (ss_transaction_id r) @
     concat (map scrape_statistics_bytes (ss_torrent_stats r))"

definition write_error_response :: "error_response \<Rightarrow> bytes" where
  "write_error_response r =
     word_be 4 (3 :: u32) @ word_be 4 (er_transaction_id r) @ er_message r"

fun write_response :: "response \<Rightarrow> bytes" where
  "write_response (ResConnect r) = write_connect_response r"
| "write_response (ResAnnounceIpv4 r) = write_announce_response peer4_bytes r"
| "write_response (ResAnnounceIpv6 r) = write_announce_response peer6_bytes r"
| "write_response (ResScrape r) = write_scrape_response r"
| "write_response (ResError r) = write_error_response r"

definition parse_announce_response ::
  "nat \<Rightarrow> (bytes \<Rightarrow> 'i response_peer) \<Rightarrow> bytes \<Rightarrow> io_error + 'i announce_response" where
  "parse_announce_response n peer_of bs =
     and_then (ok_or InvalidData (read_from_prefix 16 announce_fixed_of bs)) (\<lambda>fixed.
     and_then (if 16 \<le> length bs then ok_or InvalidData (slice_from n peer_of (drop 16 bs))
               else Inr [])
       (\<lambda>peers. Inr \<lparr>as_fixed = fixed, as_peers = peers\<rparr>))"

definition parse_response :: "bytes \<Rightarrow> bool \<Rightarrow> io_error + response" where
  "parse_response bytes0 ipv4 =
     and_then (read_i32_ne bytes0) (\<lambda>(action, bs).
       if action = 0 then
         and_then (ok_or InvalidData (read_from_prefix 12 connect_response_of bs))
           (\<lambda>r. Inr (ResConnect r))
       else if action = 1 \<and> ipv4 then
         and_then (parse_announce_response 6 peer4_of bs) (\<lambda>r. Inr (ResAnnounceIpv4 r))
       else if action = 1 \<and> \<not> ipv4 then
         and_then (parse_announce_response 18 peer6_of bs) (\<lambda>r. Inr (ResAnnounceIpv6 r))
       else if action = 2 then
         and_then (read_i32_ne bs) (\<lambda>(tid, rest).
         and_then (ok_or InvalidData (slice_from 12 scrape_statistics_of rest)) (\<lambda>stats.
           Inr (ResScrape \<lparr>ss_transaction_id = tid, ss_torrent_stats = stats\<rparr>)))
       else if action = 3 then
         and_then (read_i32_ne bs) (\<lambda>(tid, rest).
           Inr (ResError \<lparr>er_transaction_id = tid, er_message = from_utf8_lossy rest\<rparr>))
       else Inl InvalidData)"

subsection \<open>Requests: round trip, soundness, error replies\<close>

text \<open>The requests a client may send: the parser accepts exactly these encodings.\<close>

definition wf_announce :: "announce_request \<Rightarrow> bool" where
  "wf_announce r = (ar_action_placeholder r = 1 \<and> ar_port r \<noteq> 0 \<and>
     0 \<le> sint (ar_event r) \<and> sint (ar_event r) \<le> 3)"

definition wf_scrape :: "u8 \<Rightarrow> scrape_request \<Rightarrow> bool" where
  "wf_scrape m r = (sr_info_hashes r \<noteq> [] \<and> length (sr_info_hashes r) \<le> unat m)"

fun wf_request :: "u8 \<Rightarrow> request \<Rightarrow> bool" where
  "wf_request m (ReqConnect r) = True"
| "wf_request m (ReqAnnounce r) = wf_announce r"
| "wf_request m (ReqScrape r) = wf_scrape m r"

lemma announce_action: "sub (announce_request_bytes r @ rest) 8 4 = word_be 4 (ar_action_placeholder r)"
  by (simp add: announce_request_bytes_def sub_codec)

lemma announce_len [simp]: "length (announce_request_bytes r) = 98"
  by (rule announce_req.length_enc)

lemma parse_announce_enc:
  assumes "wf_announce r"
  shows "parse_announce (announce_request_bytes r @ rest) = Inr (ReqAnnounce r)"
  using assms by (simp add: parse_announce_def announce_req.read_enc wf_announce_def)

lemma word_be_ne [simp]: "word_be 20 (h :: info_hash) \<noteq> []"
  by (metis length_word_be list.size(3) zero_neq_numeral)

lemma concat_hashes_ne: "hs \<noteq> [] \<Longrightarrow> concat (map (word_be 20) (hs :: info_hash list)) \<noteq> []"
  by (cases hs) simp_all

lemma parse_scrape_enc:
  assumes "sr_info_hashes r \<noteq> []"
  shows "parse_scrape (write_scrape_request r) m =
    Inr (ReqScrape (r\<lparr>sr_info_hashes := take (unat m) (sr_info_hashes r)\<rparr>))"
proof -
  let ?hs = "sr_info_hashes r"
  have "take (min (unat m) (length ?hs)) ?hs = take (unat m) ?hs"
    by (metis min.commute take_all_iff take_take nle_le)
  then show ?thesis
    using concat_hashes_ne [OF assms] be160.slice_enc [of ?hs]
    by (cases r) (simp add: parse_scrape_def write_scrape_request_def)
qed

lemma parse_write_connect: "parse_request (write_connect_request r) m = Inr (ReqConnect r)"
proof -
  have "sub (write_connect_request r) 8 4 = word_be 4 (0 :: u32)"
    by (simp add: write_connect_request_def sub_codec)
  moreover have "parse_connect (write_connect_request r) = Inr (ReqConnect r)"
    by (simp add: parse_connect_def write_connect_request_def)
  ultimately show ?thesis
    by (simp add: parse_request_def write_connect_request_def)
qed

lemma parse_write_scrape:
  assumes "wf_scrape m r"
  shows "parse_request (write_scrape_request r) m = Inr (ReqScrape r)"
proof -
  have "sub (write_scrape_request r) 8 4 = word_be 4 (2 :: u32)"
    by (simp add: write_scrape_request_def sub_codec)
  moreover have "12 \<le> length (write_scrape_request r)"
    by (simp add: write_scrape_request_def)
  ultimately show ?thesis
    using assms parse_scrape_enc [of r m] by (simp add: parse_request_def wf_scrape_def)
qed

text \<open>C7. Every request a client may send is parsed back to itself: a connect request, an announce request
  with a port other than 0 and one of the four events, and a scrape request with at least one info
  hash and at most as many as the limit.\<close>
theorem parse_request_roundtrip:
  assumes "wf_request m req"
  shows "parse_request (write_request req) m = Inr req"
proof (cases req)
  case (ReqConnect r)
  then show ?thesis by (simp add: parse_write_connect)
next
  case (ReqAnnounce r)
  then show ?thesis
    using assms parse_announce_enc [of r "[]"] announce_action [of r "[]"]
    by (simp add: parse_request_def wf_announce_def)
next
  case (ReqScrape r)
  then show ?thesis using assms parse_write_scrape by simp
qed

lemma parse_request_roundtrip_witness:
  "parse_request (write_request (ReqScrape \<lparr>sr_connection_id = 5, sr_transaction_id = 9,
     sr_info_hashes = [7, 8]\<rparr>)) 2 =
   Inr (ReqScrape \<lparr>sr_connection_id = 5, sr_transaction_id = 9, sr_info_hashes = [7, 8]\<rparr>)"
  by (rule parse_request_roundtrip) (simp add: wf_scrape_def)

text \<open>What an accepted packet looks like.\<close>

fun accepted :: "bytes \<Rightarrow> u8 \<Rightarrow> request \<Rightarrow> bool" where
  "accepted bs m (ReqConnect r) = (\<exists>rest. bs = write_connect_request r @ rest)"
| "accepted bs m (ReqAnnounce r) = (wf_announce r \<and> (\<exists>rest. bs = announce_request_bytes r @ rest))"
| "accepted bs m (ReqScrape r) = (\<exists>hs. hs \<noteq> [] \<and> sr_info_hashes r = take (unat m) hs \<and>
     bs = write_scrape_request (r\<lparr>sr_info_hashes := hs\<rparr>))"

lemma parse_connect_sound:
  assumes "parse_connect bs = Inr req" and "sub bs 8 4 = word_be 4 (0 :: u32)"
  shows "accepted bs m req"
proof -
  from assms(1) obtain act b1 b2 tid b3 where
    "read_i64_ne bs = Inr (PROTOCOL_IDENTIFIER, b1)" "read_i32_ne b1 = Inr (act, b2)"
    "read_i32_ne b2 = Inr (tid, b3)" and req: "req = ReqConnect \<lparr>cr_transaction_id = tid\<rparr>"
    by (auto simp: parse_connect_def and_then_Inr split: if_splits)
  then have bs: "bs = word_be 8 PROTOCOL_IDENTIFIER @ word_be 4 act @ word_be 4 tid @ b3"
    by (simp add: read_i64_Inr read_i32_Inr)
  then have "word_be 4 act = word_be 4 (0 :: u32)"
    using assms(2) by (simp add: sub_codec)
  then show ?thesis
    unfolding req bs by (simp add: write_connect_request_def)
qed

lemma parse_announce_sound:
  assumes "parse_announce bs = Inr req" and "sub bs 8 4 = word_be 4 (1 :: u32)"
  shows "accepted bs m req"
proof -
  from assms(1) obtain r where rd: "read_from_prefix 98 announce_request_of bs = Some r"
    and req: "req = ReqAnnounce r"
    and ok: "ar_port r \<noteq> 0" "0 \<le> sint (ar_event r)" "sint (ar_event r) \<le> 3"
    by (auto simp: parse_announce_def and_then_Inr split: if_splits)
  from announce_req.read_Some [OF rd] obtain rest where bs: "bs = announce_request_bytes r @ rest"
    by blast
  then have "word_be 4 (ar_action_placeholder r) = word_be 4 (1 :: u32)"
    using assms(2) announce_action by simp
  then have "ar_action_placeholder r = 1" by (rule be32.enc_inj)
  then show ?thesis using ok req bs by (simp add: wf_announce_def)
qed

lemma parse_scrape_sound:
  assumes "parse_scrape bs m = Inr req" and "sub bs 8 4 = word_be 4 (2 :: u32)"
  shows "accepted bs m req"
proof -
  from assms(1) obtain cid act tid b1 b2 b3 hs where
    "read_i64_ne bs = Inr (cid, b1)" "read_i32_ne b1 = Inr (act, b2)"
    "read_i32_ne b2 = Inr (tid, b3)" and ne: "b3 \<noteq> []" and sl: "slice_from 20 be_word b3 = Some hs"
    and req: "req = ReqScrape \<lparr>sr_connection_id = cid, sr_transaction_id = tid,
      sr_info_hashes = take (min (unat m) (length hs)) hs\<rparr>"
    by (auto simp: parse_scrape_def and_then_Inr split: if_splits)
  then have bs: "bs = word_be 8 cid @ word_be 4 act @ word_be 4 tid @ b3"
    by (simp add: read_i64_Inr read_i32_Inr)
  then have "word_be 4 act = word_be 4 (2 :: u32)"
    using assms(2) by (simp add: sub_codec)
  moreover have b3: "b3 = concat (map (word_be 20) hs)"
    using be160.slice_Some [OF sl] by simp
  moreover have "hs \<noteq> []" using b3 ne by auto
  moreover have "take (min (unat m) (length hs)) hs = take (unat m) hs"
    by (metis min.commute take_all_iff take_take nle_le)
  ultimately show ?thesis
    unfolding req bs by (auto simp: write_scrape_request_def)
qed

lemma parse_request_accepted:
  assumes "parse_request bs m = Inr req"
  shows "accepted bs m req"
proof -
  define action :: u32 where "action = be_word (sub bs 8 4)"
  from assms have len: "12 \<le> length bs"
    by (auto simp: parse_request_def and_then_Inr split: if_splits)
  then have act: "sub bs 8 4 = word_be 4 action"
    by (simp add: action_def word_be_inverse)
  from assms len consider "action = 0" "parse_connect bs = Inr req"
    | "action = 1" "parse_announce bs = Inr req" | "action = 2" "parse_scrape bs m = Inr req"
    by (auto simp: parse_request_def action_def split: if_splits)
  then show ?thesis
    using act parse_connect_sound parse_announce_sound parse_scrape_sound by cases metis+
qed

text \<open>C2. The parser accepts nothing else. An accepted packet is the encoding of the request it is parsed to
  (bytes after a connect or announce request are ignored); an accepted announce request has a port
  other than 0 and a known event, and an accepted scrape request lists at least one info hash and is
  cut to the limit.\<close>
theorem parse_request_sound:
  assumes "parse_request bs m = Inr req"
  shows "accepted bs m req"
  using assms by (rule parse_request_accepted)

lemma parse_request_sound_witness:
  "accepted (write_connect_request \<lparr>cr_transaction_id = 9\<rparr>) 1 (ReqConnect \<lparr>cr_transaction_id = 9\<rparr>)"
  by (rule parse_request_sound) (rule parse_write_connect)

lemma parse_connect_unsendable: "parse_connect bs \<noteq> Inl (Sendable cid tid e)"
  by (auto simp: parse_connect_def unsendable_io_def unsendable_text_def read_i64_ne_def
      read_i32_ne_def read_exact_def split: if_splits)

lemma announce_ids:
  assumes "98 \<le> length bs"
  shows "ar_connection_id (announce_request_of (take 98 bs)) = be_word (sub bs 0 8)"
    and "ar_transaction_id (announce_request_of (take 98 bs)) = be_word (sub bs 12 4)"
  using assms by (simp_all add: announce_request_of_def sub_def drop_take)

lemma parse_announce_ids:
  assumes "parse_announce bs = Inl (Sendable cid tid e)"
  shows "16 \<le> length bs \<and> cid = be_word (sub bs 0 8) \<and> tid = be_word (sub bs 12 4)"
  using assms
  by (auto simp: parse_announce_def read_from_prefix_def announce_ids sendable_text_def
      unsendable_text_def ok_or_def split: if_splits)

lemma parse_scrape_ids:
  assumes "parse_scrape bs m = Inl (Sendable cid tid e)"
  shows "16 \<le> length bs \<and> cid = be_word (sub bs 0 8) \<and> tid = be_word (sub bs 12 4)"
  using assms
  by (auto simp: parse_scrape_def read_i64_ne_def read_i32_ne_def read_exact_def sub_def
      unsendable_io_def sendable_text_def ok_or_def split: if_splits option.splits)

lemma parse_request_sendable:
  assumes "parse_request bs m = Inl (Sendable cid tid e)"
  shows "16 \<le> length bs \<and> cid = be_word (sub bs 0 8) \<and> tid = be_word (sub bs 12 4)"
proof -
  from assms have "parse_announce bs = Inl (Sendable cid tid e) \<or>
      parse_scrape bs m = Inl (Sendable cid tid e)"
    using parse_connect_unsendable
    by (auto simp: parse_request_def unsendable_text_def ok_or_def split: if_splits)
  then show ?thesis using parse_announce_ids parse_scrape_ids by blast
qed

text \<open>An error that may be answered carries the ids of the packet that caused it: the packet has at least
  16 bytes, and the connection and transaction id are its first eight bytes and the four at
  offset 12. (A packet without them only yields an error that is never sent.)\<close>
theorem parse_request_error_ids:
  assumes "parse_request bs m = Inl (Sendable cid tid e)"
  shows "16 \<le> length bs \<and> cid = be_word (sub bs 0 8) \<and> tid = be_word (sub bs 12 4)"
  using assms by (rule parse_request_sendable)

text \<open>The ids of a request, and where an accepted packet has them.\<close>

fun request_transaction_id :: "request \<Rightarrow> transaction_id" where
  "request_transaction_id (ReqConnect r) = cr_transaction_id r"
| "request_transaction_id (ReqAnnounce r) = ar_transaction_id r"
| "request_transaction_id (ReqScrape r) = sr_transaction_id r"

fun request_action :: "request \<Rightarrow> u32" where
  "request_action (ReqConnect r) = 0"
| "request_action (ReqAnnounce r) = 1"
| "request_action (ReqScrape r) = 2"

fun request_connection_id :: "request \<Rightarrow> connection_id option" where
  "request_connection_id (ReqConnect r) = None"
| "request_connection_id (ReqAnnounce r) = Some (ar_connection_id r)"
| "request_connection_id (ReqScrape r) = Some (sr_connection_id r)"

lemma accepted_head:
  assumes "accepted bs m req"
  shows "16 \<le> length bs" and "sub bs 8 4 = word_be 4 (request_action req)"
    and "sub bs 12 4 = word_be 4 (request_transaction_id req)"
    and "request_connection_id req = Some cid \<Longrightarrow> cid = be_word (sub bs 0 8)"
  using assms
  by (cases req; auto simp: write_connect_request_def announce_request_bytes_def
      write_scrape_request_def wf_announce_def sub_codec)+

lemma parse_scrape_empty:
  "parse_request (word_be 8 (cid :: u64) @ word_be 4 (2 :: u32) @ word_be 4 (tid :: u32)) m =
   Inl (Sendable cid tid (str ''Full scrapes are not allowed''))"
  by (simp add: parse_request_def parse_scrape_def sub_codec sendable_text_def)

lemma parse_request_error_ids_witness:
  "16 \<le> length (word_be 8 (5 :: u64) @ word_be 4 (2 :: u32) @ word_be 4 (9 :: u32)) \<and>
   (5 :: u64) = be_word (sub (word_be 8 (5 :: u64) @ word_be 4 (2 :: u32) @ word_be 4 (9 :: u32)) 0 8) \<and>
   (9 :: u32) = be_word (sub (word_be 8 (5 :: u64) @ word_be 4 (2 :: u32) @ word_be 4 (9 :: u32)) 12 4)"
  by (rule parse_request_error_ids) (rule parse_scrape_empty)

subsection \<open>Responses: round trip\<close>

fun wf_response :: "bool \<Rightarrow> response \<Rightarrow> bool" where
  "wf_response ipv4 (ResAnnounceIpv4 r) = ipv4"
| "wf_response ipv4 (ResAnnounceIpv6 r) = (\<not> ipv4)"
| "wf_response ipv4 (ResError r) = valid_utf8 (er_message r)"
| "wf_response ipv4 r = True"

lemma announce_fixed_len [simp]: "length (announce_fixed_bytes r) = 16"
  by (rule announce_fixed.length_enc)

text \<open>Every response the tracker writes is parsed back to itself by a client that knows the address
  family of the socket it came from; the message of an error response is valid UTF-8, as every Rust
  string is.\<close>
theorem parse_response_roundtrip:
  assumes "wf_response ipv4 res"
  shows "parse_response (write_response res) ipv4 = Inr res"
proof (cases res)
  case (ResConnect r)
  then show ?thesis
    using connect_res.read_enc [of r "[]"]
    by (simp add: parse_response_def write_connect_response_def)
next
  case (ResAnnounceIpv4 r)
  then show ?thesis
    using assms
    by (cases r) (simp add: parse_response_def write_announce_response_def
        parse_announce_response_def announce_fixed.read_enc peer4.slice_enc)
next
  case (ResAnnounceIpv6 r)
  then show ?thesis
    using assms
    by (cases r) (simp add: parse_response_def write_announce_response_def
        parse_announce_response_def announce_fixed.read_enc peer6.slice_enc)
next
  case (ResScrape r)
  then show ?thesis
    by (cases r) (simp add: parse_response_def write_scrape_response_def scrape_stats.slice_enc)
next
  case (ResError r)
  then show ?thesis
    using assms
    by (cases r) (simp add: parse_response_def write_error_response_def from_utf8_lossy_valid)
qed

lemma parse_response_roundtrip_witness:
  "parse_response (write_response (ResAnnounceIpv4 \<lparr>as_fixed = \<lparr>af_transaction_id = 1,
       af_announce_interval = 120, af_leechers = 2, af_seeders = 3\<rparr>,
     as_peers = [\<lparr>ip_address = 0x7F000001, peer_port = 6881\<rparr>]\<rparr>)) True =
   Inr (ResAnnounceIpv4 \<lparr>as_fixed = \<lparr>af_transaction_id = 1, af_announce_interval = 120,
       af_leechers = 2, af_seeders = 3\<rparr>,
     as_peers = [\<lparr>ip_address = 0x7F000001, peer_port = 6881\<rparr>]\<rparr>)"
  by (rule parse_response_roundtrip) simp

end
