(* ===== verification/List_File.thy ===== *)
theory List_File
  imports Prelude
begin

text \<open>
  \<open>crates/common/src/list_file.rs\<close>: the reader of the line-oriented ban and allow lists. The file
  system's answer (the bytes of the file or the error) is the argument; the result lists the
  one-based line number and the trimmed entry of every line that is not blank or a comment.
\<close>

definition bom :: bytes where
  "bom = [0xEF, 0xBB, 0xBF]"

definition before_hash :: "bytes \<Rightarrow> bytes" where
  "before_hash line = takeWhile (\<lambda>c. c \<noteq> 35) line"

definition list_entry :: "bytes \<Rightarrow> bytes" where
  "list_entry line = trim (before_hash (trim_start_matches [bom] line))"

definition list_entries :: "bytes \<Rightarrow> (nat \<times> bytes) list" where
  "list_entries content =
     filter (\<lambda>(_, l). l \<noteq> [])
       (map (\<lambda>(n, l). (n, list_entry l)) (enumerate 1 (lines (from_utf8_lossy content))))"

definition read_list_file :: "io_error + bytes \<Rightarrow> io_error + (nat \<times> bytes) list" where
  "read_list_file file = and_then file (\<lambda>content. Inr (list_entries content))"

subsection \<open>Trimming\<close>

lemma strip_prefixes_pos:
  "strip_prefixes ps s \<noteq> 0 \<Longrightarrow> \<exists>p \<in> set ps. p \<noteq> [] \<and> starts_with s p \<and> strip_prefixes ps s = length p"
  by (auto simp: strip_prefixes_def split: list.splits)
    (metis (mono_tags, lifting) filter_eq_ConsD in_set_conv_decomp)

lemma trim_end_prefix: "\<exists>n. trim_end_matches ps s = take n s"
proof (induction ps s rule: trim_end_matches.induct)
  case (1 ps s)
  show ?case
  proof (cases "strip_suffixes ps s = 0 \<or> s = []")
    case True
    then have "trim_end_matches ps s = take (length s) s"
      by (simp add: trim_end_matches.simps [of ps s])
    then show ?thesis by blast
  next
    case False
    from "1.IH" [OF False] obtain n
      where "trim_end_matches ps (take (length s - strip_suffixes ps s) s) =
        take n (take (length s - strip_suffixes ps s) s)" by blast
    then have "trim_end_matches ps s = take (min n (length s - strip_suffixes ps s)) s"
      using False by (simp add: trim_end_matches.simps [of ps s])
    then show ?thesis by blast
  qed
qed

lemma trim_start_suffix: "\<exists>n. trim_start_matches ps s = drop n s"
proof (induction ps s rule: trim_start_matches.induct)
  case (1 ps s)
  show ?case
  proof (cases "strip_prefixes ps s = 0 \<or> s = []")
    case True
    then have "trim_start_matches ps s = drop 0 s"
      by (simp add: trim_start_matches.simps [of ps s])
    then show ?thesis by blast
  next
    case False
    from "1.IH" [OF False] obtain n where "trim_start_matches ps (drop (strip_prefixes ps s) s) =
        drop n (drop (strip_prefixes ps s) s)" by blast
    then have "trim_start_matches ps s = drop (n + strip_prefixes ps s) s"
      using False by (simp add: trim_start_matches.simps [of ps s])
    then show ?thesis by blast
  qed
qed

lemma trim_start_done: "strip_prefixes ps (trim_start_matches ps s) = 0 \<or> trim_start_matches ps s = []"
proof (induction ps s rule: trim_start_matches.induct)
  case (1 ps s)
  then show ?case by (subst (1 2) trim_start_matches.simps) auto
qed

lemma trim_end_done: "strip_suffixes ps (trim_end_matches ps s) = 0 \<or> trim_end_matches ps s = []"
proof (induction ps s rule: trim_end_matches.induct)
  case (1 ps s)
  then show ?case by (subst (1 2) trim_end_matches.simps) auto
qed

lemma set_trim: "set (trim s) \<subseteq> set s"
proof -
  obtain n m where "trim s = take n (drop m s)"
    unfolding trim_def using trim_end_prefix trim_start_suffix by metis
  then show ?thesis by (metis set_drop_subset set_take_subset subset_trans)
qed

lemma starts_with_append:
  assumes "c \<notin> set p"
  shows "starts_with (l @ c # r) p \<longleftrightarrow> starts_with l p"
proof -
  have "take (length p) (l @ c # r) = p \<longleftrightarrow> take (length p) l = p"
  proof (cases "length p \<le> length l")
    case True
    then show ?thesis by simp
  next
    case False
    then have "c \<in> set (take (length p) (l @ c # r))"
      by (cases "length p - length l") auto
    moreover have "length (take (length p) l) \<noteq> length p" using False by simp
    ultimately show ?thesis using assms by metis
  qed
  then show ?thesis by (simp add: starts_with_def)
qed

lemma strip_prefixes_append:
  assumes "\<forall>p \<in> set ps. c \<notin> set p"
  shows "strip_prefixes ps (l @ c # r) = strip_prefixes ps l"
proof -
  have "filter (\<lambda>p. p \<noteq> [] \<and> starts_with (l @ c # r) p) ps =
      filter (\<lambda>p. p \<noteq> [] \<and> starts_with l p) ps"
    using assms by (intro filter_cong) (auto simp: starts_with_append)
  then show ?thesis by (simp add: strip_prefixes_def)
qed

lemma strip_prefixes_le: "strip_prefixes ps s \<le> length s"
  using strip_prefixes_pos [of ps s]
  by (cases "strip_prefixes ps s = 0") (auto simp: starts_with_def, metis length_take min.cobounded1)

lemma trim_start_append:
  assumes "\<forall>p \<in> set ps. c \<notin> set p"
  shows "trim_start_matches ps (l @ c # r) = trim_start_matches ps l @ c # r"
  using assms
proof (induction ps l rule: trim_start_matches.induct)
  case (1 ps l)
  let ?n = "strip_prefixes ps l"
  have n: "strip_prefixes ps (l @ c # r) = ?n"
    using "1.prems" by (rule strip_prefixes_append)
  have nil: "strip_prefixes ps [] = 0" using strip_prefixes_le [of ps "[]"] by simp
  show ?case
  proof (cases "?n = 0 \<or> l = []")
    case True
    then show ?thesis
      using n nil by (auto simp: trim_start_matches.simps [of ps "l @ c # r"]
          trim_start_matches.simps [of ps l])
  next
    case False
    then show ?thesis
      using n "1.IH" [OF False "1.prems"] strip_prefixes_le [of ps l]
      by (simp add: trim_start_matches.simps [of ps "l @ c # r"] trim_start_matches.simps [of ps l])
  qed
qed

subsection \<open>Entries\<close>

lemma list_entry_no_hash: "35 \<notin> set (list_entry line)"
proof
  assume "35 \<in> set (list_entry line)"
  then have "35 \<in> set (before_hash (trim_start_matches [bom] line))"
    unfolding list_entry_def using set_trim by blast
  then show False by (auto simp: before_hash_def dest: set_takeWhileD)
qed

text \<open>A comment does not change the entry of its line: whatever follows the first hash character, the
  entry is that of the line cut there.\<close>
theorem list_entry_comment: "list_entry (l @ 35 # comment) = list_entry l"
proof -
  have "trim_start_matches [bom] (l @ 35 # comment) = trim_start_matches [bom] l @ 35 # comment"
    by (rule trim_start_append) (simp add: bom_def)
  moreover have "takeWhile (\<lambda>c. c \<noteq> 35) (xs @ 35 # ys) = takeWhile (\<lambda>c. c \<noteq> 35) xs"
    for xs ys :: bytes
    by (induction xs) auto
  ultimately show ?thesis by (simp add: list_entry_def before_hash_def)
qed

lemma fst_list_entries:
  "map fst (map (\<lambda>(n, l). (n, f l)) (enumerate k ls)) = [k..<k + length ls]"
  by (simp add: case_prod_unfold comp_def)

lemma sorted_keys_filter:
  "sorted_wrt (<) (map fst m) \<Longrightarrow> sorted_wrt (<) (map fst (filter P m))" for m :: "(nat \<times> 'a) list"
  by (induction m) auto

lemma list_entries_numbers: "sorted_wrt (<) (map fst (list_entries content))"
  unfolding list_entries_def
  by (rule sorted_keys_filter) (simp only: fst_list_entries sorted_wrt_upt)

lemma list_entries_sound:
  assumes "(n, e) \<in> set (list_entries content)"
  shows "e \<noteq> [] \<and> 35 \<notin> set e \<and> 1 \<le> n \<and> n \<le> length (lines (from_utf8_lossy content)) \<and>
    e = list_entry (lines (from_utf8_lossy content) ! (n - 1))"
proof -
  from assms obtain l where ne: "e \<noteq> []" and e: "e = list_entry l"
    and mem: "(n, l) \<in> set (enumerate 1 (lines (from_utf8_lossy content)))"
    by (auto simp: list_entries_def)
  from mem have "1 \<le> n \<and> n \<le> length (lines (from_utf8_lossy content)) \<and>
      l = lines (from_utf8_lossy content) ! (n - 1)"
    unfolding in_set_enumerate_eq by auto
  then show ?thesis using ne e list_entry_no_hash by auto
qed

end
