(* ===== verification/Access_List.thy ===== *)
theory Access_List
  imports Crates List_File
begin

text \<open>
  \<open>crates/common/src/access_list.rs\<close>: the allow or deny list of info hashes. The hash set is a
  set; the \<open>ArcSwap\<close> shared by the workers is the current list, which \<open>update\<close> replaces as a whole or
  leaves alone, and the caches the workers read revalidate on every load, so they read the current
  list. Hexadecimal decoding is the crate's (\<open>hex_ops\<close>).
\<close>

datatype access_list_mode = Allow | Deny | Off

fun mode_is_on :: "access_list_mode \<Rightarrow> bool" where
  "mode_is_on Off = False"
| "mode_is_on _ = True"

type_synonym access_list = "160 word set"

datatype list_error = ReadError io_error | InvalidEntry nat bytes

definition parse_info_hash :: "hex_ops \<Rightarrow> bytes \<Rightarrow> (160 word) option" where
  "parse_info_hash hex line = map_option be_word (hex_decode hex 20 line)"

definition insert_from_line :: "hex_ops \<Rightarrow> bytes \<Rightarrow> access_list \<Rightarrow> access_list option" where
  "insert_from_line hex line l = map_option (\<lambda>h. insert h l) (parse_info_hash hex line)"

fun insert_lines ::
  "hex_ops \<Rightarrow> (nat \<times> bytes) list \<Rightarrow> access_list \<Rightarrow> list_error + access_list" where
  "insert_lines hex [] l = Inr l"
| "insert_lines hex ((n, line) # es) l =
     (case insert_from_line hex line l of
        None \<Rightarrow> Inl (InvalidEntry n line)
      | Some l' \<Rightarrow> insert_lines hex es l')"

definition access_list_create :: "hex_ops \<Rightarrow> io_error + bytes \<Rightarrow> list_error + access_list" where
  "access_list_create hex file =
     and_then (map_err ReadError (read_list_file file)) (\<lambda>es. insert_lines hex es {})"

fun allows :: "access_list_mode \<Rightarrow> access_list \<Rightarrow> 160 word \<Rightarrow> bool" where
  "allows Allow l h = (h \<in> l)"
| "allows Deny l h = (h \<notin> l)"
| "allows Off l h = True"

text \<open>\<open>AccessListQuery::update\<close> and \<open>update_access_list\<close>: the new shared list and the result.\<close>

definition access_list_update ::
  "hex_ops \<Rightarrow> io_error + bytes \<Rightarrow> access_list \<Rightarrow> access_list \<times> (list_error + unit)" where
  "access_list_update hex file l =
     (case access_list_create hex file of
        Inl e \<Rightarrow> (l, Inl e)
      | Inr l' \<Rightarrow> (l', Inr ()))"

definition update_access_list ::
  "hex_ops \<Rightarrow> access_list_mode \<Rightarrow> io_error + bytes \<Rightarrow> access_list \<Rightarrow>
   access_list \<times> (list_error + unit)" where
  "update_access_list hex mode file l =
     (if mode_is_on mode then access_list_update hex file l else (l, Inr ()))"

lemma insert_lines_find:
  "insert_lines hex es l =
    (case List.find (\<lambda>e. parse_info_hash hex (snd e) = None) es of
       None \<Rightarrow> Inr (l \<union> {h. \<exists>e \<in> set es. parse_info_hash hex (snd e) = Some h})
     | Some (n, line) \<Rightarrow> Inl (InvalidEntry n line))"
proof (induction es arbitrary: l)
  case Nil
  then show ?case by simp
next
  case (Cons e es)
  obtain n line where e: "e = (n, line)" by (cases e)
  show ?case
  proof (cases "parse_info_hash hex line")
    case None
    then show ?thesis by (simp add: e insert_from_line_def)
  next
    case (Some h)
    then show ?thesis
      using Cons.IH by (auto simp: e insert_from_line_def split: option.split)
  qed
qed

lemma allow_deny_dual: "mode_is_on mode \<Longrightarrow> allows Allow l h \<longleftrightarrow> \<not> allows Deny l h"
  by simp

text \<open>Reloading the access list is all or nothing. With the list switched off nothing is read. A
  file that cannot be read, or that has an entry that is not an info hash, leaves the shared list as it
  was and reports the error of the first such entry; otherwise the new list holds exactly the info
  hashes of the file's entries, and nothing of the old list.\<close>
theorem access_list_reload:
  "update_access_list hex mode file l =
    (if mode = Off then (l, Inr ())
     else (case file of
        Inl e \<Rightarrow> (l, Inl (ReadError e))
      | Inr content \<Rightarrow>
          (case List.find (\<lambda>e. parse_info_hash hex (snd e) = None) (list_entries content) of
             Some (n, line) \<Rightarrow> (l, Inl (InvalidEntry n line))
           | None \<Rightarrow>
             ({h. \<exists>e \<in> set (list_entries content). parse_info_hash hex (snd e) = Some h}, Inr ()))))"
  by (cases mode; cases "file")
    (auto simp: update_access_list_def access_list_update_def access_list_create_def
      read_list_file_def insert_lines_find split: option.splits)

end
