(* ===== verification/Udp_Swarm.thy ===== *)
theory Udp_Swarm
  imports Peer_Store Udp_Protocol Access_List
begin

text \<open>
  \<open>crates/udp/src/swarm.rs\<close>: the torrents of the UDP tracker and their peers. \<open>IndexMap\<close> and the
  random number generator are arguments (\<open>Crates\<close>); a hash map is an association list. The peer map of
  a torrent threads the generator and yields the messages handed to the statistics sender.
  \<open>None\<close> stands for a panic (a push to a full \<open>ArrayVec\<close>) and for an index subtraction below zero.
  Every operation is modelled as the code runs it under its locks: one announce, scrape or cleaning
  of a shard at a time.
\<close>

subsection \<open>Configuration\<close>

record udp_protocol_config =
  max_scrape_torrents :: u8
  max_response_peers :: nat
  peer_announce_interval :: u32

record udp_statistics_config =
  st_interval :: u64
  torrent_peer_histograms :: bool
  peer_clients :: bool
  print_to_stdout :: bool
  write_html_to_file :: bool
  run_prometheus_endpoint :: bool

definition statistics_active :: "udp_statistics_config \<Rightarrow> bool" where
  "statistics_active c = (st_interval c \<noteq> 0 \<and>
     (print_to_stdout c \<or> write_html_to_file c \<or> run_prometheus_endpoint c))"

record udp_config =
  uc_protocol :: udp_protocol_config
  uc_statistics :: udp_statistics_config
  uc_access_list_mode :: access_list_mode

datatype 'h statistics_message =
    Ipv4PeerHistogram 'h
  | Ipv6PeerHistogram 'h
  | PeerAdded peer_id
  | PeerRemoved peer_id

subsection \<open>Peers\<close>

definition SMALL_PEER_MAP_CAPACITY :: nat where
  "SMALL_PEER_MAP_CAPACITY = 2"

definition i32_max :: u32 where
  "i32_max = 0x7FFFFFFF"

definition usize_to_i32_checked :: "u64 \<Rightarrow> u32" where
  "usize_to_i32_checked v = (if v \<le> 0x7FFFFFFF then word_of_nat (unat v) else i32_max)"

definition u64_to_i32_checked :: "u64 \<Rightarrow> u32" where
  "u64_to_i32_checked v = (if v \<le> 0x7FFFFFFF then word_of_nat (unat v) else i32_max)"

record peer =
  p_peer_id :: peer_id
  p_is_seeder :: bool
  p_valid_until :: valid_until

datatype peer_status = Seeding | Leeching | StatusStopped

definition from_event_and_bytes_left :: "announce_event \<Rightarrow> number_of_bytes \<Rightarrow> peer_status" where
  "from_event_and_bytes_left event bytes_left =
     (if event = Stopped then StatusStopped else if bytes_left = 0 then Seeding else Leeching)"

type_synonym 'i peer_entries = "('i response_peer, peer) index_map"

record 'i small_peer_map =
  sm_peers :: "'i peer_entries"
  sm_completed :: u64

record 'i large_peer_map =
  lm_peers :: "'i peer_entries"
  lm_num_seeders :: u64
  lm_completed :: u64

datatype 'i peer_map = Small "'i small_peer_map" | Large "'i large_peer_map"

definition peer_map_default :: "'i peer_map" where
  "peer_map_default = Small \<lparr>sm_peers = [], sm_completed = 0\<rparr>"

subsection \<open>The small peer map\<close>

definition small_is_full :: "'i small_peer_map \<Rightarrow> bool" where
  "small_is_full m = (length (sm_peers m) = SMALL_PEER_MAP_CAPACITY)"

definition small_num_seeders_leechers :: "'i small_peer_map \<Rightarrow> u64 \<times> u64" where
  "small_num_seeders_leechers m =
     (let seeders = of_nat (length (filter (\<lambda>(_, p). p_is_seeder p) (sm_peers m)))
      in (seeders, of_nat (length (sm_peers m)) - seeders))"

definition small_insert :: "'i response_peer \<Rightarrow> peer \<Rightarrow> 'i small_peer_map \<Rightarrow> 'i small_peer_map option"
  where "small_insert key p m =
     (if length (sm_peers m) < SMALL_PEER_MAP_CAPACITY
      then Some (m\<lparr>sm_peers := sm_peers m @ [(key, p)]\<rparr>) else None)"

fun remove_first :: "'k \<Rightarrow> ('k \<times> 'p) list \<Rightarrow> 'p option \<times> ('k \<times> 'p) list" where
  "remove_first key [] = (None, [])"
| "remove_first key ((k, p) # es) =
     (if k = key then (Some p, es)
      else (let (r, es') = remove_first key es in (r, (k, p) # es')))"

definition small_remove :: "'i response_peer \<Rightarrow> 'i small_peer_map \<Rightarrow> peer option \<times> 'i small_peer_map"
  where "small_remove key m =
     (let (r, es) = remove_first key (sm_peers m) in (r, m\<lparr>sm_peers := es\<rparr>))"

definition small_extract_response_peers :: "nat \<Rightarrow> 'i small_peer_map \<Rightarrow> 'i response_peer list" where
  "small_extract_response_peers n m = map fst (take n (sm_peers m))"

text \<open>The messages of a cleaning: one for every peer that is dropped.\<close>

definition removed_messages ::
  "udp_config \<Rightarrow> seconds_since_start \<Rightarrow> 'i peer_entries \<Rightarrow> 'h statistics_message list" where
  "removed_messages cf now es =
     (if peer_clients (uc_statistics cf)
      then map (\<lambda>(_, p). PeerRemoved (p_peer_id p))
             (filter (\<lambda>(_, p). \<not> valid (p_valid_until p) now) es)
      else [])"

definition small_clean ::
  "udp_config \<Rightarrow> seconds_since_start \<Rightarrow> 'i small_peer_map \<Rightarrow>
   'i small_peer_map \<times> nat \<times> 'h statistics_message list" where
  "small_clean cf now m =
     (let es = filter (\<lambda>(_, p). valid (p_valid_until p) now) (sm_peers m)
      in (m\<lparr>sm_peers := es\<rparr>, length es, removed_messages cf now (sm_peers m)))"

subsection \<open>The large peer map\<close>

type_synonym 'i peer_map_ops = "('i response_peer, peer) index_map_ops"

definition to_large :: "'i peer_map_ops \<Rightarrow> 'i small_peer_map \<Rightarrow> 'i large_peer_map" where
  "to_large im m = \<lparr>
     lm_peers = fold (\<lambda>(k, p). im_insert im k p) (sm_peers m) [],
     lm_num_seeders = fst (small_num_seeders_leechers m),
     lm_completed = sm_completed m\<rparr>"

definition large_num_seeders_leechers :: "'i large_peer_map \<Rightarrow> u64 \<times> u64" where
  "large_num_seeders_leechers m =
     (lm_num_seeders m, of_nat (length (lm_peers m)) - lm_num_seeders m)"

definition large_insert ::
  "'i peer_map_ops \<Rightarrow> 'i response_peer \<Rightarrow> peer \<Rightarrow> 'i large_peer_map \<Rightarrow> 'i large_peer_map" where
  "large_insert im key p m =
     (let m1 = (if p_is_seeder p then m\<lparr>lm_num_seeders := lm_num_seeders m + 1\<rparr> else m)
      in m1\<lparr>lm_peers := im_insert im key p (lm_peers m1)\<rparr>)"

definition large_remove_peer ::
  "'i peer_map_ops \<Rightarrow> 'i response_peer \<Rightarrow> 'i large_peer_map \<Rightarrow> peer option \<times> 'i large_peer_map" where
  "large_remove_peer im key m =
     (let r = map_of (lm_peers m) key;
          m1 = m\<lparr>lm_peers := im_swap_remove im key (lm_peers m)\<rparr>
      in (r, case r of
          Some p \<Rightarrow> if p_is_seeder p then m1\<lparr>lm_num_seeders := lm_num_seeders m1 - 1\<rparr> else m1
        | None \<Rightarrow> m1))"

text \<open>Subtraction of indices; the code never goes below zero (shown below).\<close>

definition index_sub :: "nat \<Rightarrow> nat \<Rightarrow> nat option" where
  "index_sub a b = (if b \<le> a then Some (a - b) else None)"

definition slice_keys :: "nat \<Rightarrow> nat \<Rightarrow> ('k, 'v) index_map \<Rightarrow> 'k list" where
  "slice_keys a b es = (case im_get_range a b es of Some s \<Rightarrow> im_keys s | None \<Rightarrow> [])"

definition large_extract_response_peers ::
  "'r gen_range \<Rightarrow> 'r \<Rightarrow> nat \<Rightarrow> 'i large_peer_map \<Rightarrow> ('i response_peer list \<times> 'r) option" where
  "large_extract_response_peers gen r max_num m =
     (let es = lm_peers m in
      if length es \<le> max_num then Some (im_keys es, r)
      else
        let middle = length es div 2;
            num_one = (max_num + 1) div 2;
            num_two = max_num div 2
        in Option.bind (index_sub middle num_one) (\<lambda>top_one.
             let (offset_one, r1) = gen 0 top_one r;
                 peers = slice_keys offset_one (offset_one + num_one) es
             in if 0 < num_two then
                  Option.bind (Option.bind (index_sub (length es) middle) (\<lambda>d. index_sub d num_two))
                    (\<lambda>top_two.
                     let (o2, r2) = gen 0 top_two r1;
                         offset_two = middle + o2
                     in Some (peers @ slice_keys offset_two (offset_two + num_two) es, r2))
                else Some (peers, r1)))"

text \<open>The retain loop: the entries kept, and the seeder count and the messages it updates.\<close>

fun large_retain ::
  "udp_config \<Rightarrow> seconds_since_start \<Rightarrow> 'i peer_entries \<Rightarrow> u64 \<Rightarrow>
   'i peer_entries \<times> u64 \<times> 'h statistics_message list" where
  "large_retain cf now [] n = ([], n, [])"
| "large_retain cf now ((k, p) # es) n =
     (if valid (p_valid_until p) now then
        (let (es', n', ms) = large_retain cf now es n in ((k, p) # es', n', ms))
      else
        (let (es', n', ms) = large_retain cf now es (if p_is_seeder p then n - 1 else n)
         in (es', n',
             (if peer_clients (uc_statistics cf) then PeerRemoved (p_peer_id p) # ms else ms))))"

definition large_clean ::
  "udp_config \<Rightarrow> seconds_since_start \<Rightarrow> 'i large_peer_map \<Rightarrow>
   'i large_peer_map \<times> nat \<times> 'h statistics_message list" where
  "large_clean cf now m =
     (let (es, n, ms) = large_retain cf now (lm_peers m) (lm_num_seeders m)
      in (m\<lparr>lm_peers := es, lm_num_seeders := n\<rparr>, length es, ms))"

definition try_shrink :: "'i large_peer_map \<Rightarrow> 'i small_peer_map option" where
  "try_shrink m = (if length (lm_peers m) \<le> SMALL_PEER_MAP_CAPACITY
     then Some \<lparr>sm_peers = lm_peers m, sm_completed = lm_completed m\<rparr> else None)"

subsection \<open>The peer map of a torrent\<close>

definition max_num_peers_to_take :: "udp_config \<Rightarrow> announce_request \<Rightarrow> nat" where
  "max_num_peers_to_take cf req =
     (if sint (ar_peers_wanted req) \<le> 0 then max_response_peers (uc_protocol cf)
      else min (max_response_peers (uc_protocol cf)) (nat (sint (ar_peers_wanted req))))"

definition announce_status :: "announce_request \<Rightarrow> peer_status" where
  "announce_status req =
     from_event_and_bytes_left (event_of_bytes (ar_event req)) (ar_bytes_left req)"

definition count_completed :: "announce_request \<Rightarrow> 'i peer_map \<Rightarrow> 'i peer_map" where
  "count_completed req pm =
     (if ar_event req = event_to_bytes Completed then
        (case pm of
           Small m \<Rightarrow> Small (m\<lparr>sm_completed := sm_completed m + 1\<rparr>)
         | Large m \<Rightarrow> Large (m\<lparr>lm_completed := lm_completed m + 1\<rparr>))
      else pm)"

definition announce_response_of ::
  "udp_config \<Rightarrow> announce_request \<Rightarrow> u64 \<times> u64 \<Rightarrow> 'i response_peer list \<Rightarrow> 'i announce_response" where
  "announce_response_of cf req counts peers =
     (let (seeders, leechers) = counts in \<lparr>
       as_fixed = \<lparr>
         af_transaction_id = ar_transaction_id req,
         af_announce_interval = peer_announce_interval (uc_protocol cf),
         af_leechers = usize_to_i32_checked leechers,
         af_seeders = usize_to_i32_checked seeders\<rparr>,
       as_peers = peers\<rparr>)"

text \<open>The response, the map without the announcing peer, converted where needed, and that peer.\<close>

definition announce_respond ::
  "'i peer_map_ops \<Rightarrow> 'r gen_range \<Rightarrow> udp_config \<Rightarrow> announce_request \<Rightarrow> 'i response_peer \<Rightarrow> 'r \<Rightarrow>
   'i peer_map \<Rightarrow> ('i announce_response \<times> peer option \<times> 'i peer_map \<times> 'r) option" where
  "announce_respond im gen cf req key r pm =
     (let status = announce_status req; n = max_num_peers_to_take cf req in
      case pm of
        Small m \<Rightarrow>
          (let (removed, m1) = small_remove key m;
               response = announce_response_of cf req (small_num_seeders_leechers m1)
                 (small_extract_response_peers n m1);
               pm' = (if small_is_full m1 \<and> status \<noteq> StatusStopped then Large (to_large im m1)
                      else Small m1)
           in Some (response, removed, pm', r))
      | Large m \<Rightarrow>
          (let (removed, m1) = large_remove_peer im key m in
           Option.bind (large_extract_response_peers gen r n m1) (\<lambda>(peers, r').
             let response = announce_response_of cf req (large_num_seeders_leechers m1) peers;
                 pm' = (if status = StatusStopped then
                          (case try_shrink m1 of Some s \<Rightarrow> Small s | None \<Rightarrow> Large m1)
                        else Large m1)
             in Some (response, removed, pm', r'))))"

definition peer_map_insert ::
  "'i peer_map_ops \<Rightarrow> 'i response_peer \<Rightarrow> peer \<Rightarrow> 'i peer_map \<Rightarrow> 'i peer_map option" where
  "peer_map_insert im key p pm =
     (case pm of
        Small m \<Rightarrow> map_option Small (small_insert key p m)
      | Large m \<Rightarrow> Some (Large (large_insert im key p m)))"

definition peer_map_announce ::
  "'i peer_map_ops \<Rightarrow> 'r gen_range \<Rightarrow> udp_config \<Rightarrow> announce_request \<Rightarrow> 'i \<Rightarrow> valid_until \<Rightarrow> 'r \<Rightarrow>
   'i peer_map \<Rightarrow> ('i announce_response \<times> 'i peer_map \<times> 'h statistics_message list \<times> 'r) option" where
  "peer_map_announce im gen cf req ip vu r pm =
     (let status = announce_status req;
          key = \<lparr>ip_address = ip, peer_port = ar_port req\<rparr>
      in Option.bind (announce_respond im gen cf req key r (count_completed req pm))
        (\<lambda>(response, removed, pm1, r1).
          if status = StatusStopped then
            Some (response, pm1,
              (if peer_clients (uc_statistics cf) \<and> removed \<noteq> None
               then [PeerRemoved (ar_peer_id req)] else []), r1)
          else
            map_option (\<lambda>pm2. (response, pm2,
              (if peer_clients (uc_statistics cf) \<and> removed = None
               then [PeerAdded (ar_peer_id req)] else []), r1))
              (peer_map_insert im key \<lparr>p_peer_id = ar_peer_id req,
                 p_is_seeder = (status = Seeding), p_valid_until = vu\<rparr> pm1)))"

definition scrape_statistics :: "'i peer_map \<Rightarrow> torrent_scrape_statistics" where
  "scrape_statistics pm =
     (let ((seeders, leechers), completed) = (case pm of
          Small m \<Rightarrow> (small_num_seeders_leechers m, sm_completed m)
        | Large m \<Rightarrow> (large_num_seeders_leechers m, lm_completed m))
      in \<lparr>ts_seeders = usize_to_i32_checked seeders,
          ts_completed = u64_to_i32_checked completed,
          ts_leechers = usize_to_i32_checked leechers\<rparr>)"

definition peer_map_is_empty :: "'i peer_map \<Rightarrow> bool" where
  "peer_map_is_empty pm = (case pm of Small m \<Rightarrow> sm_peers m = [] | Large m \<Rightarrow> lm_peers m = [])"

definition peer_map_clean ::
  "udp_config \<Rightarrow> seconds_since_start \<Rightarrow> 'i peer_map \<Rightarrow>
   'i peer_map \<times> nat \<times> 'h statistics_message list" where
  "peer_map_clean cf now pm =
     (case pm of
        Small m \<Rightarrow> (let (m', n, ms) = small_clean cf now m in (Small m', n, ms))
      | Large m \<Rightarrow> (let (m', n, ms) = large_clean cf now m
          in ((case try_shrink m' of Some s \<Rightarrow> Small s | None \<Rightarrow> Large m'), n, ms)))"

subsection \<open>Shards\<close>

record 'i torrent_data =
  td_peer_map :: "'i peer_map"
  td_pending_removal :: bool

definition torrent_data_default :: "'i torrent_data" where
  "torrent_data_default = \<lparr>td_peer_map = peer_map_default, td_pending_removal = False\<rparr>"

type_synonym 'i torrent_map_shard = "(info_hash \<times> 'i torrent_data) list"

type_synonym 'i torrent_map_shards = "'i torrent_map_shard list"

definition shards_new :: "nat \<Rightarrow> 'i torrent_map_shards" where
  "shards_new n = replicate n []"

definition shard_index :: "'i torrent_map_shards \<Rightarrow> info_hash \<Rightarrow> nat" where
  "shard_index shards h = unat (hd (word_be 20 h)) mod length shards"

definition get_shard :: "'i torrent_map_shards \<Rightarrow> info_hash \<Rightarrow> 'i torrent_map_shard" where
  "get_shard shards h = shards ! shard_index shards h"

text \<open>The shard with the entry of the torrent created if it was missing.\<close>

definition entry_or_default :: "info_hash \<Rightarrow> 'i torrent_map_shard \<Rightarrow> 'i torrent_map_shard" where
  "entry_or_default h shard =
     (if map_of shard h = None then AList.update h torrent_data_default shard else shard)"

definition shards_announce ::
  "'i peer_map_ops \<Rightarrow> 'r gen_range \<Rightarrow> udp_config \<Rightarrow> announce_request \<Rightarrow> 'i \<Rightarrow> valid_until \<Rightarrow> 'r \<Rightarrow>
   'i torrent_map_shards \<Rightarrow>
   ('i announce_response \<times> 'i torrent_map_shards \<times> 'h statistics_message list \<times> 'r) option" where
  "shards_announce im gen cf req ip vu r shards =
     (let h = ar_info_hash req;
          shard = entry_or_default h (get_shard shards h);
          td = the (map_of shard h)
      in map_option (\<lambda>(response, pm', ms, r').
            (response,
             shards[shard_index shards h := AList.update h (td\<lparr>td_peer_map := pm'\<rparr>) shard],
             ms, r'))
          (peer_map_announce im gen cf req ip vu r (td_peer_map td)))"

definition empty_statistics :: torrent_scrape_statistics where
  "empty_statistics = \<lparr>ts_seeders = 0, ts_completed = 0, ts_leechers = 0\<rparr>"

definition scrape_one :: "'i torrent_map_shards \<Rightarrow> info_hash \<Rightarrow> torrent_scrape_statistics" where
  "scrape_one shards h =
     (case map_of (get_shard shards h) h of
        Some td \<Rightarrow> scrape_statistics (td_peer_map td)
      | None \<Rightarrow> empty_statistics)"

definition shards_scrape :: "scrape_request \<Rightarrow> 'i torrent_map_shards \<Rightarrow> scrape_response" where
  "shards_scrape req shards =
     \<lparr>ss_transaction_id = sr_transaction_id req,
      ss_torrent_stats = map (scrape_one shards) (sr_info_hashes req)\<rparr>"

subsection \<open>Cleaning\<close>

text \<open>\<open>hdrhistogram\<close> is an argument: the empty histogram and the recording of a value.\<close>

record 'h histogram_ops =
  hist_new :: 'h
  hist_record :: "nat \<Rightarrow> 'h \<Rightarrow> 'h"

fun clean_values ::
  "'h histogram_ops \<Rightarrow> udp_config \<Rightarrow> seconds_since_start \<Rightarrow> 'h option \<Rightarrow> 'i torrent_map_shard \<Rightarrow>
   'i torrent_map_shard \<times> nat \<times> 'h option \<times> 'h statistics_message list" where
  "clean_values ho cf now hist [] = ([], 0, hist, [])"
| "clean_values ho cf now hist ((h, td) # es) =
     (let (pm', n, ms) = peer_map_clean cf now (td_peer_map td);
          hist1 = (case hist of Some x \<Rightarrow> if 0 < n then Some (hist_record ho n x) else Some x
                   | None \<Rightarrow> None);
          (es', total, hist2, ms') = clean_values ho cf now hist1 es
      in ((h, td\<lparr>td_peer_map := pm', td_pending_removal := (n = 0)\<rparr>) # es',
          n + total, hist2, ms @ ms'))"

definition retain_torrent :: "udp_config \<Rightarrow> access_list \<Rightarrow> info_hash \<times> 'i torrent_data \<Rightarrow> bool" where
  "retain_torrent cf al e =
     (case e of (h, td) \<Rightarrow>
        allows (uc_access_list_mode cf) al h \<and>
        \<not> (td_pending_removal td \<and> peer_map_is_empty (td_peer_map td)))"

definition retain_torrents ::
  "udp_config \<Rightarrow> access_list \<Rightarrow> 'i torrent_map_shard \<Rightarrow> 'i torrent_map_shard" where
  "retain_torrents cf al shard =
     map (\<lambda>(h, td). (h, td\<lparr>td_pending_removal := False\<rparr>)) (filter (retain_torrent cf al) shard)"

text \<open>\<open>clean_and_get_statistics\<close>: torrents and peers counted, the histogram, the messages.\<close>

fun clean_shards ::
  "'h histogram_ops \<Rightarrow> udp_config \<Rightarrow> access_list \<Rightarrow> seconds_since_start \<Rightarrow> 'h option \<Rightarrow>
   'i torrent_map_shards \<Rightarrow>
   'i torrent_map_shards \<times> nat \<times> nat \<times> 'h option \<times> 'h statistics_message list" where
  "clean_shards ho cf al now hist [] = ([], 0, 0, hist, [])"
| "clean_shards ho cf al now hist (shard # shards) =
     (let (cleaned, peers, hist1, ms) = clean_values ho cf now hist shard;
          shard' = retain_torrents cf al cleaned;
          (shards', torrents, peers', hist2, ms') = clean_shards ho cf al now hist1 shards
      in (shard' # shards', length shard' + torrents, peers + peers', hist2, ms @ ms'))"

definition clean_and_get_statistics ::
  "'h histogram_ops \<Rightarrow> udp_config \<Rightarrow> access_list \<Rightarrow> seconds_since_start \<Rightarrow> 'i torrent_map_shards \<Rightarrow>
   'i torrent_map_shards \<times> nat \<times> nat \<times> 'h option \<times> 'h statistics_message list" where
  "clean_and_get_statistics ho cf al now shards =
     clean_shards ho cf al now
       (if torrent_peer_histograms (uc_statistics cf) then Some (hist_new ho) else None) shards"

subsection \<open>Both address families\<close>

record torrent_maps =
  tm_ipv4 :: "ipv4_addr_bytes torrent_map_shards"
  tm_ipv6 :: "ipv6_addr_bytes torrent_map_shards"

definition NUM_SHARDS :: nat where
  "NUM_SHARDS = 16"

definition torrent_maps_default :: torrent_maps where
  "torrent_maps_default = \<lparr>tm_ipv4 = shards_new NUM_SHARDS, tm_ipv6 = shards_new NUM_SHARDS\<rparr>"

definition maps_announce ::
  "ipv4_addr_bytes peer_map_ops \<Rightarrow> ipv6_addr_bytes peer_map_ops \<Rightarrow> 'r gen_range \<Rightarrow> udp_config \<Rightarrow>
   announce_request \<Rightarrow> canonical_socket_addr \<Rightarrow> valid_until \<Rightarrow> 'r \<Rightarrow> torrent_maps \<Rightarrow>
   (response \<times> torrent_maps \<times> 'h statistics_message list \<times> 'r) option" where
  "maps_announce im4 im6 gen cf req src vu r maps =
     (case socket_ip (get_addr src) of
        V4 ip \<Rightarrow> map_option
          (\<lambda>(res, shards, ms, r'). (ResAnnounceIpv4 res, maps\<lparr>tm_ipv4 := shards\<rparr>, ms, r'))
          (shards_announce im4 gen cf req ip vu r (tm_ipv4 maps))
      | V6 ip \<Rightarrow> map_option
          (\<lambda>(res, shards, ms, r'). (ResAnnounceIpv6 res, maps\<lparr>tm_ipv6 := shards\<rparr>, ms, r'))
          (shards_announce im6 gen cf req ip vu r (tm_ipv6 maps)))"

definition maps_scrape :: "scrape_request \<Rightarrow> canonical_socket_addr \<Rightarrow> torrent_maps \<Rightarrow> scrape_response"
  where "maps_scrape req src maps =
     (if is_ipv4 src then shards_scrape req (tm_ipv4 maps) else shards_scrape req (tm_ipv6 maps))"

record swarm_statistics =
  sw_torrents :: nat
  sw_peers :: nat

text \<open>
  The cleaned maps, the statistics stored for both families (\<open>None\<close> where statistics are off) and the
  messages handed to the sender.
\<close>

definition clean_and_update_statistics ::
  "'h histogram_ops \<Rightarrow> udp_config \<Rightarrow> access_list \<Rightarrow> seconds_since_start \<Rightarrow> torrent_maps \<Rightarrow>
   torrent_maps \<times> (swarm_statistics \<times> swarm_statistics) option \<times> 'h statistics_message list" where
  "clean_and_update_statistics ho cf al now maps =
     (let (s4, torrents4, peers4, hist4, ms4) = clean_and_get_statistics ho cf al now (tm_ipv4 maps);
          (s6, torrents6, peers6, hist6, ms6) = clean_and_get_statistics ho cf al now (tm_ipv6 maps);
          maps' = \<lparr>tm_ipv4 = s4, tm_ipv6 = s6\<rparr>
      in if statistics_active (uc_statistics cf) then
           (maps',
            Some (\<lparr>sw_torrents = torrents4, sw_peers = peers4\<rparr>,
                  \<lparr>sw_torrents = torrents6, sw_peers = peers6\<rparr>),
            ms4 @ ms6 @ (case hist4 of Some x \<Rightarrow> [Ipv4PeerHistogram x] | None \<Rightarrow> []) @
              (case hist6 of Some x \<Rightarrow> [Ipv6PeerHistogram x] | None \<Rightarrow> []))
         else (maps', None, []))"

end
