(* ===== verification/Ip_Ban.thy ===== *)
theory Ip_Ban
  imports Common_Lib List_File
begin

text \<open>
  \<open>crates/common/src/ip_ban.rs\<close>: the IP ban list. The standard library's parser of IP addresses
  is the argument \<open>parse_ip\<close>; nothing is assumed of it. A shift is Rust's in the release profile:
  the amount, an eight bit integer, is computed modulo 256 and used modulo the width.
\<close>

datatype ip_ban_mode = IpBanOn | IpBanOff

fun ip_ban_on :: "ip_ban_mode \<Rightarrow> bool" where
  "ip_ban_on IpBanOn = True"
| "ip_ban_on IpBanOff = False"

type_synonym ip_parser = "bytes \<Rightarrow> ip_addr option"

record ip_range =
  base :: ip_addr
  prefix_len :: u8

definition shl :: "'a::len word \<Rightarrow> u8 \<Rightarrow> 'a word" where
  "shl x n = push_bit (unat n mod LENGTH('a)) x"

definition mask32 :: "u8 \<Rightarrow> u32" where
  "mask32 p = (if p = 0 then 0 else shl (NOT 0) (32 - p))"

definition mask128 :: "u8 \<Rightarrow> u128" where
  "mask128 p = (if p = 0 then 0 else shl (NOT 0) (128 - p))"

definition range_contains :: "ip_range \<Rightarrow> ip_addr \<Rightarrow> bool" where
  "range_contains r ip =
     (case (base r, ip) of
        (V4 b, V4 a) \<Rightarrow> (b AND mask32 (prefix_len r) = a AND mask32 (prefix_len r))
      | (V6 b, V6 a) \<Rightarrow> (b AND mask128 (prefix_len r) = a AND mask128 (prefix_len r))
      | _ \<Rightarrow> False)"

record ip_ban_list =
  banned_ips :: "ip_addr set"
  banned_ranges :: "ip_range list"

definition empty_ban_list :: ip_ban_list where
  "empty_ban_list = \<lparr>banned_ips = {}, banned_ranges = []\<rparr>"

datatype ban_entry_error = InvalidCidr | InvalidIp | InvalidPrefix | PrefixTooLarge u8

definition max_prefix :: "ip_addr \<Rightarrow> u8" where
  "max_prefix ip = (case ip of V4 _ \<Rightarrow> 32 | V6 _ \<Rightarrow> 128)"

text \<open>The network an entry in mapped notation stands for.\<close>

definition normalize_network :: "ip_addr \<Rightarrow> u8 \<Rightarrow> ip_addr \<times> u8" where
  "normalize_network ip p =
     (case canonical_ip ip of
        V4 v4 \<Rightarrow> (if is_ipv6 ip \<and> 96 \<le> p then (V4 v4, p - 96) else (ip, p))
      | V6 _ \<Rightarrow> (ip, p))"

definition add_entry :: "ip_parser \<Rightarrow> bytes \<Rightarrow> ip_ban_list \<Rightarrow> ban_entry_error + ip_ban_list" where
  "add_entry parse_ip line l =
     (if 47 \<in> set line then
        (case split_on 47 line of
           [addr, len] \<Rightarrow>
             and_then (ok_or InvalidIp (parse_ip addr)) (\<lambda>ip0.
             and_then (ok_or InvalidPrefix (parse_uint u8_max len)) (\<lambda>len0.
               let (ip, p) = normalize_network ip0 (word_of_nat len0)
               in if max_prefix ip < p then Inl (PrefixTooLarge p)
                  else Inr (l\<lparr>banned_ranges :=
                         banned_ranges l @ [\<lparr>base = ip, prefix_len = p\<rparr>]\<rparr>)))
         | _ \<Rightarrow> Inl InvalidCidr)
      else
        and_then (ok_or InvalidIp (parse_ip line)) (\<lambda>ip.
          Inr (l\<lparr>banned_ips := insert (canonical_ip ip) (banned_ips l)\<rparr>)))"

text \<open>An entry that fails to parse is logged and skipped.\<close>

definition add_or_skip :: "ip_parser \<Rightarrow> nat \<times> bytes \<Rightarrow> ip_ban_list \<Rightarrow> ip_ban_list" where
  "add_or_skip parse_ip e l =
     (case add_entry parse_ip (snd e) l of Inl _ \<Rightarrow> l | Inr l' \<Rightarrow> l')"

definition ip_ban_create :: "ip_parser \<Rightarrow> io_error + bytes \<Rightarrow> io_error + ip_ban_list" where
  "ip_ban_create parse_ip file =
     and_then (read_list_file file) (\<lambda>es. Inr (fold (add_or_skip parse_ip) es empty_ban_list))"

definition ban_matches :: "ip_ban_list \<Rightarrow> ip_addr \<Rightarrow> bool" where
  "ban_matches l ip = (ip \<in> banned_ips l \<or> list_ex (\<lambda>r. range_contains r ip) (banned_ranges l))"

definition is_banned :: "ip_ban_list \<Rightarrow> ip_addr \<Rightarrow> bool" where
  "is_banned l ip =
     (if ban_matches l ip then True
      else canonical_ip ip \<noteq> ip \<and> ban_matches l (canonical_ip ip))"

definition ban_list_len :: "ip_ban_list \<Rightarrow> nat" where
  "ban_list_len l = card (banned_ips l) + length (banned_ranges l)"

definition update_ip_ban_list ::
  "ip_parser \<Rightarrow> ip_ban_mode \<Rightarrow> io_error + bytes \<Rightarrow> ip_ban_list \<Rightarrow>
   ip_ban_list \<times> (io_error + unit)" where
  "update_ip_ban_list parse_ip mode file l =
     (if ip_ban_on mode then
        (case ip_ban_create parse_ip file of
           Inl e \<Rightarrow> (l, Inl e)
         | Inr l' \<Rightarrow> (l', Inr ()))
      else (l, Inr ()))"

subsection \<open>Ranges compare network prefixes\<close>

lemma mask_eq_drop_bit:
  fixes a b :: "'a::len word"
  assumes "k \<le> LENGTH('a)"
  shows "a AND push_bit k (NOT 0) = b AND push_bit k (NOT 0) \<longleftrightarrow> drop_bit k a = drop_bit k b"
    (is "?l = ?r")
proof
  assume l: ?l
  show ?r
  proof (rule bit_word_eqI)
    fix n assume "n < LENGTH('a)"
    show "bit (drop_bit k a) n = bit (drop_bit k b) n"
    proof (cases "k + n < LENGTH('a)")
      case True
      have "bit (a AND push_bit k (NOT 0)) (k + n) = bit (b AND push_bit k (NOT 0)) (k + n)"
        using l by simp
      then show ?thesis
        using True by (simp add: bit_simps)
    next
      case False
      then show ?thesis by (auto simp: bit_simps dest: bit_imp_le_length)
    qed
  qed
next
  assume r: ?r
  show ?l
  proof (rule bit_word_eqI)
    fix n assume n: "n < LENGTH('a)"
    have "k \<le> n \<Longrightarrow> bit a n = bit b n"
      using r by (metis bit_drop_bit_eq le_add_diff_inverse comp_apply)
    then show "bit (a AND push_bit k (NOT 0)) n = bit (b AND push_bit k (NOT 0)) n"
      using n by (auto simp: bit_simps)
  qed
qed

lemma and_mask32:
  assumes "p \<le> 32"
  shows "a AND mask32 p = b AND mask32 p \<longleftrightarrow>
    drop_bit (32 - unat p) a = drop_bit (32 - unat p) b"
proof (cases "p = 0")
  case True
  then show ?thesis by (simp add: mask32_def)
next
  case False
  have "unat (32 - p) = 32 - unat p"
    using assms by (subst unat_sub) simp_all
  moreover have "0 < unat p" using False by (simp add: unat_gt_0)
  ultimately have "mask32 p = push_bit (32 - unat p) (NOT 0)"
    using False by (simp add: mask32_def shl_def)
  then show ?thesis using mask_eq_drop_bit [of "32 - unat p" a b] by simp
qed

lemma and_mask128:
  assumes "p \<le> 128"
  shows "a AND mask128 p = b AND mask128 p \<longleftrightarrow>
    drop_bit (128 - unat p) a = drop_bit (128 - unat p) b"
proof (cases "p = 0")
  case True
  then show ?thesis by (simp add: mask128_def)
next
  case False
  have "unat (128 - p) = 128 - unat p"
    using assms by (subst unat_sub) simp_all
  moreover have "0 < unat p" using False by (simp add: unat_gt_0)
  ultimately have "mask128 p = push_bit (128 - unat p) (NOT 0)"
    using False by (simp add: mask128_def shl_def)
  then show ?thesis using mask_eq_drop_bit [of "128 - unat p" a b] by simp
qed

text \<open>The specification: same family and equal first \<open>prefix_len\<close> bits.\<close>

fun in_network :: "ip_addr \<Rightarrow> nat \<Rightarrow> ip_addr \<Rightarrow> bool" where
  "in_network (V4 b) p (V4 a) = (drop_bit (32 - p) a = drop_bit (32 - p) b)"
| "in_network (V6 b) p (V6 a) = (drop_bit (128 - p) a = drop_bit (128 - p) b)"
| "in_network _ p _ = False"

definition range_ok :: "ip_range \<Rightarrow> bool" where
  "range_ok r = (prefix_len r \<le> max_prefix (base r))"

lemma range_contains_spec:
  assumes "range_ok r"
  shows "range_contains r ip \<longleftrightarrow> in_network (base r) (unat (prefix_len r)) ip"
  using assms
  by (cases "base r"; cases ip)
    (auto simp: range_contains_def range_ok_def max_prefix_def and_mask32 and_mask128)

subsection \<open>What a list built from a file bans\<close>

text \<open>
  The addresses of the network \<open>x/n\<close>: for an IPv4 network those whose canonical form shares its
  leading bits; an IPv4-mapped one of at least 96 bits is the IPv4 network of the bits after the
  96; any other IPv6 network has the IPv6 addresses that share its leading bits.
\<close>

definition network_covers :: "ip_addr \<Rightarrow> nat \<Rightarrow> ip_addr \<Rightarrow> bool" where
  "network_covers x n ip =
     (case x of
        V4 v \<Rightarrow> n \<le> 32 \<and> in_network (V4 v) n (canonical_ip ip)
      | V6 y \<Rightarrow>
          (case canonical_ip x of
             V4 v \<Rightarrow>
               if 96 \<le> n then n \<le> 128 \<and> in_network (V4 v) (n - 96) (canonical_ip ip)
               else in_network (V6 y) n ip
           | V6 _ \<Rightarrow> n \<le> 128 \<and> in_network (V6 y) n ip))"

lemma in_network_canonical:
  "in_network (V4 b) p ip \<or> in_network (V4 b) p (canonical_ip ip) \<longleftrightarrow> in_network (V4 b) p (canonical_ip ip)"
  "in_network (V6 c) p ip \<or> in_network (V6 c) p (canonical_ip ip) \<longleftrightarrow> in_network (V6 c) p ip"
proof -
  show "in_network (V4 b) p ip \<or> in_network (V4 b) p (canonical_ip ip) \<longleftrightarrow> in_network (V4 b) p (canonical_ip ip)"
    by (cases ip) simp_all
  show "in_network (V6 c) p ip \<or> in_network (V6 c) p (canonical_ip ip) \<longleftrightarrow> in_network (V6 c) p ip"
    by (cases "canonical_ip ip") (auto dest: canonical_V6D)
qed

lemma normalized_covers:
  assumes "n \<le> u8_max" and "normalize_network x (word_of_nat n) = (b, p)"
  shows "p \<le> max_prefix b \<and> (in_network b (unat p) ip \<or> in_network b (unat p) (canonical_ip ip)) \<longleftrightarrow>
    network_covers x n ip"
proof -
  have n: "unat (word_of_nat n :: u8) = n" using assms(1) by (simp add: unat_of_nat u8_max_def)
  then have sub: "unat (word_of_nat n - 96 :: u8) = n - 96" if "96 \<le> n"
    using that by (subst unat_sub) (simp_all add: word_le_nat_alt)
  have le: "(word_of_nat n :: u8) \<le> k \<longleftrightarrow> n \<le> unat k" "(96 :: u8) \<le> word_of_nat n \<longleftrightarrow> 96 \<le> n" for k
    using n by (simp_all add: word_le_nat_alt)
  show ?thesis
  proof (cases x)
    case (V4 v)
    then have "b = V4 v" "p = word_of_nat n" using assms(2) by (auto simp: normalize_network_def)
    then show ?thesis
      using V4 n by (simp add: network_covers_def max_prefix_def le in_network_canonical del: canonical_ip.simps(2))
  next
    case (V6 y)
    show ?thesis
    proof (cases "canonical_ip x")
      case V4': (V4 v)
      show ?thesis
      proof (cases "96 \<le> n")
        case True
        then have "b = V4 v" "p = word_of_nat n - 96"
          using assms(2) V6 V4' le(2) by (auto simp: normalize_network_def)
        moreover have "(word_of_nat n - 96 :: u8) \<le> 32 \<longleftrightarrow> n \<le> 128"
          using sub [OF True] True by (simp add: word_le_nat_alt) linarith
        ultimately show ?thesis
          using V6 V4' True sub [OF True]
          by (simp add: network_covers_def max_prefix_def in_network_canonical del: canonical_ip.simps(2))
      next
        case False
        then have "b = V6 y" "p = word_of_nat n"
          using assms(2) V6 V4' le(2) by (auto simp: normalize_network_def)
        then show ?thesis
          using False V6 V4' n
          by (simp add: network_covers_def max_prefix_def le in_network_canonical del: canonical_ip.simps(2))
      qed
    next
      case V6': (V6 z)
      then have "b = V6 y" "p = word_of_nat n" using assms(2) V6 by (auto simp: normalize_network_def)
      then show ?thesis
        using V6 V6' n
        by (simp add: network_covers_def max_prefix_def le in_network_canonical del: canonical_ip.simps(2))
    qed
  qed
qed

text \<open>The addresses a line of the file stands for, \<open>False\<close> everywhere for an invalid line.\<close>

definition entry_covers :: "ip_parser \<Rightarrow> bytes \<Rightarrow> ip_addr \<Rightarrow> bool" where
  "entry_covers parse_ip line ip =
     (if 47 \<in> set line then
        (case split_on 47 line of
           [addr, len] \<Rightarrow>
             (case (parse_ip addr, parse_uint u8_max len) of
                (Some x, Some n) \<Rightarrow> network_covers x n ip
              | _ \<Rightarrow> False)
         | _ \<Rightarrow> False)
      else
        (case parse_ip line of
           Some x \<Rightarrow> canonical_ip ip = canonical_ip x
         | None \<Rightarrow> False))"

lemma is_banned_iff: "is_banned l ip \<longleftrightarrow> ban_matches l ip \<or> ban_matches l (canonical_ip ip)"
  by (auto simp: is_banned_def)

lemma is_banned_ip:
  "is_banned (l\<lparr>banned_ips := insert (canonical_ip x) (banned_ips l)\<rparr>) ip \<longleftrightarrow>
   is_banned l ip \<or> canonical_ip ip = canonical_ip x"
  by (auto simp: is_banned_iff ban_matches_def)

lemma is_banned_range:
  assumes "p \<le> max_prefix b"
  shows "is_banned (l\<lparr>banned_ranges := banned_ranges l @ [\<lparr>base = b, prefix_len = p\<rparr>]\<rparr>) ip \<longleftrightarrow>
    is_banned l ip \<or> in_network b (unat p) ip \<or> in_network b (unat p) (canonical_ip ip)"
  using assms range_contains_spec [of "\<lparr>base = b, prefix_len = p\<rparr>"]
  by (auto simp: is_banned_iff ban_matches_def range_ok_def)

lemma add_or_skip_banned:
  "is_banned (add_or_skip parse_ip e l) ip \<longleftrightarrow> is_banned l ip \<or> entry_covers parse_ip (snd e) ip"
proof (cases "47 \<in> set (snd e)")
  case False
  then show ?thesis
    by (cases "parse_ip (snd e)")
      (simp_all add: add_or_skip_def add_entry_def entry_covers_def is_banned_ip)
next
  case slash: True
  show ?thesis
  proof (cases "\<exists>addr len. split_on 47 (snd e) = [addr, len]")
    case False
    then show ?thesis
      using slash by (auto simp: add_or_skip_def add_entry_def entry_covers_def split: list.splits)
  next
    case True
    then obtain addr len where sp: "split_on 47 (snd e) = [addr, len]" by blast
    show ?thesis
    proof (cases "parse_ip addr = None \<or> parse_uint u8_max len = None")
      case True
      then show ?thesis
        using slash sp
        by (cases "parse_ip addr") (auto simp: add_or_skip_def add_entry_def entry_covers_def)
    next
      case False
      then obtain x n where xn: "parse_ip addr = Some x" "parse_uint u8_max len = Some n"
        by auto
      obtain b p where "normalize_network x (word_of_nat n) = (b, p)"
        by (cases "normalize_network x (word_of_nat n)")
      moreover have "n \<le> u8_max" using xn(2) by (rule parse_uint_le)
      ultimately show ?thesis
        using slash sp xn is_banned_range [of p b l ip] normalized_covers [of n x b p ip]
        by (auto simp: add_or_skip_def add_entry_def entry_covers_def not_less)
    qed
  qed
qed

lemma fold_add_banned:
  "is_banned (fold (add_or_skip parse_ip) es l) ip \<longleftrightarrow>
   is_banned l ip \<or> (\<exists>e \<in> set es. entry_covers parse_ip (snd e) ip)"
  by (induction es arbitrary: l) (auto simp: add_or_skip_banned)

lemma empty_bans_nothing: "\<not> is_banned empty_ban_list ip"
  by (simp add: is_banned_def ban_matches_def empty_ban_list_def)

text \<open>C10. A readable ban file always gives a list (invalid lines are skipped), and the list bans exactly
  the addresses its lines stand for: a plain address bans the address in any notation (IPv4 or
  IPv4-mapped IPv6), a valid CIDR line the addresses that share the network's leading bits, a
  network in mapped notation its IPv4 addresses; every other line bans nothing.\<close>
theorem created_list_bans:
  "\<exists>l. ip_ban_create parse_ip (Inr content) = Inr l \<and>
    (\<forall>ip. is_banned l ip \<longleftrightarrow>
      (\<exists>e \<in> set (list_entries content). entry_covers parse_ip (snd e) ip))"
  by (simp add: ip_ban_create_def read_list_file_def fold_add_banned empty_bans_nothing)

lemma ban_survives_mapping: "is_banned l (V4 a) \<Longrightarrow> is_banned l (V6 (to_ipv6_mapped a))"
  by (simp add: is_banned_iff del: canonical_ip.simps(2))

end
