(* ===== verification/Auto_Ban.thy ===== *)
theory Auto_Ban
  imports Common_Lib Ip_Ban
begin

text \<open>
  \<open>crates/common/src/auto_ban.rs\<close>: the tracker that bans addresses after violations. An \<open>Instant\<close> is
  a number of nanoseconds; \<open>now\<close> is an argument of every operation that reads the clock, and a second
  reading is a second argument. The parser and printer of addresses and the file system are the
  environment: a file system maps paths to contents, and the outcome of a write is an argument. The
  operations run one at a time, as they do under the tracker's locks. Durations and counters are
  natural numbers with the saturating or wrapping operations the code uses.
\<close>

subsection \<open>Configuration\<close>

type_synonym instant = nat
type_synonym path = bytes

definition HARD_MAX_RECORDS :: nat where
  "HARD_MAX_RECORDS = 2000000"

record auto_ban_config =
  ac_enabled :: bool
  ac_threshold :: nat
  ac_window_secs :: nat
  ac_ban_duration_secs :: nat
  ac_ban_list_path :: path
  ac_flush_interval_secs :: nat
  ac_immediate_ban_secs :: nat
  ac_escalation_enabled :: bool
  ac_escalation_steps :: bytes
  ac_offense_decay_secs :: nat
  ac_client_ban_duration_secs :: nat
  ac_client_ban_jitter_secs :: nat
  ac_client_ban_list_path :: path

definition auto_ban_config_default :: auto_ban_config where
  "auto_ban_config_default = \<lparr>
     ac_enabled = False, ac_threshold = 10, ac_window_secs = 60, ac_ban_duration_secs = 0,
     ac_ban_list_path = str ''./ip-ban-list.txt'', ac_flush_interval_secs = 60,
     ac_immediate_ban_secs = 0, ac_escalation_enabled = False,
     ac_escalation_steps = str ''300,3600,86400'', ac_offense_decay_secs = 86400,
     ac_client_ban_duration_secs = 86400, ac_client_ban_jitter_secs = 1800,
     ac_client_ban_list_path = str ''./client-ban-ips.txt''\<rparr>"

datatype auto_ban_reason =
    SqlInjection | PathTraversal | Crawler | MissingUserAgent | ClientBanned | PrivateIp
  | NonStandardPeerId | PeerIdUserAgentMismatch

datatype auto_ban_tier = Immediate | Suspicious | Heuristic

fun tier :: "auto_ban_reason \<Rightarrow> auto_ban_tier" where
  "tier SqlInjection = Immediate"
| "tier PathTraversal = Immediate"
| "tier ClientBanned = Immediate"
| "tier Crawler = Immediate"
| "tier MissingUserAgent = Immediate"
| "tier PrivateIp = Suspicious"
| "tier NonStandardPeerId = Heuristic"
| "tier PeerIdUserAgentMismatch = Heuristic"

fun reason_as_str :: "auto_ban_reason \<Rightarrow> bytes" where
  "reason_as_str SqlInjection = str ''sql_injection''"
| "reason_as_str PathTraversal = str ''path_traversal''"
| "reason_as_str Crawler = str ''crawler''"
| "reason_as_str MissingUserAgent = str ''missing_user_agent''"
| "reason_as_str ClientBanned = str ''client_banned''"
| "reason_as_str PrivateIp = str ''private_ip''"
| "reason_as_str NonStandardPeerId = str ''non_standard_peer_id''"
| "reason_as_str PeerIdUserAgentMismatch = str ''peer_id_user_agent_mismatch''"

datatype ban_kind = Temporary nat | Permanent

definition from_secs :: "nat \<Rightarrow> ban_kind" where
  "from_secs secs = (if secs = 0 then Permanent else Temporary secs)"

definition parse_steps :: "bytes \<Rightarrow> nat list" where
  "parse_steps raw = List.map_filter
     (\<lambda>part. let p = trim part in if p = [] then None else parse_uint u64_max p)
     (split_on 44 raw)"

record ip_record =
  r_count :: nat
  r_first_violation :: instant
  r_banned_until :: "instant option"
  r_permanent :: bool
  r_persisted :: bool
  r_offenses :: nat
  r_last_offense :: "instant option"

definition record_is_banned :: "ip_record \<Rightarrow> instant \<Rightarrow> bool" where
  "record_is_banned r now = (r_permanent r \<or>
     (case r_banned_until r of None \<Rightarrow> False | Some until \<Rightarrow> now < until))"

definition MAX_BAN_DURATION_SECS :: nat where
  "MAX_BAN_DURATION_SECS = 10 * 365 * 24 * 60 * 60"

subsection \<open>Instants\<close>

definition ns_per_sec :: nat where
  "ns_per_sec = 1000000000"

text \<open>\<open>duration_since(earlier).as_secs()\<close>, which is zero for a later instant.\<close>

definition secs_since :: "instant \<Rightarrow> instant \<Rightarrow> nat" where
  "secs_since now earlier = (now - earlier) div ns_per_sec"

text \<open>\<open>checked_add(Duration::from_secs(secs))\<close>: the seconds of an \<open>Instant\<close> are an \<open>i64\<close>.\<close>

definition checked_add_secs :: "instant \<Rightarrow> nat \<Rightarrow> instant option" where
  "checked_add_secs now secs =
     (let t = now + secs * ns_per_sec in if t div ns_per_sec < 2 ^ 63 then Some t else None)"

subsection \<open>List files\<close>

type_synonym file_system = "path \<Rightarrow> bytes option"

datatype write_outcome = OpenFails | WriteFails nat | WriteOk
datatype probe = ProbeOk | NoMetadata | Unreadable

definition file_ends_with_newline :: "probe \<Rightarrow> bytes \<Rightarrow> bool" where
  "file_ends_with_newline pr content =
     (case pr of
        NoMetadata \<Rightarrow> True
      | Unreadable \<Rightarrow> content = []
      | ProbeOk \<Rightarrow> content = [] \<or> last content = 10)"

text \<open>Opening for appending creates the file; a failed write may have written a part.\<close>

definition append_lines ::
  "probe \<Rightarrow> write_outcome \<Rightarrow> path \<Rightarrow> bytes \<Rightarrow> file_system \<Rightarrow> file_system \<times> bool" where
  "append_lines pr w p text fs =
     (let content = (case fs p of Some c \<Rightarrow> c | None \<Rightarrow> []);
          line = (if file_ends_with_newline pr content then [] else [10]) @ text
      in case w of
           OpenFails \<Rightarrow> (fs, False)
         | WriteFails k \<Rightarrow> (fs(p \<mapsto> content @ take k line), False)
         | WriteOk \<Rightarrow> (fs(p \<mapsto> content @ line), True))"

definition append_ip_line ::
  "(ip_addr \<Rightarrow> bytes) \<Rightarrow> probe \<Rightarrow> write_outcome \<Rightarrow> path \<Rightarrow> ip_addr \<Rightarrow> file_system \<Rightarrow> file_system \<times> bool"
  where "append_ip_line show_ip pr w p ip fs = append_lines pr w p (show_ip ip @ [10]) fs"

definition append_client_ban_line ::
  "(ip_addr \<Rightarrow> bytes) \<Rightarrow> probe \<Rightarrow> write_outcome \<Rightarrow> path \<Rightarrow> ip_addr \<Rightarrow> nat \<Rightarrow> file_system \<Rightarrow>
   file_system \<times> bool" where
  "append_client_ban_line show_ip pr w p ip expire_unix fs =
     append_lines pr w p (show_ip ip @ [32] @ dec_string expire_unix @ [10]) fs"

text \<open>\<open>str::split_whitespace\<close>.\<close>

fun word_len :: "bytes \<Rightarrow> nat" where
  "word_len [] = 0"
| "word_len (c # cs) = (if strip_prefixes white_space (c # cs) \<noteq> 0 then 0 else Suc (word_len cs))"

lemma length_trim_start: "length (trim_start_matches ps s) \<le> length s"
proof (induction ps s rule: trim_start_matches.induct)
  case (1 ps s)
  then show ?case by (subst trim_start_matches.simps) auto
qed

function split_whitespace :: "bytes \<Rightarrow> bytes list" where
  "split_whitespace s =
     (let s1 = trim_start_matches white_space s; n = word_len s1
      in if s1 = [] \<or> n = 0 then [] else take n s1 # split_whitespace (drop n s1))"
  by pat_completeness auto

termination
  by (relation "measure length")
    (auto intro!: less_le_trans [OF diff_less length_trim_start])

declare split_whitespace.simps [simp del]

text \<open>One line of the client ban file: the address and its expiry, where both parse.\<close>

definition parse_client_ban_line :: "ip_parser \<Rightarrow> bytes \<Rightarrow> (ip_addr \<times> nat) option" where
  "parse_client_ban_line parse_ip raw =
     (let line = trim raw in
      if line = [] \<or> starts_with line [35] then None
      else
        (case split_whitespace line of
           a # e # _ \<Rightarrow>
             (case (parse_ip a, parse_uint u64_max e) of
                (Some ip, Some expire) \<Rightarrow> Some (ip, expire) | _ \<Rightarrow> None)
         | _ \<Rightarrow> None))"

definition add_client_ban :: "ip_parser \<Rightarrow> nat \<Rightarrow> bytes \<Rightarrow> (ip_addr \<times> nat) list \<Rightarrow> (ip_addr \<times> nat) list"
  where "add_client_ban parse_ip now_unix raw out =
     (case parse_client_ban_line parse_ip raw of
        None \<Rightarrow> out
      | Some (ip, expire) \<Rightarrow>
          if expire \<le> now_unix then out
          else (case map_of out ip of
              None \<Rightarrow> AList.update ip expire out
            | Some slot \<Rightarrow> if slot < expire then AList.update ip expire out else out))"

definition parse_client_ban_lines :: "ip_parser \<Rightarrow> bytes \<Rightarrow> nat \<Rightarrow> (ip_addr \<times> nat) list" where
  "parse_client_ban_lines parse_ip content now_unix =
     fold (add_client_ban parse_ip now_unix) (lines content) []"

subsection \<open>The tracker\<close>

record auto_ban_inner =
  ab_records :: "(ip_addr \<times> ip_record) list"
  ab_threshold :: nat
  ab_window_secs :: nat
  ab_ban_duration_secs :: nat
  ab_max_records :: nat
  ab_last_capacity_cleanup :: "instant option"
  ab_last_overflow_log :: "instant option"
  ab_last_client_cleanup :: "instant option"

record auto_ban_policy =
  po_immediate_ban_secs :: nat
  po_client_ban_duration_secs :: nat
  po_client_ban_jitter_secs :: nat
  po_escalation_enabled :: bool
  po_escalation_steps :: "nat list"
  po_offense_decay_secs :: nat

record auto_ban_tracker =
  at_inner :: auto_ban_inner
  at_policy :: auto_ban_policy
  at_ban_list_path :: "path option"
  at_client_ban_list_path :: "path option"

definition wrap_i64 :: "int \<Rightarrow> int" where
  "wrap_i64 x = (x + 2 ^ 63) mod 2 ^ 64 - 2 ^ 63"

definition jitter_hash :: "ip_addr \<Rightarrow> nat" where
  "jitter_hash ip =
     (case ip of
        V4 a \<Rightarrow> unat (be_word (word_be 4 a) :: u32)
      | V6 a \<Rightarrow> unat (fold (\<lambda>chunk acc. (word_rotl 7 acc :: u64) XOR be_word chunk)
          (chunks 8 (word_be 16 a)) 0))"

definition client_jitter :: "ip_addr \<Rightarrow> nat \<Rightarrow> int" where
  "client_jitter ip jitter =
     (if jitter = 0 then 0
      else
        let span = sat_add u64_max (sat_mul u64_max jitter 2) 1;
            offset = jitter_hash ip mod span
        in wrap_i64 (wrap_i64 (int offset) - wrap_i64 (int jitter)))"

definition client_ban_secs :: "auto_ban_policy \<Rightarrow> ip_addr \<Rightarrow> nat \<Rightarrow> nat" where
  "client_ban_secs po ip fallback_secs =
     (let base = (if po_client_ban_duration_secs po \<noteq> 0 then po_client_ban_duration_secs po
                  else if po_immediate_ban_secs po \<noteq> 0 then po_immediate_ban_secs po
                  else fallback_secs)
      in if base = 0 then 0
         else
           let delta = client_jitter ip (po_client_ban_jitter_secs po);
               secs = (if 0 \<le> delta then sat_add u64_max base (nat delta) else base - nat (- delta))
           in max secs 1)"

definition ban_kind_of :: "auto_ban_policy \<Rightarrow> auto_ban_reason \<Rightarrow> ip_addr \<Rightarrow> nat \<Rightarrow> nat \<Rightarrow> ban_kind" where
  "ban_kind_of po reason ip offenses fallback_secs =
     (if reason = ClientBanned then from_secs (client_ban_secs po ip fallback_secs)
      else
        (case tier reason of
           Immediate \<Rightarrow>
             if po_escalation_enabled po \<and> 2 \<le> offenses then Permanent
             else if po_immediate_ban_secs po = 0 then from_secs fallback_secs
             else from_secs (po_immediate_ban_secs po)
         | Suspicious \<Rightarrow> from_secs fallback_secs
         | Heuristic \<Rightarrow>
             if \<not> po_escalation_enabled po then from_secs fallback_secs
             else
               let index = offenses - 1
               in if index < length (po_escalation_steps po)
                  then from_secs (po_escalation_steps po ! index) else Permanent))"

definition register_offense :: "instant \<Rightarrow> nat \<Rightarrow> ip_record \<Rightarrow> ip_record" where
  "register_offense now decay_secs r =
     (let decayed = (case r_last_offense r of
          Some t \<Rightarrow> decay_secs \<le> secs_since now t | None \<Rightarrow> True);
        r1 = (if decayed then r\<lparr>r_offenses := 0\<rparr> else r)
      in r1\<lparr>r_offenses := sat_add u32_max (r_offenses r1) 1, r_last_offense := Some now\<rparr>)"

definition apply_ban :: "ban_kind \<Rightarrow> instant \<Rightarrow> ip_record \<Rightarrow> ip_record" where
  "apply_ban kind now r =
     (case kind of
        Permanent \<Rightarrow> r\<lparr>r_banned_until := None, r_permanent := True\<rparr>
      | Temporary secs \<Rightarrow>
          (case checked_add_secs now secs of
             Some until \<Rightarrow> r\<lparr>r_banned_until := Some until, r_permanent := False\<rparr>
           | None \<Rightarrow> r\<lparr>r_banned_until := None, r_permanent := True\<rparr>))
     \<lparr>r_persisted := False\<rparr>"

definition nonempty_path :: "path \<Rightarrow> path option" where
  "nonempty_path p = (if p = [] then None else Some p)"

definition tracker_with_policy ::
  "nat \<Rightarrow> nat \<Rightarrow> nat \<Rightarrow> path option \<Rightarrow> auto_ban_config \<Rightarrow> auto_ban_tracker" where
  "tracker_with_policy threshold window_secs ban_duration_secs ban_list_path cf = \<lparr>
     at_inner = \<lparr>ab_records = [], ab_threshold = threshold, ab_window_secs = window_secs,
       ab_ban_duration_secs = ban_duration_secs, ab_max_records = 100000,
       ab_last_capacity_cleanup = None, ab_last_overflow_log = None, ab_last_client_cleanup = None\<rparr>,
     at_policy = \<lparr>po_immediate_ban_secs = ac_immediate_ban_secs cf,
       po_client_ban_duration_secs = ac_client_ban_duration_secs cf,
       po_client_ban_jitter_secs = ac_client_ban_jitter_secs cf,
       po_escalation_enabled = ac_escalation_enabled cf,
       po_escalation_steps = parse_steps (ac_escalation_steps cf),
       po_offense_decay_secs = ac_offense_decay_secs cf\<rparr>,
     at_ban_list_path = ban_list_path,
     at_client_ban_list_path = nonempty_path (ac_client_ban_list_path cf)\<rparr>"

definition tracker_new :: "nat \<Rightarrow> nat \<Rightarrow> nat \<Rightarrow> path option \<Rightarrow> auto_ban_tracker" where
  "tracker_new threshold window_secs ban_duration_secs ban_list_path =
     tracker_with_policy threshold window_secs ban_duration_secs ban_list_path auto_ban_config_default"

definition tracker_from_config :: "auto_ban_config \<Rightarrow> auto_ban_tracker" where
  "tracker_from_config cf =
     tracker_with_policy (ac_threshold cf) (ac_window_secs cf) (ac_ban_duration_secs cf)
       (nonempty_path (ac_ban_list_path cf)) cf"

subsection \<open>Recording a violation\<close>

definition due :: "instant option \<Rightarrow> instant \<Rightarrow> nat \<Rightarrow> bool" where
  "due stamp now secs = (case stamp of None \<Rightarrow> True | Some t \<Rightarrow> secs \<le> secs_since now t)"

definition keep_record :: "instant \<Rightarrow> nat \<Rightarrow> ip_record \<Rightarrow> bool" where
  "keep_record now window_secs r =
     (record_is_banned r now \<or> secs_since now (r_first_violation r) < window_secs)"

text \<open>
  The capacity guard for an address without a record: the tracker after making room and growing, and
  whether the violation is dropped. \<open>max_records\<close> is read before the limit is grown.
\<close>

definition capacity_guard :: "instant \<Rightarrow> ip_addr \<Rightarrow> auto_ban_inner \<Rightarrow> auto_ban_inner \<times> bool" where
  "capacity_guard now ip inner =
     (let max_records = ab_max_records inner in
      if map_of (ab_records inner) ip = None \<and> max_records \<le> length (ab_records inner) then
        let i1 = (if due (ab_last_capacity_cleanup inner) now 1 then
                    inner\<lparr>ab_records :=
                        filter (\<lambda>e. keep_record now (ab_window_secs inner) (snd e)) (ab_records inner),
                      ab_last_capacity_cleanup := Some now\<rparr>
                  else inner);
            i2 = (if max_records \<le> length (ab_records i1) then
                    let grown = min (sat_mul u64_max max_records 2) HARD_MAX_RECORDS
                    in if max_records < grown then i1\<lparr>ab_max_records := grown\<rparr>
                       else if due (ab_last_capacity_cleanup i1) now 60
                       then i1\<lparr>ab_last_capacity_cleanup := Some now\<rparr>
                       else i1
                  else i1)
        in if max_records \<le> length (ab_records i2) then
             (if due (ab_last_overflow_log i2) now 60
              then i2\<lparr>ab_last_overflow_log := Some now\<rparr> else i2, True)
           else (i2, False)
      else (inner, False))"

definition inc_u32 :: "nat \<Rightarrow> nat" where
  "inc_u32 n = (n + 1) mod 2 ^ 32"

definition clear_expired :: "instant \<Rightarrow> ip_record \<Rightarrow> ip_record" where
  "clear_expired now r =
     (if \<not> r_permanent r then
        (case r_banned_until r of
           Some until \<Rightarrow>
             if until \<le> now
             then r\<lparr>r_banned_until := None, r_persisted := False, r_count := 0, r_first_violation := now\<rparr>
             else r
         | None \<Rightarrow> r)
      else r)"

definition punish ::
  "auto_ban_policy \<Rightarrow> instant \<Rightarrow> auto_ban_reason \<Rightarrow> ip_addr \<Rightarrow> nat \<Rightarrow> ip_record \<Rightarrow> ip_record" where
  "punish po now reason ip ban_duration_secs r =
     (let r1 = register_offense now (po_offense_decay_secs po) r
      in apply_ban (ban_kind_of po reason ip (r_offenses r1) ban_duration_secs) now r1)"

definition violate_known ::
  "auto_ban_policy \<Rightarrow> instant \<Rightarrow> auto_ban_reason \<Rightarrow> ip_addr \<Rightarrow> auto_ban_inner \<Rightarrow> ip_record \<Rightarrow>
   ip_record \<times> bool" where
  "violate_known po now reason ip inner r =
     (let r1 = (if ab_window_secs inner \<le> secs_since now (r_first_violation r)
                then r\<lparr>r_count := 0, r_first_violation := now\<rparr> else r);
          r2 = clear_expired now r1;
          r3 = r2\<lparr>r_count := inc_u32 (r_count r2)\<rparr>;
          triggered = (tier reason = Immediate \<or> ab_threshold inner \<le> r_count r3)
      in if triggered \<and> \<not> record_is_banned r3 now
         then (punish po now reason ip (ab_ban_duration_secs inner) r3, True)
         else (r3, False))"

definition violate_new ::
  "auto_ban_policy \<Rightarrow> instant \<Rightarrow> auto_ban_reason \<Rightarrow> ip_addr \<Rightarrow> auto_ban_inner \<Rightarrow> ip_record \<times> bool" where
  "violate_new po now reason ip inner =
     (let triggered = (tier reason = Immediate \<or> ab_threshold inner \<le> 1);
          r = \<lparr>r_count = 1, r_first_violation = now, r_banned_until = None, r_permanent = False,
               r_persisted = False, r_offenses = 0, r_last_offense = None\<rparr>
      in (if triggered then punish po now reason ip (ab_ban_duration_secs inner) r else r, triggered))"

text \<open>The part of \<open>record_violation\<close> under the lock: the tracker, whether to ban, and permanently.\<close>

definition record_violation_locked ::
  "auto_ban_policy \<Rightarrow> instant \<Rightarrow> ip_addr \<Rightarrow> auto_ban_reason \<Rightarrow> auto_ban_inner \<Rightarrow>
   auto_ban_inner \<times> bool \<times> bool" where
  "record_violation_locked po now ip reason inner =
     (if (case map_of (ab_records inner) ip of Some r \<Rightarrow> record_is_banned r now | None \<Rightarrow> False)
      then (inner, False, False)
      else
        let (i1, dropped) = capacity_guard now ip inner in
        if dropped then (i1, False, False)
        else
          let (r', should_ban) = (case map_of (ab_records i1) ip of
                  Some r \<Rightarrow> violate_known po now reason ip i1 r
                | None \<Rightarrow> violate_new po now reason ip i1)
          in (i1\<lparr>ab_records := AList.update ip r' (ab_records i1)\<rparr>, should_ban,
              should_ban \<and> r_permanent r'))"

subsection \<open>Persisting bans\<close>

text \<open>The answers of the operating system that one operation may need.\<close>

record environment =
  en_now :: instant
  en_unix_now :: nat
  en_probe :: probe
  en_write :: write_outcome
  en_rename_ok :: bool

definition usable :: "path option \<Rightarrow> path option" where
  "usable p = Option.bind p nonempty_path"

definition set_persisted :: "ip_addr \<Rightarrow> auto_ban_inner \<Rightarrow> auto_ban_inner" where
  "set_persisted ip inner =
     (case map_of (ab_records inner) ip of
        Some r \<Rightarrow> inner\<lparr>ab_records := AList.update ip (r\<lparr>r_persisted := True\<rparr>) (ab_records inner)\<rparr>
      | None \<Rightarrow> inner)"

definition persist_ip ::
  "(ip_addr \<Rightarrow> bytes) \<Rightarrow> environment \<Rightarrow> ip_addr \<Rightarrow> auto_ban_tracker \<Rightarrow> file_system \<Rightarrow>
   auto_ban_tracker \<times> file_system" where
  "persist_ip show_ip en ip t fs =
     (case usable (at_ban_list_path t) of
        None \<Rightarrow> (t, fs)
      | Some p \<Rightarrow>
          (case map_of (ab_records (at_inner t)) ip of
             Some r \<Rightarrow>
               if r_permanent r \<and> \<not> r_persisted r then
                 let (fs', ok) = append_ip_line show_ip (en_probe en) (en_write en) p ip fs
                 in if ok then (t\<lparr>at_inner := set_persisted ip (at_inner t)\<rparr>, fs') else (t, fs')
               else (t, fs)
           | None \<Rightarrow> (t, fs)))"

definition persist_client_ban ::
  "(ip_addr \<Rightarrow> bytes) \<Rightarrow> environment \<Rightarrow> ip_addr \<Rightarrow> auto_ban_tracker \<Rightarrow> file_system \<Rightarrow> file_system" where
  "persist_client_ban show_ip en ip t fs =
     (case usable (at_client_ban_list_path t) of
        None \<Rightarrow> fs
      | Some p \<Rightarrow>
          (case map_of (ab_records (at_inner t)) ip of
             Some r \<Rightarrow>
               (case (r_permanent r, r_banned_until r) of
                  (False, Some until) \<Rightarrow>
                    fst (append_client_ban_line show_ip (en_probe en) (en_write en) p ip
                      (sat_add u64_max (en_unix_now en) (secs_since until (en_now en))) fs)
                | _ \<Rightarrow> fs)
           | None \<Rightarrow> fs))"

text \<open>\<open>record_violation\<close>; the environment is that of the write, after the lock was released.\<close>

definition record_violation ::
  "(ip_addr \<Rightarrow> bytes) \<Rightarrow> instant \<Rightarrow> environment \<Rightarrow> ip_addr \<Rightarrow> auto_ban_reason \<Rightarrow> auto_ban_tracker \<Rightarrow>
   file_system \<Rightarrow> auto_ban_tracker \<times> file_system \<times> bool" where
  "record_violation show_ip now en ip reason t fs =
     (let (inner, should_ban, is_permanent) =
            record_violation_locked (at_policy t) now ip reason (at_inner t);
          t1 = t\<lparr>at_inner := inner\<rparr>
      in if should_ban then
           (if is_permanent then
              (let (t2, fs') = persist_ip show_ip en ip t1 fs in (t2, fs', True))
            else if reason = ClientBanned then (t1, persist_client_ban show_ip en ip t1 fs, True)
            else (t1, fs, True))
         else (t1, fs, False))"

definition is_auto_banned :: "auto_ban_inner \<Rightarrow> ip_addr \<Rightarrow> instant \<Rightarrow> bool" where
  "is_auto_banned inner ip now =
     (case map_of (ab_records inner) ip of Some r \<Rightarrow> record_is_banned r now | None \<Rightarrow> False)"

subsection \<open>The client ban file\<close>

definition restore_client_ban :: "instant \<Rightarrow> nat \<Rightarrow> ip_addr \<times> nat \<Rightarrow> auto_ban_inner \<Rightarrow> auto_ban_inner" where
  "restore_client_ban now now_unix e inner =
     (case e of (ip, expire_unix) \<Rightarrow>
        (case checked_add_secs now (expire_unix - now_unix) of
           None \<Rightarrow> inner
         | Some until \<Rightarrow>
             let r = (case map_of (ab_records inner) ip of
                   Some r \<Rightarrow> r
                 | None \<Rightarrow> \<lparr>r_count = 1, r_first_violation = now, r_banned_until = None,
                     r_permanent = False, r_persisted = False, r_offenses = 0,
                     r_last_offense = None\<rparr>);
                 longer = (case r_banned_until r of Some existing \<Rightarrow> existing < until | None \<Rightarrow> True);
                 r' = (if \<not> r_permanent r \<and> longer
                       then r\<lparr>r_banned_until := Some until, r_persisted := False\<rparr> else r)
             in inner\<lparr>ab_records := AList.update ip r' (ab_records inner)\<rparr>))"

definition raise_limit :: "nat \<Rightarrow> auto_ban_inner \<Rightarrow> auto_ban_inner" where
  "raise_limit num inner =
     (let needed = sat_add u64_max (max (ab_max_records inner) num) 100000
      in if ab_max_records inner < needed then inner\<lparr>ab_max_records := needed\<rparr> else inner)"

definition load_client_bans ::
  "ip_parser \<Rightarrow> file_system \<Rightarrow> nat \<Rightarrow> instant \<Rightarrow> auto_ban_tracker \<Rightarrow> auto_ban_tracker \<times> nat" where
  "load_client_bans parse_ip fs now_unix now t =
     (case Option.bind (usable (at_client_ban_list_path t)) fs of
        None \<Rightarrow> (t, 0)
      | Some content \<Rightarrow>
          if \<not> valid_utf8 content then (t, 0)
          else
            let parsed = parse_client_ban_lines parse_ip content now_unix; num = length parsed
            in if num = 0 then (t, 0)
               else (t\<lparr>at_inner := raise_limit num
                         (fold (restore_client_ban now now_unix) parsed (at_inner t))\<rparr>, num))"

definition client_ban_file_text :: "(ip_addr \<Rightarrow> bytes) \<Rightarrow> (ip_addr \<times> nat) list \<Rightarrow> bytes" where
  "client_ban_file_text show_ip kept =
     str ''# auto_ban client bans, format: <ip> <expire_unix>'' @ [10] @
     concat (map (\<lambda>(ip, expire). show_ip ip @ [32] @ dec_string expire @ [10]) kept)"

definition is_entry_line :: "bytes \<Rightarrow> bool" where
  "is_entry_line line = (trim line \<noteq> [] \<and> \<not> starts_with (trim line) [35])"

text \<open>Addresses in the order of \<open>IpAddr\<close>: IPv4 before IPv6, each by its octets.\<close>

fun ip_le :: "ip_addr \<Rightarrow> ip_addr \<Rightarrow> bool" where
  "ip_le (V4 a) (V4 b) = (a \<le> b)"
| "ip_le (V4 a) (V6 b) = True"
| "ip_le (V6 a) (V4 b) = False"
| "ip_le (V6 a) (V6 b) = (a \<le> b)"

fun insert_by_ip :: "ip_addr \<times> nat \<Rightarrow> (ip_addr \<times> nat) list \<Rightarrow> (ip_addr \<times> nat) list" where
  "insert_by_ip e [] = [e]"
| "insert_by_ip e (x # xs) = (if ip_le (fst e) (fst x) then e # x # xs else x # insert_by_ip e xs)"

definition sort_by_ip :: "(ip_addr \<times> nat) list \<Rightarrow> (ip_addr \<times> nat) list" where
  "sort_by_ip xs = foldr insert_by_ip xs []"

text \<open>
  \<open>tmp_of\<close> is \<open>Path::with_extension("tmp")\<close>. A write truncates the file first; a rename replaces
  the target, and where it fails the temporary file is removed.
\<close>

definition cleanup_client_bans ::
  "ip_parser \<Rightarrow> (ip_addr \<Rightarrow> bytes) \<Rightarrow> (path \<Rightarrow> path) \<Rightarrow> environment \<Rightarrow> auto_ban_tracker \<Rightarrow> file_system \<Rightarrow>
   file_system \<times> nat" where
  "cleanup_client_bans parse_ip show_ip tmp_of en t fs =
     (case usable (at_client_ban_list_path t) of
        None \<Rightarrow> (fs, 0)
      | Some p \<Rightarrow>
          (case fs p of
             None \<Rightarrow> (fs, 0)
           | Some content \<Rightarrow>
               if \<not> valid_utf8 content then (fs, 0)
               else
                 let kept = sort_by_ip (parse_client_ban_lines parse_ip content (en_unix_now en));
                     out = client_ban_file_text show_ip kept
                 in (case en_write en of
                       OpenFails \<Rightarrow> (fs, 0)
                     | WriteFails k \<Rightarrow> (fs(tmp_of p \<mapsto> take k out), 0)
                     | WriteOk \<Rightarrow>
                         if en_rename_ok en then
                           ((fs(p \<mapsto> out))(tmp_of p := None),
                            length (filter is_entry_line (lines content)) - length kept)
                         else (fs(tmp_of p := None), 0))))"

definition maybe_cleanup_client_bans ::
  "ip_parser \<Rightarrow> (ip_addr \<Rightarrow> bytes) \<Rightarrow> (path \<Rightarrow> path) \<Rightarrow> environment \<Rightarrow> auto_ban_tracker \<Rightarrow> file_system \<Rightarrow>
   auto_ban_tracker \<times> file_system \<times> nat" where
  "maybe_cleanup_client_bans parse_ip show_ip tmp_of en t fs =
     (if \<not> due (ab_last_client_cleanup (at_inner t)) (en_now en) 86400 then (t, fs, 0)
      else
        let t' = t\<lparr>at_inner := (at_inner t)\<lparr>ab_last_client_cleanup := Some (en_now en)\<rparr>\<rparr>;
            (fs', n) = cleanup_client_bans parse_ip show_ip tmp_of en t' fs
        in (t', fs', n))"

subsection \<open>The periodic flush\<close>

definition permanently_banned :: "instant \<Rightarrow> ip_addr \<times> ip_record \<Rightarrow> bool" where
  "permanently_banned now e = (r_permanent (snd e) \<and> record_is_banned (snd e) now)"

definition flush_to_file ::
  "(ip_addr \<Rightarrow> bytes) \<Rightarrow> environment \<Rightarrow> auto_ban_tracker \<Rightarrow> file_system \<Rightarrow>
   auto_ban_tracker \<times> file_system \<times> ip_addr list" where
  "flush_to_file show_ip en t fs =
     (let inner = at_inner t in
      if ab_ban_duration_secs inner \<noteq> 0 \<and> \<not> po_escalation_enabled (at_policy t) then (t, fs, [])
      else
        let es = filter (permanently_banned (en_now en)) (ab_records inner);
            banned = map fst es;
            pending_write = map fst (filter (\<lambda>e. \<not> r_persisted (snd e)) es)
        in if banned = [] then (t, fs, [])
           else
             (case usable (at_ban_list_path t) of
                None \<Rightarrow> (t, fs, [])
              | Some p \<Rightarrow>
                  if pending_write = [] then (t, fs, banned)
                  else
                    let (fs', ok) = append_lines (en_probe en) (en_write en) p
                          (concat (map (\<lambda>ip. show_ip ip @ [10]) pending_write)) fs
                    in if ok then (t\<lparr>at_inner := fold set_persisted pending_write inner\<rparr>, fs', banned)
                       else (t, fs', [])))"

definition remove_ips :: "ip_addr list \<Rightarrow> auto_ban_inner \<Rightarrow> auto_ban_inner" where
  "remove_ips ips inner = inner\<lparr>ab_records := fold AList.delete ips (ab_records inner)\<rparr>"

definition tracked_count :: "auto_ban_inner \<Rightarrow> nat" where
  "tracked_count inner = length (ab_records inner)"

definition banned_count :: "auto_ban_inner \<Rightarrow> instant \<Rightarrow> nat" where
  "banned_count inner now = length (filter (\<lambda>e. record_is_banned (snd e) now) (ab_records inner))"

definition auto_ban_cleanup :: "instant \<Rightarrow> auto_ban_inner \<Rightarrow> auto_ban_inner" where
  "auto_ban_cleanup now inner = inner\<lparr>ab_records :=
     filter (\<lambda>e. keep_record now (ab_window_secs inner) (snd e)) (ab_records inner)\<rparr>"

subsection \<open>Validation of the configuration\<close>

datatype path_component = RootDir | CurDir | ParentDir | NormalDir bytes

text \<open>\<open>Path::components\<close> on Unix: empty and inner dot components are skipped.\<close>

fun component_of :: "bytes \<Rightarrow> path_component" where
  "component_of c = (if c = [46] then CurDir else if c = [46, 46] then ParentDir else NormalDir c)"

definition components :: "path \<Rightarrow> path_component list" where
  "components p =
     (let parts = split_on 47 p in
      (if p \<noteq> [] \<and> hd p = 47 then [RootDir] else if hd parts = [46] then [CurDir] else []) @
      map component_of (filter (\<lambda>c. c \<noteq> [] \<and> c \<noteq> [46]) parts))"

definition push_component :: "path_component \<Rightarrow> path_component list \<Rightarrow> path_component list" where
  "push_component c acc =
     (case c of
        CurDir \<Rightarrow> acc
      | ParentDir \<Rightarrow>
          (case rev acc of NormalDir _ # _ \<Rightarrow> butlast acc | _ \<Rightarrow> acc @ [ParentDir])
      | _ \<Rightarrow> acc @ [c])"

definition normalize_path :: "path \<Rightarrow> path_component list" where
  "normalize_path p = fold push_component (components p) []"

text \<open>\<open>canonicalize\<close> is the file system's; paths are equal when their components are.\<close>

definition paths_refer_to_same_file :: "(path \<Rightarrow> path option) \<Rightarrow> path \<Rightarrow> path \<Rightarrow> bool" where
  "paths_refer_to_same_file canonicalize a b =
     (if components a = components b then True
      else
        (case (canonicalize a, canonicalize b) of
           (Some x, Some y) \<Rightarrow> components x = components y
         | _ \<Rightarrow> normalize_path a = normalize_path b))"

datatype auto_ban_config_error =
    ZeroThreshold | ZeroWindow | BanDurationTooLong | ImmediateBanTooLong | ClientBanTooLong
  | ClientJitterTooLong | StepTooLong bytes | StepNotANumber bytes | ZeroDecay | EmptyBanListPath
  | IpBanModeOff | PathsDiffer

fun validate_steps :: "bytes list \<Rightarrow> auto_ban_config_error + unit" where
  "validate_steps [] = Inr ()"
| "validate_steps (raw # es) =
     (let e = trim raw in
      if e = [] then validate_steps es
      else
        (case parse_uint u64_max e of
           None \<Rightarrow> Inl (StepNotANumber e)
         | Some secs \<Rightarrow> if secs \<le> MAX_BAN_DURATION_SECS then validate_steps es else Inl (StepTooLong e)))"

definition validate_auto_ban_config ::
  "(path \<Rightarrow> path option) \<Rightarrow> auto_ban_config \<Rightarrow> ip_ban_mode \<Rightarrow> path \<Rightarrow> auto_ban_config_error + unit" where
  "validate_auto_ban_config canonicalize cf mode ip_ban_path =
     (if \<not> ac_enabled cf then Inr ()
      else if ac_threshold cf = 0 then Inl ZeroThreshold
      else if ac_window_secs cf = 0 then Inl ZeroWindow
      else if MAX_BAN_DURATION_SECS < ac_ban_duration_secs cf then Inl BanDurationTooLong
      else if MAX_BAN_DURATION_SECS < ac_immediate_ban_secs cf then Inl ImmediateBanTooLong
      else if MAX_BAN_DURATION_SECS < ac_client_ban_duration_secs cf then Inl ClientBanTooLong
      else if MAX_BAN_DURATION_SECS < ac_client_ban_jitter_secs cf then Inl ClientJitterTooLong
      else and_then (validate_steps (split_on 44 (ac_escalation_steps cf))) (\<lambda>_.
        if ac_escalation_enabled cf \<and> ac_offense_decay_secs cf = 0 then Inl ZeroDecay
        else if ac_ban_duration_secs cf \<noteq> 0 \<and> \<not> ac_escalation_enabled cf then Inr ()
        else if ac_ban_list_path cf = [] then Inl EmptyBanListPath
        else if \<not> ip_ban_on mode then Inl IpBanModeOff
        else if \<not> paths_refer_to_same_file canonicalize (ac_ban_list_path cf) ip_ban_path
        then Inl PathsDiffer
        else Inr ()))"

end
