(* ===== verification/Request_Filter.thy ===== *)
theory Request_Filter
  imports Common_Lib Ip_Ban
begin

text \<open>
  \<open>crates/common/src/request_filter.rs\<close>: the filter of request URIs, User-Agents and private
  addresses, and what its pattern search and its address ranges mean. Strings are their UTF-8 bytes;
  a shift is that of the release profile, as in the IP ban list.
\<close>

record request_filter =
  rf_sql_injection_patterns :: "bytes list"
  rf_path_traversal_patterns :: "bytes list"
  rf_crawler_user_agents :: "bytes list"
  rf_private_ip_ranges :: "(ip_addr \<times> u8) list"

text \<open>The IPv4 address \<open>a.b.c.d\<close> and the IPv6 address that starts with a given group.\<close>

definition ipv4 :: "u8 \<Rightarrow> u8 \<Rightarrow> u8 \<Rightarrow> u8 \<Rightarrow> ip_addr" where
  "ipv4 a b c d = V4 (be_word [a, b, c, d])"

definition ipv6_group :: "u8 \<Rightarrow> u8 \<Rightarrow> ip_addr" where
  "ipv6_group a b = V6 (be_word ([a, b] @ replicate 14 0))"

definition request_filter_default :: request_filter where
  "request_filter_default = \<lparr>
     rf_sql_injection_patterns =
       [str ''--'', str ''/*'', str ''*/'', str ''union'', str ''select'', str ''insert'',
        str ''delete'', str ''update'', str ''drop'', str ''exec'', str ''execute'', str ''xp_'',
        str ''sp_''],
     rf_path_traversal_patterns =
       [str ''../'', str ''..'' @ [92], str ''%2e%2e'', str ''%252e'', str ''..%2f'', str ''..%5c''],
     rf_crawler_user_agents =
       [str ''bot'', str ''crawler'', str ''spider'', str ''scraper'', str ''python-requests'',
        str ''python-urllib'', str ''curl'', str ''wget'', str ''httpie'', str ''go-http-client''],
     rf_private_ip_ranges =
       [(ipv4 0 0 0 0, 8), (ipv4 10 0 0 0, 8), (ipv4 100 64 0 0, 10), (ipv4 127 0 0 0, 8),
        (ipv4 169 254 0 0, 16), (ipv4 172 16 0 0, 12), (ipv4 192 168 0 0, 16), (ipv4 198 18 0 0, 15),
        (ipv4 224 0 0 0, 4), (ipv4 240 0 0 0, 4), (V6 0, 128), (V6 1, 128), (ipv6_group 0xFC 0, 7),
        (ipv6_group 0xFE 0x80, 10), (ipv6_group 0xFF 0, 8)]\<rparr>"

datatype filter_result =
    Allowed | BlockedSqlInjection | BlockedPathTraversal | BlockedCrawler | BlockedPrivateIp
  | BlockedMissingUserAgent

record request_filter_config =
  filter_sql_injection :: bool
  filter_path_traversal :: bool
  filter_crawlers :: bool
  filter_private_ips :: bool
  filter_missing_user_agent :: bool

definition request_filter_config_default :: request_filter_config where
  "request_filter_config_default = \<lparr>filter_sql_injection = False, filter_path_traversal = False,
     filter_crawlers = False, filter_private_ips = False, filter_missing_user_agent = False\<rparr>"

subsection \<open>Patterns\<close>

text \<open>A word byte that does not end a percent escape.\<close>

definition is_word_byte_at :: "bytes \<Rightarrow> nat \<Rightarrow> bool" where
  "is_word_byte_at haystack i =
     (if \<not> (ascii_alphanumeric (haystack ! i) \<or> haystack ! i = 95) then False
      else \<not> (2 \<le> i \<and> haystack ! (i - 2) = 37 \<and> ascii_hexdigit (haystack ! (i - 1))))"

definition contains_word_ascii_case_insensitive :: "bytes \<Rightarrow> bytes \<Rightarrow> bool" where
  "contains_word_ascii_case_insensitive haystack needle =
     (if needle = [] then True
      else if length haystack < length needle then False
      else list_ex (\<lambda>(start, window).
             eq_ignore_case window needle \<and>
             (start = 0 \<or> \<not> is_word_byte_at haystack (start - 1)) \<and>
             (start + length needle = length haystack \<or>
              \<not> is_word_byte_at haystack (start + length needle)))
           (enumerate 0 (windows (length needle) haystack)))"

definition matches_pattern :: "bytes \<Rightarrow> bytes \<Rightarrow> bool" where
  "matches_pattern haystack pattern =
     (if list_all ascii_alphanumeric pattern then contains_word_ascii_case_insensitive haystack pattern
      else contains_ascii_case_insensitive haystack pattern)"

definition is_sql_injection :: "request_filter \<Rightarrow> bytes \<Rightarrow> bool" where
  "is_sql_injection f uri = list_ex (matches_pattern uri) (rf_sql_injection_patterns f)"

definition is_path_traversal :: "request_filter \<Rightarrow> bytes \<Rightarrow> bool" where
  "is_path_traversal f uri = list_ex (contains_ascii_case_insensitive uri) (rf_path_traversal_patterns f)"

definition is_crawler :: "request_filter \<Rightarrow> bytes option \<Rightarrow> bool" where
  "is_crawler f user_agent =
     (case user_agent of None \<Rightarrow> False
      | Some ua \<Rightarrow> list_ex (contains_ascii_case_insensitive ua) (rf_crawler_user_agents f))"

definition check_request_with_config ::
  "request_filter \<Rightarrow> bytes \<Rightarrow> bytes option \<Rightarrow> request_filter_config \<Rightarrow> filter_result" where
  "check_request_with_config f uri user_agent cf =
     (if filter_sql_injection cf \<and> is_sql_injection f uri then BlockedSqlInjection
      else if filter_path_traversal cf \<and> is_path_traversal f uri then BlockedPathTraversal
      else if filter_crawlers cf \<and> is_crawler f user_agent then BlockedCrawler
      else if user_agent = None \<and> filter_missing_user_agent cf then BlockedMissingUserAgent
      else Allowed)"

definition check_request :: "request_filter \<Rightarrow> bytes \<Rightarrow> bytes option \<Rightarrow> bool \<Rightarrow> filter_result" where
  "check_request f uri user_agent filter_missing_ua =
     check_request_with_config f uri user_agent \<lparr>filter_sql_injection = True,
       filter_path_traversal = True, filter_crawlers = True, filter_private_ips = False,
       filter_missing_user_agent = filter_missing_ua\<rparr>"

definition is_allowed :: "request_filter \<Rightarrow> bytes \<Rightarrow> bytes option \<Rightarrow> bool \<Rightarrow> bool" where
  "is_allowed f uri user_agent filter_missing_ua = (check_request f uri user_agent filter_missing_ua = Allowed)"

definition is_allowed_with_config ::
  "request_filter \<Rightarrow> bytes \<Rightarrow> bytes option \<Rightarrow> request_filter_config \<Rightarrow> bool" where
  "is_allowed_with_config f uri user_agent cf = (check_request_with_config f uri user_agent cf = Allowed)"

subsection \<open>Addresses\<close>

definition ip_in_range :: "ip_addr \<Rightarrow> ip_addr \<Rightarrow> u8 \<Rightarrow> bool" where
  "ip_in_range ip b p =
     (case (ip, b) of
        (V4 ip, V4 b) \<Rightarrow>
          if p = 0 then True else (let mask = shl (NOT 0) (32 - p) in ip AND mask = b AND mask)
      | (V6 ip, V6 b) \<Rightarrow>
          if p = 0 then True else (let mask = shl (NOT 0) (128 - p) in ip AND mask = b AND mask)
      | _ \<Rightarrow> False)"

definition check_ip :: "request_filter \<Rightarrow> ip_addr \<Rightarrow> filter_result" where
  "check_ip f ip0 =
     (let ip = canonical_ip ip0
      in if list_ex (\<lambda>(b, p). ip_in_range ip b p) (rf_private_ip_ranges f) then BlockedPrivateIp
         else Allowed)"

definition is_ip_allowed :: "request_filter \<Rightarrow> ip_addr \<Rightarrow> bool" where
  "is_ip_allowed f ip = (check_ip f ip = Allowed)"

text \<open>The range test is the one of the IP ban list with its arguments swapped.\<close>

lemma ip_in_range_contains: "ip_in_range ip b p = range_contains \<lparr>base = b, prefix_len = p\<rparr> ip"
  by (cases ip; cases b)
    (auto simp: ip_in_range_def range_contains_def mask32_def mask128_def Let_def)

lemma ip_in_range_spec:
  assumes "p \<le> max_prefix b"
  shows "ip_in_range ip b p \<longleftrightarrow> in_network b (unat p) ip"
  unfolding ip_in_range_contains
  using range_contains_spec [of "\<lparr>base = b, prefix_len = p\<rparr>" ip] assms by (simp add: range_ok_def)

subsection \<open>Which addresses are filtered\<close>

definition in_interval :: "ip_addr \<Rightarrow> ip_addr \<Rightarrow> ip_addr \<Rightarrow> bool" where
  "in_interval lo hi ip =
     (case (lo, hi, ip) of
        (V4 l, V4 h, V4 a) \<Rightarrow> l \<le> a \<and> a \<le> h
      | (V6 l, V6 h, V6 a) \<Rightarrow> l \<le> a \<and> a \<le> h
      | _ \<Rightarrow> False)"

text \<open>The last IPv6 address that starts with a given group.\<close>

definition ipv6_last :: "u8 \<Rightarrow> u8 \<Rightarrow> ip_addr" where
  "ipv6_last a b = V6 (be_word ([a, b] @ replicate 14 0xFF))"

text \<open>
  The address space that is not public: this network, RFC 1918, carrier-grade NAT, loopback,
  link-local, benchmarking, multicast and reserved for IPv4; unspecified, loopback, unique local,
  link-local and multicast for IPv6.
\<close>

definition non_public :: "(ip_addr \<times> ip_addr) list" where
  "non_public =
     [(ipv4 0 0 0 0, ipv4 0 255 255 255),
      (ipv4 10 0 0 0, ipv4 10 255 255 255),
      (ipv4 100 64 0 0, ipv4 100 127 255 255),
      (ipv4 127 0 0 0, ipv4 127 255 255 255),
      (ipv4 169 254 0 0, ipv4 169 254 255 255),
      (ipv4 172 16 0 0, ipv4 172 31 255 255),
      (ipv4 192 168 0 0, ipv4 192 168 255 255),
      (ipv4 198 18 0 0, ipv4 198 19 255 255),
      (ipv4 224 0 0 0, ipv4 239 255 255 255),
      (ipv4 240 0 0 0, ipv4 255 255 255 255),
      (V6 0, V6 0), (V6 1, V6 1),
      (ipv6_group 0xFC 0, ipv6_last 0xFD 0xFF),
      (ipv6_group 0xFE 0x80, ipv6_last 0xFE 0xBF),
      (ipv6_group 0xFF 0, ipv6_last 0xFF 0xFF)]"

text \<open>A range whose base is aligned to its prefix is the interval from the base on.\<close>

definition spans :: "ip_addr \<times> u8 \<Rightarrow> ip_addr \<times> ip_addr \<Rightarrow> bool" where
  "spans r i =
     (case (r, i) of
        ((V4 b, p), (V4 lo, V4 hi)) \<Rightarrow>
          p \<le> 32 \<and> lo = b \<and> unat b mod 2 ^ (32 - unat p) = 0 \<and>
          unat hi + 1 = unat b + 2 ^ (32 - unat p)
      | ((V6 b, p), (V6 lo, V6 hi)) \<Rightarrow>
          p \<le> 128 \<and> lo = b \<and> unat b mod 2 ^ (128 - unat p) = 0 \<and>
          unat hi + 1 = unat b + 2 ^ (128 - unat p)
      | _ \<Rightarrow> False)"

lemma drop_bit_interval:
  fixes a b hi :: "'a::len word"
  assumes "unat b mod 2 ^ k = 0" and "unat hi + 1 = unat b + 2 ^ k"
  shows "drop_bit k a = drop_bit k b \<longleftrightarrow> b \<le> a \<and> a \<le> hi"
proof -
  have "drop_bit k a = drop_bit k b \<longleftrightarrow> unat a div 2 ^ k = unat b div 2 ^ k"
    by (metis drop_bit_eq_div unat_drop_bit_eq word_eq_iff_unsigned)
  also have "\<dots> \<longleftrightarrow> unat b \<le> unat a \<and> unat a < unat b + 2 ^ k"
  proof -
    obtain q where q: "unat b = q * 2 ^ k" using assms(1) by (metis dvd_def mod_0_imp_dvd mult.commute)
    have "unat a div 2 ^ k = q \<longleftrightarrow> 2 ^ k * q \<le> unat a \<and> unat a < 2 ^ k * Suc q"
    proof
      assume "unat a div 2 ^ k = q"
      then show "2 ^ k * q \<le> unat a \<and> unat a < 2 ^ k * Suc q"
        using dividend_less_times_div [of "2 ^ k" "unat a"] by auto
    qed (auto intro: div_nat_eqI)
    then show ?thesis unfolding q by (simp add: algebra_simps)
  qed
  finally show ?thesis using assms(2) by (simp add: word_le_nat_alt) linarith
qed

lemma replicate_14: "replicate 14 x = [x, x, x, x, x, x, x, x, x, x, x, x, x, x]"
  by (simp add: eval_nat_numeral)

lemma spans_all: "list_all2 spans (rf_private_ip_ranges request_filter_default) non_public"
  by (simp add: request_filter_default_def non_public_def spans_def ipv4_def ipv6_group_def ipv6_last_def
      be_word_def be_nat_def unat_of_nat replicate_14)

lemma spans_range:
  assumes "spans (b, p) (lo, hi)"
  shows "ip_in_range ip b p \<longleftrightarrow> in_interval lo hi ip"
proof (cases b)
  case (V4 x)
  then obtain h where h: "lo = V4 x" "hi = V4 h" "p \<le> 32" "unat x mod 2 ^ (32 - unat p) = 0"
      "unat h + 1 = unat x + 2 ^ (32 - unat p)"
    using assms by (auto simp: spans_def split: ip_addr.splits)
  have "ip_in_range ip b p \<longleftrightarrow> in_network b (unat p) ip"
    using h(3) V4 by (intro ip_in_range_spec) (simp add: max_prefix_def)
  then show ?thesis
    using drop_bit_interval [OF h(4,5)] h(1,2) V4 by (cases ip) (auto simp: in_interval_def)
next
  case (V6 x)
  then obtain h where h: "lo = V6 x" "hi = V6 h" "p \<le> 128" "unat x mod 2 ^ (128 - unat p) = 0"
      "unat h + 1 = unat x + 2 ^ (128 - unat p)"
    using assms by (auto simp: spans_def split: ip_addr.splits)
  have "ip_in_range ip b p \<longleftrightarrow> in_network b (unat p) ip"
    using h(3) V6 by (intro ip_in_range_spec) (simp add: max_prefix_def)
  then show ?thesis
    using drop_bit_interval [OF h(4,5)] h(1,2) V6 by (cases ip) (auto simp: in_interval_def)
qed

lemma list_ex_all2:
  "list_all2 R xs ys \<Longrightarrow> (\<And>x y. R x y \<Longrightarrow> P x = Q y) \<Longrightarrow> list_ex P xs = list_ex Q ys"
  by (induction rule: list_all2_induct) auto

text \<open>The private address filter blocks exactly the address space that is not public, given by its
  first and last addresses, and an IPv4-mapped IPv6 address exactly when its IPv4 address is
  blocked. The mask arithmetic of the prefixes neither misses nor catches a neighbour.\<close>

theorem filtered_addresses:
  "(check_ip request_filter_default ip = BlockedPrivateIp \<longleftrightarrow>
      list_ex (\<lambda>(lo, hi). in_interval lo hi (canonical_ip ip)) non_public) \<and>
   check_ip request_filter_default (V6 (to_ipv6_mapped a)) = check_ip request_filter_default (V4 a) \<and>
   is_ip_allowed request_filter_default ip = (check_ip request_filter_default ip \<noteq> BlockedPrivateIp)"
proof -
  have "list_ex (\<lambda>(b, p). ip_in_range (canonical_ip ip) b p) (rf_private_ip_ranges request_filter_default) =
      list_ex (\<lambda>(lo, hi). in_interval lo hi (canonical_ip ip)) non_public"
    by (rule list_ex_all2 [OF spans_all]) (auto simp: spans_range)
  then show ?thesis by (simp add: check_ip_def is_ip_allowed_def del: canonical_ip.simps(2))
qed

subsection \<open>Which words are found\<close>

text \<open>
  A keyword is found where it stands as a word: no letter, digit or underscore next to it, except
  the last digit of a percent escape.
\<close>

lemma contains_word_spec:
  assumes "needle \<noteq> []"
  shows "contains_word_ascii_case_insensitive haystack needle \<longleftrightarrow>
    (\<exists>i. i + length needle \<le> length haystack \<and>
      eq_ignore_case (sub haystack i (length needle)) needle \<and>
      (i = 0 \<or> \<not> is_word_byte_at haystack (i - 1)) \<and>
      (i + length needle = length haystack \<or> \<not> is_word_byte_at haystack (i + length needle)))"
proof (cases "length haystack < length needle")
  case True
  then show ?thesis using assms by (auto simp: contains_word_ascii_case_insensitive_def)
next
  case False
  have mem: "(i, w) \<in> set (enumerate 0 (windows n haystack)) \<longleftrightarrow>
      i + n \<le> length haystack \<and> w = sub haystack i n" if "n \<le> length haystack" for i w n
    using that by (auto simp: in_set_enumerate_eq windows_def)
  have "contains_word_ascii_case_insensitive haystack needle \<longleftrightarrow>
      (\<exists>i w. (i, w) \<in> set (enumerate 0 (windows (length needle) haystack)) \<and> eq_ignore_case w needle \<and>
        (i = 0 \<or> \<not> is_word_byte_at haystack (i - 1)) \<and>
        (i + length needle = length haystack \<or> \<not> is_word_byte_at haystack (i + length needle)))"
    using False assms by (simp add: contains_word_ascii_case_insensitive_def list_ex_iff case_prod_unfold Bex_def)
  also have "\<dots> \<longleftrightarrow> (\<exists>i. i + length needle \<le> length haystack \<and>
      eq_ignore_case (sub haystack i (length needle)) needle \<and>
      (i = 0 \<or> \<not> is_word_byte_at haystack (i - 1)) \<and>
      (i + length needle = length haystack \<or> \<not> is_word_byte_at haystack (i + length needle)))"
    using False mem [of "length needle"] by (simp add: not_less)
  finally show ?thesis .
qed

lemma symbol_found:
  assumes "\<not> list_all ascii_alphanumeric pattern"
  shows "matches_pattern (pre @ pattern @ post) pattern"
proof -
  have "contains_ascii_case_insensitive (pre @ pattern @ post) pattern"
    unfolding contains_spec using eq_ignore_case_refl by blast
  then show ?thesis using assms by (simp add: matches_pattern_def)
qed

end
