(* ===== verification/Client_Ban.thy ===== *)
theory Client_Ban
  imports Common_Lib List_File
begin

text \<open>
  \<open>crates/common/src/client_ban.rs\<close>: the list of banned clients, the structural checks of peer ids
  and the comparison of a peer id with a User-Agent. A peer id is a 160-bit word of twenty bytes.
  The rate limited log lines are not modelled: reporting an issue is the verdict it returns.
\<close>

datatype client_ban_mode = ClientBanOn | ClientBanOff

fun client_ban_on :: "client_ban_mode \<Rightarrow> bool" where
  "client_ban_on ClientBanOn = True"
| "client_ban_on ClientBanOff = False"

datatype peer_id_check_mode = CheckOff | CheckWarn | CheckEnforce

fun check_off :: "peer_id_check_mode \<Rightarrow> bool" where
  "check_off CheckOff = True"
| "check_off _ = False"

fun check_enforce :: "peer_id_check_mode \<Rightarrow> bool" where
  "check_enforce CheckEnforce = True"
| "check_enforce _ = False"

record client_ban_config =
  cb_mode :: client_ban_mode
  cb_path :: bytes
  cb_ban_vampire_clients :: bool
  cb_peer_id_strictness :: peer_id_check_mode
  cb_peer_id_user_agent_mismatch :: peer_id_check_mode
  cb_peer_id_allowlist_path :: bytes

definition client_ban_config_default :: client_ban_config where
  "client_ban_config_default = \<lparr>cb_mode = ClientBanOff, cb_path = str ''./client-ban-list.txt'',
     cb_ban_vampire_clients = True, cb_peer_id_strictness = CheckOff,
     cb_peer_id_user_agent_mismatch = CheckOff, cb_peer_id_allowlist_path = []\<rparr>"

datatype identity_check = IdentityOk | IdentityWarned | IdentityRejected

record client_ban_list =
  cl_banned_patterns :: "bytes set"
  cl_allowed_prefixes :: "bytes set"
  cl_ban_vampire_clients :: bool

definition client_ban_list_default :: client_ban_list where
  "client_ban_list_default =
     \<lparr>cl_banned_patterns = {}, cl_allowed_prefixes = {}, cl_ban_vampire_clients = True\<rparr>"

subsection \<open>Loading\<close>

text \<open>Lists that are not read are \<open>None\<close>; a file is the answer of the file system.\<close>

definition load_patterns :: "(io_error + bytes) option \<Rightarrow> io_error + bytes set" where
  "load_patterns file =
     (case file of
        None \<Rightarrow> Inr {}
      | Some f \<Rightarrow> and_then (read_list_file f) (\<lambda>es. Inr (set (map (\<lambda>e. map to_lower (snd e)) es))))"

definition load_allowlist :: "(io_error + bytes) option \<Rightarrow> io_error + bytes set" where
  "load_allowlist file =
     (case file of
        None \<Rightarrow> Inr {}
      | Some f \<Rightarrow> and_then (read_list_file f)
          (\<lambda>es. Inr (set (map (\<lambda>e. map to_lower (snd e)) (filter (\<lambda>e. length (snd e) \<le> 20) es)))))"

definition client_ban_create ::
  "(io_error + bytes) option \<Rightarrow> bool \<Rightarrow> (io_error + bytes) option \<Rightarrow> io_error + client_ban_list" where
  "client_ban_create ban_list ban_vampire_clients allowlist =
     and_then (load_patterns ban_list) (\<lambda>banned.
     and_then (load_allowlist allowlist) (\<lambda>allowed.
       Inr \<lparr>cl_banned_patterns = banned, cl_allowed_prefixes = allowed,
         cl_ban_vampire_clients = ban_vampire_clients\<rparr>))"

text \<open>\<open>files\<close> is the file system: the answer for each path.\<close>

definition client_ban_update ::
  "(bytes \<Rightarrow> io_error + bytes) \<Rightarrow> client_ban_config \<Rightarrow> client_ban_list \<Rightarrow>
   client_ban_list \<times> (io_error + unit)" where
  "client_ban_update files cf l =
     (let ban_list = (if client_ban_on (cb_mode cf) then Some (files (cb_path cf)) else None);
          allowlist = (if cb_peer_id_allowlist_path cf = [] then None
                       else Some (files (cb_peer_id_allowlist_path cf)))
      in case client_ban_create ban_list (cb_ban_vampire_clients cf) allowlist of
           Inl e \<Rightarrow> (l, Inl e)
         | Inr l' \<Rightarrow> (l', Inr ()))"

definition update_client_ban_list ::
  "(bytes \<Rightarrow> io_error + bytes) \<Rightarrow> client_ban_config \<Rightarrow> client_ban_list \<Rightarrow>
   client_ban_list \<times> (io_error + unit)" where
  "update_client_ban_list files cf l =
     (if client_ban_on (cb_mode cf) \<or> cb_peer_id_allowlist_path cf \<noteq> []
      then client_ban_update files cf l else (l, Inr ()))"

subsection \<open>Banned clients\<close>

definition VAMPIRE_PREFIXES :: "bytes list" where
  "VAMPIRE_PREFIXES =
     [str ''-xl'', str ''-sd'', str ''-qd'', str ''-bn'', str ''-bc'', str ''-uw'', str ''-dt'',
      str ''-fg'', str ''-fw'']"

text \<open>\<open>s.get(..n)\<close>: the first \<open>n\<close> bytes, where they end at a character boundary.\<close>

definition str_prefix :: "bytes \<Rightarrow> nat \<Rightarrow> bytes option" where
  "str_prefix s n =
     (if n = length s \<or> n < length s \<and> \<not> cont_byte (s ! n) then Some (take n s) else None)"

definition is_vampire_client :: "bytes \<Rightarrow> bool" where
  "is_vampire_client peer_id =
     list_ex (\<lambda>p. case str_prefix peer_id (length p) of
        None \<Rightarrow> False | Some start \<Rightarrow> eq_ignore_case start p) VAMPIRE_PREFIXES"

definition client_is_banned :: "client_ban_list \<Rightarrow> bytes \<Rightarrow> bool" where
  "client_is_banned l peer_id =
     (if cl_ban_vampire_clients l \<and> is_vampire_client peer_id then True
      else if cl_banned_patterns l = {} then False
      else let lower = map to_lower peer_id
           in \<exists>pattern \<in> cl_banned_patterns l. starts_with lower pattern)"

subsection \<open>Peer ids\<close>

type_synonym peer_id_word = "160 word"

definition pid_byte :: "peer_id_word \<Rightarrow> nat \<Rightarrow> u8" where
  "pid_byte p i = word_be 20 p ! i"

definition is_peer_id_allowlisted :: "client_ban_list \<Rightarrow> peer_id_word \<Rightarrow> bool" where
  "is_peer_id_allowlisted l p =
     (\<exists>prefix \<in> cl_allowed_prefixes l.
        length prefix \<le> 20 \<and> eq_ignore_case (take (length prefix) (word_be 20 p)) prefix)"

datatype peer_id_style = Azureus | Mainline | UnknownStyle

definition is_azureus_style :: "peer_id_word \<Rightarrow> bool" where
  "is_azureus_style p =
     (pid_byte p 0 = 45 \<and> ascii_alphabetic (pid_byte p 1) \<and> ascii_alphabetic (pid_byte p 2) \<and>
      list_all ascii_alphanumeric (sub (word_be 20 p) 3 4) \<and> pid_byte p 7 = 45)"

definition is_mainline_style :: "peer_id_word \<Rightarrow> bool" where
  "is_mainline_style p =
     (ascii_alphabetic (pid_byte p 0) \<and>
      list_all (\<lambda>b. ascii_digit b \<or> b = 45) (sub (word_be 20 p) 1 6) \<and> pid_byte p 7 = 45)"

definition classify_peer_id :: "peer_id_word \<Rightarrow> peer_id_style" where
  "classify_peer_id p =
     (if is_azureus_style p then Azureus else if is_mainline_style p then Mainline else UnknownStyle)"

definition peer_id_code :: "peer_id_word \<Rightarrow> bytes option" where
  "peer_id_code p =
     (if \<not> is_azureus_style p then None else Some [to_upper (pid_byte p 1), to_upper (pid_byte p 2)])"

definition max_major_version :: "bytes \<Rightarrow> u8 option" where
  "max_major_version code =
     (if code \<in> {str ''UT'', str ''UE'', str ''UM'', str ''UW''} then Some 3
      else if code = str ''TR'' then Some 4
      else if code = str ''QB'' then Some 5
      else if code = str ''DE'' then Some 2
      else if code = str ''AZ'' then Some 5
      else if code = str ''LT'' then Some 2
      else None)"

record version_issue =
  vi_code :: bytes
  vi_version :: u8
  vi_max_version :: u8

definition implausible_version :: "peer_id_word \<Rightarrow> version_issue option" where
  "implausible_version p =
     Option.bind (peer_id_code p) (\<lambda>code.
     Option.bind (max_major_version code) (\<lambda>max_version.
       let version_byte = pid_byte p 3 in
       if \<not> ascii_digit version_byte then None
       else
         let version = version_byte - 48 in
         if max_version < version
         then Some \<lparr>vi_code = from_utf8_lossy code, vi_version = version, vi_max_version = max_version\<rparr>
         else None))"

datatype peer_client_family =
  UTorrent | Transmission | QBittorrent | Deluge | Vuze | Libtorrent | WebTorrent | BitTorrent

definition peer_id_family :: "peer_id_word \<Rightarrow> peer_client_family option" where
  "peer_id_family p =
     Option.bind (peer_id_code p) (\<lambda>code.
       if code \<in> {str ''UT'', str ''UE'', str ''UM'', str ''UW''} then Some UTorrent
       else if code = str ''TR'' then Some Transmission
       else if code = str ''QB'' then Some QBittorrent
       else if code = str ''DE'' then Some Deluge
       else if code = str ''AZ'' then Some Vuze
       else if code = str ''LT'' then Some Libtorrent
       else if code \<in> {str ''WW'', str ''WD''} then Some WebTorrent
       else if code = str ''BT'' then Some BitTorrent
       else None)"

definition str_contains :: "bytes \<Rightarrow> bytes \<Rightarrow> bool" where
  "str_contains s needle = list_ex (\<lambda>i. starts_with (drop i s) needle) [0..<Suc (length s)]"

definition user_agent_family :: "bytes \<Rightarrow> peer_client_family option" where
  "user_agent_family user_agent =
     (let ua = map to_lower user_agent in
      if str_contains ua (str ''qbittorrent'') then Some QBittorrent
      else if str_contains ua (str ''utorrent'') \<or> str_contains ua ([0xC2, 0xB5] @ str ''torrent'')
      then Some UTorrent
      else if str_contains ua (str ''transmission'') then Some Transmission
      else if str_contains ua (str ''deluge'') then Some Deluge
      else if str_contains ua (str ''vuze'') \<or> str_contains ua (str ''azureus'') then Some Vuze
      else if str_contains ua (str ''libtorrent'') then Some Libtorrent
      else if str_contains ua (str ''webtorrent'') then Some WebTorrent
      else if str_contains ua (str ''bittorrent'') then Some BitTorrent
      else None)"

datatype peer_id_issue =
    NonStandard
  | UnsupportedVersion version_issue
  | UserAgentMismatch peer_client_family peer_client_family

definition report_identity_issue :: "peer_id_issue \<Rightarrow> peer_id_check_mode \<Rightarrow> identity_check" where
  "report_identity_issue issue mode = (if check_enforce mode then IdentityRejected else IdentityWarned)"

definition check_peer_id_format :: "client_ban_list \<Rightarrow> peer_id_word \<Rightarrow> peer_id_check_mode \<Rightarrow> identity_check"
  where "check_peer_id_format l p mode =
     (if check_off mode \<or> is_peer_id_allowlisted l p then IdentityOk
      else
        (case classify_peer_id p of
           Mainline \<Rightarrow> IdentityOk
         | UnknownStyle \<Rightarrow> report_identity_issue NonStandard mode
         | Azureus \<Rightarrow>
             (case implausible_version p of
                Some issue \<Rightarrow> report_identity_issue (UnsupportedVersion issue) mode
              | None \<Rightarrow> IdentityOk)))"

definition check_peer_id_user_agent ::
  "client_ban_list \<Rightarrow> peer_id_word \<Rightarrow> bytes \<Rightarrow> peer_id_check_mode \<Rightarrow> identity_check" where
  "check_peer_id_user_agent l p user_agent mode =
     (if check_off mode \<or> is_peer_id_allowlisted l p then IdentityOk
      else
        (case (peer_id_family p, user_agent_family user_agent) of
           (Some pf, Some uf) \<Rightarrow>
             if pf = uf then IdentityOk else report_identity_issue (UserAgentMismatch pf uf) mode
         | _ \<Rightarrow> IdentityOk))"

subsection \<open>What a loaded list bans\<close>

text \<open>\<open>s\<close> begins with the entry up to the case of ASCII letters.\<close>

definition has_prefix :: "bytes \<Rightarrow> bytes \<Rightarrow> bool" where
  "has_prefix s entry = eq_ignore_case (take (length entry) s) entry"

lemma starts_with_lower: "starts_with (map to_lower s) (map to_lower p) = has_prefix s p"
  by (simp add: starts_with_def has_prefix_def eq_ignore_case_def take_map)

lemma to_lower_idem: "to_lower (to_lower c) = to_lower c"
  by (auto simp: to_lower_def ascii_upper_def word_le_nat_alt unat_word_ariths)

lemma has_prefix_lower: "has_prefix s (map to_lower p) = has_prefix s p"
  by (simp add: has_prefix_def eq_ignore_case_def to_lower_idem comp_def)

lemma ascii_step: "c < 0x80 \<Longrightarrow> utf8_step (c # s) = (1, True)"
  by (simp add: utf8_step_def)

lemma valid_tail: "valid_utf8 (c # s) \<Longrightarrow> c < 0x80 \<Longrightarrow> valid_utf8 s"
  using valid_utf8.simps [of "c # s"] by (simp add: ascii_step)

lemma valid_hd: "valid_utf8 (c # s) \<Longrightarrow> \<not> cont_byte c"
proof
  assume v: "valid_utf8 (c # s)" and "cont_byte c"
  then have "0x80 \<le> c" "c \<le> 0xBF" by (simp_all add: cont_byte_def)
  then have "utf8_step (c # s) = (1, False)"
    by (auto simp: utf8_step_def in_range_def word_le_nat_alt word_less_nat_alt)
  then show False using v valid_utf8.simps [of "c # s"] by simp
qed

lemma boundary_after_ascii:
  assumes "valid_utf8 s" and "list_all (\<lambda>c. c < 0x80) (take n s)" and "n < length s"
  shows "\<not> cont_byte (s ! n)"
  using assms
proof (induction n arbitrary: s)
  case 0
  then show ?case using valid_hd by (cases s) auto
next
  case (Suc n)
  then show ?case using valid_tail by (cases s) auto
qed

lemma lower_ascii: "to_lower c < 0x80 \<longleftrightarrow> c < 0x80"
proof (cases "ascii_upper c")
  case True
  then have "65 \<le> unat c \<and> unat c \<le> 90" by (simp add: ascii_upper_def word_le_nat_alt)
  then have "unat (c + 32) = unat c + 32" by (simp add: unat_word_ariths)
  then show ?thesis
    using True \<open>65 \<le> unat c \<and> unat c \<le> 90\<close> by (simp add: to_lower_def word_less_nat_alt)
next
  case False
  then show ?thesis by (simp add: to_lower_def)
qed

lemma has_ascii_prefix:
  assumes "has_prefix s p" and "list_all (\<lambda>c. c < 0x80) p"
  shows "list_all (\<lambda>c. c < 0x80) (take (length p) s)"
proof -
  have "map to_lower (take (length p) s) = map to_lower p"
    using assms(1) by (simp add: has_prefix_def eq_ignore_case_def)
  moreover have "list_all (\<lambda>c. c < 0x80) xs = list_all (\<lambda>c. c < 0x80) (map to_lower xs)" for xs :: bytes
    by (simp add: list_all_iff lower_ascii)
  ultimately show ?thesis using assms(2) by metis
qed

text \<open>On text, the character boundary never hides a prefix.\<close>

lemma prefix_found:
  assumes "valid_utf8 s" and "list_all (\<lambda>c. c < 0x80) p"
  shows "(case str_prefix s (length p) of None \<Rightarrow> False | Some start \<Rightarrow> eq_ignore_case start p) = has_prefix s p"
proof (cases "length p < length s \<and> cont_byte (s ! length p)")
  case True
  then have "\<not> has_prefix s p"
    using boundary_after_ascii [OF assms(1), of "length p"] has_ascii_prefix [OF _ assms(2)] by blast
  then show ?thesis using True by (simp add: str_prefix_def)
next
  case False
  have "has_prefix s p \<Longrightarrow> length p \<le> length s"
    using eq_ignore_case_length [of "take (length p) s" p] by (simp add: has_prefix_def)
  then show ?thesis
    using False by (auto simp: str_prefix_def has_prefix_def not_less)
qed

lemma vampire_ascii: "list_all (list_all (\<lambda>c. c < 0x80)) VAMPIRE_PREFIXES"
  by (simp add: VAMPIRE_PREFIXES_def str_def)

lemma is_vampire_spec:
  assumes "valid_utf8 s"
  shows "is_vampire_client s = list_ex (has_prefix s) VAMPIRE_PREFIXES"
proof -
  have "p \<in> set VAMPIRE_PREFIXES \<Longrightarrow> list_all (\<lambda>c. c < 0x80) p" for p
    using vampire_ascii by (simp add: list_all_iff)
  then show ?thesis
    unfolding is_vampire_client_def list_ex_iff using prefix_found [OF assms] by blast
qed

lemma has_prefix_bound: "has_prefix s e \<Longrightarrow> length e \<le> length s"
  using eq_ignore_case_length [of "take (length e) s" e] by (simp add: has_prefix_def)

text \<open>C23. A client ban list built from readable files bans exactly the peer ids that begin, in any
  case, with an entry of the ban list or, unless the operator opts out, with the prefix of a known
  leech-only client; and it exempts from the identity checks exactly the peer ids that begin with an
  entry of the allowlist.\<close>

theorem client_list_matches:
  assumes "valid_utf8 peer_id"
  shows "\<exists>l. client_ban_create (Some (Inr bans)) vampires (Some (Inr allowed)) = Inr l \<and>
    (client_is_banned l peer_id \<longleftrightarrow>
       vampires \<and> list_ex (has_prefix peer_id) VAMPIRE_PREFIXES \<or>
       list_ex (\<lambda>e. has_prefix peer_id (snd e)) (list_entries bans)) \<and>
    (\<forall>p. is_peer_id_allowlisted l p \<longleftrightarrow>
       list_ex (\<lambda>e. has_prefix (word_be 20 p) (snd e)) (list_entries allowed))"
proof -
  define l where "l = \<lparr>cl_banned_patterns = set (map (\<lambda>e. map to_lower (snd e)) (list_entries bans)),
    cl_allowed_prefixes = set (map (\<lambda>e. map to_lower (snd e))
      (filter (\<lambda>e. length (snd e) \<le> 20) (list_entries allowed))),
    cl_ban_vampire_clients = vampires\<rparr>"
  have "client_ban_create (Some (Inr bans)) vampires (Some (Inr allowed)) = Inr l"
    by (simp add: client_ban_create_def load_patterns_def load_allowlist_def read_list_file_def l_def)
  moreover have "client_is_banned l peer_id \<longleftrightarrow>
       vampires \<and> list_ex (has_prefix peer_id) VAMPIRE_PREFIXES \<or>
       list_ex (\<lambda>e. has_prefix peer_id (snd e)) (list_entries bans)"
    by (auto simp: client_is_banned_def l_def Let_def starts_with_lower list_ex_iff
        is_vampire_spec [OF assms])
  moreover have "is_peer_id_allowlisted l p \<longleftrightarrow>
       list_ex (\<lambda>e. has_prefix (word_be 20 p) (snd e)) (list_entries allowed)" for p
  proof -
    have "is_peer_id_allowlisted l p \<longleftrightarrow>
        (\<exists>e \<in> set (list_entries allowed). length (snd e) \<le> 20 \<and> has_prefix (word_be 20 p) (map to_lower (snd e)))"
      by (force simp: is_peer_id_allowlisted_def l_def has_prefix_def)
    then show ?thesis
      using has_prefix_bound [of "word_be 20 p"] unfolding has_prefix_lower list_ex_iff by fastforce
  qed
  ultimately show ?thesis by blast
qed

lemma ascii_valid: "list_all (\<lambda>c. c < 0x80) s \<Longrightarrow> valid_utf8 s"
proof (induction s)
  case Nil
  then show ?case by (simp add: valid_utf8.simps)
next
  case (Cons c s)
  then show ?case using valid_utf8.simps [of "c # s"] by (simp add: ascii_step)
qed

lemma client_list_matches_witness:
  "\<exists>l. client_ban_create (Some (Inr [])) True (Some (Inr [])) = Inr l \<and>
     client_is_banned l (str ''-XL0012-abcdefghijkl'')"
proof -
  have "valid_utf8 (str ''-XL0012-abcdefghijkl'')"
    by (rule ascii_valid) (simp add: str_def)
  moreover have "list_ex (has_prefix (str ''-XL0012-abcdefghijkl'')) VAMPIRE_PREFIXES"
    by (simp add: VAMPIRE_PREFIXES_def has_prefix_def str_def eq_ignore_case_def to_lower_def ascii_upper_def)
  ultimately show ?thesis
    using client_list_matches [of "str ''-XL0012-abcdefghijkl''" "[]" True "[]"] by blast
qed

subsection \<open>The identity checks\<close>

lemma first_eight:
  assumes "8 \<le> length bs"
  shows "\<exists>c0 c1 c2 c3 c4 c5 c6 c7 rest. bs = [c0, c1, c2, c3, c4, c5, c6, c7] @ rest"
  using assms by (simp add: eval_nat_numeral Suc_le_length_iff) blast

lemma azureus_layout:
  "is_azureus_style p \<longleftrightarrow>
   (\<exists>a b version rest. word_be 20 p = [45, a, b] @ version @ [45] @ rest \<and>
      ascii_alphabetic a \<and> ascii_alphabetic b \<and> length version = 4 \<and> list_all ascii_alphanumeric version)"
    (is "_ \<longleftrightarrow> ?layout")
proof -
  obtain c0 c1 c2 c3 c4 c5 c6 c7 rest where
    c: "word_be 20 p = [c0, c1, c2, c3, c4, c5, c6, c7] @ rest"
    using first_eight [of "word_be 20 p"] by auto
  have s: "sub (word_be 20 p) 3 4 = [c3, c4, c5, c6]" by (simp add: sub_def c)
  have l: "is_azureus_style p \<longleftrightarrow> c0 = 45 \<and> ascii_alphabetic c1 \<and> ascii_alphabetic c2 \<and>
      list_all ascii_alphanumeric [c3, c4, c5, c6] \<and> c7 = 45"
    unfolding is_azureus_style_def pid_byte_def s by (simp add: c)
  have "?layout \<longleftrightarrow> c0 = 45 \<and> ascii_alphabetic c1 \<and> ascii_alphabetic c2 \<and>
      list_all ascii_alphanumeric [c3, c4, c5, c6] \<and> c7 = 45"
  proof
    assume ?layout
    then obtain a b version rest' where
      v: "[c0, c1, c2] @ [c3, c4, c5, c6] @ c7 # rest = [45, a, b] @ version @ 45 # rest'"
         "ascii_alphabetic a" "ascii_alphabetic b" "length version = 4" "list_all ascii_alphanumeric version"
      unfolding c by auto
    then have "[c3, c4, c5, c6] = version \<and> c7 # rest = 45 # rest'"
      by (intro append_eq_append_conv [THEN iffD1]) simp_all
    then show "c0 = 45 \<and> ascii_alphabetic c1 \<and> ascii_alphabetic c2 \<and>
      list_all ascii_alphanumeric [c3, c4, c5, c6] \<and> c7 = 45" using v by auto
  next
    assume "c0 = 45 \<and> ascii_alphabetic c1 \<and> ascii_alphabetic c2 \<and>
      list_all ascii_alphanumeric [c3, c4, c5, c6] \<and> c7 = 45"
    then show ?layout
      unfolding c by (intro exI [of _ c1] exI [of _ c2] exI [of _ "[c3, c4, c5, c6]"] exI [of _ rest]) simp
  qed
  then show ?thesis using l by blast
qed

lemma mainline_layout:
  "is_mainline_style p \<longleftrightarrow>
   (\<exists>a digits rest. word_be 20 p = [a] @ digits @ [45] @ rest \<and> ascii_alphabetic a \<and>
      length digits = 6 \<and> list_all (\<lambda>b. ascii_digit b \<or> b = 45) digits)" (is "_ \<longleftrightarrow> ?layout")
proof -
  obtain c0 c1 c2 c3 c4 c5 c6 c7 rest where
    c: "word_be 20 p = [c0, c1, c2, c3, c4, c5, c6, c7] @ rest"
    using first_eight [of "word_be 20 p"] by auto
  have s: "sub (word_be 20 p) 1 6 = [c1, c2, c3, c4, c5, c6]" by (simp add: sub_def c)
  have l: "is_mainline_style p \<longleftrightarrow> ascii_alphabetic c0 \<and>
      list_all (\<lambda>b. ascii_digit b \<or> b = 45) [c1, c2, c3, c4, c5, c6] \<and> c7 = 45"
    unfolding is_mainline_style_def pid_byte_def s by (simp add: c)
  have "?layout \<longleftrightarrow> ascii_alphabetic c0 \<and>
      list_all (\<lambda>b. ascii_digit b \<or> b = 45) [c1, c2, c3, c4, c5, c6] \<and> c7 = 45"
  proof
    assume ?layout
    then obtain a digits rest' where
      v: "[c0] @ [c1, c2, c3, c4, c5, c6] @ c7 # rest = [a] @ digits @ 45 # rest'"
         "ascii_alphabetic a" "length digits = 6" "list_all (\<lambda>b. ascii_digit b \<or> b = 45) digits"
      unfolding c by auto
    then have "[c1, c2, c3, c4, c5, c6] = digits \<and> c7 # rest = 45 # rest'"
      by (intro append_eq_append_conv [THEN iffD1]) simp_all
    then show "ascii_alphabetic c0 \<and>
      list_all (\<lambda>b. ascii_digit b \<or> b = 45) [c1, c2, c3, c4, c5, c6] \<and> c7 = 45" using v by auto
  next
    assume "ascii_alphabetic c0 \<and>
      list_all (\<lambda>b. ascii_digit b \<or> b = 45) [c1, c2, c3, c4, c5, c6] \<and> c7 = 45"
    then show ?layout
      unfolding c by (intro exI [of _ c0] exI [of _ "[c1, c2, c3, c4, c5, c6]"] exI [of _ rest]) simp
  qed
  then show ?thesis using l by blast
qed

text \<open>What the identity checks answer. A peer id passes the format check exactly when the check is
  off, the allowlist exempts it, or it has the Azureus layout with a version its client family can
  have or the Mainline layout; it passes the User-Agent check exactly when that is off, it is exempt,
  or it and the User-Agent do not name two different families. A check that does not pass only warns
  unless it is enforced, and then it rejects.\<close>

theorem identity_checks:
  "check_peer_id_format l p mode =
     (if mode = CheckOff \<or> is_peer_id_allowlisted l p \<or>
         (\<exists>a b version rest. word_be 20 p = [45, a, b] @ version @ [45] @ rest \<and>
            ascii_alphabetic a \<and> ascii_alphabetic b \<and> length version = 4 \<and>
            list_all ascii_alphanumeric version \<and> implausible_version p = None) \<or>
         (\<exists>a digits rest. word_be 20 p = [a] @ digits @ [45] @ rest \<and> ascii_alphabetic a \<and>
            length digits = 6 \<and> list_all (\<lambda>b. ascii_digit b \<or> b = 45) digits)
      then IdentityOk else if mode = CheckEnforce then IdentityRejected else IdentityWarned) \<and>
   check_peer_id_user_agent l p ua mode =
     (if mode = CheckOff \<or> is_peer_id_allowlisted l p \<or> peer_id_family p = None \<or>
         user_agent_family ua = None \<or> peer_id_family p = user_agent_family ua
      then IdentityOk else if mode = CheckEnforce then IdentityRejected else IdentityWarned)"
proof -
  have m: "check_off mode \<longleftrightarrow> mode = CheckOff" "check_enforce mode \<longleftrightarrow> mode = CheckEnforce"
    by (cases mode; simp)+
  have "\<not> (is_azureus_style p \<and> is_mainline_style p)"
    by (auto simp: is_azureus_style_def is_mainline_style_def ascii_defs)
  then have "check_peer_id_format l p mode =
      (if mode = CheckOff \<or> is_peer_id_allowlisted l p \<or>
          is_azureus_style p \<and> implausible_version p = None \<or> is_mainline_style p
       then IdentityOk else if mode = CheckEnforce then IdentityRejected else IdentityWarned)"
    by (auto simp: check_peer_id_format_def m classify_peer_id_def report_identity_issue_def
        split: option.splits)
  moreover have "check_peer_id_user_agent l p ua mode =
     (if mode = CheckOff \<or> is_peer_id_allowlisted l p \<or> peer_id_family p = None \<or>
         user_agent_family ua = None \<or> peer_id_family p = user_agent_family ua
      then IdentityOk else if mode = CheckEnforce then IdentityRejected else IdentityWarned)"
    by (auto simp: check_peer_id_user_agent_def report_identity_issue_def m split: option.splits)
  moreover have "(\<exists>a b version rest. word_be 20 p = [45, a, b] @ version @ [45] @ rest \<and>
        ascii_alphabetic a \<and> ascii_alphabetic b \<and> length version = 4 \<and>
        list_all ascii_alphanumeric version \<and> implausible_version p = None) \<longleftrightarrow>
      is_azureus_style p \<and> implausible_version p = None"
    unfolding azureus_layout by blast
  ultimately show ?thesis unfolding mainline_layout [symmetric] by presburger
qed

end
