(* ===== verification/Connection_Validator.thy ===== *)
theory Connection_Validator
  imports Common_Lib Udp_Protocol
begin

text \<open>
  \<open>crates/udp/src/workers/socket/validator.rs\<close>: connection ids made of the time of their creation and
  a keyed hash of that time and the client's address. The keyed hash (the first four bytes of
  BLAKE3's output for the bytes fed to it) is the argument \<open>mac\<close>; nothing is assumed of it. Native byte
  order is little endian, as on the supported platforms.
\<close>

type_synonym keyed_hash = "bytes \<Rightarrow> u32"

record connection_validator =
  cv_max_connection_age :: u32
  cv_seconds_since_start :: u32

definition validator_new :: "u32 \<Rightarrow> connection_validator" where
  "validator_new max_connection_age =
     \<lparr>cv_max_connection_age = max_connection_age, cv_seconds_since_start = 0\<rparr>"

definition to_ne_bytes :: "nat \<Rightarrow> 'a::len word \<Rightarrow> bytes" where
  "to_ne_bytes n w = rev (word_be n w)"

definition from_ne_bytes :: "bytes \<Rightarrow> 'a::len word" where
  "from_ne_bytes bs = be_word (rev bs)"

definition validator_hash :: "keyed_hash \<Rightarrow> bytes \<Rightarrow> ip_addr \<Rightarrow> bytes" where
  "validator_hash mac elapsed ip = word_be 4 (mac (elapsed @ octets ip))"

definition create_connection_id ::
  "keyed_hash \<Rightarrow> connection_validator \<Rightarrow> canonical_socket_addr \<Rightarrow> connection_id" where
  "create_connection_id mac v src =
     (let elapsed = to_ne_bytes 4 (cv_seconds_since_start v);
          hash = validator_hash mac elapsed (socket_ip (get_addr src))
      in from_ne_bytes (elapsed @ hash))"

definition connection_id_valid ::
  "keyed_hash \<Rightarrow> connection_validator \<Rightarrow> canonical_socket_addr \<Rightarrow> connection_id \<Rightarrow> bool" where
  "connection_id_valid mac v src cid =
     (let bs = to_ne_bytes 8 cid;
          elapsed = take 4 bs;
          hash = drop 4 bs
      in if hash \<noteq> validator_hash mac elapsed (socket_ip (get_addr src)) then False
         else
           let seconds_since_start = unat (cv_seconds_since_start v);
               client_elapsed = unat (from_ne_bytes elapsed :: u32);
               client_expiration_time = client_elapsed + unat (cv_max_connection_age v);
               client_not_expired = seconds_since_start < client_expiration_time;
               client_elapsed_not_in_far_future = client_elapsed \<le> seconds_since_start + 60
           in client_not_expired \<and> client_elapsed_not_in_far_future)"

text \<open>The seconds that passed since the start are cut to 32 bits.\<close>

definition update_elapsed :: "nat \<Rightarrow> connection_validator \<Rightarrow> connection_validator" where
  "update_elapsed elapsed_secs v = v\<lparr>cv_seconds_since_start := word_of_nat elapsed_secs\<rparr>"

subsection \<open>Ids and their parts\<close>

lemma ne_bytes_inverse [simp]: "length bs = 8 \<Longrightarrow> to_ne_bytes 8 (from_ne_bytes bs :: u64) = bs"
  by (simp add: to_ne_bytes_def from_ne_bytes_def word_be_be_word)

lemma ne_bytes_inverse32 [simp]: "length bs = 4 \<Longrightarrow> to_ne_bytes 4 (from_ne_bytes bs :: u32) = bs"
  by (simp add: to_ne_bytes_def from_ne_bytes_def word_be_be_word)

lemma ne_word_inverse [simp]: "from_ne_bytes (to_ne_bytes 8 (w :: u64)) = w"
  by (simp add: to_ne_bytes_def from_ne_bytes_def)

lemma ne_word_inverse32 [simp]: "from_ne_bytes (to_ne_bytes 4 (w :: u32)) = w"
  by (simp add: to_ne_bytes_def from_ne_bytes_def)

lemma length_ne_bytes [simp]: "length (to_ne_bytes n w) = n"
  by (simp add: to_ne_bytes_def)

lemma length_validator_hash [simp]: "length (validator_hash mac e ip) = 4"
  by (simp add: validator_hash_def)

text \<open>The id issued at second \<open>t\<close>, and the seconds at which an id of second \<open>t\<close> is honoured.\<close>

definition issued_at :: "keyed_hash \<Rightarrow> u32 \<Rightarrow> canonical_socket_addr \<Rightarrow> connection_id" where
  "issued_at mac t src =
     create_connection_id mac \<lparr>cv_max_connection_age = 0, cv_seconds_since_start = t\<rparr> src"

definition in_lifetime :: "connection_validator \<Rightarrow> u32 \<Rightarrow> bool" where
  "in_lifetime v t =
     (unat (cv_seconds_since_start v) < unat t + unat (cv_max_connection_age v) \<and>
      unat t \<le> unat (cv_seconds_since_start v) + 60)"

lemma create_is_issued: "create_connection_id mac v src = issued_at mac (cv_seconds_since_start v) src"
  by (simp add: issued_at_def create_connection_id_def)

lemma issued_bytes:
  "to_ne_bytes 8 (issued_at mac t src) =
   to_ne_bytes 4 t @ validator_hash mac (to_ne_bytes 4 t) (socket_ip (get_addr src))"
  by (simp add: issued_at_def create_connection_id_def Let_def)

lemma valid_iff_issued:
  "connection_id_valid mac v src cid \<longleftrightarrow> (\<exists>t. cid = issued_at mac t src \<and> in_lifetime v t)"
proof
  assume val: "connection_id_valid mac v src cid"
  define t :: u32 where "t = from_ne_bytes (take 4 (to_ne_bytes 8 cid))"
  have t: "to_ne_bytes 4 t = take 4 (to_ne_bytes 8 cid)" by (simp add: t_def)
  have "drop 4 (to_ne_bytes 8 cid) =
      validator_hash mac (take 4 (to_ne_bytes 8 cid)) (socket_ip (get_addr src))"
    using val by (simp add: connection_id_valid_def Let_def split: if_splits)
  then have "to_ne_bytes 8 cid = to_ne_bytes 8 (issued_at mac t src)"
    unfolding issued_bytes t by (metis append_take_drop_id)
  then have "cid = issued_at mac t src" by (metis ne_word_inverse)
  moreover have "in_lifetime v t"
    using val by (auto simp: connection_id_valid_def in_lifetime_def t_def Let_def split: if_splits)
  ultimately show "\<exists>t. cid = issued_at mac t src \<and> in_lifetime v t" by blast
next
  assume "\<exists>t. cid = issued_at mac t src \<and> in_lifetime v t"
  then obtain t where "cid = issued_at mac t src" "in_lifetime v t" by blast
  then show "connection_id_valid mac v src cid"
    by (simp add: connection_id_valid_def issued_bytes in_lifetime_def Let_def)
qed

text \<open>A connection id is accepted from an address exactly when it is the id the tracker issues to
  that address's IP at some second whose ids have not expired and which is at most a minute ahead.
  So nothing but issued ids is accepted, and an id is honoured from its second on until the maximum
  age has passed.\<close>

theorem accepted_ids_are_issued:
  "connection_id_valid mac v src cid \<longleftrightarrow> (\<exists>t. cid = issued_at mac t src \<and> in_lifetime v t)"
  by (rule valid_iff_issued)

lemma issued_only_ip: "socket_ip (get_addr a) = socket_ip (get_addr b) \<Longrightarrow> issued_at mac t a = issued_at mac t b"
  by (simp add: issued_at_def create_connection_id_def)

lemma issued_inj: "issued_at mac t a = issued_at mac u b \<Longrightarrow> t = u \<and>
    validator_hash mac (to_ne_bytes 4 t) (socket_ip (get_addr a)) =
    validator_hash mac (to_ne_bytes 4 t) (socket_ip (get_addr b))"
proof -
  assume "issued_at mac t a = issued_at mac u b"
  then have "to_ne_bytes 8 (issued_at mac t a) = to_ne_bytes 8 (issued_at mac u b)" by simp
  then have "to_ne_bytes 4 t = to_ne_bytes 4 u \<and>
      validator_hash mac (to_ne_bytes 4 t) (socket_ip (get_addr a)) =
      validator_hash mac (to_ne_bytes 4 u) (socket_ip (get_addr b))"
    unfolding issued_bytes by auto
  moreover from this have "t = u" by (metis ne_word_inverse32)
  ultimately show ?thesis by blast
qed

text \<open>A connection id binds the client's address. An id issued to one address at a second is
  accepted from an address exactly within the lifetime of that second and where the keyed hashes of
  the two addresses agree at that second: always for the same IP, whatever the ports, and otherwise
  only on a collision of the 32-bit hash.\<close>

theorem ids_bind_the_address:
  "connection_id_valid mac v b (issued_at mac t a) \<longleftrightarrow>
     in_lifetime v t \<and>
     mac (to_ne_bytes 4 t @ octets (socket_ip (get_addr a))) =
     mac (to_ne_bytes 4 t @ octets (socket_ip (get_addr b)))"
proof -
  have "word_be 4 x = word_be 4 y \<longleftrightarrow> x = y" for x y :: u32
    by (metis ne_word_inverse32 to_ne_bytes_def)
  note inj = this
  show ?thesis
    by (auto simp: connection_id_valid_def issued_bytes in_lifetime_def validator_hash_def Let_def inj)
qed

end
