(* ===== verification/Udp_Worker.thy ===== *)
theory Udp_Worker
  imports Udp_Swarm Auto_Ban Request_Filter Client_Ban Connection_Validator
begin

text \<open>
  \<open>crates/udp/src/workers/socket/mio/mod.rs\<close> and \<open>mio/socket.rs\<close>: a socket worker of the UDP tracker,
  from a received datagram to the datagrams sent. The sockets are inputs and outputs: what
  \<open>recv_from\<close> yields and whether a \<open>send_to\<close> succeeds are given with each event, and the datagrams
  handed to the operating system are collected in \<open>so_sent\<close>. The shared state is the worker's: workers
  run their requests one at a time. \<open>None\<close> is a panic. Log lines and metrics are not modelled.
\<close>

subsection \<open>Statistics\<close>

record socket_worker_statistics =
  sk_requests :: u64
  sk_responses_connect :: u64
  sk_responses_announce :: u64
  sk_responses_scrape :: u64
  sk_responses_error :: u64
  sk_bytes_received :: u64
  sk_bytes_sent :: u64

record 'a ip_version_statistics =
  stats_ipv4 :: 'a
  stats_ipv6 :: 'a

datatype ip_version = IpV4 | IpV6

fun by_ip_version :: "ip_version \<Rightarrow> 'a ip_version_statistics \<Rightarrow> 'a" where
  "by_ip_version IpV4 s = stats_ipv4 s"
| "by_ip_version IpV6 s = stats_ipv6 s"

definition EXTRA_PACKET_SIZE_IPV4 :: nat where
  "EXTRA_PACKET_SIZE_IPV4 = 8 + 18 + 20 + 8"

definition EXTRA_PACKET_SIZE_IPV6 :: nat where
  "EXTRA_PACKET_SIZE_IPV6 = 8 + 18 + 40 + 8"

definition BUFFER_SIZE :: nat where
  "BUFFER_SIZE = 8192"

text \<open>The counters of the family of an address, updated by a function.\<close>

definition count_for ::
  "canonical_socket_addr \<Rightarrow> ('a \<Rightarrow> 'a) \<Rightarrow> 'a ip_version_statistics \<Rightarrow> 'a ip_version_statistics" where
  "count_for src f s =
     (if is_ipv4 src then s\<lparr>stats_ipv4 := f (stats_ipv4 s)\<rparr> else s\<lparr>stats_ipv6 := f (stats_ipv6 s)\<rparr>)"

definition extra_packet_size :: "canonical_socket_addr \<Rightarrow> nat" where
  "extra_packet_size src = (if is_ipv4 src then EXTRA_PACKET_SIZE_IPV4 else EXTRA_PACKET_SIZE_IPV6)"

subsection \<open>The worker\<close>

text \<open>The settings the worker reads, and the third-party code it calls.\<close>

record udp_worker_config =
  wc_swarm :: udp_config
  wc_ip_ban_mode :: ip_ban_mode
  wc_request_filter :: request_filter_config
  wc_client_ban :: client_ban_config
  wc_resend_buffer_max_len :: nat
  wc_max_peer_age :: u32

record 'r udp_crates =
  xc_map4 :: "ipv4_addr_bytes peer_map_ops"
  xc_map6 :: "ipv6_addr_bytes peer_map_ops"
  xc_gen :: "'r gen_range"
  xc_mac :: keyed_hash
  xc_show_ip :: "ip_addr \<Rightarrow> bytes"

record ('r, 'h) udp_worker =
  wk_access_list :: access_list
  wk_ip_ban_list :: ip_ban_list
  wk_client_ban_list :: client_ban_list
  wk_tracker :: "auto_ban_tracker option"
  wk_files :: file_system
  wk_torrent_maps :: torrent_maps
  wk_request_filter :: request_filter
  wk_validator :: connection_validator
  wk_rng :: 'r
  wk_peer_valid_until :: valid_until
  wk_statistics :: "socket_worker_statistics ip_version_statistics"
  wk_messages :: "'h statistics_message list"

text \<open>The clock and the file system as one request meets them.\<close>

record request_env =
  re_now :: instant
  re_violation_now :: instant
  re_env :: environment

definition is_list_banned ::
  "udp_worker_config \<Rightarrow> request_env \<Rightarrow> canonical_socket_addr \<Rightarrow> ('r, 'h) udp_worker \<Rightarrow> bool" where
  "is_list_banned cf re src wk =
     (let peer_ip = socket_ip (get_addr src) in
      if ip_ban_on (wc_ip_ban_mode cf) \<and> is_banned (wk_ip_ban_list wk) peer_ip then True
      else
        (case wk_tracker wk of
           Some t \<Rightarrow> is_auto_banned (at_inner t) peer_ip (re_now re)
         | None \<Rightarrow> False))"

definition is_private_ip_blocked ::
  "udp_worker_config \<Rightarrow> canonical_socket_addr \<Rightarrow> ('r, 'h) udp_worker \<Rightarrow> bool" where
  "is_private_ip_blocked cf src wk =
     (filter_private_ips (wc_request_filter cf) \<and>
      \<not> is_ip_allowed (wk_request_filter wk) (socket_ip (get_addr src)))"

definition record_worker_violation ::
  "'r udp_crates \<Rightarrow> request_env \<Rightarrow> ip_addr \<Rightarrow> auto_ban_reason \<Rightarrow> ('r, 'h) udp_worker \<Rightarrow>
   ('r, 'h) udp_worker" where
  "record_worker_violation xc re ip reason wk =
     (case wk_tracker wk of
        Some t \<Rightarrow>
          (let (t', fs', _) = record_violation (xc_show_ip xc) (re_violation_now re) (re_env re) ip reason
                 t (wk_files wk)
           in wk\<lparr>wk_tracker := Some t', wk_files := fs'\<rparr>)
      | None \<Rightarrow> wk)"

definition run_security_checks ::
  "udp_worker_config \<Rightarrow> 'r udp_crates \<Rightarrow> request_env \<Rightarrow> canonical_socket_addr \<Rightarrow> peer_id option \<Rightarrow>
   ('r, 'h) udp_worker \<Rightarrow> bool \<times> ('r, 'h) udp_worker" where
  "run_security_checks cf xc re src peer_id_opt wk =
     (let peer_ip = socket_ip (get_addr src) in
      if is_private_ip_blocked cf src wk then (True, record_worker_violation xc re peer_ip PrivateIp wk)
      else
        let check_client_ban = client_ban_on (cb_mode (wc_client_ban cf));
            strictness = cb_peer_id_strictness (wc_client_ban cf);
            check_peer_id = (\<not> check_off strictness)
        in if \<not> check_client_ban \<and> \<not> check_peer_id then (False, wk)
           else
             (case peer_id_opt of
                None \<Rightarrow> (False, wk)
              | Some peer_id \<Rightarrow>
                  if check_client_ban \<and>
                     client_is_banned (wk_client_ban_list wk) (from_utf8_lossy (word_be 20 peer_id))
                  then (True, record_worker_violation xc re peer_ip ClientBanned wk)
                  else if check_peer_id \<and>
                     check_peer_id_format (wk_client_ban_list wk) peer_id strictness = IdentityRejected
                  then (True, record_worker_violation xc re peer_ip NonStandardPeerId wk)
                  else (False, wk)))"

definition handle_announce ::
  "udp_worker_config \<Rightarrow> 'r udp_crates \<Rightarrow> announce_request \<Rightarrow> canonical_socket_addr \<Rightarrow>
   ('r, 'h) udp_worker \<Rightarrow> (response option \<times> ('r, 'h) udp_worker) option" where
  "handle_announce cf xc request src wk =
     (if allows (uc_access_list_mode (wc_swarm cf)) (wk_access_list wk) (ar_info_hash request) then
        map_option (\<lambda>(response, maps', ms, r').
            (Some response,
             wk\<lparr>wk_torrent_maps := maps', wk_messages := wk_messages wk @ ms, wk_rng := r'\<rparr>))
          (maps_announce (xc_map4 xc) (xc_map6 xc) (xc_gen xc) (wc_swarm cf) request src
            (wk_peer_valid_until wk) (wk_rng wk) (wk_torrent_maps wk))
      else
        Some (Some (ResError \<lparr>er_transaction_id = ar_transaction_id request,
                er_message = str ''Info hash not allowed''\<rparr>), wk))"

definition handle_request ::
  "udp_worker_config \<Rightarrow> 'r udp_crates \<Rightarrow> request_env \<Rightarrow> request \<Rightarrow> canonical_socket_addr \<Rightarrow>
   ('r, 'h) udp_worker \<Rightarrow> (response option \<times> ('r, 'h) udp_worker) option" where
  "handle_request cf xc re req src wk =
     (if is_list_banned cf re src wk then Some (None, wk)
      else
        (case req of
           ReqConnect request \<Rightarrow>
             if is_private_ip_blocked cf src wk then Some (None, wk)
             else Some (Some (ResConnect \<lparr>cs_transaction_id = cr_transaction_id request,
                     cs_connection_id = create_connection_id (xc_mac xc) (wk_validator wk) src\<rparr>), wk)
         | ReqAnnounce request \<Rightarrow>
             if \<not> connection_id_valid (xc_mac xc) (wk_validator wk) src (ar_connection_id request)
             then Some (None, wk)
             else
               (let (blocked, wk1) = run_security_checks cf xc re src (Some (ar_peer_id request)) wk
                in if blocked then Some (None, wk1) else handle_announce cf xc request src wk1)
         | ReqScrape request \<Rightarrow>
             if \<not> connection_id_valid (xc_mac xc) (wk_validator wk) src (sr_connection_id request)
             then Some (None, wk)
             else
               (let (blocked, wk1) = run_security_checks cf xc re src None wk
                in if blocked then Some (None, wk1)
                   else
                     let filtered_request = filter_info_hashes
                           (allows (uc_access_list_mode (wc_swarm cf)) (wk_access_list wk1)) request
                     in Some (Some (ResScrape (maps_scrape filtered_request src (wk_torrent_maps wk1))),
                          wk1))))"

subsection \<open>The socket\<close>

text \<open>
  What the operating system makes of a datagram handed to it: the bytes sent, a full buffer
  (\<open>ENOBUFS\<close> or \<open>WouldBlock\<close>, after which the response is worth another attempt), or another error.
\<close>

datatype send_outcome = SendOk nat | SendRetry | SendFailed

record udp_socket =
  so_is_v4 :: bool
  so_resend_buffer :: "(canonical_socket_addr \<times> response) list option"
  so_sent :: "(socket_addr \<times> bytes) list"

definition socket_create :: "udp_worker_config \<Rightarrow> bool \<Rightarrow> udp_socket" where
  "socket_create cf v4 =
     \<lparr>so_is_v4 = v4,
      so_resend_buffer = (if 0 < wc_resend_buffer_max_len cf then Some [] else None),
      so_sent = []\<rparr>"

fun count_response :: "response \<Rightarrow> socket_worker_statistics \<Rightarrow> socket_worker_statistics" where
  "count_response (ResConnect _) s = s\<lparr>sk_responses_connect := sk_responses_connect s + 1\<rparr>"
| "count_response (ResAnnounceIpv4 _) s = s\<lparr>sk_responses_announce := sk_responses_announce s + 1\<rparr>"
| "count_response (ResAnnounceIpv6 _) s = s\<lparr>sk_responses_announce := sk_responses_announce s + 1\<rparr>"
| "count_response (ResScrape _) s = s\<lparr>sk_responses_scrape := sk_responses_scrape s + 1\<rparr>"
| "count_response (ResError _) s = s\<lparr>sk_responses_error := sk_responses_error s + 1\<rparr>"

definition count_sent ::
  "canonical_socket_addr \<Rightarrow> response \<Rightarrow> nat \<Rightarrow> ('r, 'h) udp_worker \<Rightarrow> ('r, 'h) udp_worker" where
  "count_sent addr response bytes_sent wk =
     wk\<lparr>wk_statistics := count_for addr (\<lambda>s. count_response response
          (s\<lparr>sk_bytes_sent := sk_bytes_sent s + of_nat (bytes_sent + extra_packet_size addr)\<rparr>))
        (wk_statistics wk)\<rparr>"

definition target_addr :: "udp_socket \<Rightarrow> canonical_socket_addr \<Rightarrow> socket_addr option" where
  "target_addr so addr = (if so_is_v4 so then get_ipv4 addr else Some (get_ipv6_mapped addr))"

definition push_resend ::
  "udp_worker_config \<Rightarrow> canonical_socket_addr \<Rightarrow> response \<Rightarrow> udp_socket \<Rightarrow> udp_socket" where
  "push_resend cf addr response so =
     (case so_resend_buffer so of
        Some resend_buffer \<Rightarrow>
          if length resend_buffer < wc_resend_buffer_max_len cf
          then so\<lparr>so_resend_buffer := Some (resend_buffer @ [(addr, response)])\<rparr> else so
      | None \<Rightarrow> so)"

definition send_response ::
  "udp_worker_config \<Rightarrow> canonical_socket_addr \<Rightarrow> response \<Rightarrow> bool \<Rightarrow> send_outcome \<Rightarrow>
   udp_socket \<times> ('r, 'h) udp_worker \<Rightarrow> (udp_socket \<times> ('r, 'h) udp_worker) option" where
  "send_response cf addr response disable_resend_buffer outcome st =
     (case st of (so, wk) \<Rightarrow>
        let bs = write_response response in
        if BUFFER_SIZE < length bs then Some (so, wk)
        else
          map_option (\<lambda>target.
              let so1 = so\<lparr>so_sent := so_sent so @ [(target, bs)]\<rparr> in
              case outcome of
                SendOk n \<Rightarrow>
                  (so1, if statistics_active (uc_statistics (wc_swarm cf))
                        then count_sent addr response n wk else wk)
              | SendRetry \<Rightarrow> (if disable_resend_buffer then so1 else push_resend cf addr response so1, wk)
              | SendFailed \<Rightarrow> (so1, wk))
            (target_addr so addr))"

text \<open>
  One datagram: its bytes are cut to the buffer. The last two branches of the code's match answer a
  malformed request only where it carries a valid connection id.
\<close>

definition handle_datagram ::
  "udp_worker_config \<Rightarrow> 'r udp_crates \<Rightarrow> request_env \<Rightarrow> send_outcome \<Rightarrow> bytes \<Rightarrow> socket_addr \<Rightarrow>
   udp_socket \<times> ('r, 'h) udp_worker \<Rightarrow> (udp_socket \<times> ('r, 'h) udp_worker) option" where
  "handle_datagram cf xc re outcome datagram source st =
     (case st of (so, wk) \<Rightarrow>
        let bs = take BUFFER_SIZE datagram;
            src = canonical_new source;
            active = statistics_active (uc_statistics (wc_swarm cf));
            wk1 = (if active then
                wk\<lparr>wk_statistics := count_for src (\<lambda>s. s\<lparr>sk_bytes_received :=
                    sk_bytes_received s + of_nat (length bs + extra_packet_size src)\<rparr>) (wk_statistics wk)\<rparr>
              else wk)
        in if socket_port source = 0 then Some (so, wk1)
           else
             (case parse_request bs (max_scrape_torrents (uc_protocol (wc_swarm cf))) of
                Inr request \<Rightarrow>
                  (let wk2 = (if active then
                         wk1\<lparr>wk_statistics := count_for src (\<lambda>s. s\<lparr>sk_requests := sk_requests s + 1\<rparr>)
                           (wk_statistics wk1)\<rparr> else wk1)
                   in Option.bind (handle_request cf xc re request src wk2) (\<lambda>(answer, wk3).
                        case answer of
                          Some response \<Rightarrow> send_response cf src response False outcome (so, wk3)
                        | None \<Rightarrow> Some (so, wk3)))
              | Inl (Sendable cid tid err) \<Rightarrow>
                  if connection_id_valid (xc_mac xc) (wk_validator wk1) src cid
                  then send_response cf src (ResError \<lparr>er_transaction_id = tid, er_message = err\<rparr>)
                         False outcome (so, wk1)
                  else Some (so, wk1)
              | Inl (Unsendable _) \<Rightarrow> Some (so, wk1)))"

text \<open>What \<open>recv_from\<close> yields before it would block.\<close>

datatype recv_event = Received bytes socket_addr request_env send_outcome | RecvError

fun read_and_handle_requests ::
  "udp_worker_config \<Rightarrow> 'r udp_crates \<Rightarrow> recv_event list \<Rightarrow> udp_socket \<times> ('r, 'h) udp_worker \<Rightarrow>
   (udp_socket \<times> ('r, 'h) udp_worker) option" where
  "read_and_handle_requests cf xc [] st = Some st"
| "read_and_handle_requests cf xc (Received datagram source re outcome # es) st =
     Option.bind (handle_datagram cf xc re outcome datagram source st)
       (read_and_handle_requests cf xc es)"
| "read_and_handle_requests cf xc (RecvError # es) st = read_and_handle_requests cf xc es st"

text \<open>The outcomes of the attempts are numbered.\<close>

fun resend_all ::
  "udp_worker_config \<Rightarrow> (nat \<Rightarrow> send_outcome) \<Rightarrow> (canonical_socket_addr \<times> response) list \<Rightarrow>
   udp_socket \<times> ('r, 'h) udp_worker \<Rightarrow> (udp_socket \<times> ('r, 'h) udp_worker) option" where
  "resend_all cf outcomes [] st = Some st"
| "resend_all cf outcomes ((addr, response) # rs) st =
     Option.bind (send_response cf addr response True (outcomes 0) st)
       (resend_all cf (\<lambda>i. outcomes (Suc i)) rs)"

text \<open>The buffer is swapped with an empty one, drained, and the drained one swapped back.\<close>

definition resend_failed ::
  "udp_worker_config \<Rightarrow> (nat \<Rightarrow> send_outcome) \<Rightarrow> udp_socket \<times> ('r, 'h) udp_worker \<Rightarrow>
   (udp_socket \<times> ('r, 'h) udp_worker) option" where
  "resend_failed cf outcomes st =
     (case st of (so, wk) \<Rightarrow>
        (case so_resend_buffer so of
           None \<Rightarrow> Some (so, wk)
         | Some resend_buffer \<Rightarrow>
             map_option (\<lambda>(so', wk').
                 (case so_resend_buffer so' of
                    Some _ \<Rightarrow> so'\<lparr>so_resend_buffer := Some []\<rparr> | None \<Rightarrow> so', wk'))
               (resend_all cf outcomes resend_buffer (so\<lparr>so_resend_buffer := Some []\<rparr>, wk))))"

subsection \<open>The loop\<close>

text \<open>
  One round of the worker: the events of the poll (the socket each is for and what it yields), the
  attempts to resend on both sockets, and every 256 rounds the new times. \<open>ri_elapsed\<close> are the
  seconds since the start of the validator and of the server; the latter panics beyond a \<open>u32\<close>.
\<close>

record ('r, 'h) worker_state =
  uw_socket4 :: "udp_socket option"
  uw_socket6 :: "udp_socket option"
  uw_worker :: "('r, 'h) udp_worker"
  uw_iter_counter :: u64

definition on_socket ::
  "bool \<Rightarrow> (udp_socket \<times> ('r, 'h) udp_worker \<Rightarrow> (udp_socket \<times> ('r, 'h) udp_worker) option) \<Rightarrow>
   ('r, 'h) worker_state \<Rightarrow> ('r, 'h) worker_state option" where
  "on_socket v4 f w =
     (case (if v4 then uw_socket4 w else uw_socket6 w) of
        None \<Rightarrow> Some w
      | Some so \<Rightarrow> map_option (\<lambda>(so', wk').
            (if v4 then w\<lparr>uw_socket4 := Some so', uw_worker := wk'\<rparr>
             else w\<lparr>uw_socket6 := Some so', uw_worker := wk'\<rparr>))
          (f (so, uw_worker w)))"

fun handle_events ::
  "udp_worker_config \<Rightarrow> 'r udp_crates \<Rightarrow> (bool \<times> recv_event list) list \<Rightarrow> ('r, 'h) worker_state \<Rightarrow>
   ('r, 'h) worker_state option" where
  "handle_events cf xc [] w = Some w"
| "handle_events cf xc ((v4, received) # es) w =
     Option.bind (on_socket v4 (read_and_handle_requests cf xc received) w) (handle_events cf xc es)"

definition update_times ::
  "udp_worker_config \<Rightarrow> nat \<times> nat \<Rightarrow> ('r, 'h) udp_worker \<Rightarrow> ('r, 'h) udp_worker option" where
  "update_times cf elapsed wk =
     map_option (\<lambda>until. wk\<lparr>wk_validator := update_elapsed (fst elapsed) (wk_validator wk),
         wk_peer_valid_until := until\<rparr>)
       (valid_until_new (snd elapsed) (wc_max_peer_age cf))"

text \<open>
  What a round meets: what the poll returns, the error of the operating system, as when a signal
  interrupts the waiting, or the sockets that are readable and what each yields; whether sends succeed;
  and the clock.
\<close>

datatype poll_error = PollInterrupted | PollFailed nat

record round_input =
  ri_polled :: "poll_error + (bool \<times> recv_event list) list"
  ri_elapsed :: "nat \<times> nat"
  ri_outcomes4 :: "nat \<Rightarrow> send_outcome"
  ri_outcomes6 :: "nat \<Rightarrow> send_outcome"

text \<open>
  A round, and the error with which the worker returns where the poll fails. \<open>None\<close> is a panic.
\<close>

definition worker_round ::
  "udp_worker_config \<Rightarrow> 'r udp_crates \<Rightarrow> round_input \<Rightarrow> ('r, 'h) worker_state \<Rightarrow>
   (('r, 'h) worker_state \<times> (poll_error + unit)) option" where
  "worker_round cf xc ri w =
     (case ri_polled ri of
        Inl err \<Rightarrow> Some (w, Inl err)
      | Inr events \<Rightarrow>
          Option.bind (handle_events cf xc events w) (\<lambda>w1.
          Option.bind (on_socket True (resend_failed cf (ri_outcomes4 ri)) w1) (\<lambda>w2.
          Option.bind (on_socket False (resend_failed cf (ri_outcomes6 ri)) w2) (\<lambda>w3.
            map_option (\<lambda>wk'. (w3\<lparr>uw_worker := wk', uw_iter_counter := uw_iter_counter w3 + 1\<rparr>, Inr ()))
              (if uw_iter_counter w3 mod 256 = 0 then update_times cf (ri_elapsed ri) (uw_worker w3)
               else Some (uw_worker w3))))))"

text \<open>The loop, cut after the rounds given; it ends with the first error. A worker starts with empty sockets.\<close>

fun worker_run ::
  "udp_worker_config \<Rightarrow> 'r udp_crates \<Rightarrow> round_input list \<Rightarrow> ('r, 'h) worker_state \<Rightarrow>
   (('r, 'h) worker_state \<times> (poll_error + unit)) option" where
  "worker_run cf xc [] w = Some (w, Inr ())"
| "worker_run cf xc (ri # rs) w =
     Option.bind (worker_round cf xc ri w) (\<lambda>(w1, res).
       case res of
         Inl err \<Rightarrow> Some (w1, Inl err)
       | Inr _ \<Rightarrow> worker_run cf xc rs w1)"

definition worker_start ::
  "udp_worker_config \<Rightarrow> bool \<Rightarrow> bool \<Rightarrow> ('r, 'h) udp_worker \<Rightarrow> ('r, 'h) worker_state" where
  "worker_start cf use_ipv4 use_ipv6 wk =
     \<lparr>uw_socket4 = (if use_ipv4 then Some (socket_create cf True) else None),
      uw_socket6 = (if use_ipv6 then Some (socket_create cf False) else None),
      uw_worker = wk, uw_iter_counter = 0\<rparr>"

end
