(* ===== verification/Udp_Swarm_Spec.thy ===== *)
theory Udp_Swarm_Spec
  imports Udp_Swarm
begin

text \<open>
  What the UDP swarm promises: both peer maps meet the contract \<open>peer_store\<close>, an announce refines
  the update of a finite map from peer addresses to peers and its response is drawn from the other
  peers, scrapes report the counts of that map, cleaning keeps exactly the live peers and the
  torrents that are allowed and have some, and torrents do not affect each other.
\<close>

definition udp_alive :: "seconds_since_start \<Rightarrow> peer \<Rightarrow> bool" where
  "udp_alive now p = valid (p_valid_until p) now"

subsection \<open>The small map meets the contract\<close>

definition small_inv :: "'i small_peer_map \<Rightarrow> bool" where
  "small_inv m = (distinct (im_keys (sm_peers m)) \<and> length (sm_peers m) \<le> SMALL_PEER_MAP_CAPACITY)"

definition small_room :: "'i small_peer_map \<Rightarrow> bool" where
  "small_room m = (length (sm_peers m) < SMALL_PEER_MAP_CAPACITY)"

lemma remove_first_result: "fst (remove_first k es) = map_of es k"
  by (induction es) (auto simp: case_prod_unfold)

lemma remove_first_entries:
  "distinct (im_keys es) \<Longrightarrow> snd (remove_first k es) = filter (\<lambda>e. fst e \<noteq> k) es"
proof (induction es)
  case Nil
  then show ?case by simp
next
  case (Cons e es)
  obtain x p where e: "e = (x, p)" by (cases e)
  show ?case
  proof (cases "x = k")
    case True
    then have "filter (\<lambda>e. fst e \<noteq> k) es = es"
      using Cons.prems e by (auto simp: filter_id_conv dest: notin_keysD)
    then show ?thesis using True e by simp
  next
    case False
    then show ?thesis using Cons e by (simp add: case_prod_unfold)
  qed
qed

interpretation udp_small: peer_store sm_peers small_inv small_room p_is_seeder small_insert
  small_remove small_num_seeders_leechers udp_alive "\<lambda>t m. fst (small_clean cf t m)" for cf
proof
  fix s :: "'i small_peer_map" and k :: "'i response_peer" and p :: peer and t
  show "small_inv s \<Longrightarrow> distinct (map fst (sm_peers s))"
    by (simp add: small_inv_def)
  show "small_inv s \<Longrightarrow> small_room s \<Longrightarrow> k \<notin> fst ` set (sm_peers s) \<Longrightarrow>
      \<exists>s'. small_insert k p s = Some s' \<and> small_inv s' \<and> mset (sm_peers s') = mset ((k, p) # sm_peers s)"
    by (auto simp: small_insert_def small_inv_def small_room_def)
  show "small_inv s \<Longrightarrow> small_inv (snd (small_remove k s))"
    by (auto simp: small_inv_def small_remove_def case_prod_unfold remove_first_entries
        distinct_map_filter intro: order_trans [OF length_filter_le])
  show "small_inv s \<Longrightarrow>
      mset (sm_peers (snd (small_remove k s))) = mset (filter (\<lambda>e. fst e \<noteq> k) (sm_peers s))"
    by (simp add: small_inv_def small_remove_def case_prod_unfold remove_first_entries)
  show "small_inv s \<Longrightarrow> fst (small_remove k s) = map_of (sm_peers s) k"
    by (simp add: small_remove_def case_prod_unfold remove_first_result)
  show "small_inv s \<Longrightarrow> small_num_seeders_leechers s =
      (of_nat (length (filter (\<lambda>e. p_is_seeder (snd e)) (sm_peers s))),
       of_nat (length (filter (\<lambda>e. \<not> p_is_seeder (snd e)) (sm_peers s))))"
    by (simp add: small_num_seeders_leechers_def case_prod_unfold leechers_of_difference)
  show "small_inv s \<Longrightarrow> small_inv (fst (small_clean cf t s))"
    by (auto simp: small_inv_def small_clean_def case_prod_unfold Let_def distinct_map_filter
        intro: order_trans [OF length_filter_le])
  show "small_inv s \<Longrightarrow>
      sm_peers (fst (small_clean cf t s)) = filter (\<lambda>e. udp_alive t (snd e)) (sm_peers s)"
    by (simp add: small_clean_def case_prod_unfold udp_alive_def Let_def)
qed

subsection \<open>The large map meets the contract\<close>

definition large_inv :: "'i large_peer_map \<Rightarrow> bool" where
  "large_inv m = (distinct (im_keys (lm_peers m)) \<and>
     lm_num_seeders m = of_nat (length (filter (\<lambda>e. p_is_seeder (snd e)) (lm_peers m))))"

lemma large_retain_entries:
  "fst (large_retain cf now es n) = filter (\<lambda>e. udp_alive now (snd e)) es"
  by (induction es arbitrary: n) (auto simp: udp_alive_def case_prod_unfold Let_def)

lemma large_retain_seeders:
  "fst (snd (large_retain cf now es n)) =
   n - of_nat (length (filter (\<lambda>e. p_is_seeder (snd e) \<and> \<not> udp_alive now (snd e)) es))"
  by (induction es arbitrary: n) (auto simp: udp_alive_def case_prod_unfold Let_def)

lemma large_clean_inv: "large_inv m \<Longrightarrow> large_inv (fst (large_clean cf now m))"
proof -
  assume i: "large_inv m"
  have "length (filter (\<lambda>e. p_is_seeder (snd e)) (lm_peers m)) =
      length (filter (\<lambda>e. p_is_seeder (snd e)) (filter (\<lambda>e. udp_alive now (snd e)) (lm_peers m))) +
      length (filter (\<lambda>e. p_is_seeder (snd e) \<and> \<not> udp_alive now (snd e)) (lm_peers m))"
    by (rule filter_split_count)
  then show ?thesis
    using i by (simp add: large_inv_def large_clean_def case_prod_unfold large_retain_entries
        large_retain_seeders distinct_map_filter)
qed

locale udp_swarm = index_map im + rng_source gen
  for im :: "'i peer_map_ops" and gen :: "'r gen_range"
begin

lemma large_remove_inv:
  assumes "large_inv m"
  shows "large_inv (snd (large_remove_peer im k m))"
proof -
  have d: "distinct (im_keys (lm_peers m))" using assms by (simp add: large_inv_def)
  have "length (filter (\<lambda>e. p_is_seeder (snd e)) (im_swap_remove im k (lm_peers m))) =
      length (filter (\<lambda>e. p_is_seeder (snd e)) (filter (\<lambda>e. fst e \<noteq> k) (lm_peers m)))"
    by (rule length_filter_swap_remove [OF d])
  then show ?thesis
    using assms map_of_split_length [OF d, of p_is_seeder k]
    by (auto simp: large_inv_def large_remove_peer_def Let_def distinct_swap_remove
        split: option.splits)
qed

lemma large_insert_ok:
  assumes "large_inv m" and "k \<notin> fst ` set (lm_peers m)"
  shows "large_inv (large_insert im k p m) \<and>
    mset (lm_peers (large_insert im k p m)) = mset ((k, p) # lm_peers m)"
  using assms by (auto simp: large_insert_def large_inv_def insert_new Let_def)

end

sublocale udp_swarm \<subseteq> large: peer_store lm_peers large_inv "\<lambda>_. True" p_is_seeder
  "\<lambda>k p m. Some (large_insert im k p m)" "large_remove_peer im" large_num_seeders_leechers udp_alive
  "\<lambda>t m. fst (large_clean cf t m)" for cf
proof
  fix s :: "'i large_peer_map" and k :: "'i response_peer" and p :: peer and t
  show "large_inv s \<Longrightarrow> distinct (map fst (lm_peers s))"
    by (simp add: large_inv_def)
  show "large_inv s \<Longrightarrow> True \<Longrightarrow> k \<notin> fst ` set (lm_peers s) \<Longrightarrow>
      \<exists>s'. Some (large_insert im k p s) = Some s' \<and> large_inv s' \<and>
        mset (lm_peers s') = mset ((k, p) # lm_peers s)"
    using large_insert_ok by simp
  show "large_inv s \<Longrightarrow> large_inv (snd (large_remove_peer im k s))"
    by (rule large_remove_inv)
  show "large_inv s \<Longrightarrow>
      mset (lm_peers (snd (large_remove_peer im k s))) = mset (filter (\<lambda>e. fst e \<noteq> k) (lm_peers s))"
    by (auto simp: large_inv_def large_remove_peer_def Let_def swap_remove split: option.splits)
  show "large_inv s \<Longrightarrow> fst (large_remove_peer im k s) = map_of (lm_peers s) k"
    by (simp add: large_remove_peer_def Let_def)
  show "large_inv s \<Longrightarrow> large_num_seeders_leechers s =
      (of_nat (length (filter (\<lambda>e. p_is_seeder (snd e)) (lm_peers s))),
       of_nat (length (filter (\<lambda>e. \<not> p_is_seeder (snd e)) (lm_peers s))))"
    by (simp add: large_num_seeders_leechers_def large_inv_def leechers_of_difference)
  show "large_inv s \<Longrightarrow> large_inv (fst (large_clean cf t s))"
    by (rule large_clean_inv)
  show "large_inv s \<Longrightarrow>
      lm_peers (fst (large_clean cf t s)) = filter (\<lambda>e. udp_alive t (snd e)) (lm_peers s)"
    by (simp add: large_clean_def case_prod_unfold large_retain_entries Let_def)
qed

interpretation udp_ref: udp_swarm ref_index_map ref_gen_range
  by unfold_locales

subsection \<open>The abstract torrent\<close>

fun pm_peers :: "'i peer_map \<Rightarrow> 'i peer_entries" where
  "pm_peers (Small m) = sm_peers m"
| "pm_peers (Large m) = lm_peers m"

fun pm_completed :: "'i peer_map \<Rightarrow> u64" where
  "pm_completed (Small m) = sm_completed m"
| "pm_completed (Large m) = lm_completed m"

fun pm_inv :: "'i peer_map \<Rightarrow> bool" where
  "pm_inv (Small m) = small_inv m"
| "pm_inv (Large m) = large_inv m"

definition pm_abs :: "'i peer_map \<Rightarrow> ('i response_peer \<rightharpoonup> peer)" where
  "pm_abs pm = map_of (pm_peers pm)"

text \<open>What an announce does to the peers, and what it may answer, given the other peers.\<close>

definition announcing_key :: "announce_request \<Rightarrow> 'i \<Rightarrow> 'i response_peer" where
  "announcing_key req ip = \<lparr>ip_address = ip, peer_port = ar_port req\<rparr>"

definition announced_peer :: "announce_request \<Rightarrow> valid_until \<Rightarrow> peer" where
  "announced_peer req vu = \<lparr>p_peer_id = ar_peer_id req,
     p_is_seeder = (announce_status req = Seeding), p_valid_until = vu\<rparr>"

definition spec_announce ::
  "announce_request \<Rightarrow> 'i \<Rightarrow> valid_until \<Rightarrow> ('i response_peer \<rightharpoonup> peer) \<Rightarrow> ('i response_peer \<rightharpoonup> peer)" where
  "spec_announce req ip vu m =
     (if announce_status req = StatusStopped then m(announcing_key req ip := None)
      else m(announcing_key req ip \<mapsto> announced_peer req vu))"

definition seeders_of :: "('k \<rightharpoonup> peer) \<Rightarrow> u64" where
  "seeders_of m = of_nat (num_with p_is_seeder m)"

definition leechers_of :: "('k \<rightharpoonup> peer) \<Rightarrow> u64" where
  "leechers_of m = of_nat (num_with (\<lambda>p. \<not> p_is_seeder p) m)"

definition response_conforms ::
  "udp_config \<Rightarrow> announce_request \<Rightarrow> ('i response_peer \<rightharpoonup> peer) \<Rightarrow> 'i announce_response \<Rightarrow> bool" where
  "response_conforms cf req others res =
     (as_fixed res = \<lparr>
        af_transaction_id = ar_transaction_id req,
        af_announce_interval = peer_announce_interval (uc_protocol cf),
        af_leechers = usize_to_i32_checked (leechers_of others),
        af_seeders = usize_to_i32_checked (seeders_of others)\<rparr> \<and>
      distinct (as_peers res) \<and> set (as_peers res) \<subseteq> dom others \<and>
      length (as_peers res) = min (max_num_peers_to_take cf req) (card (dom others)))"

definition spec_messages ::
  "udp_config \<Rightarrow> announce_request \<Rightarrow> peer option \<Rightarrow> 'h statistics_message list" where
  "spec_messages cf req previous =
     (if \<not> peer_clients (uc_statistics cf) then []
      else if announce_status req = StatusStopped
      then (if previous = None then [] else [PeerRemoved (ar_peer_id req)])
      else (if previous = None then [PeerAdded (ar_peer_id req)] else []))"

definition completed_after :: "announce_request \<Rightarrow> u64 \<Rightarrow> u64" where
  "completed_after req n = (if ar_event req = event_to_bytes Completed then n + 1 else n)"

lemma count_completed [simp]:
  "pm_peers (count_completed req pm) = pm_peers pm"
  "pm_inv (count_completed req pm) = pm_inv pm"
  "pm_completed (count_completed req pm) = completed_after req (pm_completed pm)"
  by (cases pm; simp add: count_completed_def completed_after_def small_inv_def large_inv_def)+

lemma pm_distinct: "pm_inv pm \<Longrightarrow> distinct (im_keys (pm_peers pm))"
  by (cases pm) (auto simp: small_inv_def large_inv_def)

lemma card_pm_abs: "pm_inv pm \<Longrightarrow> card (dom (pm_abs pm)) = length (pm_peers pm)"
  by (simp add: pm_abs_def num_with_True [symmetric] num_with_map_of pm_distinct)

lemma small_counts:
  "small_inv m \<Longrightarrow> small_num_seeders_leechers m =
   (seeders_of (map_of (sm_peers m)), leechers_of (map_of (sm_peers m)))"
  using udp_small.counts_abs by (simp add: seeders_of_def leechers_of_def udp_small.abs_def)

context udp_swarm
begin

lemma large_counts:
  "large_inv m \<Longrightarrow> large_num_seeders_leechers m =
   (seeders_of (map_of (lm_peers m)), leechers_of (map_of (lm_peers m)))"
  for m :: "'i large_peer_map"
  using large.counts_abs by (simp add: seeders_of_def leechers_of_def large.abs_def)

lemma to_large_ok:
  assumes "small_inv m"
  shows "large_inv (to_large im m) \<and> lm_peers (to_large im m) = sm_peers m"
proof -
  have "fold (\<lambda>(k, p). im_insert im k p) (sm_peers m) [] = [] @ sm_peers m"
    using assms by (intro fold_insert_fresh) (auto simp: insert_new small_inv_def)
  then show ?thesis
    using assms by (simp add: to_large_def large_inv_def small_inv_def
        udp_small.counts_law [OF assms])
qed

lemma try_shrink_ok:
  "large_inv m \<Longrightarrow> try_shrink m = Some s \<Longrightarrow>
   small_inv s \<and> sm_peers s = lm_peers m \<and> sm_completed s = lm_completed m"
  by (auto simp: try_shrink_def small_inv_def large_inv_def split: if_splits)

text \<open>The random selection never subtracts below zero and never leaves the map.\<close>

lemma large_extract:
  assumes "distinct (im_keys (lm_peers m))"
  shows "\<exists>ps r'. large_extract_response_peers gen r n m = Some (ps, r') \<and> distinct ps \<and>
    set ps \<subseteq> set (im_keys (lm_peers m)) \<and> length ps = min n (length (lm_peers m))"
proof -
  have "large_extract_response_peers gen r n m = sample_halves gen r n (lm_peers m)"
    unfolding large_extract_response_peers_def sample_halves_def index_sub_def sub_index_def
      slice_keys_def range_keys_def Let_def ..
  then show ?thesis using sample_halves_ok [OF assms] by simp
qed

end

fun pm_room :: "'i peer_map \<Rightarrow> bool" where
  "pm_room (Small m) = small_room m"
| "pm_room (Large m) = True"

text \<open>The middle of an announce: the peer removed, the response made, the map converted.\<close>

definition respond_ok ::
  "udp_config \<Rightarrow> announce_request \<Rightarrow> 'i response_peer \<Rightarrow> 'i peer_map \<Rightarrow>
   'i announce_response \<Rightarrow> peer option \<Rightarrow> 'i peer_map \<Rightarrow> bool" where
  "respond_ok cf req key pm res removed pm1 =
     (removed = pm_abs pm key \<and> pm_inv pm1 \<and> pm_abs pm1 = (pm_abs pm)(key := None) \<and>
      pm_completed pm1 = pm_completed pm \<and>
      response_conforms cf req ((pm_abs pm)(key := None)) res \<and>
      (announce_status req \<noteq> StatusStopped \<longrightarrow> pm_room pm1))"

lemma conformsI:
  assumes "counts = (seeders_of m, leechers_of m)"
    and "distinct ps \<and> set ps \<subseteq> dom m \<and> length ps = min (max_num_peers_to_take cf req) (card (dom m))"
  shows "response_conforms cf req m (announce_response_of cf req counts ps)"
  using assms by (simp add: response_conforms_def announce_response_of_def)

lemma small_completed_remove [simp]: "sm_completed (snd (small_remove k m)) = sm_completed m"
  by (simp add: small_remove_def case_prod_unfold Let_def)

lemma large_completed_remove [simp]: "lm_completed (snd (large_remove_peer im k m)) = lm_completed m"
  by (simp add: large_remove_peer_def Let_def split: option.split)

context udp_swarm
begin

lemma respond_small:
  assumes "small_inv m"
  shows "\<exists>res removed pm1 r1. announce_respond im gen cf req key r (Small m) =
    Some (res, removed, pm1, r1) \<and> respond_ok cf req key (Small m) res removed pm1"
proof -
  define m1 where "m1 = snd (small_remove key m)"
  have i1: "small_inv m1" and a1: "map_of (sm_peers m1) = (map_of (sm_peers m))(key := None)"
    using udp_small.del_inv [OF assms, of key] udp_small.del_abs [OF assms, of key]
    by (simp_all add: m1_def udp_small.abs_def)
  have c: "response_conforms cf req (map_of (sm_peers m1))
      (announce_response_of cf req (small_num_seeders_leechers m1)
        (small_extract_response_peers (max_num_peers_to_take cf req) m1))"
    using i1 take_conforms [of "sm_peers m1"]
    by (intro conformsI small_counts) (auto simp: small_extract_response_peers_def small_inv_def)
  have "small_is_full m1 \<or> small_room m1"
    using i1 by (auto simp: small_is_full_def small_room_def small_inv_def)
  then show ?thesis
    using i1 a1 c to_large_ok [OF i1] udp_small.del_result [OF assms, of key]
    by (auto simp: announce_respond_def Let_def case_prod_unfold m1_def [symmetric] respond_ok_def
        pm_abs_def to_large_def) (simp_all add: m1_def)
qed

lemma respond_large:
  assumes "large_inv m"
  shows "\<exists>res removed pm1 r1. announce_respond im gen cf req key r (Large m) =
    Some (res, removed, pm1, r1) \<and> respond_ok cf req key (Large m) res removed pm1"
proof -
  define m1 where "m1 = snd (large_remove_peer im key m)"
  have i1: "large_inv m1" and a1: "map_of (lm_peers m1) = (map_of (lm_peers m))(key := None)"
    using large.del_inv [OF assms, of key] large.del_abs [OF assms, of key]
    by (simp_all add: m1_def large.abs_def)
  have d: "distinct (im_keys (lm_peers m1))" using i1 by (simp add: large_inv_def)
  obtain ps r' where ex: "large_extract_response_peers gen r (max_num_peers_to_take cf req) m1 = Some (ps, r')"
    and ps: "distinct ps" "set ps \<subseteq> set (im_keys (lm_peers m1))"
      "length ps = min (max_num_peers_to_take cf req) (length (lm_peers m1))"
    using large_extract [OF d] by blast
  have c: "response_conforms cf req (map_of (lm_peers m1))
      (announce_response_of cf req (large_num_seeders_leechers m1) ps)"
    using ps large.card_abs [OF i1]
    by (intro conformsI large_counts i1) (auto simp: dom_map_of_conv_image_fst large.abs_def)
  have lc: "lm_completed m1 = lm_completed m" by (simp add: m1_def)
  show ?thesis
  proof (cases "announce_status req = StatusStopped \<and> try_shrink m1 \<noteq> None")
    case True
    then obtain s where "try_shrink m1 = Some s" by blast
    then show ?thesis
      using True ex c a1 lc try_shrink_ok [OF i1] large.del_result [OF assms, of key]
      by (auto simp: announce_respond_def Let_def case_prod_unfold m1_def [symmetric] respond_ok_def
          pm_abs_def)
  next
    case False
    then have "announce_respond im gen cf req key r (Large m) =
        Some (announce_response_of cf req (large_num_seeders_leechers m1) ps,
          fst (large_remove_peer im key m), Large m1, r')"
      using ex by (auto simp: announce_respond_def Let_def case_prod_unfold m1_def [symmetric])
    then show ?thesis
      using i1 c a1 lc large.del_result [OF assms, of key] by (auto simp: respond_ok_def pm_abs_def)
  qed
qed

lemma respond:
  "pm_inv pm \<Longrightarrow> \<exists>res removed pm1 r1. announce_respond im gen cf req key r pm =
    Some (res, removed, pm1, r1) \<and> respond_ok cf req key pm res removed pm1"
  using respond_small respond_large by (cases pm) auto

lemma insert_ok:
  assumes "pm_inv pm" and "pm_room pm" and "pm_abs pm key = None"
  shows "\<exists>pm'. peer_map_insert im key p pm = Some pm' \<and> pm_inv pm' \<and>
    pm_abs pm' = (pm_abs pm)(key \<mapsto> p) \<and> pm_completed pm' = pm_completed pm"
proof -
  have k: "key \<notin> fst ` set (pm_peers pm)"
    using assms(3) by (simp add: pm_abs_def map_of_eq_None_iff)
  show ?thesis
  proof (cases pm)
    case (Small m)
    then show ?thesis
      using assms k udp_small.put_abs [of m key p]
      by (auto simp: peer_map_insert_def pm_abs_def udp_small.abs_def small_insert_def split: if_splits)
  next
    case (Large m)
    then show ?thesis
      using assms k large.put_abs [of m key p]
      by (auto simp: peer_map_insert_def pm_abs_def large.abs_def large_insert_def Let_def)
  qed
qed

lemma announce_refines:
  assumes "pm_inv pm"
  shows "\<exists>res pm' r'. peer_map_announce im gen cf req ip vu r pm =
      Some (res, pm', spec_messages cf req (pm_abs pm (announcing_key req ip)), r') \<and>
    pm_inv pm' \<and> pm_abs pm' = spec_announce req ip vu (pm_abs pm) \<and>
    pm_completed pm' = completed_after req (pm_completed pm) \<and>
    response_conforms cf req ((pm_abs pm)(announcing_key req ip := None)) res"
proof -
  let ?k = "announcing_key req ip" and ?pm = "count_completed req pm"
  have ab: "pm_abs ?pm = pm_abs pm" by (simp add: pm_abs_def)
  obtain res removed pm1 r1 where
    rs: "announce_respond im gen cf req ?k r ?pm = Some (res, removed, pm1, r1)"
    and ok: "respond_ok cf req ?k ?pm res removed pm1"
    using respond [of ?pm cf req ?k r] assms by (metis count_completed(2))
  have pm1: "pm_inv pm1" "pm_abs pm1 = (pm_abs pm)(?k := None)" "removed = pm_abs pm ?k"
    "pm_completed pm1 = completed_after req (pm_completed pm)"
    "response_conforms cf req ((pm_abs pm)(?k := None)) res"
    using ok by (auto simp: respond_ok_def ab)
  show ?thesis
  proof (cases "announce_status req = StatusStopped")
    case True
    then show ?thesis
      using rs pm1 by (auto simp: peer_map_announce_def Let_def announcing_key_def [symmetric]
          spec_announce_def spec_messages_def)
  next
    case False
    then have "pm_room pm1" using ok by (simp add: respond_ok_def)
    then obtain pm2 where "peer_map_insert im ?k (announced_peer req vu) pm1 = Some pm2"
      and "pm_inv pm2" "pm_abs pm2 = (pm_abs pm1)(?k \<mapsto> announced_peer req vu)"
        "pm_completed pm2 = pm_completed pm1"
      using insert_ok [OF pm1(1)] pm1(2) by (metis fun_upd_same)
    then show ?thesis
      using False rs pm1
      by (auto simp: peer_map_announce_def Let_def announcing_key_def [symmetric]
          spec_announce_def spec_messages_def announced_peer_def)
  qed
qed

end

subsection \<open>Scrapes and cleaning of one peer map\<close>

lemma pm_scrape:
  assumes "pm_inv pm"
  shows "scrape_statistics pm = \<lparr>
    ts_seeders = usize_to_i32_checked (seeders_of (pm_abs pm)),
    ts_completed = u64_to_i32_checked (pm_completed pm),
    ts_leechers = usize_to_i32_checked (leechers_of (pm_abs pm))\<rparr>"
proof (cases pm)
  case (Small m)
  then show ?thesis
    using assms small_counts [of m] by (simp add: scrape_statistics_def pm_abs_def)
next
  case (Large m)
  then have i: "large_inv m" using assms by simp
  have "large_num_seeders_leechers m =
      (of_nat (length (filter (\<lambda>e. p_is_seeder (snd e)) (lm_peers m))),
       of_nat (length (filter (\<lambda>e. \<not> p_is_seeder (snd e)) (lm_peers m))))"
    using i by (simp add: large_num_seeders_leechers_def large_inv_def leechers_of_difference)
  then show ?thesis
    using Large i by (simp add: scrape_statistics_def pm_abs_def seeders_of_def leechers_of_def
        num_with_map_of large_inv_def)
qed

lemma pm_clean:
  assumes "pm_inv pm" and "peer_map_clean cf now pm = (pm', n, ms)"
  shows "pm_inv pm' \<and> pm_abs pm' = restrict_with (udp_alive now) (pm_abs pm) \<and>
    pm_completed pm' = pm_completed pm \<and> n = card (dom (pm_abs pm'))"
proof (cases pm)
  case (Small m)
  then obtain m' where c: "small_clean cf now m = (m', n, ms)" and pm': "pm' = Small m'"
    using assms(2) by (cases "small_clean cf now m :: _ \<times> nat \<times> 'b statistics_message list")
      (auto simp: peer_map_clean_def)
  have i: "small_inv m" using assms(1) Small by simp
  have m': "m' = m\<lparr>sm_peers := filter (\<lambda>e. udp_alive now (snd e)) (sm_peers m)\<rparr>"
    using c by (auto simp: small_clean_def Let_def case_prod_unfold udp_alive_def)
  have "small_inv m'"
    using i m' by (auto simp: small_inv_def distinct_map_filter intro: order_trans [OF length_filter_le])
  moreover have "map_of (sm_peers m') = restrict_with (udp_alive now) (map_of (sm_peers m))"
    using i m' by (simp add: small_inv_def map_of_filter_val)
  moreover have "n = length (sm_peers m')" "sm_completed m' = sm_completed m"
    using c by (auto simp: small_clean_def Let_def)
  ultimately show ?thesis
    using Small pm' udp_small.card_abs [of m'] by (simp add: pm_abs_def udp_small.abs_def)
next
  case (Large m)
  have i: "large_inv m" using assms(1) Large by simp
  obtain m' where c: "large_clean cf now m = (m', n, ms)"
    and pm': "pm' = (case try_shrink m' of Some s \<Rightarrow> Small s | None \<Rightarrow> Large m')"
    using assms(2) Large by (cases "large_clean cf now m :: _ \<times> nat \<times> 'b statistics_message list")
      (auto simp: peer_map_clean_def)
  have i': "large_inv m'" using large_clean_inv [OF i] c by (metis fst_conv)
  have es: "lm_peers m' = filter (\<lambda>e. udp_alive now (snd e)) (lm_peers m)"
    "lm_completed m' = lm_completed m" "n = length (lm_peers m')"
    using c by (auto simp: large_clean_def case_prod_unfold Let_def large_retain_entries)
  have p': "pm_inv pm'" "pm_peers pm' = lm_peers m'" "pm_completed pm' = lm_completed m'"
    using i' pm' by (auto simp: try_shrink_def small_inv_def large_inv_def split: option.splits if_splits)
  then show ?thesis
    using Large es i card_pm_abs [OF p'(1)]
    by (simp add: pm_abs_def map_of_filter_val large_inv_def)
qed

lemma pm_is_empty: "peer_map_is_empty pm \<longleftrightarrow> pm_abs pm = Map.empty"
  by (cases pm) (auto simp: peer_map_is_empty_def pm_abs_def)

lemma pm_default [simp]: "pm_inv peer_map_default" "pm_abs peer_map_default = Map.empty"
  "pm_completed peer_map_default = 0"
  by (simp_all add: peer_map_default_def small_inv_def pm_abs_def)

subsection \<open>Shards as a map from torrents\<close>

definition td_abs :: "'i torrent_data option \<Rightarrow> ('i response_peer \<rightharpoonup> peer) \<times> u64" where
  "td_abs x = (case x of
     Some td \<Rightarrow> (pm_abs (td_peer_map td), pm_completed (td_peer_map td))
   | None \<Rightarrow> (Map.empty, 0))"

definition torrent_abs ::
  "'i torrent_map_shards \<Rightarrow> info_hash \<Rightarrow> ('i response_peer \<rightharpoonup> peer) \<times> u64" where
  "torrent_abs shards h = td_abs (map_of (get_shard shards h) h)"

definition shard_inv :: "nat \<Rightarrow> nat \<Rightarrow> 'i torrent_map_shard \<Rightarrow> bool" where
  "shard_inv n i shard = (distinct (im_keys shard) \<and>
     list_all (\<lambda>(h, td). unat (hd (word_be 20 h)) mod n = i \<and> pm_inv (td_peer_map td)) shard)"

definition shards_inv :: "'i torrent_map_shards \<Rightarrow> bool" where
  "shards_inv shards = (0 < length shards \<and>
     (\<forall>i < length shards. shard_inv (length shards) i (shards ! i)))"

lemma shards_new_inv: "0 < n \<Longrightarrow> shards_inv (shards_new n)"
  by (simp add: shards_inv_def shards_new_def shard_inv_def)

lemma shard_index_less: "shards_inv shards \<Longrightarrow> shard_index shards h < length shards"
  by (simp add: shards_inv_def shard_index_def)

lemma get_shard_inv: "shards_inv shards \<Longrightarrow> shard_inv (length shards) (shard_index shards h) (get_shard shards h)"
  by (simp add: get_shard_def shards_inv_def shard_index_def)

lemma shard_inv_lookup:
  "shard_inv n i shard \<Longrightarrow> map_of shard h = Some td \<Longrightarrow>
   pm_inv (td_peer_map td) \<and> unat (hd (word_be 20 h)) mod n = i"
  by (auto simp: shard_inv_def list_all_iff dest: map_of_SomeD)

lemma shard_inv_update:
  "shard_inv n i shard \<Longrightarrow> unat (hd (word_be 20 h)) mod n = i \<Longrightarrow> pm_inv (td_peer_map td) \<Longrightarrow>
   shard_inv n i (AList.update h td shard)"
  by (auto simp: shard_inv_def distinct_update intro: list_all_update)

lemma entry_inv:
  "shard_inv n i shard \<Longrightarrow> unat (hd (word_be 20 h)) mod n = i \<Longrightarrow>
   shard_inv n i (entry_or_default h shard)"
  by (simp add: entry_or_default_def shard_inv_update torrent_data_default_def)

lemma entry_abs: "td_abs (map_of (entry_or_default h shard) x) = td_abs (map_of shard x)"
  by (auto simp: entry_or_default_def update_conv td_abs_def torrent_data_default_def split: option.split)

lemma entry_present: "\<exists>td. map_of (entry_or_default h shard) h = Some td"
  by (auto simp: entry_or_default_def update_conv)

lemma shards_update:
  assumes "shards_inv shards" and "shard_inv (length shards) (shard_index shards h) shard"
    and "td_abs (map_of shard h) = v"
    and "\<And>x. x \<noteq> h \<Longrightarrow> td_abs (map_of shard x) = td_abs (map_of (get_shard shards h) x)"
  shows "shards_inv (shards[shard_index shards h := shard]) \<and>
    torrent_abs (shards[shard_index shards h := shard]) = (torrent_abs shards)(h := v)"
proof
  let ?i = "shard_index shards h"
  show "shards_inv (shards[?i := shard])"
    using assms(1,2) shard_index_less [OF assms(1), of h]
    by (auto simp: shards_inv_def nth_list_update)
  show "torrent_abs (shards[?i := shard]) = (torrent_abs shards)(h := v)"
    using assms(3,4) shard_index_less [OF assms(1), of h]
    by (auto simp: fun_eq_iff torrent_abs_def get_shard_def shard_index_def nth_list_update)
qed

definition cleaned_data :: "seconds_since_start \<Rightarrow> 'i torrent_data \<Rightarrow> 'i torrent_data \<Rightarrow> bool" where
  "cleaned_data now td td' =
     (pm_inv (td_peer_map td') \<and>
      pm_abs (td_peer_map td') = restrict_with (udp_alive now) (pm_abs (td_peer_map td)) \<and>
      pm_completed (td_peer_map td') = pm_completed (td_peer_map td) \<and>
      (td_pending_removal td' \<longleftrightarrow> pm_abs (td_peer_map td') = Map.empty))"

lemma card_zero_empty: "pm_inv pm \<Longrightarrow> card (dom (pm_abs pm)) = 0 \<longleftrightarrow> pm_abs pm = Map.empty"
  by (simp add: card_pm_abs) (auto simp: pm_abs_def)

lemma clean_values_entries:
  assumes "list_all (\<lambda>e. pm_inv (td_peer_map (snd e))) es"
  shows "list_all2 (\<lambda>e e'. fst e = fst e' \<and> cleaned_data now (snd e) (snd e')) es
    (fst (clean_values ho cf now hist es))"
  using assms
proof (induction es arbitrary: hist)
  case Nil
  then show ?case by simp
next
  case (Cons e es)
  obtain h td where e: "e = (h, td)" by (cases e)
  obtain pm' n ms where c: "peer_map_clean cf now (td_peer_map td) =
      (pm', n, ms :: 'b statistics_message list)"
    by (metis prod_cases3)
  have "pm_inv (td_peer_map td)" using Cons.prems e by simp
  note p = pm_clean [OF this c]
  then have "n = 0 \<longleftrightarrow> pm_abs pm' = Map.empty" using card_zero_empty by metis
  then have "cleaned_data now td (td\<lparr>td_peer_map := pm', td_pending_removal := (n = 0)\<rparr>)"
    using p by (simp add: cleaned_data_def)
  then show ?case
    using Cons e c by (simp add: case_prod_unfold Let_def)
qed

definition spec_clean_torrent ::
  "udp_config \<Rightarrow> access_list \<Rightarrow> seconds_since_start \<Rightarrow> info_hash \<Rightarrow>
   ('i response_peer \<rightharpoonup> peer) \<times> u64 \<Rightarrow> ('i response_peer \<rightharpoonup> peer) \<times> u64" where
  "spec_clean_torrent cf al now h t =
     (let live = restrict_with (udp_alive now) (fst t)
      in if allows (uc_access_list_mode cf) al h \<and> live \<noteq> Map.empty then (live, snd t)
         else (Map.empty, 0))"

lemma clean_one_shard:
  assumes "shard_inv n i shard" and "clean_values ho cf now hist shard = (cleaned, peers, hist', ms)"
  shows "shard_inv n i (retain_torrents cf al cleaned) \<and>
    td_abs (map_of (retain_torrents cf al cleaned) h) =
      spec_clean_torrent cf al now h (td_abs (map_of shard h))"
proof -
  have "list_all (\<lambda>e. pm_inv (td_peer_map (snd e))) shard"
    using assms(1) by (auto simp: shard_inv_def list_all_iff)
  then have rel: "list_all2 (\<lambda>e e'. fst e = fst e' \<and> cleaned_data now (snd e) (snd e')) shard cleaned"
    using clean_values_entries [of shard now ho cf hist] assms(2) by simp
  have keys: "im_keys cleaned = im_keys shard" by (rule list_all2_keys [OF rel])
  have d: "distinct (im_keys cleaned)" using assms(1) keys by (simp add: shard_inv_def)
  have idx: "list_all (\<lambda>(h, td). unat (hd (word_be 20 h)) mod n = i \<and> pm_inv (td_peer_map td)) cleaned"
    unfolding list_all_iff
  proof clarify
    fix x td assume m: "(x, td) \<in> set cleaned"
    then obtain j where j: "j < length cleaned" "cleaned ! j = (x, td)" by (meson in_set_conv_nth)
    then have "fst (shard ! j) = x" "cleaned_data now (snd (shard ! j)) td" "shard ! j \<in> set shard"
      using rel by (auto simp: list_all2_conv_all_nth)
    then show "unat (hd (word_be 20 x)) mod n = i \<and> pm_inv (td_peer_map td)"
      using assms(1) by (auto simp: shard_inv_def list_all_iff cleaned_data_def)
  qed
  have k: "im_keys (retain_torrents cf al cleaned) = im_keys (filter (retain_torrent cf al) cleaned)"
    by (simp add: retain_torrents_def comp_def case_prod_unfold)
  have "distinct (im_keys (retain_torrents cf al cleaned))"
    unfolding k by (rule distinct_map_filter) (rule d)
  then have "shard_inv n i (retain_torrents cf al cleaned)"
    using idx by (auto simp: shard_inv_def list_all_iff retain_torrents_def)
  moreover have "td_abs (map_of (retain_torrents cf al cleaned) h) =
      spec_clean_torrent cf al now h (td_abs (map_of shard h))"
  proof (cases "map_of shard h")
    case None
    then have "map_of cleaned h = None" using list_all2_map_of [OF rel, of h] by simp
    then have "map_of (retain_torrents cf al cleaned) h = None"
      by (simp add: retain_torrents_def map_of_reset map_of_filter_entry [OF d])
    then show ?thesis
      using None by (simp add: td_abs_def spec_clean_torrent_def restrict_with_def)
  next
    case (Some td)
    then obtain td' where td': "map_of cleaned h = Some td'" and c: "cleaned_data now td td'"
      using list_all2_map_of [OF rel, of h] by auto
    have "map_of (retain_torrents cf al cleaned) h =
        (if retain_torrent cf al (h, td') then Some (td'\<lparr>td_pending_removal := False\<rparr>) else None)"
      by (simp add: retain_torrents_def map_of_reset map_of_filter_entry [OF d] td')
    then show ?thesis
      using c Some by (simp add: td_abs_def spec_clean_torrent_def Let_def cleaned_data_def
          retain_torrent_def pm_is_empty)
  qed
  ultimately show ?thesis by simp
qed

lemma clean_shards_ok:
  assumes "clean_shards ho cf al now hist shards = (shards', torrents, peers, hist', ms)"
  shows "length shards' = length shards \<and> torrents = sum_list (map length shards') \<and>
    (\<forall>i < length shards. \<exists>cleaned n hist1 hist2 ms1.
      clean_values ho cf now hist1 (shards ! i) = (cleaned, n, hist2, ms1) \<and>
      shards' ! i = retain_torrents cf al cleaned)"
  using assms
proof (induction shards arbitrary: hist shards' torrents peers hist' ms)
  case Nil
  then show ?case by simp
next
  case (Cons shard shards)
  obtain cleaned n hist1 ms1 where c: "clean_values ho cf now hist shard = (cleaned, n, hist1, ms1)"
    by (metis prod_cases4)
  obtain shards1 t1 p1 hist2 ms2
    where r: "clean_shards ho cf al now hist1 shards = (shards1, t1, p1, hist2, ms2)"
    by (metis prod_cases5)
  have eqs: "shards' = retain_torrents cf al cleaned # shards1"
    "torrents = length (retain_torrents cf al cleaned) + t1"
    using Cons.prems c r by (auto simp: Let_def)
  show ?case
    using Cons.IH [OF r] c unfolding eqs
    by (auto simp: nth_Cons split: nat.splits) blast+
qed

lemma shards_clean:
  assumes "shards_inv shards"
    and "clean_shards ho cf al now hist shards = (shards', torrents, peers, hist', ms)"
  shows "shards_inv shards' \<and> torrent_abs shards' =
    (\<lambda>h. spec_clean_torrent cf al now h (torrent_abs shards h)) \<and>
    torrents = sum_list (map length shards')"
proof -
  note ok = clean_shards_ok [OF assms(2)]
  have each: "shard_inv (length shards) i (shards' ! i) \<and>
      td_abs (map_of (shards' ! i) h) = spec_clean_torrent cf al now h (td_abs (map_of (shards ! i) h))"
    if i: "i < length shards" for i h
  proof -
    obtain cleaned n hist1 hist2 ms1
      where cv: "clean_values ho cf now hist1 (shards ! i) = (cleaned, n, hist2, ms1)"
        and s: "shards' ! i = retain_torrents cf al cleaned"
      using ok i by blast
    have "shard_inv (length shards) i (shards ! i)" using assms(1) i by (simp add: shards_inv_def)
    from clean_one_shard [OF this cv] show ?thesis using s by simp
  qed
  have "shards_inv shards'" using ok each assms(1) by (simp add: shards_inv_def)
  moreover have "torrent_abs shards' h = spec_clean_torrent cf al now h (torrent_abs shards h)" for h
    using each shard_index_less [OF assms(1), of h] ok
    by (simp add: torrent_abs_def get_shard_def shard_index_def)
  ultimately show ?thesis using ok by auto
qed

lemma shards_scrape_stats:
  assumes "shards_inv shards"
  shows "scrape_one shards h = \<lparr>
    ts_seeders = usize_to_i32_checked (seeders_of (fst (torrent_abs shards h))),
    ts_completed = u64_to_i32_checked (snd (torrent_abs shards h)),
    ts_leechers = usize_to_i32_checked (leechers_of (fst (torrent_abs shards h)))\<rparr>"
proof (cases "map_of (get_shard shards h) h")
  case None
  then show ?thesis
    by (simp add: scrape_one_def torrent_abs_def td_abs_def empty_statistics_def seeders_of_def
        leechers_of_def usize_to_i32_checked_def u64_to_i32_checked_def)
next
  case (Some td)
  then have "pm_inv (td_peer_map td)"
    using shard_inv_lookup [OF get_shard_inv [OF assms]] by blast
  then show ?thesis
    using Some by (simp add: scrape_one_def torrent_abs_def td_abs_def pm_scrape)
qed

context udp_swarm
begin

lemma shards_announce_ok:
  assumes "shards_inv shards"
  shows "\<exists>res shards' (ms :: 'h statistics_message list) r'.
    shards_announce im gen cf req ip vu r shards = Some (res, shards', ms, r') \<and> shards_inv shards' \<and>
    torrent_abs shards' = (torrent_abs shards)(ar_info_hash req :=
      (spec_announce req ip vu (fst (torrent_abs shards (ar_info_hash req))),
       completed_after req (snd (torrent_abs shards (ar_info_hash req))))) \<and>
    response_conforms cf req
      ((fst (torrent_abs shards (ar_info_hash req)))(announcing_key req ip := None)) res \<and>
    ms = spec_messages cf req (fst (torrent_abs shards (ar_info_hash req)) (announcing_key req ip))"
proof -
  let ?h = "ar_info_hash req"
  define shard where "shard = entry_or_default ?h (get_shard shards ?h)"
  have i: "shard_inv (length shards) (shard_index shards ?h) shard"
    unfolding shard_def by (rule entry_inv [OF get_shard_inv [OF assms]]) (simp add: shard_index_def)
  obtain td where td: "map_of shard ?h = Some td"
    unfolding shard_def using entry_present by metis
  have a: "torrent_abs shards ?h = (pm_abs (td_peer_map td), pm_completed (td_peer_map td))"
    using td entry_abs [of ?h "get_shard shards ?h" ?h]
    by (simp add: torrent_abs_def shard_def td_abs_def)
  have "pm_inv (td_peer_map td)" and idx: "unat (hd (word_be 20 ?h)) mod length shards = shard_index shards ?h"
    using shard_inv_lookup [OF i td] by auto
  from announce_refines [OF this(1)] obtain res pm' r'
    where an: "peer_map_announce im gen cf req ip vu r (td_peer_map td) =
        Some (res, pm', spec_messages cf req (pm_abs (td_peer_map td) (announcing_key req ip)) ::
          'h statistics_message list, r')"
      and pm': "pm_inv pm'" "pm_abs pm' = spec_announce req ip vu (pm_abs (td_peer_map td))"
        "pm_completed pm' = completed_after req (pm_completed (td_peer_map td))"
        "response_conforms cf req ((pm_abs (td_peer_map td))(announcing_key req ip := None)) res"
    by blast
  let ?shard' = "AList.update ?h (td\<lparr>td_peer_map := pm'\<rparr>) shard"
  have "shards_inv (shards[shard_index shards ?h := ?shard']) \<and>
      torrent_abs (shards[shard_index shards ?h := ?shard']) = (torrent_abs shards)(?h :=
        (spec_announce req ip vu (fst (torrent_abs shards ?h)), completed_after req (snd (torrent_abs shards ?h))))"
  proof (rule shards_update [OF assms])
    show "shard_inv (length shards) (shard_index shards ?h) ?shard'"
      using shard_inv_update [OF i idx] pm' by simp
    show "td_abs (map_of ?shard' ?h) = (spec_announce req ip vu (fst (torrent_abs shards ?h)),
        completed_after req (snd (torrent_abs shards ?h)))"
      using pm' a by (simp add: update_conv td_abs_def)
    show "td_abs (map_of ?shard' x) = td_abs (map_of (get_shard shards ?h) x)" if "x \<noteq> ?h" for x
      using that by (simp add: update_conv shard_def entry_abs)
  qed
  then show ?thesis
    using an a pm'(4) td by (simp add: shards_announce_def shard_def [symmetric] Let_def)
qed

end

subsection \<open>The tracker's maps over time\<close>

definition maps_inv :: "torrent_maps \<Rightarrow> bool" where
  "maps_inv maps = (shards_inv (tm_ipv4 maps) \<and> shards_inv (tm_ipv6 maps))"

inductive maps_step ::
  "ipv4_addr_bytes peer_map_ops \<Rightarrow> ipv6_addr_bytes peer_map_ops \<Rightarrow> 'r gen_range \<Rightarrow>
   'h histogram_ops \<Rightarrow> udp_config \<Rightarrow> torrent_maps \<Rightarrow> torrent_maps \<Rightarrow> bool"
  for im4 im6 gen ho cf where
  announce_step: "maps_announce im4 im6 gen cf req src vu r maps =
      Some (res, maps', ms :: 'h statistics_message list, r') \<Longrightarrow>
    maps_step im4 im6 gen ho cf maps maps'"
| clean_step: "clean_and_update_statistics ho cf al now maps = (maps', st, ms) \<Longrightarrow>
    maps_step im4 im6 gen ho cf maps maps'"

inductive maps_reachable ::
  "ipv4_addr_bytes peer_map_ops \<Rightarrow> ipv6_addr_bytes peer_map_ops \<Rightarrow> 'r gen_range \<Rightarrow>
   'h histogram_ops \<Rightarrow> udp_config \<Rightarrow> torrent_maps \<Rightarrow> bool"
  for im4 im6 gen ho cf where
  start: "maps_reachable im4 im6 gen ho cf torrent_maps_default"
| step: "maps_reachable im4 im6 gen ho cf maps \<Longrightarrow> maps_step im4 im6 gen ho cf maps maps' \<Longrightarrow>
    maps_reachable im4 im6 gen ho cf maps'"

lemma maps_default_inv: "maps_inv torrent_maps_default"
  by (simp add: maps_inv_def torrent_maps_default_def NUM_SHARDS_def shards_new_inv)

lemma maps_clean_inv:
  assumes "maps_inv maps" and "clean_and_update_statistics ho cf al now maps = (maps', st, ms)"
  shows "maps_inv maps'"
proof -
  obtain s4 t4 p4 h4 m4 s6 t6 p6 h6 m6 where
    c4: "clean_and_get_statistics ho cf al now (tm_ipv4 maps) = (s4, t4, p4, h4, m4)" and
    c6: "clean_and_get_statistics ho cf al now (tm_ipv6 maps) = (s6, t6, p6, h6, m6)"
    by (metis prod_cases5)
  have "maps' = \<lparr>tm_ipv4 = s4, tm_ipv6 = s6\<rparr>"
    using assms(2) c4 c6 by (auto simp: clean_and_update_statistics_def Let_def split: if_splits)
  moreover have "shards_inv s4" "shards_inv s6"
    using shards_clean c4 c6 assms(1)
    by (metis clean_and_get_statistics_def maps_inv_def)+
  ultimately show ?thesis by (simp add: maps_inv_def)
qed

lemma maps_announce_total:
  assumes "index_map im4" and "index_map im6" and "rng_source gen" and "maps_inv maps"
  shows "\<exists>res maps' (ms :: 'h statistics_message list) r'.
    maps_announce im4 im6 gen cf req src vu r maps = Some (res, maps', ms, r') \<and> maps_inv maps'"
proof (cases "socket_ip (get_addr src)")
  case (V4 ip)
  have "shards_inv (tm_ipv4 maps)" using assms(4) by (simp add: maps_inv_def)
  from udp_swarm.shards_announce_ok [OF udp_swarm.intro [OF assms(1,3)] this, of cf req ip vu r,
      where ?'h = 'h]
  show ?thesis using V4 assms(4) by (auto simp: maps_announce_def maps_inv_def)
next
  case (V6 ip)
  have "shards_inv (tm_ipv6 maps)" using assms(4) by (simp add: maps_inv_def)
  from udp_swarm.shards_announce_ok [OF udp_swarm.intro [OF assms(2,3)] this, of cf req ip vu r,
      where ?'h = 'h]
  show ?thesis using V6 assms(4) by (auto simp: maps_announce_def maps_inv_def)
qed

lemma reachable_inv:
  assumes "maps_reachable im4 im6 gen (ho :: 'h histogram_ops) cf maps"
    and "index_map im4" and "index_map im6" and "rng_source gen"
  shows "maps_inv maps"
  using assms(1)
proof induction
  case start
  then show ?case by (rule maps_default_inv)
next
  case (step maps maps')
  from step.hyps(2) show ?case
  proof (cases rule: maps_step.cases)
    case (announce_step req src vu r res ms r')
    then show ?thesis
      using maps_announce_total [OF assms(2-4) step.IH, of cf req src vu r, where ?'h = 'h] by auto
  next
    case (clean_step al now st ms)
    then show ?thesis using maps_clean_inv [OF step.IH] by blast
  qed
qed

subsection \<open>Properties\<close>

definition sample_config :: udp_config where
  "sample_config = \<lparr>
     uc_protocol = \<lparr>max_scrape_torrents = 70, max_response_peers = 30, peer_announce_interval = 900\<rparr>,
     uc_statistics = \<lparr>st_interval = 5, torrent_peer_histograms = False, peer_clients = True,
       print_to_stdout = True, write_html_to_file = False, run_prometheus_endpoint = False\<rparr>,
     uc_access_list_mode = Off\<rparr>"

definition sample_announce :: announce_request where
  "sample_announce = \<lparr>ar_connection_id = 1, ar_action_placeholder = 1, ar_transaction_id = 2,
     ar_info_hash = 3, ar_peer_id = 4, ar_bytes_downloaded = 0, ar_bytes_left = 0,
     ar_bytes_uploaded = 0, ar_event = 2, ar_ip_address = 0, ar_key = 0, ar_peers_wanted = 0,
     ar_port = 6881\<rparr>"

definition sample_shards :: "u32 torrent_map_shards" where
  "sample_shards = shards_new 16"

lemma sample_shards_inv: "shards_inv sample_shards"
  by (simp add: sample_shards_def shards_new_inv)

text \<open>C1. An announce refines the update of a finite map. In shards that satisfy the invariant it never
  panics; the torrent announced, seen as a map from peer addresses to peers, loses the announcing
  address when the event is stopped and otherwise maps it to the announced peer (a seeder exactly
  when no bytes are left), whether its peers are kept in the small or the large structure and
  whichever way it is converted; its completed count grows by one on a completed event; no other
  torrent changes; and a statistics message is sent exactly when a peer appears or disappears.\<close>
theorem udp_announce_refines:
  assumes "index_map im" and "rng_source gen" and "shards_inv shards"
  shows "\<exists>res shards' r'. shards_announce im gen cf req ip vu r shards = Some (res, shards',
      spec_messages cf req (fst (torrent_abs shards (ar_info_hash req)) (announcing_key req ip)) ::
        'h statistics_message list, r') \<and>
    shards_inv shards' \<and>
    torrent_abs shards' = (torrent_abs shards)(ar_info_hash req :=
      (spec_announce req ip vu (fst (torrent_abs shards (ar_info_hash req))),
       completed_after req (snd (torrent_abs shards (ar_info_hash req)))))"
  using udp_swarm.shards_announce_ok [OF udp_swarm.intro [OF assms(1,2)] assms(3), where ?'h = 'h]
  by blast

lemma udp_announce_refines_witness:
  "\<exists>res shards' r'. shards_announce ref_index_map ref_gen_range sample_config sample_announce
      (0x7F000001 :: u32) (ValidUntil 100) [] sample_shards = Some (res, shards',
      spec_messages sample_config sample_announce (fst (torrent_abs sample_shards
        (ar_info_hash sample_announce)) (announcing_key sample_announce (0x7F000001 :: u32))) ::
          unit statistics_message list, r') \<and>
    shards_inv shards' \<and>
    torrent_abs shards' = (torrent_abs sample_shards)(ar_info_hash sample_announce :=
      (spec_announce sample_announce 0x7F000001 (ValidUntil 100)
         (fst (torrent_abs sample_shards (ar_info_hash sample_announce))),
       completed_after sample_announce (snd (torrent_abs sample_shards (ar_info_hash sample_announce)))))"
proof -
  from udp_announce_refines [OF ref_index_map_laws ref_gen_range_laws sample_shards_inv]
  show ?thesis .
qed

text \<open>C6. What an announce answers. The response carries the request's transaction id and the configured
  interval; its seeder and leecher counts are those of the other peers of the torrent, cut off at the
  largest signed 32-bit integer; its peers are distinct, are among the other peers (never the
  announcing address), and are as many as the limit allows: the smaller of the limit and the number
  of other peers. In particular the random selection from the halves of a large map neither repeats
  a peer nor falls short of the limit, for odd limits too, and no index subtraction underflows.\<close>
theorem udp_announce_response:
  assumes "index_map im" and "rng_source gen" and "shards_inv shards"
    and "shards_announce im gen cf req ip vu r shards =
      Some (res, shards', ms :: 'h statistics_message list, r')"
  shows "response_conforms cf req
    ((fst (torrent_abs shards (ar_info_hash req)))(announcing_key req ip := None)) res"
  using udp_swarm.shards_announce_ok [OF udp_swarm.intro [OF assms(1,2)] assms(3), of cf req ip vu r,
      where ?'h = 'h] assms(4) by auto

lemma sample_announced:
  "\<exists>res shards' ms r'. shards_announce ref_index_map ref_gen_range sample_config sample_announce
     (0x7F000001 :: u32) (ValidUntil 100) [] sample_shards =
     Some (res, shards', ms :: unit statistics_message list, r')"
  using udp_ref.shards_announce_ok [OF sample_shards_inv, of sample_config sample_announce
      "0x7F000001 :: u32" "ValidUntil 100" "[]", where ?'h = unit] by auto

lemma udp_announce_response_witness:
  "\<exists>res. response_conforms sample_config sample_announce
    ((fst (torrent_abs sample_shards (ar_info_hash sample_announce)))
      (announcing_key sample_announce (0x7F000001 :: u32) := None)) res"
proof -
  obtain res shards' r' and ms :: "unit statistics_message list" where
    "shards_announce ref_index_map ref_gen_range sample_config sample_announce
      (0x7F000001 :: u32) (ValidUntil 100) [] sample_shards = Some (res, shards', ms, r')"
    using sample_announced by blast
  then show ?thesis
    using udp_announce_response [OF ref_index_map_laws ref_gen_range_laws sample_shards_inv]
    by blast
qed

text \<open>A scrape reports the state of the torrents: for every info hash of the request, in order, the
  seeders, the completed count and the leechers of that torrent's map, and zeros for a torrent
  without one.\<close>
theorem udp_scrape_reports:
  assumes "shards_inv shards"
  shows "shards_scrape req shards = \<lparr>ss_transaction_id = sr_transaction_id req,
    ss_torrent_stats = map (\<lambda>h. \<lparr>
      ts_seeders = usize_to_i32_checked (seeders_of (fst (torrent_abs shards h))),
      ts_completed = u64_to_i32_checked (snd (torrent_abs shards h)),
      ts_leechers = usize_to_i32_checked (leechers_of (fst (torrent_abs shards h)))\<rparr>)
      (sr_info_hashes req)\<rparr>"
  by (simp add: shards_scrape_def shards_scrape_stats [OF assms])

lemma udp_scrape_reports_witness:
  "shards_scrape \<lparr>sr_connection_id = 1, sr_transaction_id = 2, sr_info_hashes = [3]\<rparr>
     sample_shards = \<lparr>ss_transaction_id = 2,
    ss_torrent_stats = [\<lparr>
      ts_seeders = usize_to_i32_checked (seeders_of (fst (torrent_abs sample_shards 3))),
      ts_completed = u64_to_i32_checked (snd (torrent_abs sample_shards 3)),
      ts_leechers = usize_to_i32_checked (leechers_of (fst (torrent_abs sample_shards 3)))\<rparr>]\<rparr>"
  using udp_scrape_reports [OF sample_shards_inv,
      of "\<lparr>sr_connection_id = 1, sr_transaction_id = 2, sr_info_hashes = [3]\<rparr>"] by simp

text \<open>C9. A cleaning keeps exactly what is alive: every torrent that the access list allows keeps its peers
  whose deadline has not passed, and its completed count, as long as it has such a peer; every other
  torrent is gone, and the number of torrents reported is the number left.\<close>
theorem udp_clean_keeps_live:
  assumes "shards_inv shards"
    and "clean_and_get_statistics ho cf al now shards = (shards', torrents, peers, hist, ms)"
  shows "shards_inv shards' \<and>
    torrent_abs shards' = (\<lambda>h. spec_clean_torrent cf al now h (torrent_abs shards h)) \<and>
    torrents = sum_list (map length shards')"
  using shards_clean [OF assms(1)] assms(2) by (simp add: clean_and_get_statistics_def)

lemma udp_clean_keeps_live_witness:
  "\<exists>shards'. shards_inv (shards' :: u32 torrent_map_shards) \<and>
    torrent_abs shards' = (\<lambda>h. spec_clean_torrent sample_config {} 5 h (torrent_abs (shards_new 1) h)) \<and>
    (0 :: nat) = sum_list (map length shards')"
  using udp_clean_keeps_live [OF shards_new_inv [of 1],
      of "\<lparr>hist_new = (), hist_record = (\<lambda>n h. h)\<rparr>" sample_config "{}" 5 "[[]]" 0 0 None "[]"]
  by (auto simp: clean_and_get_statistics_def shards_new_def sample_config_def retain_torrents_def)

text \<open>The tracker always answers. In every state reached from the empty maps by announces from any
  address and by cleanings, in any order, the maps satisfy the invariant, and any further announce
  from any address returns a response: no push to a full array, no index out of range, no
  subtraction below zero.\<close>
theorem udp_reachable_answers:
  assumes "maps_reachable im4 im6 gen (ho :: 'h histogram_ops) cf maps"
    and "index_map im4" and "index_map im6" and "rng_source gen"
  shows "maps_inv maps \<and>
    (\<exists>res maps' (ms :: 'h statistics_message list) r'.
      maps_announce im4 im6 gen cf req src vu r maps = Some (res, maps', ms, r'))"
  using reachable_inv [OF assms] maps_announce_total [OF assms(2-4)] by blast

lemma udp_reachable_answers_witness:
  "maps_inv torrent_maps_default \<and>
    (\<exists>res maps' (ms :: unit statistics_message list) r'.
      maps_announce ref_index_map ref_index_map ref_gen_range sample_config sample_announce
        (canonical_new (SocketV4 0x7F000001 6881)) (ValidUntil 100) [] torrent_maps_default =
      Some (res, maps', ms, r'))"
  using udp_reachable_answers [OF maps_reachable.start ref_index_map_laws ref_index_map_laws
      ref_gen_range_laws] by blast

end
