(* ===== verification/Udp_Worker_Spec.thy ===== *)
theory Udp_Worker_Spec
  imports Udp_Worker Udp_Swarm_Spec
begin

text \<open>
  What the UDP socket worker promises: datagrams without a connection id issued to their source neither
  change anything nor draw an answer larger than themselves, listed sources are not served, answers
  echo the request, and the loop never panics, ends only with an error of the poll, and keeps the
  invariant of the swarm.
\<close>

subsection \<open>The answer to a datagram, without the socket\<close>

definition received ::
  "udp_worker_config \<Rightarrow> canonical_socket_addr \<Rightarrow> nat \<Rightarrow> ('r, 'h) udp_worker \<Rightarrow> ('r, 'h) udp_worker" where
  "received cf src n wk =
     (if statistics_active (uc_statistics (wc_swarm cf)) then
        wk\<lparr>wk_statistics := count_for src (\<lambda>s. s\<lparr>sk_bytes_received :=
          sk_bytes_received s + of_nat (n + extra_packet_size src)\<rparr>) (wk_statistics wk)\<rparr>
      else wk)"

definition requested ::
  "udp_worker_config \<Rightarrow> canonical_socket_addr \<Rightarrow> ('r, 'h) udp_worker \<Rightarrow> ('r, 'h) udp_worker" where
  "requested cf src wk =
     (if statistics_active (uc_statistics (wc_swarm cf)) then
        wk\<lparr>wk_statistics := count_for src (\<lambda>s. s\<lparr>sk_requests := sk_requests s + 1\<rparr>) (wk_statistics wk)\<rparr>
      else wk)"

definition datagram_answer ::
  "udp_worker_config \<Rightarrow> 'r udp_crates \<Rightarrow> request_env \<Rightarrow> bytes \<Rightarrow> socket_addr \<Rightarrow>
   ('r, 'h) udp_worker \<Rightarrow> (response option \<times> ('r, 'h) udp_worker) option" where
  "datagram_answer cf xc re datagram source wk =
     (let bs = take BUFFER_SIZE datagram; src = canonical_new source;
          wk1 = received cf src (length bs) wk
      in if socket_port source = 0 then Some (None, wk1)
         else
           (case parse_request bs (max_scrape_torrents (uc_protocol (wc_swarm cf))) of
              Inr request \<Rightarrow> handle_request cf xc re request src (requested cf src wk1)
            | Inl (Sendable cid tid err) \<Rightarrow>
                Some (if connection_id_valid (xc_mac xc) (wk_validator wk1) src cid
                      then Some (ResError \<lparr>er_transaction_id = tid, er_message = err\<rparr>) else None, wk1)
            | Inl (Unsendable _) \<Rightarrow> Some (None, wk1)))"

lemma handle_datagram_answer:
  "handle_datagram cf xc re outcome datagram source (so, wk) =
     Option.bind (datagram_answer cf xc re datagram source wk) (\<lambda>(answer, wk').
       case answer of
         Some response \<Rightarrow> send_response cf (canonical_new source) response False outcome (so, wk')
       | None \<Rightarrow> Some (so, wk'))"
  by (auto simp: handle_datagram_def datagram_answer_def received_def requested_def Let_def
      split: sum.splits request_parse_error.splits)

text \<open>Everything a worker holds but its counters.\<close>

definition same_service :: "('r, 'h) udp_worker \<Rightarrow> ('r, 'h) udp_worker \<Rightarrow> bool" where
  "same_service wk wk' = (wk'\<lparr>wk_statistics := wk_statistics wk\<rparr> = wk)"

lemma same_service_refl [simp]: "same_service wk wk"
  by (simp add: same_service_def)

lemma same_service_trans: "same_service a b \<Longrightarrow> same_service b c \<Longrightarrow> same_service a c"
  by (cases a; cases b; cases c) (simp add: same_service_def)

lemma same_service_stats [simp]: "same_service wk (wk\<lparr>wk_statistics := s\<rparr>)"
  by (simp add: same_service_def)

lemma same_service_counted [simp]:
  "same_service wk (received cf src n wk)" "same_service wk (requested cf src wk)"
  "same_service wk (count_sent addr res k wk)"
  by (simp_all add: received_def requested_def count_sent_def)

lemma same_service_fields:
  assumes "same_service wk wk'"
  shows "wk_access_list wk' = wk_access_list wk" "wk_ip_ban_list wk' = wk_ip_ban_list wk"
    "wk_client_ban_list wk' = wk_client_ban_list wk" "wk_tracker wk' = wk_tracker wk"
    "wk_files wk' = wk_files wk" "wk_torrent_maps wk' = wk_torrent_maps wk"
    "wk_request_filter wk' = wk_request_filter wk" "wk_validator wk' = wk_validator wk"
    "wk_rng wk' = wk_rng wk" "wk_peer_valid_until wk' = wk_peer_valid_until wk"
    "wk_messages wk' = wk_messages wk"
  using assms by (cases wk; cases wk'; simp add: same_service_def)+

lemma same_service_banned:
  "same_service wk wk' \<Longrightarrow> is_list_banned cf re src wk' = is_list_banned cf re src wk"
  by (simp add: is_list_banned_def same_service_fields)

subsection \<open>Requests\<close>

fun response_transaction_id :: "response \<Rightarrow> transaction_id" where
  "response_transaction_id (ResConnect r) = cs_transaction_id r"
| "response_transaction_id (ResAnnounceIpv4 r) = af_transaction_id (as_fixed r)"
| "response_transaction_id (ResAnnounceIpv6 r) = af_transaction_id (as_fixed r)"
| "response_transaction_id (ResScrape r) = ss_transaction_id r"
| "response_transaction_id (ResError r) = er_transaction_id r"

fun response_action :: "response \<Rightarrow> u32" where
  "response_action (ResConnect r) = 0"
| "response_action (ResAnnounceIpv4 r) = 1"
| "response_action (ResAnnounceIpv6 r) = 1"
| "response_action (ResScrape r) = 2"
| "response_action (ResError r) = 3"

lemma write_response_head:
  "take 4 (write_response res) = word_be 4 (response_action res)"
  "sub (write_response res) 4 4 = word_be 4 (response_transaction_id res)"
  by (cases res; simp add: write_connect_response_def write_announce_response_def
      write_scrape_response_def write_error_response_def connect_response_bytes_def
      announce_fixed_bytes_def sub_codec)+

lemma announce_tid:
  "announce_respond im gen cf req key r pm = Some (res, q) \<Longrightarrow>
   af_transaction_id (as_fixed res) = ar_transaction_id req"
  by (cases pm) (auto simp: announce_respond_def announce_response_of_def Let_def case_prod_unfold
      bind_eq_Some_conv)

lemma peer_map_announce_tid:
  "peer_map_announce im gen cf req ip vu r pm = Some (res, q) \<Longrightarrow>
   af_transaction_id (as_fixed res) = ar_transaction_id req"
  by (auto simp: peer_map_announce_def Let_def bind_eq_Some_conv announce_tid split: if_splits)

lemma maps_announce_echo:
  assumes "maps_announce im4 im6 gen cf req src vu r maps = Some (res, q)"
  shows "response_transaction_id res = ar_transaction_id req" and "response_action res = 1"
  using assms
  by (auto simp: maps_announce_def shards_announce_def Let_def peer_map_announce_tid
      split: ip_addr.splits)

lemma security_checks_silent:
  "run_security_checks cf xc re src pid wk = (False, wk') \<Longrightarrow> wk' = wk"
  by (auto simp: run_security_checks_def Let_def split: if_splits option.splits)

lemma handle_request_echo:
  assumes "handle_request cf xc re req src wk = Some (Some res, wk')"
  shows "response_transaction_id res = request_transaction_id req"
    and "response_action res = request_action req \<or> response_action res = 3"
  using assms
  by (auto simp: handle_request_def handle_announce_def Let_def case_prod_unfold maps_announce_echo
      maps_scrape_def shards_scrape_def filter_info_hashes_def
      split: if_splits request.splits)

lemma handle_request_listed:
  "is_list_banned cf re src wk \<Longrightarrow> handle_request cf xc re req src wk = Some (None, wk)"
  by (simp add: handle_request_def)

lemma handle_request_unverified:
  assumes "handle_request cf xc re req src wk = Some (ans, wk')"
    and "\<And>cid. request_connection_id req = Some cid \<Longrightarrow>
      \<not> connection_id_valid (xc_mac xc) (wk_validator wk) src cid"
  shows "wk' = wk" and "ans = Some res \<Longrightarrow> response_action res = 0 \<and> request_action req = 0"
  using assms
  by (auto simp: handle_request_def split: if_splits request.splits)

subsection \<open>Connection ids in datagrams\<close>

definition carries_issued_id ::
  "'r udp_crates \<Rightarrow> connection_validator \<Rightarrow> bytes \<Rightarrow> socket_addr \<Rightarrow> bool" where
  "carries_issued_id xc v datagram source =
     (\<exists>t. be_word (sub datagram 0 8) = issued_at (xc_mac xc) t (canonical_new source) \<and> in_lifetime v t)"

lemma carries_valid:
  "connection_id_valid (xc_mac xc) v (canonical_new source) (be_word (sub datagram 0 8)) \<longleftrightarrow>
   carries_issued_id xc v datagram source"
  by (simp add: carries_issued_id_def valid_iff_issued)

lemma sub_take: "i + n \<le> m \<Longrightarrow> sub (take m bs) i n = sub bs i n"
  by (simp add: sub_def drop_take min_def)

lemma sub_buffer [simp]:
  "sub (take BUFFER_SIZE bs) 0 8 = sub bs 0 8" "sub (take BUFFER_SIZE bs) 8 4 = sub bs 8 4"
  "sub (take BUFFER_SIZE bs) 12 4 = sub bs 12 4"
  by (simp_all add: sub_take BUFFER_SIZE_def)

lemma answer_echo:
  assumes "datagram_answer cf xc re datagram source wk = Some (Some res, wk')"
  shows "16 \<le> length datagram \<and>
    sub datagram 12 4 = word_be 4 (response_transaction_id res) \<and>
    (sub datagram 8 4 = word_be 4 (response_action res) \<or> response_action res = 3)"
proof -
  let ?m = "max_scrape_torrents (uc_protocol (wc_swarm cf))"
  let ?bs = "take BUFFER_SIZE datagram"
  show ?thesis
  proof (cases "parse_request ?bs ?m")
    case (Inr req)
    note h = accepted_head [OF parse_request_accepted [OF Inr]]
    from assms Inr obtain wk2 where "handle_request cf xc re req (canonical_new source) wk2 = Some (Some res, wk')"
      by (auto simp: datagram_answer_def Let_def split: if_splits)
    from handle_request_echo [OF this] h(1-3) show ?thesis by auto
  next
    case (Inl e)
    from assms Inl obtain cid tid err where e: "e = Sendable cid tid err"
      and res: "res = ResError \<lparr>er_transaction_id = tid, er_message = err\<rparr>"
      by (auto simp: datagram_answer_def Let_def split: if_splits request_parse_error.splits)
    from parse_request_sendable [OF Inl [unfolded e]] show ?thesis
      by (auto simp: res word_be_inverse)
  qed
qed

lemma answer_unverified:
  assumes "datagram_answer cf xc re datagram source wk = Some (ans, wk')"
    and "\<not> carries_issued_id xc (wk_validator wk) datagram source"
  shows "same_service wk wk'" and "ans = Some res \<Longrightarrow> response_action res = 0"
proof -
  let ?m = "max_scrape_torrents (uc_protocol (wc_swarm cf))"
  let ?bs = "take BUFFER_SIZE datagram"
  let ?src = "canonical_new source"
  have "same_service wk wk' \<and> (\<forall>res. ans = Some res \<longrightarrow> response_action res = 0)"
  proof (cases "socket_port source = 0")
    case True
    then show ?thesis using assms(1) by (auto simp: datagram_answer_def Let_def)
  next
    case port: False
    show ?thesis
    proof (cases "parse_request ?bs ?m")
      case (Inr req)
      note h = accepted_head [OF parse_request_accepted [OF Inr]]
      define wk2 where "wk2 = requested cf ?src (received cf ?src (length ?bs) wk)"
      have s: "same_service wk wk2"
        unfolding wk2_def by (rule same_service_trans [of _ "received cf ?src (length ?bs) wk"]) simp_all
      have hr: "handle_request cf xc re req ?src wk2 = Some (ans, wk')"
        using assms(1) Inr port by (simp add: datagram_answer_def Let_def wk2_def)
      have "\<not> connection_id_valid (xc_mac xc) (wk_validator wk2) ?src cid"
        if "request_connection_id req = Some cid" for cid
        using h(4) [OF that] assms(2) carries_valid [of xc "wk_validator wk" source datagram]
          same_service_fields(8) [OF s] by simp
      from handle_request_unverified [OF hr this] s show ?thesis by auto
    next
      case (Inl e)
      show ?thesis
      proof (cases e)
        case (Sendable cid tid err)
        have "cid = be_word (sub datagram 0 8)"
          using parse_request_sendable [OF Inl [unfolded Sendable]] by simp
        then have "\<not> connection_id_valid (xc_mac xc) (wk_validator (received cf ?src (length ?bs) wk)) ?src cid"
          using assms(2) carries_valid [of xc "wk_validator wk" source datagram]
            same_service_fields(8) [OF same_service_counted(1) [of wk cf ?src "length ?bs"]] by simp
        then show ?thesis
          using assms(1) port Inl Sendable by (auto simp: datagram_answer_def Let_def)
      next
        case (Unsendable e')
        then show ?thesis using assms(1) port Inl by (auto simp: datagram_answer_def Let_def)
      qed
    qed
  qed
  then show "same_service wk wk'" and "ans = Some res \<Longrightarrow> response_action res = 0" by auto
qed

lemma answer_listed:
  assumes "datagram_answer cf xc re datagram source wk = Some (ans, wk')"
    and "is_list_banned cf re (canonical_new source) wk"
  shows "same_service wk wk'" and "ans = Some res \<Longrightarrow> response_action res = 3"
proof -
  let ?m = "max_scrape_torrents (uc_protocol (wc_swarm cf))"
  let ?bs = "take BUFFER_SIZE datagram"
  let ?src = "canonical_new source"
  let ?wk1 = "received cf ?src (length ?bs) wk"
  have s: "same_service wk (requested cf ?src ?wk1)"
    by (rule same_service_trans [of _ ?wk1]) simp_all
  have l: "is_list_banned cf re ?src (requested cf ?src ?wk1)"
    using assms(2) same_service_banned [OF s] by simp
  have "same_service wk wk' \<and> (\<forall>res. ans = Some res \<longrightarrow> response_action res = 3)"
    using assms(1) s handle_request_listed [OF l]
    by (auto simp: datagram_answer_def Let_def split: if_splits sum.splits request_parse_error.splits)
  then show "same_service wk wk'" and "ans = Some res \<Longrightarrow> response_action res = 3" by auto
qed

subsection \<open>Sending\<close>

lemma send_response_sent:
  assumes "send_response cf addr res d outcome (so, wk) = Some (so', wk')"
  shows "same_service wk wk'"
    and "so_sent so' = so_sent so \<or>
      (\<exists>target. target_addr so addr = Some target \<and>
        so_sent so' = so_sent so @ [(target, write_response res)])"
  using assms
  by (auto simp: send_response_def Let_def push_resend_def
      split: if_splits send_outcome.splits option.splits)

lemma length_connect_response [simp]: "length (write_connect_response r) = 16"
  by (simp add: write_connect_response_def connect_response_bytes_def)

lemma write_connect_length: "response_action res = 0 \<Longrightarrow> length (write_response res) = 16"
  by (cases res) (auto simp: write_connect_response_def connect_response_bytes_def)

lemma datagram_sent:
  assumes "handle_datagram cf xc re outcome datagram source (so, wk) = Some (so', wk')"
  obtains "datagram_answer cf xc re datagram source wk = Some (None, wk')" "so' = so"
  | res wk1 where "datagram_answer cf xc re datagram source wk = Some (Some res, wk1)"
      "same_service wk1 wk'"
      "so_sent so' = so_sent so \<or> (\<exists>target. target_addr so (canonical_new source) = Some target \<and>
        so_sent so' = so_sent so @ [(target, write_response res)])"
proof -
  obtain ans wk1 where a: "datagram_answer cf xc re datagram source wk = Some (ans, wk1)"
    and r: "(case ans of
        Some res \<Rightarrow> send_response cf (canonical_new source) res False outcome (so, wk1)
      | None \<Rightarrow> Some (so, wk1)) = Some (so', wk')"
    using assms by (auto simp: handle_datagram_answer bind_eq_Some_conv)
  show thesis
  proof (cases ans)
    case None
    then show ?thesis using a r that(1) by simp
  next
    case (Some res)
    then have "send_response cf (canonical_new source) res False outcome (so, wk1) = Some (so', wk')"
      using r by simp
    from that(2) [OF _ send_response_sent [OF this]] a Some show ?thesis by blast
  qed
qed

subsection \<open>Properties of one datagram\<close>

definition sample_worker_config :: udp_worker_config where
  "sample_worker_config = \<lparr>wc_swarm = sample_config, wc_ip_ban_mode = IpBanOn,
     wc_request_filter = request_filter_config_default, wc_client_ban = client_ban_config_default,
     wc_resend_buffer_max_len = 2, wc_max_peer_age = 1200\<rparr>"

definition sample_crates :: "nat list udp_crates" where
  "sample_crates = \<lparr>xc_map4 = ref_index_map, xc_map6 = ref_index_map, xc_gen = ref_gen_range,
     xc_mac = (\<lambda>bs. of_nat (length bs)), xc_show_ip = octets\<rparr>"

definition sample_worker :: "(nat list, unit) udp_worker" where
  "sample_worker = \<lparr>wk_access_list = {}, wk_ip_ban_list = \<lparr>banned_ips = {V4 9}, banned_ranges = []\<rparr>,
     wk_client_ban_list = client_ban_list_default, wk_tracker = None, wk_files = Map.empty,
     wk_torrent_maps = torrent_maps_default, wk_request_filter = request_filter_default,
     wk_validator = validator_new 120, wk_rng = [], wk_peer_valid_until = ValidUntil 1200,
     wk_statistics = (let z = \<lparr>sk_requests = 0, sk_responses_connect = 0, sk_responses_announce = 0,
       sk_responses_scrape = 0, sk_responses_error = 0, sk_bytes_received = 0, sk_bytes_sent = 0\<rparr>
       in \<lparr>stats_ipv4 = z, stats_ipv6 = z\<rparr>),
     wk_messages = []\<rparr>"

definition sample_env :: request_env where
  "sample_env = \<lparr>re_now = 0, re_violation_now = 0, re_env = \<lparr>en_now = 0, en_unix_now = 0,
     en_probe = ProbeOk, en_write = WriteOk, en_rename_ok = True\<rparr>\<rparr>"

definition sample_connect :: bytes where
  "sample_connect = write_connect_request \<lparr>cr_transaction_id = 9\<rparr>"

lemma sample_connect_length: "length sample_connect = 16"
  by (simp add: sample_connect_def write_connect_request_def)

lemma sample_connect_facts:
  "length sample_connect = 16" "take BUFFER_SIZE sample_connect = sample_connect"
  "parse_request sample_connect m = Inr (ReqConnect \<lparr>cr_transaction_id = 9\<rparr>)"
  by (simp_all add: sample_connect_length BUFFER_SIZE_def)
    (simp add: sample_connect_def parse_write_connect)

lemma sample_connect_answer:
  "datagram_answer sample_worker_config sample_crates sample_env sample_connect (SocketV4 7 6881)
     sample_worker = Some (Some (ResConnect \<lparr>cs_transaction_id = 9,
       cs_connection_id = issued_at (xc_mac sample_crates) 0 (Canonical (SocketV4 7 6881))\<rparr>),
     requested sample_worker_config (Canonical (SocketV4 7 6881))
       (received sample_worker_config (Canonical (SocketV4 7 6881)) 16 sample_worker))"
proof -
  let ?wk = "requested sample_worker_config (Canonical (SocketV4 7 6881))
       (received sample_worker_config (Canonical (SocketV4 7 6881)) 16 sample_worker)"
  have s: "same_service sample_worker ?wk"
    by (rule same_service_trans [of _ "received sample_worker_config (Canonical (SocketV4 7 6881)) 16
      sample_worker"]) simp_all
  have l: "\<not> is_list_banned sample_worker_config sample_env (Canonical (SocketV4 7 6881)) ?wk"
    unfolding same_service_banned [OF s]
    by (simp add: is_list_banned_def sample_worker_def sample_worker_config_def is_banned_def
        ban_matches_def)
  have p: "\<not> is_private_ip_blocked sample_worker_config (Canonical (SocketV4 7 6881)) wk" for wk
    by (simp add: is_private_ip_blocked_def sample_worker_config_def request_filter_config_default_def)
  have v: "cv_seconds_since_start (wk_validator ?wk) = 0"
    unfolding same_service_fields(8) [OF s] by (simp add: sample_worker_def validator_new_def)
  show ?thesis
    unfolding datagram_answer_def Let_def sample_connect_facts socket_port.simps canonical_new.simps
    using l p v by (simp add: handle_request_def create_is_issued)
qed

lemma sample_handled:
  "\<exists>so' wk'. handle_datagram sample_worker_config sample_crates sample_env (SendOk 16) sample_connect
      (SocketV4 7 6881) (socket_create sample_worker_config True, sample_worker) = Some (so', wk') \<and>
    so_sent so' = so_sent (socket_create sample_worker_config True) @ [(SocketV4 7 6881,
      write_response (ResConnect \<lparr>cs_transaction_id = 9,
       cs_connection_id = issued_at (xc_mac sample_crates) 0 (Canonical (SocketV4 7 6881))\<rparr>))]"
  by (simp add: handle_datagram_answer sample_connect_answer send_response_def Let_def
      write_connect_length BUFFER_SIZE_def socket_create_def target_addr_def)

lemma nat_be_numeral:
  "nat_be (numeral k) x = nat_be (pred_numeral k) (x div 256) @ [word_of_nat (x mod 256)]"
  using nat_be.simps(2) [of "pred_numeral k" x] unfolding numeral_eq_Suc [of k] .

lemma sample_not_issued: "\<not> carries_issued_id sample_crates v sample_connect (SocketV4 ip 6881)"
proof -
  have b: "sub sample_connect 0 8 = word_be 8 PROTOCOL_IDENTIFIER"
    by (simp add: sample_connect_def write_connect_request_def sub_codec)
  have "to_ne_bytes 8 (be_word (sub sample_connect 0 8) :: u64) = rev (word_be 8 PROTOCOL_IDENTIFIER)"
    by (simp add: b to_ne_bytes_def)
  also have "word_be 8 PROTOCOL_IDENTIFIER = [0, 0, 4, 23, 39, 16, 25, 128]"
    by (simp add: word_be_def PROTOCOL_IDENTIFIER_def nat_be_numeral)
  finally have "drop 4 (to_ne_bytes 8 (be_word (sub sample_connect 0 8) :: u64)) = [23, 4, 0, 0]"
    by simp
  moreover have "word_be 4 (8 :: u32) = [0, 0, 0, 8]"
    by (simp add: word_be_def nat_be_numeral)
  ultimately have "drop 4 (to_ne_bytes 8 (be_word (sub sample_connect 0 8) :: u64)) \<noteq> word_be 4 (8 :: u32)"
    by simp
  then show ?thesis
    by (simp add: carries_valid [symmetric] connection_id_valid_def Let_def validator_hash_def
        sample_crates_def)
qed

text \<open>C12. The tracker is no amplifier. A datagram draws at most one answer, sent to its source, and unless the
  datagram carries a connection id that was issued to its source's IP and has not expired, the answer
  is no longer than the datagram.\<close>

theorem no_amplification:
  assumes "handle_datagram cf xc re outcome datagram source (so, wk) = Some (so', wk')"
  shows "so_sent so' = so_sent so \<or>
    (\<exists>target bs. so_sent so' = so_sent so @ [(target, bs)] \<and>
       target_addr so (canonical_new source) = Some target \<and>
       (length bs \<le> length datagram \<or> carries_issued_id xc (wk_validator wk) datagram source))"
  using assms
proof (cases rule: datagram_sent)
  case 1
  then show ?thesis by simp
next
  case (2 res wk1)
  have "length (write_response res) \<le> length datagram"
    if "\<not> carries_issued_id xc (wk_validator wk) datagram source"
    using answer_unverified(2) [OF 2(1) that refl] answer_echo [OF 2(1)]
    by (simp add: write_connect_length)
  then show ?thesis using 2(3) by blast
qed

lemma no_amplification_witness:
  "\<exists>so' wk'. handle_datagram sample_worker_config sample_crates sample_env (SendOk 16) sample_connect
      (SocketV4 7 6881) (socket_create sample_worker_config True, sample_worker) = Some (so', wk') \<and>
    (so_sent so' = so_sent (socket_create sample_worker_config True) \<or>
     (\<exists>target bs. so_sent so' = so_sent (socket_create sample_worker_config True) @ [(target, bs)] \<and>
       target_addr (socket_create sample_worker_config True) (canonical_new (SocketV4 7 6881)) = Some target \<and>
       (length bs \<le> length sample_connect \<or>
        carries_issued_id sample_crates (wk_validator sample_worker) sample_connect (SocketV4 7 6881))))"
  using sample_handled no_amplification by blast

text \<open>C13. Spoofed datagrams have no effect. A datagram without a connection id that was issued to its source's
  IP and has not expired changes nothing but the counters: no peer, no violation, no file, no message;
  it is answered by a connect response or not at all.\<close>

theorem unverified_datagrams_change_nothing:
  assumes "handle_datagram cf xc re outcome datagram source (so, wk) = Some (so', wk')"
    and "\<not> carries_issued_id xc (wk_validator wk) datagram source"
  shows "same_service wk wk' \<and>
    (so_sent so' = so_sent so \<or>
     (\<exists>target bs. so_sent so' = so_sent so @ [(target, bs)] \<and> take 4 bs = word_be 4 (0 :: u32)))"
  using assms(1)
proof (cases rule: datagram_sent)
  case 1
  then show ?thesis using answer_unverified(1) [OF 1(1) assms(2)] by simp
next
  case (2 res wk1)
  have "same_service wk wk'"
    using answer_unverified(1) [OF 2(1) assms(2)] 2(2) by (rule same_service_trans)
  moreover have "take 4 (write_response res) = word_be 4 (0 :: u32)"
    using answer_unverified(2) [OF 2(1) assms(2) refl] by (simp add: write_response_head)
  ultimately show ?thesis using 2(3) by blast
qed

lemma unverified_datagrams_change_nothing_witness:
  "\<exists>so' wk'. handle_datagram sample_worker_config sample_crates sample_env (SendOk 16) sample_connect
      (SocketV4 7 6881) (socket_create sample_worker_config True, sample_worker) = Some (so', wk') \<and>
    same_service sample_worker wk'"
  using sample_handled unverified_datagrams_change_nothing sample_not_issued by blast

text \<open>C21. Listed sources are not served. A datagram from an address of the IP ban list or with an automatic ban
  changes nothing but the counters, and is not answered, with one exception: the error for a malformed
  request that carries a connection id issued to its source before it was listed.\<close>

theorem listed_sources_are_not_served:
  assumes "handle_datagram cf xc re outcome datagram source (so, wk) = Some (so', wk')"
    and "is_list_banned cf re (canonical_new source) wk"
  shows "same_service wk wk' \<and>
    (so_sent so' = so_sent so \<or>
     (\<exists>target bs. so_sent so' = so_sent so @ [(target, bs)] \<and> take 4 bs = word_be 4 (3 :: u32) \<and>
        carries_issued_id xc (wk_validator wk) datagram source))"
  using assms(1)
proof (cases rule: datagram_sent)
  case 1
  then show ?thesis using answer_listed(1) [OF 1(1) assms(2)] by simp
next
  case (2 res wk1)
  have a: "response_action res = 3" by (rule answer_listed(2) [OF 2(1) assms(2) refl])
  have "same_service wk wk'"
    using answer_listed(1) [OF 2(1) assms(2)] 2(2) by (rule same_service_trans)
  moreover have "carries_issued_id xc (wk_validator wk) datagram source"
    using answer_unverified(2) [OF 2(1) _ refl] a by fastforce
  moreover have "take 4 (write_response res) = word_be 4 (3 :: u32)"
    using a by (simp add: write_response_head)
  ultimately show ?thesis using 2(3) by blast
qed

lemma sample_listed:
  "is_list_banned sample_worker_config sample_env (canonical_new (SocketV4 9 6881)) sample_worker"
  by (simp add: is_list_banned_def sample_worker_def sample_worker_config_def is_banned_def
      ban_matches_def)

lemma listed_sources_are_not_served_witness:
  "\<exists>so' wk'. handle_datagram sample_worker_config sample_crates sample_env (SendOk 16) sample_connect
      (SocketV4 9 6881) (socket_create sample_worker_config True, sample_worker) = Some (so', wk') \<and>
    same_service sample_worker wk' \<and> so_sent so' = so_sent (socket_create sample_worker_config True)"
proof -
  obtain so' wk' where h: "handle_datagram sample_worker_config sample_crates sample_env (SendOk 16)
      sample_connect (SocketV4 9 6881) (socket_create sample_worker_config True, sample_worker) =
      Some (so', wk')"
    using sample_listed
    by (simp add: handle_datagram_answer datagram_answer_def Let_def sample_connect_facts
        handle_request_listed
        same_service_banned [OF same_service_trans [OF same_service_counted(1) same_service_counted(2)]])
  from listed_sources_are_not_served [OF h sample_listed] sample_not_issued h show ?thesis by blast
qed

text \<open>C22. Answers are typed by their request. Whatever is sent on a datagram starts with the action of the
  request, or of an error, followed by the transaction id of the request.\<close>

theorem answers_echo_the_request:
  assumes "handle_datagram cf xc re outcome datagram source (so, wk) = Some (so', wk')"
    and "so_sent so' = so_sent so @ [(target, bs)]"
  shows "16 \<le> length datagram \<and>
    (take 4 bs = sub datagram 8 4 \<or> take 4 bs = word_be 4 (3 :: u32)) \<and>
    sub bs 4 4 = sub datagram 12 4"
  using assms(1)
proof (cases rule: datagram_sent)
  case 1
  then show ?thesis using assms(2) by simp
next
  case (2 res wk1)
  then have "bs = write_response res" using assms(2) by auto
  then show ?thesis using answer_echo [OF 2(1)] by (auto simp: write_response_head)
qed

lemma answers_echo_the_request_witness:
  "\<exists>so' wk' target bs. handle_datagram sample_worker_config sample_crates sample_env (SendOk 16)
      sample_connect (SocketV4 7 6881) (socket_create sample_worker_config True, sample_worker) =
      Some (so', wk') \<and> so_sent so' = so_sent (socket_create sample_worker_config True) @ [(target, bs)] \<and>
    sub bs 4 4 = sub sample_connect 12 4"
  using sample_handled answers_echo_the_request by blast

subsection \<open>The loop\<close>

text \<open>
  The invariant of a worker: its maps are well-formed, and the responses that wait on a socket can be
  sent through it and are no more than the setting allows.
\<close>

definition socket_ok :: "udp_worker_config \<Rightarrow> bool \<Rightarrow> udp_socket \<Rightarrow> bool" where
  "socket_ok cf v4 so = (so_is_v4 so = v4 \<and>
     (case so_resend_buffer so of
        None \<Rightarrow> True
      | Some rs \<Rightarrow> length rs \<le> wc_resend_buffer_max_len cf \<and>
          list_all (\<lambda>(addr, _). v4 \<longrightarrow> is_ipv4 addr) rs))"

definition worker_ok :: "udp_worker_config \<Rightarrow> ('r, 'h) worker_state \<Rightarrow> bool" where
  "worker_ok cf w = (maps_inv (wk_torrent_maps (uw_worker w)) \<and>
     pred_option (socket_ok cf True) (uw_socket4 w) \<and> pred_option (socket_ok cf False) (uw_socket6 w))"

text \<open>An IPv4 socket receives from IPv4 addresses only.\<close>

fun from_family :: "bool \<Rightarrow> recv_event \<Rightarrow> bool" where
  "from_family v4 (Received datagram source re outcome) = (v4 \<longrightarrow> is_ipv4 (Canonical source))"
| "from_family v4 RecvError = True"

definition round_ok :: "round_input \<Rightarrow> bool" where
  "round_ok ri = (snd (ri_elapsed ri) \<le> u32_max \<and>
     (\<forall>events. ri_polled ri = Inr events \<longrightarrow> list_all (\<lambda>(v4, es). list_all (from_family v4) es) events))"

definition crates_ok :: "'r udp_crates \<Rightarrow> bool" where
  "crates_ok xc = (index_map (xc_map4 xc) \<and> index_map (xc_map6 xc) \<and> rng_source (xc_gen xc))"

lemma is_ipv4_canonical: "is_ipv4 (Canonical a) \<Longrightarrow> is_ipv4 (canonical_new a)"
  by (cases a) auto

lemma target_exists: "so_is_v4 so \<longrightarrow> is_ipv4 addr \<Longrightarrow> \<exists>t. target_addr so addr = Some t"
  by (cases addr; cases "get_addr addr") (auto simp: target_addr_def)

lemma send_response_ok:
  assumes "socket_ok cf v4 so" and "v4 \<longrightarrow> is_ipv4 addr"
  shows "\<exists>so' wk'. send_response cf addr res d outcome (so, wk) = Some (so', wk') \<and>
    socket_ok cf v4 so' \<and> same_service wk wk'"
proof -
  obtain t where t: "target_addr so addr = Some t"
    using target_exists [of so addr] assms by (auto simp: socket_ok_def)
  show ?thesis
    using assms t
    by (auto simp: send_response_def Let_def push_resend_def socket_ok_def
        split: send_outcome.splits option.splits)
qed

lemma record_worker_violation_maps [simp]:
  "wk_torrent_maps (record_worker_violation xc re ip reason wk) = wk_torrent_maps wk"
  by (simp add: record_worker_violation_def case_prod_unfold Let_def split: option.splits)

lemma security_checks_maps:
  "run_security_checks cf xc re src pid wk = (b, wk') \<Longrightarrow> wk_torrent_maps wk' = wk_torrent_maps wk"
  by (auto simp: run_security_checks_def Let_def split: if_splits option.splits)

lemma worker_announce_ok:
  assumes "crates_ok xc" and "maps_inv (wk_torrent_maps wk)"
  shows "\<exists>ans wk' :: ('r, 'h) udp_worker. handle_announce cf xc request src wk = Some (ans, wk') \<and>
    maps_inv (wk_torrent_maps wk')"
  using maps_announce_total [of "xc_map4 xc" "xc_map6 xc" "xc_gen xc" "wk_torrent_maps wk"
      "wc_swarm cf" request src "wk_peer_valid_until wk" "wk_rng wk", where ?'h = 'h] assms
  by (auto simp: handle_announce_def crates_ok_def)

lemma handle_request_ok:
  assumes "crates_ok xc" and "maps_inv (wk_torrent_maps wk)"
  shows "\<exists>ans wk' :: ('r, 'h) udp_worker. handle_request cf xc re req src wk = Some (ans, wk') \<and>
    maps_inv (wk_torrent_maps wk')"
proof (cases req)
  case (ReqConnect r)
  then show ?thesis using assms(2) by (simp add: handle_request_def)
next
  case (ReqAnnounce r)
  obtain b wk1 where c: "run_security_checks cf xc re src (Some (ar_peer_id r)) wk = (b, wk1)"
    by fastforce
  then have "maps_inv (wk_torrent_maps wk1)" using assms(2) by (simp add: security_checks_maps)
  then show ?thesis
    using ReqAnnounce c assms worker_announce_ok [OF assms(1), of wk1 cf r src]
    by (simp add: handle_request_def)
next
  case (ReqScrape r)
  obtain b wk1 where c: "run_security_checks cf xc re src None wk = (b, wk1)"
    by fastforce
  then have "maps_inv (wk_torrent_maps wk1)" using assms(2) by (simp add: security_checks_maps)
  then show ?thesis using ReqScrape c assms by (simp add: handle_request_def Let_def)
qed

lemma counted_maps [simp]:
  "wk_torrent_maps (received cf src n wk) = wk_torrent_maps wk"
  "wk_torrent_maps (requested cf src wk) = wk_torrent_maps wk"
  by (simp_all add: received_def requested_def)

lemma datagram_answer_ok:
  assumes "crates_ok xc" and "maps_inv (wk_torrent_maps wk)"
  shows "\<exists>ans wk' :: ('r, 'h) udp_worker. datagram_answer cf xc re datagram source wk = Some (ans, wk') \<and>
    maps_inv (wk_torrent_maps wk')"
proof (cases "parse_request (take BUFFER_SIZE datagram) (max_scrape_torrents (uc_protocol (wc_swarm cf)))")
  case (Inl e)
  then show ?thesis
    using assms(2) by (cases e) (simp_all add: datagram_answer_def Let_def)
next
  case (Inr req)
  then show ?thesis
    using assms(2) handle_request_ok [OF assms(1), of "requested cf (canonical_new source)
      (received cf (canonical_new source) (length (take BUFFER_SIZE datagram)) wk)"]
    by (simp add: datagram_answer_def Let_def)
qed

lemma handle_datagram_ok:
  assumes "crates_ok xc" and "maps_inv (wk_torrent_maps wk)" and "socket_ok cf v4 so"
    and "v4 \<longrightarrow> is_ipv4 (Canonical source)"
  shows "\<exists>so' wk' :: ('r, 'h) udp_worker. handle_datagram cf xc re outcome datagram source (so, wk) =
      Some (so', wk') \<and> socket_ok cf v4 so' \<and> maps_inv (wk_torrent_maps wk')"
proof -
  obtain ans and wk1 :: "('r, 'h) udp_worker" where
    a: "datagram_answer cf xc re datagram source wk = Some (ans, wk1)"
    and m: "maps_inv (wk_torrent_maps wk1)"
    using datagram_answer_ok [OF assms(1,2)] by blast
  show ?thesis
  proof (cases ans)
    case None
    then show ?thesis using a m assms(3) by (simp add: handle_datagram_answer)
  next
    case (Some res)
    obtain so' wk' where "send_response cf (canonical_new source) res False outcome (so, wk1) = Some (so', wk')"
      "socket_ok cf v4 so'" "same_service wk1 wk'"
      using send_response_ok [OF assms(3)] assms(4) is_ipv4_canonical by blast
    then show ?thesis
      using a m Some by (simp add: handle_datagram_answer same_service_fields(6))
  qed
qed

lemma read_and_handle_ok:
  assumes "crates_ok xc" and "list_all (from_family v4) es"
    and "maps_inv (wk_torrent_maps wk)" and "socket_ok cf v4 so"
  shows "\<exists>so' wk' :: ('r, 'h) udp_worker. read_and_handle_requests cf xc es (so, wk) = Some (so', wk') \<and>
    socket_ok cf v4 so' \<and> maps_inv (wk_torrent_maps wk')"
  using assms(2-4)
proof (induction es arbitrary: so wk)
  case Nil
  then show ?case by simp
next
  case (Cons e es)
  show ?case
  proof (cases e)
    case (Received datagram source re outcome)
    then obtain so1 and wk1 :: "('r, 'h) udp_worker" where
      "handle_datagram cf xc re outcome datagram source (so, wk) = Some (so1, wk1)"
      "socket_ok cf v4 so1" "maps_inv (wk_torrent_maps wk1)"
      using handle_datagram_ok [OF assms(1) Cons.prems(2,3)] Cons.prems(1) by fastforce
    then show ?thesis using Cons Received by simp
  next
    case RecvError
    then show ?thesis using Cons by simp
  qed
qed

text \<open>The responses that fit the buffer, each handed over once.\<close>

definition resends :: "udp_socket \<Rightarrow> (canonical_socket_addr \<times> response) list \<Rightarrow> (socket_addr \<times> bytes) list" where
  "resends so rs = map (\<lambda>(addr, res). (the (target_addr so addr), write_response res))
     (filter (\<lambda>(_, res). length (write_response res) \<le> BUFFER_SIZE) rs)"

lemma send_again:
  assumes "socket_ok cf v4 so" and "v4 \<longrightarrow> is_ipv4 addr"
  shows "\<exists>so' wk'. send_response cf addr res True outcome (so, wk) = Some (so', wk') \<and>
    so_is_v4 so' = so_is_v4 so \<and> so_resend_buffer so' = so_resend_buffer so \<and>
    so_sent so' = so_sent so @ resends so [(addr, res)] \<and> same_service wk wk'"
proof -
  obtain t where t: "target_addr so addr = Some t"
    using target_exists [of so addr] assms by (auto simp: socket_ok_def)
  then show ?thesis
    by (auto simp: send_response_def Let_def resends_def split: send_outcome.splits)
qed

lemma resends_socket: "so_is_v4 so' = so_is_v4 so \<Longrightarrow> resends so' rs = resends so rs"
  by (simp add: resends_def target_addr_def)

lemma resend_all_ok:
  assumes "socket_ok cf v4 so" and "list_all (\<lambda>(addr, _). v4 \<longrightarrow> is_ipv4 addr) rs"
  shows "\<exists>so' wk'. resend_all cf outcomes rs (so, wk) = Some (so', wk') \<and>
    so_is_v4 so' = so_is_v4 so \<and> so_resend_buffer so' = so_resend_buffer so \<and>
    so_sent so' = so_sent so @ resends so rs \<and> same_service wk wk'"
  using assms
proof (induction rs arbitrary: so wk outcomes)
  case Nil
  then show ?case by (simp add: resends_def)
next
  case (Cons e rs)
  obtain addr res where e: "e = (addr, res)" by fastforce
  obtain so1 wk1 where s: "send_response cf addr res True (outcomes 0) (so, wk) = Some (so1, wk1)"
    and so1: "so_is_v4 so1 = so_is_v4 so" "so_resend_buffer so1 = so_resend_buffer so"
      "so_sent so1 = so_sent so @ resends so [(addr, res)]" and w1: "same_service wk wk1"
    using send_again [of cf v4 so addr res "outcomes 0" wk] Cons.prems e by auto
  have "socket_ok cf v4 so1" using Cons.prems(1) so1(1,2) by (simp add: socket_ok_def)
  then obtain so' wk' where r: "resend_all cf (\<lambda>i. outcomes (Suc i)) rs (so1, wk1) = Some (so', wk')"
    and so': "so_is_v4 so' = so_is_v4 so1" "so_resend_buffer so' = so_resend_buffer so1"
      "so_sent so' = so_sent so1 @ resends so1 rs" and w': "same_service wk1 wk'"
    using Cons.IH [of so1 "\<lambda>i. outcomes (Suc i)" wk1] Cons.prems(2) by auto
  have "resends so [(addr, res)] @ resends so1 rs = resends so (e # rs)"
    by (simp add: resends_socket [OF so1(1)] e) (simp add: resends_def)
  then show ?case
    using s r so1 so' same_service_trans [OF w1 w'] by (simp add: e)
qed

lemma resend_failed_ok:
  assumes "socket_ok cf v4 so"
  shows "\<exists>so' wk'. resend_failed cf outcomes (so, wk) = Some (so', wk') \<and> socket_ok cf v4 so' \<and>
    so_resend_buffer so' = map_option (\<lambda>_. []) (so_resend_buffer so) \<and>
    so_sent so' = so_sent so @ resends so (case so_resend_buffer so of None \<Rightarrow> [] | Some rs \<Rightarrow> rs) \<and>
    same_service wk wk'"
proof (cases "so_resend_buffer so")
  case None
  then show ?thesis using assms by (simp add: resend_failed_def resends_def)
next
  case (Some rs)
  let ?so = "so\<lparr>so_resend_buffer := Some []\<rparr>"
  have "socket_ok cf v4 ?so" "list_all (\<lambda>(addr, _). v4 \<longrightarrow> is_ipv4 addr) rs"
    using assms Some by (auto simp: socket_ok_def)
  from resend_all_ok [OF this, of outcomes wk] obtain so' wk' where
    "resend_all cf outcomes rs (?so, wk) = Some (so', wk')" "so_is_v4 so' = so_is_v4 so"
    "so_resend_buffer so' = Some []" "so_sent so' = so_sent so @ resends ?so rs" "same_service wk wk'"
    by auto
  moreover have "resends ?so rs = resends so rs" by (rule resends_socket) simp
  ultimately show ?thesis
    using assms Some by (simp add: resend_failed_def socket_ok_def)
qed

text \<open>One step on a socket, lifted to the worker.\<close>

lemma on_socket_ok:
  assumes "worker_ok cf w"
    and "\<And>so. socket_ok cf v4 so \<Longrightarrow> \<exists>so' wk'. f (so, uw_worker w) = Some (so', wk') \<and>
      socket_ok cf v4 so' \<and> maps_inv (wk_torrent_maps wk')"
  shows "\<exists>w'. on_socket v4 f w = Some w' \<and> worker_ok cf w'"
proof (cases "if v4 then uw_socket4 w else uw_socket6 w")
  case None
  then show ?thesis using assms(1) by (auto simp: on_socket_def)
next
  case (Some so)
  then have "socket_ok cf v4 so"
    using assms(1) by (cases v4) (auto simp: worker_ok_def)
  from assms(2) [OF this] obtain so' wk' where "f (so, uw_worker w) = Some (so', wk')"
    "socket_ok cf v4 so'" "maps_inv (wk_torrent_maps wk')" by blast
  then show ?thesis
    using Some assms(1) by (cases v4) (auto simp: on_socket_def worker_ok_def)
qed

lemma handle_events_ok:
  assumes "crates_ok xc" and "list_all (\<lambda>(v4, es). list_all (from_family v4) es) events"
    and "worker_ok cf w"
  shows "\<exists>w'. handle_events cf xc events w = Some w' \<and> worker_ok cf w'"
  using assms(2,3)
proof (induction events arbitrary: w)
  case Nil
  then show ?case by simp
next
  case (Cons e events)
  obtain v4 es where e: "e = (v4, es)" by fastforce
  have "maps_inv (wk_torrent_maps (uw_worker w))" using Cons.prems(2) by (simp add: worker_ok_def)
  then obtain w1 where "on_socket v4 (read_and_handle_requests cf xc es) w = Some w1" "worker_ok cf w1"
    using on_socket_ok [OF Cons.prems(2), of v4 "read_and_handle_requests cf xc es"]
      read_and_handle_ok [OF assms(1)] Cons.prems(1) e by fastforce
  then show ?case using Cons.IH [of w1] Cons.prems(1) by (simp add: e)
qed

lemma resend_round_ok:
  assumes "worker_ok cf w"
  shows "\<exists>w'. on_socket v4 (resend_failed cf outcomes) w = Some w' \<and> worker_ok cf w'"
proof (rule on_socket_ok [OF assms])
  fix so
  assume "socket_ok cf v4 so"
  from resend_failed_ok [OF this, of outcomes "uw_worker w"]
  show "\<exists>so' wk'. resend_failed cf outcomes (so, uw_worker w) = Some (so', wk') \<and>
      socket_ok cf v4 so' \<and> maps_inv (wk_torrent_maps wk')"
    using assms by (auto simp: worker_ok_def same_service_fields(6))
qed

lemma update_times_ok:
  "snd elapsed \<le> u32_max \<Longrightarrow>
   \<exists>wk'. update_times cf elapsed wk = Some wk' \<and> wk_torrent_maps wk' = wk_torrent_maps wk"
  by (simp add: update_times_def valid_until_new_def seconds_elapsed_def)

lemma on_socket_counter: "on_socket v4 f w = Some w' \<Longrightarrow> uw_iter_counter w' = uw_iter_counter w"
  by (auto simp: on_socket_def split: option.splits if_splits)

lemma handle_events_counter: "handle_events cf xc events w = Some w' \<Longrightarrow> uw_iter_counter w' = uw_iter_counter w"
  by (induction cf xc events w rule: handle_events.induct)
    (auto simp: bind_eq_Some_conv dest: on_socket_counter)

lemma worker_round_ok:
  assumes "crates_ok xc" and "round_ok ri" and "worker_ok cf w"
  shows "\<exists>w'. worker_round cf xc ri w = Some (w', map_sum id (\<lambda>_. ()) (ri_polled ri)) \<and> worker_ok cf w' \<and>
    uw_iter_counter w' = (if isl (ri_polled ri) then uw_iter_counter w else uw_iter_counter w + 1)"
proof (cases "ri_polled ri")
  case (Inl err)
  then show ?thesis using assms(3) by (simp add: worker_round_def)
next
  case (Inr events)
  obtain w1 where w1: "handle_events cf xc events w = Some w1" "worker_ok cf w1"
    using handle_events_ok [OF assms(1) _ assms(3)] assms(2) Inr by (auto simp: round_ok_def)
  obtain w2 where w2: "on_socket True (resend_failed cf (ri_outcomes4 ri)) w1 = Some w2" "worker_ok cf w2"
    using resend_round_ok [OF w1(2)] by blast
  obtain w3 where w3: "on_socket False (resend_failed cf (ri_outcomes6 ri)) w2 = Some w3" "worker_ok cf w3"
    using resend_round_ok [OF w2(2)] by blast
  have counter: "uw_iter_counter w3 = uw_iter_counter w"
    using handle_events_counter [OF w1(1)] on_socket_counter [OF w2(1)] on_socket_counter [OF w3(1)] by simp
  obtain wk' where wk': "update_times cf (ri_elapsed ri) (uw_worker w3) = Some wk'"
    "wk_torrent_maps wk' = wk_torrent_maps (uw_worker w3)"
    using update_times_ok [of "ri_elapsed ri" cf "uw_worker w3"] assms(2) by (auto simp: round_ok_def)
  show ?thesis
    using w3(2) wk' counter
    by (simp add: worker_round_def Inr w1(1) w2(1) w3(1)) (simp add: worker_ok_def)
qed

text \<open>What a worker returns: the first error of the poll, if there is one.\<close>

definition run_result :: "round_input list \<Rightarrow> poll_error + unit" where
  "run_result rounds =
     (case dropWhile (\<lambda>ri. \<not> isl (ri_polled ri)) rounds of
        [] \<Rightarrow> Inr ()
      | ri # _ \<Rightarrow> map_sum id (\<lambda>_. ()) (ri_polled ri))"

lemma worker_run_ok:
  assumes "crates_ok xc" and "list_all round_ok rounds" and "worker_ok cf w"
  shows "\<exists>w'. worker_run cf xc rounds w = Some (w', run_result rounds) \<and> worker_ok cf w' \<and>
    uw_iter_counter w' = uw_iter_counter w + of_nat (length (takeWhile (\<lambda>ri. \<not> isl (ri_polled ri)) rounds))"
  using assms(2,3)
proof (induction rounds arbitrary: w)
  case Nil
  then show ?case by (simp add: run_result_def)
next
  case (Cons ri rounds)
  obtain w1 where w1: "worker_round cf xc ri w = Some (w1, map_sum id (\<lambda>_. ()) (ri_polled ri))" "worker_ok cf w1"
    "uw_iter_counter w1 = (if isl (ri_polled ri) then uw_iter_counter w else uw_iter_counter w + 1)"
    using worker_round_ok [OF assms(1) _ Cons.prems(2), of ri] Cons.prems(1) by auto
  show ?case
  proof (cases "ri_polled ri")
    case (Inl err)
    then show ?thesis using w1 by (simp add: run_result_def)
  next
    case (Inr events)
    then show ?thesis using Cons.IH [OF _ w1(2)] Cons.prems(1) w1 by (auto simp: run_result_def)
  qed
qed

lemma worker_start_ok:
  "wk_torrent_maps wk = torrent_maps_default \<Longrightarrow> worker_ok cf (worker_start cf v4 v6 wk)"
  by (simp add: worker_ok_def worker_start_def socket_create_def socket_ok_def maps_default_inv)

text \<open>C14. A worker ends only with an error of the poll. Started on empty torrent maps, through any number of
  rounds of any datagrams, send failures and times it never panics, as long as the uptime in seconds
  fits 32 bits and an IPv4 socket receives from IPv4 addresses. It completes every round before the
  first whose poll fails, returns that error, and goes on for ever where there is none. In every state
  it reaches the invariant of the swarm holds, and on each socket no more responses wait than the
  setting allows, all of which that socket can send.\<close>

theorem worker_ends_only_by_poll_errors:
  assumes "crates_ok xc" and "list_all round_ok rounds" and "wk_torrent_maps wk = torrent_maps_default"
  shows "\<exists>w. worker_run cf xc rounds (worker_start cf v4 v6 wk) =
      Some (w, case dropWhile (\<lambda>ri. \<not> isl (ri_polled ri)) rounds of
          [] \<Rightarrow> Inr ()
        | ri # _ \<Rightarrow> map_sum id (\<lambda>_. ()) (ri_polled ri)) \<and>
    worker_ok cf w \<and>
    uw_iter_counter w = of_nat (length (takeWhile (\<lambda>ri. \<not> isl (ri_polled ri)) rounds))"
  using worker_run_ok [OF assms(1,2) worker_start_ok [OF assms(3)], of cf v4 v6]
  by (simp add: run_result_def worker_start_def)

definition sample_round :: round_input where
  "sample_round = \<lparr>ri_polled = Inr [(True, [Received sample_connect (SocketV4 7 6881) sample_env SendRetry, RecvError])],
     ri_elapsed = (7, 8), ri_outcomes4 = (\<lambda>_. SendOk 16), ri_outcomes6 = (\<lambda>_. SendFailed)\<rparr>"

definition interrupted_round :: round_input where
  "interrupted_round = sample_round\<lparr>ri_polled := Inl PollInterrupted\<rparr>"

lemma worker_ends_only_by_poll_errors_witness:
  "\<exists>w. worker_run sample_worker_config sample_crates [sample_round, sample_round, interrupted_round, sample_round]
      (worker_start sample_worker_config True True sample_worker) = Some (w, Inl PollInterrupted) \<and>
    worker_ok sample_worker_config w \<and> uw_iter_counter w = 2"
proof -
  have "crates_ok sample_crates"
    by (simp add: crates_ok_def sample_crates_def ref_index_map_laws ref_gen_range_laws)
  moreover have "list_all round_ok [sample_round, sample_round, interrupted_round, sample_round]"
    by (simp add: round_ok_def sample_round_def interrupted_round_def u32_max_def)
  moreover have "wk_torrent_maps sample_worker = torrent_maps_default"
    by (simp add: sample_worker_def)
  ultimately show ?thesis
    using worker_ends_only_by_poll_errors [of sample_crates "[sample_round, sample_round, interrupted_round, sample_round]"
      sample_worker sample_worker_config True True]
    by (simp add: sample_round_def interrupted_round_def)
qed

text \<open>A response that could not be sent is tried exactly once more. A round hands each response that
  waits on a socket to the operating system once, in order, and leaves none waiting, whatever
  becomes of the attempts; only the counters of the worker change.\<close>

theorem waiting_responses_are_resent:
  assumes "socket_ok cf v4 so" and "so_resend_buffer so = Some rs"
  shows "\<exists>so' wk'. resend_failed cf outcomes (so, wk) = Some (so', wk') \<and>
    so_resend_buffer so' = Some [] \<and> so_sent so' = so_sent so @ resends so rs \<and> same_service wk wk'"
  using resend_failed_ok [OF assms(1), of outcomes wk] assms(2) by auto

definition waiting_socket :: udp_socket where
  "waiting_socket = \<lparr>so_is_v4 = True, so_resend_buffer = Some [(Canonical (SocketV4 7 6881),
     ResError \<lparr>er_transaction_id = 9, er_message = str ''Invalid action''\<rparr>)], so_sent = []\<rparr>"

lemma waiting_responses_are_resent_witness:
  "\<exists>so' wk'. resend_failed sample_worker_config (\<lambda>_. SendRetry) (waiting_socket, sample_worker) =
      Some (so', wk') \<and> so_resend_buffer so' = Some [] \<and> length (so_sent so') = 1"
proof -
  have "socket_ok sample_worker_config True waiting_socket"
    by (simp add: socket_ok_def waiting_socket_def sample_worker_config_def)
  from waiting_responses_are_resent [OF this, of _ "\<lambda>_. SendRetry" sample_worker]
  show ?thesis
    by (fastforce simp: waiting_socket_def resends_def write_error_response_def BUFFER_SIZE_def)
qed

end
