(* ===== verification/Http_Protocol.thy ===== *)
theory Http_Protocol
  imports Crates
begin

text \<open>
  \<open>crates/http_protocol\<close> (\<open>common.rs\<close>, \<open>utils.rs\<close>, \<open>request.rs\<close>, \<open>response.rs\<close>): the requests of the
  HTTP tracker protocol, written and parsed as query strings, and the responses, written in bencode.
  A \<open>&str\<close> is its UTF-8 bytes and \<open>chars\<close> are code points. The crates the code calls (\<open>memchr\<close>,
  \<open>itoa\<close>, \<open>hex\<close>, \<open>urlencoding\<close>, \<open>httparse\<close>) are arguments. \<open>write\<close> into a sink that takes everything
  is the bytes written.
\<close>

subsection \<open>Crates\<close>

record http_crates =
  hc_memchr :: "u8 \<Rightarrow> bytes \<Rightarrow> nat list"
  hc_itoa :: "nat \<Rightarrow> bytes"
  hc_hex :: hex_ops
  hc_urlencode :: "bytes \<Rightarrow> bytes"
  hc_urldecode :: "bytes \<Rightarrow> bytes option"

text \<open>
  \<open>memchr_iter\<close> lists the positions of a byte in order, \<open>itoa\<close> prints decimal digits, and
  \<open>urlencoding\<close> escapes everything but letters, digits and \<open>-_.~\<close> and decodes what it encoded.
\<close>

definition url_safe :: "u8 \<Rightarrow> bool" where
  "url_safe b = (ascii_alphanumeric b \<or> b \<in> {45, 46, 95, 126, 37})"

definition positions :: "'a \<Rightarrow> 'a list \<Rightarrow> nat list" where
  "positions b s = filter (\<lambda>i. s ! i = b) [0..<length s]"

locale http_crate_laws = hex_crate "hc_hex c" for c :: http_crates +
  assumes memchr_positions: "hc_memchr c b s = positions b s"
    and itoa_digits: "hc_itoa c n \<noteq> [] \<and> list_all ascii_digit (hc_itoa c n)"
    and itoa_value: "digits_value (hc_itoa c n) = n"
    and urlencode_safe: "list_all url_safe (hc_urlencode c s)"
    and urldecode_encode: "valid_utf8 s \<Longrightarrow> hc_urldecode c (hc_urlencode c s) = Some s"
begin

lemma parse_itoa: "n \<le> m \<Longrightarrow> parse_uint m (hc_itoa c n) = Some n"
proof -
  assume "n \<le> m"
  moreover have "hd (hc_itoa c n) \<noteq> 43"
    using itoa_digits [of n] by (cases "hc_itoa c n") (auto simp: ascii_digit_def)
  ultimately show ?thesis
    using itoa_digits [of n] itoa_value [of n] by (simp add: parse_uint_def)
qed

end

subsection \<open>Common types\<close>

type_synonym http_info_hash = "160 word"
type_synonym http_peer_id = "160 word"

datatype http_announce_event = HttpStarted | HttpStopped | HttpCompleted | HttpEmpty

definition http_event_from_str :: "bytes \<Rightarrow> http_announce_event option" where
  "http_event_from_str v =
     (if v = str ''started'' then Some HttpStarted
      else if v = str ''stopped'' then Some HttpStopped
      else if v = str ''completed'' then Some HttpCompleted
      else if v = str ''empty'' then Some HttpEmpty
      else None)"

fun http_event_as_str :: "http_announce_event \<Rightarrow> bytes option" where
  "http_event_as_str HttpStarted = Some (str ''started'')"
| "http_event_as_str HttpStopped = Some (str ''stopped'')"
| "http_event_as_str HttpCompleted = Some (str ''completed'')"
| "http_event_as_str HttpEmpty = None"

datatype http_error =
    NoKeyAt nat nat | NoValueAt nat nat
  | LessThan20Chars | NotSingleByte nat | MissingFirst | MissingSecond | HexDecode | MoreThan20Chars
  | ParseError string | InvalidEvent bytes | CompactNotOne | KeyTooLong | KeyDecode
  | MissingField string | NoInfoHashes | NoQueryString | WrongPath | NoHttpPath | HttpSyntax

subsection \<open>Percent encoding of twenty bytes\<close>

definition urlencode_20_bytes :: "http_crates \<Rightarrow> 160 word \<Rightarrow> bytes" where
  "urlencode_20_bytes c w = concat (map (\<lambda>b. 37 # hex_encode (hc_hex c) [b]) (word_be 20 w))"

fun urldecode_loop :: "http_crates \<Rightarrow> nat \<Rightarrow> nat list \<Rightarrow> http_error + (bytes \<times> nat list)" where
  "urldecode_loop c 0 cs = Inr ([], cs)"
| "urldecode_loop c (Suc n) [] = Inl LessThan20Chars"
| "urldecode_loop c (Suc n) (x # cs) =
     (if 255 < x then Inl (NotSingleByte x)
      else if x = 37 then
        (case cs of
           [] \<Rightarrow> Inl MissingFirst
         | [a] \<Rightarrow> Inl MissingSecond
         | a # b # rest \<Rightarrow>
             (case hex_decode (hc_hex c) 1 [word_of_nat a, word_of_nat b] of
                None \<Rightarrow> Inl HexDecode
              | Some out \<Rightarrow> and_then (urldecode_loop c n rest) (\<lambda>(bs, r). Inr (out @ bs, r))))
      else and_then (urldecode_loop c n cs) (\<lambda>(bs, r). Inr (word_of_nat x # bs, r)))"

definition urldecode_20_bytes :: "http_crates \<Rightarrow> bytes \<Rightarrow> http_error + 160 word" where
  "urldecode_20_bytes c value =
     and_then (urldecode_loop c 20 (chars value)) (\<lambda>(out, rest).
       if rest \<noteq> [] then Inl MoreThan20Chars else Inr (be_word out))"

subsection \<open>Requests\<close>

record http_announce_request =
  ha_info_hash :: http_info_hash
  ha_peer_id :: http_peer_id
  ha_port :: u16
  ha_bytes_uploaded :: nat
  ha_bytes_downloaded :: nat
  ha_bytes_left :: nat
  ha_event :: http_announce_event
  ha_numwant :: "nat option"
  ha_key :: "bytes option"

record http_scrape_request =
  hs_info_hashes :: "http_info_hash list"

datatype http_request = HttpAnnounce http_announce_request | HttpScrape http_scrape_request

definition request_tail :: bytes where
  "request_tail = str '' HTTP/1.1'' @ [13, 10] @ str ''Host: localhost'' @ [13, 10, 13, 10]"

definition http_write_announce :: "http_crates \<Rightarrow> bytes \<Rightarrow> http_announce_request \<Rightarrow> bytes" where
  "http_write_announce c url_suffix r =
     str ''GET /announce'' @ url_suffix @
     str ''?info_hash='' @ urlencode_20_bytes c (ha_info_hash r) @
     str ''&peer_id='' @ urlencode_20_bytes c (ha_peer_id r) @
     str ''&port='' @ hc_itoa c (unat (ha_port r)) @
     str ''&uploaded='' @ hc_itoa c (ha_bytes_uploaded r) @
     str ''&downloaded='' @ hc_itoa c (ha_bytes_downloaded r) @
     str ''&left='' @ hc_itoa c (ha_bytes_left r) @
     (case ha_event r of
        HttpStarted \<Rightarrow> str ''&event=started''
      | HttpStopped \<Rightarrow> str ''&event=stopped''
      | HttpCompleted \<Rightarrow> str ''&event=completed''
      | HttpEmpty \<Rightarrow> []) @
     (case ha_numwant r of Some n \<Rightarrow> str ''&numwant='' @ hc_itoa c n | None \<Rightarrow> []) @
     (case ha_key r of Some k \<Rightarrow> str ''&key='' @ hc_urlencode c k | None \<Rightarrow> []) @
     str ''&compact=1'' @ request_tail"

fun http_write_hashes :: "http_crates \<Rightarrow> bool \<Rightarrow> http_info_hash list \<Rightarrow> bytes" where
  "http_write_hashes c first [] = []"
| "http_write_hashes c first (h # hs) =
     (if first then [] else str ''&'') @ str ''info_hash='' @ urlencode_20_bytes c h @
     http_write_hashes c False hs"

definition http_write_scrape :: "http_crates \<Rightarrow> bytes \<Rightarrow> http_scrape_request \<Rightarrow> bytes" where
  "http_write_scrape c url_suffix r =
     str ''GET /scrape'' @ url_suffix @ str ''?'' @
     http_write_hashes c True (hs_info_hashes r) @ request_tail"

fun http_write_request :: "http_crates \<Rightarrow> bytes \<Rightarrow> http_request \<Rightarrow> bytes" where
  "http_write_request c url_suffix (HttpAnnounce r) = http_write_announce c url_suffix r"
| "http_write_request c url_suffix (HttpScrape r) = http_write_scrape c url_suffix r"

text \<open>\<open>s.parse::<i128>()\<close>.\<close>

definition parse_i128 :: "bytes \<Rightarrow> int option" where
  "parse_i128 s =
     (let negative = (s \<noteq> [] \<and> hd s = 45);
          ds = (if s \<noteq> [] \<and> (hd s = 43 \<or> hd s = 45) then tl s else s);
          v = (if negative then - int (digits_value ds) else int (digits_value ds))
      in if ds = [] \<or> \<not> list_all ascii_digit ds then None
         else if v < - (2 ^ 127) \<or> 2 ^ 127 \<le> v then None else Some v)"

definition str_get :: "bytes \<Rightarrow> nat \<Rightarrow> nat \<Rightarrow> bytes option" where
  "str_get s a b = (if a \<le> b \<and> b \<le> length s then Some (sub s a (b - a)) else None)"

record announce_fields =
  fi_info_hash :: "http_info_hash option"
  fi_peer_id :: "http_peer_id option"
  fi_port :: "nat option"
  fi_bytes_left :: "nat option"
  fi_bytes_uploaded :: "nat option"
  fi_bytes_downloaded :: "nat option"
  fi_event :: http_announce_event
  fi_numwant :: "nat option"
  fi_key :: "bytes option"

definition no_fields :: announce_fields where
  "no_fields = \<lparr>fi_info_hash = None, fi_peer_id = None, fi_port = None, fi_bytes_left = None,
     fi_bytes_uploaded = None, fi_bytes_downloaded = None, fi_event = HttpEmpty,
     fi_numwant = None, fi_key = None\<rparr>"

text \<open>What one key-value pair does to the fields read so far.\<close>

definition announce_field ::
  "http_crates \<Rightarrow> bytes \<Rightarrow> bytes \<Rightarrow> announce_fields \<Rightarrow> http_error + announce_fields" where
  "announce_field c key value f =
     (if key = str ''info_hash'' then
        and_then (urldecode_20_bytes c value) (\<lambda>v. Inr (f\<lparr>fi_info_hash := Some v\<rparr>))
      else if key = str ''peer_id'' then
        and_then (urldecode_20_bytes c value) (\<lambda>v. Inr (f\<lparr>fi_peer_id := Some v\<rparr>))
      else if key = str ''port'' then
        and_then (ok_or (ParseError ''port'') (parse_uint u16_max value))
          (\<lambda>n. Inr (f\<lparr>fi_port := Some n\<rparr>))
      else if key = str ''left'' then
        and_then (ok_or (ParseError ''left'') (parse_uint u64_max value))
          (\<lambda>n. Inr (f\<lparr>fi_bytes_left := Some n\<rparr>))
      else if key = str ''uploaded'' then
        and_then (ok_or (ParseError ''uploaded'') (parse_uint u64_max value))
          (\<lambda>n. Inr (f\<lparr>fi_bytes_uploaded := Some n\<rparr>))
      else if key = str ''downloaded'' then
        and_then (ok_or (ParseError ''downloaded'') (parse_uint u64_max value))
          (\<lambda>n. Inr (f\<lparr>fi_bytes_downloaded := Some n\<rparr>))
      else if key = str ''event'' then
        and_then (ok_or (InvalidEvent value) (http_event_from_str value))
          (\<lambda>e. Inr (f\<lparr>fi_event := e\<rparr>))
      else if key = str ''compact'' then
        (if value \<noteq> str ''1'' then Inl CompactNotOne else Inr f)
      else if key = str ''numwant'' then
        and_then (ok_or (ParseError ''numwant'') (parse_i128 value))
          (\<lambda>i. Inr (f\<lparr>fi_numwant :=
             (if 0 \<le> i \<and> i \<le> int u64_max then Some (nat i) else None)\<rparr>))
      else if key = str ''key'' then
        (if 100 < length value then Inl KeyTooLong
         else and_then (ok_or KeyDecode (hc_urldecode c value))
           (\<lambda>k. Inr (f\<lparr>fi_key := Some k\<rparr>)))
      else Inr f)"

text \<open>
  The loop over the equal signs: every round takes the next ampersand (or the end of the string) as
  the end of its segment, and the loop ends with the first segment that reaches the end.
\<close>

fun query_loop ::
  "(bytes \<Rightarrow> bytes \<Rightarrow> 's \<Rightarrow> http_error + 's) \<Rightarrow> bytes \<Rightarrow> nat list \<Rightarrow> nat list \<Rightarrow> nat \<Rightarrow> 's \<Rightarrow>
   http_error + 's" where
  "query_loop field q [] ampersands position s = Inr s"
| "query_loop field q (equal_sign # eqs) ampersands position s =
     (let segment_end = (case ampersands of [] \<Rightarrow> length q | a # _ \<Rightarrow> a);
          ampersands' = (case ampersands of [] \<Rightarrow> [] | _ # as \<Rightarrow> as)
      in and_then (ok_or (NoKeyAt position equal_sign) (str_get q position equal_sign)) (\<lambda>key.
         and_then (ok_or (NoValueAt (equal_sign + 1) segment_end)
                     (str_get q (equal_sign + 1) segment_end)) (\<lambda>value.
         and_then (field key value s) (\<lambda>s'.
           if segment_end = length q then Inr s'
           else query_loop field q eqs ampersands' (segment_end + 1) s'))))"

definition http_parse_announce :: "http_crates \<Rightarrow> bytes \<Rightarrow> http_error + http_announce_request" where
  "http_parse_announce c q =
     and_then (query_loop (announce_field c) q (hc_memchr c 61 q) (hc_memchr c 38 q) 0 no_fields) (\<lambda>f.
     and_then (ok_or (MissingField ''info_hash'') (fi_info_hash f)) (\<lambda>info_hash.
     and_then (ok_or (MissingField ''peer_id'') (fi_peer_id f)) (\<lambda>peer_id.
     and_then (ok_or (MissingField ''port'') (fi_port f)) (\<lambda>port.
     and_then (ok_or (MissingField ''uploaded'') (fi_bytes_uploaded f)) (\<lambda>uploaded.
     and_then (ok_or (MissingField ''downloaded'') (fi_bytes_downloaded f)) (\<lambda>downloaded.
     and_then (ok_or (MissingField ''left'') (fi_bytes_left f)) (\<lambda>left.
       Inr \<lparr>ha_info_hash = info_hash, ha_peer_id = peer_id, ha_port = word_of_nat port,
         ha_bytes_uploaded = uploaded, ha_bytes_downloaded = downloaded, ha_bytes_left = left,
         ha_event = fi_event f, ha_numwant = fi_numwant f, ha_key = fi_key f\<rparr>)))))))"

definition scrape_field ::
  "http_crates \<Rightarrow> bytes \<Rightarrow> bytes \<Rightarrow> http_info_hash list \<Rightarrow> http_error + http_info_hash list" where
  "scrape_field c key value hashes =
     (if key = str ''info_hash''
      then and_then (urldecode_20_bytes c value) (\<lambda>v. Inr (hashes @ [v]))
      else Inr hashes)"

definition http_parse_scrape :: "http_crates \<Rightarrow> bytes \<Rightarrow> http_error + http_scrape_request" where
  "http_parse_scrape c q =
     and_then (query_loop (scrape_field c) q (hc_memchr c 61 q) (hc_memchr c 38 q) 0 []) (\<lambda>hashes.
       if hashes = [] then Inl NoInfoHashes else Inr \<lparr>hs_info_hashes = hashes\<rparr>)"

definition parse_http_get_path :: "http_crates \<Rightarrow> bytes \<Rightarrow> http_error + http_request" where
  "parse_http_get_path c path =
     (let location = takeWhile (\<lambda>b. b \<noteq> 63) path; rest = dropWhile (\<lambda>b. b \<noteq> 63) path
      in if rest = [] then Inl NoQueryString
         else if location = str ''/announce'' then
           and_then (http_parse_announce c (tl rest)) (\<lambda>r. Inr (HttpAnnounce r))
         else if location = str ''/scrape'' then
           and_then (http_parse_scrape c (tl rest)) (\<lambda>r. Inr (HttpScrape r))
         else Inl WrongPath)"

text \<open>What \<open>httparse\<close> makes of the bytes received so far.\<close>

datatype httparse_result = HttparseComplete "bytes option" | HttparsePartial | HttparseError

definition http_parse_bytes ::
  "(bytes \<Rightarrow> httparse_result) \<Rightarrow> http_crates \<Rightarrow> bytes \<Rightarrow> http_error + http_request option" where
  "http_parse_bytes httparse c bs =
     (case httparse bs of
        HttparseComplete (Some path) \<Rightarrow> and_then (parse_http_get_path c path) (\<lambda>r. Inr (Some r))
      | HttparseComplete None \<Rightarrow> Inl NoHttpPath
      | HttparsePartial \<Rightarrow> Inr None
      | HttparseError \<Rightarrow> Inl HttpSyntax)"

subsection \<open>Responses\<close>

record 'i http_response_peer =
  hp_ip_address :: 'i
  hp_port :: u16

record http_scrape_statistics =
  hst_complete :: u64
  hst_incomplete :: u64
  hst_downloaded :: u64

record http_announce_response =
  har_announce_interval :: u64
  har_complete :: u64
  har_incomplete :: u64
  har_peers :: "u32 http_response_peer list"
  har_peers6 :: "u128 http_response_peer list"
  har_warning_message :: "bytes option"

text \<open>The \<open>BTreeMap\<close> of a scrape response is its list of entries in ascending order of the keys.\<close>

record http_scrape_response =
  hsr_files :: "(http_info_hash \<times> http_scrape_statistics) list"

record http_failure_response =
  failure_reason :: bytes

datatype http_response =
    HttpResAnnounce http_announce_response
  | HttpResScrape http_scrape_response
  | HttpResFailure http_failure_response

definition http_peer4_bytes :: "u32 http_response_peer \<Rightarrow> bytes" where
  "http_peer4_bytes p = word_be 4 (hp_ip_address p) @ word_be 2 (hp_port p)"

definition http_peer6_bytes :: "u128 http_response_peer \<Rightarrow> bytes" where
  "http_peer6_bytes p = word_be 16 (hp_ip_address p) @ word_be 2 (hp_port p)"

definition http_write_announce_response :: "http_crates \<Rightarrow> http_announce_response \<Rightarrow> bytes" where
  "http_write_announce_response c r =
     str ''d8:completei'' @ hc_itoa c (unat (har_complete r)) @
     str ''e10:incompletei'' @ hc_itoa c (unat (har_incomplete r)) @
     str ''e8:intervali'' @ hc_itoa c (unat (har_announce_interval r)) @
     str ''e5:peers'' @ hc_itoa c (length (har_peers r) * 6) @ str '':'' @
     concat (map http_peer4_bytes (har_peers r)) @
     str ''6:peers6'' @ hc_itoa c (length (har_peers6 r) * 18) @ str '':'' @
     concat (map http_peer6_bytes (har_peers6 r)) @
     (case har_warning_message r of
        Some m \<Rightarrow> str ''15:warning message'' @ hc_itoa c (length m) @ str '':'' @ m
      | None \<Rightarrow> []) @ str ''e''"

definition http_write_scrape_file ::
  "http_crates \<Rightarrow> http_info_hash \<times> http_scrape_statistics \<Rightarrow> bytes" where
  "http_write_scrape_file c e =
     str ''20:'' @ word_be 20 (fst e) @
     str ''d8:completei'' @ hc_itoa c (unat (hst_complete (snd e))) @
     str ''e10:downloadedi0e10:incompletei'' @ hc_itoa c (unat (hst_incomplete (snd e))) @
     str ''ee''"

definition http_write_scrape_response :: "http_crates \<Rightarrow> http_scrape_response \<Rightarrow> bytes" where
  "http_write_scrape_response c r =
     str ''d5:filesd'' @ concat (map (http_write_scrape_file c) (hsr_files r)) @ str ''ee''"

definition http_write_failure_response :: "http_crates \<Rightarrow> http_failure_response \<Rightarrow> bytes" where
  "http_write_failure_response c r =
     str ''d14:failure reason'' @ hc_itoa c (length (failure_reason r)) @ str '':'' @
     failure_reason r @ str ''e''"

fun http_write_response :: "http_crates \<Rightarrow> http_response \<Rightarrow> bytes" where
  "http_write_response c (HttpResAnnounce r) = http_write_announce_response c r"
| "http_write_response c (HttpResFailure r) = http_write_failure_response c r"
| "http_write_response c (HttpResScrape r) = http_write_scrape_response c r"

end
