(* ===== verification/Http_Protocol_Spec.thy ===== *)
theory Http_Protocol_Spec
  imports Http_Protocol
begin

text \<open>
  The query string parser of the HTTP tracker processes the segments of a query string in order,
  written requests are parsed back, and the crates' laws can be met.
\<close>

subsection \<open>An instance of the crates\<close>

definition ref_urlencode :: "bytes \<Rightarrow> bytes" where
  "ref_urlencode s = concat (map (\<lambda>b. if url_safe b \<and> b \<noteq> 37 then [b] else 37 # ref_hex_encode [b]) s)"

fun ref_urldecode :: "bytes \<Rightarrow> bytes option" where
  "ref_urldecode [] = Some []"
| "ref_urldecode (b # bs) =
     (if b = 37 then
        (case bs of h # l # rest \<Rightarrow>
           (case (ref_hex_decode 1 [h, l], ref_urldecode rest) of
              (Some x, Some xs) \<Rightarrow> Some (x @ xs) | _ \<Rightarrow> None)
         | _ \<Rightarrow> None)
      else map_option ((#) b) (ref_urldecode bs))"

definition ref_http_crates :: http_crates where
  "ref_http_crates = \<lparr>hc_memchr = positions, hc_itoa = dec_string, hc_hex = ref_hex,
     hc_urlencode = ref_urlencode, hc_urldecode = ref_urldecode\<rparr>"

lemma hexdigit_safe: "ascii_hexdigit b \<Longrightarrow> url_safe b"
  by (auto simp: url_safe_def ascii_alphanumeric_def ascii_hexdigit_def ascii_alphabetic_def
      ascii_upper_def ascii_lower_def ascii_digit_def word_le_nat_alt)

lemma ref_urldecode_encode: "ref_urldecode (ref_urlencode s) = Some s"
proof (induction s)
  case Nil
  then show ?case by (simp add: ref_urlencode_def)
next
  case (Cons b s)
  have "ref_hex_decode 1 (ref_hex_encode [b]) = Some [b]"
    using ref_decode_encode [of "[b]"] by simp
  then show ?case
    using Cons by (simp add: ref_urlencode_def del: ref_hex_decode.simps)
qed

lemma ref_http_sel [simp]:
  "hc_memchr ref_http_crates = positions" "hc_itoa ref_http_crates = dec_string"
  "hc_hex ref_http_crates = ref_hex" "hc_urlencode ref_http_crates = ref_urlencode"
  "hc_urldecode ref_http_crates = ref_urldecode"
  by (simp_all add: ref_http_crates_def)

lemma ref_hex_encode_safe: "list_all url_safe (ref_hex_encode bs)"
  using ref_hex.encode_digits [of _ bs] hexdigit_safe by (auto simp: list_all_iff)

lemma ref_urlencode_safe: "list_all url_safe (ref_urlencode s)"
proof (induction s)
  case Nil
  then show ?case by (simp add: ref_urlencode_def)
next
  case (Cons b s)
  have "url_safe 37" by (simp add: url_safe_def)
  then show ?case
    using Cons ref_hex_encode_safe [of "[b]"]
    by (auto simp: ref_urlencode_def simp del: ref_hex_encode.simps)
qed

interpretation ref_http: http_crate_laws ref_http_crates
proof (intro http_crate_laws.intro http_crate_laws_axioms.intro)
  show "hex_crate (hc_hex ref_http_crates)" by (simp add: ref_hex_laws)
qed (simp_all add: dec_string_ok ref_urlencode_safe ref_urldecode_encode)

lemmas ref_http_laws = ref_http.http_crate_laws_axioms

subsection \<open>Percent encoding\<close>

lemma url_safe_ascii: "url_safe b \<Longrightarrow> b < 0x80 \<and> b \<noteq> 38 \<and> b \<noteq> 61 \<and> b \<noteq> 63 \<and> 33 \<le> b \<and> b \<le> 126"
  by (auto simp: url_safe_def ascii_defs word_le_nat_alt word_less_nat_alt)

context http_crate_laws
begin

lemma hex_pair: "\<exists>h l. hex_encode (hc_hex c) [b] = [h, l] \<and> hex_decode (hc_hex c) 1 [h, l] = Some [b] \<and>
    url_safe h \<and> url_safe l"
proof -
  have "length (hex_encode (hc_hex c) [b]) = 2" using length_encode [of "[b]"] by simp
  then obtain h l where e: "hex_encode (hc_hex c) [b] = [h, l]"
    by (metis (no_types, opaque_lifting) length_0_conv length_Suc_conv numeral_2_eq_2)
  have "hex_decode (hc_hex c) 1 (hex_encode (hc_hex c) [b]) = Some [b]"
    by (rule decode_encode_n) simp
  moreover have "url_safe h" "url_safe l"
    using encode_digits [of _ "[b]"] e by (auto intro: hexdigit_safe)
  ultimately show ?thesis using e by auto
qed

lemma urldecode_loop_encoded:
  "urldecode_loop c (length bs)
    (map unat (concat (map (\<lambda>b. 37 # hex_encode (hc_hex c) [b]) bs)) @ rest) = Inr (bs, rest)"
proof (induction bs)
  case Nil
  then show ?case by simp
next
  case (Cons b bs)
  obtain h l where "hex_encode (hc_hex c) [b] = [h, l]" "hex_decode (hc_hex c) 1 [h, l] = Some [b]"
    using hex_pair by blast
  then show ?case using Cons by simp
qed

lemma urlencode_20_safe: "list_all url_safe (urlencode_20_bytes c w)"
proof -
  have p: "url_safe 37" by (simp add: url_safe_def)
  have "list_all url_safe (37 # hex_encode (hc_hex c) [b])" for b
    using hex_pair [of b] p by auto
  then show ?thesis by (auto simp: urlencode_20_bytes_def list_all_iff)
qed

lemma urldecode_encode_20: "urldecode_20_bytes c (urlencode_20_bytes c w) = Inr w"
proof -
  have "chars (urlencode_20_bytes c w) = map unat (urlencode_20_bytes c w)"
    using urlencode_20_safe [of w] by (intro chars_all_ascii) (auto simp: list_all_iff url_safe_ascii)
  then show ?thesis
    using urldecode_loop_encoded [of "word_be 20 w" "[]"]
    by (simp add: urldecode_20_bytes_def urlencode_20_bytes_def)
qed

end

subsection \<open>Query strings\<close>

fun join_segments :: "(bytes \<times> bytes) list \<Rightarrow> bytes" where
  "join_segments [] = []"
| "join_segments [(k, v)] = k @ 61 # v"
| "join_segments ((k, v) # s # ss) = k @ 61 # v @ 38 # join_segments (s # ss)"

text \<open>The specification of the loop: the segments in order, until one is refused.\<close>

fun run_segments ::
  "(bytes \<Rightarrow> bytes \<Rightarrow> 's \<Rightarrow> http_error + 's) \<Rightarrow> (bytes \<times> bytes) list \<Rightarrow> 's \<Rightarrow> http_error + 's" where
  "run_segments field [] s = Inr s"
| "run_segments field ((k, v) # ss) s = and_then (field k v s) (run_segments field ss)"

definition plain :: "bytes \<Rightarrow> bool" where
  "plain bs = (38 \<notin> set bs \<and> 61 \<notin> set bs)"

definition shifted :: "nat \<Rightarrow> 'a \<Rightarrow> 'a list \<Rightarrow> nat list" where
  "shifted n b s = map ((+) n) (positions b s)"

lemma positions_Nil [simp]: "positions b [] = []"
  by (simp add: positions_def)

lemma positions_Cons: "positions b (x # xs) = (if x = b then [0] else []) @ map Suc (positions b xs)"
  by (simp add: positions_def upt_conv_Cons map_Suc_upt [symmetric] filter_map comp_def del: upt_Suc)

lemma shifted_0 [simp]: "shifted 0 b xs = positions b xs"
  by (simp add: shifted_def map_idI)

lemma positions_append: "positions b (xs @ ys) = positions b xs @ shifted (length xs) b ys"
proof (induction xs)
  case Nil
  then show ?case by simp
next
  case (Cons x xs)
  then show ?case by (simp add: positions_Cons shifted_def)
qed

lemma positions_none: "b \<notin> set xs \<Longrightarrow> positions b xs = []"
  by (induction xs) (auto simp: positions_Cons)

lemma shifted_Cons: "shifted n b (x # xs) = (if x = b then [n] else []) @ shifted (Suc n) b xs"
  by (simp add: shifted_def positions_Cons)

lemma shifted_append: "shifted n b (xs @ ys) = shifted n b xs @ shifted (n + length xs) b ys"
  by (simp add: shifted_def positions_append add.assoc)

lemma shifted_none: "b \<notin> set xs \<Longrightarrow> shifted n b xs = []"
  by (simp add: shifted_def positions_none)

lemma str_get_append: "str_get (pre @ xs @ post) (length pre) (length pre + length xs) = Some xs"
  by (simp add: str_get_def sub_def)

lemma query_loop_segments:
  assumes "ss \<noteq> []" and "\<forall>(k, v) \<in> set ss. plain k \<and> plain v"
  shows "query_loop field (pre @ join_segments ss) (shifted (length pre) 61 (join_segments ss))
      (shifted (length pre) 38 (join_segments ss)) (length pre) s = run_segments field ss s"
  using assms
proof (induction ss arbitrary: pre s rule: join_segments.induct)
  case 1
  then show ?case by simp
next
  case (2 k v)
  have key: "str_get (pre @ k @ 61 # v) (length pre) (length pre + length k) = Some k"
    using str_get_append [of pre k "61 # v"] by simp
  have val: "str_get (pre @ k @ 61 # v) (Suc (length pre + length k))
      (Suc (length pre + (length k + length v))) = Some v"
    using str_get_append [of "pre @ k @ [61]" v "[]"] by (simp add: add.assoc)
  have eqs: "shifted (length pre) 61 (k @ 61 # v) = [length pre + length k]"
    "shifted (length pre) 38 (k @ 61 # v) = []"
    using 2 by (auto simp: shifted_append shifted_Cons shifted_none plain_def)
  show ?case by (cases "field k v s") (simp_all add: eqs key val add.assoc)
next
  case (3 k v s1 ss)
  let ?J = "join_segments (s1 # ss)" and ?pre = "pre @ k @ 61 # v @ [38]"
  have q: "pre @ join_segments ((k, v) # s1 # ss) = ?pre @ ?J" by simp
  have key: "str_get (?pre @ ?J) (length pre) (length pre + length k) = Some k"
    using str_get_append [of pre k "61 # v @ 38 # ?J"] by simp
  have val: "str_get (?pre @ ?J) (Suc (length pre + length k))
      (Suc (length pre + (length k + length v))) = Some v"
    using str_get_append [of "pre @ k @ [61]" v "38 # ?J"] by (simp add: add.assoc)
  have eqs: "shifted (length pre) 61 (join_segments ((k, v) # s1 # ss)) =
        (length pre + length k) # shifted (length ?pre) 61 ?J"
      "shifted (length pre) 38 (join_segments ((k, v) # s1 # ss)) =
        Suc (length pre + length k + length v) # shifted (length ?pre) 38 ?J"
    using 3 by (auto simp: shifted_append shifted_Cons shifted_none plain_def add.assoc)
  have IH: "query_loop field (?pre @ ?J) (shifted (length ?pre) 61 ?J) (shifted (length ?pre) 38 ?J)
      (length ?pre) s' = run_segments field (s1 # ss) s'" for s'
    by (rule "3.IH") (use 3 in auto)
  have J: "?J \<noteq> []" by (cases s1; cases ss) auto
  show ?case
    unfolding q eqs using IH J
    by (cases "field k v s") (simp_all add: key val add.assoc del: append_assoc append.simps)
qed

lemma query_loop_run:
  assumes "ss \<noteq> []" and "\<forall>(k, v) \<in> set ss. plain k \<and> plain v"
  shows "query_loop field (join_segments ss) (positions 61 (join_segments ss))
      (positions 38 (join_segments ss)) 0 s = run_segments field ss s"
  using query_loop_segments [OF assms, of field "[]" s] by simp

subsection \<open>Round trip of requests\<close>

definition announce_segments :: "http_crates \<Rightarrow> http_announce_request \<Rightarrow> (bytes \<times> bytes) list" where
  "announce_segments c r =
     [(str ''info_hash'', urlencode_20_bytes c (ha_info_hash r)),
      (str ''peer_id'', urlencode_20_bytes c (ha_peer_id r)),
      (str ''port'', hc_itoa c (unat (ha_port r))),
      (str ''uploaded'', hc_itoa c (ha_bytes_uploaded r)),
      (str ''downloaded'', hc_itoa c (ha_bytes_downloaded r)),
      (str ''left'', hc_itoa c (ha_bytes_left r))] @
     (case http_event_as_str (ha_event r) of Some e \<Rightarrow> [(str ''event'', e)] | None \<Rightarrow> []) @
     (case ha_numwant r of Some n \<Rightarrow> [(str ''numwant'', hc_itoa c n)] | None \<Rightarrow> []) @
     (case ha_key r of Some k \<Rightarrow> [(str ''key'', hc_urlencode c k)] | None \<Rightarrow> []) @
     [(str ''compact'', str ''1'')]"

lemma join_segments_append:
  "ss \<noteq> [] \<Longrightarrow> ts \<noteq> [] \<Longrightarrow> join_segments (ss @ ts) = join_segments ss @ 38 # join_segments ts"
proof (induction ss rule: join_segments.induct)
  case 1
  then show ?case by simp
next
  case (2 k v)
  then show ?case by (cases ts) auto
next
  case (3 k v s ss)
  then show ?case by simp
qed

lemma write_announce_segments:
  "http_write_announce c [] r =
   str ''GET '' @ str ''/announce?'' @ join_segments (announce_segments c r) @ request_tail"
  by (cases "ha_event r"; cases "ha_numwant r"; cases "ha_key r")
    (simp_all add: http_write_announce_def announce_segments_def)

lemma write_hashes_segments:
  "hs \<noteq> [] \<Longrightarrow> http_write_hashes c True hs =
   join_segments (map (\<lambda>h. (str ''info_hash'', urlencode_20_bytes c h)) hs)"
proof (induction hs)
  case Nil
  then show ?case by simp
next
  case (Cons h hs)
  have "http_write_hashes c False hs = (if hs = [] then [] else 38 # http_write_hashes c True hs)"
    by (cases hs) simp_all
  then show ?case using Cons by (cases hs) auto
qed

definition wf_http_announce :: "http_crates \<Rightarrow> http_announce_request \<Rightarrow> bool" where
  "wf_http_announce c r =
     (ha_bytes_uploaded r \<le> u64_max \<and> ha_bytes_downloaded r \<le> u64_max \<and>
      ha_bytes_left r \<le> u64_max \<and>
      (case ha_numwant r of Some n \<Rightarrow> n \<le> u64_max | None \<Rightarrow> True) \<and>
      (case ha_key r of Some k \<Rightarrow> valid_utf8 k \<and> length (hc_urlencode c k) \<le> 100 | None \<Rightarrow> True))"

fun wf_http_request :: "http_crates \<Rightarrow> http_request \<Rightarrow> bool" where
  "wf_http_request c (HttpAnnounce r) = wf_http_announce c r"
| "wf_http_request c (HttpScrape r) = (hs_info_hashes r \<noteq> [])"

text \<open>The path part of what is written.\<close>

fun path_of :: "http_crates \<Rightarrow> http_request \<Rightarrow> bytes" where
  "path_of c (HttpAnnounce r) = str ''/announce?'' @ join_segments (announce_segments c r)"
| "path_of c (HttpScrape r) = str ''/scrape?'' @
     join_segments (map (\<lambda>h. (str ''info_hash'', urlencode_20_bytes c h)) (hs_info_hashes r))"

definition visible :: "bytes \<Rightarrow> bool" where
  "visible bs = list_all (\<lambda>b. 33 \<le> b \<and> b \<le> 126) bs"

lemma run_segments_append:
  "run_segments field (ss @ ts) s = and_then (run_segments field ss s) (run_segments field ts)"
proof (induction ss arbitrary: s)
  case Nil
  then show ?case by simp
next
  case (Cons kv ss)
  obtain k v where kv: "kv = (k, v)" by (cases kv)
  show ?case
    unfolding kv by (cases "field k v s") (simp_all add: Cons.IH)
qed

lemma and_then_assoc: "and_then (and_then r f) g = and_then r (\<lambda>x. and_then (f x) g)"
  by (cases r) simp_all

lemma digits_safe: "list_all ascii_digit ds \<Longrightarrow> list_all url_safe ds"
  by (auto simp: list_all_iff url_safe_def ascii_alphanumeric_def)

lemma not_url_safe: "\<not> url_safe 38" "\<not> url_safe 61" "\<not> url_safe 63"
  by (simp_all add: url_safe_def ascii_defs)

lemma safe_plain: "list_all url_safe v \<Longrightarrow> plain v"
  using not_url_safe by (auto simp: plain_def list_all_iff)

context http_crate_laws
begin

lemma parse_i128_itoa: "n \<le> u64_max \<Longrightarrow> parse_i128 (hc_itoa c n) = Some (int n)"
proof -
  assume n: "n \<le> u64_max"
  have h: "hd (hc_itoa c n) \<noteq> 43" "hd (hc_itoa c n) \<noteq> 45"
    using itoa_digits [of n] by (cases "hc_itoa c n"; auto simp: ascii_digit_def)+
  have "int n < 2 ^ 127" using n by (simp add: u64_max_def)
  then show ?thesis
    using h itoa_digits [of n] itoa_value [of n] by (simp add: parse_i128_def)
qed

lemma announce_segments_safe:
  "\<forall>(k, v) \<in> set (announce_segments c r). list_all url_safe k \<and> list_all url_safe v"
  using urlencode_20_safe urlencode_safe digits_safe itoa_digits
  by (cases "ha_event r"; cases "ha_numwant r"; cases "ha_key r")
    (simp_all add: announce_segments_def url_safe_def [of "_ :: u8"] ascii_defs)

lemma fields_parsed:
  assumes "wf_http_announce c r"
  shows "run_segments (announce_field c) (announce_segments c r) no_fields = Inr \<lparr>
    fi_info_hash = Some (ha_info_hash r), fi_peer_id = Some (ha_peer_id r),
    fi_port = Some (unat (ha_port r)), fi_bytes_left = Some (ha_bytes_left r),
    fi_bytes_uploaded = Some (ha_bytes_uploaded r), fi_bytes_downloaded = Some (ha_bytes_downloaded r),
    fi_event = ha_event r, fi_numwant = ha_numwant r, fi_key = ha_key r\<rparr>"
proof -
  have "unat (ha_port r) < 2 ^ 16"
    by (rule order_less_le_trans [OF unsigned_less]) simp
  then have "unat (ha_port r) \<le> u16_max" by (simp add: u16_max_def)
  then show ?thesis
    using assms
    by (cases "ha_event r"; cases "ha_numwant r"; cases "ha_key r")
      (simp_all add: announce_segments_def announce_field_def no_fields_def urldecode_encode_20
        parse_itoa parse_i128_itoa wf_http_announce_def http_event_from_str_def urldecode_encode)
qed

lemma hash_segments_safe:
  "\<forall>(k, v) \<in> set (map (\<lambda>h. (str ''info_hash'', urlencode_20_bytes c h)) hs).
     list_all url_safe k \<and> list_all url_safe v"
  using urlencode_20_safe by (auto simp: url_safe_def ascii_defs)

lemma hashes_parsed:
  "run_segments (scrape_field c) (map (\<lambda>h. (str ''info_hash'', urlencode_20_bytes c h)) hs) acc =
   Inr (acc @ hs)"
  by (induction hs arbitrary: acc) (simp_all add: scrape_field_def urldecode_encode_20)

lemma loop_safe:
  assumes "ss \<noteq> []" and "\<forall>(k, v) \<in> set ss. list_all url_safe k \<and> list_all url_safe v"
  shows "query_loop field (join_segments ss) (hc_memchr c 61 (join_segments ss))
      (hc_memchr c 38 (join_segments ss)) 0 s = run_segments field ss s"
  unfolding memchr_positions using assms by (intro query_loop_run) (auto intro: safe_plain)

lemma written_path:
  "wf_http_request c req \<Longrightarrow> http_write_request c [] req = str ''GET '' @ path_of c req @ request_tail"
  by (cases req) (simp_all add: write_announce_segments http_write_scrape_def write_hashes_segments)

lemma path_parsed: "wf_http_request c req \<Longrightarrow> parse_http_get_path c (path_of c req) = Inr req"
proof (cases req)
  case (HttpAnnounce r)
  assume "wf_http_request c req"
  then have w: "wf_http_announce c r" using HttpAnnounce by simp
  have "announce_segments c r \<noteq> []" by (simp add: announce_segments_def)
  from loop_safe [OF this announce_segments_safe, of "announce_field c" no_fields] show ?thesis
    using HttpAnnounce fields_parsed [OF w]
    by (simp add: parse_http_get_path_def http_parse_announce_def)
next
  case (HttpScrape r)
  assume "wf_http_request c req"
  then have "map (\<lambda>h. (str ''info_hash'', urlencode_20_bytes c h)) (hs_info_hashes r) \<noteq> []"
    and ne: "hs_info_hashes r \<noteq> []"
    using HttpScrape by simp_all
  from loop_safe [OF this(1) hash_segments_safe, of "scrape_field c" "[]"] show ?thesis
    using HttpScrape ne hashes_parsed [of "hs_info_hashes r" "[]"]
    by (simp add: parse_http_get_path_def http_parse_scrape_def)
qed

lemma join_visible:
  "\<forall>(k, v) \<in> set ss. list_all url_safe k \<and> list_all url_safe v \<Longrightarrow> visible (join_segments ss)"
  by (induction ss rule: join_segments.induct)
    (auto simp: visible_def list_all_iff dest: url_safe_ascii)

lemma path_visible: "visible (path_of c req)"
  using join_visible [OF announce_segments_safe] join_visible [OF hash_segments_safe]
  by (cases req) (simp_all add: visible_def)

end

subsection \<open>Properties\<close>

text \<open>
  What \<open>httparse\<close> documents of a complete GET request: for a target of visible ASCII characters it
  reports that target. The instance below recognises exactly such requests.
\<close>

definition httparse_reports :: "(bytes \<Rightarrow> httparse_result) \<Rightarrow> bool" where
  "httparse_reports httparse =
     (\<forall>path. visible path \<longrightarrow> httparse (str ''GET '' @ path @ request_tail) = HttparseComplete (Some path))"

definition ref_httparse :: "bytes \<Rightarrow> httparse_result" where
  "ref_httparse bs =
     (let path = takeWhile (\<lambda>b. b \<noteq> 32) (drop 4 bs)
      in if bs = str ''GET '' @ path @ request_tail then HttparseComplete (Some path) else HttparseError)"

lemma ref_httparse_reports: "httparse_reports ref_httparse"
  unfolding httparse_reports_def
proof (intro allI impI)
  fix path assume v: "visible path"
  have "takeWhile (\<lambda>b. b \<noteq> 32) (path @ request_tail) = path"
    using v by (induction path) (auto simp: visible_def request_tail_def)
  then show "ref_httparse (str ''GET '' @ path @ request_tail) = HttparseComplete (Some path)"
    by (simp add: ref_httparse_def)
qed

text \<open>C8. Requests survive the wire. The bytes written for an announce request (whose counters fit a 64-bit
  integer and whose key is text that encodes to at most 100 bytes) or for a scrape request with at
  least one info hash are parsed back to the request: the percent encoding of the twenty-byte
  hashes, the order and the splitting of the query string's segments, the numbers, the event, the
  negative-tolerant number of wanted peers and the key are all inverse to each other.\<close>
theorem http_request_roundtrip:
  assumes "http_crate_laws c" and "httparse_reports httparse" and "wf_http_request c req"
  shows "http_parse_bytes httparse c (http_write_request c [] req) = Inr (Some req)"
  using http_crate_laws.written_path [OF assms(1,3)] http_crate_laws.path_visible [OF assms(1)]
    http_crate_laws.path_parsed [OF assms(1,3)] assms(2)
  by (simp add: http_parse_bytes_def httparse_reports_def del: path_of.simps)

lemma http_request_roundtrip_witness:
  "http_parse_bytes ref_httparse ref_http_crates (http_write_request ref_http_crates []
     (HttpAnnounce \<lparr>ha_info_hash = 1, ha_peer_id = 2, ha_port = 6881, ha_bytes_uploaded = 0,
       ha_bytes_downloaded = 5, ha_bytes_left = 7, ha_event = HttpStarted, ha_numwant = Some 50,
       ha_key = None\<rparr>)) = Inr (Some
     (HttpAnnounce \<lparr>ha_info_hash = 1, ha_peer_id = 2, ha_port = 6881, ha_bytes_uploaded = 0,
       ha_bytes_downloaded = 5, ha_bytes_left = 7, ha_event = HttpStarted, ha_numwant = Some 50,
       ha_key = None\<rparr>))"
  by (rule http_request_roundtrip [OF ref_http_laws ref_httparse_reports])
    (simp add: wf_http_announce_def u64_max_def)

text \<open>The parser works segment by segment. For a query string made of key-value segments joined by
  ampersands, with no further ampersand or equal sign in keys or values, the loop over the positions
  of the equal signs, which pairs the n-th equal sign with the n-th ampersand, handles exactly the
  segments, in order, and stops at the first one that is refused.\<close>
theorem query_loop_is_segmentwise:
  assumes "ss \<noteq> []" and "\<forall>(k, v) \<in> set ss. plain k \<and> plain v"
  shows "query_loop field (join_segments ss) (positions 61 (join_segments ss))
      (positions 38 (join_segments ss)) 0 s = run_segments field ss s"
  using query_loop_run [OF assms] .

lemma query_loop_is_segmentwise_witness:
  "query_loop (announce_field ref_http_crates) (join_segments [(str ''port'', str ''80'')])
      (positions 61 (join_segments [(str ''port'', str ''80'')]))
      (positions 38 (join_segments [(str ''port'', str ''80'')])) 0 no_fields =
    run_segments (announce_field ref_http_crates) [(str ''port'', str ''80'')] no_fields"
  by (rule query_loop_is_segmentwise) (simp_all add: plain_def)

text \<open>A flaw of the percent decoder: the two characters after a percent sign are cut to their low eight
  bits before they are read as hexadecimal digits, so a character far outside ASCII, here U+0161
  twice, is taken for the digit of its low byte (0x61, the letter a), although such a character is
  rejected everywhere else.\<close>
theorem urldecode_truncates_characters:
  "urldecode_loop ref_http_crates 1 (chars [0x25, 0xC5, 0xA1, 0xC5, 0xA1]) = Inr ([0xAA], []) \<and>
   urldecode_loop ref_http_crates 1 (chars [0xC5, 0xA1]) = Inl (NotSingleByte 0x161)"
proof -
  have "utf8_step (0xC5 # 0xA1 # bs) = (2, True)" for bs
    by (simp add: utf8_step_def seq2_def nth_sat_def cont_byte_def in_range_def)
  then have c: "chars (0xC5 # 0xA1 # bs) = 0x161 # chars bs" for bs
    by (subst chars.simps) (simp add: code_point_def)
  have "chars [0x25, 0xC5, 0xA1, 0xC5, 0xA1] = [0x25, 0x161, 0x161]"
    using chars_ascii [of "0x25" "[0xC5, 0xA1, 0xC5, 0xA1]"] by (simp add: c)
  moreover have "hex_value 0x161 = Some 10" by (simp add: hex_value_def ascii_digit_def)
  ultimately show ?thesis
    unfolding One_nat_def by (simp add: c)
qed

end
