(* ===== verification/Http_Swarm.thy ===== *)
theory Http_Swarm
  imports Peer_Store Http_Protocol Access_List
begin

text \<open>
  \<open>crates/http/src/workers/swarm/storage.rs\<close>: the torrents of an HTTP swarm worker. As in the UDP
  tracker, the peers of a torrent are kept in an array of at most four entries or in an index map.
  \<open>None\<close> stands for a panic or an index subtraction below zero. Metrics are not modelled.
\<close>

record http_config =
  hcf_max_peers :: nat
  hcf_max_scrape_torrents :: nat
  hcf_peer_announce_interval :: u64
  hcf_access_list_mode :: access_list_mode

definition HTTP_SMALL_PEER_MAP_CAPACITY :: nat where
  "HTTP_SMALL_PEER_MAP_CAPACITY = 4"

text \<open>A \<open>u64\<close> always fits the 64-bit \<open>usize\<close>, so the conversion's error branch is never taken.\<close>

definition u64_to_usize_checked :: "u64 \<Rightarrow> u64" where
  "u64_to_usize_checked v = v"

record http_peer =
  hpe_valid_until :: valid_until
  hpe_is_seeder :: bool

datatype http_peer_status = HttpSeeding | HttpLeeching | HttpStatusStopped

definition http_from_event_and_bytes_left :: "http_announce_event \<Rightarrow> nat \<Rightarrow> http_peer_status" where
  "http_from_event_and_bytes_left event bytes_left =
     (if event = HttpStopped then HttpStatusStopped
      else if bytes_left = 0 then HttpSeeding else HttpLeeching)"

type_synonym 'i http_peer_entries = "('i http_response_peer, http_peer) index_map"
type_synonym 'i http_peer_ops = "('i http_response_peer, http_peer) index_map_ops"

record 'i http_small_map =
  hsm_peers :: "'i http_peer_entries"
  hsm_completed :: u64

record 'i http_large_map =
  hlm_peers :: "'i http_peer_entries"
  hlm_num_seeders :: u64
  hlm_completed :: u64

datatype 'i http_torrent_data = HttpSmall "'i http_small_map" | HttpLarge "'i http_large_map"

definition http_torrent_default :: "'i http_torrent_data" where
  "http_torrent_default = HttpSmall \<lparr>hsm_peers = [], hsm_completed = 0\<rparr>"

subsection \<open>The small map\<close>

definition http_small_is_full :: "'i http_small_map \<Rightarrow> bool" where
  "http_small_is_full m = (length (hsm_peers m) = HTTP_SMALL_PEER_MAP_CAPACITY)"

definition http_small_counts :: "'i http_small_map \<Rightarrow> u64 \<times> u64" where
  "http_small_counts m =
     (let seeders = of_nat (length (filter (\<lambda>(_, p). hpe_is_seeder p) (hsm_peers m)))
      in (seeders, of_nat (length (hsm_peers m)) - seeders))"

definition http_small_insert ::
  "'i http_response_peer \<Rightarrow> http_peer \<Rightarrow> 'i http_small_map \<Rightarrow> 'i http_small_map option" where
  "http_small_insert key p m =
     (if length (hsm_peers m) < HTTP_SMALL_PEER_MAP_CAPACITY
      then Some (m\<lparr>hsm_peers := hsm_peers m @ [(key, p)]\<rparr>) else None)"

fun http_remove_first :: "'k \<Rightarrow> ('k \<times> 'p) list \<Rightarrow> 'p option \<times> ('k \<times> 'p) list" where
  "http_remove_first key [] = (None, [])"
| "http_remove_first key ((k, p) # es) =
     (if k = key then (Some p, es)
      else (let (r, es') = http_remove_first key es in (r, (k, p) # es')))"

definition http_small_remove ::
  "'i http_response_peer \<Rightarrow> 'i http_small_map \<Rightarrow> http_peer option \<times> 'i http_small_map" where
  "http_small_remove key m =
     (let (r, es) = http_remove_first key (hsm_peers m) in (r, m\<lparr>hsm_peers := es\<rparr>))"

definition http_small_extract :: "nat \<Rightarrow> 'i http_small_map \<Rightarrow> 'i http_response_peer list" where
  "http_small_extract n m = map fst (take n (hsm_peers m))"

definition http_small_clean :: "seconds_since_start \<Rightarrow> 'i http_small_map \<Rightarrow> 'i http_small_map \<times> nat" where
  "http_small_clean now m =
     (let es = filter (\<lambda>(_, p). valid (hpe_valid_until p) now) (hsm_peers m)
      in (m\<lparr>hsm_peers := es\<rparr>, length es))"

definition http_to_large :: "'i http_peer_ops \<Rightarrow> 'i http_small_map \<Rightarrow> 'i http_large_map" where
  "http_to_large im m = \<lparr>
     hlm_peers = fold (\<lambda>(k, p). im_insert im k p) (hsm_peers m) [],
     hlm_num_seeders = fst (http_small_counts m),
     hlm_completed = hsm_completed m\<rparr>"

subsection \<open>The large map\<close>

definition http_large_counts :: "'i http_large_map \<Rightarrow> u64 \<times> u64" where
  "http_large_counts m = (hlm_num_seeders m, of_nat (length (hlm_peers m)) - hlm_num_seeders m)"

definition http_large_insert ::
  "'i http_peer_ops \<Rightarrow> 'i http_response_peer \<Rightarrow> http_peer \<Rightarrow> 'i http_large_map \<Rightarrow> 'i http_large_map" where
  "http_large_insert im key p m =
     (let m1 = (if hpe_is_seeder p then m\<lparr>hlm_num_seeders := hlm_num_seeders m + 1\<rparr> else m)
      in m1\<lparr>hlm_peers := im_insert im key p (hlm_peers m1)\<rparr>)"

definition http_large_remove ::
  "'i http_peer_ops \<Rightarrow> 'i http_response_peer \<Rightarrow> 'i http_large_map \<Rightarrow> http_peer option \<times> 'i http_large_map"
  where "http_large_remove im key m =
     (let r = map_of (hlm_peers m) key;
          m1 = m\<lparr>hlm_peers := im_swap_remove im key (hlm_peers m)\<rparr>
      in (r, case r of
          Some p \<Rightarrow> if hpe_is_seeder p then m1\<lparr>hlm_num_seeders := hlm_num_seeders m1 - 1\<rparr> else m1
        | None \<Rightarrow> m1))"

definition http_index_sub :: "nat \<Rightarrow> nat \<Rightarrow> nat option" where
  "http_index_sub a b = (if b \<le> a then Some (a - b) else None)"

definition http_slice_keys :: "nat \<Rightarrow> nat \<Rightarrow> ('k, 'v) index_map \<Rightarrow> 'k list" where
  "http_slice_keys a b es = (case im_get_range a b es of Some s \<Rightarrow> im_keys s | None \<Rightarrow> [])"

definition http_large_extract ::
  "'r gen_range \<Rightarrow> 'r \<Rightarrow> nat \<Rightarrow> 'i http_large_map \<Rightarrow> ('i http_response_peer list \<times> 'r) option" where
  "http_large_extract gen r max_num m =
     (let es = hlm_peers m in
      if length es \<le> max_num then Some (im_keys es, r)
      else
        let middle = length es div 2;
            num_one = (max_num + 1) div 2;
            num_two = max_num div 2
        in Option.bind (http_index_sub middle num_one) (\<lambda>top_one.
             let (offset_one, r1) = gen 0 top_one r;
                 peers = http_slice_keys offset_one (offset_one + num_one) es
             in if 0 < num_two then
                  Option.bind (Option.bind (http_index_sub (length es) middle)
                      (\<lambda>d. http_index_sub d num_two))
                    (\<lambda>top_two.
                     let (o2, r2) = gen 0 top_two r1;
                         offset_two = middle + o2
                     in Some (peers @ http_slice_keys offset_two (offset_two + num_two) es, r2))
                else Some (peers, r1)))"

fun http_large_retain ::
  "seconds_since_start \<Rightarrow> 'i http_peer_entries \<Rightarrow> u64 \<Rightarrow> 'i http_peer_entries \<times> u64" where
  "http_large_retain now [] n = ([], n)"
| "http_large_retain now ((k, p) # es) n =
     (if valid (hpe_valid_until p) now
      then (let (es', n') = http_large_retain now es n in ((k, p) # es', n'))
      else http_large_retain now es (if hpe_is_seeder p then n - 1 else n))"

definition http_large_clean :: "seconds_since_start \<Rightarrow> 'i http_large_map \<Rightarrow> 'i http_large_map \<times> nat" where
  "http_large_clean now m =
     (let (es, n) = http_large_retain now (hlm_peers m) (hlm_num_seeders m)
      in (m\<lparr>hlm_peers := es, hlm_num_seeders := n\<rparr>, length es))"

definition http_try_shrink :: "'i http_large_map \<Rightarrow> 'i http_small_map option" where
  "http_try_shrink m = (if length (hlm_peers m) \<le> HTTP_SMALL_PEER_MAP_CAPACITY
     then Some \<lparr>hsm_peers = hlm_peers m, hsm_completed = hlm_completed m\<rparr> else None)"

subsection \<open>A torrent\<close>

definition http_max_num_peers :: "http_config \<Rightarrow> http_announce_request \<Rightarrow> nat" where
  "http_max_num_peers cf req =
     (case ha_numwant req of
        None \<Rightarrow> hcf_max_peers cf
      | Some n \<Rightarrow> if n = 0 then hcf_max_peers cf else min n (hcf_max_peers cf))"

definition http_announce_status :: "http_announce_request \<Rightarrow> http_peer_status" where
  "http_announce_status req = http_from_event_and_bytes_left (ha_event req) (ha_bytes_left req)"

definition http_count_completed :: "http_announce_request \<Rightarrow> 'i http_torrent_data \<Rightarrow> 'i http_torrent_data"
  where "http_count_completed req td =
     (if ha_event req = HttpCompleted then
        (case td of
           HttpSmall m \<Rightarrow> HttpSmall (m\<lparr>hsm_completed := hsm_completed m + 1\<rparr>)
         | HttpLarge m \<Rightarrow> HttpLarge (m\<lparr>hlm_completed := hlm_completed m + 1\<rparr>))
      else td)"

text \<open>Seeders, leechers and response peers, the peer removed, and the map without it, converted.\<close>

definition http_respond ::
  "'i http_peer_ops \<Rightarrow> 'r gen_range \<Rightarrow> http_config \<Rightarrow> http_announce_request \<Rightarrow> 'i http_response_peer \<Rightarrow> 'r \<Rightarrow>
   'i http_torrent_data \<Rightarrow>
   ((u64 \<times> u64) \<times> 'i http_response_peer list \<times> http_peer option \<times> 'i http_torrent_data \<times> 'r) option" where
  "http_respond im gen cf req key r td =
     (let status = http_announce_status req; n = http_max_num_peers cf req in
      case td of
        HttpSmall m \<Rightarrow>
          (let (removed, m1) = http_small_remove key m;
               td' = (if http_small_is_full m1 \<and> status \<noteq> HttpStatusStopped
                      then HttpLarge (http_to_large im m1) else HttpSmall m1)
           in Some (http_small_counts m1, http_small_extract n m1, removed, td', r))
      | HttpLarge m \<Rightarrow>
          (let (removed, m1) = http_large_remove im key m in
           Option.bind (http_large_extract gen r n m1) (\<lambda>(peers, r').
             let td' = (if status = HttpStatusStopped then
                          (case http_try_shrink m1 of Some s \<Rightarrow> HttpSmall s | None \<Rightarrow> HttpLarge m1)
                        else HttpLarge m1)
             in Some (http_large_counts m1, peers, removed, td', r'))))"

definition http_torrent_insert ::
  "'i http_peer_ops \<Rightarrow> 'i http_response_peer \<Rightarrow> http_peer \<Rightarrow> 'i http_torrent_data \<Rightarrow>
   'i http_torrent_data option" where
  "http_torrent_insert im key p td =
     (case td of
        HttpSmall m \<Rightarrow> map_option HttpSmall (http_small_insert key p m)
      | HttpLarge m \<Rightarrow> Some (HttpLarge (http_large_insert im key p m)))"

definition http_upsert_peer ::
  "'i http_peer_ops \<Rightarrow> 'r gen_range \<Rightarrow> http_config \<Rightarrow> http_announce_request \<Rightarrow> 'i \<Rightarrow> valid_until \<Rightarrow> 'r \<Rightarrow>
   'i http_torrent_data \<Rightarrow>
   ((u64 \<times> u64) \<times> 'i http_response_peer list \<times> 'i http_torrent_data \<times> 'r) option" where
  "http_upsert_peer im gen cf req ip vu r td =
     (let status = http_announce_status req;
          key = \<lparr>hp_ip_address = ip, hp_port = ha_port req\<rparr>
      in Option.bind (http_respond im gen cf req key r (http_count_completed req td))
        (\<lambda>(counts, peers, removed, td1, r1).
          if status = HttpStatusStopped then Some (counts, peers, td1, r1)
          else map_option (\<lambda>td2. (counts, peers, td2, r1))
            (http_torrent_insert im key
              \<lparr>hpe_valid_until = vu, hpe_is_seeder = (status = HttpSeeding)\<rparr> td1)))"

definition http_scrape_statistics_of :: "'i http_torrent_data \<Rightarrow> http_scrape_statistics" where
  "http_scrape_statistics_of td =
     (let ((seeders, leechers), completed) = (case td of
          HttpSmall m \<Rightarrow> (http_small_counts m, hsm_completed m)
        | HttpLarge m \<Rightarrow> (http_large_counts m, hlm_completed m))
      in \<lparr>hst_complete = seeders, hst_incomplete = leechers,
          hst_downloaded = u64_to_usize_checked completed\<rparr>)"

definition http_torrent_clean :: "seconds_since_start \<Rightarrow> 'i http_torrent_data \<Rightarrow> 'i http_torrent_data \<times> nat"
  where "http_torrent_clean now td =
     (case td of
        HttpSmall m \<Rightarrow> (let (m', n) = http_small_clean now m in (HttpSmall m', n))
      | HttpLarge m \<Rightarrow> (let (m', n) = http_large_clean now m in (HttpLarge m', n)))"

subsection \<open>All torrents of an address family\<close>

type_synonym 'i http_torrent_map = "(http_info_hash, 'i http_torrent_data) index_map"
type_synonym 'i http_torrent_ops = "(http_info_hash, 'i http_torrent_data) index_map_ops"

definition http_entry_or_default ::
  "'i http_torrent_ops \<Rightarrow> http_info_hash \<Rightarrow> 'i http_torrent_map \<Rightarrow> 'i http_torrent_map" where
  "http_entry_or_default it h torrents =
     (if map_of torrents h = None then im_insert it h http_torrent_default torrents else torrents)"

definition http_map_announce ::
  "'i http_torrent_ops \<Rightarrow> 'i http_peer_ops \<Rightarrow> 'r gen_range \<Rightarrow> http_config \<Rightarrow> http_announce_request \<Rightarrow> 'i \<Rightarrow>
   valid_until \<Rightarrow> 'r \<Rightarrow> 'i http_torrent_map \<Rightarrow>
   ((u64 \<times> u64) \<times> 'i http_response_peer list \<times> 'i http_torrent_map \<times> 'r) option" where
  "http_map_announce it im gen cf req ip vu r torrents =
     (let torrents1 = http_entry_or_default it (ha_info_hash req) torrents
      in map_option
          (\<lambda>(counts, peers, td', r'). (counts, peers, AList.update (ha_info_hash req) td' torrents1, r'))
          (http_upsert_peer im gen cf req ip vu r (the (map_of torrents1 (ha_info_hash req)))))"

text \<open>Insertion into the \<open>BTreeMap\<close> of the response; hashes compare as big-endian numbers.\<close>

fun btree_insert :: "'k::linorder \<Rightarrow> 'v \<Rightarrow> ('k \<times> 'v) list \<Rightarrow> ('k \<times> 'v) list" where
  "btree_insert k v [] = [(k, v)]"
| "btree_insert k v ((k', v') # es) =
     (if k < k' then (k, v) # (k', v') # es
      else if k = k' then (k, v) # es
      else (k', v') # btree_insert k v es)"

definition http_map_scrape ::
  "http_config \<Rightarrow> http_scrape_request \<Rightarrow> 'i http_torrent_map \<Rightarrow> http_scrape_response" where
  "http_map_scrape cf req torrents =
     (let num_to_take = min (length (hs_info_hashes req)) (hcf_max_scrape_torrents cf)
      in \<lparr>hsr_files = fold (\<lambda>h files. btree_insert h
            (case map_of torrents h of
               Some td \<Rightarrow> http_scrape_statistics_of td
             | None \<Rightarrow> \<lparr>hst_complete = 0, hst_incomplete = 0, hst_downloaded = 0\<rparr>) files)
          (take num_to_take (hs_info_hashes req)) []\<rparr>)"

fun http_map_clean ::
  "http_config \<Rightarrow> access_list \<Rightarrow> seconds_since_start \<Rightarrow> 'i http_torrent_map \<Rightarrow> 'i http_torrent_map" where
  "http_map_clean cf al now [] = []"
| "http_map_clean cf al now ((h, td) # es) =
     (if \<not> allows (hcf_access_list_mode cf) al h then http_map_clean cf al now es
      else (let (td', num_peers) = http_torrent_clean now td
            in if 0 < num_peers then (h, td') # http_map_clean cf al now es
               else http_map_clean cf al now es))"

subsection \<open>Both address families\<close>

record http_torrent_maps =
  htm_ipv4 :: "u32 http_torrent_map"
  htm_ipv6 :: "u128 http_torrent_map"

definition http_torrent_maps_new :: http_torrent_maps where
  "http_torrent_maps_new = \<lparr>htm_ipv4 = [], htm_ipv6 = []\<rparr>"

record http_swarm_ops =
  ho_torrents4 :: "u32 http_torrent_ops"
  ho_torrents6 :: "u128 http_torrent_ops"
  ho_peers4 :: "u32 http_peer_ops"
  ho_peers6 :: "u128 http_peer_ops"

definition handle_announce_request ::
  "http_swarm_ops \<Rightarrow> 'r gen_range \<Rightarrow> http_config \<Rightarrow> valid_until \<Rightarrow> canonical_socket_addr \<Rightarrow>
   http_announce_request \<Rightarrow> 'r \<Rightarrow> http_torrent_maps \<Rightarrow>
   (http_announce_response \<times> http_torrent_maps \<times> 'r) option" where
  "handle_announce_request ops gen cf vu peer_addr req r maps =
     (case socket_ip (get_addr peer_addr) of
        V4 ip \<Rightarrow> map_option (\<lambda>((seeders, leechers), peers, m, r').
            (\<lparr>har_announce_interval = hcf_peer_announce_interval cf, har_complete = seeders,
              har_incomplete = leechers, har_peers = peers, har_peers6 = [],
              har_warning_message = None\<rparr>, maps\<lparr>htm_ipv4 := m\<rparr>, r'))
          (http_map_announce (ho_torrents4 ops) (ho_peers4 ops) gen cf req ip vu r (htm_ipv4 maps))
      | V6 ip \<Rightarrow> map_option (\<lambda>((seeders, leechers), peers, m, r').
            (\<lparr>har_announce_interval = hcf_peer_announce_interval cf, har_complete = seeders,
              har_incomplete = leechers, har_peers = [], har_peers6 = peers,
              har_warning_message = None\<rparr>, maps\<lparr>htm_ipv6 := m\<rparr>, r'))
          (http_map_announce (ho_torrents6 ops) (ho_peers6 ops) gen cf req ip vu r (htm_ipv6 maps)))"

definition handle_scrape_request ::
  "http_config \<Rightarrow> canonical_socket_addr \<Rightarrow> http_scrape_request \<Rightarrow> http_torrent_maps \<Rightarrow> http_scrape_response"
  where "handle_scrape_request cf peer_addr req maps =
     (if \<not> is_ipv6 (socket_ip (get_addr peer_addr)) then http_map_scrape cf req (htm_ipv4 maps)
      else http_map_scrape cf req (htm_ipv6 maps))"

definition http_clean ::
  "http_config \<Rightarrow> access_list \<Rightarrow> seconds_since_start \<Rightarrow> http_torrent_maps \<Rightarrow> http_torrent_maps" where
  "http_clean cf al now maps =
     \<lparr>htm_ipv4 = http_map_clean cf al now (htm_ipv4 maps),
      htm_ipv6 = http_map_clean cf al now (htm_ipv6 maps)\<rparr>"

end
