(* ===== verification/Http_Swarm_Spec.thy ===== *)
theory Http_Swarm_Spec
  imports Http_Swarm
begin

text \<open>
  What an HTTP swarm worker promises: its two peer maps meet the contract \<open>peer_store\<close>, an announce
  refines the update of a finite map and answers from the other peers, a scrape lists each torrent
  asked for once and in order, and cleaning keeps the live peers of the allowed torrents.
\<close>

definition http_alive :: "seconds_since_start \<Rightarrow> http_peer \<Rightarrow> bool" where
  "http_alive now p = valid (hpe_valid_until p) now"

subsection \<open>The peer maps meet the contract\<close>

definition http_small_inv :: "'i http_small_map \<Rightarrow> bool" where
  "http_small_inv m = (distinct (im_keys (hsm_peers m)) \<and>
     length (hsm_peers m) \<le> HTTP_SMALL_PEER_MAP_CAPACITY)"

definition http_small_room :: "'i http_small_map \<Rightarrow> bool" where
  "http_small_room m = (length (hsm_peers m) < HTTP_SMALL_PEER_MAP_CAPACITY)"

definition http_large_inv :: "'i http_large_map \<Rightarrow> bool" where
  "http_large_inv m = (distinct (im_keys (hlm_peers m)) \<and>
     hlm_num_seeders m = of_nat (length (filter (\<lambda>e. hpe_is_seeder (snd e)) (hlm_peers m))))"

lemma http_remove_first_result: "fst (http_remove_first k es) = map_of es k"
  by (induction es) (auto simp: case_prod_unfold)

lemma http_remove_first_entries:
  "distinct (im_keys es) \<Longrightarrow> snd (http_remove_first k es) = filter (\<lambda>e. fst e \<noteq> k) es"
proof (induction es)
  case Nil
  then show ?case by simp
next
  case (Cons e es)
  then show ?case
    by (cases e; cases "fst e = k")
      (auto simp: case_prod_unfold Let_def filter_fresh)
qed

lemma http_small_clean_eq:
  "http_small_clean now m =
   (m\<lparr>hsm_peers := filter (\<lambda>e. http_alive now (snd e)) (hsm_peers m)\<rparr>,
    length (filter (\<lambda>e. http_alive now (snd e)) (hsm_peers m)))"
  by (simp add: http_small_clean_def case_prod_unfold Let_def http_alive_def)

interpretation http_small: peer_store hsm_peers http_small_inv http_small_room hpe_is_seeder
  http_small_insert http_small_remove http_small_counts http_alive "\<lambda>t m. fst (http_small_clean t m)"
proof
  fix s :: "'i http_small_map" and k :: "'i http_response_peer" and p :: http_peer and t
  show "http_small_inv s \<Longrightarrow> distinct (map fst (hsm_peers s))"
    by (simp add: http_small_inv_def)
  show "http_small_inv s \<Longrightarrow> http_small_room s \<Longrightarrow> k \<notin> fst ` set (hsm_peers s) \<Longrightarrow>
      \<exists>s'. http_small_insert k p s = Some s' \<and> http_small_inv s' \<and>
        mset (hsm_peers s') = mset ((k, p) # hsm_peers s)"
    by (auto simp: http_small_insert_def http_small_inv_def http_small_room_def)
  show "http_small_inv s \<Longrightarrow> http_small_inv (snd (http_small_remove k s))"
    by (auto simp: http_small_inv_def http_small_remove_def case_prod_unfold Let_def
        http_remove_first_entries distinct_map_filter intro: order_trans [OF length_filter_le])
  show "http_small_inv s \<Longrightarrow> mset (hsm_peers (snd (http_small_remove k s))) =
      mset (filter (\<lambda>e. fst e \<noteq> k) (hsm_peers s))"
    by (simp add: http_small_inv_def http_small_remove_def case_prod_unfold Let_def
        http_remove_first_entries)
  show "http_small_inv s \<Longrightarrow> fst (http_small_remove k s) = map_of (hsm_peers s) k"
    by (simp add: http_small_remove_def case_prod_unfold Let_def http_remove_first_result)
  show "http_small_inv s \<Longrightarrow> http_small_counts s =
      (of_nat (length (filter (\<lambda>e. hpe_is_seeder (snd e)) (hsm_peers s))),
       of_nat (length (filter (\<lambda>e. \<not> hpe_is_seeder (snd e)) (hsm_peers s))))"
    by (simp add: http_small_counts_def case_prod_unfold leechers_of_difference)
  show "http_small_inv s \<Longrightarrow> http_small_inv (fst (http_small_clean t s))"
    by (auto simp: http_small_inv_def http_small_clean_eq distinct_map_filter
        intro: order_trans [OF length_filter_le])
  show "http_small_inv s \<Longrightarrow>
      hsm_peers (fst (http_small_clean t s)) = filter (\<lambda>e. http_alive t (snd e)) (hsm_peers s)"
    by (simp add: http_small_clean_eq)
qed

lemma http_large_retain_eq:
  "http_large_retain now es n = (filter (\<lambda>e. http_alive now (snd e)) es,
   n - of_nat (length (filter (\<lambda>e. hpe_is_seeder (snd e) \<and> \<not> http_alive now (snd e)) es)))"
  by (induction es arbitrary: n) (auto simp: http_alive_def)

lemma http_large_clean_eq:
  "http_large_clean now m =
   (m\<lparr>hlm_peers := filter (\<lambda>e. http_alive now (snd e)) (hlm_peers m),
      hlm_num_seeders := hlm_num_seeders m -
        of_nat (length (filter (\<lambda>e. hpe_is_seeder (snd e) \<and> \<not> http_alive now (snd e)) (hlm_peers m)))\<rparr>,
    length (filter (\<lambda>e. http_alive now (snd e)) (hlm_peers m)))"
  by (simp add: http_large_clean_def http_large_retain_eq)

lemma http_large_clean_inv: "http_large_inv m \<Longrightarrow> http_large_inv (fst (http_large_clean now m))"
  using filter_split_count [of "\<lambda>e. hpe_is_seeder (snd e)" "hlm_peers m" "\<lambda>e. http_alive now (snd e)"]
  by (simp add: http_large_inv_def http_large_clean_eq distinct_map_filter)

locale http_swarm = index_map im + rng_source gen
  for im :: "'i http_peer_ops" and gen :: "'r gen_range"
begin

lemma http_large_remove_inv:
  assumes "http_large_inv m"
  shows "http_large_inv (snd (http_large_remove im k m))"
proof -
  have d: "distinct (im_keys (hlm_peers m))" using assms by (simp add: http_large_inv_def)
  show ?thesis
    using assms map_of_split_length [OF d, of hpe_is_seeder k] length_filter_swap_remove [OF d]
    by (auto simp: http_large_inv_def http_large_remove_def Let_def distinct_swap_remove
        split: option.splits)
qed

lemma http_large_insert_ok:
  assumes "http_large_inv m" and "k \<notin> fst ` set (hlm_peers m)"
  shows "http_large_inv (http_large_insert im k p m) \<and>
    mset (hlm_peers (http_large_insert im k p m)) = mset ((k, p) # hlm_peers m)"
  using assms by (auto simp: http_large_insert_def http_large_inv_def insert_new Let_def)

end

sublocale http_swarm \<subseteq> large: peer_store hlm_peers http_large_inv "\<lambda>_. True" hpe_is_seeder
  "\<lambda>k p m. Some (http_large_insert im k p m)" "http_large_remove im" http_large_counts http_alive
  "\<lambda>t m. fst (http_large_clean t m)"
proof
  fix s :: "'i http_large_map" and k :: "'i http_response_peer" and p :: http_peer and t
  show "http_large_inv s \<Longrightarrow> distinct (map fst (hlm_peers s))"
    by (simp add: http_large_inv_def)
  show "http_large_inv s \<Longrightarrow> True \<Longrightarrow> k \<notin> fst ` set (hlm_peers s) \<Longrightarrow>
      \<exists>s'. Some (http_large_insert im k p s) = Some s' \<and> http_large_inv s' \<and>
        mset (hlm_peers s') = mset ((k, p) # hlm_peers s)"
    using http_large_insert_ok by simp
  show "http_large_inv s \<Longrightarrow> http_large_inv (snd (http_large_remove im k s))"
    by (rule http_large_remove_inv)
  show "http_large_inv s \<Longrightarrow>
      mset (hlm_peers (snd (http_large_remove im k s))) = mset (filter (\<lambda>e. fst e \<noteq> k) (hlm_peers s))"
    by (auto simp: http_large_inv_def http_large_remove_def Let_def swap_remove split: option.splits)
  show "http_large_inv s \<Longrightarrow> fst (http_large_remove im k s) = map_of (hlm_peers s) k"
    by (simp add: http_large_remove_def Let_def)
  show "http_large_inv s \<Longrightarrow> http_large_counts s =
      (of_nat (length (filter (\<lambda>e. hpe_is_seeder (snd e)) (hlm_peers s))),
       of_nat (length (filter (\<lambda>e. \<not> hpe_is_seeder (snd e)) (hlm_peers s))))"
    by (simp add: http_large_counts_def http_large_inv_def leechers_of_difference)
  show "http_large_inv s \<Longrightarrow> http_large_inv (fst (http_large_clean t s))"
    by (rule http_large_clean_inv)
  show "http_large_inv s \<Longrightarrow>
      hlm_peers (fst (http_large_clean t s)) = filter (\<lambda>e. http_alive t (snd e)) (hlm_peers s)"
    by (simp add: http_large_clean_eq)
qed

interpretation http_ref: http_swarm ref_index_map ref_gen_range
  by unfold_locales

subsection \<open>The abstract torrent\<close>

fun htd_peers :: "'i http_torrent_data \<Rightarrow> 'i http_peer_entries" where
  "htd_peers (HttpSmall m) = hsm_peers m"
| "htd_peers (HttpLarge m) = hlm_peers m"

fun htd_completed :: "'i http_torrent_data \<Rightarrow> u64" where
  "htd_completed (HttpSmall m) = hsm_completed m"
| "htd_completed (HttpLarge m) = hlm_completed m"

fun htd_inv :: "'i http_torrent_data \<Rightarrow> bool" where
  "htd_inv (HttpSmall m) = http_small_inv m"
| "htd_inv (HttpLarge m) = http_large_inv m"

fun htd_room :: "'i http_torrent_data \<Rightarrow> bool" where
  "htd_room (HttpSmall m) = http_small_room m"
| "htd_room (HttpLarge m) = True"

definition htd_abs :: "'i http_torrent_data \<Rightarrow> ('i http_response_peer \<rightharpoonup> http_peer)" where
  "htd_abs td = map_of (htd_peers td)"

definition http_announcing_key :: "http_announce_request \<Rightarrow> 'i \<Rightarrow> 'i http_response_peer" where
  "http_announcing_key req ip = \<lparr>hp_ip_address = ip, hp_port = ha_port req\<rparr>"

definition http_announced_peer :: "http_announce_request \<Rightarrow> valid_until \<Rightarrow> http_peer" where
  "http_announced_peer req vu =
     \<lparr>hpe_valid_until = vu, hpe_is_seeder = (http_announce_status req = HttpSeeding)\<rparr>"

definition http_spec_announce ::
  "http_announce_request \<Rightarrow> 'i \<Rightarrow> valid_until \<Rightarrow> ('i http_response_peer \<rightharpoonup> http_peer) \<Rightarrow>
   ('i http_response_peer \<rightharpoonup> http_peer)" where
  "http_spec_announce req ip vu m =
     (if ha_event req = HttpStopped then m(http_announcing_key req ip := None)
      else m(http_announcing_key req ip \<mapsto> http_announced_peer req vu))"

definition http_seeders_of :: "('k \<rightharpoonup> http_peer) \<Rightarrow> u64" where
  "http_seeders_of m = of_nat (num_with hpe_is_seeder m)"

definition http_leechers_of :: "('k \<rightharpoonup> http_peer) \<Rightarrow> u64" where
  "http_leechers_of m = of_nat (num_with (\<lambda>p. \<not> hpe_is_seeder p) m)"

definition http_answer_conforms ::
  "http_config \<Rightarrow> http_announce_request \<Rightarrow> ('i http_response_peer \<rightharpoonup> http_peer) \<Rightarrow> u64 \<times> u64 \<Rightarrow>
   'i http_response_peer list \<Rightarrow> bool" where
  "http_answer_conforms cf req others counts peers =
     (counts = (http_seeders_of others, http_leechers_of others) \<and>
      distinct peers \<and> set peers \<subseteq> dom others \<and>
      length peers = min (http_max_num_peers cf req) (card (dom others)))"

definition http_completed_after :: "http_announce_request \<Rightarrow> u64 \<Rightarrow> u64" where
  "http_completed_after req n = (if ha_event req = HttpCompleted then n + 1 else n)"

lemma http_count_completed [simp]:
  "htd_peers (http_count_completed req td) = htd_peers td"
  "htd_inv (http_count_completed req td) = htd_inv td"
  "htd_completed (http_count_completed req td) = http_completed_after req (htd_completed td)"
  by (cases td; simp add: http_count_completed_def http_completed_after_def http_small_inv_def
      http_large_inv_def)+

lemma http_stopped: "http_announce_status req = HttpStatusStopped \<longleftrightarrow> ha_event req = HttpStopped"
  by (simp add: http_announce_status_def http_from_event_and_bytes_left_def)

lemma htd_distinct: "htd_inv td \<Longrightarrow> distinct (im_keys (htd_peers td))"
  by (cases td) (auto simp: http_small_inv_def http_large_inv_def)

lemma card_htd_abs: "htd_inv td \<Longrightarrow> card (dom (htd_abs td)) = length (htd_peers td)"
  by (simp add: htd_abs_def num_with_True [symmetric] num_with_map_of htd_distinct)

lemma http_small_counts_abs:
  "http_small_inv m \<Longrightarrow> http_small_counts m =
   (http_seeders_of (map_of (hsm_peers m)), http_leechers_of (map_of (hsm_peers m)))"
  using http_small.counts_abs
  by (simp add: http_seeders_of_def http_leechers_of_def http_small.abs_def)

lemma http_small_completed_remove [simp]:
  "hsm_completed (snd (http_small_remove k m)) = hsm_completed m"
  by (simp add: http_small_remove_def case_prod_unfold Let_def)

lemma http_large_completed_remove [simp]:
  "hlm_completed (snd (http_large_remove im k m)) = hlm_completed m"
  by (simp add: http_large_remove_def Let_def split: option.split)

subsection \<open>Announces\<close>

definition http_respond_ok ::
  "http_config \<Rightarrow> http_announce_request \<Rightarrow> 'i http_response_peer \<Rightarrow> 'i http_torrent_data \<Rightarrow>
   u64 \<times> u64 \<Rightarrow> 'i http_response_peer list \<Rightarrow> 'i http_torrent_data \<Rightarrow> bool" where
  "http_respond_ok cf req key td counts peers td1 =
     (htd_inv td1 \<and> htd_abs td1 = (htd_abs td)(key := None) \<and>
      htd_completed td1 = htd_completed td \<and>
      http_answer_conforms cf req ((htd_abs td)(key := None)) counts peers \<and>
      (ha_event req \<noteq> HttpStopped \<longrightarrow> htd_room td1))"

context http_swarm
begin

lemma large_counts_abs:
  "http_large_inv m \<Longrightarrow> http_large_counts m =
   (http_seeders_of (map_of (hlm_peers m)), http_leechers_of (map_of (hlm_peers m)))"
  for m :: "'i http_large_map"
  using large.counts_abs by (simp add: http_seeders_of_def http_leechers_of_def large.abs_def)

lemma to_large_ok:
  assumes "http_small_inv m"
  shows "http_large_inv (http_to_large im m) \<and> hlm_peers (http_to_large im m) = hsm_peers m"
proof -
  have "fold (\<lambda>(k, p). im_insert im k p) (hsm_peers m) [] = [] @ hsm_peers m"
    using assms by (intro fold_insert_fresh) (auto simp: insert_new http_small_inv_def)
  then show ?thesis
    using assms by (simp add: http_to_large_def http_large_inv_def http_small_inv_def
        http_small.counts_law [OF assms])
qed

lemma try_shrink_ok:
  "http_large_inv m \<Longrightarrow> http_try_shrink m = Some s \<Longrightarrow>
   http_small_inv s \<and> hsm_peers s = hlm_peers m \<and> hsm_completed s = hlm_completed m"
  by (auto simp: http_try_shrink_def http_small_inv_def http_large_inv_def split: if_splits)

lemma large_extract:
  assumes "distinct (im_keys (hlm_peers m))"
  shows "\<exists>ps r'. http_large_extract gen r n m = Some (ps, r') \<and> distinct ps \<and>
    set ps \<subseteq> set (im_keys (hlm_peers m)) \<and> length ps = min n (length (hlm_peers m))"
proof -
  have "http_large_extract gen r n m = sample_halves gen r n (hlm_peers m)"
    unfolding http_large_extract_def sample_halves_def http_index_sub_def sub_index_def
      http_slice_keys_def range_keys_def Let_def ..
  then show ?thesis using sample_halves_ok [OF assms] by simp
qed

lemma respond_small:
  assumes "http_small_inv m"
  shows "\<exists>counts peers removed td1 r1. http_respond im gen cf req key r (HttpSmall m) =
    Some (counts, peers, removed, td1, r1) \<and> http_respond_ok cf req key (HttpSmall m) counts peers td1"
proof -
  define m1 where "m1 = snd (http_small_remove key m)"
  have i1: "http_small_inv m1" and a1: "map_of (hsm_peers m1) = (map_of (hsm_peers m))(key := None)"
    using http_small.del_inv [OF assms, of key] http_small.del_abs [OF assms, of key]
    by (simp_all add: m1_def http_small.abs_def)
  have c: "http_answer_conforms cf req (map_of (hsm_peers m1)) (http_small_counts m1)
      (http_small_extract (http_max_num_peers cf req) m1)"
    using i1 take_conforms [of "hsm_peers m1"]
    by (simp add: http_answer_conforms_def http_small_counts_abs http_small_extract_def
        http_small_inv_def)
  have "http_small_is_full m1 \<or> http_small_room m1"
    using i1 by (auto simp: http_small_is_full_def http_small_room_def http_small_inv_def)
  moreover have "hsm_completed m1 = hsm_completed m" by (simp add: m1_def)
  ultimately show ?thesis
    using i1 a1 c to_large_ok [OF i1]
    by (auto simp: http_respond_def Let_def case_prod_unfold m1_def [symmetric] http_respond_ok_def
        htd_abs_def http_to_large_def http_stopped)
qed

lemma respond_large:
  assumes "http_large_inv m"
  shows "\<exists>counts peers removed td1 r1. http_respond im gen cf req key r (HttpLarge m) =
    Some (counts, peers, removed, td1, r1) \<and> http_respond_ok cf req key (HttpLarge m) counts peers td1"
proof -
  define m1 where "m1 = snd (http_large_remove im key m)"
  have i1: "http_large_inv m1" and a1: "map_of (hlm_peers m1) = (map_of (hlm_peers m))(key := None)"
    using large.del_inv [OF assms, of key] large.del_abs [OF assms, of key]
    by (simp_all add: m1_def large.abs_def)
  have d: "distinct (im_keys (hlm_peers m1))" using i1 by (simp add: http_large_inv_def)
  obtain ps r' where ex: "http_large_extract gen r (http_max_num_peers cf req) m1 = Some (ps, r')"
    and ps: "distinct ps" "set ps \<subseteq> set (im_keys (hlm_peers m1))"
      "length ps = min (http_max_num_peers cf req) (length (hlm_peers m1))"
    using large_extract [OF d] by blast
  have c: "http_answer_conforms cf req (map_of (hlm_peers m1)) (http_large_counts m1) ps"
    using ps large.card_abs [OF i1] large_counts_abs [OF i1]
    by (auto simp: http_answer_conforms_def dom_map_of_conv_image_fst large.abs_def)
  have lc: "hlm_completed m1 = hlm_completed m" by (simp add: m1_def)
  show ?thesis
  proof (cases "ha_event req = HttpStopped \<and> http_try_shrink m1 \<noteq> None")
    case True
    then obtain s where "http_try_shrink m1 = Some s" by blast
    then show ?thesis
      using True ex c a1 lc try_shrink_ok [OF i1]
      by (auto simp: http_respond_def Let_def case_prod_unfold m1_def [symmetric]
          http_respond_ok_def htd_abs_def http_stopped)
  next
    case False
    then have "http_respond im gen cf req key r (HttpLarge m) =
        Some (http_large_counts m1, ps, fst (http_large_remove im key m), HttpLarge m1, r')"
      using ex by (auto simp: http_respond_def Let_def case_prod_unfold m1_def [symmetric] http_stopped)
    then show ?thesis
      using i1 c a1 lc by (auto simp: http_respond_ok_def htd_abs_def)
  qed
qed

lemma respond:
  "htd_inv td \<Longrightarrow> \<exists>counts peers removed td1 r1. http_respond im gen cf req key r td =
    Some (counts, peers, removed, td1, r1) \<and> http_respond_ok cf req key td counts peers td1"
  using respond_small respond_large by (cases td) auto

lemma insert_ok:
  assumes "htd_inv td" and "htd_room td" and "htd_abs td key = None"
  shows "\<exists>td'. http_torrent_insert im key p td = Some td' \<and> htd_inv td' \<and>
    htd_abs td' = (htd_abs td)(key \<mapsto> p) \<and> htd_completed td' = htd_completed td"
proof -
  have k: "key \<notin> fst ` set (htd_peers td)"
    using assms(3) by (simp add: htd_abs_def map_of_eq_None_iff)
  show ?thesis
  proof (cases td)
    case (HttpSmall m)
    then show ?thesis
      using assms k http_small.put_abs [of m key p]
      by (auto simp: http_torrent_insert_def htd_abs_def http_small.abs_def http_small_insert_def
          split: if_splits)
  next
    case (HttpLarge m)
    then show ?thesis
      using assms k large.put_abs [of m key p]
      by (auto simp: http_torrent_insert_def htd_abs_def large.abs_def http_large_insert_def Let_def)
  qed
qed

lemma upsert_refines:
  assumes "htd_inv td"
  shows "\<exists>counts peers td' r'. http_upsert_peer im gen cf req ip vu r td = Some (counts, peers, td', r') \<and>
    htd_inv td' \<and> htd_abs td' = http_spec_announce req ip vu (htd_abs td) \<and>
    htd_completed td' = http_completed_after req (htd_completed td) \<and>
    http_answer_conforms cf req ((htd_abs td)(http_announcing_key req ip := None)) counts peers"
proof -
  let ?k = "http_announcing_key req ip" and ?td = "http_count_completed req td"
  have ab: "htd_abs ?td = htd_abs td" by (simp add: htd_abs_def)
  obtain counts peers removed td1 r1 where
    rs: "http_respond im gen cf req ?k r ?td = Some (counts, peers, removed, td1, r1)"
    and ok: "http_respond_ok cf req ?k ?td counts peers td1"
    using respond [of ?td cf req ?k r] assms by (metis http_count_completed(2))
  have td1: "htd_inv td1" "htd_abs td1 = (htd_abs td)(?k := None)"
    "htd_completed td1 = http_completed_after req (htd_completed td)"
    "http_answer_conforms cf req ((htd_abs td)(?k := None)) counts peers"
    using ok by (auto simp: http_respond_ok_def ab)
  show ?thesis
  proof (cases "ha_event req = HttpStopped")
    case True
    then show ?thesis
      using rs td1 by (auto simp: http_upsert_peer_def Let_def http_announcing_key_def [symmetric]
          http_spec_announce_def http_stopped)
  next
    case False
    then have "htd_room td1" using ok by (simp add: http_respond_ok_def)
    then obtain td2 where "http_torrent_insert im ?k (http_announced_peer req vu) td1 = Some td2"
      and "htd_inv td2" "htd_abs td2 = (htd_abs td1)(?k \<mapsto> http_announced_peer req vu)"
        "htd_completed td2 = htd_completed td1"
      using insert_ok [OF td1(1)] td1(2) by (metis fun_upd_same)
    then show ?thesis
      using False rs td1
      by (auto simp: http_upsert_peer_def Let_def http_announcing_key_def [symmetric]
          http_spec_announce_def http_announced_peer_def http_stopped)
  qed
qed

end

subsection \<open>All torrents\<close>

definition htd_opt_abs ::
  "'i http_torrent_data option \<Rightarrow> ('i http_response_peer \<rightharpoonup> http_peer) \<times> u64" where
  "htd_opt_abs x = (case x of Some td \<Rightarrow> (htd_abs td, htd_completed td) | None \<Rightarrow> (Map.empty, 0))"

definition http_map_abs ::
  "'i http_torrent_map \<Rightarrow> http_info_hash \<Rightarrow> ('i http_response_peer \<rightharpoonup> http_peer) \<times> u64" where
  "http_map_abs torrents h = htd_opt_abs (map_of torrents h)"

definition http_map_inv :: "'i http_torrent_map \<Rightarrow> bool" where
  "http_map_inv torrents =
     (distinct (im_keys torrents) \<and> list_all (\<lambda>e. htd_inv (snd e)) torrents)"

lemma http_default [simp]: "htd_inv http_torrent_default" "htd_abs http_torrent_default = Map.empty"
  "htd_completed http_torrent_default = 0"
  by (simp_all add: http_torrent_default_def http_small_inv_def htd_abs_def)

lemma http_map_inv_lookup: "http_map_inv m \<Longrightarrow> map_of m h = Some td \<Longrightarrow> htd_inv td"
  by (auto simp: http_map_inv_def list_all_iff dest: map_of_SomeD)

lemma http_entry_ok:
  assumes "index_map it" and "http_map_inv m"
  shows "http_map_inv (http_entry_or_default it h m) \<and>
    http_map_abs (http_entry_or_default it h m) = http_map_abs m \<and>
    map_of (http_entry_or_default it h m) h \<noteq> None"
proof (cases "map_of m h")
  case None
  then have k: "h \<notin> set (im_keys m)" by (simp add: map_of_eq_None_iff)
  have e: "http_entry_or_default it h m = m @ [(h, http_torrent_default)]"
    using None index_map.insert_new [OF assms(1) k] by (simp add: http_entry_or_default_def)
  have "map_of (m @ [(h, http_torrent_default)]) = (map_of m)(h \<mapsto> http_torrent_default)"
    using None by (intro ext) (simp add: map_add_def split: option.split)
  then have "http_map_abs (m @ [(h, http_torrent_default)]) x = http_map_abs m x" for x
    using None by (cases "x = h") (simp_all add: http_map_abs_def htd_opt_abs_def)
  then have "http_map_abs (http_entry_or_default it h m) = http_map_abs m"
    unfolding e by (rule ext)
  then show ?thesis
    using assms(2) k by (simp add: e http_map_inv_def)
next
  case (Some td)
  then show ?thesis using assms(2) by (simp add: http_entry_or_default_def)
qed

lemma http_map_update:
  assumes "http_map_inv m" and "htd_inv td"
  shows "http_map_inv (AList.update h td m) \<and>
    http_map_abs (AList.update h td m) = (http_map_abs m)(h := (htd_abs td, htd_completed td))"
  using assms
  by (auto simp: http_map_inv_def distinct_update list_all_update http_map_abs_def update_conv
      htd_opt_abs_def)

context http_swarm
begin

lemma map_announce:
  assumes "index_map it" and "http_map_inv m"
  shows "\<exists>counts peers m' r'. http_map_announce it im gen cf req ip vu r m = Some (counts, peers, m', r') \<and>
    http_map_inv m' \<and>
    http_map_abs m' = (http_map_abs m)(ha_info_hash req :=
      (http_spec_announce req ip vu (fst (http_map_abs m (ha_info_hash req))),
       http_completed_after req (snd (http_map_abs m (ha_info_hash req))))) \<and>
    http_answer_conforms cf req
      ((fst (http_map_abs m (ha_info_hash req)))(http_announcing_key req ip := None)) counts peers"
proof -
  let ?h = "ha_info_hash req"
  define m1 where "m1 = http_entry_or_default it ?h m"
  have m1: "http_map_inv m1" "http_map_abs m1 = http_map_abs m" "map_of m1 ?h \<noteq> None"
    using http_entry_ok [OF assms] by (simp_all add: m1_def)
  then obtain td where td: "map_of m1 ?h = Some td" by blast
  have a: "http_map_abs m ?h = (htd_abs td, htd_completed td)"
    unfolding m1(2) [symmetric] http_map_abs_def htd_opt_abs_def td by simp
  from upsert_refines [OF http_map_inv_lookup [OF m1(1) td]] obtain counts peers td' r'
    where up: "http_upsert_peer im gen cf req ip vu r td = Some (counts, peers, td', r')"
      and td': "htd_inv td'" "htd_abs td' = http_spec_announce req ip vu (htd_abs td)"
        "htd_completed td' = http_completed_after req (htd_completed td)"
        "http_answer_conforms cf req ((htd_abs td)(http_announcing_key req ip := None)) counts peers"
    by blast
  have eq: "http_map_announce it im gen cf req ip vu r m =
      Some (counts, peers, AList.update ?h td' m1, r')"
    unfolding http_map_announce_def m1_def [symmetric] Let_def td option.sel up by simp
  have "http_map_abs (AList.update ?h td' m1) = (http_map_abs m)(?h := (htd_abs td', htd_completed td'))"
    using http_map_update [OF m1(1) td'(1), of ?h] unfolding m1(2) by (rule conjunct2)
  moreover have "http_map_inv (AList.update ?h td' m1)"
    using http_map_update [OF m1(1) td'(1), of ?h] by (rule conjunct1)
  ultimately show ?thesis
    unfolding a fst_conv snd_conv td'(2,3) [symmetric] using eq td'(4) by blast
qed

end

lemma http_td_clean:
  assumes "htd_inv td" and "http_torrent_clean now td = (td', n)"
  shows "htd_inv td' \<and> htd_abs td' = restrict_with (http_alive now) (htd_abs td) \<and>
    htd_completed td' = htd_completed td \<and> (0 < n \<longleftrightarrow> htd_abs td' \<noteq> Map.empty)"
proof -
  have "htd_inv td' \<and> htd_peers td' = filter (\<lambda>e. http_alive now (snd e)) (htd_peers td) \<and>
      htd_completed td' = htd_completed td \<and> n = length (htd_peers td')"
  proof (cases td)
    case (HttpSmall m)
    then show ?thesis
      using assms http_small.clean_inv [of m now]
      by (auto simp: http_torrent_clean_def http_small_clean_eq)
  next
    case (HttpLarge m)
    then show ?thesis
      using assms http_large_clean_inv [of m now]
      by (auto simp: http_torrent_clean_def http_large_clean_eq)
  qed
  moreover from this have "htd_abs td' = restrict_with (http_alive now) (htd_abs td)"
    using assms(1) by (simp add: htd_abs_def map_of_filter_val htd_distinct)
  moreover have "htd_abs td' \<noteq> Map.empty \<longleftrightarrow> 0 < length (htd_peers td')"
    by (simp add: htd_abs_def)
  ultimately show ?thesis by metis
qed

definition http_spec_clean ::
  "http_config \<Rightarrow> access_list \<Rightarrow> seconds_since_start \<Rightarrow> http_info_hash \<Rightarrow>
   ('i http_response_peer \<rightharpoonup> http_peer) \<times> u64 \<Rightarrow> ('i http_response_peer \<rightharpoonup> http_peer) \<times> u64" where
  "http_spec_clean cf al now h t =
     (let live = restrict_with (http_alive now) (fst t)
      in if allows (hcf_access_list_mode cf) al h \<and> live \<noteq> Map.empty then (live, snd t)
         else (Map.empty, 0))"

lemma http_map_clean_keys: "fst ` set (http_map_clean cf al now m) \<subseteq> fst ` set m"
proof (induction m)
  case Nil
  then show ?case by simp
next
  case (Cons e m)
  then show ?case by (cases e) (auto simp: case_prod_unfold Let_def)
qed

lemma http_map_clean_absent:
  "h \<notin> fst ` set m \<Longrightarrow> map_of (http_map_clean cf al now m) h = None"
  using http_map_clean_keys by (fastforce simp: map_of_eq_None_iff)

lemma http_map_clean_ok:
  assumes "http_map_inv m"
  shows "http_map_inv (http_map_clean cf al now m) \<and>
    http_map_abs (http_map_clean cf al now m) = (\<lambda>h. http_spec_clean cf al now h (http_map_abs m h))"
  using assms
proof (induction cf al now m rule: http_map_clean.induct)
  case (1 cf al now)
  then show ?case
    by (auto simp: http_map_abs_def htd_opt_abs_def http_spec_clean_def http_map_inv_def
        restrict_with_def fun_eq_iff)
next
  case (2 cf al now h td es)
  obtain td' n where c: "http_torrent_clean now td = (td', n)" by force
  have inv: "http_map_inv es" "htd_inv td" and fresh: "h \<notin> fst ` set es"
    using "2.prems" by (auto simp: http_map_inv_def)
  note cl = http_td_clean [OF inv(2) c]
  have gone: "map_of (http_map_clean cf al now es) h = None"
    using fresh by (rule http_map_clean_absent)
  have gone': "h \<notin> fst ` set (http_map_clean cf al now es)"
    using gone by (simp add: map_of_eq_None_iff)
  have IH: "http_map_inv (http_map_clean cf al now es)"
    "http_map_abs (http_map_clean cf al now es) x = http_spec_clean cf al now x (http_map_abs es x)" for x
    using "2.IH" c inv(1) by (cases "allows (hcf_access_list_mode cf) al h"; cases "0 < n"; auto)+
  have "http_map_abs (http_map_clean cf al now ((h, td) # es)) x =
      http_spec_clean cf al now x (http_map_abs ((h, td) # es) x)" for x
    using IH(2) [of x] gone cl c
    by (auto simp: http_map_abs_def http_spec_clean_def htd_opt_abs_def Let_def)
  moreover have "http_map_inv (http_map_clean cf al now ((h, td) # es))"
    using IH(1) gone' cl c by (auto simp: http_map_inv_def)
  ultimately show ?case by blast
qed

subsection \<open>Scrapes\<close>

lemma btree_insert_keys: "set (map fst (btree_insert k v es)) = insert k (set (map fst es))"
  by (induction k v es rule: btree_insert.induct) auto

lemma btree_insert_sorted:
  "sorted_wrt (<) (map fst es) \<Longrightarrow> sorted_wrt (<) (map fst (btree_insert k v es))"
proof (induction k v es rule: btree_insert.induct)
  case (1 k v)
  then show ?case by simp
next
  case (2 k v k' v' es)
  then show ?case
    using btree_insert_keys [of k v es] by auto
qed

lemma btree_insert_map_of:
  "sorted_wrt (<) (map fst es) \<Longrightarrow> map_of (btree_insert k v es) = (map_of es)(k \<mapsto> v)"
proof (induction k v es rule: btree_insert.induct)
  case (1 k v)
  then show ?case by simp
next
  case (2 k v k' v' es)
  then show ?case by (auto simp: fun_upd_twist)
qed

lemma btree_fold:
  assumes "sorted_wrt (<) (map fst es)"
  shows "sorted_wrt (<) (map fst (fold (\<lambda>h. btree_insert h (f h)) hs es)) \<and>
    map_of (fold (\<lambda>h. btree_insert h (f h)) hs es) x =
      (if x \<in> set hs then Some (f x) else map_of es x)"
  using assms
proof (induction hs arbitrary: es)
  case Nil
  then show ?case by simp
next
  case (Cons h hs)
  then show ?case
    using btree_insert_sorted [of es h "f h"] by (auto simp: btree_insert_map_of)
qed

lemma http_scrape_td:
  assumes "http_map_inv m"
  shows "(case map_of m h of
      Some td \<Rightarrow> http_scrape_statistics_of td
    | None \<Rightarrow> \<lparr>hst_complete = 0, hst_incomplete = 0, hst_downloaded = 0\<rparr>) =
    \<lparr>hst_complete = http_seeders_of (fst (http_map_abs m h)),
     hst_incomplete = http_leechers_of (fst (http_map_abs m h)),
     hst_downloaded = snd (http_map_abs m h)\<rparr>"
proof (cases "map_of m h")
  case None
  then show ?thesis
    by (simp add: http_map_abs_def htd_opt_abs_def http_seeders_of_def http_leechers_of_def)
next
  case (Some td)
  then have i: "htd_inv td" using http_map_inv_lookup [OF assms] by blast
  have "http_scrape_statistics_of td = \<lparr>hst_complete = http_seeders_of (htd_abs td),
      hst_incomplete = http_leechers_of (htd_abs td), hst_downloaded = htd_completed td\<rparr>"
  proof (cases td)
    case (HttpSmall m)
    then show ?thesis
      using i http_small_counts_abs [of m]
      by (simp add: http_scrape_statistics_of_def htd_abs_def u64_to_usize_checked_def)
  next
    case (HttpLarge m)
    then have l: "http_large_inv m" using i by simp
    then have "http_large_counts m =
        (of_nat (length (filter (\<lambda>e. hpe_is_seeder (snd e)) (hlm_peers m))),
         of_nat (length (filter (\<lambda>e. \<not> hpe_is_seeder (snd e)) (hlm_peers m))))"
      by (simp add: http_large_counts_def http_large_inv_def leechers_of_difference)
    then show ?thesis
      using HttpLarge l by (simp add: http_scrape_statistics_of_def htd_abs_def http_seeders_of_def
          http_leechers_of_def num_with_map_of http_large_inv_def u64_to_usize_checked_def)
  qed
  then show ?thesis using Some by (simp add: http_map_abs_def htd_opt_abs_def)
qed

subsection \<open>Properties\<close>

definition http_sample_config :: http_config where
  "http_sample_config = \<lparr>hcf_max_peers = 50, hcf_max_scrape_torrents = 100,
     hcf_peer_announce_interval = 120, hcf_access_list_mode = Off\<rparr>"

definition http_sample_announce :: http_announce_request where
  "http_sample_announce = \<lparr>ha_info_hash = 1, ha_peer_id = 2, ha_port = 6881, ha_bytes_uploaded = 0,
     ha_bytes_downloaded = 5, ha_bytes_left = 0, ha_event = HttpStarted, ha_numwant = Some 50,
     ha_key = None\<rparr>"

definition http_no_torrents :: "u32 http_torrent_map" where
  "http_no_torrents = []"

lemma http_no_torrents_inv: "http_map_inv http_no_torrents"
  by (simp add: http_map_inv_def http_no_torrents_def)

text \<open>An HTTP announce refines the update of a finite map and answers from the other peers. It never
  panics and keeps the invariant; the torrent loses the announcing address on a stopped event and
  otherwise maps it to the announced peer, and its completed count follows the completed events; no
  other torrent changes. The counts answered are those of the other peers, and the peers answered
  are distinct, among the others, and as many as the limit and their number allow.\<close>
theorem http_announce_refines:
  assumes "index_map it" and "index_map im" and "rng_source gen" and "http_map_inv m"
  shows "\<exists>counts peers m' r'. http_map_announce it im gen cf req ip vu r m = Some (counts, peers, m', r') \<and>
    http_map_inv m' \<and>
    http_map_abs m' = (http_map_abs m)(ha_info_hash req :=
      (http_spec_announce req ip vu (fst (http_map_abs m (ha_info_hash req))),
       http_completed_after req (snd (http_map_abs m (ha_info_hash req))))) \<and>
    http_answer_conforms cf req
      ((fst (http_map_abs m (ha_info_hash req)))(http_announcing_key req ip := None)) counts peers"
  using http_swarm.map_announce [OF http_swarm.intro [OF assms(2,3)] assms(1,4)] .

lemma http_announce_refines_witness:
  "\<exists>counts peers m' r'. http_map_announce ref_index_map ref_index_map ref_gen_range http_sample_config
      http_sample_announce 0x7F000001 (ValidUntil 100) [] http_no_torrents = Some (counts, peers, m', r') \<and>
    http_map_inv m' \<and>
    http_map_abs m' = (http_map_abs http_no_torrents)(ha_info_hash http_sample_announce :=
      (http_spec_announce http_sample_announce 0x7F000001 (ValidUntil 100)
         (fst (http_map_abs http_no_torrents (ha_info_hash http_sample_announce))),
       http_completed_after http_sample_announce
         (snd (http_map_abs http_no_torrents (ha_info_hash http_sample_announce))))) \<and>
    http_answer_conforms http_sample_config http_sample_announce
      ((fst (http_map_abs http_no_torrents (ha_info_hash http_sample_announce)))
        (http_announcing_key http_sample_announce 0x7F000001 := None)) counts peers"
  by (rule http_announce_refines [OF ref_index_map_laws ref_index_map_laws ref_gen_range_laws
        http_no_torrents_inv])

text \<open>An HTTP scrape answers for the first torrents of the request up to the limit: each is listed once,
  in ascending order of the info hashes, with the seeders, the leechers and the completed count of
  its map, and zeros where the torrent is unknown; nothing else is listed.\<close>
theorem http_scrape_reports:
  assumes "http_map_inv m"
  shows "sorted_wrt (<) (map fst (hsr_files (http_map_scrape cf req m))) \<and>
    map_of (hsr_files (http_map_scrape cf req m)) h =
      (if h \<in> set (take (hcf_max_scrape_torrents cf) (hs_info_hashes req)) then
         Some \<lparr>hst_complete = http_seeders_of (fst (http_map_abs m h)),
           hst_incomplete = http_leechers_of (fst (http_map_abs m h)),
           hst_downloaded = snd (http_map_abs m h)\<rparr>
       else None)"
proof -
  let ?hs = "hs_info_hashes req" and ?n = "hcf_max_scrape_torrents cf"
  have t: "take (min (length ?hs) ?n) ?hs = take ?n ?hs" by (simp add: min_def)
  show ?thesis
    unfolding http_map_scrape_def Let_def http_scrape_td [OF assms] t http_scrape_response.simps
    using btree_fold [of "[]" "\<lambda>h. \<lparr>hst_complete = http_seeders_of (fst (http_map_abs m h)),
        hst_incomplete = http_leechers_of (fst (http_map_abs m h)),
        hst_downloaded = snd (http_map_abs m h)\<rparr>" "take ?n ?hs" h] by simp
qed

lemma http_scrape_reports_witness:
  "sorted_wrt (<) (map fst (hsr_files (http_map_scrape http_sample_config
     \<lparr>hs_info_hashes = [7, 3]\<rparr> http_no_torrents))) \<and>
   map_of (hsr_files (http_map_scrape http_sample_config \<lparr>hs_info_hashes = [7, 3]\<rparr> http_no_torrents)) 3 =
     Some \<lparr>hst_complete = http_seeders_of (fst (http_map_abs http_no_torrents 3)),
       hst_incomplete = http_leechers_of (fst (http_map_abs http_no_torrents 3)),
       hst_downloaded = snd (http_map_abs http_no_torrents 3)\<rparr>"
  using http_scrape_reports [OF http_no_torrents_inv, of http_sample_config "\<lparr>hs_info_hashes = [7, 3]\<rparr>" 3]
  by (simp add: http_sample_config_def)

text \<open>Cleaning an HTTP swarm keeps exactly what is alive: the torrents the access list allows keep their
  peers whose deadline has not passed and their completed count as long as such a peer is left, and
  every other torrent is gone.\<close>
theorem http_clean_keeps_live:
  assumes "http_map_inv m"
  shows "http_map_inv (http_map_clean cf al now m) \<and>
    http_map_abs (http_map_clean cf al now m) = (\<lambda>h. http_spec_clean cf al now h (http_map_abs m h))"
  using http_map_clean_ok [OF assms] .

lemma http_clean_keeps_live_witness:
  "http_map_inv (http_map_clean http_sample_config {} 5 http_no_torrents) \<and>
    http_map_abs (http_map_clean http_sample_config {} 5 http_no_torrents) =
      (\<lambda>h. http_spec_clean http_sample_config {} 5 h (http_map_abs http_no_torrents h))"
  by (rule http_clean_keeps_live [OF http_no_torrents_inv])

text \<open>The completed count computed for a scrape is lost on the wire: whatever the numbers of downloads
  in a scrape response, the same bytes are written, with a count of zero for every torrent.\<close>
theorem http_scrape_write_drops_downloads:
  "http_write_scrape_response c \<lparr>hsr_files = map (\<lambda>(h, s). (h, s\<lparr>hst_downloaded := f h\<rparr>)) files\<rparr> =
   http_write_scrape_response c \<lparr>hsr_files = files\<rparr>"
proof -
  have "http_write_scrape_file c (case e of (h, s) \<Rightarrow> (h, s\<lparr>hst_downloaded := f h\<rparr>)) =
      http_write_scrape_file c e" for e
    by (cases e) (simp add: http_write_scrape_file_def)
  then show ?thesis by (simp add: http_write_scrape_response_def comp_def)
qed

end
