(* ===== verification/Auto_Ban_Spec.thy ===== *)
theory Auto_Ban_Spec
  imports Auto_Ban
begin

text \<open>
  What the automatic ban promises: the verdict of a violation and who is banned by it, that nobody
  else is affected, how many records are kept, how long client bans last, and that a configuration
  that validates never issues a permanent ban without a list that keeps it. Two flaws are proved:
  the violation that makes the record map grow is lost, and the periodic cleanup forgets offences.
\<close>

subsection \<open>Durations\<close>

lemma from_secs_temporary: "from_secs n = Temporary s \<longleftrightarrow> n = s \<and> 0 < s"
  by (auto simp: from_secs_def)

lemma from_secs_permanent: "from_secs n = Permanent \<longleftrightarrow> n = 0"
  by (simp add: from_secs_def)

lemma apply_ban_effective:
  assumes "kind = from_secs n \<or> kind = Permanent"
  shows "record_is_banned (apply_ban kind now r) now"
proof (cases kind)
  case Permanent
  then show ?thesis by (simp add: apply_ban_def record_is_banned_def)
next
  case (Temporary s)
  then have "0 < s" using assms from_secs_temporary by (metis ban_kind.distinct(1))
  then show ?thesis
    using Temporary
    by (auto simp: apply_ban_def record_is_banned_def checked_add_secs_def Let_def ns_per_sec_def)
qed

lemma ban_kind_from_secs: "\<exists>n. ban_kind_of po reason ip offenses fb = from_secs n \<or>
    ban_kind_of po reason ip offenses fb = Permanent"
  by (auto simp: ban_kind_of_def Let_def split: auto_ban_tier.splits)

lemma punish_effective: "record_is_banned (punish po now reason ip d r) now"
  using ban_kind_from_secs apply_ban_effective by (metis punish_def)

lemma wrap_i64_id: "- (2 ^ 63) \<le> x \<Longrightarrow> x < 2 ^ 63 \<Longrightarrow> wrap_i64 x = x"
  by (simp add: wrap_i64_def)

lemma client_jitter_bounds:
  assumes "j < 2 ^ 62"
  shows "- int j \<le> client_jitter ip j \<and> client_jitter ip j \<le> int j"
proof (cases "j = 0")
  case True
  then show ?thesis by (simp add: client_jitter_def)
next
  case False
  have span: "sat_add u64_max (sat_mul u64_max j 2) 1 = 2 * j + 1"
    using assms by (simp add: sat_defs)
  define off where "off = jitter_hash ip mod (2 * j + 1)"
  have off: "off \<le> 2 * j" unfolding off_def by (metis less_Suc_eq_le Suc_eq_plus1 mod_less_divisor zero_less_Suc)
  have "wrap_i64 (int off) = int off" "wrap_i64 (int j) = int j"
    using off assms by (auto intro: wrap_i64_id)
  moreover have "wrap_i64 (int off - int j) = int off - int j"
    using off assms by (auto intro: wrap_i64_id)
  ultimately have "client_jitter ip j = int off - int j"
    using False span by (simp add: client_jitter_def off_def)
  then show ?thesis using off by simp
qed

definition client_ban_base :: "auto_ban_policy \<Rightarrow> nat \<Rightarrow> nat" where
  "client_ban_base po fallback_secs =
     (if po_client_ban_duration_secs po \<noteq> 0 then po_client_ban_duration_secs po
      else if po_immediate_ban_secs po \<noteq> 0 then po_immediate_ban_secs po else fallback_secs)"

lemma client_ban_secs_base:
  "client_ban_secs po ip fb =
    (let base = client_ban_base po fb in
     if base = 0 then 0
     else let delta = client_jitter ip (po_client_ban_jitter_secs po);
              secs = (if 0 \<le> delta then sat_add u64_max base (nat delta) else base - nat (- delta))
          in max secs 1)"
  unfolding client_ban_secs_def client_ban_base_def ..

lemma client_ban_secs_bounds:
  assumes "po_client_ban_jitter_secs po < 2 ^ 62" and "client_ban_base po fb < 2 ^ 62"
  shows "(client_ban_secs po ip fb = 0 \<longleftrightarrow> client_ban_base po fb = 0) \<and>
    client_ban_base po fb - po_client_ban_jitter_secs po \<le> client_ban_secs po ip fb \<and>
    client_ban_secs po ip fb \<le> client_ban_base po fb + po_client_ban_jitter_secs po"
proof (cases "client_ban_base po fb = 0")
  case True
  then show ?thesis by (simp add: client_ban_secs_base)
next
  case False
  let ?b = "client_ban_base po fb" and ?j = "po_client_ban_jitter_secs po"
  note cb = client_jitter_bounds [OF assms(1), of ip]
  have "nat (client_jitter ip ?j) < 2 ^ 62" using cb assms(1) by linarith
  then have "sat_add u64_max ?b (nat (client_jitter ip ?j)) = ?b + nat (client_jitter ip ?j)"
    using assms(2) by (simp add: sat_defs)
  then have "client_ban_secs po ip fb =
      max (if 0 \<le> client_jitter ip ?j then ?b + nat (client_jitter ip ?j)
           else ?b - nat (- client_jitter ip ?j)) 1"
    using False by (simp add: client_ban_secs_base Let_def)
  then show ?thesis using False cb by auto
qed

subsection \<open>The records\<close>

definition ab_inv :: "auto_ban_inner \<Rightarrow> bool" where
  "ab_inv inner = (distinct (map fst (ab_records inner)) \<and>
     length (ab_records inner) \<le> ab_max_records inner)"

lemma map_of_filter_snd:
  "distinct (map fst xs) \<Longrightarrow> map_of (filter (\<lambda>e. P (snd e)) xs) k =
   (case map_of xs k of Some v \<Rightarrow> if P v then Some v else None | None \<Rightarrow> None)"
proof (induction xs)
  case Nil
  then show ?case by simp
next
  case (Cons e xs)
  then have "map_of xs (fst e) = None" by (simp add: map_of_eq_None_iff)
  then show ?case using Cons by (cases e) (auto split: option.splits)
qed

lemma banned_later: "record_is_banned r t \<Longrightarrow> now \<le> t \<Longrightarrow> record_is_banned r now"
  by (auto simp: record_is_banned_def split: option.splits)

text \<open>Dropping stale records never unbans anyone.\<close>

lemma keep_preserves_bans:
  assumes "distinct (map fst rs)" and "now \<le> t"
  shows "(case map_of (filter (\<lambda>e. keep_record now w (snd e)) rs) ip of
      Some r \<Rightarrow> record_is_banned r t | None \<Rightarrow> False) =
    (case map_of rs ip of Some r \<Rightarrow> record_is_banned r t | None \<Rightarrow> False)"
proof (cases "map_of rs ip")
  case None
  then show ?thesis by (simp add: map_of_filter_snd [OF assms(1)])
next
  case (Some r)
  have "record_is_banned r t \<Longrightarrow> keep_record now w r"
    using banned_later [OF _ assms(2)] by (simp add: keep_record_def)
  then show ?thesis using Some by (auto simp: map_of_filter_snd [OF assms(1)])
qed

lemma length_update:
  "distinct (map fst xs) \<Longrightarrow> length (AList.update k v xs) =
   length xs + (if map_of xs k = None then 1 else 0)"
  by (induction xs) auto

definition guarded :: "instant \<Rightarrow> ip_addr \<Rightarrow> auto_ban_inner \<Rightarrow> auto_ban_inner" where
  "guarded now ip inner = fst (capacity_guard now ip inner)"

lemma guard_cases:
  "ab_records (guarded now ip inner) = ab_records inner \<or>
   (ab_records (guarded now ip inner) =
      filter (\<lambda>e. keep_record now (ab_window_secs inner) (snd e)) (ab_records inner) \<and>
    map_of (ab_records inner) ip = None)"
  by (auto simp: guarded_def capacity_guard_def Let_def)

lemma guard_static:
  "ab_threshold (guarded now ip inner) = ab_threshold inner"
  "ab_window_secs (guarded now ip inner) = ab_window_secs inner"
  "ab_ban_duration_secs (guarded now ip inner) = ab_ban_duration_secs inner"
  by (simp_all add: guarded_def capacity_guard_def Let_def)

lemma guard_inv:
  assumes "ab_inv inner"
  shows "ab_inv (guarded now ip inner)"
proof -
  have "distinct (map fst (ab_records (guarded now ip inner)))"
    using guard_cases [of now ip inner] assms by (auto simp: ab_inv_def distinct_map_filter)
  moreover have "length (ab_records (guarded now ip inner)) \<le> length (ab_records inner)"
    using guard_cases [of now ip inner] by auto
  moreover have "ab_max_records inner \<le> ab_max_records (guarded now ip inner)"
    by (auto simp: guarded_def capacity_guard_def Let_def)
  ultimately show ?thesis using assms by (auto simp: ab_inv_def)
qed

text \<open>A violation that is not dropped finds room for a new record.\<close>

lemma guard_room:
  assumes "ab_inv inner" and "\<not> snd (capacity_guard now ip inner)"
    and "map_of (ab_records inner) ip = None"
  shows "length (ab_records (guarded now ip inner)) < ab_max_records (guarded now ip inner)"
  using assms by (auto simp: guarded_def capacity_guard_def Let_def ab_inv_def split: if_splits)

lemma guard_lookup:
  assumes "ab_inv inner"
  shows "map_of (ab_records (guarded now ip inner)) ip = map_of (ab_records inner) ip"
  using guard_cases [of now ip inner] assms
  by (auto simp: ab_inv_def map_of_filter_snd split: option.splits)

lemma guard_bans:
  assumes "ab_inv inner" and "now \<le> t"
  shows "is_auto_banned (guarded now ip inner) x t = is_auto_banned inner x t"
  using guard_cases [of now ip inner] keep_preserves_bans [of "ab_records inner" now t] assms
  by (auto simp: is_auto_banned_def ab_inv_def)

subsection \<open>The verdict\<close>

text \<open>
  The violations counted against an address so far: those of the current window, none once the
  window or a temporary ban is over.
\<close>

definition counted :: "instant \<Rightarrow> nat \<Rightarrow> ip_record option \<Rightarrow> nat" where
  "counted now window_secs x =
     (case x of
        None \<Rightarrow> 0
      | Some r \<Rightarrow>
          if window_secs \<le> secs_since now (r_first_violation r) then 0
          else if \<not> r_permanent r \<and> (case r_banned_until r of Some u \<Rightarrow> u \<le> now | None \<Rightarrow> False) then 0
          else r_count r)"

definition deserves_ban :: "instant \<Rightarrow> auto_ban_inner \<Rightarrow> ip_addr \<Rightarrow> auto_ban_reason \<Rightarrow> bool" where
  "deserves_ban now inner ip reason =
     (tier reason = Immediate \<or>
      ab_threshold inner \<le> inc_u32 (counted now (ab_window_secs inner) (map_of (ab_records inner) ip)))"

lemma cleared_not_banned:
  "\<not> record_is_banned r now \<Longrightarrow> r_permanent (clear_expired now r) = r_permanent r \<and>
   \<not> record_is_banned (clear_expired now r) now"
  by (auto simp: clear_expired_def record_is_banned_def split: option.splits)

lemma violate_known_verdict:
  assumes "\<not> record_is_banned r now"
  shows "snd (violate_known po now reason ip inner r) \<longleftrightarrow>
    tier reason = Immediate \<or>
    ab_threshold inner \<le> inc_u32 (counted now (ab_window_secs inner) (Some r))"
  using assms
  by (auto simp: violate_known_def Let_def counted_def clear_expired_def record_is_banned_def
      split: option.splits)

lemma violate_known_banned:
  assumes "\<not> record_is_banned r now"
  shows "record_is_banned (fst (violate_known po now reason ip inner r)) now =
    snd (violate_known po now reason ip inner r)"
proof -
  define r1 where "r1 = (if ab_window_secs inner \<le> secs_since now (r_first_violation r)
    then r\<lparr>r_count := 0, r_first_violation := now\<rparr> else r)"
  have "\<not> record_is_banned r1 now"
    using assms by (simp add: r1_def record_is_banned_def)
  then have "\<not> record_is_banned ((clear_expired now r1)\<lparr>r_count := n\<rparr>) now" for n
    using cleared_not_banned [of r1 now] by (simp add: record_is_banned_def)
  then show ?thesis
    by (simp add: violate_known_def Let_def r1_def [symmetric] punish_effective)
qed

lemma violate_new_banned:
  "record_is_banned (fst (violate_new po now reason ip inner)) now = snd (violate_new po now reason ip inner)"
  by (simp add: violate_new_def Let_def punish_effective) (simp add: record_is_banned_def)

lemma violate_new_verdict:
  "snd (violate_new po now reason ip inner) \<longleftrightarrow>
   tier reason = Immediate \<or> ab_threshold inner \<le> inc_u32 (counted now (ab_window_secs inner) None)"
  by (simp add: violate_new_def Let_def counted_def inc_u32_def)

text \<open>The record the violation leaves behind, and whether it bans.\<close>

definition outcome ::
  "auto_ban_policy \<Rightarrow> instant \<Rightarrow> ip_addr \<Rightarrow> auto_ban_reason \<Rightarrow> auto_ban_inner \<Rightarrow> ip_record \<times> bool" where
  "outcome po now ip reason i1 =
     (case map_of (ab_records i1) ip of
        Some r \<Rightarrow> violate_known po now reason ip i1 r
      | None \<Rightarrow> violate_new po now reason ip i1)"

lemma locked_unfold:
  assumes "\<not> is_auto_banned inner ip now" and "\<not> snd (capacity_guard now ip inner)"
  shows "record_violation_locked po now ip reason inner =
    ((guarded now ip inner)\<lparr>ab_records := AList.update ip
        (fst (outcome po now ip reason (guarded now ip inner))) (ab_records (guarded now ip inner))\<rparr>,
     snd (outcome po now ip reason (guarded now ip inner)),
     snd (outcome po now ip reason (guarded now ip inner)) \<and>
     r_permanent (fst (outcome po now ip reason (guarded now ip inner))))"
  using assms
  by (simp add: record_violation_locked_def is_auto_banned_def case_prod_unfold guarded_def outcome_def
      Let_def)

lemma outcome_verdict:
  assumes "ab_inv inner" and "\<not> is_auto_banned inner ip now"
  shows "snd (outcome po now ip reason (guarded now ip inner)) = deserves_ban now inner ip reason \<and>
    record_is_banned (fst (outcome po now ip reason (guarded now ip inner))) now =
      deserves_ban now inner ip reason"
proof (cases "map_of (ab_records inner) ip")
  case None
  then show ?thesis
    using violate_new_verdict violate_new_banned
    by (simp add: outcome_def guard_lookup [OF assms(1)] guard_static deserves_ban_def)
next
  case (Some r)
  then have "\<not> record_is_banned r now" using assms(2) by (simp add: is_auto_banned_def)
  then show ?thesis
    using Some violate_known_verdict [of r now po reason ip "guarded now ip inner"]
      violate_known_banned [of r now po reason ip "guarded now ip inner"]
    by (simp add: outcome_def guard_lookup [OF assms(1)] guard_static deserves_ban_def)
qed

lemma locked_inv:
  assumes "ab_inv inner"
  shows "ab_inv (fst (record_violation_locked po now ip reason inner))"
proof (cases "is_auto_banned inner ip now \<or> snd (capacity_guard now ip inner)")
  case True
  then show ?thesis
    using assms guard_inv [OF assms, of now ip]
    by (auto simp: record_violation_locked_def is_auto_banned_def case_prod_unfold guarded_def Let_def
        split: option.splits)
next
  case False
  let ?g = "guarded now ip inner"
  have g: "ab_inv ?g" by (rule guard_inv [OF assms])
  have "length (AList.update ip r (ab_records ?g)) \<le> ab_max_records ?g" for r
    using length_update [of "ab_records ?g" ip r] g guard_lookup [OF assms, of now ip]
      guard_room [OF assms, of now ip] False
    by (auto simp: ab_inv_def split: if_splits)
  then show ?thesis
    using False g by (simp add: locked_unfold ab_inv_def distinct_update)
qed

lemma guard_limit:
  "ab_max_records (guarded now ip inner) \<le> max (ab_max_records inner) HARD_MAX_RECORDS"
  by (auto simp: guarded_def capacity_guard_def Let_def)

lemma locked_limit:
  "ab_max_records (fst (record_violation_locked po now ip reason inner))
   \<le> max (ab_max_records inner) HARD_MAX_RECORDS"
  using guard_limit [of now ip inner]
  by (auto simp: record_violation_locked_def case_prod_unfold guarded_def Let_def split: option.splits)

lemma locked_static:
  "ab_threshold (fst (record_violation_locked po now ip reason inner)) = ab_threshold inner"
  "ab_window_secs (fst (record_violation_locked po now ip reason inner)) = ab_window_secs inner"
  "ab_ban_duration_secs (fst (record_violation_locked po now ip reason inner)) = ab_ban_duration_secs inner"
  using guard_static [of now ip inner]
  by (auto simp: record_violation_locked_def case_prod_unfold guarded_def Let_def split: option.splits)

lemma locked_ban:
  assumes "ab_inv inner"
  shows "fst (snd (record_violation_locked po now ip reason inner)) =
    (\<not> is_auto_banned inner ip now \<and> \<not> snd (capacity_guard now ip inner) \<and>
     deserves_ban now inner ip reason)"
proof (cases "is_auto_banned inner ip now \<or> snd (capacity_guard now ip inner)")
  case True
  then show ?thesis
    by (auto simp: record_violation_locked_def is_auto_banned_def case_prod_unfold split: option.splits)
next
  case False
  then show ?thesis using outcome_verdict [OF assms, of ip now] by (simp add: locked_unfold)
qed

text \<open>C3. A violation bans exactly when the address is not banned yet, the tracker has room for it and
  the reason is of the immediate tier or the violations of the current window reach the threshold. The
  address is then banned at once, and whether any other address is banned does not change, now or
  later.
\<close>

theorem violation_verdict:
  assumes "ab_inv inner"
    and "record_violation_locked po now ip reason inner = (inner', ban, permanent)"
  shows "(ban \<longleftrightarrow> \<not> is_auto_banned inner ip now \<and> \<not> snd (capacity_guard now ip inner) \<and>
             deserves_ban now inner ip reason) \<and>
    (is_auto_banned inner' ip now \<longleftrightarrow> is_auto_banned inner ip now \<or> ban) \<and>
    (\<forall>x t. x \<noteq> ip \<longrightarrow> now \<le> t \<longrightarrow> is_auto_banned inner' x t = is_auto_banned inner x t)"
proof (cases "is_auto_banned inner ip now \<or> snd (capacity_guard now ip inner)")
  case True
  then have "\<not> ban" and "inner' = inner \<or> inner' = guarded now ip inner"
    using assms(2)
    by (auto simp: record_violation_locked_def is_auto_banned_def case_prod_unfold guarded_def Let_def
        split: option.splits if_splits)
  then show ?thesis using True guard_bans [OF assms(1)] by auto
next
  case False
  let ?g = "guarded now ip inner" and ?o = "outcome po now ip reason (guarded now ip inner)"
  have eq: "inner' = ?g\<lparr>ab_records := AList.update ip (fst ?o) (ab_records ?g)\<rparr>" "ban = snd ?o"
    using assms(2) False by (simp_all add: locked_unfold)
  have "is_auto_banned inner' ip now = record_is_banned (fst ?o) now"
    by (simp add: eq is_auto_banned_def update_conv')
  moreover have "is_auto_banned inner' x t = is_auto_banned ?g x t" if "x \<noteq> ip" for x t
    using that by (simp add: eq is_auto_banned_def update_conv')
  ultimately show ?thesis
    using False outcome_verdict [OF assms(1), of ip now po reason] guard_bans [OF assms(1)]
    by (auto simp: eq)
qed

text \<open>A tracker of threshold three that has seen two violations of an address.\<close>

definition second :: "nat \<Rightarrow> instant" where
  "second n = n * ns_per_sec"

definition sample_record :: ip_record where
  "sample_record = \<lparr>r_count = 2, r_first_violation = second 100, r_banned_until = None,
     r_permanent = False, r_persisted = False, r_offenses = 0, r_last_offense = None\<rparr>"

definition sample_inner :: auto_ban_inner where
  "sample_inner = (at_inner (tracker_new 3 60 3600 None))\<lparr>ab_records := [(V4 7, sample_record)]\<rparr>"

definition sample_policy :: auto_ban_policy where
  "sample_policy = at_policy (tracker_new 3 60 3600 None)"

lemma sample_inner_inv: "ab_inv sample_inner"
  by (simp add: ab_inv_def sample_inner_def tracker_new_def tracker_with_policy_def)

lemma violation_verdict_witness:
  "fst (snd (record_violation_locked sample_policy (second 150) (V4 7) PrivateIp sample_inner)) \<and>
   \<not> fst (snd (record_violation_locked sample_policy (second 160) (V4 7) PrivateIp sample_inner))"
proof -
  have v: "fst (snd (record_violation_locked sample_policy (second n) (V4 7) PrivateIp sample_inner)) =
    (\<not> is_auto_banned sample_inner (V4 7) (second n) \<and>
     \<not> snd (capacity_guard (second n) (V4 7) sample_inner) \<and>
     deserves_ban (second n) sample_inner (V4 7) PrivateIp)" for n
  proof -
    obtain i b p where
      r: "record_violation_locked sample_policy (second n) (V4 7) PrivateIp sample_inner = (i, b, p)"
      by (metis prod.exhaust)
    show ?thesis using violation_verdict [OF sample_inner_inv r] r by simp
  qed
  show ?thesis unfolding v
    by (simp add: sample_inner_def tracker_new_def tracker_with_policy_def is_auto_banned_def
        record_is_banned_def sample_record_def capacity_guard_def deserves_ban_def counted_def
        secs_since_def second_def ns_per_sec_def inc_u32_def)
qed

subsection \<open>The capacity of the tracker\<close>

text \<open>The violation that finds the record map full of live records is lost: the limit is doubled
  because dropping new offenders would disable the ban for them, but the check that follows compares
  with the limit read before, so even an attack of the immediate tier neither bans nor records the
  address.
\<close>

theorem growing_drops_the_violation:
  assumes "map_of (ab_records inner) ip = None"
    and "length (ab_records inner) = ab_max_records inner"
    and "\<forall>e\<in>set (ab_records inner). keep_record now (ab_window_secs inner) (snd e)"
    and "ab_max_records inner < HARD_MAX_RECORDS" and "0 < ab_max_records inner"
  shows "ab_max_records (fst (record_violation_locked po now ip SqlInjection inner)) =
      min (2 * ab_max_records inner) HARD_MAX_RECORDS \<and>
    length (ab_records inner) < ab_max_records (fst (record_violation_locked po now ip SqlInjection inner)) \<and>
    snd (record_violation_locked po now ip SqlInjection inner) = (False, False) \<and>
    ab_records (fst (record_violation_locked po now ip SqlInjection inner)) = ab_records inner"
proof -
  have "filter (\<lambda>e. keep_record now (ab_window_secs inner) (snd e)) (ab_records inner) = ab_records inner"
    using assms(3) by (simp add: filter_id_conv)
  moreover have "sat_mul u64_max (ab_max_records inner) 2 = 2 * ab_max_records inner"
    using assms(4) by (simp add: sat_defs HARD_MAX_RECORDS_def)
  moreover have "ab_max_records inner < min (2 * ab_max_records inner) HARD_MAX_RECORDS"
    using assms(4,5) by simp
  ultimately have g: "snd (capacity_guard now ip inner)"
    "ab_records (guarded now ip inner) = ab_records inner"
    "ab_max_records (guarded now ip inner) = min (2 * ab_max_records inner) HARD_MAX_RECORDS"
    using assms(1,2) by (simp_all add: guarded_def capacity_guard_def Let_def)
  have "record_violation_locked po now ip SqlInjection inner = (guarded now ip inner, False, False)"
    using assms(1) g(1) by (simp add: record_violation_locked_def guarded_def case_prod_unfold)
  then show ?thesis using g assms by simp
qed

lemma growing_drops_the_violation_witness:
  "snd (record_violation_locked sample_policy (second 120) (V4 8) SqlInjection
     (sample_inner\<lparr>ab_max_records := 1\<rparr>)) = (False, False)"
  using growing_drops_the_violation
    [of "sample_inner\<lparr>ab_max_records := 1\<rparr>" "V4 8" "second 120" sample_policy]
  by (simp add: sample_inner_def sample_record_def keep_record_def secs_since_def second_def
      ns_per_sec_def tracker_new_def tracker_with_policy_def HARD_MAX_RECORDS_def)

subsection \<open>Offences\<close>

text \<open>The offences counted against an address once it is banned again.\<close>

lemma punish_offenses:
  "r_offenses (punish po now reason ip d r) = r_offenses (register_offense now (po_offense_decay_secs po) r)"
  by (simp add: punish_def apply_ban_def Let_def split: ban_kind.splits option.splits)

lemma clear_expired_offenses:
  "r_offenses (clear_expired now r) = r_offenses r" "r_last_offense (clear_expired now r) = r_last_offense r"
  by (simp_all add: clear_expired_def split: option.splits)

lemma new_offense: "snd (violate_new po now reason ip inner) \<Longrightarrow>
    r_offenses (fst (violate_new po now reason ip inner)) = 1"
  by (simp add: violate_new_def Let_def punish_offenses register_offense_def sat_defs)

lemma known_offense:
  assumes "snd (violate_known po now reason ip inner r)" and "r_last_offense r = Some t0"
    and "secs_since now t0 < po_offense_decay_secs po"
  shows "r_offenses (fst (violate_known po now reason ip inner r)) = sat_add u32_max (r_offenses r) 1"
  using assms
  by (auto simp: violate_known_def Let_def punish_offenses register_offense_def clear_expired_offenses
      split: if_splits)

text \<open>The offence history survives a ban only until the next cleanup. If an address whose ban ran out
  is banned again while its last offence has not decayed, the offence number goes up by one. But a
  cleanup in between, once the window has passed, drops the record, and the same violation is a first
  offence again: the escalation starts over although the decay time has not passed.
\<close>

theorem cleanup_forgets_offences:
  assumes "ab_inv inner" and "map_of (ab_records inner) ip = Some r"
    and "\<not> record_is_banned r c" and "ab_window_secs inner \<le> secs_since c (r_first_violation r)"
    and "c \<le> now" and "r_last_offense r = Some t0" and "secs_since now t0 < po_offense_decay_secs po"
  shows "(case record_violation_locked po now ip reason inner of (inner', ban, _) \<Rightarrow>
      ban \<longrightarrow> map_option r_offenses (map_of (ab_records inner') ip) =
                Some (sat_add u32_max (r_offenses r) 1)) \<and>
    (case record_violation_locked po now ip reason (auto_ban_cleanup c inner) of (inner', ban, _) \<Rightarrow>
      ban \<longrightarrow> map_option r_offenses (map_of (ab_records inner') ip) = Some 1)"
proof -
  have nb: "\<not> is_auto_banned inner ip now"
    using assms(2,3) banned_later [OF _ assms(5)] by (auto simp: is_auto_banned_def)
  have g1: "\<not> snd (capacity_guard now ip inner)" "guarded now ip inner = inner"
    using assms(2) by (simp_all add: guarded_def capacity_guard_def)
  let ?c = "auto_ban_cleanup c inner"
  have "\<not> keep_record c (ab_window_secs inner) r" using assms(3,4) by (simp add: keep_record_def)
  moreover have "distinct (map fst (ab_records inner))" using assms(1) by (simp add: ab_inv_def)
  ultimately have none: "map_of (ab_records ?c) ip = None"
    using assms(2) by (simp add: auto_ban_cleanup_def map_of_filter_snd)
  have inv: "ab_inv ?c"
    using assms(1) by (auto simp: ab_inv_def auto_ban_cleanup_def distinct_map_filter
        intro: order.trans [OF length_filter_le])
  have nb2: "\<not> is_auto_banned ?c ip now" using none by (simp add: is_auto_banned_def)
  have first: "case record_violation_locked po now ip reason inner of (inner', ban, _) \<Rightarrow>
      ban \<longrightarrow> map_option r_offenses (map_of (ab_records inner') ip) =
                Some (sat_add u32_max (r_offenses r) 1)"
    using locked_unfold [OF nb g1(1), of po reason] known_offense [of po now reason ip inner r t0] assms(2,6,7)
    by (simp add: g1(2) outcome_def update_conv')
  have "case record_violation_locked po now ip reason ?c of (inner', ban, _) \<Rightarrow>
      ban \<longrightarrow> map_option r_offenses (map_of (ab_records inner') ip) = Some 1"
  proof (cases "snd (capacity_guard now ip ?c)")
    case True
    then show ?thesis
      using nb2 by (simp add: record_violation_locked_def is_auto_banned_def case_prod_unfold)
  next
    case False
    then show ?thesis
      using locked_unfold [OF nb2 False, of po reason] new_offense [of po now reason ip "guarded now ip ?c"]
        guard_lookup [OF inv, of now ip] none
      by (simp add: outcome_def update_conv')
  qed
  with first show ?thesis ..
qed

text \<open>An address whose five minute ban, its first, ran out at second 400.\<close>

definition released_record :: ip_record where
  "released_record = sample_record\<lparr>r_banned_until := Some (second 400), r_offenses := 1,
     r_last_offense := Some (second 100)\<rparr>"

definition released_inner :: auto_ban_inner where
  "released_inner = sample_inner\<lparr>ab_records := [(V4 7, released_record)], ab_threshold := 1\<rparr>"

lemma cleanup_forgets_offences_witness:
  "map_option r_offenses (map_of (ab_records (fst (record_violation_locked sample_policy (second 402) (V4 7)
     NonStandardPeerId released_inner))) (V4 7)) = Some 2 \<and>
   map_option r_offenses (map_of (ab_records (fst (record_violation_locked sample_policy (second 402) (V4 7)
     NonStandardPeerId (auto_ban_cleanup (second 401) released_inner)))) (V4 7)) = Some 1"
proof -
  note defs = released_inner_def released_record_def sample_inner_def sample_record_def sample_policy_def
    tracker_new_def tracker_with_policy_def auto_ban_config_default_def ab_inv_def record_is_banned_def
    secs_since_def second_def ns_per_sec_def auto_ban_cleanup_def keep_record_def is_auto_banned_def
    capacity_guard_def deserves_ban_def counted_def inc_u32_def
  have inv: "ab_inv released_inner" "ab_inv (auto_ban_cleanup (second 401) released_inner)"
    by (simp_all add: defs)
  let ?v = "\<lambda>i. record_violation_locked sample_policy (second 402) (V4 7) NonStandardPeerId i"
  have ban: "fst (snd (?v released_inner))" "fst (snd (?v (auto_ban_cleanup (second 401) released_inner)))"
    unfolding locked_ban [OF inv(1)] locked_ban [OF inv(2)] by (simp_all add: defs)
  have hyps: "map_of (ab_records released_inner) (V4 7) = Some released_record"
    "\<not> record_is_banned released_record (second 401)"
    "ab_window_secs released_inner \<le> secs_since (second 401) (r_first_violation released_record)"
    "second 401 \<le> second 402" "r_last_offense released_record = Some (second 100)"
    "secs_since (second 402) (second 100) < po_offense_decay_secs sample_policy"
    by (simp_all add: defs)
  have "sat_add u32_max (r_offenses released_record) 1 = 2" by (simp add: defs sat_defs)
  then show ?thesis
    using cleanup_forgets_offences [OF inv(1) hyps, of NonStandardPeerId] ban
    by (simp add: case_prod_unfold)
qed

subsection \<open>The tracker over time\<close>

text \<open>What the server does with a tracker and the list files after startup, in any order.\<close>

inductive tracker_step ::
  "ip_parser \<Rightarrow> (ip_addr \<Rightarrow> bytes) \<Rightarrow> (path \<Rightarrow> path) \<Rightarrow> auto_ban_tracker \<times> file_system \<Rightarrow>
   auto_ban_tracker \<times> file_system \<Rightarrow> bool"
  for parse_ip show_ip tmp_of
  where
    Violation: "record_violation show_ip now en ip reason t fs = (t', fs', ban) \<Longrightarrow>
      tracker_step parse_ip show_ip tmp_of (t, fs) (t', fs')"
  | Flush: "flush_to_file show_ip en t fs = (t', fs', ips) \<Longrightarrow>
      tracker_step parse_ip show_ip tmp_of (t, fs) (t', fs')"
  | Remove: "tracker_step parse_ip show_ip tmp_of (t, fs) (t\<lparr>at_inner := remove_ips ips (at_inner t)\<rparr>, fs)"
  | Cleanup: "tracker_step parse_ip show_ip tmp_of (t, fs)
      (t\<lparr>at_inner := auto_ban_cleanup now (at_inner t)\<rparr>, fs)"
  | Client_cleanup: "maybe_cleanup_client_bans parse_ip show_ip tmp_of en t fs = (t', fs', n) \<Longrightarrow>
      tracker_step parse_ip show_ip tmp_of (t, fs) (t', fs')"

inductive_cases tracker_step_elim: "tracker_step parse_ip show_ip tmp_of (t, fs) (t', fs')"

abbreviation tracker_run where
  "tracker_run parse_ip show_ip tmp_of \<equiv> (tracker_step parse_ip show_ip tmp_of)\<^sup>*\<^sup>*"

lemma set_persisted_keys:
  "map fst (ab_records (set_persisted ip inner)) = map fst (ab_records inner)"
  "ab_max_records (set_persisted ip inner) = ab_max_records inner"
proof -
  have "map_of (ab_records inner) ip = Some r \<Longrightarrow> ip \<in> fst ` set (ab_records inner)" for r
    using map_of_SomeD [of "ab_records inner" ip r] by force
  then show "map fst (ab_records (set_persisted ip inner)) = map fst (ab_records inner)"
    by (auto simp: set_persisted_def update_keys split: option.split)
  show "ab_max_records (set_persisted ip inner) = ab_max_records inner"
    by (simp add: set_persisted_def split: option.split)
qed

lemma fold_set_persisted_keys:
  "map fst (ab_records (fold set_persisted ips inner)) = map fst (ab_records inner) \<and>
   ab_max_records (fold set_persisted ips inner) = ab_max_records inner"
  by (induction ips arbitrary: inner) (simp_all add: set_persisted_keys)

lemma same_keys_inv:
  assumes "map fst (ab_records i') = map fst (ab_records i)" and "ab_max_records i' = ab_max_records i"
  shows "ab_inv i' = ab_inv i"
proof -
  have "length (ab_records i') = length (ab_records i)" using assms(1) by (metis length_map)
  then show ?thesis using assms by (simp add: ab_inv_def)
qed

lemma fold_delete_inv:
  "distinct (map fst rs) \<Longrightarrow> distinct (map fst (fold AList.delete ips rs)) \<and>
   length (fold AList.delete ips rs) \<le> length rs"
proof (induction ips arbitrary: rs)
  case (Cons ip ips)
  have "length (AList.delete ip rs) \<le> length rs" by (simp add: AList.delete_eq)
  then show ?case using Cons.IH [of "AList.delete ip rs"] Cons.prems by (auto simp: distinct_delete)
qed simp

definition limit_ok :: "nat \<Rightarrow> auto_ban_inner \<Rightarrow> bool" where
  "limit_ok cap inner = (ab_inv inner \<and> ab_max_records inner \<le> cap)"

lemma persist_ip_keys:
  assumes "persist_ip show_ip en ip t fs = (t', fs')"
  shows "limit_ok cap (at_inner t') = limit_ok cap (at_inner t)"
  using assms
  by (auto simp: persist_ip_def case_prod_unfold Let_def limit_ok_def set_persisted_keys
      same_keys_inv [OF set_persisted_keys] split: option.splits if_splits)

lemma violation_limit:
  assumes "limit_ok cap (at_inner t)" and "HARD_MAX_RECORDS \<le> cap"
  shows "limit_ok cap (at_inner (fst (record_violation show_ip now en ip reason t fs)))"
proof -
  define t1 where "t1 = t\<lparr>at_inner := fst (record_violation_locked (at_policy t) now ip reason (at_inner t))\<rparr>"
  have "limit_ok cap (at_inner t1)"
    using assms locked_inv [of "at_inner t"] locked_limit [of "at_policy t" now ip reason "at_inner t"]
    by (auto simp: limit_ok_def t1_def)
  moreover have "fst (record_violation show_ip now en ip reason t fs) = t1 \<or>
      fst (record_violation show_ip now en ip reason t fs) = fst (persist_ip show_ip en ip t1 fs)"
    by (simp add: record_violation_def case_prod_unfold Let_def t1_def)
  moreover have "limit_ok cap (at_inner (fst (persist_ip show_ip en ip t1 fs))) = limit_ok cap (at_inner t1)"
    by (rule persist_ip_keys [where fs' = "snd (persist_ip show_ip en ip t1 fs)"]) simp
  ultimately show ?thesis by auto
qed

lemma step_limit:
  assumes "tracker_step parse_ip show_ip tmp_of s s'" and "limit_ok cap (at_inner (fst s))"
    and "HARD_MAX_RECORDS \<le> cap"
  shows "limit_ok cap (at_inner (fst s'))"
  using assms(1,2)
proof (cases rule: tracker_step.cases)
  case (Violation now en ip reason t fs t' fs' ban)
  then show ?thesis
    using violation_limit [OF _ assms(3), of t show_ip now en ip reason fs] assms(2) by simp
next
  case (Flush en t fs t' fs' ips)
  have "\<exists>ips. at_inner t' = at_inner t \<or> at_inner t' = fold set_persisted ips (at_inner t)"
    using Flush(3) by (auto simp: flush_to_file_def case_prod_unfold Let_def split: option.splits if_splits)
  then have "limit_ok cap (at_inner t') = limit_ok cap (at_inner t)"
    using fold_set_persisted_keys same_keys_inv by (metis limit_ok_def)
  then show ?thesis using Flush assms(2) by simp
next
  case (Remove t fs ips)
  then show ?thesis
    using assms(2) fold_delete_inv [of "ab_records (at_inner t)" ips]
    by (auto simp: limit_ok_def ab_inv_def remove_ips_def)
next
  case (Cleanup t fs now)
  then show ?thesis
    using assms(2) by (auto simp: limit_ok_def ab_inv_def auto_ban_cleanup_def distinct_map_filter
        intro: order.trans [OF length_filter_le])
next
  case (Client_cleanup en t fs t' fs' n)
  then show ?thesis
    using assms(2)
    by (auto simp: maybe_cleanup_client_bans_def case_prod_unfold Let_def limit_ok_def ab_inv_def
        split: if_splits)
qed

lemma run_limit:
  assumes "tracker_run parse_ip show_ip tmp_of s s'" and "limit_ok cap (at_inner (fst s))"
    and "HARD_MAX_RECORDS \<le> cap"
  shows "limit_ok cap (at_inner (fst s'))"
  using assms(1,2) by (induction rule: rtranclp_induct) (auto intro: step_limit [OF _ _ assms(3)])

subsection \<open>Startup\<close>

lemma split_on_bound: "length (split_on sep s) \<le> Suc (length s)"
  by (induction s) (auto split: list.splits)

lemma split_on_last:
  "last (split_on sep s) \<noteq> [] \<Longrightarrow> length (split_on sep s) \<le> length s"
proof (induction s)
  case Nil
  then show ?case by simp
next
  case (Cons c cs)
  then show ?case
    by (cases "split_on sep cs") (auto split: if_splits simp: not_less_eq_eq)
qed

lemma lines_bound: "length (lines s) \<le> length s"
proof (cases "last (split_on 10 s) = []")
  case True
  then show ?thesis using split_on_bound [of 10 s] by (simp add: lines_def Let_def)
next
  case False
  then show ?thesis
    using split_on_last [of 10 s] by (simp add: lines_def Let_def Suc_leI)
qed

lemma add_client_ban_keys:
  assumes "distinct (map fst out)"
  shows "distinct (map fst (add_client_ban parse_ip u raw out)) \<and>
    length (add_client_ban parse_ip u raw out) \<le> Suc (length out)"
  using assms length_update [OF assms] distinct_update [OF assms]
  by (auto simp: add_client_ban_def split: option.splits)

lemma fold_add_client_ban_keys:
  "distinct (map fst out) \<Longrightarrow> distinct (map fst (fold (add_client_ban parse_ip u) ls out)) \<and>
   length (fold (add_client_ban parse_ip u) ls out) \<le> length ls + length out"
proof (induction ls arbitrary: out)
  case (Cons l ls)
  note k = add_client_ban_keys [OF Cons.prems, of parse_ip u l]
  show ?case using Cons.IH [of "add_client_ban parse_ip u l out"] k by auto
qed simp

lemma parsed_bound: "length (parse_client_ban_lines parse_ip content u) \<le> length content"
  using fold_add_client_ban_keys [of "[]" parse_ip u "lines content"] lines_bound [of content]
  by (simp add: parse_client_ban_lines_def)

lemma restore_keys:
  assumes "distinct (map fst (ab_records inner))"
  shows "distinct (map fst (ab_records (restore_client_ban now u e inner))) \<and>
    length (ab_records (restore_client_ban now u e inner)) \<le> Suc (length (ab_records inner)) \<and>
    ab_max_records (restore_client_ban now u e inner) = ab_max_records inner"
  using assms length_update [OF assms] distinct_update [OF assms]
  by (auto simp: restore_client_ban_def Let_def split: prod.splits option.splits)

lemma fold_restore_keys:
  "distinct (map fst (ab_records inner)) \<Longrightarrow>
   distinct (map fst (ab_records (fold (restore_client_ban now u) es inner))) \<and>
   length (ab_records (fold (restore_client_ban now u) es inner)) \<le> length es + length (ab_records inner) \<and>
   ab_max_records (fold (restore_client_ban now u) es inner) = ab_max_records inner"
proof (induction es arbitrary: inner)
  case (Cons e es)
  note k = restore_keys [OF Cons.prems, of now u e]
  show ?case using Cons.IH [of "restore_client_ban now u e inner"] k by auto
qed simp

definition startup ::
  "ip_parser \<Rightarrow> file_system \<Rightarrow> nat \<Rightarrow> instant \<Rightarrow> auto_ban_config \<Rightarrow> auto_ban_tracker" where
  "startup parse_ip fs now_unix now cf = fst (load_client_bans parse_ip fs now_unix now (tracker_from_config cf))"

lemma startup_inv:
  assumes "\<And>p content. fs p = Some content \<Longrightarrow> length content \<le> 2 ^ 40"
  shows "ab_inv (at_inner (startup parse_ip fs u now cf)) \<and>
    ab_max_records (at_inner (startup parse_ip fs u now cf)) \<le> 2 ^ 40 + 200000"
proof -
  let ?t = "tracker_from_config cf"
  have inv0: "ab_inv (at_inner ?t)" "ab_records (at_inner ?t) = []" "ab_max_records (at_inner ?t) = 100000"
    by (simp_all add: tracker_from_config_def tracker_with_policy_def ab_inv_def)
  consider (same) "startup parse_ip fs u now cf = ?t"
    | (loaded) p content where "fs p = Some content"
        "at_inner (startup parse_ip fs u now cf) = raise_limit (length (parse_client_ban_lines parse_ip content u))
          (fold (restore_client_ban now u) (parse_client_ban_lines parse_ip content u) (at_inner ?t))"
  proof (cases "Option.bind (usable (at_client_ban_list_path ?t)) fs")
    case None
    then show ?thesis using same by (simp add: startup_def load_client_bans_def)
  next
    case (Some content)
    then obtain p where "fs p = Some content" by (auto simp: bind_eq_Some_conv)
    then show ?thesis
      using Some same loaded [of p content]
      by (cases "valid_utf8 content \<and> parse_client_ban_lines parse_ip content u \<noteq> []")
        (auto simp: startup_def load_client_bans_def Let_def)
  qed
  then show ?thesis
  proof cases
    case same
    then show ?thesis using inv0 by simp
  next
    case (loaded p content)
    let ?es = "parse_client_ban_lines parse_ip content u"
    let ?f = "fold (restore_client_ban now u) ?es (at_inner ?t)"
    have "length ?es \<le> 2 ^ 40" using assms [OF loaded(1)] parsed_bound order.trans by blast
    then have raise: "ab_records (raise_limit (length ?es) ?f) = ab_records ?f"
      "ab_max_records (raise_limit (length ?es) ?f) = max (ab_max_records ?f) (length ?es) + 100000"
      using fold_restore_keys [of "at_inner ?t" now u ?es] inv0
      by (auto simp: raise_limit_def Let_def sat_defs)
    then show ?thesis
      using loaded(2) fold_restore_keys [of "at_inner ?t" now u ?es] inv0 \<open>length ?es \<le> 2 ^ 40\<close>
      by (auto simp: ab_inv_def)
  qed
qed

text \<open>C11. Memory: from startup on, with the client bans of any file of at most a terabyte restored, and
  through any sequence of violations, flushes, cleanups and removals, the tracker holds one record per
  address and no more records than its limit, and the limit grows only up to the hard maximum (or
  stays where the restored bans put it).
\<close>

theorem records_stay_bounded:
  assumes "\<And>p content. fs p = Some content \<Longrightarrow> length content \<le> 2 ^ 40"
    and "tracker_run parse_ip show_ip tmp_of (startup parse_ip fs u now cf, fs) (t, fs')"
  shows "distinct (map fst (ab_records (at_inner t))) \<and>
    tracked_count (at_inner t) \<le> ab_max_records (at_inner t) \<and>
    ab_max_records (at_inner t) \<le>
      max HARD_MAX_RECORDS (ab_max_records (at_inner (startup parse_ip fs u now cf)))"
proof -
  let ?cap = "max HARD_MAX_RECORDS (ab_max_records (at_inner (startup parse_ip fs u now cf)))"
  have "limit_ok ?cap (at_inner (startup parse_ip fs u now cf))"
    using startup_inv [OF assms(1)] by (simp add: limit_ok_def)
  then have "limit_ok ?cap (at_inner t)" using run_limit [OF assms(2)] by simp
  then show ?thesis by (simp add: limit_ok_def ab_inv_def tracked_count_def)
qed

lemma records_stay_bounded_witness:
  "\<exists>t fs'. tracker_run (\<lambda>s. Some (V4 7)) (\<lambda>ip. [49]) id
     (startup (\<lambda>s. Some (V4 7)) Map.empty 0 0 auto_ban_config_default, Map.empty) (t, fs') \<and>
   tracked_count (at_inner t) \<le> ab_max_records (at_inner t)"
proof -
  let ?s = "startup (\<lambda>s. Some (V4 7)) Map.empty 0 0 auto_ban_config_default"
  let ?en = "\<lparr>en_now = 0, en_unix_now = 0, en_probe = NoMetadata, en_write = WriteOk, en_rename_ok = True\<rparr>"
  obtain t fs' b where "record_violation (\<lambda>ip. [49]) 0 ?en (V4 9) SqlInjection ?s Map.empty = (t, fs', b)"
    by (metis prod.exhaust)
  then have run: "tracker_run (\<lambda>s. Some (V4 7)) (\<lambda>ip. [49]) id (?s, Map.empty) (t, fs')"
    using tracker_step.Violation by blast
  have "tracked_count (at_inner t) \<le> ab_max_records (at_inner t)"
    using records_stay_bounded [OF _ run] by simp
  with run show ?thesis by blast
qed

subsection \<open>How long bans last\<close>

text \<open>A client ban lasts the configured time give or take the jitter of its address, at least a
  second, whatever the offences and the escalation; it is permanent only where every duration that
  could apply is configured as zero. The jitter depends on nothing but the address, so restarts
  give the same end.
\<close>

theorem client_ban_duration:
  assumes "po_client_ban_jitter_secs po < 2 ^ 62" and "client_ban_base po fb < 2 ^ 62"
  shows "if client_ban_base po fb = 0 then ban_kind_of po ClientBanned ip offenses fb = Permanent
    else (\<exists>s. ban_kind_of po ClientBanned ip offenses fb = Temporary s \<and> 1 \<le> s \<and>
            client_ban_base po fb - po_client_ban_jitter_secs po \<le> s \<and>
            s \<le> client_ban_base po fb + po_client_ban_jitter_secs po)"
  using client_ban_secs_bounds [OF assms, of ip] by (auto simp: ban_kind_of_def from_secs_def)

lemma client_ban_duration_witness:
  "\<exists>s. ban_kind_of sample_policy ClientBanned (V4 7) 3 3600 = Temporary s \<and> 84600 \<le> s \<and> s \<le> 88200"
  using client_ban_duration [of sample_policy 3600 "V4 7" 3]
  by (auto simp: sample_policy_def client_ban_base_def tracker_new_def tracker_with_policy_def
      auto_ban_config_default_def)

lemma small_ban_temporary:
  assumes "d \<noteq> 0" and "\<not> po_escalation_enabled po"
    and "d \<le> MAX_BAN_DURATION_SECS" and "po_immediate_ban_secs po \<le> MAX_BAN_DURATION_SECS"
    and "po_client_ban_duration_secs po \<le> MAX_BAN_DURATION_SECS"
    and "po_client_ban_jitter_secs po \<le> MAX_BAN_DURATION_SECS"
  shows "\<exists>s. ban_kind_of po reason ip offenses d = Temporary s \<and> s \<le> 2 * MAX_BAN_DURATION_SECS"
proof -
  have base: "client_ban_base po d \<noteq> 0" "client_ban_base po d \<le> MAX_BAN_DURATION_SECS"
    using assms by (simp_all add: client_ban_base_def)
  have "MAX_BAN_DURATION_SECS < 2 ^ 62" by (simp add: MAX_BAN_DURATION_SECS_def)
  then have "client_ban_secs po ip d \<noteq> 0" "client_ban_secs po ip d \<le> 2 * MAX_BAN_DURATION_SECS"
    using client_ban_secs_bounds [of po d ip] base assms(6) by auto
  then show ?thesis
    using assms by (auto simp: ban_kind_of_def from_secs_def split: auto_ban_tier.split)
qed

lemma punish_temporary:
  assumes "ban_kind_of po reason ip (r_offenses (register_offense now (po_offense_decay_secs po) r)) d
      = Temporary s"
    and "s \<le> 2 * MAX_BAN_DURATION_SECS" and "now div ns_per_sec < 2 ^ 62"
  shows "\<not> r_permanent (punish po now reason ip d r)"
proof -
  have "(now + s * ns_per_sec) div ns_per_sec = now div ns_per_sec + s"
    by (simp add: ns_per_sec_def)
  then have "checked_add_secs now s = Some (now + s * ns_per_sec)"
    using assms(2,3) by (simp add: checked_add_secs_def Let_def MAX_BAN_DURATION_SECS_def)
  then show ?thesis using assms(1) by (simp add: punish_def apply_ban_def Let_def)
qed

lemma permanent_needs_long:
  assumes "ab_ban_duration_secs inner \<noteq> 0" and "\<not> po_escalation_enabled po"
    and "ab_ban_duration_secs inner \<le> MAX_BAN_DURATION_SECS"
    and "po_immediate_ban_secs po \<le> MAX_BAN_DURATION_SECS"
    and "po_client_ban_duration_secs po \<le> MAX_BAN_DURATION_SECS"
    and "po_client_ban_jitter_secs po \<le> MAX_BAN_DURATION_SECS"
    and "now div ns_per_sec < 2 ^ 62"
  shows "\<not> snd (snd (record_violation_locked po now ip reason inner))"
proof -
  have short: "\<not> r_permanent (punish po now reason ip (ab_ban_duration_secs inner) r)" for r
    using small_ban_temporary [OF assms(1-6), of reason ip] punish_temporary [OF _ _ assms(7)] by metis
  have "snd (violate_known po now reason ip i r) \<Longrightarrow> ab_ban_duration_secs i = ab_ban_duration_secs inner \<Longrightarrow>
      \<not> r_permanent (fst (violate_known po now reason ip i r))" for i r
    using short by (auto simp: violate_known_def Let_def split: if_splits)
  moreover have "snd (violate_new po now reason ip i) \<Longrightarrow>
      ab_ban_duration_secs i = ab_ban_duration_secs inner \<Longrightarrow>
      \<not> r_permanent (fst (violate_new po now reason ip i))" for i
    using short by (simp add: violate_new_def Let_def)
  ultimately have "\<not> (snd (outcome po now ip reason (guarded now ip inner)) \<and>
      r_permanent (fst (outcome po now ip reason (guarded now ip inner))))"
    by (auto simp: outcome_def guard_static split: option.splits)
  then have kept: "\<not> is_auto_banned inner ip now \<Longrightarrow> \<not> snd (capacity_guard now ip inner) \<Longrightarrow> ?thesis"
    by (simp add: locked_unfold)
  have "is_auto_banned inner ip now \<or> snd (capacity_guard now ip inner) \<Longrightarrow> ?thesis"
    by (auto simp: record_violation_locked_def is_auto_banned_def case_prod_unfold split: option.splits)
  then show ?thesis using kept by blast
qed

text \<open>A configuration that passes the startup check never issues a permanent ban that would not be
  kept: if a violation makes a permanent ban, a ban list file is configured, the IP ban list is switched
  on, and both settings name the same file.
\<close>

theorem permanent_bans_have_a_list:
  assumes "validate_auto_ban_config canonicalize cf mode ip_ban_path = Inr ()" and "ac_enabled cf"
    and "ab_ban_duration_secs inner = ac_ban_duration_secs cf" and "now div ns_per_sec < 2 ^ 62"
    and "record_violation_locked (at_policy (tracker_from_config cf)) now ip reason inner = (inner', ban, True)"
  shows "at_ban_list_path (tracker_from_config cf) = Some (ac_ban_list_path cf) \<and>
    ac_ban_list_path cf \<noteq> [] \<and> ip_ban_on mode \<and>
    paths_refer_to_same_file canonicalize (ac_ban_list_path cf) ip_ban_path"
proof -
  have limits: "ac_ban_duration_secs cf \<le> MAX_BAN_DURATION_SECS"
    "ac_immediate_ban_secs cf \<le> MAX_BAN_DURATION_SECS"
    "ac_client_ban_duration_secs cf \<le> MAX_BAN_DURATION_SECS"
    "ac_client_ban_jitter_secs cf \<le> MAX_BAN_DURATION_SECS"
    and rest: "ac_ban_duration_secs cf \<noteq> 0 \<and> \<not> ac_escalation_enabled cf \<or>
      ac_ban_list_path cf \<noteq> [] \<and> ip_ban_on mode \<and>
      paths_refer_to_same_file canonicalize (ac_ban_list_path cf) ip_ban_path"
    using assms(1,2)
    by (cases "validate_steps (split_on 44 (ac_escalation_steps cf))";
        auto simp: validate_auto_ban_config_def split: if_splits)+
  have "\<not> (ac_ban_duration_secs cf \<noteq> 0 \<and> \<not> ac_escalation_enabled cf)"
  proof
    assume short: "ac_ban_duration_secs cf \<noteq> 0 \<and> \<not> ac_escalation_enabled cf"
    have "\<not> snd (snd (record_violation_locked (at_policy (tracker_from_config cf)) now ip reason inner))"
      using short limits assms(3,4)
      by (intro permanent_needs_long) (simp_all add: tracker_from_config_def tracker_with_policy_def)
    then show False using assms(5) by simp
  qed
  then show ?thesis
    using rest by (auto simp: tracker_from_config_def tracker_with_policy_def nonempty_path_def)
qed

definition sample_config :: auto_ban_config where
  "sample_config = auto_ban_config_default\<lparr>ac_enabled := True, ac_escalation_steps := [],
     ac_ban_list_path := [47, 98]\<rparr>"

lemma permanent_bans_have_a_list_witness:
  "ip_ban_on IpBanOn \<and> paths_refer_to_same_file Map.empty (ac_ban_list_path sample_config) [47, 98]"
proof -
  have same: "paths_refer_to_same_file Map.empty (ac_ban_list_path sample_config) [47, 98]"
    by (simp add: paths_refer_to_same_file_def sample_config_def)
  have "trim [] = []"
    by (simp add: trim_def trim_start_matches.simps trim_end_matches.simps)
  then have valid: "validate_auto_ban_config Map.empty sample_config IpBanOn [47, 98] = Inr ()"
    using same by (simp add: validate_auto_ban_config_def sample_config_def auto_ban_config_default_def
        MAX_BAN_DURATION_SECS_def)
  let ?r = "record_violation_locked (at_policy (tracker_from_config sample_config)) 0 (V4 7) SqlInjection
      (at_inner (tracker_from_config sample_config))"
  have "snd ?r = (True, True)"
    by (simp add: record_violation_locked_def capacity_guard_def violate_new_def tracker_from_config_def
        tracker_with_policy_def punish_def ban_kind_of_def from_secs_def apply_ban_def sample_config_def
        auto_ban_config_default_def Let_def)
  then have "?r = (fst ?r, True, True)" by (metis prod.collapse)
  from permanent_bans_have_a_list [OF valid _ _ _ this]
  show ?thesis
    by (simp add: sample_config_def auto_ban_config_default_def tracker_from_config_def
        tracker_with_policy_def ns_per_sec_def)
qed

end
