(* ===== verification/Ws_Protocol.thy ===== *)
theory Ws_Protocol
  imports Prelude
begin

text \<open>
  \<open>crates/ws_protocol\<close>: the messages of the WebTorrent tracker. The JSON around them is serde's work
  and is not modelled, apart from the two functions the crate writes itself: the twenty bytes of a peer
  id, info hash or offer id travel as a string of twenty characters below 256.
\<close>

type_synonym ws_info_hash = "160 word"
type_synonym ws_peer_id = "160 word"
type_synonym offer_id = "160 word"

datatype ws_announce_action = WsAnnounceAction
datatype ws_scrape_action = WsScrapeAction
datatype rtc_offer_type = RtcOfferType
datatype rtc_answer_type = RtcAnswerType

record rtc_offer =
  ro_t :: rtc_offer_type
  ro_sdp :: bytes

record rtc_answer =
  ra_t :: rtc_answer_type
  ra_sdp :: bytes

subsection \<open>Incoming messages\<close>

datatype ws_announce_event = WsStarted | WsStopped | WsCompleted | WsUpdate

definition ws_announce_event_default :: ws_announce_event where
  "ws_announce_event_default = WsUpdate"

record announce_request_offer =
  aro_offer :: rtc_offer
  aro_offer_id :: offer_id

record ws_announce_request =
  wa_action :: ws_announce_action
  wa_info_hash :: ws_info_hash
  wa_peer_id :: ws_peer_id
  wa_bytes_left :: "nat option"
  wa_event :: "ws_announce_event option"
  wa_offers :: "announce_request_offer list option"
  wa_numwant :: "nat option"
  wa_answer :: "rtc_answer option"
  wa_answer_to_peer_id :: "ws_peer_id option"
  wa_answer_offer_id :: "offer_id option"

datatype scrape_request_info_hashes = Single ws_info_hash | Multiple "ws_info_hash list"

fun as_vec :: "scrape_request_info_hashes \<Rightarrow> ws_info_hash list" where
  "as_vec (Single info_hash) = [info_hash]"
| "as_vec (Multiple info_hashes) = info_hashes"

record ws_scrape_request =
  wsr_action :: ws_scrape_action
  wsr_info_hashes :: "scrape_request_info_hashes option"

datatype ws_in_message = WsInAnnounce ws_announce_request | WsInScrape ws_scrape_request

subsection \<open>Outgoing messages\<close>

record ws_announce_response =
  wan_action :: ws_announce_action
  wan_info_hash :: ws_info_hash
  wan_complete :: u64
  wan_incomplete :: u64
  wan_announce_interval :: u64

record answer_out_message =
  aom_action :: ws_announce_action
  aom_peer_id :: ws_peer_id
  aom_info_hash :: ws_info_hash
  aom_answer :: rtc_answer
  aom_offer_id :: offer_id

record offer_out_message =
  oom_action :: ws_announce_action
  oom_peer_id :: ws_peer_id
  oom_info_hash :: ws_info_hash
  oom_offer :: rtc_offer
  oom_offer_id :: offer_id

record ws_scrape_statistics =
  wst_complete :: u64
  wst_incomplete :: u64
  wst_downloaded :: u64

record ws_scrape_response =
  wss_action :: ws_scrape_action
  wss_files :: "(ws_info_hash \<times> ws_scrape_statistics) list"

datatype error_response_action = ErrorAnnounce | ErrorScrape

record ws_error_response =
  wer_failure_reason :: bytes
  wer_action :: "error_response_action option"
  wer_info_hash :: "ws_info_hash option"

datatype ws_out_message =
    WsOffer offer_out_message
  | WsAnswer answer_out_message
  | WsAnnounceRes ws_announce_response
  | WsScrapeRes ws_scrape_response
  | WsError ws_error_response

subsection \<open>Twenty bytes as a string\<close>

text \<open>\<open>char::from(byte).encode_utf8\<close>: one byte below 128, else two.\<close>

definition encode_char :: "u8 \<Rightarrow> bytes" where
  "encode_char b = (let c = unat b in
     if c < 0x80 then [b] else [word_of_nat (0xC0 + c div 64), word_of_nat (0x80 + c mod 64)])"

definition serialize_20_bytes :: "160 word \<Rightarrow> bytes" where
  "serialize_20_bytes w = concat (map encode_char (word_be 20 w))"

datatype twenty_byte_error = NotInSingleByteRange nat | NotTwentyBytes

text \<open>The loop over the array: one character of the string for every place.\<close>

fun visit_loop :: "nat \<Rightarrow> nat list \<Rightarrow> twenty_byte_error + bytes" where
  "visit_loop 0 cs = Inr []"
| "visit_loop (Suc n) [] = Inl NotTwentyBytes"
| "visit_loop (Suc n) (c # cs) =
     (if 255 < c then Inl (NotInSingleByteRange c)
      else and_then (visit_loop n cs) (\<lambda>bs. Inr (word_of_nat c # bs)))"

definition deserialize_20_bytes :: "bytes \<Rightarrow> twenty_byte_error + 160 word" where
  "deserialize_20_bytes s = and_then (visit_loop 20 (chars s)) (\<lambda>bs. Inr (be_word bs))"

subsection \<open>Reading back what was written\<close>

lemma utf8_step_encode_char:
  assumes "\<not> unat b < 0x80"
  shows "fst (utf8_step (encode_char b @ s)) = 2" and "code_point (encode_char b) = unat b"
    and "length (encode_char b) = 2"
proof -
  define c where "c = unat b"
  have c: "128 \<le> c" "c < 256" using assms by (simp_all add: c_def)
  have u: "unat (word_of_nat (0xC0 + c div 64) :: u8) = 0xC0 + c div 64"
    "unat (word_of_nat (0x80 + c mod 64) :: u8) = 0x80 + c mod 64"
    unfolding unat_of_nat using c by auto
  have e: "encode_char b = [word_of_nat (0xC0 + c div 64), word_of_nat (0x80 + c mod 64)]"
    using c by (simp add: encode_char_def c_def [symmetric])
  have "2 \<le> c div 64" "c div 64 < 4" using c by auto
  then have "in_range 0xC2 0xDF (word_of_nat (0xC0 + c div 64))"
    "\<not> (word_of_nat (0xC0 + c div 64) :: u8) < 0x80"
    "cont_byte (word_of_nat (0x80 + c mod 64))"
    unfolding in_range_def cont_byte_def word_le_nat_alt word_less_nat_alt u using c by auto
  then show "fst (utf8_step (encode_char b @ s)) = 2"
    by (simp add: e utf8_step_def seq2_def nth_sat_def)
  have "((0xC0 + c div 64) mod 32) * 64 + (0x80 + c mod 64) mod 64 = c"
  proof -
    have "(128 + m) mod 64 = m" if "m < 64" for m :: nat using that mod_mult_self1 [of m 2 64] by (simp add: add.commute)
    then have "(0x80 + c mod 64) mod 64 = c mod 64" by simp
    moreover have "c div 64 = 2 \<or> c div 64 = 3"
      using \<open>2 \<le> c div 64\<close> \<open>c div 64 < 4\<close> by linarith
    then have "(0xC0 + c div 64) mod 32 = c div 64" by auto
    ultimately show ?thesis using div_mult_mod_eq [of c 64] by simp
  qed
  then show "code_point (encode_char b) = unat b" unfolding e code_point_def list.case u by (simp only: c_def)
  show "length (encode_char b) = 2" by (simp add: e)
qed

lemma chars_encode_char: "chars (encode_char b @ s) = unat b # chars s"
proof (cases "unat b < 0x80")
  case True
  then show ?thesis by (simp add: encode_char_def chars_ascii word_less_nat_alt)
next
  case False
  note u = utf8_step_encode_char [OF False]
  have ne: "encode_char b @ s \<noteq> []" using u(3) by auto
  have "take 2 (encode_char b @ s) = encode_char b" "drop 2 (encode_char b @ s) = s"
    using u(3) by simp_all
  then show ?thesis
    using ne u(1,2) by (subst chars.simps) (simp add: Let_def)
qed

lemma chars_encoded: "chars (concat (map encode_char bs) @ s) = map unat bs @ chars s"
  by (induction bs) (simp_all add: chars_encode_char)

lemma visit_loop_bytes: "visit_loop (length bs) (map unat bs @ cs) = Inr bs"
proof (induction bs)
  case (Cons b bs)
  have "\<not> 255 < unat b" using unat_byte_lt [of b] by linarith
  then show ?case using Cons by simp
qed simp

lemma visit_loop_Inr:
  "visit_loop n cs = Inr bs \<Longrightarrow> length bs = n \<and> (\<exists>rest. cs = map unat bs @ rest)"
proof (induction n cs arbitrary: bs rule: visit_loop.induct)
  case (3 n c cs)
  then obtain bs' where b: "\<not> 255 < c" "visit_loop n cs = Inr bs'" "bs = word_of_nat c # bs'"
    by (auto simp: and_then_Inr split: if_splits)
  then have "unat (word_of_nat c :: u8) = c" by (simp add: unat_of_nat)
  then show ?case using "3.IH" [OF b(1,2)] b(3) by auto
qed auto

text \<open>The string written for a peer id, info hash or offer id is read back to it, whatever follows it: the
  reader accepts exactly the strings that begin with twenty characters below 256, and ignores all
  characters after the twentieth.\<close>

theorem twenty_bytes_roundtrip:
  "deserialize_20_bytes (serialize_20_bytes w @ s) = Inr w \<and>
   (deserialize_20_bytes t = Inr w \<longleftrightarrow> (\<exists>rest. chars t = map unat (word_be 20 w) @ rest))"
proof -
  have l: "length (word_be 20 w) = 20" by simp
  have v: "visit_loop 20 (map unat (word_be 20 w) @ cs) = Inr (word_be 20 w)" for cs
    using visit_loop_bytes [of "word_be 20 w" cs] by simp
  have "deserialize_20_bytes t = Inr w \<Longrightarrow> \<exists>rest. chars t = map unat (word_be 20 w) @ rest"
    using visit_loop_Inr [of 20 "chars t"] by (auto simp: deserialize_20_bytes_def and_then_Inr codec_simps)
  then show ?thesis
    by (auto simp: deserialize_20_bytes_def serialize_20_bytes_def chars_encoded v)
qed

end
