(* ===== verification/Ws_Swarm.thy ===== *)
theory Ws_Swarm
  imports Peer_Store Ws_Protocol Access_List
begin

text \<open>
  \<open>crates/ws/src/workers/swarm/storage.rs\<close> and \<open>crates/ws/src/common.rs\<close>: the torrents of one swarm
  worker of the WebTorrent tracker, whose peers exchange WebRTC offers and answers through it. As in
  the UDP swarm, \<open>IndexMap\<close> and the random number generator are arguments; the messages an operation
  pushes to \<open>out_messages\<close> are returned in order. \<open>None\<close> is a panic (an uptime beyond 32 bits) or an
  index subtraction below zero. A clock yields the uptime in seconds at each reading of the server's
  start instant. Metrics are not modelled.
\<close>

subsection \<open>Messages between the workers\<close>

type_synonym consumer_id = u8
type_synonym pending_scrape_id = u8

text \<open>A key of the slot map; keys are not used again.\<close>

type_synonym ws_connection_id = nat

datatype ws_ip_version = WsV4 | WsV6

fun canonical_from_ip :: "ip_addr \<Rightarrow> ws_ip_version" where
  "canonical_from_ip (V4 a) = WsV4"
| "canonical_from_ip (V6 addr) = (if take 12 (word_be 16 addr) = mapped_prefix then WsV4 else WsV6)"

record in_message_meta =
  mi_out_message_consumer_id :: consumer_id
  mi_connection_id :: ws_connection_id
  mi_ip_version :: ws_ip_version
  mi_pending_scrape_id :: "pending_scrape_id option"

record out_message_meta =
  mo_out_message_consumer_id :: consumer_id
  mo_connection_id :: ws_connection_id
  mo_pending_scrape_id :: "pending_scrape_id option"

definition out_meta_of :: "in_message_meta \<Rightarrow> out_message_meta" where
  "out_meta_of val = \<lparr>mo_out_message_consumer_id = mi_out_message_consumer_id val,
     mo_connection_id = mi_connection_id val, mo_pending_scrape_id = mi_pending_scrape_id val\<rparr>"

type_synonym out_messages = "(out_message_meta \<times> ws_out_message) list"

record swarm_control_message =
  cc_ip_version :: ws_ip_version
  cc_announced_info_hashes :: "(ws_info_hash \<times> ws_peer_id) list"

record ws_config =
  wcf_swarm_workers :: nat
  wcf_max_scrape_torrents :: nat
  wcf_max_offers :: nat
  wcf_peer_announce_interval :: u64
  wcf_max_peer_age :: u32
  wcf_max_offer_age :: u32
  wcf_access_list_mode :: access_list_mode

subsection \<open>Peers and torrents\<close>

record expecting_answer =
  ea_from_peer_id :: ws_peer_id
  ea_regarding_offer_id :: offer_id

record ws_peer =
  wp_consumer_id :: consumer_id
  wp_connection_id :: ws_connection_id
  wp_seeder :: bool
  wp_valid_until :: valid_until
  wp_expecting_answers :: "(expecting_answer, valid_until) index_map"

datatype ws_peer_status = WsSeeding | WsLeeching | WsPeerStopped

definition ws_from_event_and_bytes_left :: "ws_announce_event \<Rightarrow> nat option \<Rightarrow> ws_peer_status" where
  "ws_from_event_and_bytes_left event opt_bytes_left =
     (if event = WsStopped then WsPeerStopped
      else if opt_bytes_left = Some 0 then WsSeeding else WsLeeching)"

record ws_torrent_data =
  wt_peers :: "(ws_peer_id, ws_peer) index_map"
  wt_num_seeders :: u64

definition ws_torrent_data_default :: ws_torrent_data where
  "ws_torrent_data_default = \<lparr>wt_peers = [], wt_num_seeders = 0\<rparr>"

definition wt_num_leechers :: "ws_torrent_data \<Rightarrow> u64" where
  "wt_num_leechers td = of_nat (length (wt_peers td)) - wt_num_seeders td"

type_synonym ws_torrent_map = "(ws_info_hash, ws_torrent_data) index_map"

text \<open>The three kinds of index map, and the generator.\<close>

record 'r ws_crates =
  wx_torrents :: "(ws_info_hash, ws_torrent_data) index_map_ops"
  wx_peers :: "(ws_peer_id, ws_peer) index_map_ops"
  wx_answers :: "(expecting_answer, valid_until) index_map_ops"
  wx_gen :: "'r gen_range"

text \<open>A change of the value under a key through a mutable reference.\<close>

definition im_modify :: "'k \<Rightarrow> ('v \<Rightarrow> 'v) \<Rightarrow> ('k, 'v) index_map \<Rightarrow> ('k, 'v) index_map" where
  "im_modify k f m = map (\<lambda>e. if fst e = k then (fst e, f (snd e)) else e) m"

definition new_peer :: "in_message_meta \<Rightarrow> bool \<Rightarrow> valid_until \<Rightarrow> ws_peer" where
  "new_peer meta seeder valid_until =
     \<lparr>wp_consumer_id = mi_out_message_consumer_id meta, wp_connection_id = mi_connection_id meta,
      wp_seeder = seeder, wp_valid_until = valid_until, wp_expecting_answers = []\<rparr>"

definition announce_peer_status :: "ws_announce_request \<Rightarrow> ws_peer_status" where
  "announce_peer_status request = ws_from_event_and_bytes_left
     (case wa_event request of Some e \<Rightarrow> e | None \<Rightarrow> ws_announce_event_default) (wa_bytes_left request)"

definition insert_or_update_peer ::
  "'r ws_crates \<Rightarrow> ws_config \<Rightarrow> nat \<Rightarrow> in_message_meta \<Rightarrow> ws_announce_request \<Rightarrow> ws_torrent_data \<Rightarrow>
   (ws_peer_status \<times> ws_torrent_data) option" where
  "insert_or_update_peer xc cf secs meta request td =
     map_option (\<lambda>valid_until.
         let peer_status = announce_peer_status request; pid = wa_peer_id request
         in (peer_status,
           case map_of (wt_peers td) pid of
             Some peer \<Rightarrow>
               (case peer_status of
                  WsLeeching \<Rightarrow>
                    td\<lparr>wt_num_seeders := (if wp_seeder peer then wt_num_seeders td - 1 else wt_num_seeders td),
                       wt_peers := im_modify pid
                         (\<lambda>p. p\<lparr>wp_seeder := False, wp_valid_until := valid_until\<rparr>) (wt_peers td)\<rparr>
                | WsSeeding \<Rightarrow>
                    td\<lparr>wt_num_seeders := (if \<not> wp_seeder peer then wt_num_seeders td + 1 else wt_num_seeders td),
                       wt_peers := im_modify pid
                         (\<lambda>p. p\<lparr>wp_seeder := True, wp_valid_until := valid_until\<rparr>) (wt_peers td)\<rparr>
                | WsPeerStopped \<Rightarrow>
                    td\<lparr>wt_peers := im_swap_remove (wx_peers xc) pid (wt_peers td),
                       wt_num_seeders := (if wp_seeder peer then wt_num_seeders td - 1 else wt_num_seeders td)\<rparr>)
           | None \<Rightarrow>
               (case peer_status of
                  WsLeeching \<Rightarrow>
                    td\<lparr>wt_peers := im_insert (wx_peers xc) pid (new_peer meta False valid_until) (wt_peers td)\<rparr>
                | WsSeeding \<Rightarrow>
                    td\<lparr>wt_num_seeders := wt_num_seeders td + 1,
                       wt_peers := im_insert (wx_peers xc) pid (new_peer meta True valid_until) (wt_peers td)\<rparr>
                | WsPeerStopped \<Rightarrow> td)))
       (valid_until_new secs (wcf_max_peer_age cf))"

subsection \<open>Response peers\<close>

definition range_entries :: "nat \<Rightarrow> nat \<Rightarrow> ('k, 'v) index_map \<Rightarrow> ('k, 'v) index_map" where
  "range_entries a b es = (case im_get_range a b es of Some s \<Rightarrow> s | None \<Rightarrow> [])"

text \<open>\<open>gen_range(from..to)\<close> draws below \<open>to\<close>.\<close>

definition ws_extract_response_peers ::
  "'r gen_range \<Rightarrow> 'r \<Rightarrow> ('k, 'v) index_map \<Rightarrow> nat \<Rightarrow> 'k \<Rightarrow> ('k \<Rightarrow> 'v \<Rightarrow> 'x) \<Rightarrow> ('x list \<times> 'r) option" where
  "ws_extract_response_peers gen r es max_num sender conv =
     (let others = (\<lambda>xs. map (\<lambda>(k, v). conv k v) (filter (\<lambda>e. fst e \<noteq> sender) xs)) in
      if length es \<le> max_num + 1 then
        (let peers = others es
         in Some (if max_num < length peers then butlast peers else peers, r))
      else
        let middle_index = length es div 2;
            num_to_take_per_half = max_num div 2 + 1
        in Option.bind (sub_index middle_index num_to_take_per_half) (\<lambda>d1.
           Option.bind (sub_index (length es) num_to_take_per_half) (\<lambda>d2.
             let (offset_half_one, r1) = gen 0 (max 1 d1 - 1) r;
                 (offset_half_two, r2) = gen middle_index (max (middle_index + 1) d2 - 1) r1;
                 peers =
                   others (range_entries offset_half_one (offset_half_one + num_to_take_per_half) es) @
                   others (range_entries offset_half_two (offset_half_two + num_to_take_per_half) es)
             in Some (take max_num peers, r2))))"

subsection \<open>Offers and answers\<close>

type_synonym offer_receiver = "ws_peer_id \<times> ws_connection_id \<times> consumer_id"

definition offer_message ::
  "ws_info_hash \<Rightarrow> ws_peer_id \<Rightarrow> announce_request_offer \<Rightarrow> offer_receiver \<Rightarrow> out_message_meta \<times> ws_out_message"
  where "offer_message info_hash sender offer receiver =
     (case receiver of (_, connection_id, consumer_id) \<Rightarrow>
       (\<lparr>mo_out_message_consumer_id = consumer_id, mo_connection_id = connection_id,
         mo_pending_scrape_id = None\<rparr>,
        WsOffer \<lparr>oom_action = WsAnnounceAction, oom_peer_id = sender, oom_info_hash = info_hash,
          oom_offer = aro_offer offer, oom_offer_id = aro_offer_id offer\<rparr>))"

fun offer_loop ::
  "'r ws_crates \<Rightarrow> ws_config \<Rightarrow> (nat \<Rightarrow> nat) \<Rightarrow> ws_info_hash \<Rightarrow> ws_peer_id \<Rightarrow>
   (announce_request_offer \<times> offer_receiver) list \<Rightarrow> (expecting_answer, valid_until) index_map \<Rightarrow>
   ((expecting_answer, valid_until) index_map \<times> out_messages) option" where
  "offer_loop xc cf clock info_hash sender [] answers = Some (answers, [])"
| "offer_loop xc cf clock info_hash sender ((offer, receiver) # es) answers =
     Option.bind (valid_until_new (clock 0) (wcf_max_offer_age cf)) (\<lambda>valid_until.
       map_option (\<lambda>(answers', ms). (answers', offer_message info_hash sender offer receiver # ms))
         (offer_loop xc cf (\<lambda>i. clock (Suc i)) info_hash sender es
           (im_insert (wx_answers xc)
             \<lparr>ea_from_peer_id = fst receiver, ea_regarding_offer_id = aro_offer_id offer\<rparr> valid_until answers)))"

definition handle_offers ::
  "'r ws_crates \<Rightarrow> ws_config \<Rightarrow> 'r \<Rightarrow> (nat \<Rightarrow> nat) \<Rightarrow> ws_info_hash \<Rightarrow> ws_peer_id \<Rightarrow>
   announce_request_offer list \<Rightarrow> ws_torrent_data \<Rightarrow> (ws_torrent_data \<times> out_messages \<times> 'r) option" where
  "handle_offers xc cf r clock info_hash sender offers td =
     (let max_num_peers_to_take = min (length offers) (wcf_max_offers cf) in
      Option.bind
        (ws_extract_response_peers (wx_gen xc) r (wt_peers td) max_num_peers_to_take sender
          (\<lambda>peer_id peer. (peer_id, wp_connection_id peer, wp_consumer_id peer)))
        (\<lambda>(offer_receivers, r').
          case map_of (wt_peers td) sender of
            Some peer \<Rightarrow>
              map_option (\<lambda>(answers, ms).
                  (td\<lparr>wt_peers := im_modify sender (\<lambda>p. p\<lparr>wp_expecting_answers := answers\<rparr>) (wt_peers td)\<rparr>,
                   ms, r'))
                (offer_loop xc cf clock info_hash sender (zip offers offer_receivers)
                  (wp_expecting_answers peer))
          | None \<Rightarrow> Some (td, [], r')))"

definition answer_message ::
  "ws_info_hash \<Rightarrow> ws_peer_id \<Rightarrow> offer_id \<Rightarrow> rtc_answer \<Rightarrow> ws_peer \<Rightarrow> out_message_meta \<times> ws_out_message" where
  "answer_message info_hash peer_id offer answer answer_receiver =
     (\<lparr>mo_out_message_consumer_id = wp_consumer_id answer_receiver,
       mo_connection_id = wp_connection_id answer_receiver, mo_pending_scrape_id = None\<rparr>,
      WsAnswer \<lparr>aom_action = WsAnnounceAction, aom_peer_id = peer_id, aom_info_hash = info_hash,
        aom_answer = answer, aom_offer_id = offer\<rparr>)"

definition handle_answer ::
  "'r ws_crates \<Rightarrow> in_message_meta \<Rightarrow> ws_info_hash \<Rightarrow> ws_peer_id \<Rightarrow> ws_peer_id \<Rightarrow> offer_id \<Rightarrow> rtc_answer \<Rightarrow>
   ws_torrent_data \<Rightarrow> ws_torrent_data \<times> (out_message_meta \<times> ws_out_message) option" where
  "handle_answer xc meta info_hash peer_id answer_receiver_id offer answer td =
     (case map_of (wt_peers td) answer_receiver_id of
        Some answer_receiver \<Rightarrow>
          (let expecting = \<lparr>ea_from_peer_id = peer_id, ea_regarding_offer_id = offer\<rparr>;
               removed = map_of (wp_expecting_answers answer_receiver) expecting;
               td' = td\<lparr>wt_peers := im_modify answer_receiver_id
                 (\<lambda>p. p\<lparr>wp_expecting_answers := im_swap_remove (wx_answers xc) expecting (wp_expecting_answers p)\<rparr>)
                 (wt_peers td)\<rparr>
           in (td',
               Some (if removed \<noteq> None then answer_message info_hash peer_id offer answer answer_receiver
                else
                  (out_meta_of meta,
                   WsError \<lparr>wer_failure_reason = str ''Could not find the offer corresponding to your answer. It may have expired.'',
                     wer_action = Some ErrorAnnounce, wer_info_hash = Some info_hash\<rparr>))))
      | None \<Rightarrow> (td, None))"

subsection \<open>Torrents\<close>

definition ws_entry_or_default ::
  "'r ws_crates \<Rightarrow> ws_info_hash \<Rightarrow> ws_torrent_map \<Rightarrow> ws_torrent_map" where
  "ws_entry_or_default xc h tm =
     (if map_of tm h = None then im_insert (wx_torrents xc) h ws_torrent_data_default tm else tm)"

text \<open>The offers and the answer of an announce, and the announce behind the ownership check.\<close>

definition pass_offers ::
  "'r ws_crates \<Rightarrow> ws_config \<Rightarrow> 'r \<Rightarrow> (nat \<Rightarrow> nat) \<Rightarrow> ws_announce_request \<Rightarrow> ws_torrent_data \<Rightarrow>
   (ws_torrent_data \<times> out_messages \<times> 'r) option" where
  "pass_offers xc cf r clock request td =
     (case wa_offers request of
        Some offers \<Rightarrow> handle_offers xc cf r clock (wa_info_hash request) (wa_peer_id request) offers td
      | None \<Rightarrow> Some (td, [], r))"

definition pass_answer ::
  "'r ws_crates \<Rightarrow> in_message_meta \<Rightarrow> ws_announce_request \<Rightarrow> ws_torrent_data \<Rightarrow>
   ws_torrent_data \<times> out_messages" where
  "pass_answer xc meta request td =
     (case (wa_answer request, wa_answer_to_peer_id request, wa_answer_offer_id request) of
        (Some answer, Some answer_receiver_id, Some offer) \<Rightarrow>
          (let (td', opt_out_message) = handle_answer xc meta (wa_info_hash request)
                 (wa_peer_id request) answer_receiver_id offer answer td
           in (td', case opt_out_message of Some m \<Rightarrow> [m] | None \<Rightarrow> []))
      | _ \<Rightarrow> (td, []))"

definition announce_torrent ::
  "'r ws_crates \<Rightarrow> ws_config \<Rightarrow> 'r \<Rightarrow> (nat \<Rightarrow> nat) \<Rightarrow> in_message_meta \<Rightarrow> ws_announce_request \<Rightarrow>
   ws_torrent_data \<Rightarrow> (ws_torrent_data \<times> out_messages \<times> 'r) option" where
  "announce_torrent xc cf r clock meta request td =
     Option.bind (insert_or_update_peer xc cf (clock 0) meta request td) (\<lambda>(peer_status, td1).
     map_option (\<lambda>(td', ms, r').
         (td', ms @ [(out_meta_of meta, WsAnnounceRes \<lparr>wan_action = WsAnnounceAction,
             wan_info_hash = wa_info_hash request,
             wan_complete = wt_num_seeders td', wan_incomplete = wt_num_leechers td',
             wan_announce_interval = wcf_peer_announce_interval cf\<rparr>)], r'))
       (if peer_status \<noteq> WsPeerStopped then
          map_option (\<lambda>(td2, offer_messages, r').
              let (td3, answer_messages) = pass_answer xc meta request td2
              in (td3, offer_messages @ answer_messages, r'))
            (pass_offers xc cf r (\<lambda>i. clock (Suc i)) request td1)
        else Some (td1, [], r)))"

definition foreign_peer_id :: "in_message_meta \<Rightarrow> ws_announce_request \<Rightarrow> ws_torrent_data \<Rightarrow> bool" where
  "foreign_peer_id meta request td =
     (case map_of (wt_peers td) (wa_peer_id request) of
        Some previous_peer \<Rightarrow> mi_connection_id meta \<noteq> wp_connection_id previous_peer
      | None \<Rightarrow> False)"

definition ws_announce_map ::
  "'r ws_crates \<Rightarrow> ws_config \<Rightarrow> 'r \<Rightarrow> (nat \<Rightarrow> nat) \<Rightarrow> in_message_meta \<Rightarrow> ws_announce_request \<Rightarrow>
   ws_torrent_map \<Rightarrow> (ws_torrent_map \<times> out_messages \<times> 'r) option" where
  "ws_announce_map xc cf r clock meta request tm =
     (let tm1 = ws_entry_or_default xc (wa_info_hash request) tm;
          td = the (map_of tm1 (wa_info_hash request))
      in if foreign_peer_id meta request td then Some (tm1, [], r)
         else map_option (\<lambda>(td', ms, r'). (im_modify (wa_info_hash request) (\<lambda>_. td') tm1, ms, r'))
                (announce_torrent xc cf r clock meta request td))"

definition ws_scrape_statistics_of :: "ws_torrent_data \<Rightarrow> ws_scrape_statistics" where
  "ws_scrape_statistics_of td =
     \<lparr>wst_complete = wt_num_seeders td, wst_incomplete = wt_num_leechers td, wst_downloaded = 0\<rparr>"

definition ws_scrape_map ::
  "ws_config \<Rightarrow> in_message_meta \<Rightarrow> ws_scrape_request \<Rightarrow> ws_torrent_map \<Rightarrow> out_messages" where
  "ws_scrape_map cf meta request tm =
     (case wsr_info_hashes request of
        None \<Rightarrow> []
      | Some info_hashes \<Rightarrow>
          (let hs = as_vec info_hashes;
               num_to_take = min (length hs) (wcf_max_scrape_torrents cf);
               files = fold (\<lambda>h files.
                   case map_of tm h of
                     Some td \<Rightarrow> AList.update h (ws_scrape_statistics_of td) files
                   | None \<Rightarrow> files) (take num_to_take hs) []
           in [(out_meta_of meta, WsScrapeRes \<lparr>wss_action = WsScrapeAction, wss_files = files\<rparr>)]))"

definition torrent_connection_closed ::
  "'r ws_crates \<Rightarrow> ws_peer_id \<Rightarrow> ws_torrent_data \<Rightarrow> ws_torrent_data" where
  "torrent_connection_closed xc peer_id td =
     (case map_of (wt_peers td) peer_id of
        Some peer \<Rightarrow>
          td\<lparr>wt_peers := im_swap_remove (wx_peers xc) peer_id (wt_peers td),
             wt_num_seeders := (if wp_seeder peer then wt_num_seeders td - 1 else wt_num_seeders td)\<rparr>
      | None \<Rightarrow> td)"

definition map_connection_closed ::
  "'r ws_crates \<Rightarrow> ws_info_hash \<Rightarrow> ws_peer_id \<Rightarrow> ws_torrent_map \<Rightarrow> ws_torrent_map" where
  "map_connection_closed xc info_hash peer_id tm =
     im_modify info_hash (torrent_connection_closed xc peer_id) tm"

subsection \<open>Cleaning\<close>

definition clean_answers :: "seconds_since_start \<Rightarrow> ws_peer \<Rightarrow> ws_peer" where
  "clean_answers now p =
     p\<lparr>wp_expecting_answers := filter (\<lambda>e. valid (snd e) now) (wp_expecting_answers p)\<rparr>"

text \<open>The retain loop over the peers and the seeder count it updates.\<close>

fun ws_retain_peers ::
  "seconds_since_start \<Rightarrow> (ws_peer_id, ws_peer) index_map \<Rightarrow> u64 \<Rightarrow>
   (ws_peer_id, ws_peer) index_map \<times> u64" where
  "ws_retain_peers now [] n = ([], n)"
| "ws_retain_peers now ((k, p) # es) n =
     (if valid (wp_valid_until p) now then
        (let (es', n') = ws_retain_peers now es n in ((k, clean_answers now p) # es', n'))
      else ws_retain_peers now es (if wp_seeder p then n - 1 else n))"

definition clean_and_get_num_peers ::
  "seconds_since_start \<Rightarrow> ws_torrent_data \<Rightarrow> ws_torrent_data \<times> nat" where
  "clean_and_get_num_peers now td =
     (let (es, n) = ws_retain_peers now (wt_peers td) (wt_num_seeders td)
      in (td\<lparr>wt_peers := es, wt_num_seeders := n\<rparr>, length es))"

fun ws_clean_map ::
  "ws_config \<Rightarrow> access_list \<Rightarrow> seconds_since_start \<Rightarrow> ws_torrent_map \<Rightarrow> ws_torrent_map" where
  "ws_clean_map cf al now [] = []"
| "ws_clean_map cf al now ((h, td) # es) =
     (if \<not> allows (wcf_access_list_mode cf) al h then ws_clean_map cf al now es
      else
        let (td', num_peers) = clean_and_get_num_peers now td
        in if 0 < num_peers then (h, td') # ws_clean_map cf al now es else ws_clean_map cf al now es)"

subsection \<open>Both address families\<close>

record ws_torrent_maps =
  wm_ipv4 :: ws_torrent_map
  wm_ipv6 :: ws_torrent_map

definition ws_maps_new :: ws_torrent_maps where
  "ws_maps_new = \<lparr>wm_ipv4 = [], wm_ipv6 = []\<rparr>"

fun by_version :: "ws_ip_version \<Rightarrow> ws_torrent_maps \<Rightarrow> ws_torrent_map" where
  "by_version WsV4 m = wm_ipv4 m"
| "by_version WsV6 m = wm_ipv6 m"

fun set_version :: "ws_ip_version \<Rightarrow> ws_torrent_map \<Rightarrow> ws_torrent_maps \<Rightarrow> ws_torrent_maps" where
  "set_version WsV4 tm m = m\<lparr>wm_ipv4 := tm\<rparr>"
| "set_version WsV6 tm m = m\<lparr>wm_ipv6 := tm\<rparr>"

definition ws_handle_announce ::
  "'r ws_crates \<Rightarrow> ws_config \<Rightarrow> 'r \<Rightarrow> (nat \<Rightarrow> nat) \<Rightarrow> in_message_meta \<Rightarrow> ws_announce_request \<Rightarrow>
   ws_torrent_maps \<Rightarrow> (ws_torrent_maps \<times> out_messages \<times> 'r) option" where
  "ws_handle_announce xc cf r clock meta request maps =
     map_option (\<lambda>(tm, ms, r'). (set_version (mi_ip_version meta) tm maps, ms, r'))
       (ws_announce_map xc cf r clock meta request (by_version (mi_ip_version meta) maps))"

definition ws_handle_scrape ::
  "ws_config \<Rightarrow> in_message_meta \<Rightarrow> ws_scrape_request \<Rightarrow> ws_torrent_maps \<Rightarrow> out_messages" where
  "ws_handle_scrape cf meta request maps =
     ws_scrape_map cf meta request (by_version (mi_ip_version meta) maps)"

definition ws_connection_closed ::
  "'r ws_crates \<Rightarrow> ws_info_hash \<Rightarrow> ws_peer_id \<Rightarrow> ws_ip_version \<Rightarrow> ws_torrent_maps \<Rightarrow> ws_torrent_maps" where
  "ws_connection_closed xc info_hash peer_id v maps =
     set_version v (map_connection_closed xc info_hash peer_id (by_version v maps)) maps"

definition ws_clean ::
  "ws_config \<Rightarrow> access_list \<Rightarrow> nat \<Rightarrow> ws_torrent_maps \<Rightarrow> ws_torrent_maps option" where
  "ws_clean cf al secs maps =
     map_option (\<lambda>now. \<lparr>wm_ipv4 = ws_clean_map cf al now (wm_ipv4 maps),
         wm_ipv6 = ws_clean_map cf al now (wm_ipv6 maps)\<rparr>)
       (seconds_elapsed secs)"

text \<open>\<open>workers/swarm/mod.rs\<close>: what a swarm worker does with the messages it receives.\<close>

definition swarm_in_message ::
  "'r ws_crates \<Rightarrow> ws_config \<Rightarrow> 'r \<Rightarrow> (nat \<Rightarrow> nat) \<Rightarrow> in_message_meta \<Rightarrow> ws_in_message \<Rightarrow>
   ws_torrent_maps \<Rightarrow> (ws_torrent_maps \<times> out_messages \<times> 'r) option" where
  "swarm_in_message xc cf r clock meta m maps =
     (case m of
        WsInAnnounce request \<Rightarrow> ws_handle_announce xc cf r clock meta request maps
      | WsInScrape request \<Rightarrow> Some (maps, ws_handle_scrape cf meta request maps, r))"

definition swarm_control ::
  "'r ws_crates \<Rightarrow> swarm_control_message \<Rightarrow> ws_torrent_maps \<Rightarrow> ws_torrent_maps" where
  "swarm_control xc m maps =
     fold (\<lambda>(info_hash, peer_id). ws_connection_closed xc info_hash peer_id (cc_ip_version m))
       (cc_announced_info_hashes m) maps"

end
