(* ===== verification/Conn_Guard.thy ===== *)
theory Conn_Guard
  imports Auto_Ban Request_Filter Client_Ban Access_List
begin

text \<open>
  What the connections of the HTTP and the WebTorrent tracker check before they serve a request: the
  lists as the caches have them at that moment, the shared tracker of automatic bans, and the verdict
  on a client's peer id and User-Agent, which both trackers reach in the same steps.
\<close>

record guard_config =
  gc_access_list_mode :: access_list_mode
  gc_ip_ban_mode :: ip_ban_mode
  gc_request_filter :: request_filter_config
  gc_client_ban :: client_ban_config

text \<open>The lists and clocks one request meets.\<close>

record guard_env =
  ge_access_list :: access_list
  ge_ip_ban_list :: ip_ban_list
  ge_client_ban_list :: client_ban_list
  ge_now :: instant
  ge_violation_now :: instant
  ge_env :: environment

record ban_state =
  bs_tracker :: "auto_ban_tracker option"
  bs_files :: file_system

definition tracker_bans :: "guard_env \<Rightarrow> ip_addr \<Rightarrow> ban_state \<Rightarrow> bool" where
  "tracker_bans ge ip bs =
     (case bs_tracker bs of
        Some t \<Rightarrow> is_auto_banned (at_inner t) ip (ge_now ge)
      | None \<Rightarrow> False)"

definition list_bans :: "guard_config \<Rightarrow> guard_env \<Rightarrow> ip_addr \<Rightarrow> bool" where
  "list_bans gc ge ip = (ip_ban_on (gc_ip_ban_mode gc) \<and> is_banned (ge_ip_ban_list ge) ip)"

definition report_violation ::
  "(ip_addr \<Rightarrow> bytes) \<Rightarrow> guard_env \<Rightarrow> ip_addr \<Rightarrow> auto_ban_reason \<Rightarrow> ban_state \<Rightarrow> ban_state" where
  "report_violation show_ip ge ip reason bs =
     (case bs_tracker bs of
        Some t \<Rightarrow>
          (let (t', fs', _) = record_violation show_ip (ge_violation_now ge) (ge_env ge) ip reason t (bs_files bs)
           in bs\<lparr>bs_tracker := Some t', bs_files := fs'\<rparr>)
      | None \<Rightarrow> bs)"

definition private_ip_blocked :: "guard_config \<Rightarrow> request_filter \<Rightarrow> ip_addr \<Rightarrow> bool" where
  "private_ip_blocked gc rf ip = (filter_private_ips (gc_request_filter gc) \<and> \<not> is_ip_allowed rf ip)"

text \<open>The ban list, the format of the peer id, the User-Agent: the first that objects.\<close>

definition client_violation ::
  "guard_config \<Rightarrow> guard_env \<Rightarrow> peer_id_word option \<Rightarrow> bytes option \<Rightarrow> auto_ban_reason option" where
  "client_violation gc ge peer_id_opt user_agent =
     (case peer_id_opt of
        None \<Rightarrow> None
      | Some peer_id \<Rightarrow>
          (let cb = gc_client_ban gc; l = ge_client_ban_list ge in
           if client_ban_on (cb_mode cb) \<and> client_is_banned l (from_utf8_lossy (word_be 20 peer_id))
           then Some ClientBanned
           else if \<not> check_off (cb_peer_id_strictness cb) \<and>
             check_peer_id_format l peer_id (cb_peer_id_strictness cb) = IdentityRejected
           then Some NonStandardPeerId
           else
             (case user_agent of
                None \<Rightarrow> None
              | Some ua \<Rightarrow>
                  if \<not> check_off (cb_peer_id_user_agent_mismatch cb) \<and>
                    check_peer_id_user_agent l peer_id ua (cb_peer_id_user_agent_mismatch cb) = IdentityRejected
                  then Some PeerIdUserAgentMismatch
                  else None)))"

lemma report_without_tracker [simp]: "bs_tracker bs = None \<Longrightarrow> report_violation show_ip ge ip reason bs = bs"
  by (simp add: report_violation_def)

lemma client_violation_none [simp]: "client_violation gc ge None ua = None"
  by (simp add: client_violation_def)

text \<open>Every check at its default, which is off, and no lists.\<close>

definition sample_guard_config :: guard_config where
  "sample_guard_config = \<lparr>gc_access_list_mode = Off, gc_ip_ban_mode = IpBanOff,
     gc_request_filter = request_filter_config_default, gc_client_ban = client_ban_config_default\<rparr>"

definition sample_guard_env :: guard_env where
  "sample_guard_env = \<lparr>ge_access_list = {}, ge_ip_ban_list = empty_ban_list,
     ge_client_ban_list = client_ban_list_default, ge_now = 0, ge_violation_now = 0,
     ge_env = \<lparr>en_now = 0, en_unix_now = 0, en_probe = ProbeOk, en_write = WriteOk, en_rename_ok = True\<rparr>\<rparr>"

end
