(* ===== verification/Trusted_Proxies.thy ===== *)
theory Trusted_Proxies
  imports Common_Lib List_File Ip_Ban
begin

text \<open>
  \<open>crates/common/src/trusted_proxies.rs\<close>: the list of reverse proxies and the client address of an
  \<open>X-Forwarded-For\<close> header. The crates \<open>ip_network\<close> and \<open>ip_network_table\<close> are arguments: the parser of
  networks, the networks an address is in, and the table's longest match, of which only its presence
  is used. The table is the list of the networks inserted.
\<close>

subsection \<open>Networks\<close>

record 'n network_crates =
  nc_parse :: "bytes \<Rightarrow> 'n option"
  nc_longest_match :: "'n list \<Rightarrow> ip_addr \<Rightarrow> 'n option"
  nc_parse_ip :: ip_parser
  nc_show_ip :: "ip_addr \<Rightarrow> bytes"

text \<open>The contract of the table: a match is an inserted network that contains the address.\<close>

locale network_table =
  fixes nc :: "'n network_crates" and in_net :: "'n \<Rightarrow> ip_addr \<Rightarrow> bool"
  assumes match_sound: "nc_longest_match nc ns ip = Some n \<Longrightarrow> n \<in> set ns \<and> in_net n ip"
    and match_complete: "n \<in> set ns \<Longrightarrow> in_net n ip \<Longrightarrow> nc_longest_match nc ns ip \<noteq> None"
begin

lemma matches_iff: "nc_longest_match nc ns ip \<noteq> None \<longleftrightarrow> (\<exists>n \<in> set ns. in_net n ip)"
  using match_sound match_complete by blast

end

record trusted_proxies_config =
  tp_enabled :: bool
  tp_path :: bytes

definition trusted_proxies_config_default :: trusted_proxies_config where
  "trusted_proxies_config_default = \<lparr>tp_enabled = False, tp_path = []\<rparr>"

type_synonym 'n trusted_proxies = "'n list"

definition trusted_proxies_default :: "'n trusted_proxies" where
  "trusted_proxies_default = []"

definition trusted_proxies_from_iter :: "'n list \<Rightarrow> 'n trusted_proxies" where
  "trusted_proxies_from_iter networks = fold (\<lambda>n table. n # removeAll n table) networks []"

definition is_trusted :: "'n network_crates \<Rightarrow> 'n trusted_proxies \<Rightarrow> ip_addr \<Rightarrow> bool" where
  "is_trusted nc table addr =
     (if table = [] then False
      else if nc_longest_match nc table addr \<noteq> None then True
      else canonical_ip addr \<noteq> addr \<and> nc_longest_match nc table (canonical_ip addr) \<noteq> None)"

subsection \<open>The forwarded address\<close>

text \<open>One step of the loop over the entries: the leftmost valid and the rightmost untrusted address.\<close>

definition forwarded_step ::
  "'n network_crates \<Rightarrow> 'n trusted_proxies \<Rightarrow> bytes \<Rightarrow> ip_addr option \<times> ip_addr option \<Rightarrow>
   ip_addr option \<times> ip_addr option" where
  "forwarded_step nc table entry st =
     (case (nc_parse_ip nc (trim entry), st) of
        (None, _) \<Rightarrow> st
      | (Some ip0, leftmost_valid, rightmost_untrusted) \<Rightarrow>
          (let ip = canonical_ip ip0
           in (case leftmost_valid of None \<Rightarrow> Some ip | Some l \<Rightarrow> Some l,
               if \<not> is_trusted nc table ip then Some ip else rightmost_untrusted)))"

definition last_forwarded_for_ip ::
  "'n network_crates \<Rightarrow> bytes \<Rightarrow> 'n trusted_proxies \<Rightarrow> ip_addr option" where
  "last_forwarded_for_ip nc header table =
     (let (leftmost_valid, rightmost_untrusted) =
        fold (forwarded_step nc table) (split_on 44 header) (None, None)
      in if rightmost_untrusted \<noteq> None then rightmost_untrusted else leftmost_valid)"

subsection \<open>Loading\<close>

datatype trusted_proxies_error = EmptyProxyPath | ProxyFile io_error | NoUsableEntries

definition parse_trusted_proxy_entry :: "'n network_crates \<Rightarrow> bytes \<Rightarrow> 'n option" where
  "parse_trusted_proxy_entry nc line =
     (case nc_parse nc line of
        Some network \<Rightarrow> Some network
      | None \<Rightarrow>
          Option.bind (nc_parse_ip nc line) (\<lambda>ip.
            let prefix = (if \<not> is_ipv6 ip then 32 else 128)
            in nc_parse nc (nc_show_ip nc ip @ str ''/'' @ dec_string prefix)))"

definition update_trusted_proxies ::
  "'n network_crates \<Rightarrow> (bytes \<Rightarrow> io_error + bytes) \<Rightarrow> trusted_proxies_config \<Rightarrow> 'n trusted_proxies \<Rightarrow>
   'n trusted_proxies \<times> (trusted_proxies_error + unit)" where
  "update_trusted_proxies nc files cf table =
     (if \<not> tp_enabled cf then (trusted_proxies_default, Inr ())
      else if tp_path cf = [] then (table, Inl EmptyProxyPath)
      else
        (case read_list_file (files (tp_path cf)) of
           Inl e \<Rightarrow> (table, Inl (ProxyFile e))
         | Inr es \<Rightarrow>
             let networks = List.map_filter (\<lambda>e. parse_trusted_proxy_entry nc (snd e)) es
             in if networks = [] then (table, Inl NoUsableEntries)
                else (trusted_proxies_from_iter networks, Inr ())))"

subsection \<open>Which address is reported\<close>

text \<open>The valid addresses of a header, in order.\<close>

definition header_ips :: "'n network_crates \<Rightarrow> bytes \<Rightarrow> ip_addr list" where
  "header_ips nc header =
     map canonical_ip (List.map_filter (\<lambda>e. nc_parse_ip nc (trim e)) (split_on 44 header))"

text \<open>The last untrusted address, else the first address.\<close>

definition client_address :: "'n network_crates \<Rightarrow> 'n trusted_proxies \<Rightarrow> ip_addr list \<Rightarrow> ip_addr option" where
  "client_address nc table ips =
     (let untrusted = filter (\<lambda>ip. \<not> is_trusted nc table ip) ips
      in if untrusted \<noteq> [] then Some (last untrusted) else if ips \<noteq> [] then Some (hd ips) else None)"

lemma header_ips_append: "header_ips nc (s @ 44 # t) = header_ips nc s @ header_ips nc t"
  by (simp add: header_ips_def split_on_append List.map_filter_def)

lemma fold_forwarded:
  "fold (forwarded_step nc table) es (l, u) =
     (let ips = map canonical_ip (List.map_filter (\<lambda>e. nc_parse_ip nc (trim e)) es);
          untrusted = filter (\<lambda>ip. \<not> is_trusted nc table ip) ips
      in (if l \<noteq> None then l else if ips \<noteq> [] then Some (hd ips) else None,
          if untrusted \<noteq> [] then Some (last untrusted) else u))"
  by (induction es arbitrary: l u)
    (auto simp: forwarded_step_def List.map_filter_simps Let_def split: option.splits)

lemma last_forwarded_for_ip_spec:
  "last_forwarded_for_ip nc header table = client_address nc table (header_ips nc header)"
  by (auto simp: last_forwarded_for_ip_def fold_forwarded header_ips_def client_address_def Let_def)

text \<open>What a client writes in front of an untrusted address of the proxies' own has no effect.\<close>

lemma client_address_append:
  "\<exists>ip \<in> set ips. \<not> is_trusted nc table ip \<Longrightarrow>
   client_address nc table (spoofed @ ips) = client_address nc table ips"
  by (auto simp: client_address_def Let_def filter_empty_conv)

lemma set_from_iter: "set (trusted_proxies_from_iter networks) = set networks"
proof -
  have "set (fold (\<lambda>n table. n # removeAll n table) ns t) = set ns \<union> set t" for ns and t :: "'a list"
    by (induction ns arbitrary: t) auto
  then show ?thesis by (simp add: trusted_proxies_from_iter_def)
qed

lemma set_map_filter: "set (List.map_filter f xs) = {y. \<exists>x \<in> set xs. f x = Some y}"
  by (force simp: List.map_filter_def)

context network_table
begin

lemma is_trusted_iff:
  "is_trusted nc table ip \<longleftrightarrow> (\<exists>n \<in> set table. in_net n ip \<or> in_net n (canonical_ip ip))"
  using matches_iff [of table ip] matches_iff [of table "canonical_ip ip"]
  by (cases "canonical_ip ip = ip") (auto simp: is_trusted_def)

lemma update_trusts:
  assumes "update_trusted_proxies nc files cf table = (table', Inr ())"
  shows "is_trusted nc table' ip \<longleftrightarrow> tp_enabled cf \<and>
    (\<exists>es e n. read_list_file (files (tp_path cf)) = Inr es \<and> e \<in> set es \<and>
       parse_trusted_proxy_entry nc (snd e) = Some n \<and> (in_net n ip \<or> in_net n (canonical_ip ip)))"
proof (cases "tp_enabled cf")
  case False
  then show ?thesis
    using assms by (auto simp: is_trusted_iff update_trusted_proxies_def trusted_proxies_default_def)
next
  case True
  then obtain es where es: "read_list_file (files (tp_path cf)) = Inr es"
      "table' = trusted_proxies_from_iter (List.map_filter (\<lambda>e. parse_trusted_proxy_entry nc (snd e)) es)"
    using assms by (auto simp: update_trusted_proxies_def Let_def split: if_splits sum.splits)
  have "set table' = {n. \<exists>e \<in> set es. parse_trusted_proxy_entry nc (snd e) = Some n}"
    by (simp add: es(2) set_from_iter set_map_filter)
  then show ?thesis using True es(1) unfolding is_trusted_iff by fastforce
qed

end

subsection \<open>A reference instance\<close>

text \<open>Networks as the ranges of the IP ban list, matched from the first; addresses from a table of names.\<close>

definition ref_networks :: "(bytes \<times> ip_range) list \<Rightarrow> (bytes \<times> ip_addr) list \<Rightarrow> ip_range network_crates" where
  "ref_networks nets ips = \<lparr>nc_parse = map_of nets,
     nc_longest_match = (\<lambda>ns ip. find (\<lambda>n. range_contains n ip) ns),
     nc_parse_ip = map_of ips, nc_show_ip = (\<lambda>ip. [])\<rparr>"

interpretation rn: network_table "ref_networks nets ips" range_contains
  by unfold_locales (auto simp: ref_networks_def find_Some_iff find_None_iff)

end
