(* ===== verification/Routing.thy ===== *)
theory Routing
  imports Prelude
begin

text \<open>
  How the connections of the HTTP and the WebTorrent tracker spread a scrape over the swarm workers
  and put the answers together: \<open>info_hashes_by_worker\<close> of
  \<open>crates/http/src/workers/socket/connection.rs\<close> and \<open>crates/ws/src/workers/socket/connection.rs\<close>.
  A \<open>BTreeMap\<close> is its list of entries in the order of the keys.
\<close>

subsection \<open>Info hashes by worker\<close>

text \<open>\<open>entry(k).or_default().push(x)\<close>.\<close>

fun btree_push :: "nat \<Rightarrow> 'a \<Rightarrow> (nat \<times> 'a list) list \<Rightarrow> (nat \<times> 'a list) list" where
  "btree_push k x [] = [(k, [x])]"
| "btree_push k x ((j, xs) # m) =
     (if k < j then (k, [x]) # (j, xs) # m
      else if k = j then (j, xs @ [x]) # m
      else (j, xs) # btree_push k x m)"

definition by_worker :: "('a \<Rightarrow> nat) \<Rightarrow> 'a list \<Rightarrow> (nat \<times> 'a list) list" where
  "by_worker index xs = fold (\<lambda>x. btree_push (index x) x) xs []"

text \<open>\<open>stats.extend(files)\<close>, for entries with distinct keys.\<close>

definition extend_files :: "('k \<times> 'v) list \<Rightarrow> ('k \<times> 'v) list \<Rightarrow> ('k \<times> 'v) list" where
  "extend_files stats files = fold (\<lambda>(k, v). AList.update k v) files stats"

subsection \<open>What each worker gets\<close>

lemma btree_push_keys: "fst ` set (btree_push k x m) = insert k (fst ` set m)"
  by (induction k x m rule: btree_push.induct) auto

lemma btree_push_sorted:
  "sorted_wrt (<) (map fst m) \<Longrightarrow> sorted_wrt (<) (map fst (btree_push k x m))"
proof (induction k x m rule: btree_push.induct)
  case (2 k x j xs m)
  then show ?case using btree_push_keys [of k x m] by auto
qed simp

lemma btree_push_map:
  "sorted_wrt (<) (map fst m) \<Longrightarrow>
   map_of (btree_push k x m) = (map_of m)(k \<mapsto> (case map_of m k of None \<Rightarrow> [] | Some xs \<Rightarrow> xs) @ [x])"
proof (induction k x m rule: btree_push.induct)
  case (2 k x j xs m)
  have "map_of m k = None" if "k < j"
    using 2(2) that by (fastforce simp: map_of_eq_None_iff)
  then show ?case using 2 by (auto simp: fun_eq_iff)
qed (simp add: fun_eq_iff)

lemma by_worker_snoc: "by_worker index (xs @ [x]) = btree_push (index x) x (by_worker index xs)"
  by (simp add: by_worker_def)

lemma by_worker_sorted: "sorted_wrt (<) (map fst (by_worker index xs))"
  by (induction xs rule: rev_induct) (simp_all add: by_worker_def btree_push_sorted)

lemma by_worker_distinct: "distinct (map fst (by_worker index xs))"
  using by_worker_sorted strict_sorted_iff by blast

lemma map_of_by_worker:
  "map_of (by_worker index xs) k =
     (let ys = filter (\<lambda>x. index x = k) xs in if ys = [] then None else Some ys)"
proof (induction xs arbitrary: k rule: rev_induct)
  case (snoc x xs)
  then show ?case
    unfolding by_worker_snoc btree_push_map [OF by_worker_sorted] by (auto simp: Let_def)
qed (simp add: by_worker_def)

lemma by_worker_entries:
  "(k, ys) \<in> set (by_worker index xs) \<longleftrightarrow> ys = filter (\<lambda>x. index x = k) xs \<and> ys \<noteq> []"
  unfolding map_of_eq_Some_iff [OF by_worker_distinct, symmetric] map_of_by_worker
  by (auto simp: Let_def)

lemma by_worker_empty: "by_worker index xs = [] \<longleftrightarrow> xs = []"
proof
  assume "by_worker index xs = []"
  then have "filter (\<lambda>x. index x = index (hd xs)) xs = []"
    using map_of_by_worker [of index xs "index (hd xs)"] by (simp add: Let_def split: if_splits)
  then show "xs = []" by (cases xs) simp_all
qed (simp add: by_worker_def)

subsection \<open>Putting answers together\<close>

lemma map_of_extend: "distinct (map fst files) \<Longrightarrow> map_of (extend_files stats files) = map_of stats ++ map_of files"
proof (induction files arbitrary: stats)
  case (Cons e files)
  then have "fst e \<notin> dom (map_of files)" by (simp add: dom_map_of_conv_image_fst)
  then show ?case
    using Cons by (cases e) (auto simp: extend_files_def update_conv' fun_eq_iff map_add_def split: option.splits)
qed (simp add: extend_files_def)

text \<open>
  The union of answers that agree with one table of answers, in whatever order they come, is the part
  of the table they cover. What is asked of the merge is that a later answer wins.
\<close>

locale answer_merge =
  fixes ext :: "('k \<times> 'v) list \<Rightarrow> ('k \<times> 'v) list \<Rightarrow> ('k \<times> 'v) list"
    and inv :: "('k \<times> 'v) list \<Rightarrow> bool"
  assumes ext_inv: "inv stats \<Longrightarrow> inv (ext stats files)"
    and ext_map: "inv stats \<Longrightarrow> distinct (map fst files) \<Longrightarrow>
      map_of (ext stats files) = map_of stats ++ map_of files"
begin

lemma fold_inv: "inv stats \<Longrightarrow> inv (fold (\<lambda>fs stats. ext stats fs) rs stats)"
  by (induction rs arbitrary: stats) (simp_all add: ext_inv)

lemma fold_ext:
  assumes "\<forall>fs \<in> set rs. distinct (map fst fs) \<and> map_of fs \<subseteq>\<^sub>m look" and "inv stats"
  shows "map_of (fold (\<lambda>fs stats. ext stats fs) rs stats) h =
    (if \<exists>fs \<in> set rs. h \<in> dom (map_of fs) then look h else map_of stats h)"
  using assms
proof (induction rs arbitrary: stats)
  case (Cons fs rs)
  then have d: "distinct (map fst fs)" and l: "map_of fs \<subseteq>\<^sub>m look" and i: "inv stats" by simp_all
  have m: "map_of (ext stats fs) h = (if h \<in> dom (map_of fs) then look h else map_of stats h)"
  proof (cases "map_of fs h")
    case None
    then show ?thesis by (simp add: ext_map [OF i d] map_add_def domIff)
  next
    case (Some v)
    then have "look h = Some v" using l by (metis domI map_le_def)
    then show ?thesis using Some by (simp add: ext_map [OF i d] map_add_def domIff)
  qed
  have "map_of (fold (\<lambda>fs stats. ext stats fs) rs (ext stats fs)) h =
      (if \<exists>fs \<in> set rs. h \<in> dom (map_of fs) then look h else map_of (ext stats fs) h)"
    using Cons.prems by (intro Cons.IH ext_inv) simp_all
  then show ?case unfolding fold_Cons comp_apply m by simp
qed simp

end

interpretation unordered: answer_merge extend_files "\<lambda>_. True"
  by unfold_locales (simp_all add: map_of_extend)

lemmas fold_extend = unordered.fold_ext [OF _ TrueI]

end
