(* ===== verification/Ws_Connection.thy ===== *)
theory Ws_Connection
  imports Ws_Swarm Conn_Guard Trusted_Proxies Routing
begin

text \<open>
  \<open>crates/ws/src/workers/socket/connection.rs\<close> and \<open>mod.rs\<close>: one WebSocket connection of the
  WebTorrent tracker, with its handshake, the reader that passes requests to the swarm workers, the
  writer that puts scrape answers together, and the cleanup when it closes; and what the socket worker
  does with its connections. The channels are inputs and outputs: what is read is given, what is sent
  is listed in order, and whether a send to the peer succeeds is given with it. A channel to a swarm
  worker is taken to be open. \<open>tungstenite\<close>, TLS and the JSON of serde are arguments or inputs; \<open>slab\<close> and
  the header map of \<open>http\<close> are arguments with a contract. Metrics and the health check are not modelled.
\<close>

subsection \<open>\<open>slab\<close>\<close>

record ('s, 'v) slab_ops =
  sb_new :: "'s"
  sb_insert :: "'v \<Rightarrow> 's \<Rightarrow> nat \<times> 's"
  sb_get :: "'s \<Rightarrow> nat \<Rightarrow> 'v option"
  sb_set :: "nat \<Rightarrow> 'v \<Rightarrow> 's \<Rightarrow> 's"
  sb_remove :: "nat \<Rightarrow> 's \<Rightarrow> 's"

text \<open>An insertion takes a vacant key; the other operations are those of a map.\<close>

locale slab =
  fixes sb :: "('s, 'v) slab_ops"
  assumes get_new: "sb_get sb (sb_new sb) = Map.empty"
    and insert_vacant: "sb_insert sb v s = (k, s') \<Longrightarrow> sb_get sb s k = None \<and> sb_get sb s' = (sb_get sb s)(k \<mapsto> v)"
    and get_set: "sb_get sb s k \<noteq> None \<Longrightarrow> sb_get sb (sb_set sb k v s) = (sb_get sb s)(k \<mapsto> v)"
    and get_remove: "sb_get sb s k \<noteq> None \<Longrightarrow> sb_get sb (sb_remove sb k s) = (sb_get sb s)(k := None)"

text \<open>The instance that takes the least vacant place of a vector.\<close>

definition ref_slab_insert :: "'v \<Rightarrow> 'v option list \<Rightarrow> nat \<times> 'v option list" where
  "ref_slab_insert v s =
     (let k = length (takeWhile (\<lambda>e. e \<noteq> None) s)
      in (k, if k < length s then s[k := Some v] else s @ [Some v]))"

definition ref_slab :: "('v option list, 'v) slab_ops" where
  "ref_slab = \<lparr>sb_new = [], sb_insert = ref_slab_insert,
     sb_get = (\<lambda>s k. if k < length s then s ! k else None),
     sb_set = (\<lambda>k v s. s[k := Some v]), sb_remove = (\<lambda>k s. s[k := None])\<rparr>"

interpretation rs: slab ref_slab
proof
  fix v :: 'a and s s' k
  assume i: "sb_insert ref_slab v s = (k, s')"
  have "k \<le> length s" "k < length s \<Longrightarrow> s ! k = None"
    using i length_takeWhile_le nth_length_takeWhile [of "\<lambda>e. e \<noteq> None" s]
    by (auto simp: ref_slab_def ref_slab_insert_def Let_def)
  then show "sb_get ref_slab s k = None \<and> sb_get ref_slab s' = (sb_get ref_slab s)(k \<mapsto> v)"
    using i by (auto simp: ref_slab_def ref_slab_insert_def Let_def fun_eq_iff nth_append split: if_splits)
qed (auto simp: ref_slab_def fun_eq_iff split: if_splits)

subsection \<open>Headers\<close>

text \<open>
  The header lines of the handshake in their order, a name and a value each. \<open>http\<close>: \<open>get\<close> finds the
  value of the first line of a name, whatever its case; \<open>to_str\<close> reads a value of visible ASCII
  characters, spaces and tabs, and no other.
\<close>

type_synonym header_lines = "(bytes \<times> bytes) list"

definition visible_ascii :: "u8 \<Rightarrow> bool" where
  "visible_ascii b = (32 \<le> b \<and> b < 127 \<or> b = 9)"

locale header_map =
  fixes header_get :: "header_lines \<Rightarrow> bytes \<Rightarrow> bytes option" and to_str :: "bytes \<Rightarrow> bytes option"
  assumes get_first: "header_get headers name = map_option snd (find (\<lambda>line. eq_ignore_case (fst line) name) headers)"
    and to_str_visible: "to_str value = (if list_all visible_ascii value then Some value else None)"
begin

lemma get_append:
  "header_get (before @ after) name =
     (case header_get before name of None \<Rightarrow> header_get after name | Some value \<Rightarrow> Some value)"
  by (induction before) (simp_all add: get_first)

lemma get_none: "header_get headers name = None \<longleftrightarrow> (\<forall>line \<in> set headers. \<not> eq_ignore_case (fst line) name)"
  by (auto simp: get_first find_None_iff)

lemma get_line: "header_get (line # headers) name =
    (if eq_ignore_case (fst line) name then Some (snd line) else header_get headers name)"
  by (simp add: get_first)

end

definition ref_header_get :: "header_lines \<Rightarrow> bytes \<Rightarrow> bytes option" where
  "ref_header_get headers name = map_option snd (find (\<lambda>line. eq_ignore_case (fst line) name) headers)"

definition ref_to_str :: "bytes \<Rightarrow> bytes option" where
  "ref_to_str value = (if list_all visible_ascii value then Some value else None)"

interpretation ref_headers: header_map ref_header_get ref_to_str
  by unfold_locales (simp_all add: ref_header_get_def ref_to_str_def)

subsection \<open>Settings and state\<close>

record ws_socket_config =
  wsc_swarm :: ws_config
  wsc_guard :: guard_config
  wsc_trusted_proxies :: trusted_proxies_config
  wsc_max_connections_per_worker :: nat
  wsc_max_connection_idle :: u32
  wsc_close_after_tls_update_grace_period :: u32

record pending_scrape_response =
  ps_pending_worker_out_messages :: u64
  ps_stats :: "(ws_info_hash \<times> ws_scrape_statistics) list"

record ('s, 'n) ws_conn_crates =
  wcx_slab :: "('s, pending_scrape_response) slab_ops"
  wcx_networks :: "'n network_crates"
  wcx_show_ip :: "ip_addr \<Rightarrow> bytes"
  wcx_from_ws_message :: "bytes \<Rightarrow> ws_in_message option"
  wcx_header_get :: "header_lines \<Rightarrow> bytes \<Rightarrow> bytes option"
  wcx_to_str :: "bytes \<Rightarrow> bytes option"

text \<open>What does not change while a connection lives.\<close>

record ws_connection_info =
  ci_out_message_consumer_id :: consumer_id
  ci_connection_id :: ws_connection_id
  ci_ip_version :: ws_ip_version
  ci_peer_ip :: ip_addr
  ci_user_agent :: "bytes option"

record 's ws_connection =
  cn_announced_info_hashes :: "(ws_info_hash \<times> ws_peer_id) list"
  cn_pending_scrapes :: "'s"
  cn_valid_until :: valid_until
  cn_bans :: ban_state

datatype ws_connection_error =
    StreamEnded | StreamBroken | PeerIdChanged | TooManyPendingScrapes | MissingUserAgentClosed
  | CrawlerClosed | IpBannedHandshake | NoPendingScrapeId | PendingScrapeNotFound | SendTimedOut

text \<open>What the reader sends: to a swarm worker, or to its own connection's writer.\<close>

datatype reader_send =
    ToSwarm nat in_message_meta ws_in_message
  | ToWriter out_message_meta ws_out_message

definition calculate_in_message_consumer_index :: "ws_config \<Rightarrow> ws_info_hash \<Rightarrow> nat" where
  "calculate_in_message_consumer_index cf info_hash =
     unat (hd (word_be 20 info_hash)) mod max 1 (wcf_swarm_workers cf)"

definition make_connection_meta :: "ws_connection_info \<Rightarrow> pending_scrape_id option \<Rightarrow> in_message_meta" where
  "make_connection_meta ci pending_scrape_id =
     \<lparr>mi_out_message_consumer_id = ci_out_message_consumer_id ci, mi_connection_id = ci_connection_id ci,
      mi_ip_version = ci_ip_version ci, mi_pending_scrape_id = pending_scrape_id\<rparr>"

definition send_error_response ::
  "ws_connection_info \<Rightarrow> bytes \<Rightarrow> error_response_action option \<Rightarrow> ws_info_hash option \<Rightarrow> reader_send" where
  "send_error_response ci failure_reason action info_hash =
     ToWriter (out_meta_of (make_connection_meta ci None))
       (WsError \<lparr>wer_failure_reason = failure_reason, wer_action = action, wer_info_hash = info_hash\<rparr>)"

subsection \<open>Handshake\<close>

definition resolve_handshake_peer_ip ::
  "'n network_crates \<Rightarrow> trusted_proxies_config \<Rightarrow> 'n trusted_proxies \<Rightarrow> ip_addr \<Rightarrow> bytes option \<Rightarrow> ip_addr"
  where "resolve_handshake_peer_ip nc cf trusted socket_peer_ip0 opt_xff =
     (let socket_peer_ip = canonical_ip socket_peer_ip0 in
      if tp_enabled cf \<and> is_trusted nc trusted socket_peer_ip then
        (case opt_xff of
           None \<Rightarrow> socket_peer_ip
         | Some xff \<Rightarrow>
             (case last_forwarded_for_ip nc xff trusted of
                Some client_ip \<Rightarrow> canonical_ip client_ip
              | None \<Rightarrow> socket_peer_ip))
      else socket_peer_ip)"

text \<open>A header of the request: the first line of its name, if that is text.\<close>

definition header_text :: "('s, 'n) ws_conn_crates \<Rightarrow> header_lines \<Rightarrow> bytes \<Rightarrow> bytes option" where
  "header_text x headers name = Option.bind (wcx_header_get x headers name) (wcx_to_str x)"

definition handshake_peer_ip ::
  "('s, 'n) ws_conn_crates \<Rightarrow> ws_socket_config \<Rightarrow> 'n trusted_proxies \<Rightarrow> ip_addr \<Rightarrow> header_lines \<Rightarrow> ip_addr" where
  "handshake_peer_ip x cf trusted socket_peer_ip headers =
     (let opt_xff = header_text x headers (str ''x-forwarded-for'')
      in resolve_handshake_peer_ip (wcx_networks x) (wsc_trusted_proxies cf) trusted socket_peer_ip opt_xff)"

text \<open>
  The callback refuses listed and automatically banned addresses; then the User-Agent is checked. The
  two readings of the shared tracker meet the same lists.
\<close>

definition handshake ::
  "('s, 'n) ws_conn_crates \<Rightarrow> ws_socket_config \<Rightarrow> guard_env \<Rightarrow> 'n trusted_proxies \<Rightarrow> ip_addr \<Rightarrow>
   header_lines \<Rightarrow> ban_state \<Rightarrow> (ws_connection_error + ip_addr) \<times> ban_state" where
  "handshake x cf ge trusted socket_peer_ip headers bs =
     (let opt_user_agent = header_text x headers (str ''user-agent'');
          peer_ip = handshake_peer_ip x cf trusted socket_peer_ip headers;
          filter_config = gc_request_filter (wsc_guard cf)
      in if list_bans (wsc_guard cf) ge peer_ip then (Inl IpBannedHandshake, bs)
         else if tracker_bans ge peer_ip bs then (Inl IpBannedHandshake, bs)
         else if filter_missing_user_agent filter_config \<and> opt_user_agent = None then
           (Inl MissingUserAgentClosed, report_violation (wcx_show_ip x) ge peer_ip MissingUserAgent bs)
         else if filter_crawlers filter_config \<and> opt_user_agent \<noteq> None \<and>
           is_crawler request_filter_default opt_user_agent then
           (Inl CrawlerClosed, report_violation (wcx_show_ip x) ge peer_ip Crawler bs)
         else (Inr peer_ip, bs))"

subsection \<open>The reader\<close>

definition ws_run_security_checks ::
  "('s, 'n) ws_conn_crates \<Rightarrow> ws_socket_config \<Rightarrow> guard_env \<Rightarrow> ws_connection_info \<Rightarrow> ws_peer_id option \<Rightarrow>
   ban_state \<Rightarrow> bool \<times> ban_state" where
  "ws_run_security_checks x cf ge ci peer_id_opt bs =
     (let gc = wsc_guard cf; peer_ip = ci_peer_ip ci in
      if list_bans gc ge peer_ip then (True, bs)
      else if tracker_bans ge peer_ip bs then (True, bs)
      else if private_ip_blocked gc request_filter_default peer_ip then
        (True, report_violation (wcx_show_ip x) ge peer_ip PrivateIp bs)
      else
        (case client_violation gc ge peer_id_opt (ci_user_agent ci) of
           Some reason \<Rightarrow> (True, report_violation (wcx_show_ip x) ge peer_ip reason bs)
         | None \<Rightarrow> (False, bs)))"

text \<open>
  A handler returns the connection, what it sends in order, and the error that ends the connection.
\<close>

type_synonym 's reader_result = "'s ws_connection \<times> reader_send list \<times> ws_connection_error option"

definition reader_announce ::
  "('s, 'n) ws_conn_crates \<Rightarrow> ws_socket_config \<Rightarrow> guard_env \<Rightarrow> ws_connection_info \<Rightarrow> ws_announce_request \<Rightarrow>
   's ws_connection \<Rightarrow> 's reader_result" where
  "reader_announce x cf ge ci request c =
     (let (blocked, bs) = ws_run_security_checks x cf ge ci (Some (wa_peer_id request)) (cn_bans c);
          c1 = c\<lparr>cn_bans := bs\<rparr>;
          info_hash = wa_info_hash request
      in if blocked then
           (c1, [send_error_response ci (str ''Access denied'') (Some ErrorAnnounce) (Some info_hash)], None)
         else if allows (gc_access_list_mode (wsc_guard cf)) (ge_access_list ge) info_hash then
           (let announced = cn_announced_info_hashes c1;
                stored = (case map_of announced info_hash of
                   Some peer_id \<Rightarrow> if peer_id \<noteq> wa_peer_id request then None else Some announced
                 | None \<Rightarrow> Some (AList.update info_hash (wa_peer_id request) announced))
            in case stored of
                 None \<Rightarrow>
                   (c1, [send_error_response ci (str ''Only one peer id can be used per torrent'')
                          (Some ErrorAnnounce) (Some info_hash)], Some PeerIdChanged)
               | Some announced' \<Rightarrow>
                   (c1\<lparr>cn_announced_info_hashes :=
                         (if wa_event request = Some WsStopped then AList.delete info_hash announced'
                          else announced')\<rparr>,
                    [ToSwarm (calculate_in_message_consumer_index (wsc_swarm cf) info_hash)
                       (make_connection_meta ci None) (WsInAnnounce request)], None))
         else
           (c1, [send_error_response ci (str ''Info hash not allowed'') (Some ErrorAnnounce) (Some info_hash)],
            None))"

definition reader_scrape ::
  "('s, 'n) ws_conn_crates \<Rightarrow> ws_socket_config \<Rightarrow> guard_env \<Rightarrow> ws_connection_info \<Rightarrow> ws_scrape_request \<Rightarrow>
   's ws_connection \<Rightarrow> 's reader_result" where
  "reader_scrape x cf ge ci request c =
     (let (blocked, bs) = ws_run_security_checks x cf ge ci None (cn_bans c);
          c1 = c\<lparr>cn_bans := bs\<rparr>
      in if blocked then
           (c1, [send_error_response ci (str ''Access denied'') (Some ErrorScrape) None], None)
         else
           (case wsr_info_hashes request of
              None \<Rightarrow>
                (c1, [send_error_response ci (str ''Full scrapes are not allowed'') (Some ErrorScrape) None], None)
            | Some info_hashes \<Rightarrow>
                (let info_hashes_by_worker =
                       by_worker (calculate_in_message_consumer_index (wsc_swarm cf)) (as_vec info_hashes);
                     (key, slab) = sb_insert (wcx_slab x)
                       \<lparr>ps_pending_worker_out_messages = of_nat (length info_hashes_by_worker), ps_stats = []\<rparr>
                       (cn_pending_scrapes c1);
                     c2 = c1\<lparr>cn_pending_scrapes := slab\<rparr>
                 in if u8_max < key then (c2, [], Some TooManyPendingScrapes)
                    else
                      (c2, map (\<lambda>(consumer_index, hs).
                             ToSwarm consumer_index (make_connection_meta ci (Some (of_nat key)))
                               (WsInScrape \<lparr>wsr_action = WsScrapeAction, wsr_info_hashes = Some (Multiple hs)\<rparr>))
                           info_hashes_by_worker, None))))"

datatype ws_frame =
    FrameText bytes | FrameBinary bytes | FramePing | FramePong | FrameClose | FrameRaw

text \<open>One item of the stream: its end, an error, or a frame.\<close>

type_synonym stream_item = "(unit + ws_frame) option"

definition read_message ::
  "('s, 'n) ws_conn_crates \<Rightarrow> ws_socket_config \<Rightarrow> guard_env \<Rightarrow> ws_connection_info \<Rightarrow> bytes \<Rightarrow>
   's ws_connection \<Rightarrow> 's reader_result" where
  "read_message x cf ge ci message c =
     (case wcx_from_ws_message x message of
        Some (WsInAnnounce request) \<Rightarrow> reader_announce x cf ge ci request c
      | Some (WsInScrape request) \<Rightarrow> reader_scrape x cf ge ci request c
      | None \<Rightarrow> (c, [send_error_response ci (str ''Invalid request'') None None], None))"

text \<open>
  The loop over what the stream yields, each item with the lists and clocks of its moment; a result
  \<open>None\<close> for the error means the client closed, or the reader waits for more.
\<close>

fun run_in_message_loop ::
  "('s, 'n) ws_conn_crates \<Rightarrow> ws_socket_config \<Rightarrow> ws_connection_info \<Rightarrow> (guard_env \<times> stream_item) list \<Rightarrow>
   's ws_connection \<Rightarrow> 's reader_result" where
  "run_in_message_loop x cf ci [] c = (c, [], None)"
| "run_in_message_loop x cf ci ((ge, item) # items) c =
     (case item of
        None \<Rightarrow> (c, [], Some StreamEnded)
      | Some (Inl _) \<Rightarrow> (c, [], Some StreamBroken)
      | Some (Inr FrameClose) \<Rightarrow> (c, [], None)
      | Some (Inr frame) \<Rightarrow>
          (let (c', sends, err) =
             (case frame of
                FrameText t \<Rightarrow> read_message x cf ge ci t c
              | FrameBinary b \<Rightarrow> read_message x cf ge ci b c
              | _ \<Rightarrow> (c, [], None))
           in if err \<noteq> None then (c', sends, err)
              else
                let (c'', sends', err') = run_in_message_loop x cf ci items c'
                in (c'', sends @ sends', err')))"

subsection \<open>The writer\<close>

text \<open>\<open>sent_ok\<close>: whether the socket took the message in time; \<open>secs\<close> the uptime then. \<open>None\<close> is a panic.\<close>

definition send_out_message ::
  "ws_socket_config \<Rightarrow> bool \<Rightarrow> nat \<Rightarrow> ws_out_message \<Rightarrow> 's ws_connection \<Rightarrow>
   ('s ws_connection \<times> ws_out_message list \<times> ws_connection_error option) option" where
  "send_out_message cf sent_ok secs m c =
     (if \<not> sent_ok then Some (c, [], Some SendTimedOut)
      else
        (case m of
           WsAnnounceRes _ \<Rightarrow> map_option (\<lambda>v. (c\<lparr>cn_valid_until := v\<rparr>, [m], None))
             (valid_until_new secs (wsc_max_connection_idle cf))
         | WsScrapeRes _ \<Rightarrow> map_option (\<lambda>v. (c\<lparr>cn_valid_until := v\<rparr>, [m], None))
             (valid_until_new secs (wsc_max_connection_idle cf))
         | _ \<Rightarrow> Some (c, [m], None)))"

definition write_message ::
  "('s, 'n) ws_conn_crates \<Rightarrow> ws_socket_config \<Rightarrow> bool \<Rightarrow> nat \<Rightarrow> out_message_meta \<Rightarrow> ws_out_message \<Rightarrow>
   's ws_connection \<Rightarrow> ('s ws_connection \<times> ws_out_message list \<times> ws_connection_error option) option" where
  "write_message x cf sent_ok secs meta m c =
     (case m of
        WsScrapeRes out_message \<Rightarrow>
          (case mo_pending_scrape_id meta of
             None \<Rightarrow> Some (c, [], Some NoPendingScrapeId)
           | Some pending_scrape_id \<Rightarrow>
               (let key = unat pending_scrape_id; sb = wcx_slab x in
                case sb_get sb (cn_pending_scrapes c) key of
                  None \<Rightarrow> Some (c, [], Some PendingScrapeNotFound)
                | Some pending \<Rightarrow>
                    (let pending' = \<lparr>ps_pending_worker_out_messages = ps_pending_worker_out_messages pending - 1,
                           ps_stats = extend_files (ps_stats pending) (wss_files out_message)\<rparr>
                     in if ps_pending_worker_out_messages pending' = 0 then
                          send_out_message cf sent_ok secs
                            (WsScrapeRes \<lparr>wss_action = WsScrapeAction, wss_files = ps_stats pending'\<rparr>)
                            (c\<lparr>cn_pending_scrapes := sb_remove sb key (cn_pending_scrapes c)\<rparr>)
                        else
                          Some (c\<lparr>cn_pending_scrapes := sb_set sb key pending' (cn_pending_scrapes c)\<rparr>, [], None))))
      | _ \<Rightarrow> send_out_message cf sent_ok secs m c)"

text \<open>The messages the writer receives, each with the outcome and time of a send.\<close>

type_synonym writer_input = "bool \<times> nat \<times> out_message_meta \<times> ws_out_message"

fun run_out_message_loop ::
  "('s, 'n) ws_conn_crates \<Rightarrow> ws_socket_config \<Rightarrow> writer_input list \<Rightarrow> 's ws_connection \<Rightarrow>
   ('s ws_connection \<times> ws_out_message list \<times> ws_connection_error option) option" where
  "run_out_message_loop x cf [] c = Some (c, [], None)"
| "run_out_message_loop x cf ((sent_ok, secs, meta, m) # ms) c =
     Option.bind (write_message x cf sent_ok secs meta m c) (\<lambda>(c', out, err).
       if err \<noteq> None then Some (c', out, err)
       else map_option (\<lambda>(c'', out', err'). (c'', out @ out', err')) (run_out_message_loop x cf ms c'))"

subsection \<open>Closing\<close>

text \<open>The messages to the swarm workers, of which each worker gets at most one.\<close>

definition after_close ::
  "ws_socket_config \<Rightarrow> ws_connection_info \<Rightarrow> 's ws_connection \<Rightarrow> (nat \<times> swarm_control_message) list" where
  "after_close cf ci c =
     map (\<lambda>(consumer_index, announced).
         (consumer_index, \<lparr>cc_ip_version = ci_ip_version ci, cc_announced_info_hashes = announced\<rparr>))
       (by_worker (\<lambda>(info_hash, peer_id). calculate_in_message_consumer_index (wsc_swarm cf) info_hash)
         (cn_announced_info_hashes c))"

subsection \<open>The connections of a socket worker\<close>

text \<open>
  The channel to a connection's writer is its queue. The valid until of the handle is the one the writer
  moves on. A TLS configuration is the number of its certificate update: \<open>Arc::ptr_eq\<close> compares them.
\<close>

definition LOCAL_CHANNEL_SIZE :: nat where
  "LOCAL_CHANNEL_SIZE = 16"

record connection_handle =
  ch_out_messages :: out_messages
  ch_valid_until :: valid_until
  ch_opt_tls_config :: "nat option"
  ch_valid_until_after_tls_update :: "valid_until option"

type_synonym connection_handles = "(ws_connection_id \<times> connection_handle) list"

text \<open>
  An accepted stream: the family and address of the peer where a connection is started, under a fresh
  key. \<open>peer_addr\<close> is \<open>None\<close> where the operating system cannot tell it.
\<close>

definition accept_connection ::
  "ws_socket_config \<Rightarrow> nat \<Rightarrow> nat option \<Rightarrow> ws_connection_id \<Rightarrow> ip_addr option \<Rightarrow> connection_handles \<Rightarrow>
   ((ws_ip_version \<times> ip_addr) option \<times> connection_handles) option" where
  "accept_connection cf secs tls key peer_addr handles =
     (if 0 < wsc_max_connections_per_worker cf \<and> wsc_max_connections_per_worker cf \<le> length handles
      then Some (None, handles)
      else
        (case peer_addr of
           None \<Rightarrow> Some (None, handles)
         | Some addr \<Rightarrow>
             (let peer_ip = canonical_ip addr in
              map_option (\<lambda>valid_until.
                  (Some (canonical_from_ip peer_ip, peer_ip),
                   handles @ [(key, \<lparr>ch_out_messages = [], ch_valid_until = valid_until,
                     ch_opt_tls_config = tls, ch_valid_until_after_tls_update = None\<rparr>)]))
                (valid_until_new secs (wsc_max_connection_idle cf)))))"

text \<open>Whether a connection is kept, and its handle.\<close>

definition clean_handle ::
  "ws_socket_config \<Rightarrow> nat \<Rightarrow> seconds_since_start \<Rightarrow> nat option \<Rightarrow> connection_handle \<Rightarrow>
   (bool \<times> connection_handle) option" where
  "clean_handle cf secs now opt_current_tls_config h =
     map_option (\<lambda>(keep, h'). (keep \<and> valid (ch_valid_until h) now, h'))
       (case ch_valid_until_after_tls_update h of
          Some valid_until \<Rightarrow> Some (valid valid_until now, h)
        | None \<Rightarrow>
            (case (opt_current_tls_config, ch_opt_tls_config h) of
               (Some a, Some b) \<Rightarrow>
                 if a \<noteq> b then
                   map_option (\<lambda>v. (True, h\<lparr>ch_valid_until_after_tls_update := Some v\<rparr>))
                     (valid_until_new secs (wsc_close_after_tls_update_grace_period cf))
                 else Some (True, h)
             | _ \<Rightarrow> Some (True, h)))"

text \<open>The handles kept, and the connections told to close.\<close>

fun clean_handles ::
  "ws_socket_config \<Rightarrow> (nat \<Rightarrow> nat) \<Rightarrow> seconds_since_start \<Rightarrow> nat option \<Rightarrow> connection_handles \<Rightarrow>
   (connection_handles \<times> ws_connection_id list) option" where
  "clean_handles cf clock now tls [] = Some ([], [])"
| "clean_handles cf clock now tls ((key, h) # hs) =
     Option.bind (clean_handle cf (clock 0) now tls h) (\<lambda>(keep, h').
       map_option (\<lambda>(kept, closed). if keep then ((key, h') # kept, closed) else (kept, key # closed))
         (clean_handles cf (\<lambda>i. clock (Suc i)) now tls hs))"

definition clean_connections ::
  "ws_socket_config \<Rightarrow> (nat \<Rightarrow> nat) \<Rightarrow> nat option \<Rightarrow> connection_handles \<Rightarrow>
   (connection_handles \<times> ws_connection_id list) option" where
  "clean_connections cf clock tls handles =
     Option.bind (seconds_elapsed (clock 0)) (\<lambda>now. clean_handles cf (\<lambda>i. clock (Suc i)) now tls handles)"

text \<open>A message for a connection that is gone or whose queue is full is dropped.\<close>

definition receive_out_message ::
  "out_message_meta \<Rightarrow> ws_out_message \<Rightarrow> connection_handles \<Rightarrow> connection_handles" where
  "receive_out_message meta m handles =
     im_modify (mo_connection_id meta)
       (\<lambda>h. if length (ch_out_messages h) < LOCAL_CHANNEL_SIZE
          then h\<lparr>ch_out_messages := ch_out_messages h @ [(meta, m)]\<rparr> else h) handles"

end
