(* ===== verification/Ws_Swarm_Spec.thy ===== *)
theory Ws_Swarm_Spec
  imports Ws_Swarm
begin

text \<open>
  What the WebTorrent swarm promises: announces refine the update of a finite map of peers with exact
  counts, offers go to distinct other peers and are remembered, an answer is passed on at most once,
  and cleaning keeps the live peers. One property shows a flaw in the sampling of offer receivers.
\<close>

subsection \<open>The invariant\<close>

definition ws_peer_ok :: "ws_peer \<Rightarrow> bool" where
  "ws_peer_ok p = distinct (im_keys (wp_expecting_answers p))"

definition ws_td_ok :: "ws_torrent_data \<Rightarrow> bool" where
  "ws_td_ok td = (distinct (im_keys (wt_peers td)) \<and>
     wt_num_seeders td = of_nat (length (filter (\<lambda>e. wp_seeder (snd e)) (wt_peers td))) \<and>
     list_all (\<lambda>e. ws_peer_ok (snd e)) (wt_peers td))"

definition ws_tm_ok :: "ws_torrent_map \<Rightarrow> bool" where
  "ws_tm_ok tm = (distinct (im_keys tm) \<and> list_all (\<lambda>e. ws_td_ok (snd e)) tm)"

definition ws_maps_ok :: "ws_torrent_maps \<Rightarrow> bool" where
  "ws_maps_ok maps = (ws_tm_ok (wm_ipv4 maps) \<and> ws_tm_ok (wm_ipv6 maps))"

definition clock_ok :: "(nat \<Rightarrow> nat) \<Rightarrow> bool" where
  "clock_ok clock = (\<forall>i. clock i \<le> u32_max)"

text \<open>A torrent seen from outside: its peers as a map, without the answers they expect.\<close>

abbreviation ws_peers :: "ws_torrent_data \<Rightarrow> ws_peer_id \<rightharpoonup> ws_peer" where
  "ws_peers td \<equiv> map_of (wt_peers td)"

definition peer_core :: "ws_peer \<Rightarrow> ws_peer" where
  "peer_core p = p\<lparr>wp_expecting_answers := []\<rparr>"

definition core_map :: "(ws_peer_id \<rightharpoonup> ws_peer) \<Rightarrow> ws_peer_id \<rightharpoonup> ws_peer" where
  "core_map m = (\<lambda>k. map_option peer_core (m k))"

definition ws_torrent :: "ws_torrent_map \<Rightarrow> ws_info_hash \<Rightarrow> ws_torrent_data" where
  "ws_torrent tm h = (case map_of tm h of Some td \<Rightarrow> td | None \<Rightarrow> ws_torrent_data_default)"

definition expects :: "ws_torrent_data \<Rightarrow> ws_peer_id \<Rightarrow> ws_peer_id \<Rightarrow> offer_id \<Rightarrow> bool" where
  "expects td receiver answerer offer =
     (\<exists>p. ws_peers td receiver = Some p \<and>
        map_of (wp_expecting_answers p) \<lparr>ea_from_peer_id = answerer, ea_regarding_offer_id = offer\<rparr> \<noteq> None)"

text \<open>What an announce does to the peers of its torrent.\<close>

definition ws_spec_announce ::
  "in_message_meta \<Rightarrow> ws_announce_request \<Rightarrow> valid_until \<Rightarrow> (ws_peer_id \<rightharpoonup> ws_peer) \<Rightarrow> (ws_peer_id \<rightharpoonup> ws_peer)"
  where "ws_spec_announce meta request until m =
     (if announce_peer_status request = WsPeerStopped then m(wa_peer_id request := None)
      else
        let seeder = (announce_peer_status request = WsSeeding)
        in m(wa_peer_id request \<mapsto>
             (case m (wa_peer_id request) of
                Some p \<Rightarrow> p\<lparr>wp_seeder := seeder, wp_valid_until := until\<rparr>
              | None \<Rightarrow> new_peer meta seeder until)))"

subsection \<open>Index maps under modification\<close>

lemma im_modify_keys [simp]: "im_keys (im_modify k f m) = im_keys m"
  by (simp add: im_modify_def)

lemma map_of_im_modify: "map_of (im_modify k f m) = (map_of m)(k := map_option f (map_of m k))"
  by (induction m) (auto simp: im_modify_def fun_eq_iff)

lemma im_modify_absent: "k \<notin> fst ` set m \<Longrightarrow> im_modify k f m = m"
  by (induction m) (auto simp: im_modify_def)

lemma list_all_im_modify:
  assumes "list_all (\<lambda>e. P (snd e)) m" and "\<And>v. map_of m k = Some v \<Longrightarrow> P v \<Longrightarrow> P (f v)"
    and "distinct (im_keys m)"
  shows "list_all (\<lambda>e. P (snd e)) (im_modify k f m)"
  using assms by (auto simp: list_all_iff im_modify_def)

lemma count_im_modify:
  assumes "distinct (im_keys m)" and "map_of m k = Some v"
  shows "length (filter (\<lambda>e. P (snd e)) (im_modify k f m)) + (if P v then 1 else 0) =
    length (filter (\<lambda>e. P (snd e)) m) + (if P (f v) then 1 else 0)"
  using assms
proof (induction m)
  case Nil
  then show ?case by simp
next
  case (Cons e m)
  show ?case
  proof (cases "fst e = k")
    case True
    then have "k \<notin> fst ` set m" using Cons.prems(1) by auto
    moreover have "snd e = v" using True Cons.prems(2) by (cases e) simp
    ultimately show ?thesis using True im_modify_absent [of k m f] by (simp add: im_modify_def)
  next
    case False
    then have "map_of m k = Some v" using Cons.prems(2) by (cases e) (simp split: if_splits)
    from Cons.IH [OF _ this] Cons.prems(1) False show ?thesis
      by (simp add: im_modify_def split: if_splits)
  qed
qed

lemma count_seeders_modify:
  assumes "distinct (im_keys m)" and "map_of m k = Some v"
  shows "(of_nat (length (filter (\<lambda>e. P (snd e)) (im_modify k f m))) :: u64) =
    of_nat (length (filter (\<lambda>e. P (snd e)) m)) - (if P v then 1 else 0) + (if P (f v) then 1 else 0)"
proof -
  have "(of_nat (length (filter (\<lambda>e. P (snd e)) (im_modify k f m)) + (if P v then 1 else 0)) :: u64) =
      of_nat (length (filter (\<lambda>e. P (snd e)) m) + (if P (f v) then 1 else 0))"
    using count_im_modify [OF assms, of P f] by simp
  then show ?thesis by (auto simp: algebra_simps)
qed

lemma counts_exact:
  assumes "ws_td_ok td"
  shows "wt_num_seeders td = of_nat (num_with wp_seeder (ws_peers td))"
    and "wt_num_leechers td = of_nat (num_with (\<lambda>p. \<not> wp_seeder p) (ws_peers td))"
  using assms
  by (simp_all add: ws_td_ok_def wt_num_leechers_def num_with_map_of leechers_of_difference
      leechers_of_difference [where P = "\<lambda>e. wp_seeder (snd e)"])

lemma td_ok_peer: "ws_td_ok td \<Longrightarrow> ws_peers td k = Some p \<Longrightarrow> ws_peer_ok p"
  by (auto simp: ws_td_ok_def list_all_iff dest!: map_of_SomeD)

lemma valid_until_new_ok: "secs \<le> u32_max \<Longrightarrow>
    valid_until_new secs off = Some (ValidUntil (word_of_nat secs + off))"
  by (simp add: valid_until_new_def seconds_elapsed_def)

subsection \<open>The selection of receivers\<close>

lemma filter_take_bound: "distinct ks \<Longrightarrow> length ks \<le> length (filter (\<lambda>k. k \<noteq> s) ks) + 1"
proof (induction ks)
  case (Cons k ks)
  show ?case
  proof (cases "k = s")
    case True
    then have "filter (\<lambda>k. k \<noteq> s) ks = ks" using Cons.prems by (auto intro: filter_True)
    then show ?thesis using True by simp
  next
    case False
    then show ?thesis using Cons by simp
  qed
qed simp

lemma range_entries_in: "a + n \<le> length es \<Longrightarrow> range_entries a (a + n) es = sub es a n"
  by (simp add: range_entries_def im_get_range_def)

lemma set_butlast_subset: "set (butlast xs) \<subseteq> set xs"
  by (auto dest: in_set_butlastD)

context rng_source
begin

text \<open>More peers than asked for: two slices, one of each half, none beyond the drawn bounds.\<close>

lemma ws_extract_slices:
  fixes es :: "('k, 'v) index_map"
  assumes "n + 1 < length es"
  shows "\<exists>o1 o2 r'. ws_extract_response_peers gen r es n sender conv =
      Some (map (\<lambda>(k, v). conv k v) (take n (filter (\<lambda>e. fst e \<noteq> sender)
        (sub es o1 (n div 2 + 1) @ sub es o2 (n div 2 + 1)))), r') \<and>
    o1 + (n div 2 + 1) \<le> length es div 2 \<and> length es div 2 \<le> o2 \<and>
    o2 + (n div 2 + 1) \<le> length es \<and>
    (2 * (n div 2 + 1) < length es \<longrightarrow> o2 + (n div 2 + 1) < length es)"
proof -
  let ?mid = "length es div 2" and ?h = "n div 2 + 1"
  have fit: "?h \<le> ?mid" "?h \<le> length es" "?mid + ?h \<le> length es" using assms by auto
  obtain o1 r1 where g1: "gen 0 (max 1 (?mid - ?h) - 1) r = (o1, r1)"
    by (cases "gen 0 (max 1 (?mid - ?h) - 1) r")
  have o1: "o1 + ?h \<le> ?mid" using drawn [OF _ g1] fit(1) by auto
  obtain o2 r2 where g2: "gen ?mid (max (?mid + 1) (length es - ?h) - 1) r1 = (o2, r2)"
    by (cases "gen ?mid (max (?mid + 1) (length es - ?h) - 1) r1")
  have le: "?mid \<le> max (?mid + 1) (length es - ?h) - 1" by simp
  have o2: "?mid \<le> o2" "o2 \<le> max (?mid + 1) (length es - ?h) - 1" using drawn [OF le g2] by blast+
  have o2': "o2 + ?h \<le> length es \<and> (2 * ?h < length es \<longrightarrow> o2 + ?h < length es)"
  proof (cases "?mid + 1 \<le> length es - ?h")
    case True
    then have "max (?mid + 1) (length es - ?h) = length es - ?h" by (rule max_absorb2)
    then have "o2 \<le> length es - ?h - 1" using o2(2) by simp
    then have "o2 + ?h < length es" using True by linarith
    then show ?thesis by simp
  next
    case False
    then have "max (?mid + 1) (length es - ?h) = ?mid + 1" by simp
    then have "o2 = ?mid" using o2 by simp
    then show ?thesis using fit(3) by auto
  qed
  have s1: "range_entries o1 (o1 + ?h) es = sub es o1 ?h" using o1 by (intro range_entries_in) linarith
  have s2: "range_entries o2 (o2 + ?h) es = sub es o2 ?h" using o2' by (intro range_entries_in) blast
  have "ws_extract_response_peers gen r es n sender conv =
      Some (map (\<lambda>(k, v). conv k v) (take n (filter (\<lambda>e. fst e \<noteq> sender) (sub es o1 ?h @ sub es o2 ?h))), r2)"
    using assms fit g1 g2 s1 s2
    by (simp add: ws_extract_response_peers_def Let_def sub_index_def take_map)
  then show ?thesis using o1 o2(1) o2' by blast
qed

lemma ws_extract_ok:
  fixes es :: "('k, 'v) index_map"
  assumes d: "distinct (im_keys es)"
  shows "\<exists>sel r'. ws_extract_response_peers gen r es n sender conv = Some (map (\<lambda>(k, v). conv k v) sel, r') \<and>
    distinct (im_keys sel) \<and> set sel \<subseteq> set es \<and> sender \<notin> fst ` set sel \<and>
    length sel = min n (length (filter (\<lambda>e. fst e \<noteq> sender) es))"
proof (cases "length es \<le> n + 1")
  case True
  let ?o = "filter (\<lambda>e. fst e \<noteq> sender) es"
  let ?sel = "if n < length ?o then butlast ?o else ?o"
  have "length ?o \<le> n + 1" using True length_filter_le [of "\<lambda>e. fst e \<noteq> sender" es] by linarith
  then have "length ?sel = min n (length ?o)" by auto
  moreover have "distinct (im_keys ?sel)"
    using distinct_map_filter [OF d] by (auto simp: map_butlast distinct_butlast)
  moreover have "set ?sel \<subseteq> set ?o" using set_butlast_subset [of ?o] by simp
  then have "set ?sel \<subseteq> set es" "sender \<notin> fst ` set ?sel" by fastforce+
  ultimately show ?thesis
    using True by (intro exI [of _ ?sel] exI [of _ r] conjI)
      (auto simp: ws_extract_response_peers_def Let_def map_butlast)
next
  case False
  let ?h = "n div 2 + 1"
  let ?f = "filter (\<lambda>e. fst e \<noteq> sender)"
  obtain o1 o2 r2 where res: "ws_extract_response_peers gen r es n sender conv =
      Some (map (\<lambda>(k, v). conv k v) (take n (?f (sub es o1 ?h @ sub es o2 ?h))), r2)"
    and o1: "o1 + ?h \<le> length es div 2" and o2: "length es div 2 \<le> o2" and o2': "o2 + ?h \<le> length es"
    using ws_extract_slices [of n es r sender conv] False by auto
  let ?s = "sub es o1 ?h @ sub es o2 ?h"
  let ?sel = "take n (?f ?s)"
  have ks: "im_keys ?s = sub (im_keys es) o1 ?h @ sub (im_keys es) o2 ?h" by (simp add: keys_sub)
  have ds: "distinct (im_keys ?s)"
    unfolding ks using d o1 o2 by (intro distinct_two_slices) auto
  have "length (im_keys ?s) \<le> length (filter (\<lambda>k. k \<noteq> sender) (im_keys ?s)) + 1"
    by (rule filter_take_bound [OF ds])
  moreover have "length (im_keys ?s) = 2 * ?h" using o1 o2' by simp
  moreover have "length (filter (\<lambda>k. k \<noteq> sender) (im_keys ?s)) = length (?f ?s)"
    by (simp add: filter_map o_def)
  moreover have "n + 1 \<le> 2 * ?h" by presburger
  ultimately have "n \<le> length (?f ?s)" by linarith
  moreover have "n \<le> length (?f es)"
    using filter_take_bound [OF d, of sender] False by (simp add: filter_map o_def)
  ultimately have "length ?sel = min n (length (?f es))" by simp
  moreover have "distinct (im_keys ?sel)"
    using distinct_map_filter [OF ds, of "\<lambda>e. fst e \<noteq> sender"] distinct_take
    unfolding take_map [symmetric] by blast
  moreover have "set ?sel \<subseteq> set es"
    using set_sub [of es o1 ?h] set_sub [of es o2 ?h] by (auto dest!: in_set_takeD)
  moreover have "sender \<notin> fst ` set ?sel" by (auto dest!: in_set_takeD)
  ultimately show ?thesis using res by blast
qed

lemma ws_extract_never_last:
  fixes es :: "('k, 'v) index_map"
  assumes "2 * (n div 2 + 1) \<le> length es" and "k \<notin> fst ` set es"
  shows "\<exists>sel r'. ws_extract_response_peers gen r (es @ [(k, v)]) n sender conv =
      Some (map (\<lambda>(k, v). conv k v) sel, r') \<and> k \<notin> fst ` set sel"
proof -
  let ?es = "es @ [(k, v)]" and ?h = "n div 2 + 1"
  have "n + 1 < length ?es" using assms(1) by auto
  from ws_extract_slices [OF this, of r sender conv] obtain o1 o2 r' where
    res: "ws_extract_response_peers gen r ?es n sender conv = Some (map (\<lambda>(k, v). conv k v)
      (take n (filter (\<lambda>e. fst e \<noteq> sender) (sub ?es o1 ?h @ sub ?es o2 ?h))), r')"
    and o: "o1 + ?h \<le> length ?es div 2" "o2 + ?h < length ?es"
    using assms(1) by auto
  have "sub ?es i ?h = sub es i ?h" if "i + ?h \<le> length es" for i
    using that by (simp add: sub_def)
  then have "sub ?es o1 ?h @ sub ?es o2 ?h = sub es o1 ?h @ sub es o2 ?h" using o by simp
  then have "set (take n (filter (\<lambda>e. fst e \<noteq> sender) (sub ?es o1 ?h @ sub ?es o2 ?h))) \<subseteq> set es"
    using set_sub [of es o1 ?h] set_sub [of es o2 ?h] by (auto dest!: in_set_takeD)
  then have "k \<notin> fst ` set (take n (filter (\<lambda>e. fst e \<noteq> sender) (sub ?es o1 ?h @ sub ?es o2 ?h)))"
    using assms(2) by blast
  then show ?thesis using res by blast
qed

end

subsection \<open>Announces\<close>

text \<open>The key under which the answer to an offer is expected, and the answerer and offer it stands for.\<close>

definition answer_key :: "announce_request_offer \<times> offer_receiver \<Rightarrow> expecting_answer" where
  "answer_key e = \<lparr>ea_from_peer_id = fst (snd e), ea_regarding_offer_id = aro_offer_id (fst e)\<rparr>"

definition answer_pair :: "announce_request_offer \<times> offer_receiver \<Rightarrow> ws_peer_id \<times> offer_id" where
  "answer_pair e = (fst (snd e), aro_offer_id (fst e))"

lemma answer_key_pair:
  "\<lparr>ea_from_peer_id = a, ea_regarding_offer_id = b\<rparr> \<in> answer_key ` S \<longleftrightarrow> (a, b) \<in> answer_pair ` S"
  by (simp add: image_iff answer_key_def answer_pair_def)

text \<open>Peers at other keys are kept, and the one at \<open>k\<close> but for its expected answers.\<close>

definition only_answers :: "ws_torrent_data \<Rightarrow> ws_torrent_data \<Rightarrow> ws_peer_id \<Rightarrow> bool" where
  "only_answers td td' k = (\<forall>x. if x = k then map_option peer_core (ws_peers td' x) = map_option peer_core (ws_peers td x)
     else ws_peers td' x = ws_peers td x)"


lemma core_only_answers: "only_answers td td' k \<Longrightarrow> core_map (ws_peers td') = core_map (ws_peers td)"
  unfolding core_map_def only_answers_def by (metis (mono_tags, opaque_lifting))

lemma only_answers_refl [simp]: "only_answers td td k"
  by (simp add: only_answers_def)

lemma announcer_present:
  "announce_peer_status request \<noteq> WsPeerStopped \<Longrightarrow>
   \<exists>p. ws_spec_announce meta request until m (wa_peer_id request) = Some p"
  by (simp add: ws_spec_announce_def Let_def)

text \<open>The reply: the exact counts of the torrent's peers.\<close>

definition ws_reply :: "ws_config \<Rightarrow> ws_info_hash \<Rightarrow> (ws_peer_id \<rightharpoonup> ws_peer) \<Rightarrow> ws_out_message" where
  "ws_reply cf h m = WsAnnounceRes \<lparr>wan_action = WsAnnounceAction, wan_info_hash = h,
     wan_complete = of_nat (num_with wp_seeder m), wan_incomplete = of_nat (num_with (\<lambda>p. \<not> wp_seeder p) m),
     wan_announce_interval = wcf_peer_announce_interval cf\<rparr>"

locale ws_swarm =
  torrents: index_map "wx_torrents xc" + peers: index_map "wx_peers xc" +
  answers: index_map "wx_answers xc" + rng_source "wx_gen xc"
  for xc :: "'r ws_crates"
begin

lemma insert_or_update_ok:
  assumes ok: "ws_td_ok td" and "secs \<le> u32_max"
  shows "\<exists>td'. insert_or_update_peer xc cf secs meta request td = Some (announce_peer_status request, td') \<and>
    ws_td_ok td' \<and>
    ws_peers td' = ws_spec_announce meta request (ValidUntil (word_of_nat secs + wcf_max_peer_age cf)) (ws_peers td)"
proof -
  let ?pid = "wa_peer_id request" and ?st = "announce_peer_status request"
  define until where "until = ValidUntil (word_of_nat secs + wcf_max_peer_age cf)"
  have d: "distinct (im_keys (wt_peers td))"
    and n: "wt_num_seeders td = of_nat (length (filter (\<lambda>e. wp_seeder (snd e)) (wt_peers td)))"
    and l: "list_all (\<lambda>e. ws_peer_ok (snd e)) (wt_peers td)"
    using ok by (simp_all add: ws_td_ok_def)
  obtain td' where td': "insert_or_update_peer xc cf secs meta request td = Some (?st, td')"
    using assms(2) by (auto simp: insert_or_update_peer_def valid_until_new_ok Let_def)
  have "ws_td_ok td' \<and> ws_peers td' = ws_spec_announce meta request until (ws_peers td)"
  proof (cases "ws_peers td ?pid")
    case None
    then have k: "?pid \<notin> set (im_keys (wt_peers td))" by (simp add: map_of_eq_None_iff)
    note ins = peers.insert_new [OF k] and lookup = peers.map_of_insert [OF d, of ?pid]
    show ?thesis
      using td' None assms(2) d n l k lookup
      by (cases ?st) (auto simp: insert_or_update_peer_def valid_until_new_ok until_def [symmetric] Let_def
          ws_td_ok_def ins ws_spec_announce_def new_peer_def ws_peer_ok_def)
  next
    case (Some p)
    have po: "ws_peer_ok p" using td_ok_peer [OF ok Some] .
    show ?thesis
    proof (cases "?st = WsPeerStopped")
      case True
      have "(of_nat (length (filter (\<lambda>e. wp_seeder (snd e)) (im_swap_remove (wx_peers xc) ?pid (wt_peers td)))) :: u64) =
          wt_num_seeders td - (if wp_seeder p then 1 else 0)"
        unfolding n peers.length_filter_swap_remove [OF d] map_of_split_length [OF d, of wp_seeder ?pid]
        using Some by simp
      moreover have "list_all (\<lambda>e. ws_peer_ok (snd e)) (im_swap_remove (wx_peers xc) ?pid (wt_peers td))"
        using l by (auto simp: list_all_iff peers.set_swap_remove [OF d])
      ultimately show ?thesis
        using td' Some assms(2) True d
        by (auto simp: insert_or_update_peer_def valid_until_new_ok Let_def ws_td_ok_def
            peers.distinct_swap_remove peers.map_of_swap_remove ws_spec_announce_def)
    next
      case False
      define f where "f = (\<lambda>p :: ws_peer. p\<lparr>wp_seeder := (?st = WsSeeding), wp_valid_until := until\<rparr>)"
      have "wt_peers td' = im_modify ?pid f (wt_peers td)"
        and "wt_num_seeders td' = wt_num_seeders td - (if wp_seeder p then 1 else 0) + (if wp_seeder (f p) then 1 else 0)"
        using td' Some assms(2) False
        by (cases ?st; auto simp: insert_or_update_peer_def valid_until_new_ok until_def [symmetric] Let_def f_def)+
      moreover have "list_all (\<lambda>e. ws_peer_ok (snd e)) (im_modify ?pid f (wt_peers td))"
        by (rule list_all_im_modify [OF l _ d]) (simp add: ws_peer_ok_def f_def)
      moreover have "ws_spec_announce meta request until (ws_peers td) = (ws_peers td)(?pid \<mapsto> f p)"
        using Some False by (simp add: ws_spec_announce_def f_def Let_def)
      ultimately show ?thesis
        using d Some by (simp add: ws_td_ok_def map_of_im_modify n count_seeders_modify [OF d Some])
    qed
  qed
  then show ?thesis using td' by (simp add: until_def)
qed

lemma offer_loop_ok:
  assumes "distinct (im_keys answers)" and "clock_ok clock"
  shows "\<exists>answers'. offer_loop xc cf clock h s es answers =
      Some (answers', map (\<lambda>(offer, receiver). offer_message h s offer receiver) es) \<and>
    distinct (im_keys answers') \<and> dom (map_of answers') = dom (map_of answers) \<union> answer_key ` set es"
  using assms
proof (induction es arbitrary: answers clock)
  case Nil
  then show ?case by simp
next
  case (Cons e es)
  obtain offer receiver where e: "e = (offer, receiver)" by (cases e)
  let ?vu = "ValidUntil (word_of_nat (clock 0) + wcf_max_offer_age cf)"
  let ?a = "im_insert (wx_answers xc) (answer_key e) ?vu answers"
  have c: "clock 0 \<le> u32_max" "clock_ok (\<lambda>i. clock (Suc i))"
    using Cons.prems(2) by (simp_all add: clock_ok_def)
  have "distinct (im_keys ?a)" by (rule answers.distinct_insert [OF Cons.prems(1)])
  from Cons.IH [OF this c(2)] obtain answers' where
    "offer_loop xc cf (\<lambda>i. clock (Suc i)) h s es ?a =
      Some (answers', map (\<lambda>(offer, receiver). offer_message h s offer receiver) es)"
    "distinct (im_keys answers')" "dom (map_of answers') = dom (map_of ?a) \<union> answer_key ` set es"
    by blast
  then show ?case
    using valid_until_new_ok [OF c(1)]
    by (auto simp: e answer_key_def answers.map_of_insert [OF Cons.prems(1)])
qed

lemma set_answers_ok:
  assumes ok: "ws_td_ok td" and p: "ws_peers td k = Some p"
    and f: "f p = p\<lparr>wp_expecting_answers := as\<rparr>" and "distinct (im_keys as)"
    and td': "td' = td\<lparr>wt_peers := im_modify k f (wt_peers td)\<rparr>"
  shows "ws_td_ok td' \<and> only_answers td td' k \<and> ws_peers td' k = Some (p\<lparr>wp_expecting_answers := as\<rparr>)"
proof -
  have d: "distinct (im_keys (wt_peers td))" using ok by (simp add: ws_td_ok_def)
  have "list_all (\<lambda>e. ws_peer_ok (snd e)) (im_modify k f (wt_peers td))"
    by (rule list_all_im_modify [OF _ _ d])
      (use ok p f assms(4) in \<open>auto simp: ws_td_ok_def ws_peer_ok_def\<close>)
  moreover have "(of_nat (length (filter (\<lambda>e. wp_seeder (snd e)) (im_modify k f (wt_peers td)))) :: u64) =
      wt_num_seeders td"
    using ok f by (simp add: count_seeders_modify [OF d p] ws_td_ok_def)
  ultimately show ?thesis
    using d p f by (simp add: ws_td_ok_def td' only_answers_def map_of_im_modify peer_core_def)
qed

lemma handle_offers_ok:
  assumes ok: "ws_td_ok td" and c: "clock_ok clock" and p: "ws_peers td s = Some p"
  shows "\<exists>td' sel r'. handle_offers xc cf r clock h s offers td =
      Some (td', map (\<lambda>(offer, receiver). offer_message h s offer receiver) (zip offers sel), r') \<and>
    ws_td_ok td' \<and> only_answers td td' s \<and>
    distinct (map fst sel) \<and> s \<notin> fst ` set sel \<and>
    (\<forall>(k, conn, consumer) \<in> set sel. \<exists>q. ws_peers td k = Some q \<and> wp_connection_id q = conn \<and> wp_consumer_id q = consumer) \<and>
    length sel = min (min (length offers) (wcf_max_offers cf)) (card (dom (ws_peers td) - {s})) \<and>
    (\<forall>answerer offer. expects td' s answerer offer \<longleftrightarrow>
       expects td s answerer offer \<or>
       (answerer, offer) \<in> answer_pair ` set (zip offers sel))"
proof -
  let ?n = "min (length offers) (wcf_max_offers cf)"
  let ?conv = "\<lambda>peer_id peer. (peer_id, wp_connection_id peer, wp_consumer_id peer)"
  have d: "distinct (im_keys (wt_peers td))" using ok by (simp add: ws_td_ok_def)
  obtain es r' where ex: "ws_extract_response_peers (wx_gen xc) r (wt_peers td) ?n s ?conv =
      Some (map (\<lambda>(k, v). ?conv k v) es, r')"
    and es: "distinct (im_keys es)" "set es \<subseteq> set (wt_peers td)" "s \<notin> fst ` set es"
      "length es = min ?n (length (filter (\<lambda>e. fst e \<noteq> s) (wt_peers td)))"
    using ws_extract_ok [OF d] by blast
  define sel where "sel = map (\<lambda>(k, v). ?conv k v) es"
  have po: "distinct (im_keys (wp_expecting_answers p))"
    using td_ok_peer [OF ok p] by (simp add: ws_peer_ok_def)
  obtain as where loop: "offer_loop xc cf clock h s (zip offers sel) (wp_expecting_answers p) =
      Some (as, map (\<lambda>(offer, receiver). offer_message h s offer receiver) (zip offers sel))"
    and as: "distinct (im_keys as)"
      "dom (map_of as) = dom (map_of (wp_expecting_answers p)) \<union> answer_key ` set (zip offers sel)"
    using offer_loop_ok [OF po c] by blast
  define td' where "td' = td\<lparr>wt_peers := im_modify s (\<lambda>p. p\<lparr>wp_expecting_answers := as\<rparr>) (wt_peers td)\<rparr>"
  have td': "ws_td_ok td'" "only_answers td td' s" "ws_peers td' s = Some (p\<lparr>wp_expecting_answers := as\<rparr>)"
    using set_answers_ok [OF ok p _ as(1) td'_def] by auto
  have res: "handle_offers xc cf r clock h s offers td =
      Some (td', map (\<lambda>(offer, receiver). offer_message h s offer receiver) (zip offers sel), r')"
    using ex p loop by (simp add: handle_offers_def Let_def sel_def td'_def)
  have ks: "map fst sel = im_keys es" by (simp add: sel_def case_prod_unfold)
  have rc: "\<exists>q. ws_peers td k = Some q \<and> wp_connection_id q = conn \<and> wp_consumer_id q = consumer"
    if "(k, conn, consumer) \<in> set sel" for k conn consumer
  proof -
    from that obtain q where "(k, q) \<in> set (wt_peers td)" "wp_connection_id q = conn" "wp_consumer_id q = consumer"
      using es(2) by (auto simp: sel_def)
    then show ?thesis using d by (metis map_of_is_SomeI)
  qed
  have "length (filter (\<lambda>e. fst e \<noteq> s) (wt_peers td)) = card (dom (ws_peers td) - {s})"
  proof -
    have "dom (ws_peers td) - {s} = set (im_keys (filter (\<lambda>e. fst e \<noteq> s) (wt_peers td)))"
      by (auto simp: dom_map_of_conv_image_fst)
    then show ?thesis using distinct_card [OF distinct_map_filter [OF d, of "\<lambda>e. fst e \<noteq> s"]] by simp
  qed
  then have len: "length sel = min ?n (card (dom (ws_peers td) - {s}))" by (simp add: sel_def es(4))
  have ex: "expects td' s answerer offer \<longleftrightarrow> expects td s answerer offer \<or>
       (answerer, offer) \<in> answer_pair ` set (zip offers sel)" for answerer offer
  proof -
    have "expects td' s answerer offer \<longleftrightarrow>
        \<lparr>ea_from_peer_id = answerer, ea_regarding_offer_id = offer\<rparr> \<in> dom (map_of as)"
      by (auto simp: expects_def td'(3))
    also have "\<dots> \<longleftrightarrow> expects td s answerer offer \<or>
        \<lparr>ea_from_peer_id = answerer, ea_regarding_offer_id = offer\<rparr> \<in> answer_key ` set (zip offers sel)"
      unfolding as(2) by (auto simp: expects_def p)
    also have "\<lparr>ea_from_peer_id = answerer, ea_regarding_offer_id = offer\<rparr> \<in> answer_key ` set (zip offers sel) \<longleftrightarrow>
        (answerer, offer) \<in> answer_pair ` set (zip offers sel)"
      by (rule answer_key_pair)
    finally show ?thesis .
  qed
  have "fst ` set sel = fst ` set es" using arg_cong [OF ks, of set] by simp
  then have "distinct (map fst sel)" "s \<notin> fst ` set sel" using es(1,3) ks by simp_all
  moreover have "\<forall>(k, conn, consumer) \<in> set sel. \<exists>q. ws_peers td k = Some q \<and>
      wp_connection_id q = conn \<and> wp_consumer_id q = consumer"
    using rc by blast
  ultimately show ?thesis using res td'(1,2) len ex by blast
qed

lemma handle_answer_ok:
  assumes ok: "ws_td_ok td" and "handle_answer xc meta h pid rid offer answer td = (td', m)"
  shows "ws_td_ok td' \<and> only_answers td td' rid \<and>
    (\<forall>a b. expects td' rid a b \<longleftrightarrow> expects td rid a b \<and> (a, b) \<noteq> (pid, offer)) \<and>
    (case ws_peers td rid of
       None \<Rightarrow> td' = td \<and> m = None
     | Some q \<Rightarrow> \<exists>e. m = Some (if expects td rid pid offer then answer_message h pid offer answer q
         else (out_meta_of meta, WsError e)))"
proof (cases "ws_peers td rid")
  case None
  then show ?thesis using assms by (auto simp: handle_answer_def only_answers_def expects_def)
next
  case (Some q)
  let ?e = "\<lparr>ea_from_peer_id = pid, ea_regarding_offer_id = offer\<rparr>"
  let ?as = "im_swap_remove (wx_answers xc) ?e (wp_expecting_answers q)"
  let ?f = "\<lambda>p. p\<lparr>wp_expecting_answers := im_swap_remove (wx_answers xc) ?e (wp_expecting_answers p)\<rparr>"
  have dq: "distinct (im_keys (wp_expecting_answers q))"
    using td_ok_peer [OF ok Some] by (simp add: ws_peer_ok_def)
  have td': "td' = td\<lparr>wt_peers := im_modify rid ?f (wt_peers td)\<rparr>"
    using assms(2) Some by (auto simp: handle_answer_def Let_def)
  note s = set_answers_ok [OF ok Some, of ?f ?as, OF _ answers.distinct_swap_remove [OF dq] td', simplified]
  have "expects td' rid a b \<longleftrightarrow> expects td rid a b \<and> (a, b) \<noteq> (pid, offer)" for a b
    using s Some by (auto simp: expects_def answers.map_of_swap_remove [OF dq])
  then show ?thesis
    using s Some assms(2) by (auto simp: handle_answer_def Let_def expects_def)
qed

lemma pass_offers_ok:
  assumes "ws_td_ok td1" and "clock_ok clock" and "ws_peers td1 (wa_peer_id request) = Some p"
  shows "\<exists>td2 ms r'. pass_offers xc cf r clock request td1 = Some (td2, ms, r') \<and> ws_td_ok td2 \<and>
    core_map (ws_peers td2) = core_map (ws_peers td1)"
proof (cases "wa_offers request")
  case None
  then show ?thesis using assms(1) by (simp add: pass_offers_def)
next
  case (Some offers)
  from handle_offers_ok [OF assms, of cf r "wa_info_hash request" offers]
  show ?thesis using Some core_only_answers by (auto simp: pass_offers_def)
qed

lemma pass_answer_ok:
  assumes "ws_td_ok td2" and "pass_answer xc meta request td2 = (td3, ms)"
  shows "ws_td_ok td3 \<and> core_map (ws_peers td3) = core_map (ws_peers td2)"
proof (cases "\<exists>answer rid offer. wa_answer request = Some answer \<and>
    wa_answer_to_peer_id request = Some rid \<and> wa_answer_offer_id request = Some offer")
  case True
  then obtain answer rid offer where a: "wa_answer request = Some answer"
    "wa_answer_to_peer_id request = Some rid" "wa_answer_offer_id request = Some offer" by blast
  obtain td' m where h: "handle_answer xc meta (wa_info_hash request) (wa_peer_id request) rid offer answer td2 = (td', m)"
    by (cases "handle_answer xc meta (wa_info_hash request) (wa_peer_id request) rid offer answer td2")
  then have "td3 = td'" using assms(2) a by (auto simp: pass_answer_def)
  then show ?thesis using handle_answer_ok [OF assms(1) h] core_only_answers by blast
next
  case False
  then have "td3 = td2" using assms(2) by (auto simp: pass_answer_def split: option.splits)
  then show ?thesis using assms(1) by simp
qed

lemma announce_torrent_ok:
  assumes ok: "ws_td_ok td" and c: "clock_ok clock"
  shows "\<exists>td' ms r'. announce_torrent xc cf r clock meta request td =
      Some (td', ms @ [(out_meta_of meta, ws_reply cf (wa_info_hash request) (ws_peers td'))], r') \<and>
    ws_td_ok td' \<and>
    core_map (ws_peers td') = core_map (ws_spec_announce meta request
      (ValidUntil (word_of_nat (clock 0) + wcf_max_peer_age cf)) (ws_peers td))"
proof -
  have c': "clock 0 \<le> u32_max" "clock_ok (\<lambda>i. clock (Suc i))" using c by (simp_all add: clock_ok_def)
  from insert_or_update_ok [OF ok c'(1)] obtain td1 where
    i: "insert_or_update_peer xc cf (clock 0) meta request td = Some (announce_peer_status request, td1)"
    and ok1: "ws_td_ok td1" and td1: "ws_peers td1 = ws_spec_announce meta request
      (ValidUntil (word_of_nat (clock 0) + wcf_max_peer_age cf)) (ws_peers td)" by blast
  have "\<exists>td3 ms r'. (if announce_peer_status request \<noteq> WsPeerStopped then
          map_option (\<lambda>(td2, offer_messages, r').
              let (td3, answer_messages) = pass_answer xc meta request td2
              in (td3, offer_messages @ answer_messages, r'))
            (pass_offers xc cf r (\<lambda>i. clock (Suc i)) request td1)
        else Some (td1, [], r)) = Some (td3, ms, r') \<and>
      ws_td_ok td3 \<and> core_map (ws_peers td3) = core_map (ws_peers td1)"
  proof (cases "announce_peer_status request = WsPeerStopped")
    case True
    then show ?thesis using ok1 by simp
  next
    case False
    then obtain p where p: "ws_peers td1 (wa_peer_id request) = Some p"
      using announcer_present unfolding td1 by blast
    obtain td2 oms r' where o: "pass_offers xc cf r (\<lambda>i. clock (Suc i)) request td1 = Some (td2, oms, r')"
      and ok2: "ws_td_ok td2" and td2: "core_map (ws_peers td2) = core_map (ws_peers td1)"
      using pass_offers_ok [OF ok1 c'(2) p] by blast
    obtain td3 ams where a: "pass_answer xc meta request td2 = (td3, ams)"
      by (cases "pass_answer xc meta request td2")
    show ?thesis using False o a td2 pass_answer_ok [OF ok2 a] by simp
  qed
  then obtain td3 ms r' where r: "(if announce_peer_status request \<noteq> WsPeerStopped then
          map_option (\<lambda>(td2, offer_messages, r').
              let (td3, answer_messages) = pass_answer xc meta request td2
              in (td3, offer_messages @ answer_messages, r'))
            (pass_offers xc cf r (\<lambda>i. clock (Suc i)) request td1)
        else Some (td1, [], r)) = Some (td3, ms, r')"
    and td3: "ws_td_ok td3" "core_map (ws_peers td3) = core_map (ws_peers td1)" by blast
  have "announce_torrent xc cf r clock meta request td =
      Some (td3, ms @ [(out_meta_of meta, ws_reply cf (wa_info_hash request) (ws_peers td3))], r')"
    by (simp only: announce_torrent_def i Option.bind.simps prod.case r option.map ws_reply_def counts_exact [OF td3(1)])
  then show ?thesis using td3 unfolding td1 by blast
qed

subsection \<open>Torrent maps\<close>

lemma tm_lookup: "ws_tm_ok tm \<Longrightarrow> map_of tm h = Some td \<Longrightarrow> ws_td_ok td"
  by (auto simp: ws_tm_ok_def list_all_iff dest!: map_of_SomeD)

lemma torrent_ok: "ws_tm_ok tm \<Longrightarrow> ws_td_ok (ws_torrent tm h)"
  by (auto simp: ws_torrent_def ws_torrent_data_default_def ws_td_ok_def dest: tm_lookup split: option.splits)

lemma entry_or_default_ok:
  assumes "ws_tm_ok tm"
  shows "ws_tm_ok (ws_entry_or_default xc h tm)" and "ws_torrent (ws_entry_or_default xc h tm) = ws_torrent tm"
    and "map_of (ws_entry_or_default xc h tm) h = Some (ws_torrent tm h)"
proof -
  have d: "distinct (im_keys tm)" using assms by (simp add: ws_tm_ok_def)
  have "ws_td_ok ws_torrent_data_default" by (simp add: ws_torrent_data_default_def ws_td_ok_def)
  then show "ws_tm_ok (ws_entry_or_default xc h tm)"
    using assms torrents.insert_new [of h tm] by (auto simp: ws_entry_or_default_def ws_tm_ok_def map_of_eq_None_iff)
  show "ws_torrent (ws_entry_or_default xc h tm) = ws_torrent tm"
    using torrents.map_of_insert [OF d] by (auto simp: ws_entry_or_default_def ws_torrent_def fun_eq_iff)
  show "map_of (ws_entry_or_default xc h tm) h = Some (ws_torrent tm h)"
    using torrents.map_of_insert [OF d] by (auto simp: ws_entry_or_default_def ws_torrent_def)
qed

lemma modify_torrent:
  assumes "ws_tm_ok tm" and "\<And>td. map_of tm h = Some td \<Longrightarrow> ws_td_ok (f td)"
  shows "ws_tm_ok (im_modify h f tm)"
  using assms list_all_im_modify [of ws_td_ok tm h f] by (simp add: ws_tm_ok_def)

lemma announce_map_ok:
  assumes ok: "ws_tm_ok tm" and c: "clock_ok clock"
  shows "\<exists>tm' ms r'. ws_announce_map xc cf r clock meta request tm = Some (tm', ms, r') \<and> ws_tm_ok tm' \<and>
    (\<forall>h. h \<noteq> wa_info_hash request \<longrightarrow> ws_torrent tm' h = ws_torrent tm h) \<and>
    (if foreign_peer_id meta request (ws_torrent tm (wa_info_hash request))
     then ms = [] \<and> ws_torrent tm' = ws_torrent tm
     else core_map (ws_peers (ws_torrent tm' (wa_info_hash request))) =
         core_map (ws_spec_announce meta request (ValidUntil (word_of_nat (clock 0) + wcf_max_peer_age cf))
           (ws_peers (ws_torrent tm (wa_info_hash request)))) \<and>
       (\<exists>ms'. ms = ms' @ [(out_meta_of meta, ws_reply cf (wa_info_hash request)
         (ws_peers (ws_torrent tm' (wa_info_hash request))))]))"
proof -
  let ?h = "wa_info_hash request"
  let ?tm = "ws_entry_or_default xc ?h tm" and ?td = "ws_torrent tm ?h"
  note e = entry_or_default_ok [OF ok, of ?h]
  show ?thesis
  proof (cases "foreign_peer_id meta request ?td")
    case True
    then have "ws_announce_map xc cf r clock meta request tm = Some (?tm, [], r)"
      by (simp add: ws_announce_map_def Let_def e(3))
    then show ?thesis using True e(1,2) by simp
  next
    case False
    from announce_torrent_ok [OF torrent_ok [OF ok] c, of cf r meta request]
    obtain td' ms r' where a: "announce_torrent xc cf r clock meta request ?td =
        Some (td', ms @ [(out_meta_of meta, ws_reply cf ?h (ws_peers td'))], r')"
      and td': "ws_td_ok td'" "core_map (ws_peers td') = core_map (ws_spec_announce meta request
        (ValidUntil (word_of_nat (clock 0) + wcf_max_peer_age cf)) (ws_peers ?td))" by blast
    let ?tm' = "im_modify ?h (\<lambda>_. td') ?tm"
    have r: "ws_announce_map xc cf r clock meta request tm =
        Some (?tm', ms @ [(out_meta_of meta, ws_reply cf ?h (ws_peers td'))], r')"
      using False by (simp add: ws_announce_map_def Let_def e(3) a)
    have t: "ws_torrent ?tm' ?h = td'"
      by (simp add: ws_torrent_def map_of_im_modify e(3))
    have o: "ws_torrent ?tm' h = ws_torrent tm h" if "h \<noteq> ?h" for h
      using that fun_cong [OF e(2), of h] by (simp add: ws_torrent_def map_of_im_modify)
    show ?thesis
      using False r t o td' modify_torrent [OF e(1), of ?h "\<lambda>_. td'"] by auto
  qed
qed

lemma connection_closed_td:
  assumes ok: "ws_td_ok td"
  shows "ws_td_ok (torrent_connection_closed xc k td) \<and>
    ws_peers (torrent_connection_closed xc k td) = (ws_peers td)(k := None)"
proof (cases "ws_peers td k")
  case None
  then show ?thesis using ok by (auto simp: torrent_connection_closed_def fun_eq_iff)
next
  case (Some p)
  have d: "distinct (im_keys (wt_peers td))"
    and n: "wt_num_seeders td = of_nat (length (filter (\<lambda>e. wp_seeder (snd e)) (wt_peers td)))"
    and l: "list_all (\<lambda>e. ws_peer_ok (snd e)) (wt_peers td)"
    using ok by (simp_all add: ws_td_ok_def)
  have "(of_nat (length (filter (\<lambda>e. wp_seeder (snd e)) (im_swap_remove (wx_peers xc) k (wt_peers td)))) :: u64) =
      wt_num_seeders td - (if wp_seeder p then 1 else 0)"
    unfolding n peers.length_filter_swap_remove [OF d] map_of_split_length [OF d, of wp_seeder k]
    using Some by simp
  moreover have "list_all (\<lambda>e. ws_peer_ok (snd e)) (im_swap_remove (wx_peers xc) k (wt_peers td))"
    using l by (auto simp: list_all_iff peers.set_swap_remove [OF d])
  ultimately show ?thesis
    using Some d by (auto simp: torrent_connection_closed_def ws_td_ok_def
        peers.distinct_swap_remove peers.map_of_swap_remove)
qed

lemma connection_closed_map:
  assumes "ws_tm_ok tm"
  shows "ws_tm_ok (map_connection_closed xc h k tm) \<and>
    ws_torrent (map_connection_closed xc h k tm) =
      (ws_torrent tm)(h := torrent_connection_closed xc k (ws_torrent tm h))"
proof -
  have "torrent_connection_closed xc k ws_torrent_data_default = ws_torrent_data_default"
    by (simp add: torrent_connection_closed_def ws_torrent_data_default_def)
  then have "ws_torrent (map_connection_closed xc h k tm) =
      (ws_torrent tm)(h := torrent_connection_closed xc k (ws_torrent tm h))"
    by (auto simp: map_connection_closed_def ws_torrent_def map_of_im_modify fun_eq_iff split: option.splits)
  then show ?thesis
    using assms tm_lookup [OF assms] connection_closed_td
    by (auto simp: map_connection_closed_def intro!: modify_torrent)
qed

end

subsection \<open>Cleaning\<close>

lemma retain_peers_spec:
  "fst (ws_retain_peers now es n) =
     map (\<lambda>(k, p). (k, clean_answers now p)) (filter (\<lambda>e. valid (wp_valid_until (snd e)) now) es)"
  by (induction es arbitrary: n) (auto simp: case_prod_unfold Let_def)

lemma retain_peers_seeders:
  assumes "n = of_nat (length (filter (\<lambda>e. wp_seeder (snd e)) es)) + c"
  shows "snd (ws_retain_peers now es n) =
    of_nat (length (filter (\<lambda>e. wp_seeder (snd e)) (fst (ws_retain_peers now es n)))) + c"
  using assms
proof (induction es arbitrary: n c)
  case Nil
  then show ?case by simp
next
  case (Cons e es)
  obtain k p where e: "e = (k, p)" by (cases e)
  show ?case
  proof (cases "valid (wp_valid_until p) now")
    case True
    have "n = of_nat (length (filter (\<lambda>e. wp_seeder (snd e)) es)) + (c + (if wp_seeder p then 1 else 0))"
      using Cons.prems by (simp add: e)
    from Cons.IH [OF this] show ?thesis
      using True by (simp add: e case_prod_unfold Let_def clean_answers_def)
  next
    case False
    have "(if wp_seeder p then n - 1 else n) = of_nat (length (filter (\<lambda>e. wp_seeder (snd e)) es)) + c"
      using Cons.prems by (simp add: e)
    from Cons.IH [OF this] show ?thesis using False by (simp add: e)
  qed
qed

lemma clean_td_ok:
  assumes "ws_td_ok td" and "clean_and_get_num_peers now td = (td', n)"
  shows "ws_td_ok td'"
    and "ws_peers td' = (\<lambda>k. map_option (clean_answers now)
      (restrict_with (\<lambda>p. valid (wp_valid_until p) now) (ws_peers td) k))"
proof -
  let ?es = "filter (\<lambda>e. valid (wp_valid_until (snd e)) now) (wt_peers td)"
  obtain es n' where r: "ws_retain_peers now (wt_peers td) (wt_num_seeders td) = (es, n')"
    by (cases "ws_retain_peers now (wt_peers td) (wt_num_seeders td)")
  have td': "td' = td\<lparr>wt_peers := es, wt_num_seeders := n'\<rparr>"
    using assms(2) r by (simp add: clean_and_get_num_peers_def)
  have es: "es = map (\<lambda>(k, p). (k, clean_answers now p)) ?es"
    using retain_peers_spec [of now "wt_peers td" "wt_num_seeders td"] r by simp
  have n': "n' = of_nat (length (filter (\<lambda>e. wp_seeder (snd e)) es))"
    using retain_peers_seeders [of "wt_num_seeders td" "wt_peers td" 0 now] assms(1) r
    by (simp add: ws_td_ok_def)
  have d: "distinct (im_keys (wt_peers td))" using assms(1) by (simp add: ws_td_ok_def)
  have "im_keys es = im_keys ?es" by (simp add: es case_prod_unfold)
  then have "distinct (im_keys es)" using distinct_map_filter [OF d] by simp
  moreover have "list_all (\<lambda>e. ws_peer_ok (snd e)) es"
    using assms(1) by (auto simp: es ws_td_ok_def list_all_iff ws_peer_ok_def clean_answers_def
        intro!: distinct_map_filter)
  ultimately show "ws_td_ok td'" by (simp add: td' ws_td_ok_def n')
  have "map_of es = (\<lambda>k. map_option (clean_answers now) (map_of ?es k))"
    unfolding es by (rule ext) (simp add: map_of_reset)
  then show "ws_peers td' = (\<lambda>k. map_option (clean_answers now)
      (restrict_with (\<lambda>p. valid (wp_valid_until p) now) (ws_peers td) k))"
    by (simp add: td' map_of_filter_val [OF d, where P = "\<lambda>p. valid (wp_valid_until p) now"])
qed

lemma clean_map_keys: "set (im_keys (ws_clean_map cf al now tm)) \<subseteq> set (im_keys tm)"
proof (induction tm)
  case (Cons e tm)
  then show ?case by (cases e) (auto simp: Let_def split: if_splits prod.splits)
qed simp

lemma clean_map_ok: "ws_tm_ok tm \<Longrightarrow> ws_tm_ok (ws_clean_map cf al now tm)"
proof (induction tm)
  case Nil
  then show ?case by simp
next
  case (Cons e tm)
  obtain h td where e: "e = (h, td)" by (cases e)
  obtain td' n where c: "clean_and_get_num_peers now td = (td', n)" by (cases "clean_and_get_num_peers now td")
  have "ws_tm_ok tm" "ws_td_ok td" "h \<notin> fst ` set tm"
    using Cons.prems by (auto simp: ws_tm_ok_def e)
  then show ?case
    using Cons.IH clean_td_ok(1) [OF _ c] clean_map_keys [of cf al now tm]
    by (auto simp: e c ws_tm_ok_def)
qed

subsection \<open>A swarm worker over time\<close>

inductive ws_step :: "'r ws_crates \<Rightarrow> ws_config \<Rightarrow> ws_torrent_maps \<Rightarrow> ws_torrent_maps \<Rightarrow> bool"
  for xc cf where
  in_message: "swarm_in_message xc cf r clock meta m maps = Some (maps', ms, r') \<Longrightarrow> clock_ok clock \<Longrightarrow>
    ws_step xc cf maps maps'"
| control: "ws_step xc cf maps (swarm_control xc m maps)"
| cleaning: "ws_clean cf al secs maps = Some maps' \<Longrightarrow> ws_step xc cf maps maps'"

inductive ws_reachable :: "'r ws_crates \<Rightarrow> ws_config \<Rightarrow> ws_torrent_maps \<Rightarrow> bool" for xc cf where
  start: "ws_reachable xc cf ws_maps_new"
| step: "ws_reachable xc cf maps \<Longrightarrow> ws_step xc cf maps maps' \<Longrightarrow> ws_reachable xc cf maps'"

lemma by_version_ok: "ws_maps_ok maps \<Longrightarrow> ws_tm_ok (by_version v maps)"
  by (cases v) (simp_all add: ws_maps_ok_def)

lemma set_version_ok: "ws_maps_ok maps \<Longrightarrow> ws_tm_ok tm \<Longrightarrow> ws_maps_ok (set_version v tm maps)"
  by (cases v) (simp_all add: ws_maps_ok_def)

lemma by_set_version: "by_version v (set_version w tm maps) = (if v = w then tm else by_version v maps)"
  by (cases v; cases w) simp_all

lemma maps_new_ok: "ws_maps_ok ws_maps_new"
  by (simp add: ws_maps_ok_def ws_maps_new_def ws_tm_ok_def)

context ws_swarm
begin

lemma handle_announce_ok:
  assumes "ws_maps_ok maps" and "clock_ok clock"
    and "ws_handle_announce xc cf r clock meta request maps = Some (maps', ms, r')"
  shows "ws_maps_ok maps'"
  using announce_map_ok [OF by_version_ok [OF assms(1), of "mi_ip_version meta"] assms(2), of cf r meta request]
    assms by (auto simp: ws_handle_announce_def set_version_ok)

lemma control_ok: "ws_maps_ok maps \<Longrightarrow> ws_maps_ok (swarm_control xc m maps)"
proof -
  have "ws_maps_ok maps \<Longrightarrow> ws_maps_ok (fold (\<lambda>(h, k). ws_connection_closed xc h k v) es maps)" for v es
  proof (induction es arbitrary: maps)
    case (Cons e es)
    have "ws_maps_ok (ws_connection_closed xc h k v maps)" for h k
      unfolding ws_connection_closed_def
      using connection_closed_map [OF by_version_ok [OF Cons.prems]] set_version_ok [OF Cons.prems] by blast
    then show ?case using Cons.IH by (cases e) simp
  qed simp
  then show "ws_maps_ok maps \<Longrightarrow> ws_maps_ok (swarm_control xc m maps)" by (simp add: swarm_control_def)
qed

lemma reachable_ok: "ws_reachable xc cf maps \<Longrightarrow> ws_maps_ok maps"
proof (induction rule: ws_reachable.induct)
  case start
  then show ?case by (rule maps_new_ok)
next
  case (step maps maps')
  from step.hyps(2) show ?case
  proof (cases rule: ws_step.cases)
    case (in_message r clock meta m ms r')
    then show ?thesis
      using step.IH handle_announce_ok by (cases m) (auto simp: swarm_in_message_def)
  next
    case (control m)
    then show ?thesis using control_ok [OF step.IH] by simp
  next
    case (cleaning al secs)
    then show ?thesis using step.IH by (auto simp: ws_clean_def ws_maps_ok_def clean_map_ok)
  qed
qed

end

subsection \<open>Properties\<close>

definition ref_ws_crates :: "nat list ws_crates" where
  "ref_ws_crates = \<lparr>wx_torrents = ref_index_map, wx_peers = ref_index_map, wx_answers = ref_index_map,
     wx_gen = ref_gen_range\<rparr>"

interpretation ws_ref: ws_swarm ref_ws_crates
  by (simp add: ws_swarm_def ref_ws_crates_def ref_index_map_laws ref_gen_range_laws)

definition ws_sample_config :: ws_config where
  "ws_sample_config = \<lparr>wcf_swarm_workers = 1, wcf_max_scrape_torrents = 255, wcf_max_offers = 10,
     wcf_peer_announce_interval = 120, wcf_max_peer_age = 180, wcf_max_offer_age = 120,
     wcf_access_list_mode = Off\<rparr>"

definition ws_sample_meta :: "nat \<Rightarrow> in_message_meta" where
  "ws_sample_meta c = \<lparr>mi_out_message_consumer_id = 0, mi_connection_id = c, mi_ip_version = WsV4,
     mi_pending_scrape_id = None\<rparr>"

definition ws_sample_request :: "ws_peer_id \<Rightarrow> ws_announce_request" where
  "ws_sample_request k = \<lparr>wa_action = WsAnnounceAction, wa_info_hash = 5, wa_peer_id = k,
     wa_bytes_left = Some 0, wa_event = Some WsStarted, wa_offers = None, wa_numwant = None,
     wa_answer = None, wa_answer_to_peer_id = None, wa_answer_offer_id = None\<rparr>"

lemma sample_clock_ok: "clock_ok (\<lambda>i. 7)"
  by (simp add: clock_ok_def u32_max_def)

text \<open>C28. In every state a swarm worker can reach, an announce refines the update of a finite map of peers.
  If the peer id belongs to another connection, nothing changes and nothing is sent. Else the
  torrent's peers, but for the answers they expect, are updated as specified (a stopped peer is
  removed, a known one gets its new status and deadline and keeps its connection, a new one is bound
  to the connection), and the last message is the reply with the exact numbers of seeders and
  leechers. No other torrent changes, and the code does not panic.\<close>

theorem ws_announce_refines:
  assumes "ws_swarm xc" and "ws_reachable xc cf maps" and "clock_ok clock"
  shows "\<exists>maps' ms r'. ws_handle_announce xc cf r clock meta request maps = Some (maps', ms, r') \<and>
    (\<forall>v h. (v, h) \<noteq> (mi_ip_version meta, wa_info_hash request) \<longrightarrow>
       ws_torrent (by_version v maps') h = ws_torrent (by_version v maps) h) \<and>
    (let td = ws_torrent (by_version (mi_ip_version meta) maps) (wa_info_hash request);
         td' = ws_torrent (by_version (mi_ip_version meta) maps') (wa_info_hash request)
     in if foreign_peer_id meta request td then ms = [] \<and> td' = td
        else core_map (ws_peers td') = core_map (ws_spec_announce meta request
              (ValidUntil (word_of_nat (clock 0) + wcf_max_peer_age cf)) (ws_peers td)) \<and>
           (\<exists>ms'. ms = ms' @ [(out_meta_of meta, ws_reply cf (wa_info_hash request) (ws_peers td'))]))"
proof -
  have ok: "ws_tm_ok (by_version (mi_ip_version meta) maps)"
    using ws_swarm.reachable_ok [OF assms(1,2)] by (rule by_version_ok)
  from ws_swarm.announce_map_ok [OF assms(1) ok assms(3), of cf r meta request]
  obtain tm' ms r' where r: "ws_announce_map xc cf r clock meta request (by_version (mi_ip_version meta) maps) =
      Some (tm', ms, r')"
    and o: "\<forall>h. h \<noteq> wa_info_hash request \<longrightarrow>
      ws_torrent tm' h = ws_torrent (by_version (mi_ip_version meta) maps) h"
    and t: "if foreign_peer_id meta request
          (ws_torrent (by_version (mi_ip_version meta) maps) (wa_info_hash request))
       then ms = [] \<and> ws_torrent tm' = ws_torrent (by_version (mi_ip_version meta) maps)
       else core_map (ws_peers (ws_torrent tm' (wa_info_hash request))) =
           core_map (ws_spec_announce meta request (ValidUntil (word_of_nat (clock 0) + wcf_max_peer_age cf))
             (ws_peers (ws_torrent (by_version (mi_ip_version meta) maps) (wa_info_hash request)))) \<and>
         (\<exists>ms'. ms = ms' @ [(out_meta_of meta, ws_reply cf (wa_info_hash request)
           (ws_peers (ws_torrent tm' (wa_info_hash request))))])" by blast
  show ?thesis
    using r o t by (intro exI [of _ "set_version (mi_ip_version meta) tm' maps"] exI [of _ ms] exI [of _ r'])
      (auto simp: ws_handle_announce_def by_set_version Let_def)
qed

lemma ws_announce_refines_witness:
  "\<exists>maps' ms r'. ws_handle_announce ref_ws_crates ws_sample_config [] (\<lambda>i. 7) (ws_sample_meta 1)
      (ws_sample_request 9) ws_maps_new = Some (maps', ms, r') \<and>
    core_map (ws_peers (ws_torrent (by_version WsV4 maps') 5)) 9 =
      Some (new_peer (ws_sample_meta 1) True (ValidUntil 187))"
proof -
  have "\<not> foreign_peer_id (ws_sample_meta 1) (ws_sample_request 9) (ws_torrent (by_version WsV4 ws_maps_new) 5)"
    by (simp add: foreign_peer_id_def ws_torrent_def ws_maps_new_def ws_torrent_data_default_def)
  moreover have "core_map (ws_spec_announce (ws_sample_meta 1) (ws_sample_request 9) (ValidUntil 187)
      (ws_peers (ws_torrent (by_version WsV4 ws_maps_new) 5))) 9 =
      Some (new_peer (ws_sample_meta 1) True (ValidUntil 187))"
    by (simp add: core_map_def ws_spec_announce_def announce_peer_status_def ws_sample_request_def
        ws_from_event_and_bytes_left_def Let_def ws_torrent_def ws_maps_new_def ws_torrent_data_default_def
        peer_core_def new_peer_def)
  ultimately show ?thesis
    using ws_announce_refines [OF ws_ref.ws_swarm_axioms ws_reachable.start sample_clock_ok,
        of ws_sample_config "[]" "ws_sample_meta 1" "ws_sample_request 9"]
    by (fastforce simp: Let_def ws_sample_meta_def ws_sample_request_def ws_sample_config_def)
qed

lemma spec_announce_expects:
  assumes "announce_peer_status request \<noteq> WsPeerStopped"
    and "ws_peers td1 = ws_spec_announce meta request until (ws_peers td)"
  shows "expects td1 (wa_peer_id request) a b = expects td (wa_peer_id request) a b"
    and "dom (ws_peers td1) - {wa_peer_id request} = dom (ws_peers td) - {wa_peer_id request}"
    and "k \<noteq> wa_peer_id request \<Longrightarrow> ws_peers td1 k = ws_peers td k"
  using assms
  by (auto simp: expects_def ws_spec_announce_def Let_def new_peer_def split: option.splits)

definition ws_sample_td :: ws_torrent_data where
  "ws_sample_td = \<lparr>wt_peers =
     [(1, (new_peer (ws_sample_meta 1) False (ValidUntil 90))\<lparr>wp_expecting_answers :=
         [(\<lparr>ea_from_peer_id = 2, ea_regarding_offer_id = 77\<rparr>, ValidUntil 90)]\<rparr>),
      (2, new_peer (ws_sample_meta 2) False (ValidUntil 90))], wt_num_seeders = 0\<rparr>"

lemma ws_sample_td_ok: "ws_td_ok ws_sample_td"
  by (simp add: ws_td_ok_def ws_sample_td_def ws_peer_ok_def new_peer_def)

definition ws_sample_offer :: announce_request_offer where
  "ws_sample_offer = \<lparr>aro_offer = \<lparr>ro_t = RtcOfferType, ro_sdp = []\<rparr>, aro_offer_id = 78\<rparr>"

text \<open>C29. The offers of an announce are passed on to distinct other peers of the torrent, one each, as many as
  there are offers, as the setting allows and as the torrent has other peers. Each offer goes to its
  receiver's connection, in order, before the reply, and the announcing peer expects an answer to
  exactly these offers from their receivers, besides those it expected before.\<close>

theorem ws_offers_are_passed_on:
  assumes "ws_swarm xc" and ok: "ws_td_ok td" and c: "clock_ok clock"
    and st: "announce_peer_status request \<noteq> WsPeerStopped"
    and o: "wa_offers request = Some offers" and na: "wa_answer request = None"
  shows "\<exists>td' sel r'. announce_torrent xc cf r clock meta request td =
      Some (td', map (\<lambda>(offer, receiver). offer_message (wa_info_hash request) (wa_peer_id request) offer receiver)
          (zip offers sel) @ [(out_meta_of meta, ws_reply cf (wa_info_hash request) (ws_peers td'))], r') \<and>
    distinct (map fst sel) \<and> wa_peer_id request \<notin> fst ` set sel \<and>
    (\<forall>(k, connection, consumer) \<in> set sel. \<exists>q. ws_peers td k = Some q \<and>
       wp_connection_id q = connection \<and> wp_consumer_id q = consumer) \<and>
    length sel = min (min (length offers) (wcf_max_offers cf)) (card (dom (ws_peers td) - {wa_peer_id request})) \<and>
    (\<forall>answerer offer. expects td' (wa_peer_id request) answerer offer \<longleftrightarrow>
       expects td (wa_peer_id request) answerer offer \<or> (answerer, offer) \<in> answer_pair ` set (zip offers sel))"
proof -
  let ?pid = "wa_peer_id request"
  have c': "clock 0 \<le> u32_max" "clock_ok (\<lambda>i. clock (Suc i))" using c by (simp_all add: clock_ok_def)
  from ws_swarm.insert_or_update_ok [OF assms(1) ok c'(1)] obtain td1 where
    i: "insert_or_update_peer xc cf (clock 0) meta request td = Some (announce_peer_status request, td1)"
    and ok1: "ws_td_ok td1" and td1: "ws_peers td1 = ws_spec_announce meta request
      (ValidUntil (word_of_nat (clock 0) + wcf_max_peer_age cf)) (ws_peers td)" by blast
  obtain p where p: "ws_peers td1 ?pid = Some p" using announcer_present [OF st] unfolding td1 by blast
  note s = spec_announce_expects [OF st td1]
  from ws_swarm.handle_offers_ok [OF assms(1) ok1 c'(2) p, of cf r "wa_info_hash request" offers] obtain td2 sel r' where
    h: "handle_offers xc cf r (\<lambda>i. clock (Suc i)) (wa_info_hash request) ?pid offers td1 =
      Some (td2, map (\<lambda>(offer, receiver). offer_message (wa_info_hash request) ?pid offer receiver) (zip offers sel), r')"
    and ok2: "ws_td_ok td2" and sel: "distinct (map fst sel)" "?pid \<notin> fst ` set sel"
      "\<forall>(k, conn, consumer) \<in> set sel. \<exists>q. ws_peers td1 k = Some q \<and> wp_connection_id q = conn \<and> wp_consumer_id q = consumer"
      "length sel = min (min (length offers) (wcf_max_offers cf)) (card (dom (ws_peers td1) - {?pid}))"
    and ex: "\<forall>answerer offer. expects td2 ?pid answerer offer \<longleftrightarrow>
       expects td1 ?pid answerer offer \<or> (answerer, offer) \<in> answer_pair ` set (zip offers sel)" by blast
  have "announce_torrent xc cf r clock meta request td =
      Some (td2, map (\<lambda>(offer, receiver). offer_message (wa_info_hash request) ?pid offer receiver)
          (zip offers sel) @ [(out_meta_of meta, ws_reply cf (wa_info_hash request) (ws_peers td2))], r')"
    using st o na h by (simp add: announce_torrent_def i pass_offers_def pass_answer_def ws_reply_def counts_exact [OF ok2])
  moreover have "\<forall>(k, connection, consumer) \<in> set sel. \<exists>q. ws_peers td k = Some q \<and>
       wp_connection_id q = connection \<and> wp_consumer_id q = consumer"
  proof (clarify)
    fix k conn consumer
    assume m: "(k, conn, consumer) \<in> set sel"
    then have "k \<noteq> ?pid" using sel(2) by force
    then show "\<exists>q. ws_peers td k = Some q \<and> wp_connection_id q = conn \<and> wp_consumer_id q = consumer"
      using sel(3) m s(3) by fastforce
  qed
  ultimately show ?thesis using sel(1,2,4) ex unfolding s(1,2) by blast
qed

lemma ws_offers_are_passed_on_witness:
  "\<exists>td' sel r'. announce_torrent ref_ws_crates ws_sample_config [] (\<lambda>i. 7) (ws_sample_meta 1)
      ((ws_sample_request 1)\<lparr>wa_offers := Some [ws_sample_offer]\<rparr>) ws_sample_td =
      Some (td', map (\<lambda>(offer, receiver). offer_message 5 1 offer receiver) (zip [ws_sample_offer] sel) @
        [(out_meta_of (ws_sample_meta 1), ws_reply ws_sample_config 5 (ws_peers td'))], r') \<and> length sel = 1"
proof -
  have "dom (ws_peers ws_sample_td) - {1} = {2}" by (auto simp: ws_sample_td_def split: if_splits)
  then have "card (dom (ws_peers ws_sample_td) - {1}) = 1" by simp
  moreover have "announce_peer_status ((ws_sample_request 1)\<lparr>wa_offers := Some [ws_sample_offer]\<rparr>) \<noteq> WsPeerStopped"
    by (simp add: announce_peer_status_def ws_sample_request_def ws_from_event_and_bytes_left_def)
  ultimately show ?thesis
    using ws_offers_are_passed_on [OF ws_ref.ws_swarm_axioms ws_sample_td_ok sample_clock_ok,
        where request = "(ws_sample_request 1)\<lparr>wa_offers := Some [ws_sample_offer]\<rparr>"
          and offers = "[ws_sample_offer]" and cf = ws_sample_config and r = "[]" and meta = "ws_sample_meta 1"]
    by (fastforce simp: ws_sample_request_def ws_sample_config_def)
qed

text \<open>C30. An answer is passed on at most once per offer. If the peer it is for has gone, nothing happens; if
  that peer expects it, it is sent to that peer's connection and no longer expected; else the sender
  is told so. Answering the same offer again yields the error. Peers are otherwise unchanged.\<close>

theorem ws_answers_are_delivered_once:
  assumes "ws_swarm xc" and "ws_td_ok td"
    and "handle_answer xc meta h pid rid offer answer td = (td', m)"
  shows "core_map (ws_peers td') = core_map (ws_peers td) \<and>
    (\<forall>a b. expects td' rid a b \<longleftrightarrow> expects td rid a b \<and> (a, b) \<noteq> (pid, offer)) \<and>
    (case ws_peers td rid of
       None \<Rightarrow> m = None
     | Some q \<Rightarrow>
         (if expects td rid pid offer then m = Some (answer_message h pid offer answer q)
          else (\<exists>e. m = Some (out_meta_of meta, WsError e))) \<and>
         (\<exists>e. snd (handle_answer xc meta' h pid rid offer answer' td') = Some (out_meta_of meta', WsError e)))"
proof -
  note h = ws_swarm.handle_answer_ok [OF assms]
  have ok': "ws_td_ok td'" and ex: "\<not> expects td' rid pid offer" using h by auto
  obtain td2 m2 where h2: "handle_answer xc meta' h pid rid offer answer' td' = (td2, m2)"
    by (cases "handle_answer xc meta' h pid rid offer answer' td'")
  show ?thesis
  proof (cases "ws_peers td rid")
    case None
    then show ?thesis using h core_only_answers by auto
  next
    case (Some q)
    then obtain q' where q': "ws_peers td' rid = Some q'"
      using h by (auto simp: only_answers_def split: if_splits)
    show ?thesis
      using h Some ws_swarm.handle_answer_ok [OF assms(1) ok' h2] q' ex h2 core_only_answers by auto
  qed
qed

lemma ws_answers_are_delivered_once_witness:
  "\<exists>td' m. handle_answer ref_ws_crates (ws_sample_meta 2) 5 2 1 77 \<lparr>ra_t = RtcAnswerType, ra_sdp = []\<rparr> ws_sample_td =
      (td', Some m) \<and> mo_connection_id (fst m) = 1 \<and> \<not> expects td' 1 2 77"
proof -
  obtain td' m where h: "handle_answer ref_ws_crates (ws_sample_meta 2) 5 2 1 77 \<lparr>ra_t = RtcAnswerType, ra_sdp = []\<rparr>
      ws_sample_td = (td', m)" by fastforce
  have "expects ws_sample_td 1 2 77" by (simp add: expects_def ws_sample_td_def)
  moreover obtain q where "ws_peers ws_sample_td 1 = Some q" "wp_connection_id q = 1"
    by (simp add: ws_sample_td_def new_peer_def ws_sample_meta_def)
  ultimately show ?thesis
    using h ws_answers_are_delivered_once [OF ws_ref.ws_swarm_axioms ws_sample_td_ok h]
    by (auto simp: answer_message_def)
qed

text \<open>The sampling of the receivers of offers skips the newest peer: where a torrent has more peers than the
  two halves of the sample take, the peer that was inserted last is never selected.\<close>

theorem newest_peer_gets_no_offers:
  assumes "rng_source gen" and "2 * (n div 2 + 1) \<le> length es" and "k \<notin> fst ` set es"
  shows "\<exists>sel r'. ws_extract_response_peers gen r (es @ [(k, v)]) n sender conv =
      Some (map (\<lambda>(k, v). conv k v) sel, r') \<and> k \<notin> fst ` set sel"
  using rng_source.ws_extract_never_last [OF assms] .

lemma newest_peer_gets_no_offers_witness:
  "\<exists>sel r'. ws_extract_response_peers ref_gen_range [4, 7] ([(1 :: nat, ''a''), (2, ''b''), (3, ''c''), (4, ''d'')] @ [(5, ''e'')])
      2 1 (\<lambda>k v. k) = Some (map (\<lambda>(k, v). k) (sel :: (nat \<times> string) list), r') \<and> 5 \<notin> fst ` set sel"
  using newest_peer_gets_no_offers [OF ref_gen_range_laws, where n = 2 and r = "[4, 7]" and sender = 1
      and es = "[(1 :: nat, ''a''), (2, ''b''), (3, ''c''), (4, ''d'')]" and k = 5 and v = "''e''"
      and conv = "\<lambda>k v. k"] by simp

end
