(* ===== verification/Ws_Connection_Spec.thy ===== *)
theory Ws_Connection_Spec
  imports Ws_Connection Ws_Swarm_Spec
begin

text \<open>
  What a WebTorrent connection and the swarm workers behind it promise together: which peers a closing
  connection leaves and which it takes along, that a scrape spread over the workers is answered as a
  whole, and which part of its headers decides the address a client is judged by.
\<close>

subsection \<open>Which connection a peer belongs to\<close>

definition owner :: "ws_torrent_maps \<Rightarrow> ws_ip_version \<Rightarrow> ws_info_hash \<Rightarrow> ws_peer_id \<Rightarrow> ws_connection_id option"
  where "owner maps v h k = map_option wp_connection_id (ws_peers (ws_torrent (by_version v maps) h) k)"

lemma owner_core: "map_option wp_connection_id (m k) = map_option wp_connection_id (core_map m k)"
  by (simp add: core_map_def peer_core_def option.map_comp comp_def)

lemma stopped_iff: "announce_peer_status request = WsPeerStopped \<longleftrightarrow> wa_event request = Some WsStopped"
  by (auto simp: announce_peer_status_def ws_from_event_and_bytes_left_def ws_announce_event_default_def
      split: option.splits)

lemma owner_spec_announce:
  "map_option wp_connection_id (ws_spec_announce meta request until m k) =
     (if k \<noteq> wa_peer_id request then map_option wp_connection_id (m k)
      else if wa_event request = Some WsStopped then None
      else (case m k of Some p \<Rightarrow> Some (wp_connection_id p) | None \<Rightarrow> Some (mi_connection_id meta)))"
  by (auto simp: ws_spec_announce_def stopped_iff Let_def new_peer_def split: option.splits)

context ws_swarm
begin

text \<open>An announce gives a peer only to its own connection, and takes the peer id away when it stops.\<close>

lemma owner_announce:
  assumes "ws_maps_ok maps" and "clock_ok clock"
    and "ws_handle_announce xc cf r clock meta request maps = Some (maps', ms, r')"
  shows "owner maps' v h k = Some b \<Longrightarrow> owner maps v h k = Some b \<or>
      b = mi_connection_id meta \<and> v = mi_ip_version meta \<and> h = wa_info_hash request \<and>
      k = wa_peer_id request \<and> wa_event request \<noteq> Some WsStopped"
    and "wa_event request = Some WsStopped \<Longrightarrow>
      owner maps' (mi_ip_version meta) (wa_info_hash request) (wa_peer_id request) \<noteq> Some (mi_connection_id meta)"
proof -
  let ?v = "mi_ip_version meta" and ?h = "wa_info_hash request"
  let ?td = "ws_torrent (by_version ?v maps) ?h"
  obtain tm' where tm': "ws_announce_map xc cf r clock meta request (by_version ?v maps) = Some (tm', ms, r')"
      "maps' = set_version ?v tm' maps"
    using assms(3) by (auto simp: ws_handle_announce_def)
  from announce_map_ok [OF by_version_ok [OF assms(1), of ?v] assms(2), of cf r meta request] tm'(1)
  have o: "\<And>h. h \<noteq> ?h \<Longrightarrow> ws_torrent tm' h = ws_torrent (by_version ?v maps) h"
    and t: "if foreign_peer_id meta request ?td then ws_torrent tm' = ws_torrent (by_version ?v maps)
      else core_map (ws_peers (ws_torrent tm' ?h)) = core_map (ws_spec_announce meta request
        (ValidUntil (word_of_nat (clock 0) + wcf_max_peer_age cf)) (ws_peers ?td))"
    by (auto split: if_splits)
  have c: "map_option wp_connection_id (ws_peers (ws_torrent tm' ?h) k) =
      (if foreign_peer_id meta request ?td then map_option wp_connection_id (ws_peers ?td k)
       else map_option wp_connection_id (ws_spec_announce meta request
        (ValidUntil (word_of_nat (clock 0) + wcf_max_peer_age cf)) (ws_peers ?td) k))" for k
    using t by (simp split: if_splits) (metis owner_core)
  show "owner maps' v h k = Some b \<Longrightarrow> owner maps v h k = Some b \<or>
      b = mi_connection_id meta \<and> v = ?v \<and> h = ?h \<and> k = wa_peer_id request \<and> wa_event request \<noteq> Some WsStopped"
    using o [of h] c [of k] unfolding owner_def tm'(2) by_set_version owner_spec_announce
    by (cases "v = ?v"; cases "h = ?h") (auto split: if_splits option.splits)
  show "owner maps' ?v ?h (wa_peer_id request) \<noteq> Some (mi_connection_id meta)"
    if "wa_event request = Some WsStopped"
    using c [of "wa_peer_id request"] that unfolding owner_def tm'(2) by_set_version owner_spec_announce
    by (auto simp: foreign_peer_id_def split: if_splits option.splits)
qed

lemma owner_closed:
  assumes "ws_maps_ok maps"
  shows "owner (ws_connection_closed xc h k v maps) w i j = (if (v, h, k) = (w, i, j) then None else owner maps w i j)"
proof -
  note ok = by_version_ok [OF assms, of v]
  note m = connection_closed_map [OF ok, of h k]
  note td = connection_closed_td [OF torrent_ok [OF ok], of k h]
  have "ws_peers (ws_torrent (map_connection_closed xc h k (by_version v maps)) i) =
      (if i = h then (ws_peers (ws_torrent (by_version v maps) h))(k := None)
       else ws_peers (ws_torrent (by_version v maps) i))"
    using m td by auto
  then show ?thesis by (auto simp: owner_def ws_connection_closed_def by_set_version)
qed

lemma owner_control:
  assumes "ws_maps_ok maps"
  shows "owner (swarm_control xc m maps) w i j =
    (if w = cc_ip_version m \<and> (i, j) \<in> set (cc_announced_info_hashes m) then None else owner maps w i j)"
proof -
  have "owner (fold (\<lambda>(h, k). ws_connection_closed xc h k v) es maps) w i j =
      (if w = v \<and> (i, j) \<in> set es then None else owner maps w i j)" for v es
    using assms
  proof (induction es arbitrary: maps)
    case (Cons e es)
    obtain h k where e: "e = (h, k)" by (cases e)
    have "ws_maps_ok (ws_connection_closed xc h k v maps)"
      unfolding ws_connection_closed_def
      using connection_closed_map [OF by_version_ok [OF Cons.prems]] set_version_ok [OF Cons.prems] by blast
    from Cons.IH [OF this] show ?case using owner_closed [OF Cons.prems] by (auto simp: e)
  qed simp
  then show ?thesis by (simp add: swarm_control_def)
qed

end

lemma clean_map_peers:
  assumes "ws_tm_ok tm" and "ws_peers (ws_torrent (ws_clean_map cf al now tm) h) k = Some q"
  shows "\<exists>p. ws_peers (ws_torrent tm h) k = Some p \<and> wp_connection_id q = wp_connection_id p"
  using assms
proof (induction tm)
  case Nil
  then show ?case by (simp add: ws_torrent_def ws_torrent_data_default_def)
next
  case (Cons e tm)
  obtain i td where e: "e = (i, td)" by (cases e)
  obtain td' n where c: "clean_and_get_num_peers now td = (td', n)" by (cases "clean_and_get_num_peers now td")
  have ok: "ws_tm_ok tm" "ws_td_ok td" "i \<notin> fst ` set tm"
    using Cons.prems by (auto simp: ws_tm_ok_def e)
  have none: "map_of (ws_clean_map cf al now tm) i = None"
    using ok(3) clean_map_keys [of cf al now tm] by (auto simp: map_of_eq_None_iff)
  show ?case
  proof (cases "h = i")
    case True
    then have "ws_peers td' k = Some q"
      using Cons.prems(2) none c
      by (auto simp: e ws_torrent_def ws_torrent_data_default_def Let_def split: if_splits)
    then show ?thesis
      using clean_td_ok(2) [OF ok(2) c] True
      by (auto simp: e ws_torrent_def clean_answers_def restrict_with_def split: option.splits if_splits)
  next
    case False
    then have "ws_peers (ws_torrent (ws_clean_map cf al now tm) h) k = Some q"
      using Cons.prems(2) c by (auto simp: e ws_torrent_def Let_def split: if_splits)
    then show ?thesis using Cons.IH [OF ok(1)] False by (simp add: e ws_torrent_def)
  qed
qed

lemma owner_clean:
  assumes "ws_maps_ok maps" and "ws_clean cf al secs maps = Some maps'" and "owner maps' v h k = Some b"
  shows "owner maps v h k = Some b"
proof -
  obtain now where "by_version v maps' = ws_clean_map cf al now (by_version v maps)"
    using assms(2) by (cases v) (auto simp: ws_clean_def)
  then show ?thesis
    using clean_map_peers [OF by_version_ok [OF assms(1)], of cf al now v h k] assms(3) by (auto simp: owner_def)
qed

subsection \<open>A connection among others\<close>

text \<open>
  A connection and the maps of all swarm workers. Its announces go to each worker through one channel,
  the messages of its closing through another: each channel keeps its order, and the worker's tasks
  read the two independently. The reader waits while an announce is being sent; the end of the
  connection cancels it there. Beside the state, two lists remember what the closing outran: the
  announces a worker handled after it had no more message of the closing to come, and the one that was
  never sent.
\<close>

record 's ws_session =
  se_connection :: "'s ws_connection"
  se_open :: bool
  se_waiting :: "(nat \<times> in_message_meta \<times> ws_announce_request) option"
  se_requests :: "nat \<Rightarrow> (in_message_meta \<times> ws_announce_request) list"
  se_closings :: "nat \<Rightarrow> swarm_control_message list"
  se_maps :: "nat \<Rightarrow> ws_torrent_maps"
  se_late :: "(nat \<times> ws_announce_request) list"
  se_unsent :: "(nat \<times> ws_announce_request) list"

definition session_start :: "'s ws_connection \<Rightarrow> (nat \<Rightarrow> ws_torrent_maps) \<Rightarrow> 's ws_session" where
  "session_start c maps = \<lparr>se_connection = c, se_open = True, se_waiting = None, se_requests = (\<lambda>_. []),
     se_closings = (\<lambda>_. []), se_maps = maps, se_late = [], se_unsent = []\<rparr>"

definition session_closed ::
  "ws_socket_config \<Rightarrow> ws_connection_info \<Rightarrow> 's ws_session \<Rightarrow> 's ws_session" where
  "session_closed cf ci s = s\<lparr>se_open := False, se_waiting := None,
     se_closings := (\<lambda>w. case map_of (after_close cf ci (se_connection s)) w of None \<Rightarrow> [] | Some m \<Rightarrow> [m]),
     se_unsent := (case se_waiting s of None \<Rightarrow> [] | Some (w, meta, request) \<Rightarrow> [(w, request)])\<rparr>"

text \<open>
  The first steps are the connection's own; the channels; the others are those of everybody else:
  announces of other connections, which have other ids, their closing, cleaning.
\<close>

inductive session ::
  "('s, 'n) ws_conn_crates \<Rightarrow> 'r ws_crates \<Rightarrow> ws_socket_config \<Rightarrow> ws_connection_info \<Rightarrow> 's ws_session \<Rightarrow> bool"
  for x xs cf ci where
  opened: "cn_announced_info_hashes c = [] \<Longrightarrow> (\<And>w. ws_reachable xs (wsc_swarm cf) (maps w)) \<Longrightarrow>
    (\<And>w v h k. owner (maps w) v h k \<noteq> Some (ci_connection_id ci)) \<Longrightarrow>
    session x xs cf ci (session_start c maps)"
| announced: "session x xs cf ci s \<Longrightarrow> se_open s \<Longrightarrow> se_waiting s = None \<Longrightarrow>
    reader_announce x cf ge ci request (se_connection s) = (c', [ToSwarm w meta (WsInAnnounce request)], None) \<Longrightarrow>
    session x xs cf ci (s\<lparr>se_connection := c', se_waiting := Some (w, meta, request)\<rparr>)"
| refused: "session x xs cf ci s \<Longrightarrow> se_open s \<Longrightarrow> se_waiting s = None \<Longrightarrow>
    reader_announce x cf ge ci request (se_connection s) = (c', [ToWriter meta m], err) \<Longrightarrow>
    session x xs cf ci (s\<lparr>se_connection := c'\<rparr>)"
| scraped: "session x xs cf ci s \<Longrightarrow> se_open s \<Longrightarrow> se_waiting s = None \<Longrightarrow>
    reader_scrape x cf ge ci scrape (se_connection s) = (c', sends, err) \<Longrightarrow>
    session x xs cf ci (s\<lparr>se_connection := c'\<rparr>)"
| written: "session x xs cf ci s \<Longrightarrow> se_open s \<Longrightarrow>
    write_message x cf sent_ok secs meta m (se_connection s) = Some (c', out, err) \<Longrightarrow>
    session x xs cf ci (s\<lparr>se_connection := c'\<rparr>)"
| passed_on: "session x xs cf ci s \<Longrightarrow> se_waiting s = Some (w, e) \<Longrightarrow>
    session x xs cf ci (s\<lparr>se_waiting := None, se_requests := (se_requests s)(w := se_requests s w @ [e])\<rparr>)"
| handled: "session x xs cf ci s \<Longrightarrow> se_requests s w = (meta, request) # rest \<Longrightarrow> clock_ok clock \<Longrightarrow>
    ws_handle_announce xs (wsc_swarm cf) r clock meta request (se_maps s w) = Some (maps', ms, r') \<Longrightarrow>
    session x xs cf ci (s\<lparr>se_requests := (se_requests s)(w := rest), se_maps := (se_maps s)(w := maps'),
      se_late := (if \<not> se_open s \<and> se_closings s w = [] then (w, request) # se_late s else se_late s)\<rparr>)"
| closed: "session x xs cf ci s \<Longrightarrow> se_open s \<Longrightarrow> session x xs cf ci (session_closed cf ci s)"
| closing_handled: "session x xs cf ci s \<Longrightarrow> se_closings s w = m # rest \<Longrightarrow>
    session x xs cf ci (s\<lparr>se_closings := (se_closings s)(w := rest),
      se_maps := (se_maps s)(w := swarm_control xs m (se_maps s w))\<rparr>)"
| other_announce: "session x xs cf ci s \<Longrightarrow> mi_connection_id meta \<noteq> ci_connection_id ci \<Longrightarrow>
    clock_ok clock \<Longrightarrow>
    ws_handle_announce xs (wsc_swarm cf) r clock meta request (se_maps s w) = Some (maps', ms, r') \<Longrightarrow>
    session x xs cf ci (s\<lparr>se_maps := (se_maps s)(w := maps')\<rparr>)"
| other_closed: "session x xs cf ci s \<Longrightarrow>
    session x xs cf ci (s\<lparr>se_maps := (se_maps s)(w := swarm_control xs m (se_maps s w))\<rparr>)"
| cleaned: "session x xs cf ci s \<Longrightarrow> ws_clean (wsc_swarm cf) al secs (se_maps s w) = Some maps' \<Longrightarrow>
    session x xs cf ci (s\<lparr>se_maps := (se_maps s)(w := maps')\<rparr>)"

text \<open>What an announce makes of the peers a connection has.\<close>

definition announced_pair :: "ws_announce_request \<Rightarrow> ws_info_hash \<times> ws_peer_id" where
  "announced_pair request = (wa_info_hash request, wa_peer_id request)"

definition tell :: "ws_announce_request \<Rightarrow> (ws_info_hash \<times> ws_peer_id) set \<Rightarrow> (ws_info_hash \<times> ws_peer_id) set" where
  "tell request S = (if wa_event request = Some WsStopped then S - {announced_pair request}
     else insert (announced_pair request) S)"

lemma fold_tell_mono: "S \<subseteq> T \<Longrightarrow> fold tell reqs S \<subseteq> fold tell reqs T"
proof (induction reqs arbitrary: S T)
  case (Cons request reqs)
  have "tell request S \<subseteq> tell request T" using Cons.prems by (auto simp: tell_def)
  from Cons.IH [OF this] show ?case by simp
qed simp

definition stopped_pairs :: "ws_announce_request list \<Rightarrow> (ws_info_hash \<times> ws_peer_id) set" where
  "stopped_pairs reqs = announced_pair ` {request \<in> set reqs. wa_event request = Some WsStopped}"

definition live_pairs :: "ws_announce_request list \<Rightarrow> (ws_info_hash \<times> ws_peer_id) set" where
  "live_pairs reqs = announced_pair ` {request \<in> set reqs. wa_event request \<noteq> Some WsStopped}"

text \<open>A peer that the announces to come do not leave is stopped by one of them.\<close>

lemma fold_tell_stops: "S \<subseteq> fold tell reqs S \<union> stopped_pairs reqs"
proof -
  have "p \<in> fold tell reqs T \<union> stopped_pairs reqs" if "p \<in> T" for p T
    using that
  proof (induction reqs arbitrary: T)
    case (Cons request reqs)
    show ?case
    proof (cases "p \<in> tell request T")
      case True
      from Cons.IH [OF this] show ?thesis by (auto simp: stopped_pairs_def)
    next
      case False
      then show ?thesis using Cons.prems by (auto simp: tell_def stopped_pairs_def split: if_splits)
    qed
  qed simp
  then show ?thesis by blast
qed

text \<open>The announces on their way to a worker, and the peers the connection has there.\<close>

definition under_way :: "'s ws_session \<Rightarrow> nat \<Rightarrow> (in_message_meta \<times> ws_announce_request) list" where
  "under_way s w = se_requests s w @ (case se_waiting s of Some (u, e) \<Rightarrow> if u = w then [e] else [] | None \<Rightarrow> [])"

definition own_peers :: "ws_connection_info \<Rightarrow> ws_torrent_maps \<Rightarrow> (ws_info_hash \<times> ws_peer_id) set" where
  "own_peers ci maps = {(h, k). owner maps (ci_ip_version ci) h k = Some (ci_connection_id ci)}"

definition registered :: "'s ws_connection \<Rightarrow> (ws_info_hash \<times> ws_peer_id) set" where
  "registered c = {(h, k). map_of (cn_announced_info_hashes c) h = Some k}"

definition of_worker :: "nat \<Rightarrow> (nat \<times> ws_announce_request) list \<Rightarrow> ws_announce_request list" where
  "of_worker w es = map snd (filter (\<lambda>e. fst e = w) es)"

definition maps_known :: "ws_socket_config \<Rightarrow> ws_connection_info \<Rightarrow> (nat \<Rightarrow> ws_torrent_maps) \<Rightarrow> bool" where
  "maps_known cf ci maps \<longleftrightarrow> (\<forall>w. ws_maps_ok (maps w)) \<and>
     (\<forall>w v h k. owner (maps w) v h k = Some (ci_connection_id ci) \<longrightarrow>
        w = calculate_in_message_consumer_index (wsc_swarm cf) h \<and> v = ci_ip_version ci)"

definition channels_known :: "ws_socket_config \<Rightarrow> ws_connection_info \<Rightarrow> 's ws_session \<Rightarrow> bool" where
  "channels_known cf ci s \<longleftrightarrow>
     (\<forall>w. \<forall>e \<in> set (under_way s w). fst e = make_connection_meta ci None \<and>
        w = calculate_in_message_consumer_index (wsc_swarm cf) (wa_info_hash (snd e))) \<and>
     (if se_open s then se_closings s = (\<lambda>_. []) \<and> se_late s = [] \<and> se_unsent s = [] else se_waiting s = None) \<and>
     (\<forall>w m ms. se_closings s w = m # ms \<longrightarrow>
        map_of (after_close cf ci (se_connection s)) w = Some m \<and> ms = [])"

text \<open>
  What the cleanup data knows: every peer that the announces under way will leave the connection. Once
  a worker has handled the closing, a peer is left there by an announce the closing outran, or an
  announce still to be handled stops it.
\<close>

definition peers_known :: "ws_connection_info \<Rightarrow> 's ws_session \<Rightarrow> nat \<Rightarrow> bool" where
  "peers_known ci s w \<longleftrightarrow>
     (if se_open s \<or> se_closings s w \<noteq> []
      then fold tell (map snd (under_way s w)) (own_peers ci (se_maps s w)) \<subseteq>
        registered (se_connection s) \<union> stopped_pairs (of_worker w (se_unsent s))
      else own_peers ci (se_maps s w) \<subseteq> live_pairs (of_worker w (se_late s)) \<union>
        stopped_pairs (of_worker w (se_unsent s)) \<union> stopped_pairs (map snd (se_requests s w)))"

definition session_inv :: "ws_socket_config \<Rightarrow> ws_connection_info \<Rightarrow> 's ws_session \<Rightarrow> bool" where
  "session_inv cf ci s \<longleftrightarrow> distinct (map fst (cn_announced_info_hashes (se_connection s))) \<and>
     maps_known cf ci (se_maps s) \<and> channels_known cf ci s \<and> (\<forall>w. peers_known ci s w)"

lemma reader_announce_sent:
  assumes "reader_announce x cf ge ci request c = (c', [ToSwarm w meta m], err)"
  shows "w = calculate_in_message_consumer_index (wsc_swarm cf) (wa_info_hash request) \<and>
    meta = make_connection_meta ci None \<and> m = WsInAnnounce request \<and>
    map_of (cn_announced_info_hashes c') = (map_of (cn_announced_info_hashes c))(wa_info_hash request :=
      (if wa_event request = Some WsStopped then None else Some (wa_peer_id request))) \<and>
    map_of (cn_announced_info_hashes c) (wa_info_hash request) \<in> {None, Some (wa_peer_id request)} \<and>
    (distinct (map fst (cn_announced_info_hashes c)) \<longrightarrow> distinct (map fst (cn_announced_info_hashes c')))"
  using assms
  by (auto simp: reader_announce_def Let_def send_error_response_def delete_conv' update_conv' fun_eq_iff
      distinct_update distinct_delete
      split: prod.splits if_splits option.splits)

lemma reader_announce_refused:
  "reader_announce x cf ge ci request c = (c', [ToWriter meta m], err) \<Longrightarrow>
   cn_announced_info_hashes c' = cn_announced_info_hashes c"
  by (auto simp: reader_announce_def Let_def split: prod.splits if_splits option.splits)

lemma reader_scrape_announced:
  "reader_scrape x cf ge ci request c = (c', sends, err) \<Longrightarrow>
   cn_announced_info_hashes c' = cn_announced_info_hashes c"
  by (auto simp: reader_scrape_def Let_def split: prod.splits if_splits option.splits)

lemma send_out_message_frame:
  "send_out_message cf sent_ok secs m c = Some (c', out, err) \<Longrightarrow>
   cn_announced_info_hashes c' = cn_announced_info_hashes c \<and> cn_pending_scrapes c' = cn_pending_scrapes c"
  by (auto simp: send_out_message_def split: if_splits ws_out_message.splits)

lemma write_message_announced:
  "write_message x cf sent_ok secs meta m c = Some (c', out, err) \<Longrightarrow>
   cn_announced_info_hashes c' = cn_announced_info_hashes c"
  by (auto simp: write_message_def Let_def dest!: send_out_message_frame
      split: if_splits ws_out_message.splits option.splits)

subsection \<open>Closing\<close>

lemma after_close_at:
  "map_of (after_close cf ci c) w =
     (let ys = filter (\<lambda>(h, k). calculate_in_message_consumer_index (wsc_swarm cf) h = w)
        (cn_announced_info_hashes c)
      in if ys = [] then None else Some \<lparr>cc_ip_version = ci_ip_version ci, cc_announced_info_hashes = ys\<rparr>)"
proof -
  have m: "map_of (map (\<lambda>(w, ys). (w, f ys)) es) w = map_option f (map_of es w)"
    for f :: "(ws_info_hash \<times> ws_peer_id) list \<Rightarrow> swarm_control_message" and es
    by (induction es) auto
  show ?thesis
    unfolding after_close_def m map_of_by_worker by (simp add: Let_def case_prod_unfold)
qed

text \<open>The message of a closing takes the peers of its worker out that the cleanup data has, and no other.\<close>

lemma owner_after_close:
  assumes "ws_swarm xs" and "ws_maps_ok maps" and "distinct (map fst (cn_announced_info_hashes c))"
    and "map_of (after_close cf ci c) w = Some m"
  shows "owner (swarm_control xs m maps) v h k =
    (if w = calculate_in_message_consumer_index (wsc_swarm cf) h \<and> v = ci_ip_version ci \<and>
       map_of (cn_announced_info_hashes c) h = Some k then None else owner maps v h k)"
proof -
  have "map_of (cn_announced_info_hashes c) h = Some k \<longleftrightarrow> (h, k) \<in> set (cn_announced_info_hashes c)"
    using assms(3) by simp
  then show ?thesis
    using ws_swarm.owner_control [OF assms(1,2), of m v h k] assms(4)
    by (auto simp: after_close_at Let_def split: if_splits)
qed

lemma unregistered_worker:
  assumes "map_of (after_close cf ci c) w = None" and "(h, k) \<in> registered c"
  shows "w \<noteq> calculate_in_message_consumer_index (wsc_swarm cf) h"
  using assms map_of_SomeD by (fastforce simp: after_close_at Let_def registered_def filter_empty_conv split: if_splits)

subsection \<open>Every step of a session\<close>

lemma fold_tell_live: "fold tell reqs S \<subseteq> S \<union> live_pairs reqs"
proof (induction reqs arbitrary: S)
  case (Cons request reqs)
  have "tell request S \<subseteq> S \<union> live_pairs [request]" by (auto simp: tell_def live_pairs_def)
  then show ?case using Cons.IH [of "tell request S"] by (fastforce simp: live_pairs_def)
qed (simp add: live_pairs_def)

lemma maps_knownD:
  assumes "maps_known cf ci maps"
  shows "ws_maps_ok (maps w)" and "owner (maps w) v h k = Some (ci_connection_id ci) \<Longrightarrow>
      w = calculate_in_message_consumer_index (wsc_swarm cf) h"
    and "owner (maps w) v h k = Some (ci_connection_id ci) \<Longrightarrow> v = ci_ip_version ci"
  using assms unfolding maps_known_def by blast+

lemma session_invD:
  assumes "session_inv cf ci s"
  shows "distinct (map fst (cn_announced_info_hashes (se_connection s)))" and "ws_maps_ok (se_maps s w)"
    and "p \<in> own_peers ci (se_maps s w) \<Longrightarrow> w = calculate_in_message_consumer_index (wsc_swarm cf) (fst p)"
    and "owner (se_maps s w) v h k = Some (ci_connection_id ci) \<Longrightarrow> (h, k) \<in> own_peers ci (se_maps s w) \<and> v = ci_ip_version ci"
    and "channels_known cf ci s" and "peers_known ci s w"
proof -
  have m: "maps_known cf ci (se_maps s)" and rest: "distinct (map fst (cn_announced_info_hashes (se_connection s)))"
    "channels_known cf ci s" "peers_known ci s w" using assms by (simp_all add: session_inv_def)
  show "distinct (map fst (cn_announced_info_hashes (se_connection s)))" "channels_known cf ci s" "peers_known ci s w"
    by (fact rest)+
  show "ws_maps_ok (se_maps s w)" by (rule maps_knownD(1) [OF m])
  show "p \<in> own_peers ci (se_maps s w) \<Longrightarrow> w = calculate_in_message_consumer_index (wsc_swarm cf) (fst p)"
    by (cases p) (simp add: own_peers_def maps_knownD(2) [OF m])
  show "(h, k) \<in> own_peers ci (se_maps s w) \<and> v = ci_ip_version ci"
    if "owner (se_maps s w) v h k = Some (ci_connection_id ci)"
    using that maps_knownD(3) [OF m that] by (simp add: own_peers_def)
qed

text \<open>A map of a worker is changed, and the connection's peers there are among those it had or belong there.\<close>

lemma maps_known_update:
  assumes "maps_known cf ci maps" and "ws_maps_ok maps'"
    and "\<And>v h k. owner maps' v h k = Some (ci_connection_id ci) \<Longrightarrow>
      owner (maps w) v h k = Some (ci_connection_id ci) \<or>
      w = calculate_in_message_consumer_index (wsc_swarm cf) h \<and> v = ci_ip_version ci"
  shows "maps_known cf ci (maps(w := maps'))"
proof -
  have "ws_maps_ok ((maps(w := maps')) u)" for u using assms(2) maps_knownD(1) [OF assms(1)] by simp
  moreover have "u = calculate_in_message_consumer_index (wsc_swarm cf) h \<and> v = ci_ip_version ci"
    if o: "owner ((maps(w := maps')) u) v h k = Some (ci_connection_id ci)" for u v h k
  proof (cases "u = w")
    case True
    then have "owner maps' v h k = Some (ci_connection_id ci)" using o by simp
    from assms(3) [OF this] show ?thesis using maps_knownD(2,3) [OF assms(1)] True by blast
  next
    case False
    then have "owner (maps u) v h k = Some (ci_connection_id ci)" using o by simp
    then show ?thesis using maps_knownD(2,3) [OF assms(1)] by blast
  qed
  ultimately show ?thesis unfolding maps_known_def by blast
qed

lemma pairs_simps [simp]:
  "stopped_pairs [] = {}" "live_pairs [] = {}"
  "stopped_pairs (request # reqs) =
     (if wa_event request = Some WsStopped then insert (announced_pair request) (stopped_pairs reqs) else stopped_pairs reqs)"
  "live_pairs (request # reqs) =
     (if wa_event request = Some WsStopped then live_pairs reqs else insert (announced_pair request) (live_pairs reqs))"
  by (auto simp: stopped_pairs_def live_pairs_def)

lemma of_worker_simps [simp]:
  "of_worker w [] = []"
  "of_worker w (e # es) = (if fst e = w then snd e # of_worker w es else of_worker w es)"
  by (simp_all add: of_worker_def)

lemma channels_known_less:
  assumes "channels_known cf ci s" and "\<And>u. set (under_way s' u) \<subseteq> set (under_way s u)"
    and "if se_open s' then se_closings s' = (\<lambda>_. []) \<and> se_late s' = [] \<and> se_unsent s' = [] else se_waiting s' = None"
    and "\<And>w m ms. se_closings s' w = m # ms \<Longrightarrow>
      map_of (after_close cf ci (se_connection s')) w = Some m \<and> ms = []"
  shows "channels_known cf ci s'"
  unfolding channels_known_def using assms(1) [unfolded channels_known_def] assms(2-4) by blast

lemma channels_knownD:
  assumes "channels_known cf ci s"
  shows "se_open s \<Longrightarrow> se_closings s = (\<lambda>_. []) \<and> se_late s = [] \<and> se_unsent s = []"
    and "\<not> se_open s \<Longrightarrow> se_waiting s = None"
    and "se_closings s w = m # ms \<Longrightarrow> map_of (after_close cf ci (se_connection s)) w = Some m \<and> ms = []"
  using assms by (simp_all add: channels_known_def)

text \<open>Steps that change a map and leave the connection no new peer there.\<close>

lemma session_inv_shrunk:
  assumes inv: "session_inv cf ci s" and "ws_maps_ok maps'"
    and own: "\<And>v h k. owner maps' v h k = Some (ci_connection_id ci) \<Longrightarrow>
      owner (se_maps s w) v h k = Some (ci_connection_id ci)"
  shows "session_inv cf ci (s\<lparr>se_maps := (se_maps s)(w := maps')\<rparr>)"
proof -
  let ?s = "s\<lparr>se_maps := (se_maps s)(w := maps')\<rparr>"
  have sub: "own_peers ci (se_maps ?s u) \<subseteq> own_peers ci (se_maps s u)" for u
    using own by (auto simp: own_peers_def)
  have "maps_known cf ci (se_maps ?s)"
    using maps_known_update [of cf ci "se_maps s" maps' w] inv assms(2) own by (simp add: session_inv_def)
  moreover have "channels_known cf ci ?s"
    using inv by (simp add: session_inv_def channels_known_def under_way_def)
  moreover have "peers_known ci ?s u" for u
  proof -
    have same: "under_way ?s u = under_way s u" by (simp add: under_way_def)
    show ?thesis
      using session_invD(6) [OF inv, of u] sub [of u] fold_tell_mono [OF sub [of u], of "map snd (under_way s u)"]
      unfolding peers_known_def same by (auto split: if_splits)
  qed
  ultimately show ?thesis using inv by (simp add: session_inv_def)
qed

text \<open>Steps that change the connection alone, and not its cleanup data.\<close>

lemma session_inv_same:
  assumes "session_inv cf ci s" and "cn_announced_info_hashes c' = cn_announced_info_hashes (se_connection s)"
  shows "session_inv cf ci (s\<lparr>se_connection := c'\<rparr>)"
proof -
  let ?s = "s\<lparr>se_connection := c'\<rparr>"
  have same: "after_close cf ci c' = after_close cf ci (se_connection s)" "registered c' = registered (se_connection s)"
    "under_way ?s w = under_way s w" for w
    using assms(2) by (simp_all add: after_close_def registered_def under_way_def)
  have "channels_known cf ci ?s = channels_known cf ci s" "peers_known ci ?s w = peers_known ci s w" for w
    by (simp_all add: channels_known_def peers_known_def same)
  then show ?thesis using assms by (simp add: session_inv_def)
qed

lemma under_way_entry:
  assumes "session_inv cf ci s" and "e \<in> set (under_way s w)"
  shows "fst e = make_connection_meta ci None"
    and "w = calculate_in_message_consumer_index (wsc_swarm cf) (fst (announced_pair (snd e)))"
  using session_invD(5) [OF assms(1)] assms(2) by (auto simp: channels_known_def announced_pair_def)

text \<open>The reader accepts an announce: the cleanup data foresees what it will leave.\<close>

lemma session_inv_announced:
  assumes inv: "session_inv cf ci s" and "se_open s" and wait: "se_waiting s = None"
    and a: "reader_announce x cf ge ci request (se_connection s) = (c', [ToSwarm w meta (WsInAnnounce request)], None)"
  shows "session_inv cf ci (s\<lparr>se_connection := c', se_waiting := Some (w, meta, request)\<rparr>)"
proof -
  let ?s = "s\<lparr>se_connection := c', se_waiting := Some (w, meta, request)\<rparr>" and ?c = "se_connection s"
  let ?index = "calculate_in_message_consumer_index (wsc_swarm cf)"
  note s = reader_announce_sent [OF a]
  have way: "under_way ?s u = under_way s u @ (if u = w then [(meta, request)] else [])" for u
    by (simp add: under_way_def wait)
  have ch: "se_closings s = (\<lambda>_. [])" "se_late s = []" "se_unsent s = []"
    using session_invD(5) [OF inv] assms(2) by (simp_all add: channels_known_def)
  have reg: "tell request (registered ?c) \<subseteq> registered c'"
    "p \<in> registered ?c \<Longrightarrow> fst p \<noteq> wa_info_hash request \<Longrightarrow> p \<in> registered c'" for p
    using s by (auto simp: registered_def tell_def announced_pair_def split: if_splits)
  have "peers_known ci ?s u" for u
  proof -
    let ?T = "fold tell (map snd (under_way s u)) (own_peers ci (se_maps s u))"
    have T: "?T \<subseteq> registered ?c"
      using session_invD(6) [OF inv, of u] assms(2) by (simp add: peers_known_def ch)
    have "tell request ?T \<subseteq> registered c'" using fold_tell_mono [OF T, of "[request]"] reg(1) by simp
    moreover have "?T \<subseteq> registered c'" if "u \<noteq> w"
    proof
      fix p assume p: "p \<in> ?T"
      then have "p \<in> own_peers ci (se_maps s u) \<or> p \<in> live_pairs (map snd (under_way s u))"
        using fold_tell_live [of "map snd (under_way s u)" "own_peers ci (se_maps s u)"] by blast
      then have "u = ?index (fst p)"
        using session_invD(3) [OF inv, of p u] under_way_entry(2) [OF inv, of _ u] by (auto simp: live_pairs_def)
      then have "fst p \<noteq> wa_info_hash request" using that s by auto
      then show "p \<in> registered c'" using reg(2) T p by blast
    qed
    ultimately show ?thesis by (simp add: peers_known_def assms(2) way) blast
  qed
  moreover have "channels_known cf ci ?s"
  proof -
    have "fst e = make_connection_meta ci None \<and> u = ?index (wa_info_hash (snd e))" if "e \<in> set (under_way ?s u)" for e u
      using that s under_way_entry [OF inv, of e u] unfolding way [of u] by (auto simp: announced_pair_def split: if_splits)
    then show ?thesis using assms(2) ch unfolding channels_known_def by simp
  qed
  moreover have "distinct (map fst (cn_announced_info_hashes c'))" using s session_invD(1) [OF inv] by blast
  ultimately show ?thesis using inv by (simp add: session_inv_def)
qed

lemma session_inv_passed_on:
  assumes inv: "session_inv cf ci s" and "se_waiting s = Some (w, e)"
  shows "session_inv cf ci (s\<lparr>se_waiting := None, se_requests := (se_requests s)(w := se_requests s w @ [e])\<rparr>)"
proof -
  let ?s = "s\<lparr>se_waiting := None, se_requests := (se_requests s)(w := se_requests s w @ [e])\<rparr>"
  have way: "under_way ?s u = under_way s u" for u using assms(2) by (simp add: under_way_def)
  have "se_open s" using session_invD(5) [OF inv] assms(2) by (auto simp: channels_known_def split: if_splits)
  then have "channels_known cf ci ?s" "peers_known ci ?s u" for u
    using session_invD(5,6) [OF inv] by (simp_all add: channels_known_def peers_known_def way)
  then show ?thesis using inv by (simp add: session_inv_def)
qed

text \<open>A worker handles an announce of the connection.\<close>

lemma session_inv_handled:
  assumes "ws_swarm xs" and inv: "session_inv cf ci s" and q: "se_requests s w = (meta, request) # rest"
    and "clock_ok clock"
    and h: "ws_handle_announce xs (wsc_swarm cf) r clock meta request (se_maps s w) = Some (maps', ms, r')"
  shows "session_inv cf ci (s\<lparr>se_requests := (se_requests s)(w := rest), se_maps := (se_maps s)(w := maps'),
      se_late := (if \<not> se_open s \<and> se_closings s w = [] then (w, request) # se_late s else se_late s)\<rparr>)"
    (is "session_inv cf ci ?s")
proof -
  have way: "under_way s u = (if u = w then [(meta, request)] else []) @ under_way ?s u" for u
    by (simp add: under_way_def q)
  then have e: "(meta, request) \<in> set (under_way s w)" by simp
  note meta = under_way_entry(1) [OF inv e, simplified] and index = under_way_entry(2) [OF inv e, simplified]
  have ids: "mi_connection_id meta = ci_connection_id ci" "mi_ip_version meta = ci_ip_version ci"
    by (simp_all add: meta make_connection_meta_def)
  note ok = session_invD(2) [OF inv, of w]
  note own = ws_swarm.owner_announce [OF assms(1) ok assms(4) h, unfolded ids]
  have told: "own_peers ci maps' \<subseteq> tell request (own_peers ci (se_maps s w))"
    using own(1) own(2) by (fastforce simp: own_peers_def tell_def announced_pair_def)
  have "maps_known cf ci (se_maps ?s)"
    using maps_known_update [of cf ci "se_maps s" maps' w] inv own(1) ws_swarm.handle_announce_ok [OF assms(1) ok assms(4) h]
      index by (fastforce simp: session_inv_def announced_pair_def)
  moreover have "channels_known cf ci ?s"
  proof (rule channels_known_less [OF session_invD(5) [OF inv]])
    show "set (under_way ?s u) \<subseteq> set (under_way s u)" for u unfolding way [of u] by simp
  qed (use channels_knownD [OF session_invD(5) [OF inv]] in auto)
  moreover have "peers_known ci ?s u" for u
  proof (cases "u = w")
    case False
    then have "under_way ?s u = under_way s u" by (simp add: way)
    then show ?thesis
      using session_invD(6) [OF inv, of u] False by (simp add: peers_known_def)
  next
    case True
    have "fold tell (map snd (under_way ?s w)) (own_peers ci maps') \<subseteq>
        fold tell (map snd (under_way s w)) (own_peers ci (se_maps s w))"
      using fold_tell_mono [OF told, of "map snd (under_way ?s w)"] by (simp add: way)
    then show ?thesis
      using session_invD(6) [OF inv, of w] told True
      by (auto simp: peers_known_def q tell_def split: if_splits)
  qed
  ultimately show ?thesis using inv by (simp add: session_inv_def)
qed

text \<open>The connection ends: the messages of its closing are on their way.\<close>

lemma session_inv_closed:
  assumes inv: "session_inv cf ci s" and "se_open s"
  shows "session_inv cf ci (session_closed cf ci s)"
proof -
  let ?s = "session_closed cf ci s" and ?reg = "registered (se_connection s)"
  have sel: "se_open ?s = False" "se_waiting ?s = None" "se_maps ?s = se_maps s" "se_requests ?s = se_requests s"
    "se_connection ?s = se_connection s" "se_late ?s = se_late s"
    by (simp_all add: session_closed_def)
  have way: "under_way ?s u = se_requests s u" for u by (simp add: under_way_def sel)
  have ch: "se_late s = []" "se_unsent s = []" using session_invD(5) [OF inv] assms(2) by (simp_all add: channels_known_def)
  have sent: "fold tell (map snd (se_requests s u)) (own_peers ci (se_maps s u)) \<subseteq>
      ?reg \<union> stopped_pairs (of_worker u (se_unsent ?s))" (is "?T \<subseteq> _") for u
  proof (cases "se_waiting s")
    case None
    then show ?thesis using session_invD(6) [OF inv, of u] assms(2) by (auto simp: peers_known_def under_way_def ch session_closed_def)
  next
    case (Some e)
    obtain w meta request where e: "e = (w, meta, request)" by (cases e)
    have "(if u = w then tell request ?T else ?T) \<subseteq> ?reg"
      using session_invD(6) [OF inv, of u] assms(2)
      by (simp add: peers_known_def under_way_def ch Some e split: if_splits)
    then show ?thesis
      by (auto simp: session_closed_def Some e tell_def split: if_splits)
  qed
  have "peers_known ci ?s u" for u
  proof (cases "map_of (after_close cf ci (se_connection s)) u")
    case None
    have "own_peers ci (se_maps s u) \<subseteq> stopped_pairs (of_worker u (se_unsent ?s)) \<union> stopped_pairs (map snd (se_requests s u))"
    proof
      fix p assume p: "p \<in> own_peers ci (se_maps s u)"
      have "p \<notin> ?reg" using unregistered_worker [OF None, of "fst p" "snd p"] session_invD(3) [OF inv p] by auto
      then show "p \<in> stopped_pairs (of_worker u (se_unsent ?s)) \<union> stopped_pairs (map snd (se_requests s u))"
        using p sent [of u] fold_tell_stops [of "own_peers ci (se_maps s u)" "map snd (se_requests s u)"] by blast
    qed
    moreover have "se_closings ?s u = []" by (simp add: session_closed_def None)
    ultimately show ?thesis by (auto simp: peers_known_def sel)
  next
    case (Some m)
    then have "se_closings ?s u \<noteq> []" by (simp add: session_closed_def)
    then show ?thesis using sent [of u] by (simp add: peers_known_def way sel)
  qed
  moreover have "channels_known cf ci ?s"
  proof (rule channels_known_less [OF session_invD(5) [OF inv]])
    show "set (under_way ?s u) \<subseteq> set (under_way s u)" for u unfolding way by (simp add: under_way_def)
    show "map_of (after_close cf ci (se_connection ?s)) u = Some m \<and> ms = []" if "se_closings ?s u = m # ms" for u m ms
      using that by (simp add: session_closed_def split: option.splits)
  qed (simp add: sel)
  ultimately show ?thesis using inv by (simp add: session_inv_def sel)
qed

text \<open>A worker handles the closing.\<close>

lemma session_inv_closing_handled:
  assumes "ws_swarm xs" and inv: "session_inv cf ci s" and q: "se_closings s w = m # rest"
  shows "session_inv cf ci (s\<lparr>se_closings := (se_closings s)(w := rest),
      se_maps := (se_maps s)(w := swarm_control xs m (se_maps s w))\<rparr>)" (is "session_inv cf ci ?s")
proof -
  have m: "map_of (after_close cf ci (se_connection s)) w = Some m" and rest: "rest = []"
    using session_invD(5) [OF inv] q by (auto simp: channels_known_def)
  have shut: "\<not> se_open s" "se_waiting s = None"
    using session_invD(5) [OF inv] q by (auto simp: channels_known_def split: if_splits)
  note ok = session_invD(2) [OF inv, of w]
  note own = owner_after_close [OF assms(1) ok session_invD(1) [OF inv] m]
  have way: "under_way ?s u = under_way s u" for u by (simp add: under_way_def)
  have "maps_known cf ci (se_maps ?s)"
    using maps_known_update [of cf ci "se_maps s" "swarm_control xs m (se_maps s w)" w] inv own
      ws_swarm.control_ok [OF assms(1) ok] by (auto simp: session_inv_def split: if_splits)
  moreover have "channels_known cf ci ?s"
  proof (rule channels_known_less [OF session_invD(5) [OF inv]])
    show "set (under_way ?s u) \<subseteq> set (under_way s u)" for u unfolding way by simp
  qed (use channels_knownD(3) [OF session_invD(5) [OF inv]] shut rest in \<open>auto split: if_splits\<close>)
  moreover have "peers_known ci ?s u" for u
  proof (cases "u = w")
    case False
    then show ?thesis using session_invD(6) [OF inv, of u] by (simp add: peers_known_def way)
  next
    case True
    have gone: "own_peers ci (swarm_control xs m (se_maps s w)) \<subseteq> own_peers ci (se_maps s w) - registered (se_connection s)"
    proof
      fix p assume "p \<in> own_peers ci (swarm_control xs m (se_maps s w))"
      then have o: "owner (swarm_control xs m (se_maps s w)) (ci_ip_version ci) (fst p) (snd p) = Some (ci_connection_id ci)"
        by (auto simp: own_peers_def)
      then have p: "p \<in> own_peers ci (se_maps s w)" using own by (auto simp: own_peers_def split: if_splits)
      then show "p \<in> own_peers ci (se_maps s w) - registered (se_connection s)"
        using o own session_invD(3) [OF inv p] by (auto simp: registered_def split: if_splits)
    qed
    have "fold tell (map snd (se_requests s w)) (own_peers ci (se_maps s w)) \<subseteq>
        registered (se_connection s) \<union> stopped_pairs (of_worker w (se_unsent s))"
      using session_invD(6) [OF inv, of w] q shut by (simp add: peers_known_def under_way_def)
    then show ?thesis
      using gone fold_tell_stops [of "own_peers ci (se_maps s w)" "map snd (se_requests s w)"] True rest shut
      by (simp add: peers_known_def) blast
  qed
  ultimately show ?thesis using inv by (simp add: session_inv_def)
qed

lemma session_ok:
  assumes "ws_swarm xs" and "session x xs cf ci s"
  shows "session_inv cf ci s"
  using assms(2)
proof (induction rule: session.induct)
  case (opened c maps)
  have "own_peers ci (maps w) = {}" for w using opened(3) by (simp add: own_peers_def)
  then show ?case
    using opened ws_swarm.reachable_ok [OF assms(1) opened(2)]
    by (simp add: session_inv_def maps_known_def channels_known_def peers_known_def under_way_def session_start_def)
next
  case (announced s ge request c' w meta)
  then show ?case using session_inv_announced by blast
next
  case (refused s ge request c' meta m err)
  then show ?case using session_inv_same reader_announce_refused by blast
next
  case (scraped s ge scrape c' sends err)
  then show ?case using session_inv_same reader_scrape_announced by blast
next
  case (written s sent_ok secs meta m c' out err)
  then show ?case using session_inv_same write_message_announced by blast
next
  case (passed_on s w e)
  then show ?case using session_inv_passed_on by blast
next
  case (handled s w meta request rest clock r maps' ms r')
  then show ?case using session_inv_handled [OF assms(1)] by blast
next
  case (closed s)
  then show ?case using session_inv_closed by blast
next
  case (closing_handled s w m rest)
  then show ?case using session_inv_closing_handled [OF assms(1)] by blast
next
  case (other_announce s meta clock r request w maps' ms r')
  note ok = session_invD(2) [OF other_announce.IH, of w]
  note own = ws_swarm.owner_announce(1) [OF assms(1) ok other_announce(3,4)]
    ws_swarm.handle_announce_ok [OF assms(1) ok other_announce(3,4)]
  have "owner (se_maps s w) v h k = Some (ci_connection_id ci)"
    if "owner maps' v h k = Some (ci_connection_id ci)" for v h k
    using own(1) [OF that] other_announce(2) by auto
  then show ?case by (rule session_inv_shrunk [OF other_announce.IH own(2)])
next
  case (other_closed s w m)
  note ok = session_invD(2) [OF other_closed.IH, of w]
  show ?case
    by (rule session_inv_shrunk [OF other_closed.IH])
      (use ws_swarm.owner_control [OF assms(1) ok] ws_swarm.control_ok [OF assms(1) ok] in \<open>auto split: if_splits\<close>)
next
  case (cleaned s al secs w maps')
  note ok = session_invD(2) [OF cleaned.IH, of w]
  have "ws_maps_ok maps'"
    using cleaned(2) ok by (auto simp: ws_clean_def ws_maps_ok_def clean_map_ok)
  then show ?case by (rule session_inv_shrunk [OF cleaned.IH]) (rule owner_clean [OF ok cleaned(2)])
qed

subsection \<open>Scrapes over several workers\<close>

fun scrape_of :: "ws_out_message \<Rightarrow> ws_scrape_response option" where
  "scrape_of (WsScrapeRes r) = Some r"
| "scrape_of _ = None"

definition input_message :: "writer_input \<Rightarrow> ws_out_message" where
  "input_message i = (case i of (_, _, _, m) \<Rightarrow> m)"

definition input_pair :: "writer_input \<Rightarrow> out_message_meta \<times> ws_out_message" where
  "input_pair i = (case i of (_, _, meta, m) \<Rightarrow> (meta, m))"

text \<open>Every send succeeds, at an uptime that fits 32 bits.\<close>

definition sends_ok :: "writer_input list \<Rightarrow> bool" where
  "sends_ok ms = list_all (\<lambda>(ok, secs, _, _). ok \<and> secs \<le> u32_max) ms"

lemma send_ok:
  assumes "secs \<le> u32_max"
  shows "\<exists>c'. send_out_message cf True secs m c = Some (c', [m], None) \<and>
    cn_pending_scrapes c' = cn_pending_scrapes c"
  using valid_until_new_ok [OF assms] by (cases m) (auto simp: send_out_message_def)

lemma write_other:
  assumes "secs \<le> u32_max" and "scrape_of m = None"
  shows "\<exists>c'. write_message x cf True secs meta m c = Some (c', [m], None) \<and>
    cn_pending_scrapes c' = cn_pending_scrapes c"
  using send_ok [OF assms(1), of cf m c] assms(2) by (cases m) (auto simp: write_message_def)

lemma no_more_scrapes:
  assumes "sends_ok ms" and "list_all (\<lambda>i. scrape_of (input_message i) = None) ms"
  shows "\<exists>c'. run_out_message_loop x cf ms c = Some (c', map input_message ms, None) \<and>
    cn_pending_scrapes c' = cn_pending_scrapes c"
  using assms
proof (induction ms arbitrary: c)
  case (Cons i ms)
  obtain ok secs meta m where i: "i = (ok, secs, meta, m)" by (cases i)
  have "secs \<le> u32_max" "ok" "scrape_of m = None"
    using Cons.prems by (simp_all add: i sends_ok_def input_message_def)
  from write_other [OF this(1,3), of x cf meta c] obtain c1
    where w: "write_message x cf ok secs meta m c = Some (c1, [m], None)"
      "cn_pending_scrapes c1 = cn_pending_scrapes c" using \<open>ok\<close> by auto
  from Cons.IH [of c1] Cons.prems w show ?case
    by (auto simp: i sends_ok_def input_message_def)
qed simp

text \<open>The answers of the input, in order.\<close>

definition scrape_inputs :: "writer_input list \<Rightarrow> ws_scrape_response list" where
  "scrape_inputs ms = List.map_filter (\<lambda>i. scrape_of (input_message i)) ms"

lemma scrape_inputs_simps [simp]:
  "scrape_inputs [] = []"
  "scrape_inputs (i # ms) = (case scrape_of (input_message i) of None \<Rightarrow> scrape_inputs ms
     | Some r \<Rightarrow> r # scrape_inputs ms)"
  by (simp_all add: scrape_inputs_def List.map_filter_simps split: option.splits)

lemma scrape_inputs_Nil: "scrape_inputs ms = [] \<longleftrightarrow> list_all (\<lambda>i. scrape_of (input_message i) = None) ms"
  by (induction ms) (auto split: option.splits)

lemma map_filter_none: "list_all (\<lambda>i. f i = None) xs \<Longrightarrow> List.map_filter f xs = []"
  by (induction xs) (simp_all add: List.map_filter_simps)

text \<open>
  While answers of the pending scrape are missing, other messages pass and answers are collected; the
  last one completes it.
\<close>

lemma gather:
  assumes "slab (wcx_slab x)" and "sends_ok ms" and "scrape_inputs ms \<noteq> []"
    and "sb_get (wcx_slab x) (cn_pending_scrapes c) (unat pid) = Some p"
    and "ps_pending_worker_out_messages p = of_nat (length (scrape_inputs ms))"
    and "length (scrape_inputs ms) \<le> 256"
    and "\<forall>i \<in> set ms. scrape_of (input_message i) \<noteq> None \<longrightarrow>
      mo_pending_scrape_id (fst (input_pair i)) = Some pid"
  shows "\<exists>c' out. run_out_message_loop x cf ms c = Some (c', out, None) \<and>
    List.map_filter scrape_of out = [\<lparr>wss_action = WsScrapeAction,
      wss_files = fold (\<lambda>fs stats. extend_files stats fs) (map wss_files (scrape_inputs ms)) (ps_stats p)\<rparr>] \<and>
    filter (\<lambda>m. scrape_of m = None) out = filter (\<lambda>m. scrape_of m = None) (map input_message ms) \<and>
    sb_get (wcx_slab x) (cn_pending_scrapes c') =
      (sb_get (wcx_slab x) (cn_pending_scrapes c))(unat pid := None)"
  using assms(2-)
proof (induction ms arbitrary: c p)
  case Nil
  then show ?case by simp
next
  case (Cons i ms)
  let ?sb = "wcx_slab x"
  obtain ok secs meta m where i: "i = (ok, secs, meta, m)" by (cases i)
  have im: "input_message i = m" "fst (input_pair i) = meta" by (simp_all add: i input_message_def input_pair_def)
  have ok: "ok" "secs \<le> u32_max" "sends_ok ms" using Cons.prems(1) by (simp_all add: i sends_ok_def)
  have ids: "\<forall>i \<in> set ms. scrape_of (input_message i) \<noteq> None \<longrightarrow>
      mo_pending_scrape_id (fst (input_pair i)) = Some pid"
    using Cons.prems(6) by simp
  show ?case
  proof (cases "scrape_of m")
    case None
    from write_other [OF ok(2) None, of x cf meta c] obtain c1
      where w: "write_message x cf ok secs meta m c = Some (c1, [m], None)"
        "cn_pending_scrapes c1 = cn_pending_scrapes c" using ok(1) by auto
    from Cons.IH [OF ok(3) _ _ _ _ ids, of c1 p] Cons.prems None w show ?thesis
      by (auto simp: i im(1) [unfolded i] List.map_filter_simps)
  next
    case (Some r)
    then have m: "m = WsScrapeRes r" by (cases m) simp_all
    have pid: "mo_pending_scrape_id meta = Some pid" using Cons.prems(6) Some im by auto
    define p' where "p' = \<lparr>ps_pending_worker_out_messages = ps_pending_worker_out_messages p - 1,
        ps_stats = extend_files (ps_stats p) (wss_files r)\<rparr>"
    have n: "ps_pending_worker_out_messages p' = of_nat (length (scrape_inputs ms))"
      using Cons.prems(4) Some by (simp add: p'_def im)
    have l: "length (scrape_inputs ms) \<le> 256" using Cons.prems(5) Some by (simp add: im)
    show ?thesis
    proof (cases "scrape_inputs ms = []")
      case True
      let ?r = "WsScrapeRes \<lparr>wss_action = WsScrapeAction, wss_files = ps_stats p'\<rparr>"
      let ?c = "c\<lparr>cn_pending_scrapes := sb_remove ?sb (unat pid) (cn_pending_scrapes c)\<rparr>"
      from send_ok [OF ok(2), of cf ?r ?c] obtain c1
        where s: "send_out_message cf ok secs ?r ?c = Some (c1, [?r], None)"
          "cn_pending_scrapes c1 = sb_remove ?sb (unat pid) (cn_pending_scrapes c)" using ok(1) by auto
      have w: "write_message x cf ok secs meta m c = Some (c1, [?r], None)"
        using s(1) n True Cons.prems(3) pid
        by (simp add: write_message_def m Let_def p'_def [symmetric])
      have g: "sb_get ?sb (cn_pending_scrapes c1) = (sb_get ?sb (cn_pending_scrapes c))(unat pid := None)"
        unfolding s(2) using slab.get_remove [OF assms(1)] Cons.prems(3) by simp
      have other: "list_all (\<lambda>i. scrape_of (input_message i) = None) ms" using True scrape_inputs_Nil by blast
      from no_more_scrapes [OF ok(3) other, of x cf c1] obtain c2
        where t: "run_out_message_loop x cf ms c1 = Some (c2, map input_message ms, None)"
          "cn_pending_scrapes c2 = cn_pending_scrapes c1" by blast
      have "List.map_filter scrape_of (map input_message ms) = []"
        using other by (intro map_filter_none) (simp add: list_all_iff)
      then show ?thesis
        using w t g True Some
        by (auto simp: i im(1) [unfolded i] List.map_filter_simps p'_def)
    next
      case False
      have "ps_pending_worker_out_messages p' \<noteq> 0"
        unfolding n using False l by (auto simp: word_of_nat_eq_0_iff dest!: dvd_imp_le)
      then have w: "write_message x cf ok secs meta m c =
          Some (c\<lparr>cn_pending_scrapes := sb_set ?sb (unat pid) p' (cn_pending_scrapes c)\<rparr>, [], None)"
        using Cons.prems(3) pid by (simp add: write_message_def m Let_def p'_def [symmetric])
      have g: "sb_get ?sb (sb_set ?sb (unat pid) p' (cn_pending_scrapes c)) =
          (sb_get ?sb (cn_pending_scrapes c))(unat pid \<mapsto> p')"
        using slab.get_set [OF assms(1)] Cons.prems(3) by simp
      let ?c = "c\<lparr>cn_pending_scrapes := sb_set ?sb (unat pid) p' (cn_pending_scrapes c)\<rparr>"
      have pre: "sb_get ?sb (cn_pending_scrapes ?c) (unat pid) = Some p'" by (simp add: g)
      from Cons.IH [OF ok(3) False pre n l ids]
      obtain c' out where r: "run_out_message_loop x cf ms ?c = Some (c', out, None)"
        and o: "List.map_filter scrape_of out = [\<lparr>wss_action = WsScrapeAction,
            wss_files = fold (\<lambda>fs stats. extend_files stats fs) (map wss_files (scrape_inputs ms)) (ps_stats p')\<rparr>]"
          "filter (\<lambda>m. scrape_of m = None) out = filter (\<lambda>m. scrape_of m = None) (map input_message ms)"
        and sb0: "sb_get ?sb (cn_pending_scrapes c') = (sb_get ?sb (cn_pending_scrapes ?c))(unat pid := None)"
        by blast
      have sb: "sb_get ?sb (cn_pending_scrapes c') = (sb_get ?sb (cn_pending_scrapes c))(unat pid := None)"
        unfolding sb0 by (simp add: g)
      have "ps_stats p' = extend_files (ps_stats p) (wss_files r)" by (simp add: p'_def)
      then show ?thesis
        using w Some r o sb by (auto simp: i im(1) [unfolded i])
    qed
  qed
qed

text \<open>What the swarm workers answer to what a connection sent, and the info hashes they look at.\<close>

definition swarm_answers :: "ws_config \<Rightarrow> (nat \<Rightarrow> ws_torrent_maps) \<Rightarrow> reader_send list \<Rightarrow> out_messages" where
  "swarm_answers cf maps sends = concat (map (\<lambda>s. case s of
     ToSwarm w meta (WsInScrape rq) \<Rightarrow> ws_handle_scrape cf meta rq (maps w) | _ \<Rightarrow> []) sends)"

definition looked_up :: "ws_config \<Rightarrow> ws_info_hash list \<Rightarrow> ws_info_hash \<Rightarrow> bool" where
  "looked_up cf hs h = (h \<in> set (take (wcf_max_scrape_torrents cf)
     (filter (\<lambda>i. calculate_in_message_consumer_index cf i = calculate_in_message_consumer_index cf h) hs)))"

definition worker_files :: "ws_config \<Rightarrow> ws_torrent_map \<Rightarrow> ws_info_hash list \<Rightarrow>
    (ws_info_hash \<times> ws_scrape_statistics) list" where
  "worker_files cf tm hs = fold (\<lambda>h files. case map_of tm h of
       Some td \<Rightarrow> AList.update h (ws_scrape_statistics_of td) files | None \<Rightarrow> files)
     (take (min (length hs) (wcf_max_scrape_torrents cf)) hs) []"

lemma worker_files_ok:
  "distinct (map fst (worker_files cf tm hs))"
  "map_of (worker_files cf tm hs) h = (if h \<in> set (take (wcf_max_scrape_torrents cf) hs)
     then map_option ws_scrape_statistics_of (map_of tm h) else None)"
proof -
  let ?f = "\<lambda>h files. case map_of tm h of
       Some td \<Rightarrow> AList.update h (ws_scrape_statistics_of td) files | None \<Rightarrow> files"
  have d: "distinct (map fst fs) \<Longrightarrow> distinct (map fst (fold ?f hs fs))" for hs fs
    by (induction hs arbitrary: fs) (simp_all add: distinct_update split: option.split)
  have m: "map_of (fold ?f hs fs) h = (if h \<in> set hs \<and> map_of tm h \<noteq> None
      then map_option ws_scrape_statistics_of (map_of tm h) else map_of fs h)" for hs fs
    by (induction hs arbitrary: fs) (auto simp: update_conv' split: option.split)
  have t: "take (min (length hs) (wcf_max_scrape_torrents cf)) hs = take (wcf_max_scrape_torrents cf) hs"
    by (simp add: min_def)
  show "distinct (map fst (worker_files cf tm hs))" unfolding worker_files_def by (rule d) simp
  show "map_of (worker_files cf tm hs) h = (if h \<in> set (take (wcf_max_scrape_torrents cf) hs)
     then map_option ws_scrape_statistics_of (map_of tm h) else None)"
    unfolding worker_files_def m t by auto
qed

lemma index_less: "calculate_in_message_consumer_index cf h < 256"
  unfolding calculate_in_message_consumer_index_def
  by (rule le_less_trans [OF mod_less_eq_dividend]) simp

lemma by_worker_length: "length (by_worker (calculate_in_message_consumer_index cf) hs) \<le> 256"
proof -
  let ?m = "by_worker (calculate_in_message_consumer_index cf) hs"
  have "fst ` set ?m \<subseteq> {..< 256}"
    using index_less by_worker_entries [of _ _ "calculate_in_message_consumer_index cf" hs]
    by (fastforce simp: filter_empty_conv)
  then have "card (set (map fst ?m)) \<le> 256" using card_mono [of "{..< 256 :: nat}"] by simp
  then show ?thesis
    using distinct_card [OF by_worker_distinct, of "calculate_in_message_consumer_index cf" hs] by simp
qed

lemma scrape_inputs_pairs:
  "scrape_inputs ms = map (\<lambda>p. the (scrape_of (snd p))) (filter (\<lambda>p. scrape_of (snd p) \<noteq> None) (map input_pair ms))"
  by (induction ms) (auto simp: input_message_def input_pair_def split: option.splits)

lemma handle_scrape_part:
  "ws_handle_scrape cf (make_connection_meta ci pid) \<lparr>wsr_action = WsScrapeAction, wsr_info_hashes = Some (Multiple hs)\<rparr> maps =
     [(out_meta_of (make_connection_meta ci pid),
       WsScrapeRes \<lparr>wss_action = WsScrapeAction, wss_files = worker_files cf (by_version (ci_ip_version ci) maps) hs\<rparr>)]"
  by (simp add: ws_handle_scrape_def ws_scrape_map_def worker_files_def make_connection_meta_def Let_def)

text \<open>What a scrape sends, and the answers to it.\<close>

lemma reader_scrape_sent:
  assumes "slab (wcx_slab x)" and "reader_scrape x cf ge ci request c = (c1, sends, None)"
    and "\<not> fst (ws_run_security_checks x cf ge ci None (cn_bans c))"
    and "wsr_info_hashes request = Some hashes"
  defines "parts \<equiv> by_worker (calculate_in_message_consumer_index (wsc_swarm cf)) (as_vec hashes)"
  shows "\<exists>pid. sb_get (wcx_slab x) (cn_pending_scrapes c) (unat pid) = None \<and>
    sb_get (wcx_slab x) (cn_pending_scrapes c1) = (sb_get (wcx_slab x) (cn_pending_scrapes c))
      (unat pid \<mapsto> \<lparr>ps_pending_worker_out_messages = of_nat (length parts), ps_stats = []\<rparr>) \<and>
    swarm_answers (wsc_swarm cf) maps sends = map (\<lambda>(w, hs).
      (out_meta_of (make_connection_meta ci (Some pid)),
       WsScrapeRes \<lparr>wss_action = WsScrapeAction,
         wss_files = worker_files (wsc_swarm cf) (by_version (ci_ip_version ci) (maps w)) hs\<rparr>)) parts"
proof -
  obtain bs where b: "ws_run_security_checks x cf ge ci None (cn_bans c) = (False, bs)"
    using assms(3) by (cases "ws_run_security_checks x cf ge ci None (cn_bans c)") simp
  obtain key s' where i: "sb_insert (wcx_slab x)
      \<lparr>ps_pending_worker_out_messages = of_nat (length parts), ps_stats = []\<rparr> (cn_pending_scrapes c) = (key, s')"
    by (cases "sb_insert (wcx_slab x)
      \<lparr>ps_pending_worker_out_messages = of_nat (length parts), ps_stats = []\<rparr> (cn_pending_scrapes c)")
  have r: "key \<le> u8_max" "cn_pending_scrapes c1 = s'"
    "sends = map (\<lambda>(w, hs). ToSwarm w (make_connection_meta ci (Some (of_nat key)))
       (WsInScrape \<lparr>wsr_action = WsScrapeAction, wsr_info_hashes = Some (Multiple hs)\<rparr>)) parts"
    using assms(2,4) b i by (auto simp: reader_scrape_def Let_def parts_def split: if_splits)
  have k: "unat (of_nat key :: u8) = key" using r(1) by (simp add: unat_of_nat u8_max_def)
  have a: "swarm_answers (wsc_swarm cf) maps sends = map (\<lambda>(w, hs).
      (out_meta_of (make_connection_meta ci (Some (of_nat key))),
       WsScrapeRes \<lparr>wss_action = WsScrapeAction,
         wss_files = worker_files (wsc_swarm cf) (by_version (ci_ip_version ci) (maps w)) hs\<rparr>)) parts"
    unfolding r(3) swarm_answers_def by (induction parts) (simp_all add: case_prod_unfold handle_scrape_part)
  show ?thesis
    using slab.insert_vacant [OF assms(1) i] a k r(2) by (intro exI [of _ "of_nat key"]) simp
qed

subsection \<open>Properties\<close>

definition ref_conn_crates :: "(pending_scrape_response option list, ip_range) ws_conn_crates" where
  "ref_conn_crates = \<lparr>wcx_slab = ref_slab, wcx_networks = ref_networks [] [], wcx_show_ip = (\<lambda>_. []),
     wcx_from_ws_message = (\<lambda>_. None), wcx_header_get = ref_header_get, wcx_to_str = ref_to_str\<rparr>"

lemma ref_conn_slab: "slab (wcx_slab ref_conn_crates)"
  by (simp add: ref_conn_crates_def rs.slab_axioms)

definition sample_socket_config :: ws_socket_config where
  "sample_socket_config = \<lparr>wsc_swarm = ws_sample_config, wsc_guard = sample_guard_config,
     wsc_trusted_proxies = trusted_proxies_config_default, wsc_max_connections_per_worker = 100,
     wsc_max_connection_idle = 180, wsc_close_after_tls_update_grace_period = 3600\<rparr>"

definition sample_info :: "ws_connection_id \<Rightarrow> ws_connection_info" where
  "sample_info c = \<lparr>ci_out_message_consumer_id = 0, ci_connection_id = c, ci_ip_version = WsV4,
     ci_peer_ip = V4 1, ci_user_agent = None\<rparr>"

definition sample_connection :: "pending_scrape_response option list ws_connection" where
  "sample_connection = \<lparr>cn_announced_info_hashes = [], cn_pending_scrapes = [], cn_valid_until = ValidUntil 180,
     cn_bans = \<lparr>bs_tracker = None, bs_files = Map.empty\<rparr>\<rparr>"

lemmas sample_conn_defs = sample_socket_config_def sample_guard_config_def sample_guard_env_def sample_info_def
  sample_connection_def ws_sample_config_def request_filter_config_default_def client_ban_config_default_def
  trusted_proxies_config_default_def

lemma sample_announce:
  "reader_announce ref_conn_crates sample_socket_config sample_guard_env (sample_info c) (ws_sample_request k)
     sample_connection =
   (sample_connection\<lparr>cn_announced_info_hashes := [(5, k)]\<rparr>,
    [ToSwarm 0 (ws_sample_meta c) (WsInAnnounce (ws_sample_request k))], None)"
  by (simp add: reader_announce_def ws_run_security_checks_def list_bans_def tracker_bans_def private_ip_blocked_def
      client_violation_def sample_conn_defs ws_sample_request_def ws_sample_meta_def make_connection_meta_def
      calculate_in_message_consumer_index_def Let_def)

lemma owner_new: "owner ws_maps_new v h k = None"
  by (cases v) (simp_all add: owner_def ws_maps_new_def ws_torrent_def ws_torrent_data_default_def)

lemma sample_opened: "session ref_conn_crates ref_ws_crates sample_socket_config (sample_info 2)
    (session_start sample_connection (\<lambda>w. ws_maps_new))"
  by (rule session.opened) (simp_all add: sample_connection_def ws_reachable.start owner_new)

text \<open>C32. What a closing connection leaves. Whatever a connection did, and whatever other connections, with
  other ids, closings and cleanings happened meanwhile: once a worker has handled the message of the
  closing, or has none to come, a peer of the connection is left there only by an announce the closing
  outran. Either that announce was handled afterwards; or it stops the peer and was never sent, or is
  still to be handled. So none is left where all its announces were handled before. The message of
  the closing removes exactly the peers registered in the cleanup data: every other peer stays.\<close>

theorem closing_leaves_only_outrun_peers:
  assumes "ws_swarm xs" and "session x xs cf ci s"
  shows "(\<not> se_open s \<and> se_closings s w = [] \<and> owner (se_maps s w) v h k = Some (ci_connection_id ci) \<longrightarrow>
     (\<exists>request. wa_info_hash request = h \<and> wa_peer_id request = k \<and>
       (wa_event request \<noteq> Some WsStopped \<and> (w, request) \<in> set (se_late s) \<or>
        wa_event request = Some WsStopped \<and>
          ((w, request) \<in> set (se_unsent s) \<or> request \<in> snd ` set (se_requests s w))))) \<and>
    (\<forall>m ms. se_closings s w = m # ms \<longrightarrow>
      owner (swarm_control xs m (se_maps s w)) v h k =
        (if w = calculate_in_message_consumer_index (wsc_swarm cf) h \<and> v = ci_ip_version ci \<and>
           map_of (cn_announced_info_hashes (se_connection s)) h = Some k then None else owner (se_maps s w) v h k))"
proof -
  note inv = session_ok [OF assms]
  have "\<exists>request. wa_info_hash request = h \<and> wa_peer_id request = k \<and>
       (wa_event request \<noteq> Some WsStopped \<and> (w, request) \<in> set (se_late s) \<or>
        wa_event request = Some WsStopped \<and>
          ((w, request) \<in> set (se_unsent s) \<or> request \<in> snd ` set (se_requests s w)))"
    if left: "\<not> se_open s" "se_closings s w = []" "owner (se_maps s w) v h k = Some (ci_connection_id ci)"
  proof -
    have "(h, k) \<in> live_pairs (of_worker w (se_late s)) \<union> stopped_pairs (of_worker w (se_unsent s)) \<union>
        stopped_pairs (map snd (se_requests s w))"
      using session_invD(4) [OF inv left(3)] session_invD(6) [OF inv, of w] left(1,2) by (auto simp: peers_known_def)
    then show ?thesis
      by (fastforce simp: live_pairs_def stopped_pairs_def of_worker_def announced_pair_def)
  qed
  then show ?thesis
    using owner_after_close [OF assms(1) session_invD(2,1) [OF inv]] channels_knownD(3) [OF session_invD(5) [OF inv]]
    by blast
qed

text \<open>A seeder of connection 1 or 2 announced to an empty swarm.\<close>

definition sample_maps :: "ws_connection_id \<Rightarrow> ws_torrent_maps" where
  "sample_maps c = \<lparr>wm_ipv4 = [(5, \<lparr>wt_peers = [(9, new_peer (ws_sample_meta c) True (ValidUntil 187))],
     wt_num_seeders = 1\<rparr>)], wm_ipv6 = []\<rparr>"

lemma sample_swarm_announce:
  "\<exists>ms. ws_handle_announce ref_ws_crates ws_sample_config [] (\<lambda>i. 7) (ws_sample_meta c) (ws_sample_request 9)
     ws_maps_new = Some (sample_maps c, ms, [])"
  by (simp add: ws_handle_announce_def ws_announce_map_def ws_entry_or_default_def Let_def ws_maps_new_def
      ws_sample_meta_def ws_sample_request_def ref_ws_crates_def ws_torrent_data_default_def foreign_peer_id_def
      announce_torrent_def insert_or_update_peer_def valid_until_new_def seconds_elapsed_def u32_max_def
      announce_peer_status_def ws_from_event_and_bytes_left_def new_peer_def pass_offers_def pass_answer_def
      im_modify_def sample_maps_def ws_sample_config_def)

lemma owner_sample_maps: "owner (sample_maps c) WsV4 5 9 = Some c"
  by (simp add: owner_def sample_maps_def ws_torrent_def new_peer_def ws_sample_meta_def)

text \<open>
  A flaw: an announce handled after the closing leaves a peer of a connection that is gone, until it
  expires. Here connection 2 announces and is closed; the worker, to which nothing but the announce and
  the closing was sent, handles the closing first.
\<close>

lemma late_announce_leaves_peer:
  "\<exists>s. session ref_conn_crates ref_ws_crates sample_socket_config (sample_info 2) s \<and>
    \<not> se_open s \<and> se_closings s = (\<lambda>_. []) \<and> se_requests s = (\<lambda>_. []) \<and> se_unsent s = [] \<and>
    owner (se_maps s 0) WsV4 5 9 = Some 2"
proof -
  let ?session = "session ref_conn_crates ref_ws_crates sample_socket_config (sample_info 2)"
  let ?c = "sample_connection\<lparr>cn_announced_info_hashes := [(5, 9)]\<rparr>" and ?e = "(ws_sample_meta 2, ws_sample_request 9)"
  let ?m = "\<lparr>cc_ip_version = WsV4, cc_announced_info_hashes = [(5, 9 :: ws_peer_id)]\<rparr>"
  define s0 where "s0 = session_start sample_connection (\<lambda>w. ws_maps_new)"
  note sel = s0_def session_start_def session_closed_def
  have index: "calculate_in_message_consumer_index (wsc_swarm sample_socket_config) 5 = 0"
    by (simp add: calculate_in_message_consumer_index_def sample_conn_defs)
  have after: "map_of (after_close sample_socket_config (sample_info 2) ?c) u = (if u = 0 then Some ?m else None)" for u
    by (simp add: after_close_at index Let_def) (simp add: sample_info_def)
  let ?s1 = "s0\<lparr>se_connection := ?c, se_waiting := Some (0, ?e)\<rparr>"
  let ?s2 = "?s1\<lparr>se_waiting := None, se_requests := (se_requests ?s1)(0 := se_requests ?s1 0 @ [?e])\<rparr>"
  let ?s3 = "session_closed sample_socket_config (sample_info 2) ?s2"
  let ?s4 = "?s3\<lparr>se_closings := (se_closings ?s3)(0 := []),
      se_maps := (se_maps ?s3)(0 := swarm_control ref_ws_crates ?m (se_maps ?s3 0))\<rparr>"
  have "?session s0" unfolding s0_def by (rule sample_opened)
  then have "?session ?s1"
    by (rule session.announced [where ge = sample_guard_env]) (simp_all add: sel sample_announce)
  then have "?session ?s2" by (rule session.passed_on) simp
  then have "?session ?s3" by (rule session.closed) (simp add: sel)
  then have 4: "?session ?s4" by (rule session.closing_handled) (simp add: session_closed_def after)
  have none: "swarm_control ref_ws_crates ?m ws_maps_new = ws_maps_new"
    by (simp add: swarm_control_def ws_connection_closed_def map_connection_closed_def im_modify_def ws_maps_new_def)
  have q: "se_requests ?s4 0 = [?e]" "se_maps ?s4 0 = ws_maps_new" by (simp_all add: sel none)
  obtain ms where h: "ws_handle_announce ref_ws_crates (wsc_swarm sample_socket_config) [] (\<lambda>i. 7) (ws_sample_meta 2)
      (ws_sample_request 9) (se_maps ?s4 0) = Some (sample_maps 2, ms, [])"
    using sample_swarm_announce unfolding q(2) by (auto simp: sample_socket_config_def)
  note 5 = session.handled [OF 4 q(1) sample_clock_ok h]
  show ?thesis
    by (rule exI, rule conjI [OF 5]) (simp add: sel after fun_eq_iff owner_sample_maps)
qed

lemma closing_leaves_only_outrun_peers_witness:
  "\<exists>s request. session ref_conn_crates ref_ws_crates sample_socket_config (sample_info 2) s \<and>
    owner (se_maps s 0) WsV4 5 9 = Some 2 \<and> (0, request) \<in> set (se_late s) \<and> wa_peer_id request = 9"
proof -
  obtain s where s: "session ref_conn_crates ref_ws_crates sample_socket_config (sample_info 2) s" "\<not> se_open s"
      "se_closings s = (\<lambda>_. [])" "se_requests s = (\<lambda>_. [])" "se_unsent s = []" "owner (se_maps s 0) WsV4 5 9 = Some 2"
    using late_announce_leaves_peer by blast
  have "ci_connection_id (sample_info 2) = 2" by (simp add: sample_info_def)
  then show ?thesis
    using closing_leaves_only_outrun_peers [OF ws_ref.ws_swarm_axioms s(1), of 0 WsV4 5 9] s by auto
qed

text \<open>C33. A flaw: the reader registers the peer id of every announce it passes on, also where the swarm worker
  then ignores the announce because the peer id belongs to another connection. When such a connection
  closes, the other connection's peer is removed from the torrent. Peers learn each other's ids from
  the offers they get, so any of them can have the others forgotten.\<close>

theorem closing_removes_foreign_peer:
  assumes "ws_swarm xs" and s: "session x xs cf ci s" and "clock_ok clock"
    and a: "reader_announce x cf ge ci request (se_connection s) = (c', [ToSwarm w meta (WsInAnnounce request)], None)"
    and "wa_event request \<noteq> Some WsStopped"
    and o: "owner (se_maps s w) (ci_ip_version ci) (wa_info_hash request) (wa_peer_id request) = Some b"
    and "b \<noteq> ci_connection_id ci"
  shows "\<exists>maps' r' m. ws_handle_announce xs (wsc_swarm cf) r clock meta request (se_maps s w) = Some (maps', [], r') \<and>
    owner maps' (ci_ip_version ci) (wa_info_hash request) (wa_peer_id request) = Some b \<and>
    (w, m) \<in> set (after_close cf ci c') \<and>
    owner (swarm_control xs m maps') (ci_ip_version ci) (wa_info_hash request) (wa_peer_id request) = None"
proof -
  let ?v = "ci_ip_version ci" and ?h = "wa_info_hash request" and ?k = "wa_peer_id request"
  note inv = session_ok [OF assms(1) s]
  note mok = session_invD(2) [OF inv, of w]
  have ok: "ws_tm_ok (by_version ?v (se_maps s w))" using mok by (rule by_version_ok)
  note sent = reader_announce_sent [OF a]
  have meta: "mi_ip_version meta = ?v" "mi_connection_id meta = ci_connection_id ci"
    using sent by (simp_all add: make_connection_meta_def)
  have f: "foreign_peer_id meta request (ws_torrent (by_version ?v (se_maps s w)) ?h)"
    using o assms(7) by (auto simp: foreign_peer_id_def owner_def meta)
  from ws_swarm.announce_map_ok [OF assms(1) ok assms(3), of "wsc_swarm cf" r meta request]
  obtain tm' r' where t: "ws_announce_map xs (wsc_swarm cf) r clock meta request (by_version ?v (se_maps s w)) = Some (tm', [], r')"
    "ws_torrent tm' = ws_torrent (by_version ?v (se_maps s w))" using f by auto
  let ?maps' = "set_version ?v tm' (se_maps s w)"
  have h: "ws_handle_announce xs (wsc_swarm cf) r clock meta request (se_maps s w) = Some (?maps', [], r')"
    by (simp add: ws_handle_announce_def meta t(1))
  have o': "owner ?maps' ?v ?h ?k = Some b" using o by (simp add: owner_def by_set_version t(2))
  have mok': "ws_maps_ok ?maps'" by (rule ws_swarm.handle_announce_ok [OF assms(1) mok assms(3) h])
  have reg: "(?h, ?k) \<in> registered c'" using sent assms(5) by (simp add: registered_def)
  then obtain m where m: "map_of (after_close cf ci c') w = Some m"
    using unregistered_worker [of cf ci c' w ?h ?k] sent by fastforce
  have "distinct (map fst (cn_announced_info_hashes c'))" using sent session_invD(1) [OF inv] by blast
  from owner_after_close [OF assms(1) mok' this m, of ?v ?h ?k] have "owner (swarm_control xs m ?maps') ?v ?h ?k = None"
    using reg sent by (simp add: registered_def)
  then show ?thesis using h o' map_of_SomeD [OF m] by blast
qed

lemma sample_foreign_session: "session ref_conn_crates ref_ws_crates sample_socket_config (sample_info 2)
    ((session_start sample_connection (\<lambda>w. ws_maps_new))\<lparr>se_maps := (\<lambda>w. ws_maps_new)(0 := sample_maps 1)\<rparr>)"
proof -
  obtain ms where h: "ws_handle_announce ref_ws_crates (wsc_swarm sample_socket_config) [] (\<lambda>i. 7) (ws_sample_meta 1)
      (ws_sample_request 9) (se_maps (session_start sample_connection (\<lambda>w. ws_maps_new)) 0) = Some (sample_maps 1, ms, [])"
    using sample_swarm_announce by (auto simp: sample_socket_config_def session_start_def)
  have "mi_connection_id (ws_sample_meta 1) \<noteq> ci_connection_id (sample_info 2)"
    by (simp add: ws_sample_meta_def sample_info_def)
  from session.other_announce [OF sample_opened this sample_clock_ok h] show ?thesis by (simp add: session_start_def)
qed

lemma closing_removes_foreign_peer_witness:
  "\<exists>maps' r' m. ws_handle_announce ref_ws_crates ws_sample_config [] (\<lambda>i. 7) (ws_sample_meta 2) (ws_sample_request 9)
      (sample_maps 1) = Some (maps', [], r') \<and> owner maps' WsV4 5 9 = Some 1 \<and>
    (0, m) \<in> set (after_close sample_socket_config (sample_info 2) (sample_connection\<lparr>cn_announced_info_hashes := [(5, 9)]\<rparr>)) \<and>
    owner (swarm_control ref_ws_crates m maps') WsV4 5 9 = None"
proof -
  let ?s = "(session_start sample_connection (\<lambda>w. ws_maps_new))\<lparr>se_maps := (\<lambda>w. ws_maps_new)(0 := sample_maps 1)\<rparr>"
  have fields: "ci_ip_version (sample_info 2) = WsV4" "wa_info_hash (ws_sample_request 9) = 5"
    "wa_peer_id (ws_sample_request 9) = 9" "wsc_swarm sample_socket_config = ws_sample_config" "se_maps ?s 0 = sample_maps 1"
    by (simp_all add: sample_info_def ws_sample_request_def sample_socket_config_def)
  have a: "reader_announce ref_conn_crates sample_socket_config sample_guard_env (sample_info 2) (ws_sample_request 9)
      (se_connection ?s) = (sample_connection\<lparr>cn_announced_info_hashes := [(5, 9)]\<rparr>,
      [ToSwarm 0 (ws_sample_meta 2) (WsInAnnounce (ws_sample_request 9))], None)"
    by (simp add: sample_announce session_start_def)
  have e: "wa_event (ws_sample_request 9) \<noteq> Some WsStopped" "1 \<noteq> ci_connection_id (sample_info 2)"
    by (simp_all add: ws_sample_request_def sample_info_def)
  have o: "owner (se_maps ?s 0) (ci_ip_version (sample_info 2)) (wa_info_hash (ws_sample_request 9))
      (wa_peer_id (ws_sample_request 9)) = Some 1"
    unfolding fields by (rule owner_sample_maps)
  from closing_removes_foreign_peer [OF ws_ref.ws_swarm_axioms sample_foreign_session sample_clock_ok a e(1) o e(2), of "[]"]
  show ?thesis unfolding fields .
qed

text \<open>The files gathered from all parts hold for each info hash what its worker holds.\<close>

definition scrape_lookup ::
  "ws_config \<Rightarrow> (nat \<Rightarrow> ws_torrent_map) \<Rightarrow> ws_info_hash list \<Rightarrow> ws_info_hash \<Rightarrow> ws_scrape_statistics option" where
  "scrape_lookup cf tm hashes h = (if looked_up cf hashes h
     then map_option ws_scrape_statistics_of (map_of (tm (calculate_in_message_consumer_index cf h)) h) else None)"

lemma part_files:
  assumes "(w, hs) \<in> set (by_worker (calculate_in_message_consumer_index cf) hashes)"
  shows "distinct (map fst (worker_files cf (tm w) hs)) \<and> map_of (worker_files cf (tm w) hs) \<subseteq>\<^sub>m scrape_lookup cf tm hashes"
proof -
  have "hs = filter (\<lambda>h. calculate_in_message_consumer_index cf h = w) hashes"
    using assms by (simp add: by_worker_entries)
  moreover from this have "h \<in> set (take (wcf_max_scrape_torrents cf) hs) \<Longrightarrow>
      calculate_in_message_consumer_index cf h = w" for h
    by (auto dest: in_set_takeD)
  ultimately have "h \<in> set (take (wcf_max_scrape_torrents cf) hs) \<Longrightarrow>
      w = calculate_in_message_consumer_index cf h \<and> looked_up cf hashes h" for h
    unfolding looked_up_def by blast
  then show ?thesis
    by (auto simp: worker_files_ok(1) map_le_def worker_files_ok(2) scrape_lookup_def split: if_splits)
qed

lemma looked_up_part:
  assumes "scrape_lookup cf tm hashes h = Some st"
  obtains w hs where "(w, hs) \<in> set (by_worker (calculate_in_message_consumer_index cf) hashes)"
    and "h \<in> dom (map_of (worker_files cf (tm w) hs))"
proof -
  let ?w = "calculate_in_message_consumer_index cf h"
  let ?hs = "filter (\<lambda>i. calculate_in_message_consumer_index cf i = ?w) hashes"
  have l: "h \<in> set (take (wcf_max_scrape_torrents cf) ?hs)" "map_of (tm ?w) h \<noteq> None"
    using assms by (auto simp: scrape_lookup_def looked_up_def split: if_splits)
  have "(?w, ?hs) \<in> set (by_worker (calculate_in_message_consumer_index cf) hashes)"
    using l(1) in_set_takeD [OF l(1)] by (auto simp: by_worker_entries filter_empty_conv)
  moreover have "h \<in> dom (map_of (worker_files cf (tm ?w) ?hs))" using l by (simp add: worker_files_ok(2) domIff)
  ultimately show thesis by (rule that)
qed

lemma gathered_lookup:
  assumes "set fss = (\<lambda>(w, hs). worker_files cf (tm w) hs) ` set (by_worker (calculate_in_message_consumer_index cf) hashes)"
  shows "map_of (fold (\<lambda>fs stats. extend_files stats fs) fss []) h = scrape_lookup cf tm hashes h"
proof -
  have all: "map_of (fold (\<lambda>fs stats. extend_files stats fs) fss []) h =
      (if \<exists>fs \<in> set fss. h \<in> dom (map_of fs) then scrape_lookup cf tm hashes h else map_of [] h)"
    by (rule fold_extend) (use assms part_files in auto)
  show ?thesis
  proof (cases "scrape_lookup cf tm hashes h")
    case None
    then show ?thesis using all by (simp split: if_splits)
  next
    case (Some st)
    then obtain w hs where "(w, hs) \<in> set (by_worker (calculate_in_message_consumer_index cf) hashes)"
      and h: "h \<in> dom (map_of (worker_files cf (tm w) hs))" by (rule looked_up_part)
    then have "worker_files cf (tm w) hs \<in> set fss" unfolding assms by force
    then have "\<exists>fs \<in> set fss. h \<in> dom (map_of fs)" using h by (rule bexI [rotated])
    then show ?thesis using all by (simp only: if_True)
  qed
qed

text \<open>C31. A scrape is split over the swarm workers its info hashes belong to, and answered as a whole: once the
  workers' answers have arrived, in any order and among any other messages for the connection, the
  client has been sent exactly one scrape response, which lists exactly the info hashes looked up that
  have a torrent, with that torrent's numbers; the other messages are passed on in order, and the
  pending scrape is forgotten. Each worker looks up no more than the limit of its own part.\<close>

theorem ws_scrapes_are_gathered:
  assumes sb: "slab (wcx_slab x)" and r: "reader_scrape x cf ge ci request c = (c1, sends, None)"
    and nb: "\<not> fst (ws_run_security_checks x cf ge ci None (cn_bans c))"
    and hs: "wsr_info_hashes request = Some hashes" "as_vec hashes \<noteq> []"
    and ms: "sends_ok ms"
    and arrived: "mset (filter (\<lambda>p. scrape_of (snd p) \<noteq> None) (map input_pair ms)) =
      mset (swarm_answers (wsc_swarm cf) maps sends)"
  shows "\<exists>c2 out files. run_out_message_loop x cf ms c1 = Some (c2, out, None) \<and>
    List.map_filter scrape_of out = [\<lparr>wss_action = WsScrapeAction, wss_files = files\<rparr>] \<and>
    filter (\<lambda>m. scrape_of m = None) out = filter (\<lambda>m. scrape_of m = None) (map input_message ms) \<and>
    (\<forall>h. map_of files h = (if looked_up (wsc_swarm cf) (as_vec hashes) h
       then map_option ws_scrape_statistics_of (map_of (by_version (ci_ip_version ci)
         (maps (calculate_in_message_consumer_index (wsc_swarm cf) h))) h) else None)) \<and>
    sb_get (wcx_slab x) (cn_pending_scrapes c2) = sb_get (wcx_slab x) (cn_pending_scrapes c)"
proof -
  let ?cf = "wsc_swarm cf" and ?get = "\<lambda>c. sb_get (wcx_slab x) (cn_pending_scrapes c)"
  let ?index = "calculate_in_message_consumer_index ?cf"
  let ?tm = "\<lambda>w. by_version (ci_ip_version ci) (maps w)"
  define parts where "parts = by_worker ?index (as_vec hashes)"
  from reader_scrape_sent [OF sb r nb hs(1), folded parts_def]
  obtain pid where pid: "?get c (unat pid) = None"
      "?get c1 = (?get c)(unat pid \<mapsto> \<lparr>ps_pending_worker_out_messages = of_nat (length parts), ps_stats = []\<rparr>)"
    and answers: "swarm_answers ?cf maps sends = map (\<lambda>(w, hs). (out_meta_of (make_connection_meta ci (Some pid)),
       WsScrapeRes \<lparr>wss_action = WsScrapeAction, wss_files = worker_files ?cf (?tm w) hs\<rparr>)) parts"
    by blast
  let ?ps = "filter (\<lambda>p. scrape_of (snd p) \<noteq> None) (map input_pair ms)"
  have set_ps: "set ?ps = set (swarm_answers ?cf maps sends)" using arrived by (rule mset_eq_setD)
  have "length ?ps = length parts" using mset_eq_length [OF arrived] by (simp add: answers)
  then have len: "length (scrape_inputs ms) = length parts" by (simp add: scrape_inputs_pairs)
  have le: "length parts \<le> 256" unfolding parts_def by (rule by_worker_length)
  have ne: "scrape_inputs ms \<noteq> []" using len hs(2) by_worker_empty [of ?index "as_vec hashes"] by (auto simp: parts_def)
  have ids: "\<forall>i \<in> set ms. scrape_of (input_message i) \<noteq> None \<longrightarrow>
      mo_pending_scrape_id (fst (input_pair i)) = Some pid"
  proof (intro ballI impI)
    fix i assume "i \<in> set ms" "scrape_of (input_message i) \<noteq> None"
    then have "input_pair i \<in> set ?ps" by (auto simp: input_pair_def input_message_def split: prod.splits)
    then show "mo_pending_scrape_id (fst (input_pair i)) = Some pid"
      unfolding set_ps answers by (auto simp: out_meta_of_def make_connection_meta_def)
  qed
  have p: "?get c1 (unat pid) = Some \<lparr>ps_pending_worker_out_messages = of_nat (length parts), ps_stats = []\<rparr>"
    by (simp add: pid(2))
  let ?files = "fold (\<lambda>fs stats. extend_files stats fs) (map wss_files (scrape_inputs ms)) []"
  from gather [OF sb ms ne p _ _ ids, of cf] len le
  obtain c2 out where run: "run_out_message_loop x cf ms c1 = Some (c2, out, None)"
      "List.map_filter scrape_of out = [\<lparr>wss_action = WsScrapeAction, wss_files = ?files\<rparr>]"
      "filter (\<lambda>m. scrape_of m = None) out = filter (\<lambda>m. scrape_of m = None) (map input_message ms)"
      "?get c2 = (?get c1)(unat pid := None)" by auto
  have mem: "set (map wss_files (scrape_inputs ms)) = (\<lambda>(w, hs). worker_files ?cf (?tm w) hs) ` set parts"
    unfolding scrape_inputs_pairs set_map set_ps answers by (auto simp: image_image case_prod_unfold)
  have "map_of ?files h = scrape_lookup ?cf ?tm (as_vec hashes) h" for h
    by (rule gathered_lookup) (use mem in \<open>simp add: parts_def\<close>)
  moreover have "?get c2 = ?get c" unfolding run(4) pid(2) using pid(1) by (auto simp: fun_eq_iff)
  ultimately show ?thesis using run(1-3) unfolding scrape_lookup_def by blast
qed

text \<open>A scrape of two torrents, one of which exists, answered after a reply to somebody's announce.\<close>

definition sample_scrape :: ws_scrape_request where
  "sample_scrape = \<lparr>wsr_action = WsScrapeAction, wsr_info_hashes = Some (Multiple [5, 6])\<rparr>"

lemma sample_scrape_run:
  "reader_scrape ref_conn_crates sample_socket_config sample_guard_env (sample_info 2) sample_scrape sample_connection =
     (sample_connection\<lparr>cn_pending_scrapes := [Some \<lparr>ps_pending_worker_out_messages = 1, ps_stats = []\<rparr>]\<rparr>,
      [ToSwarm 0 (make_connection_meta (sample_info 2) (Some 0)) (WsInScrape sample_scrape)], None)"
  "\<not> fst (ws_run_security_checks ref_conn_crates sample_socket_config sample_guard_env (sample_info 2) None
     (cn_bans sample_connection))"
  by (simp_all add: reader_scrape_def ws_run_security_checks_def list_bans_def tracker_bans_def private_ip_blocked_def
      client_violation_def sample_conn_defs sample_scrape_def by_worker_def calculate_in_message_consumer_index_def
      ref_conn_crates_def ref_slab_def ref_slab_insert_def u8_max_def Let_def)

definition sample_inputs :: "writer_input list" where
  "sample_inputs = [(True, 7, out_meta_of (ws_sample_meta 2), WsError \<lparr>wer_failure_reason = [], wer_action = None, wer_info_hash = None\<rparr>),
     (True, 8, out_meta_of (make_connection_meta (sample_info 2) (Some 0)),
       WsScrapeRes \<lparr>wss_action = WsScrapeAction,
         wss_files = [(5, \<lparr>wst_complete = 1, wst_incomplete = 0, wst_downloaded = 0\<rparr>)]\<rparr>)]"

lemma ws_scrapes_are_gathered_witness:
  "\<exists>c2 out files. run_out_message_loop ref_conn_crates sample_socket_config sample_inputs
      (sample_connection\<lparr>cn_pending_scrapes := [Some \<lparr>ps_pending_worker_out_messages = 1, ps_stats = []\<rparr>]\<rparr>) =
      Some (c2, out, None) \<and>
    List.map_filter scrape_of out = [\<lparr>wss_action = WsScrapeAction, wss_files = files\<rparr>] \<and>
    map_of files 6 = None"
proof -
  have a: "swarm_answers (wsc_swarm sample_socket_config) (\<lambda>w. sample_maps 1)
      [ToSwarm 0 (make_connection_meta (sample_info 2) (Some 0)) (WsInScrape sample_scrape)] =
    [(out_meta_of (make_connection_meta (sample_info 2) (Some 0)),
       WsScrapeRes \<lparr>wss_action = WsScrapeAction,
         wss_files = [(5, \<lparr>wst_complete = 1, wst_incomplete = 0, wst_downloaded = 0\<rparr>)]\<rparr>)]"
    by (simp add: swarm_answers_def ws_handle_scrape_def ws_scrape_map_def sample_scrape_def sample_maps_def
        make_connection_meta_def sample_info_def ws_scrape_statistics_of_def wt_num_leechers_def
        sample_socket_config_def ws_sample_config_def Let_def)
  have "mset (filter (\<lambda>p. scrape_of (snd p) \<noteq> None) (map input_pair sample_inputs)) =
      mset (swarm_answers (wsc_swarm sample_socket_config) (\<lambda>w. sample_maps 1)
        [ToSwarm 0 (make_connection_meta (sample_info 2) (Some 0)) (WsInScrape sample_scrape)])"
    unfolding a by (simp add: sample_inputs_def input_pair_def)
  moreover have "sends_ok sample_inputs" by (simp add: sends_ok_def sample_inputs_def u32_max_def)
  moreover have "map_of (by_version WsV4 (sample_maps 1)) 6 = None" by (simp add: sample_maps_def)
  ultimately show ?thesis
    using ws_scrapes_are_gathered [OF ref_conn_slab sample_scrape_run, of "Multiple [5, 6]" sample_inputs "\<lambda>w. sample_maps 1"]
    by (auto simp: sample_scrape_def sample_info_def)
qed

subsection \<open>The address of a client\<close>

definition is_forwarded_for :: "bytes \<Rightarrow> bool" where
  "is_forwarded_for name = eq_ignore_case name (str ''x-forwarded-for'')"

lemma forwarded_is_no_agent: "is_forwarded_for name \<Longrightarrow> \<not> eq_ignore_case name (str ''user-agent'')"
  by (auto simp: is_forwarded_for_def eq_ignore_case_def str_def to_lower_def ascii_upper_def)

text \<open>The first X-Forwarded-For line is the one that is read, and read only if it is visible ASCII.\<close>

lemma first_line_text:
  assumes "header_map (wcx_header_get x) (wcx_to_str x)" and "is_forwarded_for name"
    and "\<forall>line \<in> set before. \<not> is_forwarded_for (fst line)"
  shows "header_text x (before @ (name, value) # after) (str ''x-forwarded-for'') =
    (if list_all visible_ascii value then Some value else None)"
proof -
  note get = header_map.get_append [OF assms(1)] header_map.get_line [OF assms(1)]
  have "wcx_header_get x before (str ''x-forwarded-for'') = None"
    using assms(3) by (simp add: header_map.get_none [OF assms(1)] is_forwarded_for_def)
  then show ?thesis
    using assms(2) by (simp add: header_text_def get header_map.to_str_visible [OF assms(1)] is_forwarded_for_def)
qed

text \<open>C34. The first X-Forwarded-For line decides the address a client is judged by. Without a trusted proxy in
  front of the client no line counts. Behind one, where the proxies appended their entries to that line,
  the first of them for an address that is no proxy, whatever the client wrote in front of them leaves
  the whole handshake as it is. But where a proxy adds a line of its own after the client's, the address
  is the one the client wrote, and a character of the line that is not visible ASCII makes it the
  address of the proxy.\<close>

theorem first_forwarded_line_decides:
  assumes "header_map (wcx_header_get x) (wcx_to_str x)" and "is_forwarded_for name"
    and "\<forall>line \<in> set before. \<not> is_forwarded_for (fst line)"
  shows "(\<not> (tp_enabled (wsc_trusted_proxies cf) \<and> is_trusted (wcx_networks x) trusted (canonical_ip sock)) \<longrightarrow>
      handshake_peer_ip x cf trusted sock headers = canonical_ip sock) \<and>
    (list_all visible_ascii (client @ 44 # appended) \<and>
     (\<exists>ip \<in> set (header_ips (wcx_networks x) appended). \<not> is_trusted (wcx_networks x) trusted ip) \<longrightarrow>
      handshake x cf ge trusted sock (before @ (name, client @ 44 # appended) # after) bs =
      handshake x cf ge trusted sock (before @ (name, appended) # after) bs) \<and>
    (tp_enabled (wsc_trusted_proxies cf) \<and> is_trusted (wcx_networks x) trusted (canonical_ip sock) \<and>
     list_all visible_ascii client \<and> last_forwarded_for_ip (wcx_networks x) client trusted = Some ip \<longrightarrow>
      handshake_peer_ip x cf trusted sock (before @ (name, client) # after) = canonical_ip ip) \<and>
    (\<not> list_all visible_ascii client \<longrightarrow>
      handshake_peer_ip x cf trusted sock (before @ (name, client) # after) = canonical_ip sock)"
proof -
  let ?nc = "wcx_networks x"
  have address: "handshake_peer_ip x cf trusted sock (before @ (name, v) # after) = resolve_handshake_peer_ip ?nc
      (wsc_trusted_proxies cf) trusted sock (if list_all visible_ascii v then Some v else None)" for v
    by (simp only: handshake_peer_ip_def first_line_text [OF assms] Let_def)
  note get = header_map.get_append [OF assms(1)] header_map.get_line [OF assms(1)]
  have agent: "header_text x (before @ (name, a) # after) (str ''user-agent'') =
      header_text x (before @ (name, b) # after) (str ''user-agent'')" for a b
    using forwarded_is_no_agent [OF assms(2)] by (simp add: header_text_def get split: option.split)
  have "handshake_peer_ip x cf trusted sock (before @ (name, client @ 44 # appended) # after) =
      handshake_peer_ip x cf trusted sock (before @ (name, appended) # after)"
    if "list_all visible_ascii (client @ 44 # appended)"
      "\<exists>ip \<in> set (header_ips ?nc appended). \<not> is_trusted ?nc trusted ip"
  proof -
    have "last_forwarded_for_ip ?nc (client @ 44 # appended) trusted = last_forwarded_for_ip ?nc appended trusted"
      unfolding last_forwarded_for_ip_spec header_ips_append by (rule client_address_append [OF that(2)])
    then show ?thesis using that(1) by (simp add: address resolve_handshake_peer_ip_def Let_def)
  qed
  then have "handshake x cf ge trusted sock (before @ (name, client @ 44 # appended) # after) bs =
      handshake x cf ge trusted sock (before @ (name, appended) # after) bs"
    if "list_all visible_ascii (client @ 44 # appended)"
      "\<exists>ip \<in> set (header_ips ?nc appended). \<not> is_trusted ?nc trusted ip"
    using that unfolding handshake_def agent [of "client @ 44 # appended" appended] by simp
  moreover have "\<not> (tp_enabled (wsc_trusted_proxies cf) \<and> is_trusted ?nc trusted (canonical_ip sock)) \<Longrightarrow>
      handshake_peer_ip x cf trusted sock headers = canonical_ip sock"
    by (auto simp: handshake_peer_ip_def resolve_handshake_peer_ip_def Let_def)
  ultimately show ?thesis by (simp add: address resolve_handshake_peer_ip_def Let_def)
qed

text \<open>A proxy at 10.0.0.1 and a client at 4.3.2.1 that claims to be somebody else.\<close>

definition sample_networks :: "ip_range network_crates" where
  "sample_networks = ref_networks [(str ''10.0.0.1/32'', \<lparr>base = ipv4 10 0 0 1, prefix_len = 32\<rparr>)]
     [(str ''10.0.0.1'', ipv4 10 0 0 1), (str ''4.3.2.1'', ipv4 4 3 2 1), (str ''9.9.9.9'', ipv4 9 9 9 9)]"

definition sample_proxied_config :: ws_socket_config where
  "sample_proxied_config = sample_socket_config\<lparr>wsc_trusted_proxies := \<lparr>tp_enabled = True, tp_path = []\<rparr>\<rparr>"

definition sample_proxied_crates :: "(pending_scrape_response option list, ip_range) ws_conn_crates" where
  "sample_proxied_crates = ref_conn_crates\<lparr>wcx_networks := sample_networks\<rparr>"

abbreviation sample_proxies :: "ip_range trusted_proxies" where
  "sample_proxies \<equiv> [\<lparr>base = ipv4 10 0 0 1, prefix_len = 32\<rparr>]"

lemma sample_header_ips:
  "header_ips sample_networks (str ''4.3.2.1'') = [ipv4 4 3 2 1]"
  "header_ips sample_networks (str ''9.9.9.9'') = [ipv4 9 9 9 9]"
proof -
  have "trim [52, 46, 51, 46, 50, 46, 49] = [52, 46, 51, 46, 50, 46, 49]"
    "trim [57, 46, 57, 46, 57, 46, 57] = [57, 46, 57, 46, 57, 46, 57]"
    by (simp_all add: trim_def trim_start_matches.simps trim_end_matches.simps strip_prefixes_def strip_suffixes_def
        white_space_def starts_with_def ends_with_def str_def)
  then show "header_ips sample_networks (str ''4.3.2.1'') = [ipv4 4 3 2 1]"
    "header_ips sample_networks (str ''9.9.9.9'') = [ipv4 9 9 9 9]"
    by (simp_all add: header_ips_def List.map_filter_simps sample_networks_def ref_networks_def ipv4_def)
qed

lemma sample_trusted:
  "is_trusted sample_networks sample_proxies (ipv4 10 0 0 1)"
  "\<not> is_trusted sample_networks sample_proxies (ipv4 4 3 2 1)"
  "\<not> is_trusted sample_networks sample_proxies (ipv4 9 9 9 9)"
  by (simp_all add: is_trusted_def sample_networks_def ref_networks_def range_contains_def ipv4_def mask32_def shl_def
        be_word_def be_nat_def)

lemma first_forwarded_line_decides_witness:
  "handshake sample_proxied_crates sample_proxied_config sample_guard_env sample_proxies (ipv4 10 0 0 1)
     [(str ''X-Forwarded-For'', str ''9.9.9.9'' @ 44 # str ''4.3.2.1'')] (cn_bans sample_connection) =
   handshake sample_proxied_crates sample_proxied_config sample_guard_env sample_proxies (ipv4 10 0 0 1)
     [(str ''X-Forwarded-For'', str ''4.3.2.1'')] (cn_bans sample_connection) \<and>
   handshake_peer_ip sample_proxied_crates sample_proxied_config sample_proxies (ipv4 10 0 0 1)
     [(str ''X-Forwarded-For'', str ''9.9.9.9''), (str ''X-Forwarded-For'', str ''4.3.2.1'')] = ipv4 9 9 9 9"
proof -
  have laws: "header_map (wcx_header_get sample_proxied_crates) (wcx_to_str sample_proxied_crates)"
    by (simp add: sample_proxied_crates_def ref_conn_crates_def ref_headers.header_map_axioms)
  have name: "is_forwarded_for (str ''X-Forwarded-For'')"
    by (simp add: is_forwarded_for_def eq_ignore_case_def str_def to_lower_def ascii_upper_def)
  have nc: "wcx_networks sample_proxied_crates = sample_networks" "tp_enabled (wsc_trusted_proxies sample_proxied_config)"
    by (simp_all add: sample_proxied_crates_def sample_proxied_config_def)
  have visible: "list_all visible_ascii (str ''9.9.9.9'')" "list_all visible_ascii (str ''9.9.9.9'' @ 44 # str ''4.3.2.1'')"
    by (simp_all add: visible_ascii_def str_def)
  have first: "last_forwarded_for_ip sample_networks (str ''9.9.9.9'') sample_proxies = Some (ipv4 9 9 9 9)"
    unfolding last_forwarded_for_ip_spec sample_header_ips using sample_trusted(3) by (simp add: client_address_def)
  have canonical: "canonical_ip (ipv4 10 0 0 1) = ipv4 10 0 0 1" "canonical_ip (ipv4 9 9 9 9) = ipv4 9 9 9 9"
    by (simp_all add: ipv4_def)
  have other: "\<exists>ip \<in> set (header_ips sample_networks (str ''4.3.2.1'')). \<not> is_trusted sample_networks sample_proxies ip"
    unfolding sample_header_ips using sample_trusted(2) by simp
  note decides = first_forwarded_line_decides [OF laws name, of "[]", unfolded nc(1) append_Nil]
  show ?thesis
    using decides [of sample_proxied_config sample_proxies "ipv4 10 0 0 1" "[]" "str ''9.9.9.9''" "str ''4.3.2.1''"
        sample_guard_env "[]" "cn_bans sample_connection" "ipv4 9 9 9 9"]
      decides [of sample_proxied_config sample_proxies "ipv4 10 0 0 1" "[]" "str ''9.9.9.9''" "[]"
        sample_guard_env "[(str ''X-Forwarded-For'', str ''4.3.2.1'')]" "cn_bans sample_connection" "ipv4 9 9 9 9"]
      nc(2) visible first other sample_trusted(1) canonical
    by (simp del: append_Cons)
qed

end
