(* ===== verification/Http_Connection.thy ===== *)
theory Http_Connection
  imports Http_Swarm Conn_Guard Trusted_Proxies Routing
begin

text \<open>
  \<open>crates/http/src/workers/socket/request.rs\<close> and \<open>connection.rs\<close>: one connection of the HTTP tracker,
  from the bytes read to the bytes written. What each read of the stream yields is given; the bytes
  written are collected. The swarm workers answer at once, from their maps; the order in which the
  answers to the parts of a scrape arrive is an argument, and so are \<open>httparse\<close> and the network
  crates. TLS, metrics and the worker's accept loop are not modelled. \<open>None\<close> is a panic.
\<close>

subsection \<open>The head of a request\<close>

record http_header =
  h_name :: bytes
  h_value :: bytes

text \<open>What \<open>httparse\<close> makes of the bytes so far: the length of the head, the path and the headers.\<close>

datatype head_result =
    HeadComplete nat "bytes option" "http_header list"
  | HeadPartial
  | HeadError

type_synonym head_parser = "bytes \<Rightarrow> head_result"

text \<open>
  A complete head is a non-empty beginning of the bytes and does not depend on what follows it; less
  of it is partial.
\<close>

locale head_framing =
  fixes parse :: head_parser
  assumes head_bound: "parse b = HeadComplete n p hs \<Longrightarrow> 0 < n \<and> n \<le> length b"
    and head_prefix: "parse b = HeadComplete n p hs \<Longrightarrow> parse (take n b @ rest) = HeadComplete n p hs"
    and head_partial: "parse b = HeadComplete n p hs \<Longrightarrow> m < n \<Longrightarrow> parse (take m b) = HeadPartial"

record http_socket_config =
  hsc_swarm :: http_config
  hsc_guard :: guard_config
  hsc_swarm_workers :: nat
  hsc_trusted_proxies :: trusted_proxies_config
  hsc_keep_alive :: bool
  hsc_runs_behind_reverse_proxy :: bool
  hsc_reverse_proxy_ip_header_name :: bytes
  hsc_max_connection_idle :: u32

record ('r, 'n) http_conn_crates =
  hcx_http :: http_crates
  hcx_head :: head_parser
  hcx_networks :: "'n network_crates"
  hcx_show_ip :: "ip_addr \<Rightarrow> bytes"
  hcx_swarm_ops :: http_swarm_ops
  hcx_gen :: "'r gen_range"

record parsed_request =
  pr_request :: http_request
  pr_opt_peer_ip :: "ip_addr option"
  pr_opt_user_agent :: "bytes option"
  pr_consumed :: nat

datatype http_request_parse_error = RequiredPeerIpHeaderMissing | MoreDataNeeded | OtherRequestError

fun parse_user_agent_header :: "http_header list \<Rightarrow> bytes option" where
  "parse_user_agent_header [] = None"
| "parse_user_agent_header (h # hs) =
     (if eq_ignore_case (h_name h) (str ''User-Agent'') \<and> valid_utf8 (h_value h) then Some (h_value h)
      else parse_user_agent_header hs)"

text \<open>The values of all instances of the header, joined in order; \<open>None\<close> where one is not UTF-8.\<close>

fun forwarded_values :: "bytes \<Rightarrow> bytes \<Rightarrow> http_header list \<Rightarrow> bytes option" where
  "forwarded_values name values [] = Some values"
| "forwarded_values name values (h # hs) =
     (if eq_ignore_case (h_name h) name then
        (if \<not> valid_utf8 (h_value h) then None
         else forwarded_values name
           ((if values \<noteq> [] then values @ str '', '' else values) @ h_value h) hs)
      else forwarded_values name values hs)"

definition parse_forwarded_header ::
  "'n network_crates \<Rightarrow> bytes \<Rightarrow> 'n trusted_proxies \<Rightarrow> http_header list \<Rightarrow> ip_addr option" where
  "parse_forwarded_header nc header_name trusted headers =
     (case forwarded_values header_name [] headers of
        None \<Rightarrow> None
      | Some values \<Rightarrow> if values = [] then None else last_forwarded_for_ip nc values trusted)"

definition http_parse_request ::
  "('r, 'n) http_conn_crates \<Rightarrow> http_socket_config \<Rightarrow> bool \<Rightarrow> 'n trusted_proxies \<Rightarrow> bytes \<Rightarrow>
   http_request_parse_error + parsed_request" where
  "http_parse_request x cf trust_forwarded_ip trusted buffer =
     (case hcx_head x buffer of
        HeadError \<Rightarrow> Inl OtherRequestError
      | HeadPartial \<Rightarrow> Inl MoreDataNeeded
      | HeadComplete consumed opt_path headers \<Rightarrow>
          and_then (ok_or OtherRequestError opt_path) (\<lambda>path.
          and_then (map_err (\<lambda>_. OtherRequestError) (parse_http_get_path (hcx_http x) path)) (\<lambda>request.
          and_then
            (if trust_forwarded_ip then
               map_err (\<lambda>_. RequiredPeerIpHeaderMissing)
                 (and_then (ok_or () (parse_forwarded_header (hcx_networks x)
                     (hsc_reverse_proxy_ip_header_name cf) trusted headers)) (\<lambda>ip. Inr (Some ip)))
             else Inr None) (\<lambda>opt_peer_ip.
            Inr \<lparr>pr_request = request, pr_opt_peer_ip = opt_peer_ip,
              pr_opt_user_agent = parse_user_agent_header headers, pr_consumed = consumed\<rparr>))))"

subsection \<open>Reading\<close>

definition REQUEST_BUFFER_SIZE :: nat where
  "REQUEST_BUFFER_SIZE = 2048"

datatype http_connection_error =
    BadRequest | RequestBufferFull | ResponseBufferFull | ResponseBufferWrite | PeerClosed | ReadFailed
  | PeerIpHeaderMissing | NoPeerAddr | ScrapeChannelError

text \<open>
  What reads yield: an error, or bytes, of which a read takes as many as fit and leaves the rest for the
  next. No bytes, and the end of the list, are a closed connection.
\<close>

type_synonym read_chunks = "(unit + bytes) list"

function http_read_loop ::
  "(bytes \<Rightarrow> http_request_parse_error + parsed_request) \<Rightarrow> bytes \<Rightarrow> read_chunks \<Rightarrow>
   (http_connection_error + parsed_request) \<times> bytes \<times> read_chunks" where
  "http_read_loop parse buffer reads =
     (case (if buffer \<noteq> [] then parse buffer else Inl MoreDataNeeded) of
        Inr parsed \<Rightarrow> (Inr parsed, buffer, reads)
      | Inl RequiredPeerIpHeaderMissing \<Rightarrow> (Inl PeerIpHeaderMissing, buffer, reads)
      | Inl OtherRequestError \<Rightarrow> (Inl BadRequest, buffer, reads)
      | Inl MoreDataNeeded \<Rightarrow>
          if length buffer = REQUEST_BUFFER_SIZE then (Inl RequestBufferFull, buffer, reads)
          else
            (case reads of
               [] \<Rightarrow> (Inl PeerClosed, buffer, [])
             | Inl _ # cs \<Rightarrow> (Inl ReadFailed, buffer, cs)
             | Inr c # cs \<Rightarrow>
                 (let n = min (length c) (REQUEST_BUFFER_SIZE - length buffer) in
                  if n = 0 then (Inl PeerClosed, buffer, cs)
                  else http_read_loop parse (buffer @ take n c)
                    (if n < length c then Inr (drop n c) # cs else cs))))"
  by pat_completeness auto
termination
  by (relation "measure (\<lambda>(parse, buffer, reads).
      sum_list (map (\<lambda>c. case c of Inl _ \<Rightarrow> 0 | Inr bs \<Rightarrow> length bs) reads))")
    (auto simp: Let_def)

declare http_read_loop.simps [simp del]

text \<open>\<open>split_once\<close> with a pattern: what precedes its first occurrence.\<close>

fun before_pattern :: "bytes \<Rightarrow> bytes \<Rightarrow> bytes option" where
  "before_pattern pat [] = (if pat = [] then Some [] else None)"
| "before_pattern pat (c # s) =
     (if starts_with (c # s) pat then Some []
      else map_option (\<lambda>p. c # p) (before_pattern pat s))"

text \<open>The bytes up to the next white space, and the rest.\<close>

fun next_word :: "bytes \<Rightarrow> bytes \<times> bytes" where
  "next_word [] = ([], [])"
| "next_word (c # s) =
     (if strip_prefixes white_space (c # s) \<noteq> 0 then ([], c # s)
      else (let (w, r) = next_word s in (c # w, r)))"

definition extract_request_target :: "bytes \<Rightarrow> bytes" where
  "extract_request_target raw_request =
     (let request_line = (case before_pattern [13, 10] raw_request of
            Some line \<Rightarrow> line
          | None \<Rightarrow> (case before_pattern [10] raw_request of Some line \<Rightarrow> line | None \<Rightarrow> raw_request));
          (_, r) = next_word (trim_start_matches white_space request_line);
          (target, _) = next_word (trim_start_matches white_space r)
      in if target \<noteq> [] then target else request_line)"

text \<open>What the connection loop makes of a parsed request, and the bytes left in the buffer.\<close>

record http_read =
  rd_request :: http_request
  rd_opt_peer_addr :: "canonical_socket_addr option"
  rd_opt_user_agent :: "bytes option"
  rd_request_target :: bytes

definition socket_addr_new :: "ip_addr \<Rightarrow> u16 \<Rightarrow> socket_addr" where
  "socket_addr_new ip port = (case ip of V4 a \<Rightarrow> SocketV4 a port | V6 a \<Rightarrow> SocketV6 a port 0 0)"

definition finish_request ::
  "bool \<Rightarrow> u16 \<Rightarrow> parsed_request \<Rightarrow> bytes \<Rightarrow> (http_connection_error + http_read) \<times> bytes" where
  "finish_request trust_forwarded_ip peer_port parsed buffer =
     (let request_target = extract_request_target (from_utf8_lossy (take (pr_consumed parsed) buffer));
          buffer' = drop (pr_consumed parsed) buffer
      in (and_then
            (if trust_forwarded_ip then
               and_then (ok_or NoPeerAddr (pr_opt_peer_ip parsed))
                 (\<lambda>ip. Inr (Some (canonical_new (socket_addr_new ip peer_port))))
             else Inr None) (\<lambda>opt_peer_addr.
            Inr \<lparr>rd_request = pr_request parsed, rd_opt_peer_addr = opt_peer_addr,
              rd_opt_user_agent = pr_opt_user_agent parsed, rd_request_target = request_target\<rparr>),
          buffer'))"

definition http_read_request ::
  "('r, 'n) http_conn_crates \<Rightarrow> http_socket_config \<Rightarrow> bool \<Rightarrow> 'n trusted_proxies \<Rightarrow> u16 \<Rightarrow> bytes \<Rightarrow>
   read_chunks \<Rightarrow> (http_connection_error + http_read) \<times> bytes \<times> read_chunks" where
  "http_read_request x cf trust_forwarded_ip trusted peer_port buffer reads =
     (case http_read_loop (http_parse_request x cf trust_forwarded_ip trusted) buffer reads of
        (Inl e, buffer', reads') \<Rightarrow> (Inl e, buffer', reads')
      | (Inr parsed, buffer', reads') \<Rightarrow>
          (let (res, buffer'') = finish_request trust_forwarded_ip peer_port parsed buffer'
           in (res, buffer'', reads')))"

subsection \<open>Checks\<close>

definition http_failure :: "string \<Rightarrow> http_response" where
  "http_failure reason = HttpResFailure \<lparr>failure_reason = str reason\<rparr>"

text \<open>The reason the request filter objected, among the filters that are on.\<close>

definition filter_violation :: "request_filter_config \<Rightarrow> bytes \<Rightarrow> bytes option \<Rightarrow> auto_ban_reason option" where
  "filter_violation fc request_target opt_user_agent =
     (let rf = request_filter_default in
      if filter_sql_injection fc \<and> is_sql_injection rf request_target then Some SqlInjection
      else if filter_path_traversal fc \<and> is_path_traversal rf request_target then Some PathTraversal
      else if filter_crawlers fc \<and> is_crawler rf opt_user_agent then Some Crawler
      else if filter_missing_user_agent fc \<and> opt_user_agent = None then Some MissingUserAgent
      else None)"

definition client_failure :: "auto_ban_reason \<Rightarrow> http_response" where
  "client_failure reason =
     (if reason = ClientBanned then http_failure ''Client banned''
      else if reason = NonStandardPeerId then http_failure ''Unsupported client''
      else http_failure ''Client identity mismatch'')"

definition http_run_security_checks ::
  "('r, 'n) http_conn_crates \<Rightarrow> http_socket_config \<Rightarrow> guard_env \<Rightarrow> canonical_socket_addr \<Rightarrow> http_read \<Rightarrow>
   ban_state \<Rightarrow> http_response option \<times> ban_state" where
  "http_run_security_checks x cf ge peer_addr rd bs =
     (let peer_ip = socket_ip (get_addr peer_addr);
          gc = hsc_guard cf;
          fc = gc_request_filter gc;
          report = (\<lambda>reason. report_violation (hcx_show_ip x) ge peer_ip reason bs);
          opt_peer_id = (case rd_request rd of HttpAnnounce r \<Rightarrow> Some (ha_peer_id r) | HttpScrape _ \<Rightarrow> None)
      in if tracker_bans ge peer_ip bs then (Some (http_failure ''IP auto-banned''), bs)
         else if list_bans gc ge peer_ip then (Some (http_failure ''IP banned''), bs)
         else if \<not> is_allowed_with_config request_filter_default (rd_request_target rd) (rd_opt_user_agent rd) fc then
           (Some (http_failure ''Request filtered''),
            case filter_violation fc (rd_request_target rd) (rd_opt_user_agent rd) of
              Some reason \<Rightarrow> report reason | None \<Rightarrow> bs)
         else if private_ip_blocked gc request_filter_default peer_ip then
           (Some (http_failure ''Private IP not allowed''), report PrivateIp)
         else
           (case client_violation gc ge opt_peer_id (rd_opt_user_agent rd) of
              Some reason \<Rightarrow> (Some (client_failure reason), report reason)
            | None \<Rightarrow> (None, bs)))"

subsection \<open>Serving\<close>

definition calculate_request_consumer_index :: "http_socket_config \<Rightarrow> http_info_hash \<Rightarrow> nat" where
  "calculate_request_consumer_index cf info_hash =
     unat (hd (word_be 20 info_hash)) mod max 1 (hsc_swarm_workers cf)"

text \<open>What one round of the loop meets: lists and clocks, the order of the answers to a scrape.\<close>

record http_round =
  hr_guard :: guard_env
  hr_secs :: nat
  hr_peer_valid_until :: "nat \<Rightarrow> valid_until"
  hr_order :: "http_scrape_response list \<Rightarrow> http_scrape_response list"

record 'r http_connection =
  hcn_buffer :: bytes
  hcn_input :: read_chunks
  hcn_valid_until :: valid_until
  hcn_bans :: ban_state
  hcn_maps :: "nat \<Rightarrow> http_torrent_maps"
  hcn_rng :: 'r
  hcn_output :: bytes

definition btree_extend ::
  "(http_info_hash \<times> http_scrape_statistics) list \<Rightarrow> (http_info_hash \<times> http_scrape_statistics) list \<Rightarrow>
   (http_info_hash \<times> http_scrape_statistics) list" where
  "btree_extend stats files = fold (\<lambda>(h, st). btree_insert h st) files stats"

text \<open>The loop over the answers, which ends with the last of the pending ones.\<close>

fun wait_for_scrape_responses ::
  "http_scrape_response list \<Rightarrow> nat \<Rightarrow> (http_info_hash \<times> http_scrape_statistics) list \<Rightarrow>
   http_connection_error + http_response" where
  "wait_for_scrape_responses [] pending stats = Inl ScrapeChannelError"
| "wait_for_scrape_responses (r # rs) pending stats =
     (let stats' = btree_extend stats (hsr_files r)
      in if pending - 1 = 0 then Inr (HttpResScrape \<lparr>hsr_files = stats'\<rparr>)
         else wait_for_scrape_responses rs (pending - 1) stats')"

definition http_scrape_parts ::
  "http_socket_config \<Rightarrow> canonical_socket_addr \<Rightarrow> http_scrape_request \<Rightarrow> (nat \<Rightarrow> http_torrent_maps) \<Rightarrow>
   http_scrape_response list" where
  "http_scrape_parts cf peer_addr req maps =
     map (\<lambda>(w, hs). handle_scrape_request (hsc_swarm cf) peer_addr \<lparr>hs_info_hashes = hs\<rparr> (maps w))
       (by_worker (calculate_request_consumer_index cf) (hs_info_hashes req))"

definition http_handle_request ::
  "('r, 'n) http_conn_crates \<Rightarrow> http_socket_config \<Rightarrow> http_round \<Rightarrow> http_request \<Rightarrow> canonical_socket_addr \<Rightarrow>
   'r http_connection \<Rightarrow> ((http_connection_error + http_response) \<times> 'r http_connection) option" where
  "http_handle_request x cf rnd req peer_addr c =
     Option.bind (valid_until_new (hr_secs rnd) (hsc_max_connection_idle cf)) (\<lambda>valid_until.
       let c1 = c\<lparr>hcn_valid_until := valid_until\<rparr> in
       case req of
         HttpAnnounce request \<Rightarrow>
           if allows (gc_access_list_mode (hsc_guard cf)) (ge_access_list (hr_guard rnd)) (ha_info_hash request) then
             (let w = calculate_request_consumer_index cf (ha_info_hash request) in
              map_option (\<lambda>(res, maps', r').
                  (Inr (HttpResAnnounce res), c1\<lparr>hcn_maps := (hcn_maps c1)(w := maps'), hcn_rng := r'\<rparr>))
                (handle_announce_request (hcx_swarm_ops x) (hcx_gen x) (hsc_swarm cf) (hr_peer_valid_until rnd w)
                  peer_addr request (hcn_rng c1) (hcn_maps c1 w)))
           else Some (Inr (http_failure ''Info hash not allowed''), c1)
       | HttpScrape request \<Rightarrow>
           (let parts = http_scrape_parts cf peer_addr request (hcn_maps c1)
            in Some (wait_for_scrape_responses (hr_order rnd parts) (length parts) [], c1)))"

subsection \<open>Writing\<close>

definition RESPONSE_HEADER_A :: bytes where
  "RESPONSE_HEADER_A = str ''HTTP/1.1 200 OK'' @ [13, 10] @ str ''Content-Length: ''"

definition RESPONSE_HEADER_B :: bytes where
  "RESPONSE_HEADER_B = str ''        ''"

definition RESPONSE_HEADER_C :: bytes where
  "RESPONSE_HEADER_C = [13, 10, 13, 10]"

definition RESPONSE_HEADER :: bytes where
  "RESPONSE_HEADER = RESPONSE_HEADER_A @ RESPONSE_HEADER_B @ RESPONSE_HEADER_C"

definition BAD_REQUEST_RESPONSE :: bytes where
  "BAD_REQUEST_RESPONSE = str ''HTTP/1.1 400 Bad Request'' @ [13, 10] @ str ''Content-Length: 12'' @ [13, 10] @
     str ''Connection: close'' @ [13, 10, 13, 10] @ str ''Bad Request'' @ [10]"

definition response_buffer_size :: "http_socket_config \<Rightarrow> nat" where
  "response_buffer_size cf =
     (let announce_body = sat_add u64_max 256 (sat_mul u64_max (hcf_max_peers (hsc_swarm cf)) 96);
          scrape_body = sat_add u64_max 64 (sat_mul u64_max (hcf_max_scrape_torrents (hsc_swarm cf)) 112)
      in sat_add u64_max (sat_add u64_max (length RESPONSE_HEADER) 2) (max announce_body scrape_body))"

text \<open>The bytes handed to the stream: the padded length of the body and its line end, and both.\<close>

definition connection_write_response ::
  "http_crates \<Rightarrow> http_socket_config \<Rightarrow> http_response \<Rightarrow> http_connection_error + bytes" where
  "connection_write_response hc cf response =
     (let body = http_write_response hc response;
          position = length RESPONSE_HEADER + length body;
          content_len_bytes = hc_itoa hc (length body + 2)
      in if response_buffer_size cf < position then Inl ResponseBufferWrite
         else if response_buffer_size cf < position + 2 then Inl ResponseBufferFull
         else if length RESPONSE_HEADER_B < length content_len_bytes then Inl ResponseBufferFull
         else Inr (RESPONSE_HEADER_A @ content_len_bytes @ drop (length content_len_bytes) RESPONSE_HEADER_B @
           RESPONSE_HEADER_C @ body @ [13, 10]))"

subsection \<open>The connection loop\<close>

definition answer_with ::
  "('r, 'n) http_conn_crates \<Rightarrow> http_socket_config \<Rightarrow> http_response \<Rightarrow> 'r http_connection \<Rightarrow>
   http_connection_error + 'r http_connection" where
  "answer_with x cf response c =
     and_then (connection_write_response (hcx_http x) cf response) (\<lambda>bs. Inr (c\<lparr>hcn_output := hcn_output c @ bs\<rparr>))"

text \<open>
  One round: the connection after it, and why it ends, if it does: \<open>Some None\<close> without an error. The
  stream takes all bytes written to it.
\<close>

definition http_serve ::
  "('r, 'n) http_conn_crates \<Rightarrow> http_socket_config \<Rightarrow> http_round \<Rightarrow> canonical_socket_addr option \<Rightarrow> http_read \<Rightarrow>
   'r http_connection \<Rightarrow> ('r http_connection \<times> http_connection_error option option) option" where
  "http_serve x cf rnd opt_stable_peer_addr rd c =
     (let finish = (\<lambda>(c', answered). case answered of
            Inl e \<Rightarrow> (c', Some (Some e))
          | Inr c'' \<Rightarrow> (c'', if hsc_keep_alive cf then None else Some None))
      in case (case opt_stable_peer_addr of Some a \<Rightarrow> Some a | None \<Rightarrow> rd_opt_peer_addr rd) of
           None \<Rightarrow> Some (c, Some (Some NoPeerAddr))
         | Some peer_addr \<Rightarrow>
             (let (blocked, bs) = http_run_security_checks x cf (hr_guard rnd) peer_addr rd (hcn_bans c);
                  c1 = c\<lparr>hcn_bans := bs\<rparr>
              in case blocked of
                   Some response \<Rightarrow> Some (finish (c1, answer_with x cf response c1))
                 | None \<Rightarrow>
                     map_option (\<lambda>(res, c2). finish (c2, and_then res (\<lambda>response. answer_with x cf response c2)))
                       (http_handle_request x cf rnd (rd_request rd) peer_addr c1)))"

definition http_connection_round ::
  "('r, 'n) http_conn_crates \<Rightarrow> http_socket_config \<Rightarrow> bool \<Rightarrow> 'n trusted_proxies \<Rightarrow> u16 \<Rightarrow>
   canonical_socket_addr option \<Rightarrow> http_round \<Rightarrow> 'r http_connection \<Rightarrow>
   ('r http_connection \<times> http_connection_error option option) option" where
  "http_connection_round x cf trust_forwarded_ip trusted peer_port opt_stable_peer_addr rnd c =
     (let (res, buffer', reads') =
            http_read_request x cf trust_forwarded_ip trusted peer_port (hcn_buffer c) (hcn_input c);
          c1 = c\<lparr>hcn_buffer := buffer', hcn_input := reads'\<rparr>
      in case res of
           Inl BadRequest \<Rightarrow> Some (c1\<lparr>hcn_output := hcn_output c1 @ BAD_REQUEST_RESPONSE\<rparr>, Some None)
         | Inl e \<Rightarrow> Some (c1, Some (Some e))
         | Inr rd \<Rightarrow> http_serve x cf rnd opt_stable_peer_addr rd c1)"

fun http_connection_run ::
  "('r, 'n) http_conn_crates \<Rightarrow> http_socket_config \<Rightarrow> bool \<Rightarrow> 'n trusted_proxies \<Rightarrow> u16 \<Rightarrow>
   canonical_socket_addr option \<Rightarrow> http_round list \<Rightarrow> 'r http_connection \<Rightarrow>
   ('r http_connection \<times> http_connection_error option option) option" where
  "http_connection_run x cf trust trusted peer_port stable_addr [] c = Some (c, None)"
| "http_connection_run x cf trust trusted peer_port stable_addr (rnd # rnds) c =
     Option.bind (http_connection_round x cf trust trusted peer_port stable_addr rnd c) (\<lambda>(c', ended).
       if ended \<noteq> None then Some (c', ended)
       else http_connection_run x cf trust trusted peer_port stable_addr rnds c')"

text \<open>\<open>run_connection\<close>: which address the connection's requests are judged by.\<close>

definition trust_forwarded ::
  "'n network_crates \<Rightarrow> http_socket_config \<Rightarrow> 'n trusted_proxies \<Rightarrow> socket_addr \<Rightarrow> bool" where
  "trust_forwarded nc cf trusted remote_addr =
     (hsc_runs_behind_reverse_proxy cf \<and> tp_enabled (hsc_trusted_proxies cf) \<and>
      is_trusted nc trusted (canonical_ip (socket_ip remote_addr)))"

definition run_connection ::
  "('r, 'n) http_conn_crates \<Rightarrow> http_socket_config \<Rightarrow> 'n trusted_proxies \<Rightarrow> socket_addr \<Rightarrow> http_round list \<Rightarrow>
   'r http_connection \<Rightarrow> ('r http_connection \<times> http_connection_error option option) option" where
  "run_connection x cf trusted remote_addr rnds c =
     (let trust = trust_forwarded (hcx_networks x) cf trusted remote_addr
      in http_connection_run x cf trust trusted (socket_port remote_addr)
           (if trust then None else Some (canonical_new remote_addr)) rnds c)"

end
