(* ===== verification/Http_Connection_Spec.thy ===== *)
theory Http_Connection_Spec
  imports Http_Connection Http_Swarm_Spec Http_Protocol_Spec
begin

text \<open>
  What a connection of the HTTP tracker promises: pipelined requests are framed whatever pieces they
  arrive in, a scrape spread over the swarm workers is put together, answers fit the buffer of a
  tracker with one swarm worker (and not of one with several), and a connection ends.
\<close>

subsection \<open>A head parser that meets the contract\<close>

definition CRLF2 :: bytes where
  "CRLF2 = [13, 10, 13, 10]"

definition ref_head :: head_parser where
  "ref_head b =
     (case before_pattern CRLF2 b of
        None \<Rightarrow> HeadPartial
      | Some p \<Rightarrow> HeadComplete (length p + 4) (Some (takeWhile (\<lambda>c. c \<noteq> 32) (drop 4 p))) [])"

lemma before_pattern_split: "before_pattern pat b = Some p \<Longrightarrow> \<exists>r. b = p @ pat @ r"
proof (induction pat b arbitrary: p rule: before_pattern.induct)
  case (2 pat c s)
  show ?case
  proof (cases "starts_with (c # s) pat")
    case True
    then have "c # s = pat @ drop (length pat) (c # s)"
      unfolding starts_with_def by (metis append_take_drop_id)
    then show ?thesis using 2(2) True by (metis before_pattern.simps(2) append_Nil option.inject)
  next
    case False
    then show ?thesis using 2 by auto
  qed
qed (simp split: if_splits)

lemma before_pattern_long: "before_pattern pat b = Some p \<Longrightarrow> length p + length pat \<le> length b"
  using before_pattern_split by fastforce

lemma before_pattern_more: "before_pattern pat b = Some p \<Longrightarrow> before_pattern pat (b @ r) = Some p"
proof (induction pat b arbitrary: p rule: before_pattern.induct)
  case (1 pat)
  then show ?case by (cases r) (simp_all add: starts_with_def split: if_splits)
next
  case (2 pat c s)
  show ?case
  proof (cases "starts_with (c # s) pat")
    case True
    then have "starts_with (c # s @ r) pat"
      unfolding starts_with_def by (metis append_Cons append_eq_conv_conj append_take_drop_id append_assoc)
    then show ?thesis using 2(2) True by simp
  next
    case False
    then obtain q where q: "before_pattern pat s = Some q" "p = c # q" using 2(2) by auto
    then have "length pat \<le> length s" using before_pattern_long by fastforce
    then have "\<not> starts_with (c # s @ r) pat"
      using False by (cases pat) (simp_all add: starts_with_def)
    then show ?thesis using 2(1) [OF False q(1)] q by simp
  qed
qed

lemma before_pattern_exact: "before_pattern pat b = Some p \<Longrightarrow> before_pattern pat (p @ pat) = Some p"
proof (induction pat b arbitrary: p rule: before_pattern.induct)
  case (1 pat)
  then show ?case by (simp split: if_splits)
next
  case (2 pat c s)
  show ?case
  proof (cases "starts_with (c # s) pat")
    case True
    then have "p = []" using 2(2) by simp
    then show ?thesis by (cases pat) (simp_all add: starts_with_def)
  next
    case False
    then obtain q where q: "before_pattern pat s = Some q" "p = c # q" using 2(2) by auto
    obtain t where s: "s = q @ pat @ t" using before_pattern_split [OF q(1)] by blast
    have "take (length pat) ((c # q @ pat) @ t) = take (length pat) (c # q @ pat)"
      unfolding take_append by simp
    then have "\<not> starts_with (c # q @ pat) pat"
      using False unfolding starts_with_def s by simp
    then show ?thesis using 2(1) [OF False q(1)] q by simp
  qed
qed

interpretation rh: head_framing ref_head
proof
  fix b rest :: bytes and n m p hs
  assume c: "ref_head b = HeadComplete n p hs"
  then obtain q where q: "before_pattern CRLF2 b = Some q" and n: "n = length q + 4"
    and p: "p = Some (takeWhile (\<lambda>c. c \<noteq> 32) (drop 4 q))" "hs = []"
    by (auto simp: ref_head_def split: option.splits)
  obtain t where b: "b = q @ CRLF2 @ t" using before_pattern_split [OF q] by blast
  have l: "length CRLF2 = 4" by (simp add: CRLF2_def)
  have t: "take n b = q @ CRLF2" by (simp add: b n l)
  show "0 < n \<and> n \<le> length b" by (simp add: b n l)
  show "ref_head (take n b @ rest) = HeadComplete n p hs"
    using before_pattern_more [OF before_pattern_exact [OF q], of rest]
    by (simp only: t append_assoc) (simp add: ref_head_def n p)
  assume m: "m < n"
  have "before_pattern CRLF2 (take m b) = None"
  proof (cases "before_pattern CRLF2 (take m b)")
    case (Some r)
    from before_pattern_more [OF Some, of "drop m b"] have "r = q" using q by simp
    then show ?thesis using before_pattern_long [OF Some] m n l by simp
  qed
  then show "ref_head (take m b) = HeadPartial" by (simp add: ref_head_def)
qed

subsection \<open>Framing\<close>

text \<open>Requests read one after the other, and what is left.\<close>

fun http_read_requests ::
  "('r, 'n) http_conn_crates \<Rightarrow> http_socket_config \<Rightarrow> bool \<Rightarrow> 'n trusted_proxies \<Rightarrow> u16 \<Rightarrow> nat \<Rightarrow> bytes \<Rightarrow>
   read_chunks \<Rightarrow> (http_connection_error + http_read) list \<times> bytes \<times> read_chunks" where
  "http_read_requests x cf trust trusted port 0 buffer reads = ([], buffer, reads)"
| "http_read_requests x cf trust trusted port (Suc n) buffer reads =
     (let (res, buffer', reads') = http_read_request x cf trust trusted port buffer reads;
          (ress, rest) = http_read_requests x cf trust trusted port n buffer' reads'
      in (res # ress, rest))"

text \<open>The bytes of one request: they parse, and all of them are the request.\<close>

definition whole_request ::
  "('r, 'n) http_conn_crates \<Rightarrow> http_socket_config \<Rightarrow> bool \<Rightarrow> 'n trusted_proxies \<Rightarrow> bytes \<Rightarrow> bool" where
  "whole_request x cf trust trusted r =
     (length r \<le> REQUEST_BUFFER_SIZE \<and>
      (case http_parse_request x cf trust trusted r of
         Inr p \<Rightarrow> pr_consumed p = length r | Inl _ \<Rightarrow> False))"

lemma http_parse_head:
  "http_parse_request x cf trust trusted b = Inr p \<Longrightarrow>
   \<exists>path hs. hcx_head x b = HeadComplete (pr_consumed p) path hs"
  by (auto simp: http_parse_request_def Let_def and_then_Inr split: head_result.splits)

lemma whole_request_parses:
  assumes "head_framing (hcx_head x)" and "whole_request x cf trust trusted r"
  obtains p where "pr_consumed p = length r" "r \<noteq> []"
    "\<And>rest. http_parse_request x cf trust trusted (r @ rest) = Inr p"
    "\<And>m. m < length r \<Longrightarrow> http_parse_request x cf trust trusted (take m r) = Inl MoreDataNeeded"
proof -
  obtain p where p: "http_parse_request x cf trust trusted r = Inr p" and l: "pr_consumed p = length r"
    using assms(2) by (auto simp: whole_request_def split: sum.splits)
  obtain path hs where h: "hcx_head x r = HeadComplete (length r) path hs"
    using http_parse_head [OF p] unfolding l by blast
  have "hcx_head x (r @ rest) = HeadComplete (length r) path hs" for rest
    using head_framing.head_prefix [OF assms(1) h, of rest] by simp
  then have "http_parse_request x cf trust trusted (r @ rest) = Inr p" for rest
    using p h by (simp add: http_parse_request_def)
  moreover have "http_parse_request x cf trust trusted (take m r) = Inl MoreDataNeeded" if "m < length r" for m
    using head_framing.head_partial [OF assms(1) h that] by (simp add: http_parse_request_def)
  moreover have "r \<noteq> []" using head_framing.head_bound [OF assms(1) h] by auto
  ultimately show thesis using that l by blast
qed

lemma read_loop_frames:
  assumes "\<And>rest. parse (r @ rest) = Inr p"
    and "\<And>m. m < length r \<Longrightarrow> parse (take m r) = Inl MoreDataNeeded"
    and "r \<noteq> []" "length r \<le> REQUEST_BUFFER_SIZE" "length buffer \<le> REQUEST_BUFFER_SIZE"
    and "buffer @ concat cs = r @ rest" "[] \<notin> set cs"
  shows "\<exists>rest1 cs'. http_read_loop parse buffer (map Inr cs) = (Inr p, r @ rest1, map Inr cs') \<and>
    rest1 @ concat cs' = rest \<and> [] \<notin> set cs' \<and> length (r @ rest1) \<le> REQUEST_BUFFER_SIZE"
  using assms(5-7)
proof (induction "length (concat cs)" arbitrary: buffer cs rule: less_induct)
  case less
  show ?case
  proof (cases "length r \<le> length buffer")
    case True
    then have "take (length r) buffer = r" "drop (length r) buffer @ concat cs = rest"
      using arg_cong [OF less.prems(2), of "take (length r)"] arg_cong [OF less.prems(2), of "drop (length r)"]
      by simp_all
    moreover from this(1) have "buffer = r @ drop (length r) buffer" by (metis append_take_drop_id)
    ultimately obtain rest1 where b: "buffer = r @ rest1" "rest1 @ concat cs = rest" by blast
    then show ?thesis
      using assms(1,3) less.prems by (intro exI [of _ rest1] exI [of _ cs]) (simp add: http_read_loop.simps)
  next
    case False
    have b: "buffer = take (length buffer) r"
      using arg_cong [OF less.prems(2), of "take (length buffer)"] False by simp
    have more: "(if buffer \<noteq> [] then parse buffer else Inl MoreDataNeeded) = Inl MoreDataNeeded"
      using assms(2) [of "length buffer"] False b by auto
    obtain c cs1 where c: "cs = c # cs1" "c \<noteq> []"
      using less.prems False by (cases cs) auto
    define n where "n = min (length c) (REQUEST_BUFFER_SIZE - length buffer)"
    define cs2 where "cs2 = (if n < length c then drop n c # cs1 else cs1)"
    have n: "0 < n" "n \<le> length c" "length buffer + n \<le> REQUEST_BUFFER_SIZE"
      using False assms(4) c(2) by (auto simp: n_def)
    have cs2: "take n c @ concat cs2 = concat cs" "[] \<notin> set cs2"
      using less.prems(3) c n by (auto simp: cs2_def)
    have "length (concat cs) = n + length (concat cs2)" using cs2(1) n(2) by (metis length_append length_take min.absorb2)
    then have "\<exists>rest1 cs'. http_read_loop parse (buffer @ take n c) (map Inr cs2) =
        (Inr p, r @ rest1, map Inr cs') \<and> rest1 @ concat cs' = rest \<and> [] \<notin> set cs' \<and>
        length (r @ rest1) \<le> REQUEST_BUFFER_SIZE"
      using less.prems(2) cs2 n by (intro less.hyps) auto
    moreover have "http_read_loop parse buffer (map Inr cs) = http_read_loop parse (buffer @ take n c) (map Inr cs2)"
      unfolding http_read_loop.simps [of parse buffer] more
      using False assms(4) n(1) by (simp add: c n_def [symmetric] cs2_def)
    ultimately show ?thesis by simp
  qed
qed

lemma read_request_frames:
  assumes "head_framing (hcx_head x)" and "whole_request x cf trust trusted r"
    and "length buffer \<le> REQUEST_BUFFER_SIZE" "buffer @ concat cs = r @ rest" "[] \<notin> set cs"
  shows "\<exists>buffer' cs'. http_read_request x cf trust trusted port buffer (map Inr cs) =
      (fst (http_read_request x cf trust trusted port [] [Inr r]), buffer', map Inr cs') \<and>
    length buffer' \<le> REQUEST_BUFFER_SIZE \<and> buffer' @ concat cs' = rest \<and> [] \<notin> set cs'"
proof -
  let ?parse = "http_parse_request x cf trust trusted"
  obtain p where p: "pr_consumed p = length r" "r \<noteq> []" "\<And>rest. ?parse (r @ rest) = Inr p"
    "\<And>m. m < length r \<Longrightarrow> ?parse (take m r) = Inl MoreDataNeeded"
    using whole_request_parses [OF assms(1,2)] by blast
  have r: "length r \<le> REQUEST_BUFFER_SIZE" using assms(2) by (simp add: whole_request_def)
  obtain rest1 cs' where l: "http_read_loop ?parse buffer (map Inr cs) = (Inr p, r @ rest1, map Inr cs')"
    and c: "rest1 @ concat cs' = rest" "[] \<notin> set cs'" "length (r @ rest1) \<le> REQUEST_BUFFER_SIZE"
    using read_loop_frames [OF p(3,4,2) r assms(3-5)] by blast
  have e: "[] \<notin> set es \<Longrightarrow> concat es = [] \<Longrightarrow> es = []" for es :: "bytes list"
    by (cases es) auto
  have "http_read_loop ?parse [] [Inr r] = (Inr p, r, [])"
    using read_loop_frames [OF p(3,4,2) r, of "[]" "[r]" "[]"] p(2) e
    by (auto simp del: concat_eq_Nil_conv)
  then show ?thesis
    using l c p(1) by (auto simp: http_read_request_def finish_request_def Let_def case_prod_unfold)
qed

lemma read_requests_frame:
  assumes "head_framing (hcx_head x)" and "\<forall>r \<in> set rs. whole_request x cf trust trusted r"
    and "length buffer \<le> REQUEST_BUFFER_SIZE" "buffer @ concat cs = concat rs" "[] \<notin> set cs"
  shows "http_read_requests x cf trust trusted port (length rs) buffer (map Inr cs) =
    (map (\<lambda>r. fst (http_read_request x cf trust trusted port [] [Inr r])) rs, [], [])"
  using assms(2-)
proof (induction rs arbitrary: buffer cs)
  case Nil
  then show ?case by (cases cs) auto
next
  case (Cons r rs)
  have w: "whole_request x cf trust trusted r" and b: "buffer @ concat cs = r @ concat rs"
    using Cons.prems by simp_all
  obtain buffer' cs' where "http_read_request x cf trust trusted port buffer (map Inr cs) =
      (fst (http_read_request x cf trust trusted port [] [Inr r]), buffer', map Inr cs')"
    and c: "length buffer' \<le> REQUEST_BUFFER_SIZE" "buffer' @ concat cs' = concat rs" "[] \<notin> set cs'"
    using read_request_frames [OF assms(1) w Cons.prems(2) b Cons.prems(4), of port] by blast
  then show ?case using Cons.IH [OF _ c] Cons.prems(1) by simp
qed

subsection \<open>Written requests\<close>

text \<open>What \<open>Request::write_bytes\<close> writes is framed by the reference parser as one request.\<close>

definition ref_http_conn :: "(nat list, ip_range) http_conn_crates" where
  "ref_http_conn = \<lparr>hcx_http = ref_http_crates, hcx_head = ref_head, hcx_networks = ref_networks [] [],
     hcx_show_ip = (\<lambda>_. []), hcx_swarm_ops = \<lparr>ho_torrents4 = ref_index_map, ho_torrents6 = ref_index_map,
       ho_peers4 = ref_index_map, ho_peers6 = ref_index_map\<rparr>, hcx_gen = ref_gen_range\<rparr>"

lemma ref_http_conn_sel [simp]:
  "hcx_http ref_http_conn = ref_http_crates" "hcx_head ref_http_conn = ref_head"
  "hcx_gen ref_http_conn = ref_gen_range"
  by (simp_all add: ref_http_conn_def)

definition http_sample_socket_config :: http_socket_config where
  "http_sample_socket_config = \<lparr>hsc_swarm = http_sample_config, hsc_guard = sample_guard_config,
     hsc_swarm_workers = 1, hsc_trusted_proxies = trusted_proxies_config_default, hsc_keep_alive = True,
     hsc_runs_behind_reverse_proxy = False, hsc_reverse_proxy_ip_header_name = str ''X-Forwarded-For'',
     hsc_max_connection_idle = 180\<rparr>"

lemma before_pattern_skip: "13 \<notin> set s \<Longrightarrow> before_pattern CRLF2 (s @ t) = map_option ((@) s) (before_pattern CRLF2 t)"
proof (induction s)
  case Nil
  then show ?case by (cases "before_pattern CRLF2 t") simp_all
next
  case (Cons c s)
  then show ?case by (cases "before_pattern CRLF2 t") (simp_all add: CRLF2_def starts_with_def)
qed

lemma ref_head_written:
  assumes "visible path"
  shows "ref_head (str ''GET '' @ path @ request_tail) =
    HeadComplete (length (str ''GET '' @ path @ request_tail)) (Some path) []"
proof -
  have v: "13 \<notin> set path" "takeWhile (\<lambda>c. c \<noteq> 32) (path @ 32 # t) = path" for t
    using assms by (induction path) (auto simp: visible_def)
  have "13 \<notin> set (str ''GET '' @ path)" using v(1) by simp
  moreover have "before_pattern CRLF2 request_tail = Some (str '' HTTP/1.1'' @ [13, 10] @ str ''Host: localhost'')"
    by (simp add: request_tail_def CRLF2_def starts_with_def)
  ultimately have "before_pattern CRLF2 ((str ''GET '' @ path) @ request_tail) =
      Some ((str ''GET '' @ path) @ str '' HTTP/1.1'' @ [13, 10] @ str ''Host: localhost'')"
    unfolding before_pattern_skip [OF \<open>13 \<notin> set (str ''GET '' @ path)\<close>] by simp
  then show ?thesis by (simp add: ref_head_def v(2) request_tail_def)
qed

lemma written_is_whole:
  assumes "wf_http_request ref_http_crates req"
    and "length (http_write_request ref_http_crates [] req) \<le> REQUEST_BUFFER_SIZE"
  shows "whole_request ref_http_conn cf False trusted (http_write_request ref_http_crates [] req)"
  using assms(2) ref_head_written [OF ref_http.path_visible, of req]
  by (simp add: whole_request_def http_parse_request_def ref_http.written_path [OF assms(1)]
      ref_http.path_parsed [OF assms(1)] del: path_of.simps)

definition http_sample_request :: bytes where
  "http_sample_request = http_write_request ref_http_crates [] (HttpScrape \<lparr>hs_info_hashes = [7]\<rparr>)"

lemma length_urlencode_ref: "length (urlencode_20_bytes ref_http_crates w) = 60"
proof -
  have "length (concat (map (\<lambda>b. 37 # ref_hex_encode [b]) bs)) = 3 * length bs" for bs
    by (induction bs) simp_all
  then show ?thesis by (simp add: urlencode_20_bytes_def del: ref_hex_encode.simps)
qed

lemma length_sample_request: "length http_sample_request = 112"
  by (simp add: http_sample_request_def http_write_scrape_def request_tail_def length_urlencode_ref)

lemma sample_request_whole: "whole_request ref_http_conn cf False trusted http_sample_request"
  unfolding http_sample_request_def
  by (rule written_is_whole)
    (simp_all add: http_sample_request_def [unfolded http_write_request.simps, symmetric]
      length_sample_request REQUEST_BUFFER_SIZE_def)

subsection \<open>Room for the answers\<close>

text \<open>\<open>itoa\<close> prints no leading zeros.\<close>

locale http_plain_crates = http_crate_laws +
  assumes itoa_plain: "hc_itoa c n = dec_string n"

interpretation plain: http_plain_crates ref_http_crates
  by unfold_locales simp

lemma length_dec_string: "n < 10 ^ k \<Longrightarrow> 0 < k \<Longrightarrow> length (dec_string n) \<le> k"
proof (induction n arbitrary: k rule: dec_string.induct)
  case (1 n)
  show ?case
  proof (cases "n < 10")
    case False
    then obtain j where k: "k = Suc j" "0 < j" using "1.prems" by (cases k; cases "k - 1") auto
    have "n div 10 < 10 ^ j" using "1.prems"(1) k by (simp add: less_mult_imp_div_less)
    then show ?thesis using "1.IH" [OF False] k False by (simp add: dec_string.simps [of n])
  qed (use "1.prems" in \<open>simp add: dec_string.simps [of n]\<close>)
qed

lemma length_concat_le: "(\<And>x. length (f x) \<le> k) \<Longrightarrow> length (concat (map f xs)) \<le> k * length xs"
  by (induction xs) (simp_all add: add_mono)

lemma length_concat_ge: "(\<And>x. k \<le> length (f x)) \<Longrightarrow> k * length xs \<le> length (concat (map f xs))"
  by (induction xs) (simp_all add: add_mono)

lemma response_header_length: "length RESPONSE_HEADER = 45" "length RESPONSE_HEADER_B = 8"
  by (simp_all add: RESPONSE_HEADER_def RESPONSE_HEADER_A_def RESPONSE_HEADER_B_def RESPONSE_HEADER_C_def)

lemma response_buffer_size_eq:
  assumes "response_buffer_size cf < 10 ^ 8"
  shows "response_buffer_size cf = 47 + max (256 + 96 * hcf_max_peers (hsc_swarm cf))
    (64 + 112 * hcf_max_scrape_torrents (hsc_swarm cf))"
  using assms by (auto simp: response_buffer_size_def Let_def sat_add_def sat_mul_def response_header_length
      u64_max_def max_def min_def split: if_splits)

text \<open>The responses the buffer is sized for.\<close>

fun response_within :: "http_config \<Rightarrow> http_response \<Rightarrow> bool" where
  "response_within cf (HttpResAnnounce r) =
     (length (har_peers r) + length (har_peers6 r) \<le> hcf_max_peers cf \<and> har_warning_message r = None)"
| "response_within cf (HttpResScrape r) = (length (hsr_files r) \<le> hcf_max_scrape_torrents cf)"
| "response_within cf (HttpResFailure r) = (length (failure_reason r) \<le> 100)"

definition written_response :: "http_crates \<Rightarrow> http_response \<Rightarrow> bytes" where
  "written_response c response =
     (let body = http_write_response c response; digits = dec_string (length body + 2)
      in RESPONSE_HEADER_A @ digits @ replicate (8 - length digits) 32 @ RESPONSE_HEADER_C @ body @ [13, 10])"

context http_plain_crates
begin

lemma itoa_u64: "length (hc_itoa c (unat (w :: u64))) \<le> 20"
proof -
  have "unat w < 2 ^ 64" using unsigned_less [of w] by simp
  then show ?thesis unfolding itoa_plain by (intro length_dec_string) simp_all
qed

lemma itoa_small: "n < 10 ^ 9 \<Longrightarrow> length (hc_itoa c n) \<le> 9"
  unfolding itoa_plain by (rule length_dec_string) simp_all

lemma itoa_some: "0 < length (hc_itoa c n)"
  using itoa_digits by simp

lemma scrape_file_length: "length (http_write_scrape_file c e) \<le> 108" "70 \<le> length (http_write_scrape_file c e)"
  using itoa_u64 [of "hst_complete (snd e)"] itoa_u64 [of "hst_incomplete (snd e)"]
    itoa_some [of "unat (hst_complete (snd e))"] itoa_some [of "unat (hst_incomplete (snd e))"]
  unfolding http_write_scrape_file_def by (simp_all del: length_greater_0_conv)

lemma scrape_length:
  "length (http_write_scrape_response c r) \<le> 11 + 108 * length (hsr_files r)"
  "11 + 70 * length (hsr_files r) \<le> length (http_write_scrape_response c r)"
  using length_concat_le [OF scrape_file_length(1), where xs = "hsr_files r"]
    length_concat_ge [OF scrape_file_length(2), where xs = "hsr_files r"]
  by (simp_all add: http_write_scrape_response_def)

lemma announce_length:
  assumes "length (har_peers r) + length (har_peers6 r) \<le> n" "n < 10 ^ 7" "har_warning_message r = None"
  shows "length (http_write_announce_response c r) \<le> 200 + 18 * n"
proof -
  have "length (concat (map http_peer4_bytes (har_peers r))) \<le> 6 * length (har_peers r)"
    "length (concat (map http_peer6_bytes (har_peers6 r))) \<le> 18 * length (har_peers6 r)"
    by (rule length_concat_le, simp add: http_peer4_bytes_def http_peer6_bytes_def)+
  moreover have "length (hc_itoa c (length (har_peers r) * 6)) \<le> 9"
    "length (hc_itoa c (length (har_peers6 r) * 18)) \<le> 9"
    using assms(1,2) by (auto intro!: itoa_small)
  ultimately show ?thesis
    using assms(1,3) itoa_u64 [of "har_complete r"] itoa_u64 [of "har_incomplete r"]
      itoa_u64 [of "har_announce_interval r"]
    by (simp add: http_write_announce_response_def)
qed

lemma body_fits:
  assumes "response_buffer_size cf < 10 ^ 8" and "response_within (hsc_swarm cf) response"
  shows "47 + length (http_write_response c response) \<le> response_buffer_size cf"
proof (cases response)
  case (HttpResAnnounce r)
  have "hcf_max_peers (hsc_swarm cf) < 10 ^ 7"
    using assms(1) response_buffer_size_eq [OF assms(1)] by simp
  then have "length (http_write_announce_response c r) \<le> 200 + 18 * hcf_max_peers (hsc_swarm cf)"
    using assms(2) HttpResAnnounce by (intro announce_length) simp_all
  then show ?thesis using HttpResAnnounce response_buffer_size_eq [OF assms(1)] by simp
next
  case (HttpResScrape r)
  then show ?thesis using scrape_length(1) [of r] assms(2) response_buffer_size_eq [OF assms(1)] by simp
next
  case (HttpResFailure r)
  then show ?thesis
    using itoa_small [of "length (failure_reason r)"] assms(2) response_buffer_size_eq [OF assms(1)]
    by (simp add: http_write_failure_response_def)
qed

lemma write_fits:
  assumes "response_buffer_size cf < 10 ^ 8" and "response_within (hsc_swarm cf) response"
  shows "connection_write_response c cf response = Inr (written_response c response) \<and>
    length (written_response c response) \<le> response_buffer_size cf"
proof -
  let ?n = "length (http_write_response c response) + 2"
  have f: "47 + length (http_write_response c response) \<le> response_buffer_size cf"
    using body_fits [OF assms] .
  have d: "length (dec_string ?n) \<le> 8"
    using f assms(1) by (intro length_dec_string) simp_all
  have "drop (length (dec_string ?n)) RESPONSE_HEADER_B = replicate (8 - length (dec_string ?n)) 32"
    by (simp add: RESPONSE_HEADER_B_def drop_replicate [symmetric] numeral_eq_Suc del: drop_replicate)
  then show ?thesis
    using f d by (auto simp: connection_write_response_def Let_def response_header_length itoa_plain written_response_def
        RESPONSE_HEADER_A_def RESPONSE_HEADER_C_def)
qed

end

subsection \<open>Scrapes spread over the workers\<close>

definition sorted_files :: "('k::linorder \<times> 'v) list \<Rightarrow> bool" where
  "sorted_files es = sorted_wrt (<) (map fst es)"

lemma btree_extend_sorted: "sorted_files stats \<Longrightarrow> sorted_files (btree_extend stats files)"
  by (induction files arbitrary: stats) (auto simp: btree_extend_def sorted_files_def btree_insert_sorted)

interpretation ordered: answer_merge btree_extend sorted_files
proof
  fix stats files :: "(http_info_hash \<times> http_scrape_statistics) list"
  show "sorted_files stats \<Longrightarrow> sorted_files (btree_extend stats files)"
    by (rule btree_extend_sorted)
  show "sorted_files stats \<Longrightarrow> distinct (map fst files) \<Longrightarrow>
      map_of (btree_extend stats files) = map_of stats ++ map_of files"
  proof (induction files arbitrary: stats)
    case (Cons e files)
    obtain h st where e: "e = (h, st)" by (cases e)
    have "sorted_files (btree_insert h st stats)"
      using Cons.prems by (simp add: sorted_files_def btree_insert_sorted)
    moreover have "h \<notin> dom (map_of files)" using Cons.prems(2) e by (simp add: dom_map_of_conv_image_fst)
    ultimately show ?case
      using Cons by (auto simp: e btree_extend_def sorted_files_def btree_insert_map_of fun_eq_iff map_add_def
          split: option.splits)
  qed (simp add: btree_extend_def)
qed

lemma wait_for_all:
  "rs \<noteq> [] \<Longrightarrow> wait_for_scrape_responses rs (length rs) stats =
   Inr (HttpResScrape \<lparr>hsr_files = fold (\<lambda>fs stats. btree_extend stats fs) (map hsr_files rs) stats\<rparr>)"
proof (induction rs arbitrary: stats)
  case (Cons r rs)
  then show ?case by (cases "rs = []") (simp_all add: Let_def)
qed simp

definition http_maps_inv :: "http_torrent_maps \<Rightarrow> bool" where
  "http_maps_inv maps = (http_map_inv (htm_ipv4 maps) \<and> http_map_inv (htm_ipv6 maps))"

definition http_statistics_of :: "('k \<rightharpoonup> http_peer) \<times> u64 \<Rightarrow> http_scrape_statistics" where
  "http_statistics_of t = \<lparr>hst_complete = http_seeders_of (fst t), hst_incomplete = http_leechers_of (fst t),
     hst_downloaded = snd t\<rparr>"

text \<open>What one worker knows of a torrent among the peers of the client's address family.\<close>

definition http_statistics_at ::
  "canonical_socket_addr \<Rightarrow> http_torrent_maps \<Rightarrow> http_info_hash \<Rightarrow> http_scrape_statistics" where
  "http_statistics_at peer_addr maps h =
     (if is_ipv6 (socket_ip (get_addr peer_addr)) then http_statistics_of (http_map_abs (htm_ipv6 maps) h)
      else http_statistics_of (http_map_abs (htm_ipv4 maps) h))"

lemma http_worker_scrape:
  assumes "http_maps_inv maps"
  shows "sorted_files (hsr_files (handle_scrape_request cf peer_addr req maps)) \<and>
    map_of (hsr_files (handle_scrape_request cf peer_addr req maps)) h =
      (if h \<in> set (take (hcf_max_scrape_torrents cf) (hs_info_hashes req)) then
         Some (http_statistics_at peer_addr maps h)
       else None)"
  using assms http_scrape_reports [of "htm_ipv4 maps" cf req h] http_scrape_reports [of "htm_ipv6 maps" cf req h]
  by (auto simp: http_maps_inv_def handle_scrape_request_def http_statistics_at_def http_statistics_of_def
      sorted_files_def)

lemma sorted_files_distinct: "sorted_files es \<Longrightarrow> distinct (map fst es)"
  using strict_sorted_iff by (auto simp: sorted_files_def)

text \<open>The info hashes of a request a worker is asked for, up to the limit.\<close>

definition http_asked :: "http_socket_config \<Rightarrow> http_scrape_request \<Rightarrow> nat \<Rightarrow> http_info_hash list" where
  "http_asked cf req w = take (hcf_max_scrape_torrents (hsc_swarm cf))
     (filter (\<lambda>h. calculate_request_consumer_index cf h = w) (hs_info_hashes req))"

lemma http_asked_index: "h \<in> set (http_asked cf req w) \<Longrightarrow> calculate_request_consumer_index cf h = w"
  by (auto simp: http_asked_def dest: in_set_takeD)

lemma scrape_parts_gathered:
  assumes "\<And>w. http_maps_inv (maps w)" and "mset parts = mset (http_scrape_parts cf peer_addr req maps)"
  shows "sorted_files (fold (\<lambda>fs stats. btree_extend stats fs) (map hsr_files parts) []) \<and>
    map_of (fold (\<lambda>fs stats. btree_extend stats fs) (map hsr_files parts) []) h =
      (if h \<in> set (http_asked cf req (calculate_request_consumer_index cf h)) then
         Some (http_statistics_at peer_addr (maps (calculate_request_consumer_index cf h)) h)
       else None)"
proof -
  let ?index = "calculate_request_consumer_index cf"
  define look where "look h = (if h \<in> set (http_asked cf req (?index h)) then
      Some (http_statistics_at peer_addr (maps (?index h)) h) else None)" for h
  define part where "part w = handle_scrape_request (hsc_swarm cf) peer_addr
      \<lparr>hs_info_hashes = filter (\<lambda>h. ?index h = w) (hs_info_hashes req)\<rparr> (maps w)" for w
  have files: "set (map hsr_files parts) =
      (\<lambda>w. hsr_files (part w)) ` {w. \<exists>h \<in> set (hs_info_hashes req). ?index h = w}"
  proof -
    have "set parts = (\<lambda>(w, hs). handle_scrape_request (hsc_swarm cf) peer_addr \<lparr>hs_info_hashes = hs\<rparr> (maps w)) `
        set (by_worker ?index (hs_info_hashes req))"
      using mset_eq_setD [OF assms(2)] by (simp add: http_scrape_parts_def)
    also have "set (by_worker ?index (hs_info_hashes req)) =
        (\<lambda>w. (w, filter (\<lambda>h. ?index h = w) (hs_info_hashes req))) ` {w. \<exists>h \<in> set (hs_info_hashes req). ?index h = w}"
      by (auto simp: by_worker_entries filter_empty_conv image_iff)
    finally show ?thesis by (simp add: image_image part_def)
  qed
  have part: "sorted_files (hsr_files (part w)) \<and> map_of (hsr_files (part w)) h =
      (if h \<in> set (http_asked cf req w) then Some (http_statistics_at peer_addr (maps w) h) else None)" for w h
    using http_worker_scrape [OF assms(1)] by (simp add: part_def http_asked_def)
  have sub: "map_of (hsr_files (part w)) \<subseteq>\<^sub>m look" for w
    unfolding map_le_def
  proof
    fix h assume "h \<in> dom (map_of (hsr_files (part w)))"
    then have h: "h \<in> set (http_asked cf req w)" using part [of w h] by (cases "h \<in> set (http_asked cf req w)") auto
    show "map_of (hsr_files (part w)) h = look h"
      using h http_asked_index [OF h] part [of w h] by (simp add: look_def)
  qed
  have "\<forall>fs \<in> set (map hsr_files parts). distinct (map fst fs) \<and> map_of fs \<subseteq>\<^sub>m look"
  proof
    fix fs assume "fs \<in> set (map hsr_files parts)"
    then obtain w where "fs = hsr_files (part w)" unfolding files by blast
    then show "distinct (map fst fs) \<and> map_of fs \<subseteq>\<^sub>m look"
      using part [THEN conjunct1] sub by (simp add: sorted_files_distinct)
  qed
  moreover have s: "sorted_files ([] :: (http_info_hash \<times> http_scrape_statistics) list)" by (simp add: sorted_files_def)
  ultimately have "map_of (fold (\<lambda>fs stats. btree_extend stats fs) (map hsr_files parts) []) h =
      (if \<exists>fs \<in> set (map hsr_files parts). h \<in> dom (map_of fs) then look h else None)"
    using ordered.fold_ext [of "map hsr_files parts" look "[]" h] by simp
  moreover have "(\<exists>fs \<in> set (map hsr_files parts). h \<in> dom (map_of fs)) \<longleftrightarrow> look h \<noteq> None"
  proof
    assume "\<exists>fs \<in> set (map hsr_files parts). h \<in> dom (map_of fs)"
    then obtain w where "h \<in> dom (map_of (hsr_files (part w)))" unfolding files by blast
    then show "look h \<noteq> None" using sub [of w] by (metis domIff map_le_def)
  next
    assume "look h \<noteq> None"
    then have h: "h \<in> set (http_asked cf req (?index h))" by (simp add: look_def split: if_splits)
    then have "h \<in> dom (map_of (hsr_files (part (?index h))))" using part by (simp add: domIff)
    moreover have "h \<in> set (hs_info_hashes req)" using h by (auto simp: http_asked_def dest: in_set_takeD)
    ultimately show "\<exists>fs \<in> set (map hsr_files parts). h \<in> dom (map_of fs)" unfolding files by blast
  qed
  ultimately show ?thesis
    using ordered.fold_inv [OF s] by (simp add: look_def split: if_splits)
qed

subsection \<open>Rounds\<close>

text \<open>What the connection relies on of all the crates it calls.\<close>

locale http_conn_laws =
  fixes x :: "('r, 'n) http_conn_crates"
  assumes head_laws: "head_framing (hcx_head x)"
    and http_laws: "http_plain_crates (hcx_http x)"
    and gen_laws: "rng_source (hcx_gen x)"
    and torrents4_laws: "index_map (ho_torrents4 (hcx_swarm_ops x))"
    and torrents6_laws: "index_map (ho_torrents6 (hcx_swarm_ops x))"
    and peers4_laws: "index_map (ho_peers4 (hcx_swarm_ops x))"
    and peers6_laws: "index_map (ho_peers6 (hcx_swarm_ops x))"

interpretation ref_conn: http_conn_laws ref_http_conn
  by (rule http_conn_laws.intro)
    (simp_all add: rh.head_framing_axioms plain.http_plain_crates_axioms ref_gen_range_laws
      ref_http_conn_def ref_index_map_laws)

text \<open>The invariant of a connection and the workers it talks to, and what a round is given.\<close>

definition http_conn_inv :: "'r http_connection \<Rightarrow> bool" where
  "http_conn_inv c = (\<forall>w. http_maps_inv (hcn_maps c w))"

definition http_round_ok :: "http_round \<Rightarrow> bool" where
  "http_round_ok rnd = (hr_secs rnd \<le> u32_max \<and> (\<forall>rs. mset (hr_order rnd rs) = mset rs))"

definition bytes_left :: "'r http_connection \<Rightarrow> nat" where
  "bytes_left c = length (hcn_buffer c) + sum_list (map (case_sum (\<lambda>_. 0) length) (hcn_input c))"

lemma http_valid_until:
  "http_round_ok rnd \<Longrightarrow> \<exists>vu. valid_until_new (hr_secs rnd) (hsc_max_connection_idle cf) = Some vu"
  by (simp add: http_round_ok_def valid_until_new_def seconds_elapsed_def)

lemma max_num_le: "http_max_num_peers cf req \<le> hcf_max_peers cf"
  by (simp add: http_max_num_peers_def split: option.split)

definition not_written :: "http_connection_error option option \<Rightarrow> bool" where
  "not_written e = (e \<in> {Some (Some ResponseBufferWrite), Some (Some ResponseBufferFull)})"

definition chunk_bytes :: "read_chunks \<Rightarrow> nat" where
  "chunk_bytes cs = sum_list (map (case_sum (\<lambda>_. 0) length) cs)"

lemma chunk_bytes_simps [simp]:
  "chunk_bytes [] = 0" "chunk_bytes (Inl u # cs) = chunk_bytes cs"
  "chunk_bytes (Inr c # cs) = length c + chunk_bytes cs"
  by (simp_all add: chunk_bytes_def)

lemma read_loop_ok:
  "http_read_loop parse b cs = (res, b', cs') \<Longrightarrow>
   length b' + chunk_bytes cs' \<le> length b + chunk_bytes cs \<and>
   (case res of Inr p \<Rightarrow> b' \<noteq> [] \<and> parse b' = Inr p | Inl e \<Rightarrow> \<not> not_written (Some (Some e)))"
proof (induction parse b cs rule: http_read_loop.induct)
  case (1 parse b cs)
  show ?case
  proof (cases "(if b \<noteq> [] then parse b else Inl MoreDataNeeded) = Inl MoreDataNeeded \<and>
      length b \<noteq> REQUEST_BUFFER_SIZE \<and> (\<exists>c cs1. cs = Inr c # cs1 \<and>
      min (length c) (REQUEST_BUFFER_SIZE - length b) \<noteq> 0)")
    case True
    then obtain c cs1 where c: "cs = Inr c # cs1" and c0: "min (length c) (REQUEST_BUFFER_SIZE - length b) \<noteq> 0"
      by blast
    define n where "n = min (length c) (REQUEST_BUFFER_SIZE - length b)"
    have "http_read_loop parse b cs =
        http_read_loop parse (b @ take n c) (if n < length c then Inr (drop n c) # cs1 else cs1)"
      unfolding http_read_loop.simps [of parse b cs] True [THEN conjunct1]
      using True c0 by (simp add: c n_def [symmetric])
    then have "http_read_loop parse (b @ take n c) (if n < length c then Inr (drop n c) # cs1 else cs1) = (res, b', cs')"
      using "1.prems" by simp
    note IH = "1.IH" [OF True [THEN conjunct1] refl _ c refl n_def _ this]
    have n: "n \<le> length c" "n \<noteq> 0" using c0 by (simp_all add: n_def)
    have "length (b @ take n c) + chunk_bytes (if n < length c then Inr (drop n c) # cs1 else cs1) =
        length b + chunk_bytes cs"
      using n by (simp add: c)
    then show ?thesis using IH True n by simp
  next
    case False
    then show ?thesis
      using "1.prems" by (subst (asm) http_read_loop.simps)
        (auto simp: not_written_def Let_def split: sum.splits http_request_parse_error.splits if_splits list.splits)
  qed
qed

lemma read_request_ok:
  assumes "head_framing (hcx_head x)"
    and "http_read_request x cf trust trusted port b cs = (res, b', cs')"
  shows "length b' + chunk_bytes cs' \<le> length b + chunk_bytes cs \<and>
    (case res of
       Inr rd \<Rightarrow> length b' + chunk_bytes cs' < length b + chunk_bytes cs \<and>
         (\<exists>path. parse_http_get_path (hcx_http x) path = Inr (rd_request rd))
     | Inl e \<Rightarrow> \<not> not_written (Some (Some e)))"
proof -
  obtain r b1 cs1 where l: "http_read_loop (http_parse_request x cf trust trusted) b cs = (r, b1, cs1)"
    by (metis prod_cases3)
  note ok = read_loop_ok [OF l]
  show ?thesis
  proof (cases r)
    case (Inl e)
    then show ?thesis using ok l assms(2) by (auto simp: http_read_request_def)
  next
    case (Inr p)
    then have p: "http_parse_request x cf trust trusted b1 = Inr p" using ok by simp
    then obtain path hs where h: "hcx_head x b1 = HeadComplete (pr_consumed p) path hs"
      using http_parse_head by blast
    have path: "\<exists>path. parse_http_get_path (hcx_http x) path = Inr (pr_request p)"
      using p h by (auto simp: http_parse_request_def and_then_Inr) (metis parsed_request.select_convs(1))
    have n: "0 < pr_consumed p" "pr_consumed p \<le> length b1"
      using head_framing.head_bound [OF assms(1) h] by simp_all
    have f: "(res, b') = finish_request trust port p b1" "cs' = cs1"
      using assms(2) l Inr by (auto simp: http_read_request_def Let_def case_prod_unfold)
    have b': "b' = drop (pr_consumed p) b1" using f(1) by (simp add: finish_request_def Let_def)
    have "case res of Inr rd \<Rightarrow> rd_request rd = pr_request p | Inl e \<Rightarrow> e = NoPeerAddr"
      using f(1) by (auto simp: finish_request_def Let_def ok_or_def and_then_Inr split: option.splits if_splits)
    then show ?thesis using ok n b' f(2) path by (auto simp: not_written_def split: sum.splits)
  qed
qed

lemma parsed_hashes: "parse_http_get_path c path = Inr (HttpScrape req) \<Longrightarrow> hs_info_hashes req \<noteq> []"
  by (auto simp: parse_http_get_path_def http_parse_scrape_def and_then_Inr Let_def split: if_splits)

text \<open>The scrape response to the answers of the workers, in the order they come in.\<close>

definition gathered_files ::
  "http_socket_config \<Rightarrow> http_round \<Rightarrow> canonical_socket_addr \<Rightarrow> http_scrape_request \<Rightarrow>
   (nat \<Rightarrow> http_torrent_maps) \<Rightarrow> (http_info_hash \<times> http_scrape_statistics) list" where
  "gathered_files cf rnd peer_addr req maps = fold (\<lambda>fs stats. btree_extend stats fs)
     (map hsr_files (hr_order rnd (http_scrape_parts cf peer_addr req maps))) []"

lemma handle_scrape:
  assumes "http_round_ok rnd" and "hs_info_hashes req \<noteq> []"
  shows "\<exists>vu. http_handle_request x cf rnd (HttpScrape req) peer_addr c =
    Some (Inr (HttpResScrape \<lparr>hsr_files = gathered_files cf rnd peer_addr req (hcn_maps c)\<rparr>),
      c\<lparr>hcn_valid_until := vu\<rparr>)"
proof -
  obtain vu where vu: "valid_until_new (hr_secs rnd) (hsc_max_connection_idle cf) = Some vu"
    using http_valid_until [OF assms(1)] by blast
  define parts where "parts = http_scrape_parts cf peer_addr req (hcn_maps c)"
  have "mset (hr_order rnd parts) = mset parts" using assms(1) by (simp add: http_round_ok_def)
  then have l: "length (hr_order rnd parts) = length parts" by (rule mset_eq_length)
  have "parts \<noteq> []" using assms(2) by (simp add: parts_def http_scrape_parts_def by_worker_empty)
  then have "hr_order rnd parts \<noteq> []" using l by auto
  then have "wait_for_scrape_responses (hr_order rnd parts) (length parts) [] =
      Inr (HttpResScrape \<lparr>hsr_files = gathered_files cf rnd peer_addr req (hcn_maps c)\<rparr>)"
    using wait_for_all [of "hr_order rnd parts" "[]"] l by (simp add: gathered_files_def parts_def)
  then show ?thesis 
    by (intro exI [of _ vu]) (simp add: http_handle_request_def vu Let_def parts_def [symmetric])
qed

lemma gathered_files_ok:
  assumes "http_round_ok rnd" and "\<And>w. http_maps_inv (maps w)"
  shows "sorted_files (gathered_files cf rnd peer_addr req maps) \<and>
    map_of (gathered_files cf rnd peer_addr req maps) h =
      (if h \<in> set (http_asked cf req (calculate_request_consumer_index cf h)) then
         Some (http_statistics_at peer_addr (maps (calculate_request_consumer_index cf h)) h)
       else None)"
  unfolding gathered_files_def using assms
  by (intro scrape_parts_gathered) (simp_all add: http_round_ok_def)

lemma length_sorted_files: "sorted_files es \<Longrightarrow> length es = card (dom (map_of es))"
  using distinct_card [OF sorted_files_distinct, of es] by (simp add: dom_map_of_conv_image_fst)

lemma one_worker: "hsc_swarm_workers cf \<le> 1 \<Longrightarrow> calculate_request_consumer_index cf h = 0"
  by (simp add: calculate_request_consumer_index_def)

lemma gathered_within:
  assumes "http_round_ok rnd" and "\<And>w. http_maps_inv (maps w)" and "hsc_swarm_workers cf \<le> 1"
  shows "length (gathered_files cf rnd peer_addr req maps) \<le> hcf_max_scrape_torrents (hsc_swarm cf)"
proof -
  note g = gathered_files_ok [of rnd maps cf peer_addr req, OF assms(1,2), unfolded one_worker [OF assms(3)]]
  have "dom (map_of (gathered_files cf rnd peer_addr req maps)) \<subseteq> set (http_asked cf req 0)"
    using g by (auto split: if_splits)
  then have "card (dom (map_of (gathered_files cf rnd peer_addr req maps))) \<le> card (set (http_asked cf req 0))"
    by (simp add: card_mono)
  also have "\<dots> \<le> length (http_asked cf req 0)" by (rule card_length)
  also have "\<dots> \<le> hcf_max_scrape_torrents (hsc_swarm cf)" by (simp add: http_asked_def)
  finally show ?thesis using g by (simp add: length_sorted_files)
qed

text \<open>The configurations whose every answer fits.\<close>

definition fitting_config :: "http_socket_config \<Rightarrow> bool" where
  "fitting_config cf = (hsc_swarm_workers cf \<le> 1 \<and> response_buffer_size cf < 10 ^ 8)"

context http_conn_laws
begin

lemma announce_ok:
  assumes "http_maps_inv maps"
  shows "\<exists>res maps' r'. handle_announce_request (hcx_swarm_ops x) (hcx_gen x) cf vu peer_addr req r maps =
      Some (res, maps', r') \<and> http_maps_inv maps' \<and> response_within cf (HttpResAnnounce res)"
proof (cases "socket_ip (get_addr peer_addr)")
  case (V4 ip)
  have "http_map_inv (htm_ipv4 maps)" using assms by (simp add: http_maps_inv_def)
  from http_swarm.map_announce [OF http_swarm.intro [OF peers4_laws gen_laws] torrents4_laws this, of cf req ip vu r]
  show ?thesis using assms max_num_le [of cf req]
    by (fastforce simp: handle_announce_request_def V4 http_maps_inv_def http_answer_conforms_def)
next
  case (V6 ip)
  have "http_map_inv (htm_ipv6 maps)" using assms by (simp add: http_maps_inv_def)
  from http_swarm.map_announce [OF http_swarm.intro [OF peers6_laws gen_laws] torrents6_laws this, of cf req ip vu r]
  show ?thesis using assms max_num_le [of cf req]
    by (fastforce simp: handle_announce_request_def V6 http_maps_inv_def http_answer_conforms_def)
qed

lemma handle_ok:
  assumes "http_round_ok rnd" and "http_conn_inv c"
    and "parse_http_get_path (hcx_http x) path = Inr req"
  shows "\<exists>res c'. http_handle_request x cf rnd req peer_addr c = Some (Inr res, c') \<and>
    http_conn_inv c' \<and> hcn_buffer c' = hcn_buffer c \<and> hcn_input c' = hcn_input c \<and>
    (hsc_swarm_workers cf \<le> 1 \<longrightarrow> response_within (hsc_swarm cf) res)"
proof (cases req)
  case (HttpAnnounce r)
  obtain vu where vu: "valid_until_new (hr_secs rnd) (hsc_max_connection_idle cf) = Some vu"
    using http_valid_until [OF assms(1)] by blast
  let ?w = "calculate_request_consumer_index cf (ha_info_hash r)"
  have "http_maps_inv (hcn_maps c ?w)" using assms(2) by (simp add: http_conn_inv_def)
  from announce_ok [OF this, of "hsc_swarm cf" "hr_peer_valid_until rnd ?w" peer_addr r "hcn_rng c"]
  show ?thesis using assms(2)
    by (auto simp: http_handle_request_def vu HttpAnnounce Let_def http_conn_inv_def http_failure_def)
next
  case (HttpScrape r)
  have "hs_info_hashes r \<noteq> []" using parsed_hashes assms(3) HttpScrape by blast
  from handle_scrape [OF assms(1) this, of x cf peer_addr c] show ?thesis
    using assms(2) gathered_within [OF assms(1), of "hcn_maps c" cf peer_addr r]
    by (auto simp: HttpScrape http_conn_inv_def)
qed

end

text \<open>The failures of the checks are short.\<close>

lemma blocked_within:
  "http_run_security_checks x cf ge peer_addr rd bs = (Some response, bs') \<Longrightarrow> response_within hc response"
  by (auto simp: http_run_security_checks_def Let_def http_failure_def client_failure_def
      split: if_splits option.splits)

context http_conn_laws
begin

lemma serve_ok:
  assumes "http_round_ok rnd" and "http_conn_inv c"
    and "parse_http_get_path (hcx_http x) path = Inr (rd_request rd)"
  shows "\<exists>c' e. http_serve x cf rnd opt rd c = Some (c', e) \<and> http_conn_inv c' \<and>
    hcn_buffer c' = hcn_buffer c \<and> hcn_input c' = hcn_input c \<and> (fitting_config cf \<longrightarrow> \<not> not_written e)"
proof (cases "case opt of Some a \<Rightarrow> Some a | None \<Rightarrow> rd_opt_peer_addr rd")
  case None
  then show ?thesis using assms(2) by (simp add: http_serve_def not_written_def)
next
  case (Some peer_addr)
  obtain blocked bs where b: "http_run_security_checks x cf (hr_guard rnd) peer_addr rd (hcn_bans c) = (blocked, bs)"
    by force
  define c1 where "c1 = c\<lparr>hcn_bans := bs\<rparr>"
  have c1: "http_conn_inv c1" "hcn_buffer c1 = hcn_buffer c" "hcn_input c1 = hcn_input c"
    using assms(2) by (simp_all add: c1_def http_conn_inv_def)
  have written: "\<exists>bs. connection_write_response (hcx_http x) cf response = Inr bs"
    if "fitting_config cf" "response_within (hsc_swarm cf) response" for response
    using http_plain_crates.write_fits [OF http_laws] that by (auto simp: fitting_config_def)
  have answer: "\<exists>c'' e. (case answer_with x cf response c' of
        Inl e \<Rightarrow> (c', Some (Some e)) | Inr c'' \<Rightarrow> (c'', if hsc_keep_alive cf then None else Some None)) = (c'', e) \<and>
      http_conn_inv c'' \<and> hcn_buffer c'' = hcn_buffer c' \<and> hcn_input c'' = hcn_input c' \<and>
      (fitting_config cf \<longrightarrow> \<not> not_written e)"
    if "http_conn_inv c'" "fitting_config cf \<longrightarrow> response_within (hsc_swarm cf) response"
    for c' :: "'r http_connection" and response
    using that written [of response]
    by (cases "connection_write_response (hcx_http x) cf response")
      (auto simp: answer_with_def http_conn_inv_def not_written_def)
  show ?thesis
  proof (cases blocked)
    case b': (Some response)
    have w: "fitting_config cf \<longrightarrow> response_within (hsc_swarm cf) response"
      using blocked_within b b' by blast
    have "http_serve x cf rnd opt rd c = Some (case answer_with x cf response c1 of
        Inl e \<Rightarrow> (c1, Some (Some e)) | Inr c'' \<Rightarrow> (c'', if hsc_keep_alive cf then None else Some None))"
      by (simp add: http_serve_def Some b b' Let_def c1_def split: sum.split)
    then show ?thesis using answer [OF c1(1) w] c1 by (metis (no_types, lifting))
  next
    case None
    obtain res c2 where h: "http_handle_request x cf rnd (rd_request rd) peer_addr c1 = Some (Inr res, c2)"
      and c2: "http_conn_inv c2" "hcn_buffer c2 = hcn_buffer c1" "hcn_input c2 = hcn_input c1"
        "hsc_swarm_workers cf \<le> 1 \<longrightarrow> response_within (hsc_swarm cf) res"
      using handle_ok [OF assms(1) c1(1) assms(3), of cf peer_addr] by blast
    have w: "fitting_config cf \<longrightarrow> response_within (hsc_swarm cf) res"
      using c2(4) by (simp add: fitting_config_def)
    have "http_serve x cf rnd opt rd c = Some (case answer_with x cf res c2 of
        Inl e \<Rightarrow> (c2, Some (Some e)) | Inr c'' \<Rightarrow> (c'', if hsc_keep_alive cf then None else Some None))"
      using h by (simp add: http_serve_def Some b None Let_def c1_def [symmetric])
    then show ?thesis using answer [OF c2(1) w] c1 c2 by (metis (no_types, lifting))
  qed
qed

lemma round_ok:
  assumes "http_round_ok rnd" and "http_conn_inv c"
  shows "\<exists>c' e. http_connection_round x cf trust trusted port opt rnd c = Some (c', e) \<and>
    http_conn_inv c' \<and> (e = None \<longrightarrow> bytes_left c' < bytes_left c) \<and>
    (fitting_config cf \<longrightarrow> \<not> not_written e)"
proof -
  obtain res b' cs' where r: "http_read_request x cf trust trusted port (hcn_buffer c) (hcn_input c) = (res, b', cs')"
    by (metis prod_cases3)
  note ok = read_request_ok [OF head_laws r]
  define c1 where "c1 = c\<lparr>hcn_buffer := b', hcn_input := cs'\<rparr>"
  have c1: "http_conn_inv c1" using assms(2) by (simp add: c1_def http_conn_inv_def)
  have l: "bytes_left c1 = length b' + chunk_bytes cs'" "bytes_left c = length (hcn_buffer c) + chunk_bytes (hcn_input c)"
    by (simp_all add: bytes_left_def chunk_bytes_def c1_def)
  show ?thesis
  proof (cases res)
    case (Inl e)
    then show ?thesis
      using c1 ok assms(2)
      by (cases e) (auto simp: http_connection_round_def r Let_def c1_def [symmetric] http_conn_inv_def not_written_def)
  next
    case (Inr rd)
    then obtain path where "parse_http_get_path (hcx_http x) path = Inr (rd_request rd)"
      and less: "bytes_left c1 < bytes_left c" using ok l by auto
    from serve_ok [OF assms(1) c1 this(1), of cf opt] obtain c' e where
      s: "http_serve x cf rnd opt rd c1 = Some (c', e)" "http_conn_inv c'" "fitting_config cf \<longrightarrow> \<not> not_written e"
        "hcn_buffer c' = hcn_buffer c1" "hcn_input c' = hcn_input c1" by blast
    then have "bytes_left c' = bytes_left c1" by (simp add: bytes_left_def)
    then show ?thesis
      using s less Inr by (auto simp: http_connection_round_def r Let_def c1_def [symmetric])
  qed
qed

lemma run_ok:
  assumes "\<forall>rnd \<in> set rnds. http_round_ok rnd" and "http_conn_inv c"
  shows "\<exists>c' e. http_connection_run x cf trust trusted port opt rnds c = Some (c', e) \<and> http_conn_inv c' \<and>
    (bytes_left c < length rnds \<longrightarrow> e \<noteq> None) \<and> (fitting_config cf \<longrightarrow> \<not> not_written e)"
  using assms
proof (induction rnds arbitrary: c)
  case Nil
  then show ?case by (simp add: not_written_def)
next
  case (Cons rnd rnds)
  obtain c1 e1 where r: "http_connection_round x cf trust trusted port opt rnd c = Some (c1, e1)" "http_conn_inv c1"
      "e1 = None \<longrightarrow> bytes_left c1 < bytes_left c" "fitting_config cf \<longrightarrow> \<not> not_written e1"
    using round_ok [of rnd c cf trust trusted port opt] Cons.prems by auto
  show ?case
  proof (cases "e1 = None")
    case True
    then have less: "bytes_left c1 < bytes_left c" using r(3) by blast
    obtain c' e where "http_connection_run x cf trust trusted port opt rnds c1 = Some (c', e)" "http_conn_inv c'"
        "bytes_left c1 < length rnds \<longrightarrow> e \<noteq> None" "fitting_config cf \<longrightarrow> \<not> not_written e"
      using Cons.IH [OF _ r(2)] Cons.prems(1) by auto
    then show ?thesis using r(1) True less by auto
  next
    case False
    then show ?thesis using r by auto
  qed
qed

end

subsection \<open>Properties\<close>

text \<open>C25. Pipelined requests are framed whatever pieces they arrive in. When the bytes of a connection are
  the bytes of some requests, one after the other, each no longer than the request buffer, and the
  reads of the stream cut them anywhere (even in the middle of a header, or several requests in one
  piece), then as many reads as there are requests give, in order, what reading each request alone
  gives, and nothing of the stream is lost or left over.\<close>
theorem pipelined_requests_are_framed:
  assumes "head_framing (hcx_head x)" and "\<forall>r \<in> set rs. whole_request x cf trust trusted r"
    and "concat pieces = concat rs" and "[] \<notin> set pieces"
  shows "http_read_requests x cf trust trusted port (length rs) [] (map Inr pieces) =
    (map (\<lambda>r. fst (http_read_request x cf trust trusted port [] [Inr r])) rs, [], [])"
  using read_requests_frame [OF assms(1,2), of "[]" pieces port] assms(3,4) by simp

lemma pipelined_requests_are_framed_witness:
  "http_read_requests ref_http_conn http_sample_socket_config False trusted_proxies_default 6881 2 []
     (map Inr [take 150 (concat [http_sample_request, http_sample_request]),
       drop 150 (concat [http_sample_request, http_sample_request])]) =
   (map (\<lambda>r. fst (http_read_request ref_http_conn http_sample_socket_config False trusted_proxies_default 6881
      [] [Inr r])) [http_sample_request, http_sample_request], [], [])"
proof -
  let ?rs = "[http_sample_request, http_sample_request]"
  let ?ps = "[take 150 (concat ?rs), drop 150 (concat ?rs)]"
  have l: "length (concat ?rs) = 224" by (simp add: length_sample_request)
  have "length (take 150 (concat ?rs)) = 150" "length (drop 150 (concat ?rs)) = 74"
    unfolding length_take length_drop l by simp_all
  then have "[] \<notin> set ?ps" by (auto simp del: take_append drop_append length_take length_drop)
  moreover have "concat ?ps = concat ?rs"
    by (simp only: concat.simps append_Nil2 append_take_drop_id)
  moreover have w: "\<forall>r \<in> set ?rs. whole_request ref_http_conn http_sample_socket_config False
      trusted_proxies_default r" by (simp add: sample_request_whole)
  moreover have "head_framing (hcx_head ref_http_conn)" by (simp add: rh.head_framing_axioms)
  moreover have n: "length ?rs = 2" by simp
  ultimately show ?thesis
    using pipelined_requests_are_framed [of ref_http_conn ?rs http_sample_socket_config False
        trusted_proxies_default ?ps 6881] unfolding n by blast
qed

text \<open>The instances the witnesses below share: a tracker without torrents and one client.\<close>

definition http_sample_round :: http_round where
  "http_sample_round = \<lparr>hr_guard = sample_guard_env, hr_secs = 7, hr_peer_valid_until = (\<lambda>w. ValidUntil 127),
     hr_order = rev\<rparr>"

definition http_sample_addr :: canonical_socket_addr where
  "http_sample_addr = canonical_new (SocketV4 0x7F000001 6881)"

definition http_sample_connection :: "nat list http_connection" where
  "http_sample_connection = \<lparr>hcn_buffer = [], hcn_input = [Inr http_sample_request],
     hcn_valid_until = ValidUntil 180, hcn_bans = \<lparr>bs_tracker = None, bs_files = Map.empty\<rparr>,
     hcn_maps = (\<lambda>w. http_torrent_maps_new), hcn_rng = [], hcn_output = []\<rparr>"

lemma sample_round_ok: "http_round_ok http_sample_round"
  by (simp add: http_round_ok_def http_sample_round_def u32_max_def)

lemma new_maps_inv: "http_maps_inv http_torrent_maps_new"
  by (simp add: http_maps_inv_def http_torrent_maps_new_def http_map_inv_def)

lemma sample_connection_inv: "http_conn_inv http_sample_connection"
  by (simp add: http_conn_inv_def http_sample_connection_def new_maps_inv)

lemma sample_config_fits: "fitting_config http_sample_socket_config"
  by (simp add: fitting_config_def http_sample_socket_config_def response_buffer_size_def Let_def
      response_header_length http_sample_config_def sat_defs)

text \<open>C27. A scrape spread over the swarm workers is put together. Whatever order the workers' answers
  arrive in, the response lists its info hashes in ascending order, each once: exactly the hashes
  that are among the first of those asked of their worker, up to the limit, each with the seeders,
  leechers and downloads that the responsible worker has for it in the client's address family. The
  request changes nothing but the deadline of the connection.\<close>
theorem http_scrapes_are_gathered:
  assumes "http_round_ok rnd" and "\<forall>w. http_maps_inv (hcn_maps c w)" and "hs_info_hashes req \<noteq> []"
  shows "\<exists>vu files. http_handle_request x cf rnd (HttpScrape req) peer_addr c =
      Some (Inr (HttpResScrape \<lparr>hsr_files = files\<rparr>), c\<lparr>hcn_valid_until := vu\<rparr>) \<and>
    sorted_wrt (<) (map fst files) \<and>
    map_of files = (\<lambda>h. if h \<in> set (take (hcf_max_scrape_torrents (hsc_swarm cf))
        (filter (\<lambda>h'. calculate_request_consumer_index cf h' = calculate_request_consumer_index cf h)
          (hs_info_hashes req)))
      then Some (http_statistics_at peer_addr (hcn_maps c (calculate_request_consumer_index cf h)) h)
      else None)"
proof -
  have g: "\<And>w. http_maps_inv (hcn_maps c w)" using assms(2) by blast
  show ?thesis
    using handle_scrape [OF assms(1,3), of x cf peer_addr c] gathered_files_ok [OF assms(1) g, of cf peer_addr req]
    by (auto simp: sorted_files_def fun_eq_iff http_asked_def)
qed

lemma http_scrapes_are_gathered_witness:
  "\<exists>vu files. http_handle_request ref_http_conn (http_sample_socket_config\<lparr>hsc_swarm_workers := 2\<rparr>) http_sample_round
      (HttpScrape \<lparr>hs_info_hashes = [7]\<rparr>) http_sample_addr http_sample_connection =
      Some (Inr (HttpResScrape \<lparr>hsr_files = files\<rparr>), http_sample_connection\<lparr>hcn_valid_until := vu\<rparr>) \<and>
    map_of files 7 = Some (http_statistics_at http_sample_addr http_torrent_maps_new 7)"
  using http_scrapes_are_gathered [OF sample_round_ok, of http_sample_connection "\<lparr>hs_info_hashes = [7]\<rparr>"
      ref_http_conn "http_sample_socket_config\<lparr>hsc_swarm_workers := 2\<rparr>" http_sample_addr]
  by (auto simp: http_sample_connection_def new_maps_inv http_sample_socket_config_def http_sample_config_def)

text \<open>C24. A connection ends, and no request brings the worker down. For every input of a client, whatever
  its bytes and however the reads cut them, a connection that is given more rounds than there are
  bytes left ends: each request takes at least a byte. On the way no round panics, although the
  lists, the answers' order and the generator are arbitrary, and the maps of all swarm workers keep
  their invariant.\<close>
theorem http_connection_ends:
  assumes "http_conn_laws x" and "\<forall>rnd \<in> set rnds. http_round_ok rnd" and "http_conn_inv c"
    and "bytes_left c < length rnds"
  shows "\<exists>c' e. run_connection x cf trusted remote_addr rnds c = Some (c', Some e) \<and> http_conn_inv c'"
  using http_conn_laws.run_ok [OF assms(1,2,3)] assms(4)
  unfolding run_connection_def Let_def by (metis not_None_eq)

lemma http_connection_ends_witness:
  "\<exists>c' e. run_connection ref_http_conn http_sample_socket_config trusted_proxies_default (SocketV4 0x7F000001 6881)
      (replicate 113 http_sample_round) http_sample_connection = Some (c', Some e) \<and> http_conn_inv c'"
proof (rule http_connection_ends [OF ref_conn.http_conn_laws_axioms])
  show "\<forall>rnd \<in> set (replicate 113 http_sample_round). http_round_ok rnd" by (simp add: sample_round_ok)
  show "bytes_left http_sample_connection < length (replicate 113 http_sample_round)"
    by (simp add: bytes_left_def http_sample_connection_def length_sample_request)
qed (rule sample_connection_inv)

text \<open>C26. With one swarm worker every answer fits the response buffer, which is sized from the limits of the
  configuration. The response to any request a client can send is written in full: the status line,
  the length of what follows padded to eight places, the body and a line end, within the buffer.\<close>
theorem responses_fit_the_buffer:
  assumes "http_conn_laws x" and "http_round_ok rnd" and "http_conn_inv c" and "hsc_swarm_workers cf \<le> 1"
    and "response_buffer_size cf < 10 ^ 8"
    and "parse_http_get_path (hcx_http x) path = Inr req"
  shows "\<exists>res c'. http_handle_request x cf rnd req peer_addr c = Some (Inr res, c') \<and>
    connection_write_response (hcx_http x) cf res = Inr (written_response (hcx_http x) res) \<and>
    length (written_response (hcx_http x) res) \<le> response_buffer_size cf"
  using http_conn_laws.handle_ok [OF assms(1,2,3,6), of cf peer_addr] assms(4)
    http_plain_crates.write_fits [OF http_conn_laws.http_laws [OF assms(1)] assms(5)]
  by metis

lemma responses_fit_the_buffer_witness:
  "\<exists>res c'. http_handle_request ref_http_conn http_sample_socket_config http_sample_round
      (HttpScrape \<lparr>hs_info_hashes = [7]\<rparr>) http_sample_addr http_sample_connection = Some (Inr res, c') \<and>
    connection_write_response (hcx_http ref_http_conn) http_sample_socket_config res =
      Inr (written_response (hcx_http ref_http_conn) res) \<and>
    length (written_response (hcx_http ref_http_conn) res) \<le> response_buffer_size http_sample_socket_config"
proof (rule responses_fit_the_buffer [OF ref_conn.http_conn_laws_axioms sample_round_ok sample_connection_inv])
  show "parse_http_get_path (hcx_http ref_http_conn) (path_of ref_http_crates (HttpScrape \<lparr>hs_info_hashes = [7]\<rparr>)) =
      Inr (HttpScrape \<lparr>hs_info_hashes = [7]\<rparr>)"
    unfolding ref_http_conn_sel by (rule ref_http.path_parsed) simp
  show "response_buffer_size http_sample_socket_config < 10 ^ 8"
    using sample_config_fits by (simp add: fitting_config_def)
qed (simp add: http_sample_socket_config_def)

lemma write_overflows:
  assumes "http_plain_crates c" and "response_buffer_size cf < 58 + 70 * length files"
  shows "connection_write_response c cf (HttpResScrape \<lparr>hsr_files = files\<rparr>) \<in> {Inl ResponseBufferWrite, Inl ResponseBufferFull}"
  using http_plain_crates.scrape_length(2) [OF assms(1), of "\<lparr>hsr_files = files\<rparr>"] assms(2)
  by (auto simp: connection_write_response_def Let_def response_header_length)

text \<open>With several swarm workers a scrape within the limit of each can be answered with more torrents
  than the response buffer is sized for: the limit on the torrents of a scrape is applied to the
  part of each worker and not to the request. Where a request's distinct info hashes stay within the
  limit at every worker, all of them are listed, at 70 bytes at least, and when that is more than
  the buffer holds, nothing is written and the connection ends with an error.\<close>
theorem split_scrapes_overflow_the_buffer:
  assumes "http_conn_laws x" and "http_round_ok rnd" and "http_conn_inv c" and "hs_info_hashes req \<noteq> []"
    and "distinct (hs_info_hashes req)"
    and "\<forall>w. length (filter (\<lambda>h. calculate_request_consumer_index cf h = w) (hs_info_hashes req)) \<le>
      hcf_max_scrape_torrents (hsc_swarm cf)"
    and "response_buffer_size cf < 58 + 70 * length (hs_info_hashes req)"
  shows "\<exists>res c'. http_handle_request x cf rnd (HttpScrape req) peer_addr c = Some (Inr res, c') \<and>
    connection_write_response (hcx_http x) cf res \<in> {Inl ResponseBufferWrite, Inl ResponseBufferFull}"
proof -
  define files where "files = gathered_files cf rnd peer_addr req (hcn_maps c)"
  have g: "\<And>w. http_maps_inv (hcn_maps c w)" using assms(3) by (simp add: http_conn_inv_def)
  have "h \<in> set (http_asked cf req (calculate_request_consumer_index cf h)) \<longleftrightarrow> h \<in> set (hs_info_hashes req)" for h
    using assms(6) by (simp add: http_asked_def)
  then have "dom (map_of files) = set (hs_info_hashes req)"
    using gathered_files_ok [OF assms(2) g, of cf peer_addr req] by (auto simp: files_def split: if_splits)
  then have "length files = length (hs_info_hashes req)"
    using length_sorted_files [of files] gathered_files_ok [OF assms(2) g, of cf peer_addr req] assms(5)
    by (simp add: files_def distinct_card)
  then show ?thesis
    using handle_scrape [OF assms(2,4), of x cf peer_addr c] assms(7)
      write_overflows [OF http_conn_laws.http_laws [OF assms(1)], of cf files] by (auto simp: files_def)
qed

text \<open>Limits of ten peers and ten torrents, two workers, and a scrape for twenty torrents.\<close>

definition http_tight_config :: http_socket_config where
  "http_tight_config = http_sample_socket_config
     \<lparr>hsc_swarm := http_sample_config\<lparr>hcf_max_peers := 10, hcf_max_scrape_torrents := 10\<rparr>, hsc_swarm_workers := 2\<rparr>"

lemma hd_nat_be: "hd (nat_be (Suc n) v) = word_of_nat (v div 256 ^ n mod 256)"
proof (induction n arbitrary: v)
  case (Suc n)
  have "nat_be (Suc n) (v div 256) \<noteq> []" by simp
  then have "hd (nat_be (Suc (Suc n)) v) = hd (nat_be (Suc n) (v div 256))"
    by (simp only: nat_be.simps(2) [of "Suc n"] hd_append if_False)
  then show ?case using Suc.IH [of "v div 256"] by (simp add: div_mult2_eq)
qed simp

lemma unat_first_byte: "k < 256 \<Longrightarrow> unat (word_of_nat (k * 256 ^ 19) :: 160 word) = k * 256 ^ 19"
  unfolding unat_of_nat by simp

lemma tight_index:
  "k < 256 \<Longrightarrow> calculate_request_consumer_index http_tight_config (word_of_nat (k * 256 ^ 19)) = k mod 2"
proof -
  assume k: "k < 256"
  have "Suc 19 = (20 :: nat)" by simp
  then have "hd (word_be 20 (word_of_nat (k * 256 ^ 19) :: 160 word)) = word_of_nat k"
    using k hd_nat_be [of 19 "k * 256 ^ 19"] unfolding word_be_def unat_first_byte [OF k] by simp
  then show ?thesis using k
    unfolding calculate_request_consumer_index_def
    by (simp add: http_tight_config_def unat_of_nat numeral_2_eq_2)
qed

lemma split_scrapes_overflow_the_buffer_witness:
  "\<exists>res c'. http_handle_request ref_http_conn http_tight_config http_sample_round
      (HttpScrape \<lparr>hs_info_hashes = map (\<lambda>k. word_of_nat (k * 256 ^ 19)) [0..<20]\<rparr>) http_sample_addr
      http_sample_connection = Some (Inr res, c') \<and>
    connection_write_response (hcx_http ref_http_conn) http_tight_config res \<in> {Inl ResponseBufferWrite, Inl ResponseBufferFull}"
proof (rule split_scrapes_overflow_the_buffer [OF ref_conn.http_conn_laws_axioms sample_round_ok
      sample_connection_inv], unfold http_scrape_request.simps)
  let ?h = "\<lambda>k. word_of_nat (k * 256 ^ 19) :: 160 word"
  have "inj_on ?h (set [0..<20])"
    by (rule inj_on_inverseI [where g = "\<lambda>w. unat w div 256 ^ 19"], subst unat_first_byte) simp_all
  then show "distinct (map ?h [0..<20])" by (simp only: distinct_map distinct_upt)
  show "\<forall>w. length (filter (\<lambda>h. calculate_request_consumer_index http_tight_config h = w) (map ?h [0..<20])) \<le>
      hcf_max_scrape_torrents (hsc_swarm http_tight_config)"
  proof
    fix w
    have "filter (\<lambda>h. calculate_request_consumer_index http_tight_config h = w) (map ?h [0..<20]) =
        map ?h (filter (\<lambda>k. k mod 2 = w) [0..<20])"
      unfolding filter_map comp_def
      by (intro arg_cong [where f = "map ?h"] filter_cong refl, subst tight_index) simp_all
    moreover have "length (filter (\<lambda>k. k mod 2 = w) [0..<20]) \<le> 10"
    proof (cases "w = 0 \<or> w = 1")
      case True
      then show ?thesis by (auto simp: upt_rec)
    next
      case False
      then have "filter (\<lambda>k. k mod 2 = w) [0..<20] = []" by (auto simp: filter_empty_conv)
      then show ?thesis by simp
    qed
    ultimately show "length (filter (\<lambda>h. calculate_request_consumer_index http_tight_config h = w) (map ?h [0..<20])) \<le>
        hcf_max_scrape_torrents (hsc_swarm http_tight_config)"
      by (simp add: http_tight_config_def)
  qed
  show "response_buffer_size http_tight_config < 58 + 70 * length (map ?h [0..<20])"
    by (simp add: http_tight_config_def http_sample_socket_config_def response_buffer_size_def Let_def
        response_header_length sat_defs)
qed simp

end
