(* ===== verification/Buf_Ring.thy ===== *)
theory Buf_Ring
  imports Prelude
begin

text \<open>
  \<open>crates/udp/src/workers/socket/uring/buf_ring.rs\<close>: the ring of receive buffers a socket worker
  shares with the kernel. One allocation holds the ring's entries and the buffers behind them; an
  address is its offset in it. The kernel takes entries from the head, which only it knows, and the
  worker adds entries at the tail, which it publishes with a store. What registering with the kernel
  yields is given. \<open>None\<close> is a panic. The ring's tail lies in a field of the first entry that the
  setters leave alone; it is a field of its own here.
\<close>

type_synonym bgid = u16
type_synonym bid = u16

subsection \<open>Powers of two\<close>

function pow2_from :: "nat \<Rightarrow> nat \<Rightarrow> nat" where
  "pow2_from p n = (if n \<le> p \<or> p = 0 then p else pow2_from (2 * p) n)"
  by pat_completeness auto
termination
  by (relation "measure (\<lambda>(p, n). n - p)") auto

declare pow2_from.simps [simp del]

text \<open>\<open>next_power_of_two\<close>, which wraps to zero where the result does not fit.\<close>

definition next_power_of_two :: "'a::len word \<Rightarrow> 'a word" where
  "next_power_of_two w = word_of_nat (pow2_from 1 (unat w))"

subsection \<open>Data\<close>

record buf_ring_entry =
  rn_addr :: u64
  rn_len :: u64
  rn_bid :: bid

record raw_buf_ring =
  br_bgid :: bgid
  br_ring_entries_mask :: u16
  br_buf_cnt :: u16
  br_buf_len :: u64
  br_layout :: "u64 \<times> u64"
  br_ring :: "buf_ring_entry list"
  br_buffers_addr :: u64
  br_local_tail :: u16
  br_tail :: u16
  br_registered :: bool
  br_possible_cur :: u16
  br_possible_min :: u16

record buf_x =
  bx_bid :: bid
  bx_len :: nat

record ring_builder =
  bd_page_size :: u64
  bd_bgid :: bgid
  bd_ring_entries :: u16
  bd_buf_cnt :: u16
  bd_buf_len :: u64
  bd_buf_align :: u64
  bd_ring_pad :: u64
  bd_bufend_align :: u64
  bd_skip_register :: bool

datatype ring_error = RingEntriesExceeded | InvalidInput | RegisterFailed | BufferBitMissing

definition builder_new :: "bgid \<Rightarrow> ring_builder" where
  "builder_new bgid = \<lparr>bd_page_size = 4096, bd_bgid = bgid, bd_ring_entries = 128, bd_buf_cnt = 0,
     bd_buf_len = 4096, bd_buf_align = 0, bd_ring_pad = 0, bd_bufend_align = 0, bd_skip_register = False\<rparr>"

subsection \<open>Operations on the ring\<close>

definition mask_of :: "raw_buf_ring \<Rightarrow> u16" where
  "mask_of r = br_ring_entries_mask r"

definition ring_entries :: "raw_buf_ring \<Rightarrow> u16" where
  "ring_entries r = br_ring_entries_mask r + 1"

definition stable_ptr :: "bid \<Rightarrow> raw_buf_ring \<Rightarrow> u64 option" where
  "stable_ptr bid r =
     (if bid < br_buf_cnt r then Some (br_buffers_addr r + br_buf_len r * ucast bid) else None)"

definition buf_ring_add :: "bid \<Rightarrow> raw_buf_ring \<Rightarrow> raw_buf_ring option" where
  "buf_ring_add bid r =
     (let cur_tail = br_local_tail r;
          ring_idx = unat (cur_tail AND mask_of r)
      in map_option (\<lambda>addr. r
           \<lparr>br_local_tail := cur_tail + 1,
            br_ring := (br_ring r)[ring_idx := \<lparr>rn_addr = addr, rn_len = br_buf_len r, rn_bid = bid\<rparr>],
            br_possible_cur := br_possible_cur r + 1\<rparr>)
         (stable_ptr bid r))"

definition buf_ring_sync :: "raw_buf_ring \<Rightarrow> raw_buf_ring" where
  "buf_ring_sync r = r\<lparr>br_tail := br_local_tail r\<rparr>"

definition dropping_bid :: "bid \<Rightarrow> raw_buf_ring \<Rightarrow> raw_buf_ring option" where
  "dropping_bid bid r = map_option buf_ring_sync (buf_ring_add bid r)"

definition metric_getting_another :: "raw_buf_ring \<Rightarrow> raw_buf_ring" where
  "metric_getting_another r =
     (let cur = br_possible_cur r - 1
      in r\<lparr>br_possible_cur := cur, br_possible_min := min (br_possible_min r) cur\<rparr>)"

text \<open>\<open>get_buf\<close>: the buffer id of the completion's flags, if the buffer bit is set in them, is given.\<close>

definition get_buf ::
  "nat \<Rightarrow> bid option \<Rightarrow> raw_buf_ring \<Rightarrow> (ring_error + buf_x option \<times> raw_buf_ring) option" where
  "get_buf res buffer_select r =
     (case buffer_select of
        None \<Rightarrow> Some (if res = 0 then Inr (None, r) else Inl BufferBitMissing)
      | Some bid \<Rightarrow>
          if res \<le> unat (br_buf_len r)
          then Some (Inr (Some \<lparr>bx_bid = bid, bx_len = res\<rparr>, metric_getting_another r))
          else None)"

definition ring_register :: "bool \<Rightarrow> raw_buf_ring \<Rightarrow> ring_error + raw_buf_ring" where
  "ring_register registers r = (if registers then Inr (r\<lparr>br_registered := True\<rparr>) else Inl RegisterFailed)"

definition ring_unregister :: "raw_buf_ring \<Rightarrow> raw_buf_ring" where
  "ring_unregister r = (if \<not> br_registered r then r else r\<lparr>br_registered := False\<rparr>)"

definition possible_min_and_reset :: "raw_buf_ring \<Rightarrow> u16 \<times> raw_buf_ring" where
  "possible_min_and_reset r = (br_possible_min r, r\<lparr>br_possible_min := br_buf_cnt r\<rparr>)"

subsection \<open>Building a ring\<close>

definition ENTRY_SIZE :: u64 where
  "ENTRY_SIZE = 16"

definition align_up :: "u64 \<Rightarrow> u64 \<Rightarrow> u64" where
  "align_up align sz =
     (if 0 < align then (let a = next_power_of_two align in (sz + (a - 1)) AND NOT (a - 1)) else sz)"

text \<open>\<open>Layout::from_size_align\<close>, whose error is unwrapped.\<close>

definition from_size_align :: "u64 \<Rightarrow> u64 \<Rightarrow> (u64 \<times> u64) option" where
  "from_size_align sz align =
     (if align \<noteq> 0 \<and> align AND (align - 1) = 0 \<and> unat sz + (unat align - 1) < 2 ^ 63
      then Some (sz, align) else None)"

text \<open>The adding of the buffers when the ring is created.\<close>

fun add_all :: "bid list \<Rightarrow> raw_buf_ring \<Rightarrow> raw_buf_ring option" where
  "add_all [] r = Some r"
| "add_all (bid # bids) r = Option.bind (buf_ring_add bid r) (add_all bids)"

definition raw_buf_ring_new :: "ring_builder \<Rightarrow> bool \<Rightarrow> (ring_error + raw_buf_ring) option" where
  "raw_buf_ring_new b registers =
     (let entries = bd_ring_entries b; buf_cnt = bd_buf_cnt b; buf_len = bd_buf_len b in
      if buf_cnt = 0 \<or> entries < buf_cnt \<or> buf_len = 0 \<or> entries AND (entries - 1) \<noteq> 0
      then Some (Inl InvalidInput)
      else
        let ring_size = align_up (bd_buf_align b) (ENTRY_SIZE * ucast entries + bd_ring_pad b);
            buf_size = buf_len * ucast buf_cnt;
            tot_size = align_up (bd_bufend_align b) (ring_size + buf_size)
        in if ring_size = 0 \<or> buf_size = 0 then None
           else
             Option.bind (from_size_align tot_size (next_power_of_two (bd_page_size b))) (\<lambda>layout.
             if fst layout < ring_size then None
             else
               let buf_ring = \<lparr>br_bgid = bd_bgid b, br_ring_entries_mask = entries - 1, br_buf_cnt = buf_cnt,
                     br_buf_len = buf_len, br_layout = layout,
                     br_ring = replicate (unat entries) \<lparr>rn_addr = 0, rn_len = 0, rn_bid = 0\<rparr>,
                     br_buffers_addr = ring_size, br_local_tail = 0, br_tail = 0, br_registered = False,
                     br_possible_cur = 0, br_possible_min = buf_cnt\<rparr>
               in map_option (\<lambda>r.
                    let r1 = buf_ring_sync r
                    in if bd_skip_register b then Inr r1 else ring_register registers r1)
                  (add_all (map word_of_nat [0..<unat buf_cnt]) buf_ring)))"

definition ring_build :: "ring_builder \<Rightarrow> bool \<Rightarrow> (ring_error + raw_buf_ring) option" where
  "ring_build b registers =
     (let b1 = (if bd_buf_cnt b = 0 \<or> bd_ring_entries b < bd_buf_cnt b
                then b\<lparr>bd_buf_cnt := max (bd_ring_entries b) (bd_buf_cnt b),
                       bd_ring_entries := max (bd_ring_entries b) (bd_buf_cnt b)\<rparr>
                else b)
      in if 32768 < bd_ring_entries b1 then Some (Inl RingEntriesExceeded)
         else raw_buf_ring_new (b1\<lparr>bd_ring_entries := next_power_of_two (bd_ring_entries b1)\<rparr>) registers)"

end
