(* ===== verification/Uring.thy ===== *)
theory Uring
  imports Udp_Worker Buf_Ring
begin

text \<open>
  \<open>crates/udp/src/workers/socket/uring/mod.rs\<close>, \<open>recv_helper.rs\<close> and \<open>send_buffers.rs\<close>: the socket
  worker of the UDP tracker on \<open>io_uring\<close>. The worker hands submissions to the kernel and handles its
  completions; what the kernel completes, with the bytes it put into a receive buffer, is given. The
  crate's parser of received messages is an argument. The contents of a send buffer are the address
  and the bytes its message header points to; they are read by the kernel while the send is in flight.
  \<open>None\<close> is a panic. Sockets, registration and log lines are not modelled.
\<close>

definition REQUEST_BUF_LEN :: u64 where
  "REQUEST_BUF_LEN = 512"

definition RESPONSE_BUF_LEN :: nat where
  "RESPONSE_BUF_LEN = 2048"

definition USER_DATA_RECV_V4 :: u64 where
  "USER_DATA_RECV_V4 = - 1"

definition USER_DATA_RECV_V6 :: u64 where
  "USER_DATA_RECV_V6 = - 2"

definition USER_DATA_PULSE_TIMEOUT :: u64 where
  "USER_DATA_PULSE_TIMEOUT = - 3"

subsection \<open>Receiving\<close>

text \<open>
  What \<open>RecvMsgOut::parse\<close> makes of a buffer: whether name and payload were cut, and both of them. The
  name is a \<open>sockaddr_in\<close> or \<open>sockaddr_in6\<close>, whose fields are read at their offsets.
\<close>

record recv_msg =
  rm_name_truncated :: bool
  rm_payload_truncated :: bool
  rm_name :: bytes
  rm_payload :: bytes

datatype recv_error =
    RecvMsgParseError | RecvMsgTruncated
  | RecvRequestParseError request_parse_error canonical_socket_addr
  | InvalidSocketAddress

definition sockaddr_in :: "bytes \<Rightarrow> socket_addr" where
  "sockaddr_in name = SocketV4 (be_word (sub name 4 4)) (be_word (sub name 2 2))"

definition sockaddr_in6 :: "bytes \<Rightarrow> socket_addr" where
  "sockaddr_in6 name = SocketV6 (be_word (sub name 8 16)) (be_word (sub name 2 2)) (be_word (sub name 4 4))
     (be_word (sub name 24 4))"

definition recv_parse ::
  "(bool \<Rightarrow> bytes \<Rightarrow> recv_msg option) \<Rightarrow> bool \<Rightarrow> u8 \<Rightarrow> bytes \<Rightarrow>
   recv_error + request \<times> canonical_socket_addr" where
  "recv_parse parse_msg v4 max_scrape buffer =
     and_then (ok_or RecvMsgParseError (parse_msg v4 buffer)) (\<lambda>msg.
       if rm_name_truncated msg \<or> rm_payload_truncated msg then Inl RecvMsgTruncated
       else
         let addr = (if v4 then sockaddr_in (rm_name msg) else sockaddr_in6 (rm_name msg)) in
         if socket_port addr = 0 then Inl InvalidSocketAddress
         else
           map_err (\<lambda>e. RecvRequestParseError e (canonical_new addr))
             (and_then (parse_request (rm_payload msg) max_scrape) (\<lambda>r. Inr (r, canonical_new addr))))"

subsection \<open>Send buffers\<close>

datatype response_type = TypeConnect | TypeAnnounce | TypeScrape | TypeError

fun response_type_of :: "response \<Rightarrow> response_type" where
  "response_type_of (ResConnect _) = TypeConnect"
| "response_type_of (ResAnnounceIpv4 _) = TypeAnnounce"
| "response_type_of (ResAnnounceIpv6 _) = TypeAnnounce"
| "response_type_of (ResScrape _) = TypeScrape"
| "response_type_of (ResError _) = TypeError"

record send_buffer =
  sb_free :: bool
  sb_receiver_is_ipv4 :: bool
  sb_response_type :: response_type
  sb_name :: socket_addr
  sb_bytes :: bytes

record send_buffers =
  sbs_likely_next_free_index :: nat
  sbs_buffers :: "send_buffer list"

definition send_buffer_new :: send_buffer where
  "send_buffer_new = \<lparr>sb_free = True, sb_receiver_is_ipv4 = True, sb_response_type = TypeConnect,
     sb_name = SocketV4 0 0, sb_bytes = replicate RESPONSE_BUF_LEN 0\<rparr>"

definition send_buffers_new :: "nat \<Rightarrow> send_buffers" where
  "send_buffers_new n = \<lparr>sbs_likely_next_free_index = 0, sbs_buffers = replicate n send_buffer_new\<rparr>"

definition response_type_and_ipv4 :: "nat \<Rightarrow> send_buffers \<Rightarrow> (response_type \<times> bool) option" where
  "response_type_and_ipv4 i s =
     (if i < length (sbs_buffers s)
      then Some (sb_response_type (sbs_buffers s ! i), sb_receiver_is_ipv4 (sbs_buffers s ! i)) else None)"

definition mark_buffer_as_free :: "nat \<Rightarrow> send_buffers \<Rightarrow> send_buffers option" where
  "mark_buffer_as_free i s =
     (if i < length (sbs_buffers s)
      then Some (s\<lparr>sbs_buffers := (sbs_buffers s)[i := (sbs_buffers s ! i)\<lparr>sb_free := True\<rparr>]\<rparr>) else None)"

definition reset_likely_next_free_index :: "send_buffers \<Rightarrow> send_buffers" where
  "reset_likely_next_free_index s = s\<lparr>sbs_likely_next_free_index := 0\<rparr>"

fun first_free :: "send_buffer list \<Rightarrow> nat option" where
  "first_free [] = None"
| "first_free (b # bs) = (if sb_free b then Some 0 else map_option Suc (first_free bs))"

definition next_free_index :: "send_buffers \<Rightarrow> nat option" where
  "next_free_index s =
     (if length (sbs_buffers s) \<le> sbs_likely_next_free_index s then None
      else map_option ((+) (sbs_likely_next_free_index s))
        (first_free (drop (sbs_likely_next_free_index s) (sbs_buffers s))))"

text \<open>The address in the form the socket takes it, where it has one; the other fields stay zero.\<close>

fun send_name :: "bool \<Rightarrow> canonical_socket_addr \<Rightarrow> socket_addr option" where
  "send_name True addr =
     (case get_ipv4 addr of Some (SocketV4 ip port) \<Rightarrow> Some (SocketV4 ip port) | _ \<Rightarrow> None)"
| "send_name False addr =
     (case get_ipv6_mapped addr of SocketV6 ip port _ _ \<Rightarrow> Some (SocketV6 ip port 0 0) | _ \<Rightarrow> None)"

text \<open>
  \<open>SendBuffer::prepare_entry\<close>: whether the response was written, and the buffer. Where it does not fit,
  the bytes that were overwritten do not matter, since the buffer stays free.
\<close>

definition prepare_buffer ::
  "bool \<Rightarrow> response \<Rightarrow> canonical_socket_addr \<Rightarrow> send_buffer \<Rightarrow> (bool \<times> send_buffer) option" where
  "prepare_buffer send_to_ipv4_socket response addr b =
     map_option (\<lambda>name.
       let b1 = b\<lparr>sb_receiver_is_ipv4 := (if send_to_ipv4_socket then True else is_ipv4 addr), sb_name := name\<rparr>;
           bs = write_response response
       in if length bs \<le> RESPONSE_BUF_LEN
          then (True, b1\<lparr>sb_bytes := bs, sb_response_type := response_type_of response\<rparr>)
          else (False, b1))
     (send_name send_to_ipv4_socket addr)"

datatype prepared = Prepared nat | NoBuffers | SerializationFailed

definition prepare_entry ::
  "bool \<Rightarrow> response \<Rightarrow> canonical_socket_addr \<Rightarrow> send_buffers \<Rightarrow> (prepared \<times> send_buffers) option" where
  "prepare_entry send_to_ipv4_socket response addr s =
     (case next_free_index s of
        None \<Rightarrow> Some (NoBuffers, s)
      | Some index \<Rightarrow>
          map_option (\<lambda>(written, b).
            if written then
              (Prepared index, s\<lparr>sbs_buffers := (sbs_buffers s)[index := b\<lparr>sb_free := False\<rparr>],
                 sbs_likely_next_free_index := index + 1\<rparr>)
            else (SerializationFailed, s\<lparr>sbs_buffers := (sbs_buffers s)[index := b]\<rparr>))
          (prepare_buffer send_to_ipv4_socket response addr (sbs_buffers s ! index)))"

subsection \<open>The worker\<close>

text \<open>What is submitted: receiving on a socket, the timer, and sending a buffer on a socket.\<close>

datatype sqe = SqeRecv bool | SqePulse | SqeSend nat bool

record ('r, 'h) uring_worker =
  ug_service :: "('r, 'h) udp_worker"
  ug_has_ipv4 :: bool
  ug_has_ipv6 :: bool
  ug_ring :: raw_buf_ring
  ug_send :: send_buffers
  ug_local_responses :: "(canonical_socket_addr \<times> response) list"
  ug_resubmit :: "sqe list"

text \<open>
  A completion: its user data, its result (negative for an error), the buffer the kernel chose, what
  it wrote there, whether more completions will follow, and the clock and the lists it meets.
\<close>

record uring_cqe =
  ce_user_data :: u64
  ce_result :: int
  ce_buffer :: "bid option"
  ce_more :: bool
  ce_bytes :: bytes
  ce_env :: request_env
  ce_elapsed :: "nat \<times> nat"

record 'r uring_crates =
  ux_udp :: "'r udp_crates"
  ux_parse_msg :: "bool \<Rightarrow> bytes \<Rightarrow> recv_msg option"

definition uring_handle_request ::
  "udp_worker_config \<Rightarrow> 'r udp_crates \<Rightarrow> request_env \<Rightarrow> request \<Rightarrow> canonical_socket_addr \<Rightarrow>
   ('r, 'h) udp_worker \<Rightarrow> ((canonical_socket_addr \<times> response) option \<times> ('r, 'h) udp_worker) option" where
  "uring_handle_request cf xc re req src wk =
     (if is_list_banned cf re src wk then Some (None, wk)
      else
        (case req of
           ReqConnect request \<Rightarrow>
             if is_private_ip_blocked cf src wk then Some (None, wk)
             else Some (Some (src, ResConnect \<lparr>cs_transaction_id = cr_transaction_id request,
                     cs_connection_id = create_connection_id (xc_mac xc) (wk_validator wk) src\<rparr>), wk)
         | ReqAnnounce request \<Rightarrow>
             if \<not> connection_id_valid (xc_mac xc) (wk_validator wk) src (ar_connection_id request)
             then Some (None, wk)
             else
               (let (blocked, wk1) = run_security_checks cf xc re src (Some (ar_peer_id request)) wk
                in if blocked then Some (None, wk1)
                   else if allows (uc_access_list_mode (wc_swarm cf)) (wk_access_list wk1) (ar_info_hash request)
                   then
                     map_option (\<lambda>(response, maps', ms, r').
                       (Some (src, response),
                        wk1\<lparr>wk_torrent_maps := maps', wk_messages := wk_messages wk1 @ ms, wk_rng := r'\<rparr>))
                     (maps_announce (xc_map4 xc) (xc_map6 xc) (xc_gen xc) (wc_swarm cf) request src
                       (wk_peer_valid_until wk1) (wk_rng wk1) (wk_torrent_maps wk1))
                   else Some (Some (src, ResError \<lparr>er_transaction_id = ar_transaction_id request,
                          er_message = str ''Info hash not allowed''\<rparr>), wk1))
         | ReqScrape request \<Rightarrow>
             if \<not> connection_id_valid (xc_mac xc) (wk_validator wk) src (sr_connection_id request)
             then Some (None, wk)
             else
               (let (blocked, wk1) = run_security_checks cf xc re src None wk
                in if blocked then Some (None, wk1)
                   else
                     let filtered_request = filter_info_hashes
                           (allows (uc_access_list_mode (wc_swarm cf)) (wk_access_list wk1)) request
                     in Some (Some (src, ResScrape (maps_scrape filtered_request src (wk_torrent_maps wk1))),
                          wk1))))"

text \<open>The counters of a received message: the bytes are those of the buffer, with the message's header.\<close>

definition count_received ::
  "udp_worker_config \<Rightarrow> canonical_socket_addr \<Rightarrow> nat \<Rightarrow> nat \<Rightarrow> ('r, 'h) udp_worker \<Rightarrow> ('r, 'h) udp_worker" where
  "count_received cf addr len requests wk =
     (if statistics_active (uc_statistics (wc_swarm cf)) then
        wk\<lparr>wk_statistics := count_for addr (\<lambda>s. s
             \<lparr>sk_bytes_received := sk_bytes_received s + of_nat (len + extra_packet_size addr),
              sk_requests := sk_requests s + of_nat requests\<rparr>) (wk_statistics wk)\<rparr>
      else wk)"

text \<open>What the bytes of a receive buffer are answered with.\<close>

definition answer_buffer ::
  "udp_worker_config \<Rightarrow> 'r uring_crates \<Rightarrow> request_env \<Rightarrow> bool \<Rightarrow> bytes \<Rightarrow> ('r, 'h) udp_worker \<Rightarrow>
   ((canonical_socket_addr \<times> response) option \<times> ('r, 'h) udp_worker) option" where
  "answer_buffer cf ux re v4 buffer wk =
     (case recv_parse (ux_parse_msg ux) v4 (max_scrape_torrents (uc_protocol (wc_swarm cf))) buffer of
        Inr (request, addr) \<Rightarrow>
          uring_handle_request cf (ux_udp ux) re request addr (count_received cf addr (length buffer) 1 wk)
      | Inl (RecvRequestParseError err addr) \<Rightarrow>
          (let wk1 = count_received cf addr (length buffer) 0 wk in
           case err of
             Sendable cid tid msg \<Rightarrow>
               Some (if connection_id_valid (xc_mac (ux_udp ux)) (wk_validator wk1) addr cid
                     then Some (addr, ResError \<lparr>er_transaction_id = tid, er_message = msg\<rparr>) else None, wk1)
           | Unsendable _ \<Rightarrow> Some (None, wk1))
      | Inl _ \<Rightarrow> Some (None, wk))"

text \<open>The receive buffer is dropped, and so returned to the ring, when its handling ends.\<close>

definition handle_recv_cqe ::
  "udp_worker_config \<Rightarrow> 'r uring_crates \<Rightarrow> uring_cqe \<Rightarrow> bool \<Rightarrow> ('r, 'h) uring_worker \<Rightarrow>
   ((canonical_socket_addr \<times> response) option \<times> ('r, 'h) uring_worker) option" where
  "handle_recv_cqe cf ux cqe received_on_ipv4_socket w =
     (if ce_result cqe < 0 then Some (None, w)
      else
        Option.bind (get_buf (nat (ce_result cqe)) (ce_buffer cqe) (ug_ring w)) (\<lambda>got.
        case got of
          Inl _ \<Rightarrow> Some (None, w)
        | Inr (None, ring1) \<Rightarrow> Some (None, w\<lparr>ug_ring := ring1\<rparr>)
        | Inr (Some bx, ring1) \<Rightarrow>
            Option.bind (stable_ptr (bx_bid bx) ring1) (\<lambda>_.
            Option.bind (answer_buffer cf ux (ce_env cqe) received_on_ipv4_socket
                (take (bx_len bx) (ce_bytes cqe)) (ug_service w)) (\<lambda>(answer, wk').
            map_option (\<lambda>ring2. (answer, w\<lparr>ug_ring := ring2, ug_service := wk'\<rparr>))
              (dropping_bid (bx_bid bx) ring1)))))"

definition push_answer ::
  "(canonical_socket_addr \<times> response) option \<Rightarrow> ('r, 'h) uring_worker \<Rightarrow> ('r, 'h) uring_worker" where
  "push_answer answer w =
     (case answer of
        Some ar \<Rightarrow> w\<lparr>ug_local_responses := ug_local_responses w @ [ar]\<rparr>
      | None \<Rightarrow> w)"

definition push_sqe :: "sqe \<Rightarrow> ('r, 'h) uring_worker \<Rightarrow> ('r, 'h) uring_worker" where
  "push_sqe e w = w\<lparr>ug_resubmit := ug_resubmit w @ [e]\<rparr>"

fun count_response_type :: "response_type \<Rightarrow> socket_worker_statistics \<Rightarrow> socket_worker_statistics" where
  "count_response_type TypeConnect s = s\<lparr>sk_responses_connect := sk_responses_connect s + 1\<rparr>"
| "count_response_type TypeAnnounce s = s\<lparr>sk_responses_announce := sk_responses_announce s + 1\<rparr>"
| "count_response_type TypeScrape s = s\<lparr>sk_responses_scrape := sk_responses_scrape s + 1\<rparr>"
| "count_response_type TypeError s = s\<lparr>sk_responses_error := sk_responses_error s + 1\<rparr>"

definition count_send ::
  "nat \<Rightarrow> response_type \<times> bool \<Rightarrow> ('r, 'h) udp_worker \<Rightarrow> ('r, 'h) udp_worker" where
  "count_send n meta wk =
     (let (response_type, receiver_is_ipv4) = meta;
          bump = (\<lambda>extra s. count_response_type response_type
             (s\<lparr>sk_bytes_sent := sk_bytes_sent s + of_nat (n + extra)\<rparr>));
          s = wk_statistics wk
      in wk\<lparr>wk_statistics :=
           (if receiver_is_ipv4 then s\<lparr>stats_ipv4 := bump EXTRA_PACKET_SIZE_IPV4 (stats_ipv4 s)\<rparr>
            else s\<lparr>stats_ipv6 := bump EXTRA_PACKET_SIZE_IPV6 (stats_ipv6 s)\<rparr>)\<rparr>)"

definition handle_send_cqe ::
  "udp_worker_config \<Rightarrow> uring_cqe \<Rightarrow> ('r, 'h) uring_worker \<Rightarrow> ('r, 'h) uring_worker option" where
  "handle_send_cqe cf cqe w =
     (let i = unat (ce_user_data cqe) in
      Option.bind
        (if ce_result cqe < 0 then Some w
         else if statistics_active (uc_statistics (wc_swarm cf)) then
           map_option (\<lambda>meta. w\<lparr>ug_service := count_send (nat (ce_result cqe)) meta (ug_service w)\<rparr>)
             (response_type_and_ipv4 i (ug_send w))
         else Some w)
        (\<lambda>w1. map_option (\<lambda>s. w1\<lparr>ug_send := s\<rparr>) (mark_buffer_as_free i (ug_send w1))))"

definition handle_cqe ::
  "udp_worker_config \<Rightarrow> 'r uring_crates \<Rightarrow> uring_cqe \<Rightarrow> ('r, 'h) uring_worker \<Rightarrow>
   ('r, 'h) uring_worker option" where
  "handle_cqe cf ux cqe w =
     (let received = (\<lambda>v4. map_option (\<lambda>(answer, w1).
             let w2 = push_answer answer w1
             in if \<not> ce_more cqe then push_sqe (SqeRecv v4) w2 else w2)
           (handle_recv_cqe cf ux cqe v4 w))
      in if ce_user_data cqe = USER_DATA_RECV_V4 then received True
         else if ce_user_data cqe = USER_DATA_RECV_V6 then received False
         else if ce_user_data cqe = USER_DATA_PULSE_TIMEOUT then
           map_option (\<lambda>wk. push_sqe SqePulse (w\<lparr>ug_service := wk\<rparr>))
             (update_times cf (ce_elapsed cqe) (ug_service w))
         else handle_send_cqe cf cqe w)"

fun handle_cqes ::
  "udp_worker_config \<Rightarrow> 'r uring_crates \<Rightarrow> uring_cqe list \<Rightarrow> ('r, 'h) uring_worker \<Rightarrow>
   ('r, 'h) uring_worker option" where
  "handle_cqes cf ux [] w = Some w"
| "handle_cqes cf ux (c # cs) w = Option.bind (handle_cqe cf ux c w) (handle_cqes cf ux cs)"

subsection \<open>The loop\<close>

definition send_to_ipv4_socket :: "canonical_socket_addr \<Rightarrow> ('r, 'h) uring_worker \<Rightarrow> bool option" where
  "send_to_ipv4_socket addr w =
     (if is_ipv4 addr then
        (if ug_has_ipv4 w then Some True else if ug_has_ipv6 w then Some False else None)
      else if ug_has_ipv6 w then Some False else None)"

text \<open>Enqueueing local responses: the sends submitted, in order.\<close>

fun enqueue_responses ::
  "nat \<Rightarrow> ('r, 'h) uring_worker \<Rightarrow> (sqe list \<times> ('r, 'h) uring_worker) option" where
  "enqueue_responses 0 w = Some ([], w)"
| "enqueue_responses (Suc n) w =
     (case ug_local_responses w of
        [] \<Rightarrow> Some ([], w)
      | (addr, response) # rest \<Rightarrow>
          Option.bind (send_to_ipv4_socket addr w) (\<lambda>v4.
          Option.bind (prepare_entry v4 response addr (ug_send w)) (\<lambda>(p, send).
            let w1 = w\<lparr>ug_send := send, ug_local_responses := rest\<rparr> in
            case p of
              Prepared index \<Rightarrow>
                map_option (\<lambda>(es, w2). (SqeSend index v4 # es, w2)) (enqueue_responses n w1)
            | NoBuffers \<Rightarrow> Some ([], w1\<lparr>ug_local_responses := (addr, response) # rest\<rparr>)
            | SerializationFailed \<Rightarrow> enqueue_responses n w1)))"

text \<open>
  A round up to the waiting: what is submitted, and how many completions are waited for. The
  submission queue is empty at the start; pushing to a full one is a panic.
\<close>

definition uring_fill ::
  "nat \<Rightarrow> ('r, 'h) uring_worker \<Rightarrow> (sqe list \<times> nat \<times> ('r, 'h) uring_worker) option" where
  "uring_fill capacity w =
     (let resubmit = ug_resubmit w in
      if capacity < length resubmit then None
      else
        map_option (\<lambda>(sends, w1). (resubmit @ sends, max 1 (length sends), w1))
          (enqueue_responses (capacity - length resubmit) (w\<lparr>ug_resubmit := []\<rparr>)))"

text \<open>
  What \<open>submit_and_wait\<close> returns: the number submitted, or the error of \<open>io_uring_enter\<close>, as when a
  signal interrupts the waiting or the completion queue is full. The result is unwrapped, so an error
  is a panic.
\<close>

datatype enter_error = Interrupted | Busy | EnterFailed nat

definition uring_submit ::
  "nat \<Rightarrow> enter_error + nat \<Rightarrow> ('r, 'h) uring_worker \<Rightarrow> (sqe list \<times> nat \<times> ('r, 'h) uring_worker) option" where
  "uring_submit capacity entered w =
     Option.bind (uring_fill capacity w) (\<lambda>submitted.
       case entered of
         Inl _ \<Rightarrow> None
       | Inr _ \<Rightarrow> Some submitted)"

definition uring_complete ::
  "udp_worker_config \<Rightarrow> 'r uring_crates \<Rightarrow> uring_cqe list \<Rightarrow> ('r, 'h) uring_worker \<Rightarrow>
   ('r, 'h) uring_worker option" where
  "uring_complete cf ux cqes w =
     map_option (\<lambda>w1. w1\<lparr>ug_send := reset_likely_next_free_index (ug_send w1)\<rparr>) (handle_cqes cf ux cqes w)"

text \<open>The worker before its first round; a ring that cannot be built is a panic.\<close>

definition uring_start ::
  "u16 \<Rightarrow> bool \<Rightarrow> bool \<Rightarrow> bool \<Rightarrow> ('r, 'h) udp_worker \<Rightarrow> ('r, 'h) uring_worker option" where
  "uring_start ring_size use_ipv4 use_ipv6 registers wk =
     (let entries = next_power_of_two ring_size in
      case ring_build ((builder_new 0)\<lparr>bd_ring_entries := entries, bd_buf_len := REQUEST_BUF_LEN\<rparr>) registers of
        Some (Inr ring) \<Rightarrow>
          Some \<lparr>ug_service = wk, ug_has_ipv4 = use_ipv4, ug_has_ipv6 = use_ipv6, ug_ring = ring,
            ug_send = send_buffers_new (unat entries), ug_local_responses = [],
            ug_resubmit = SqePulse # (if use_ipv4 then [SqeRecv True] else []) @
              (if use_ipv6 then [SqeRecv False] else [])\<rparr>
      | _ \<Rightarrow> None)"

end
