(* ===== verification/Buf_Ring_Spec.thy ===== *)
theory Buf_Ring_Spec
  imports Buf_Ring
begin

text \<open>
  What the ring of receive buffers promises: together with a kernel that takes entries from the head,
  every buffer is at any time in exactly one place (waiting in the ring, taken by the kernel, or held
  by the worker), so an entry the kernel has not yet taken is never overwritten, although nothing
  counts the entries; the positions wrap around at \<open>2 ^ 16\<close>.
\<close>

subsection \<open>Positions\<close>

lemma pow2_from_power:
  "\<exists>k. pow2_from (2 ^ j) n = 2 ^ k \<and> n \<le> 2 ^ k \<and> (k = j \<or> 2 ^ (k - 1) < n)"
proof (induction "n - 2 ^ j" arbitrary: j rule: less_induct)
  case less
  show ?case
  proof (cases "n \<le> 2 ^ j")
    case True
    then show ?thesis by (intro exI [of _ j]) (simp add: pow2_from.simps)
  next
    case False
    have "(2 :: nat) ^ j < 2 ^ Suc j" by simp
    then have "n - 2 ^ Suc j < n - 2 ^ j" using False by linarith
    from less.hyps [OF this] obtain k where
      k: "pow2_from (2 ^ Suc j) n = 2 ^ k" "n \<le> 2 ^ k" "k = Suc j \<or> 2 ^ (k - 1) < n" by blast
    have "pow2_from (2 ^ j) n = pow2_from (2 ^ Suc j) n"
      using False by (simp add: pow2_from.simps [of "2 ^ j"])
    then show ?thesis using k False by (intro exI [of _ k]) auto
  qed
qed

lemma next_power_16:
  assumes "w \<le> 32768"
  obtains k where "next_power_of_two (w :: u16) = 2 ^ k" "unat w \<le> 2 ^ k" "k \<le> 15"
proof -
  obtain k where k: "pow2_from 1 (unat w) = 2 ^ k" "unat w \<le> 2 ^ k" "k = 0 \<or> 2 ^ (k - 1) < unat w"
    using pow2_from_power [of 0 "unat w"] by auto
  have "unat w \<le> 2 ^ 15" using assms by (simp add: word_le_nat_alt)
  then have "k = 0 \<or> (2 :: nat) ^ (k - 1) < 2 ^ 15" using k(3) by linarith
  then have "k = 0 \<or> k - 1 < 15" using power_less_imp_less_exp [of "2 :: nat" "k - 1" 15] by linarith
  then have "k \<le> 15" by linarith
  then show thesis using that k by (simp add: next_power_of_two_def)
qed

lemma mask_index: "unat ((t :: u16) AND mask k) = unat t mod 2 ^ k"
  unfolding take_bit_eq_mask [symmetric] unsigned_take_bit_eq by (rule take_bit_eq_mod)

lemma index_at:
  assumes "k \<le> 15"
  shows "unat ((h + word_of_nat i :: u16) AND mask k) = (unat h + i) mod 2 ^ k"
proof -
  have "(2 :: nat) ^ k dvd 2 ^ 16" using assms by (intro le_imp_power_dvd) simp
  then have "a mod 2 ^ 16 mod 2 ^ k = a mod 2 ^ k" for a :: nat by (rule mod_mod_cancel)
  from this [of "unat h + i"] show ?thesis
    by (simp add: mask_index unat_word_ariths unat_of_nat mod_add_right_eq)
qed

lemma index_inj:
  assumes "(a + i) mod m = (a + j) mod (m :: nat)" and "i < m" "j < m"
  shows "i = j"
proof -
  have "i = j" if e: "(a + i) mod m = (a + j) mod m" and l: "i \<le> j" "j < m" for i j
  proof -
    have "m dvd a + j - (a + i)" using mod_eq_dvd_iff_nat [of "a + i" "a + j" m] e l(1) by simp
    then have "m dvd j - i" by simp
    then show ?thesis using l by (metis diff_is_0_eq dvd_imp_le le_antisym less_imp_diff_less not_less zero_less_iff_neq_zero)
  qed
  from this [of i j] this [of j i] show ?thesis using assms by (cases "i \<le> j") simp_all
qed

lemma unat_sub_Suc: "h \<noteq> t \<Longrightarrow> unat (t - h) = Suc (unat (t - (h + 1)))" for t h :: u16
proof -
  assume "h \<noteq> t"
  then have "t - h \<noteq> 0" by simp
  then have "unat (t - h - 1) = unat (t - h) - 1" "0 < unat (t - h)"
    by (simp_all add: unat_minus_one unat_gt_0)
  then show ?thesis by (simp add: diff_diff_eq)
qed

lemma unat_Suc_sub: "unat (t - h) < 65535 \<Longrightarrow> unat (t + 1 - h) = Suc (unat (t - h))" for t h :: u16
proof -
  assume "unat (t - h) < 65535"
  then have "unat (t - h + 1) = Suc (unat (t - h))" by (simp add: unat_word_ariths)
  then show ?thesis by (simp add: diff_add_eq)
qed

subsection \<open>The ring and the kernel\<close>

text \<open>
  The ring, the kernel's head, the buffers the kernel has taken and not yet reported, and those the
  worker holds.
\<close>

record ring_state =
  rs_ring :: raw_buf_ring
  rs_head :: u16
  rs_taken :: "bid list"
  rs_held :: "bid list"

definition entry_at :: "raw_buf_ring \<Rightarrow> u16 \<Rightarrow> buf_ring_entry" where
  "entry_at r p = br_ring r ! unat (p AND mask_of r)"

text \<open>The entries the kernel can take.\<close>

definition window :: "raw_buf_ring \<Rightarrow> u16 \<Rightarrow> buf_ring_entry list" where
  "window r h = map (\<lambda>i. entry_at r (h + word_of_nat i)) [0..<unat (br_tail r - h)]"

definition ring_start :: "raw_buf_ring \<Rightarrow> ring_state" where
  "ring_start r = \<lparr>rs_ring = r, rs_head = 0, rs_taken = [], rs_held = []\<rparr>"

inductive ring_step :: "ring_state \<Rightarrow> ring_state \<Rightarrow> bool" where
  takes: "rs_head s \<noteq> br_tail (rs_ring s) \<Longrightarrow>
    ring_step s (s\<lparr>rs_head := rs_head s + 1,
      rs_taken := rn_bid (entry_at (rs_ring s) (rs_head s)) # rs_taken s\<rparr>)"
| reports: "bid \<in> set (rs_taken s) \<Longrightarrow> get_buf res (Some bid) (rs_ring s) = Some (Inr (Some bx, r)) \<Longrightarrow>
    ring_step s (s\<lparr>rs_ring := r, rs_taken := remove1 bid (rs_taken s), rs_held := bx_bid bx # rs_held s\<rparr>)"
| drops: "bid \<in> set (rs_held s) \<Longrightarrow> dropping_bid bid (rs_ring s) = Some r \<Longrightarrow>
    ring_step s (s\<lparr>rs_ring := r, rs_held := remove1 bid (rs_held s)\<rparr>)"

text \<open>The entry that stands for a buffer, and all buffer ids.\<close>

definition entry_of :: "raw_buf_ring \<Rightarrow> bid \<Rightarrow> buf_ring_entry" where
  "entry_of r bid = \<lparr>rn_addr = br_buffers_addr r + br_buf_len r * ucast bid, rn_len = br_buf_len r, rn_bid = bid\<rparr>"

definition all_bids :: "raw_buf_ring \<Rightarrow> bid list" where
  "all_bids r = map word_of_nat [0..<unat (br_buf_cnt r)]"

text \<open>The constant parts, and the state of the ring.\<close>

definition ring_shape :: "nat \<Rightarrow> raw_buf_ring \<Rightarrow> bool" where
  "ring_shape k r = (k \<le> 15 \<and> br_ring_entries_mask r = mask k \<and> length (br_ring r) = 2 ^ k \<and>
     unat (br_buf_cnt r) \<le> 2 ^ k)"

definition ring_inv :: "nat \<Rightarrow> ring_state \<Rightarrow> bool" where
  "ring_inv k s = (ring_shape k (rs_ring s) \<and> br_local_tail (rs_ring s) = br_tail (rs_ring s) \<and>
     mset (map rn_bid (window (rs_ring s) (rs_head s))) + mset (rs_taken s) + mset (rs_held s) =
       mset (all_bids (rs_ring s)) \<and>
     (\<forall>e \<in> set (window (rs_ring s) (rs_head s)). e = entry_of (rs_ring s) (rn_bid e)))"

lemma length_window [simp]: "length (window r h) = unat (br_tail r - h)"
  by (simp add: window_def)

lemma all_bids_less: "bid \<in> set (all_bids r) \<longleftrightarrow> bid < br_buf_cnt r"
proof
  assume "bid < br_buf_cnt r"
  then have "bid = word_of_nat (unat bid)" "unat bid < unat (br_buf_cnt r)"
    by (simp_all add: word_less_nat_alt)
  then show "bid \<in> set (all_bids r)" unfolding all_bids_def by (metis atLeast0LessThan image_eqI lessThan_iff set_map set_upt)
next
  assume "bid \<in> set (all_bids r)"
  then obtain i where i: "i < unat (br_buf_cnt r)" "bid = word_of_nat i" by (auto simp: all_bids_def)
  have "unat (br_buf_cnt r) < 65536" using unsigned_less [of "br_buf_cnt r"] by simp
  then show "bid < br_buf_cnt r" using i by (simp add: word_less_nat_alt unat_of_nat)
qed

lemma distinct_all_bids: "distinct (all_bids r)"
proof -
  have "unat (br_buf_cnt r) < 65536" using unsigned_less [of "br_buf_cnt r"] by simp
  then have "inj_on (word_of_nat :: nat \<Rightarrow> u16) (set [0..<unat (br_buf_cnt r)])"
    by (intro inj_on_inverseI [where g = unat]) (simp add: unat_of_nat)
  then show ?thesis by (simp add: all_bids_def distinct_map)
qed

lemma window_take:
  assumes "h \<noteq> br_tail r"
  shows "window r h = entry_at r h # window r (h + 1)"
proof -
  have "[0..<Suc m] = 0 # map Suc [0..<m]" for m
    by (simp add: map_Suc_upt upt_conv_Cons del: upt_Suc)
  then have "window r h = map (\<lambda>i. entry_at r (h + word_of_nat i)) (0 # map Suc [0..<unat (br_tail r - (h + 1))])"
    unfolding window_def unat_sub_Suc [OF assms] by simp
  then show ?thesis by (simp add: window_def comp_def add.assoc)
qed

lemma add_entry:
  assumes "ring_shape k r" and "bid < br_buf_cnt r"
  shows "\<exists>r'. buf_ring_add bid r = Some r' \<and> r' = r\<lparr>br_local_tail := br_local_tail r + 1,
    br_ring := (br_ring r)[unat (br_local_tail r AND mask k) := entry_of r bid],
    br_possible_cur := br_possible_cur r + 1\<rparr>"
  using assms by (simp add: buf_ring_add_def stable_ptr_def ring_shape_def mask_of_def entry_of_def Let_def)

lemma window_add:
  assumes s: "ring_shape k r" and t: "br_local_tail r = br_tail r" and b: "bid < br_buf_cnt r"
    and room: "length (window r h) < 2 ^ k"
  shows "\<exists>r'. dropping_bid bid r = Some r' \<and> ring_shape k r' \<and> br_local_tail r' = br_tail r' \<and>
    br_buf_cnt r' = br_buf_cnt r \<and> entry_of r' = entry_of r \<and> window r' h = window r h @ [entry_of r bid]"
proof -
  obtain r1 where a: "buf_ring_add bid r = Some r1" and r1: "r1 = r\<lparr>br_local_tail := br_local_tail r + 1,
      br_ring := (br_ring r)[unat (br_local_tail r AND mask k) := entry_of r bid],
      br_possible_cur := br_possible_cur r + 1\<rparr>"
    using add_entry [OF s b] by blast
  define r' where "r' = buf_ring_sync r1"
  define n where "n = unat (br_tail r - h)"
  have k: "k \<le> 15" "mask_of r' = mask k" "mask_of r = mask k" "length (br_ring r) = 2 ^ k"
    using s by (simp_all add: ring_shape_def mask_of_def r'_def r1 buf_ring_sync_def)
  have tl: "br_tail r = h + word_of_nat n" by (simp add: n_def)
  have nk: "n < 2 ^ k" using room by (simp add: n_def)
  also have "(2 :: nat) ^ k \<le> 2 ^ 15" using k(1) by (intro power_increasing) simp_all
  finally have "n < 65535" by simp
  then have len: "unat (br_tail r' - h) = Suc n"
    using unat_Suc_sub [of "br_tail r" h] t by (simp add: r'_def r1 buf_ring_sync_def n_def)
  have at: "entry_at r' (h + word_of_nat i) = (if i = n then entry_of r bid else entry_at r (h + word_of_nat i))"
    if "i < Suc n" for i
  proof -
    have "i < 2 ^ k" using that nk by simp
    then have "(unat h + n) mod 2 ^ k = (unat h + i) mod 2 ^ k \<longleftrightarrow> i = n"
      using index_inj [of "unat h" i "2 ^ k" n] nk by auto
    moreover have "br_ring r' = (br_ring r)[(unat h + n) mod 2 ^ k := entry_of r bid]"
      using t tl by (simp add: r'_def r1 buf_ring_sync_def index_at [OF k(1)])
    ultimately show ?thesis
      using k(4) by (auto simp: entry_at_def k(2,3) index_at [OF k(1)] nth_list_update)
  qed
  have "window r' h = map (\<lambda>i. entry_at r' (h + word_of_nat i)) [0..<n] @ [entry_at r' (h + word_of_nat n)]"
    by (simp add: window_def len)
  also have "map (\<lambda>i. entry_at r' (h + word_of_nat i)) [0..<n] = window r h"
    unfolding window_def n_def [symmetric] by (intro map_cong refl) (simp add: at)
  finally have "window r' h = window r h @ [entry_of r bid]" by (simp add: at)
  moreover have "dropping_bid bid r = Some r'" by (simp add: dropping_bid_def a r'_def)
  moreover have "ring_shape k r'" "br_local_tail r' = br_tail r'" "br_buf_cnt r' = br_buf_cnt r" "entry_of r' = entry_of r"
    using s by (simp_all add: ring_shape_def r'_def r1 buf_ring_sync_def entry_of_def fun_eq_iff)
  ultimately show ?thesis by blast
qed

subsection \<open>Every state reached\<close>

definition ring_reached :: "nat \<Rightarrow> raw_buf_ring \<Rightarrow> ring_state \<Rightarrow> bool" where
  "ring_reached k r s = (ring_inv k s \<and> br_buf_cnt (rs_ring s) = br_buf_cnt r \<and> entry_of (rs_ring s) = entry_of r)"

lemma ring_room:
  assumes "ring_inv k s" and "bid \<in> set (rs_held s)"
  shows "length (window (rs_ring s) (rs_head s)) < 2 ^ k" "bid < br_buf_cnt (rs_ring s)"
proof -
  have m: "mset (map rn_bid (window (rs_ring s) (rs_head s))) + mset (rs_taken s) + mset (rs_held s) =
      mset (all_bids (rs_ring s))" using assms(1) by (simp add: ring_inv_def)
  have "length (window (rs_ring s) (rs_head s)) + length (rs_taken s) + length (rs_held s) = unat (br_buf_cnt (rs_ring s))"
    using arg_cong [OF m, of size] by (simp add: all_bids_def)
  moreover have "0 < length (rs_held s)" using assms(2) by auto
  moreover have "unat (br_buf_cnt (rs_ring s)) \<le> 2 ^ k" using assms(1) by (simp add: ring_inv_def ring_shape_def)
  ultimately show "length (window (rs_ring s) (rs_head s)) < 2 ^ k" by linarith
  have "set (rs_held s) \<subseteq> set (all_bids (rs_ring s))" using arg_cong [OF m, of set_mset] by auto
  then show "bid < br_buf_cnt (rs_ring s)" using assms(2) all_bids_less by blast
qed

lemma held_returns:
  assumes "ring_inv k s" and "bid \<in> set (rs_held s)"
  shows "\<exists>r'. dropping_bid bid (rs_ring s) = Some r' \<and> ring_shape k r' \<and> br_local_tail r' = br_tail r' \<and>
    br_buf_cnt r' = br_buf_cnt (rs_ring s) \<and> entry_of r' = entry_of (rs_ring s) \<and>
    window r' (rs_head s) = window (rs_ring s) (rs_head s) @ [entry_of (rs_ring s) bid]"
  using window_add [OF _ _ ring_room(2) [OF assms] ring_room(1) [OF assms]] assms(1)
  by (simp add: ring_inv_def)

lemma entry_of_bid [simp]: "rn_bid (entry_of r bid) = bid"
  by (simp add: entry_of_def)

lemma remove1_mset: "x \<in> set xs \<Longrightarrow> add_mset x (mset (remove1 x xs)) = mset xs"
  by simp

lemma metric_window [simp]:
  "window (metric_getting_another r) h = window r h" "ring_shape k (metric_getting_another r) = ring_shape k r"
  "br_local_tail (metric_getting_another r) = br_local_tail r" "br_tail (metric_getting_another r) = br_tail r"
  "br_buf_cnt (metric_getting_another r) = br_buf_cnt r" "entry_of (metric_getting_another r) = entry_of r"
  "all_bids (metric_getting_another r) = all_bids r"
  by (simp_all add: metric_getting_another_def Let_def window_def entry_at_def mask_of_def ring_shape_def
      entry_of_def all_bids_def fun_eq_iff)

lemma ring_step_ok:
  assumes "ring_step s s'" and "ring_reached k r s"
  shows "ring_reached k r s'"
  using assms
proof (induction rule: ring_step.induct)
  case (takes s)
  then show ?case
    using window_take [OF takes(1)] by (auto simp: ring_reached_def ring_inv_def)
next
  case (reports bid s res bx r1)
  then have r1: "r1 = metric_getting_another (rs_ring s)" "bx_bid bx = bid"
    by (auto simp: get_buf_def split: if_splits)
  have "add_mset bid (mset (remove1 bid (rs_taken s))) = mset (rs_taken s)"
    using reports(1) by simp
  then show ?case
    using reports(3) unfolding ring_reached_def ring_inv_def r1
    by (simp del: mset_remove1) (metis union_mset_add_mset_left union_mset_add_mset_right)
next
  case (drops bid s r1)
  then have inv: "ring_inv k s" by (simp add: ring_reached_def)
  from held_returns [OF inv drops(1)] drops(2)
  have r1: "ring_shape k r1" "br_local_tail r1 = br_tail r1" "br_buf_cnt r1 = br_buf_cnt (rs_ring s)"
    "entry_of r1 = entry_of (rs_ring s)"
    "window r1 (rs_head s) = window (rs_ring s) (rs_head s) @ [entry_of (rs_ring s) bid]" by auto
  have "all_bids r1 = all_bids (rs_ring s)" by (simp add: all_bids_def r1(3))
  moreover have "add_mset bid (mset (remove1 bid (rs_held s))) = mset (rs_held s)"
    using drops(1) by simp
  ultimately show ?case
    using drops(3) unfolding ring_reached_def ring_inv_def
    by (simp add: r1 del: mset_remove1) (metis union_mset_add_mset_left union_mset_add_mset_right)
qed

subsection \<open>Building\<close>

text \<open>Adding buffers and publishing them at the end is publishing each of them.\<close>

lemma sync_add: "map_option buf_ring_sync (buf_ring_add bid r) = dropping_bid bid (buf_ring_sync r)"
  by (simp add: dropping_bid_def buf_ring_add_def buf_ring_sync_def stable_ptr_def mask_of_def Let_def)

lemma sync_add_all:
  "map_option buf_ring_sync (add_all (bid # bids) r) =
   Option.bind (buf_ring_add bid r) (\<lambda>r'. map_option buf_ring_sync (add_all bids r'))"
  by (cases "buf_ring_add bid r") simp_all

lemma sync_idem [simp]: "buf_ring_sync (buf_ring_sync r) = buf_ring_sync r"
  by (simp add: buf_ring_sync_def)

lemma add_all_window:
  assumes "ring_shape k (buf_ring_sync r)" and "window (buf_ring_sync r) 0 = map (entry_of r) added"
    and "added @ bids = all_bids r"
  shows "\<exists>r'. map_option buf_ring_sync (add_all bids r) = Some r' \<and> ring_shape k r' \<and>
    br_local_tail r' = br_tail r' \<and> window r' 0 = map (entry_of r') (all_bids r')"
  using assms
proof (induction bids arbitrary: r added)
  case Nil
  then show ?case by (auto simp: buf_ring_sync_def entry_of_def all_bids_def fun_eq_iff)
next
  case (Cons bid bids)
  have e: "entry_of (buf_ring_sync r) = entry_of r" "br_buf_cnt (buf_ring_sync r) = br_buf_cnt r"
    by (simp_all add: buf_ring_sync_def entry_of_def fun_eq_iff)
  have "bid \<in> set (all_bids r)" using Cons.prems(3) by (metis in_set_conv_decomp)
  then have b: "bid < br_buf_cnt (buf_ring_sync r)" using all_bids_less e(2) by metis
  have "length added < length (all_bids r)" unfolding Cons.prems(3) [symmetric] by simp
  also have "\<dots> \<le> 2 ^ k" using Cons.prems(1) e(2) by (simp add: all_bids_def ring_shape_def)
  finally have room: "length (window (buf_ring_sync r) 0) < 2 ^ k" unfolding Cons.prems(2) by simp
  have t: "br_local_tail (buf_ring_sync r) = br_tail (buf_ring_sync r)" by (simp add: buf_ring_sync_def)
  obtain r2 where r2: "dropping_bid bid (buf_ring_sync r) = Some r2" "ring_shape k r2"
      "br_buf_cnt r2 = br_buf_cnt r" "entry_of r2 = entry_of r"
      "window r2 0 = window (buf_ring_sync r) 0 @ [entry_of r bid]"
    using window_add [OF Cons.prems(1) t b room] unfolding e by blast
  then obtain r1 where r1: "buf_ring_add bid r = Some r1" "buf_ring_sync r1 = r2"
    using sync_add [of bid r] by auto
  have c: "br_buf_cnt r1 = br_buf_cnt r" "entry_of r1 = entry_of r"
    using r1(2) r2(3,4) by (auto simp: buf_ring_sync_def entry_of_def fun_eq_iff)
  have "\<exists>r'. map_option buf_ring_sync (add_all bids r1) = Some r' \<and> ring_shape k r' \<and>
      br_local_tail r' = br_tail r' \<and> window r' 0 = map (entry_of r') (all_bids r')"
  proof (rule Cons.IH)
    show "ring_shape k (buf_ring_sync r1)" using r1(2) r2(2) by simp
    show "window (buf_ring_sync r1) 0 = map (entry_of r1) (added @ [bid])"
      using r1(2) r2(5) Cons.prems(2) c(2) by simp
    show "(added @ [bid]) @ bids = all_bids r1" using Cons.prems(3) by (simp add: all_bids_def c(1))
  qed
  then show ?case by (simp add: r1(1))
qed

lemma new_ring_ok:
  assumes "raw_buf_ring_new b registers = Some (Inr r)" and "bd_ring_entries b = 2 ^ k" "k \<le> 15"
  shows "ring_shape k r \<and> br_local_tail r = br_tail r \<and> window r 0 = map (entry_of r) (all_bids r)"
proof -
  let ?ring_size = "align_up (bd_buf_align b) (ENTRY_SIZE * ucast (bd_ring_entries b) + bd_ring_pad b)"
  have cnt: "bd_buf_cnt b \<le> bd_ring_entries b"
    using assms(1) by (auto simp: raw_buf_ring_new_def Let_def not_less split: if_splits)
  have "(2 :: nat) ^ k < 2 ^ 16" using assms(3) by (intro power_strict_increasing) simp_all
  then have "unat (word_of_nat (2 ^ k) :: u16) = 2 ^ k" unfolding unat_of_nat by simp
  then have u: "unat (2 ^ k :: u16) = 2 ^ k" by simp
  obtain layout where l: "from_size_align (align_up (bd_bufend_align b) (?ring_size + bd_buf_len b * ucast (bd_buf_cnt b)))
      (next_power_of_two (bd_page_size b)) = Some layout"
    using assms(1) by (auto simp: raw_buf_ring_new_def Let_def bind_eq_Some_conv split: if_splits)
  define r0 where "r0 = \<lparr>br_bgid = bd_bgid b, br_ring_entries_mask = bd_ring_entries b - 1, br_buf_cnt = bd_buf_cnt b,
      br_buf_len = bd_buf_len b, br_layout = layout,
      br_ring = replicate (unat (bd_ring_entries b)) \<lparr>rn_addr = 0, rn_len = 0, rn_bid = 0\<rparr>,
      br_buffers_addr = ?ring_size, br_local_tail = 0, br_tail = 0, br_registered = False,
      br_possible_cur = 0, br_possible_min = bd_buf_cnt b\<rparr>"
  have s0: "buf_ring_sync r0 = r0" by (simp add: buf_ring_sync_def r0_def)
  have "ring_shape k r0"
    using assms(2,3) cnt u by (simp add: ring_shape_def r0_def mask_eq_exp_minus_1 word_le_nat_alt)
  then have "\<exists>r'. map_option buf_ring_sync (add_all (all_bids r0) r0) = Some r' \<and> ring_shape k r' \<and>
      br_local_tail r' = br_tail r' \<and> window r' 0 = map (entry_of r') (all_bids r')"
    by (intro add_all_window [where added = "[]"]) (simp_all add: s0, simp add: r0_def window_def)
  then obtain r' where r': "map_option buf_ring_sync (add_all (all_bids r0) r0) = Some r'" "ring_shape k r'"
      "br_local_tail r' = br_tail r'" "window r' 0 = map (entry_of r') (all_bids r')" by blast
  have "r = r' \<or> r = r'\<lparr>br_registered := True\<rparr>"
    using assms(1) r'(1) unfolding raw_buf_ring_new_def Let_def l bind.simps r0_def [symmetric] all_bids_def
    by (auto simp: ring_register_def r0_def split: if_splits)
  then show ?thesis
    using r'(2-4) by (auto simp: ring_shape_def window_def entry_at_def mask_of_def entry_of_def all_bids_def)
qed

lemma build_ok:
  assumes "ring_build b registers = Some (Inr r)"
  shows "\<exists>k. ring_reached k r (ring_start r)"
proof -
  define b1 where "b1 = (if bd_buf_cnt b = 0 \<or> bd_ring_entries b < bd_buf_cnt b
      then b\<lparr>bd_buf_cnt := max (bd_ring_entries b) (bd_buf_cnt b),
        bd_ring_entries := max (bd_ring_entries b) (bd_buf_cnt b)\<rparr> else b)"
  have le: "bd_ring_entries b1 \<le> 32768"
    and n: "raw_buf_ring_new (b1\<lparr>bd_ring_entries := next_power_of_two (bd_ring_entries b1)\<rparr>) registers = Some (Inr r)"
    using assms by (simp_all add: ring_build_def Let_def b1_def [symmetric] not_less split: if_splits)
  obtain k where k: "next_power_of_two (bd_ring_entries b1) = 2 ^ k" "k \<le> 15"
    using next_power_16 [OF le] by blast
  from new_ring_ok [OF n _ k(2)] k(1)
  have "ring_shape k r \<and> br_local_tail r = br_tail r \<and> window r 0 = map (entry_of r) (all_bids r)" by simp
  then show ?thesis
    by (intro exI [of _ k]) (auto simp: ring_reached_def ring_inv_def ring_start_def comp_def)
qed

lemma steps_ok: "ring_step\<^sup>*\<^sup>* s s' \<Longrightarrow> ring_reached k r s \<Longrightarrow> ring_reached k r s'"
  by (induction rule: rtranclp_induct) (auto intro: ring_step_ok)

subsection \<open>Properties\<close>

text \<open>C15. Receive buffers are never shared. From a ring that was built, through any interleaving of the kernel
  taking entries, completions being handled and buffers being dropped, every buffer is in exactly
  one place: in the ring, with the kernel, or with the worker. The ring's entries point to their own
  buffers, and a held buffer can always be returned: that does not panic, and it puts one entry
  behind those the kernel has not taken, of which none is overwritten, also where the positions wrap
  around.\<close>
theorem ring_buffers_are_never_shared:
  assumes "ring_build b registers = Some (Inr r)" and "ring_step\<^sup>*\<^sup>* (ring_start r) s"
  shows "mset (map rn_bid (window (rs_ring s) (rs_head s))) + mset (rs_taken s) + mset (rs_held s) =
      mset (map word_of_nat [0..<unat (br_buf_cnt r)]) \<and>
    distinct (map rn_bid (window (rs_ring s) (rs_head s)) @ rs_taken s @ rs_held s) \<and>
    (\<forall>e \<in> set (window (rs_ring s) (rs_head s)). e = entry_of r (rn_bid e)) \<and>
    (\<forall>bid \<in> set (rs_held s). \<exists>r'. dropping_bid bid (rs_ring s) = Some r' \<and>
      window r' (rs_head s) = window (rs_ring s) (rs_head s) @ [entry_of r bid])"
proof -
  obtain k where k: "ring_reached k r s" using build_ok [OF assms(1)] steps_ok [OF assms(2)] by blast
  then have m: "mset (map rn_bid (window (rs_ring s) (rs_head s)) @ rs_taken s @ rs_held s) = mset (all_bids r)"
    by (simp add: ring_reached_def ring_inv_def all_bids_def add.assoc)
  have "distinct (map rn_bid (window (rs_ring s) (rs_head s)) @ rs_taken s @ rs_held s)"
    using mset_eq_imp_distinct_iff [OF m] distinct_all_bids by blast
  moreover have "\<forall>bid \<in> set (rs_held s). \<exists>r'. dropping_bid bid (rs_ring s) = Some r' \<and>
      window r' (rs_head s) = window (rs_ring s) (rs_head s) @ [entry_of r bid]"
  proof
    fix bid assume "bid \<in> set (rs_held s)"
    moreover have "ring_inv k s" "entry_of (rs_ring s) = entry_of r" using k by (simp_all add: ring_reached_def)
    ultimately show "\<exists>r'. dropping_bid bid (rs_ring s) = Some r' \<and>
        window r' (rs_head s) = window (rs_ring s) (rs_head s) @ [entry_of r bid]"
      using held_returns [of k s bid] by auto
  qed
  moreover have "\<forall>e \<in> set (window (rs_ring s) (rs_head s)). e = entry_of r (rn_bid e)"
    using k by (auto simp: ring_reached_def ring_inv_def)
  ultimately show ?thesis using m by (simp add: all_bids_def add.assoc)
qed

text \<open>A ring of two buffers, of which the kernel has taken one and the worker holds it.\<close>

definition sample_builder :: ring_builder where
  "sample_builder = (builder_new 0)\<lparr>bd_ring_entries := 2, bd_buf_len := 512\<rparr>"

definition sample_ring :: raw_buf_ring where
  "sample_ring = \<lparr>br_bgid = 0, br_ring_entries_mask = 1, br_buf_cnt = 2, br_buf_len = 512,
     br_layout = (1056, 4096),
     br_ring = [\<lparr>rn_addr = 32, rn_len = 512, rn_bid = 0\<rparr>, \<lparr>rn_addr = 544, rn_len = 512, rn_bid = 1\<rparr>],
     br_buffers_addr = 32, br_local_tail = 2, br_tail = 2, br_registered = True,
     br_possible_cur = 2, br_possible_min = 2\<rparr>"

lemma sample_ring_built: "ring_build sample_builder True = Some (Inr sample_ring)"
proof -
  have p: "pow2_from (Suc 0) 2 = 2" "pow2_from (Suc 0) 4096 = 4096"
    by (simp_all add: pow2_from.simps)
  have n: "next_power_of_two (2 :: u16) = 2" "next_power_of_two (4096 :: u64) = 4096"
    by (simp_all add: next_power_of_two_def p)
  have two: "replicate 2 e = [e, e]" for e :: buf_ring_entry by (simp add: numeral_2_eq_2)
  show ?thesis
    by (simp add: ring_build_def sample_builder_def builder_new_def raw_buf_ring_new_def Let_def n align_up_def
        ENTRY_SIZE_def from_size_align_def buf_ring_add_def stable_ptr_def mask_of_def ring_register_def
        buf_ring_sync_def sample_ring_def upt_rec two)
qed

lemma ring_buffers_are_never_shared_witness:
  "\<exists>s :: ring_state. rs_held s = [0] \<and> mset (map rn_bid (window (rs_ring s) (rs_head s))) + mset (rs_taken s) + mset (rs_held s) =
      mset (map word_of_nat [0..<unat (br_buf_cnt sample_ring)]) \<and>
    (\<forall>bid \<in> set (rs_held s). \<exists>r'. dropping_bid bid (rs_ring s) = Some r' \<and>
      window r' (rs_head s) = window (rs_ring s) (rs_head s) @ [entry_of sample_ring bid])"
proof -
  define s1 where "s1 = (ring_start sample_ring)\<lparr>rs_head := 1, rs_taken := [0]\<rparr>"
  define s2 where "s2 = s1\<lparr>rs_ring := metric_getting_another sample_ring, rs_taken := [], rs_held := [0]\<rparr>"
  have "ring_step (ring_start sample_ring) s1"
    using ring_step.takes [of "ring_start sample_ring"]
    by (simp add: ring_start_def sample_ring_def s1_def entry_at_def mask_of_def)
  moreover have "ring_step s1 s2"
    using ring_step.reports [of 0 s1 100 "\<lparr>bx_bid = 0, bx_len = 100\<rparr>" "metric_getting_another sample_ring"]
    by (simp add: s1_def s2_def ring_start_def get_buf_def sample_ring_def)
  ultimately have "ring_step\<^sup>*\<^sup>* (ring_start sample_ring) s2" by simp
  from ring_buffers_are_never_shared [OF sample_ring_built this] show ?thesis
    by (intro exI [of _ s2]) (simp add: s2_def)
qed

end
