(* ===== verification/Uring_Spec.thy ===== *)
theory Uring_Spec
  imports Uring Udp_Worker_Spec Buf_Ring_Spec
begin

text \<open>
  What the \<open>io_uring\<close> socket worker promises, together with a kernel that completes what was
  submitted: it answers like the polling worker, the responses leave in their order, a buffer the
  kernel reads is not touched, the sockets and the timer stay armed, and a round panics only where
  entering the kernel fails. Its receive buffers are too small for the scrapes the settings allow.
\<close>

subsection \<open>Answers\<close>

text \<open>Handling a request neither reads nor changes the counters.\<close>

lemma record_violation_statistics:
  "record_worker_violation xc re ip reason (wk\<lparr>wk_statistics := s\<rparr>) =
   (record_worker_violation xc re ip reason wk)\<lparr>wk_statistics := s\<rparr>"
  by (simp add: record_worker_violation_def case_prod_unfold Let_def split: option.split)

lemma checks_statistics:
  "is_list_banned cf re src (wk\<lparr>wk_statistics := s\<rparr>) = is_list_banned cf re src wk"
  "is_private_ip_blocked cf src (wk\<lparr>wk_statistics := s\<rparr>) = is_private_ip_blocked cf src wk"
  by (simp_all add: is_list_banned_def is_private_ip_blocked_def)

lemma run_checks_statistics:
  "run_security_checks cf xc re src pid (wk\<lparr>wk_statistics := s\<rparr>) =
   map_prod id (\<lambda>w. w\<lparr>wk_statistics := s\<rparr>) (run_security_checks cf xc re src pid wk)"
  by (simp add: run_security_checks_def checks_statistics record_violation_statistics Let_def
      split: option.split)

lemma announced_statistics:
  "wk\<lparr>wk_statistics := s, wk_torrent_maps := maps, wk_messages := ms, wk_rng := r\<rparr> =
   wk\<lparr>wk_torrent_maps := maps, wk_messages := ms, wk_rng := r, wk_statistics := s\<rparr>"
  by simp

lemma handle_request_statistics:
  "handle_request cf xc re req src (wk\<lparr>wk_statistics := s\<rparr>) =
   map_option (\<lambda>(ans, w). (ans, w\<lparr>wk_statistics := s\<rparr>)) (handle_request cf xc re req src wk)"
  by (simp add: handle_request_def handle_announce_def checks_statistics run_checks_statistics Let_def
      case_prod_unfold map_prod_def option.map_comp comp_def announced_statistics split: request.split)

lemma uring_handle_request:
  "uring_handle_request cf xc re req src wk =
   map_option (\<lambda>(ans, w). (map_option (Pair src) ans, w)) (handle_request cf xc re req src wk)"
  by (simp add: uring_handle_request_def handle_request_def handle_announce_def Let_def
      case_prod_unfold option.map_comp comp_def split: request.split)

text \<open>An answer with its address against one without, and the same worker but for the counters.\<close>

definition same_answer ::
  "canonical_socket_addr \<Rightarrow> (canonical_socket_addr \<times> response) option \<times> ('r, 'h) udp_worker \<Rightarrow>
   response option \<times> ('r, 'h) udp_worker \<Rightarrow> bool" where
  "same_answer src a b = (fst a = map_option (Pair src) (fst b) \<and> same_service (snd a) (snd b))"

lemma count_received_statistics: "\<exists>s. count_received cf addr n m wk = wk\<lparr>wk_statistics := s\<rparr>"
  by (cases wk) (simp add: count_received_def)

lemma received_statistics: "\<exists>s. received cf addr n wk = wk\<lparr>wk_statistics := s\<rparr>"
  by (cases wk) (simp add: received_def)

lemma requested_statistics: "\<exists>s. requested cf addr (wk\<lparr>wk_statistics := t\<rparr>) = wk\<lparr>wk_statistics := s\<rparr>"
  by (cases wk) (simp add: requested_def)

lemma same_service_both: "same_service (wk\<lparr>wk_statistics := s\<rparr>) (wk\<lparr>wk_statistics := t\<rparr>)"
  by (simp add: same_service_def)

lemma handle_request_same:
  "rel_option (same_answer src)
     (uring_handle_request cf xc re req src (wk\<lparr>wk_statistics := s\<rparr>))
     (handle_request cf xc re req src (wk\<lparr>wk_statistics := t\<rparr>))"
  unfolding uring_handle_request handle_request_statistics
  by (cases "handle_request cf xc re req src wk") (auto simp: same_answer_def same_service_both)

definition recv_name :: "bool \<Rightarrow> bytes \<Rightarrow> socket_addr" where
  "recv_name v4 name = (if v4 then sockaddr_in name else sockaddr_in6 name)"

lemma answer_alike:
  assumes "ux_parse_msg ux v4 buffer = Some msg"
    and "\<not> rm_name_truncated msg" and "\<not> rm_payload_truncated msg"
    and "length (rm_payload msg) \<le> BUFFER_SIZE"
  shows "rel_option (same_answer (canonical_new (recv_name v4 (rm_name msg))))
    (answer_buffer cf ux re v4 buffer wk)
    (datagram_answer cf (ux_udp ux) re (rm_payload msg) (recv_name v4 (rm_name msg)) wk)"
proof -
  let ?addr = "recv_name v4 (rm_name msg)"
  let ?m = "max_scrape_torrents (uc_protocol (wc_swarm cf))"
  have parse: "recv_parse (ux_parse_msg ux) v4 ?m buffer =
     (if socket_port ?addr = 0 then Inl InvalidSocketAddress
      else map_err (\<lambda>e. RecvRequestParseError e (canonical_new ?addr))
        (and_then (parse_request (rm_payload msg) ?m) (\<lambda>r. Inr (r, canonical_new ?addr))))"
    using assms(1-3) by (simp add: recv_parse_def recv_name_def Let_def)
  obtain s0 where s0: "received cf (canonical_new ?addr) (length (rm_payload msg)) wk = wk\<lparr>wk_statistics := s0\<rparr>"
    using received_statistics by blast
  show ?thesis
  proof (cases "socket_port ?addr = 0")
    case True
    then show ?thesis
      using assms(4) s0 by (simp add: answer_buffer_def parse datagram_answer_def same_answer_def)
  next
    case port: False
    show ?thesis
    proof (cases "parse_request (rm_payload msg) ?m")
      case (Inl e)
      then show ?thesis
        using port assms(4) s0 count_received_statistics [of cf "canonical_new ?addr" "length buffer" 0 wk]
        by (cases e) (auto simp: answer_buffer_def parse datagram_answer_def same_answer_def Let_def
          same_service_both)
    next
      case (Inr req)
      obtain s where s: "count_received cf (canonical_new ?addr) (length buffer) 1 wk = wk\<lparr>wk_statistics := s\<rparr>"
        using count_received_statistics by blast
      obtain t where t: "requested cf (canonical_new ?addr) (wk\<lparr>wk_statistics := s0\<rparr>) = wk\<lparr>wk_statistics := t\<rparr>"
        using requested_statistics by blast
      show ?thesis
        using port assms(4) Inr s t s0 handle_request_same
        by (simp add: answer_buffer_def parse datagram_answer_def Let_def)
    qed
  qed
qed

text \<open>C16. The two socket workers answer alike. What the io_uring worker makes of a receive buffer that was not
  cut is what the polling worker makes of the datagram in it: no answer or the same one, to the
  canonical form of its source, with the same effects on everything but the counters.\<close>

theorem backends_answer_alike:
  assumes "ux_parse_msg ux v4 buffer = Some msg"
    and "\<not> rm_name_truncated msg" and "\<not> rm_payload_truncated msg"
    and "length (rm_payload msg) \<le> BUFFER_SIZE"
  shows "rel_option (same_answer (canonical_new (recv_name v4 (rm_name msg))))
    (answer_buffer cf ux re v4 buffer wk)
    (datagram_answer cf (ux_udp ux) re (rm_payload msg) (recv_name v4 (rm_name msg)) wk)"
  by (rule answer_alike [OF assms])

subsection \<open>Send buffers\<close>

lemma first_free_some: "first_free bs = Some i \<Longrightarrow> i < length bs \<and> sb_free (bs ! i)"
  by (induction bs arbitrary: i) (auto split: if_splits)

lemma next_free_some:
  "next_free_index s = Some i \<Longrightarrow> i < length (sbs_buffers s) \<and> sb_free (sbs_buffers s ! i)"
  by (auto simp: next_free_index_def dest!: first_free_some split: if_splits)

text \<open>Taking free buffers: those that were in use stay as they are.\<close>

definition sends_added :: "nat list \<Rightarrow> send_buffers \<Rightarrow> send_buffers \<Rightarrow> bool" where
  "sends_added js s s' = (length (sbs_buffers s') = length (sbs_buffers s) \<and> distinct js \<and>
     (\<forall>i \<in> set js. i < length (sbs_buffers s) \<and> sb_free (sbs_buffers s ! i) \<and> \<not> sb_free (sbs_buffers s' ! i)) \<and>
     (\<forall>i < length (sbs_buffers s). i \<notin> set js \<longrightarrow> sb_free (sbs_buffers s' ! i) = sb_free (sbs_buffers s ! i)) \<and>
     (\<forall>i < length (sbs_buffers s). \<not> sb_free (sbs_buffers s ! i) \<longrightarrow> sbs_buffers s' ! i = sbs_buffers s ! i))"

lemma sends_added_refl [simp]: "sends_added [] s s"
  by (simp add: sends_added_def)

lemma sends_added_trans:
  assumes "sends_added js s s1" and "sends_added ks s1 s2"
  shows "sends_added (js @ ks) s s2"
proof -
  have "i \<notin> set ks" if "i \<in> set js" for i using assms that unfolding sends_added_def by blast
  then have "distinct (js @ ks)" using assms by (auto simp: sends_added_def)
  then show ?thesis using assms unfolding sends_added_def by (auto; metis)
qed

lemma prepare_entry_cases:
  assumes "prepare_entry v4 res addr s = Some (p, s')"
  obtains "p = NoBuffers" "s' = s" "next_free_index s = None"
  | "p = SerializationFailed" "RESPONSE_BUF_LEN < length (write_response res)" "sends_added [] s s'"
  | i where "p = Prepared i" "length (write_response res) \<le> RESPONSE_BUF_LEN" "sends_added [i] s s'"
      "send_name v4 addr = Some (sb_name (sbs_buffers s' ! i))" "sb_bytes (sbs_buffers s' ! i) = write_response res"
proof (cases "next_free_index s")
  case None
  then show ?thesis using assms that(1) by (simp add: prepare_entry_def)
next
  case (Some i)
  note f = next_free_some [OF Some]
  obtain name where n: "send_name v4 addr = Some name"
    using assms Some by (auto simp: prepare_entry_def prepare_buffer_def)
  show ?thesis
  proof (cases "length (write_response res) \<le> RESPONSE_BUF_LEN")
    case True
    then show ?thesis
      using assms Some n f that(3) [of i]
      by (auto simp: prepare_entry_def prepare_buffer_def Let_def sends_added_def nth_list_update)
  next
    case False
    then show ?thesis
      using assms Some n f that(2)
      by (auto simp: prepare_entry_def prepare_buffer_def Let_def sends_added_def nth_list_update)
  qed
qed

subsection \<open>Submitting\<close>

fun sends :: "sqe list \<Rightarrow> nat list" where
  "sends [] = []"
| "sends (SqeSend i v4 # es) = i # sends es"
| "sends (SqeRecv v4 # es) = sends es"
| "sends (SqePulse # es) = sends es"

lemma sends_append [simp]: "sends (es @ fs) = sends es @ sends fs"
  by (induction es rule: sends.induct) simp_all

text \<open>The send of a buffer that is in use and holds a response, with the address of its receiver.\<close>

fun carries :: "('r, 'h) uring_worker \<Rightarrow> sqe \<Rightarrow> canonical_socket_addr \<times> response \<Rightarrow> bool" where
  "carries w (SqeSend i v4) (addr, res) = (send_to_ipv4_socket addr w = Some v4 \<and>
     send_name v4 addr = Some (sb_name (sbs_buffers (ug_send w) ! i)) \<and>
     sb_bytes (sbs_buffers (ug_send w) ! i) = write_response res)"
| "carries w _ _ = False"

definition fits_buffer :: "canonical_socket_addr \<times> response \<Rightarrow> bool" where
  "fits_buffer ar = (length (write_response (snd ar)) \<le> RESPONSE_BUF_LEN)"

text \<open>What enqueueing does to a worker: \<open>k\<close> of at most \<open>n\<close> responses are taken from the front.\<close>

definition enqueued :: "nat \<Rightarrow> nat \<Rightarrow> sqe list \<Rightarrow> ('r, 'h) uring_worker \<Rightarrow> ('r, 'h) uring_worker \<Rightarrow> bool" where
  "enqueued n k es w w' = (k \<le> n \<and>
     ug_local_responses w' = drop k (ug_local_responses w) \<and> ug_service w' = ug_service w \<and>
     ug_has_ipv4 w' = ug_has_ipv4 w \<and> ug_has_ipv6 w' = ug_has_ipv6 w \<and> ug_ring w' = ug_ring w \<and>
     ug_resubmit w' = ug_resubmit w \<and>
     sends_added (sends es) (ug_send w) (ug_send w') \<and>
     list_all2 (carries w') es (filter fits_buffer (take k (ug_local_responses w))) \<and>
     (k < n \<longrightarrow> drop k (ug_local_responses w) \<noteq> [] \<longrightarrow> next_free_index (ug_send w') = None))"

lemma send_to_congruence:
  "ug_has_ipv4 w' = ug_has_ipv4 w \<Longrightarrow> ug_has_ipv6 w' = ug_has_ipv6 w \<Longrightarrow>
   send_to_ipv4_socket addr w' = send_to_ipv4_socket addr w"
  by (simp add: send_to_ipv4_socket_def)

lemma enqueue_spec:
  "enqueue_responses n w = Some (es, w') \<Longrightarrow> \<exists>k. enqueued n k es w w'"
proof (induction n arbitrary: w es)
  case 0
  then show ?case by (simp add: enqueued_def)
next
  case (Suc n)
  show ?case
  proof (cases "ug_local_responses w")
    case Nil
    then show ?thesis using Suc.prems by (auto simp: enqueued_def intro: exI [of _ 0])
  next
    case (Cons ar rest)
    obtain addr res where ar: "ar = (addr, res)" by fastforce
    obtain v4 p send where v4: "send_to_ipv4_socket addr w = Some v4"
      and p: "prepare_entry v4 res addr (ug_send w) = Some (p, send)"
      using Suc.prems Cons ar by (auto simp: bind_eq_Some_conv)
    let ?w1 = "w\<lparr>ug_send := send, ug_local_responses := rest\<rparr>"
    from p show ?thesis
    proof (cases rule: prepare_entry_cases)
      case 1
      then show ?thesis using Suc.prems Cons ar v4 p by (auto simp: enqueued_def intro: exI [of _ 0])
    next
      case 2
      then have "enqueue_responses n ?w1 = Some (es, w')" using Suc.prems Cons ar v4 p by simp
      from Suc.IH [OF this] obtain k where k: "enqueued n k es ?w1 w'" by blast
      moreover have "\<not> fits_buffer ar" using 2 by (simp add: fits_buffer_def ar)
      ultimately have "enqueued (Suc n) (Suc k) es w w'"
        using sends_added_trans [OF 2(3), of "sends es" "ug_send w'"] by (auto simp: enqueued_def Cons)
      then show ?thesis by blast
    next
      case (3 i)
      then obtain fs where fs: "enqueue_responses n ?w1 = Some (fs, w')" "es = SqeSend i v4 # fs"
        using Suc.prems Cons ar v4 p by auto
      from Suc.IH [OF fs(1)] obtain k where k: "enqueued n k fs ?w1 w'" by blast
      have s: "sends_added (i # sends fs) (ug_send w) (ug_send w')"
        using sends_added_trans [OF 3(3), of "sends fs" "ug_send w'"] k by (simp add: enqueued_def)
      have "sbs_buffers (ug_send w') ! i = sbs_buffers send ! i"
        using k 3(3) by (auto simp: enqueued_def sends_added_def)
      moreover have "send_to_ipv4_socket addr w' = Some v4"
        using k v4 send_to_congruence [of w' w addr] by (simp add: enqueued_def)
      ultimately have "carries w' (SqeSend i v4) ar" using 3 by (simp add: ar)
      moreover have "fits_buffer ar" using 3 by (simp add: fits_buffer_def ar)
      ultimately have "enqueued (Suc n) (Suc k) es w w'"
        using k s by (auto simp: enqueued_def Cons fs(2))
      then show ?thesis by blast
    qed
  qed
qed

lemma submit_filled: "uring_submit capacity entered w = Some x \<Longrightarrow> uring_fill capacity w = Some x"
  by (cases entered) (auto simp: uring_submit_def bind_eq_Some_conv)

text \<open>Responses leave in their order, none is lost. A round submits what waits to be resubmitted, and then
  takes responses from the front of the queue until the queue is empty, the submission queue is full
  or no buffer is free. Each that fits a buffer is submitted, in order, with a buffer of its own that
  was free before and holds its bytes and its receiver's address; only those that do not fit are dropped.\<close>

theorem responses_are_submitted_in_order:
  assumes "uring_submit capacity entered w = Some (es, n, w')"
  shows "\<exists>k ss. es = ug_resubmit w @ ss \<and> length es \<le> capacity \<and> n = max 1 (length ss) \<and>
    ug_local_responses w' = drop k (ug_local_responses w) \<and> ug_resubmit w' = [] \<and>
    list_all2 (carries w') ss (filter fits_buffer (take k (ug_local_responses w))) \<and>
    sends_added (sends ss) (ug_send w) (ug_send w') \<and>
    (ug_local_responses w' = [] \<or> k = capacity - length (ug_resubmit w) \<or> next_free_index (ug_send w') = None)"
proof -
  let ?m = "capacity - length (ug_resubmit w)"
  obtain ss where c: "length (ug_resubmit w) \<le> capacity" and es: "es = ug_resubmit w @ ss" "n = max 1 (length ss)"
    and e: "enqueue_responses ?m (w\<lparr>ug_resubmit := []\<rparr>) = Some (ss, w')"
    using submit_filled [OF assms] by (auto simp: uring_fill_def Let_def split: if_splits)
  obtain k where k: "enqueued ?m k ss (w\<lparr>ug_resubmit := []\<rparr>) w'"
    using enqueue_spec [OF e] by blast
  have "length ss = length (filter fits_buffer (take k (ug_local_responses w)))"
    using k list_all2_lengthD by (fastforce simp: enqueued_def)
  also have "\<dots> \<le> k" by (rule order_trans [OF length_filter_le]) simp
  also have "k \<le> ?m" using k by (simp add: enqueued_def)
  finally have "length es \<le> capacity" using c es by simp
  then show ?thesis
    using k es unfolding enqueued_def by (intro exI [of _ k] exI [of _ ss]) auto
qed

subsection \<open>The worker and the kernel\<close>

text \<open>
  The worker, the position up to which the kernel has taken receive buffers and those it has not
  reported yet, the submissions in flight, and whether the worker waits for completions.
\<close>

record ('r, 'h) uring_system =
  us_worker :: "('r, 'h) uring_worker"
  us_head :: u16
  us_taken :: "bid list"
  us_in_flight :: "sqe list"
  us_waiting :: bool

text \<open>
  The completions of a submission: those that receive may be followed by more, have an error or a
  buffer the kernel has taken from the ring, written up to its length at most.
\<close>

fun completes_as :: "raw_buf_ring \<Rightarrow> bid list \<Rightarrow> sqe \<Rightarrow> uring_cqe \<Rightarrow> bool" where
  "completes_as r taken (SqeRecv v4) c = (ce_user_data c = (if v4 then USER_DATA_RECV_V4 else USER_DATA_RECV_V6) \<and>
     (case ce_buffer c of
        None \<Rightarrow> True
      | Some bid \<Rightarrow> bid \<in> set taken \<and> 0 \<le> ce_result c \<and> nat (ce_result c) \<le> unat (br_buf_len r)))"
| "completes_as r taken SqePulse c = (ce_user_data c = USER_DATA_PULSE_TIMEOUT \<and> ce_buffer c = None \<and>
     \<not> ce_more c \<and> snd (ce_elapsed c) \<le> u32_max)"
| "completes_as r taken (SqeSend i v4) c = (ce_user_data c = word_of_nat i \<and> ce_buffer c = None \<and> \<not> ce_more c)"

inductive uring_step ::
  "udp_worker_config \<Rightarrow> 'r uring_crates \<Rightarrow> nat \<Rightarrow> ('r, 'h) uring_system \<Rightarrow> ('r, 'h) uring_system \<Rightarrow> bool"
  for cf ux capacity where
  submits: "\<not> us_waiting s \<Longrightarrow> uring_submit capacity entered (us_worker s) = Some (es, n, w) \<Longrightarrow>
    uring_step cf ux capacity s
      (s\<lparr>us_worker := w, us_in_flight := us_in_flight s @ es, us_waiting := True\<rparr>)"
| takes: "us_head s \<noteq> br_tail (ug_ring (us_worker s)) \<Longrightarrow>
    uring_step cf ux capacity s
      (s\<lparr>us_head := us_head s + 1,
         us_taken := rn_bid (entry_at (ug_ring (us_worker s)) (us_head s)) # us_taken s\<rparr>)"
| completes: "us_waiting s \<Longrightarrow> e \<in> set (us_in_flight s) \<Longrightarrow>
    completes_as (ug_ring (us_worker s)) (us_taken s) e c \<Longrightarrow>
    handle_cqe cf ux c (us_worker s) = Some w \<Longrightarrow>
    uring_step cf ux capacity s
      (s\<lparr>us_worker := w, us_in_flight := (if ce_more c then us_in_flight s else remove1 e (us_in_flight s)),
         us_taken := (case ce_buffer c of Some bid \<Rightarrow> remove1 bid (us_taken s) | None \<Rightarrow> us_taken s)\<rparr>)"
| rests: "us_waiting s \<Longrightarrow>
    uring_step cf ux capacity s
      (s\<lparr>us_worker := (us_worker s)\<lparr>ug_send := reset_likely_next_free_index (ug_send (us_worker s))\<rparr>,
         us_waiting := False\<rparr>)"

definition system_start :: "('r, 'h) uring_worker \<Rightarrow> ('r, 'h) uring_system" where
  "system_start w = \<lparr>us_worker = w, us_head = 0, us_taken = [], us_in_flight = [], us_waiting = False\<rparr>"

text \<open>What receives on the open sockets, and the timer.\<close>

definition armed :: "('r, 'h) uring_worker \<Rightarrow> sqe multiset" where
  "armed w = mset (SqePulse # (if ug_has_ipv4 w then [SqeRecv True] else []) @
     (if ug_has_ipv6 w then [SqeRecv False] else []))"

fun is_send :: "sqe \<Rightarrow> bool" where
  "is_send (SqeSend i v4) = True"
| "is_send (SqeRecv v4) = False"
| "is_send SqePulse = False"

definition servable :: "('r, 'h) uring_worker \<Rightarrow> canonical_socket_addr \<Rightarrow> bool" where
  "servable w addr = (is_ipv4 addr \<and> ug_has_ipv4 w \<or> ug_has_ipv6 w)"

text \<open>The receive buffers, as the ring and the kernel see them; the worker holds none between completions.\<close>

definition ring_of :: "('r, 'h) uring_system \<Rightarrow> ring_state" where
  "ring_of s = \<lparr>rs_ring = ug_ring (us_worker s), rs_head = us_head s, rs_taken = us_taken s, rs_held = []\<rparr>"

definition buffers_busy :: "send_buffers \<Rightarrow> nat list \<Rightarrow> bool" where
  "buffers_busy s js = (distinct js \<and> length (sbs_buffers s) < 2 ^ 16 \<and>
     (\<forall>i. i \<in> set js \<longleftrightarrow> i < length (sbs_buffers s) \<and> \<not> sb_free (sbs_buffers s ! i)))"

definition system_inv :: "nat \<Rightarrow> raw_buf_ring \<Rightarrow> ('r, 'h) uring_system \<Rightarrow> bool" where
  "system_inv k r s = (let w = us_worker s in
     ring_reached k r (ring_of s) \<and>
     mset (filter (\<lambda>e. \<not> is_send e) (us_in_flight s)) + mset (ug_resubmit w) = armed w \<and>
     buffers_busy (ug_send w) (sends (us_in_flight s)) \<and>
     list_all (\<lambda>ar. servable w (fst ar)) (ug_local_responses w) \<and>
     maps_inv (wk_torrent_maps (ug_service w)))"

subsection \<open>Every step\<close>

lemma sends_Cons: "sends (e # es) = sends [e] @ sends es"
  by (cases e) simp_all

lemma sends_mset:
  "e \<in> set es \<Longrightarrow> mset (sends es) = mset (sends [e]) + mset (sends (remove1 e es))"
proof (induction es)
  case (Cons f es)
  show ?case
  proof (cases "f = e")
    case True
    then show ?thesis by (simp add: sends_Cons [of e es] del: sends.simps(2-4))
  next
    case False
    then show ?thesis
      using Cons by (simp add: sends_Cons [of f es] sends_Cons [of f "remove1 e es"] del: sends.simps(2-4))
  qed
qed simp

lemma system_invD:
  assumes "system_inv k r s"
  shows "ring_reached k r (ring_of s)"
    "mset (filter (\<lambda>e. \<not> is_send e) (us_in_flight s)) + mset (ug_resubmit (us_worker s)) = armed (us_worker s)"
    "buffers_busy (ug_send (us_worker s)) (sends (us_in_flight s))"
    "list_all (\<lambda>ar. servable (us_worker s) (fst ar)) (ug_local_responses (us_worker s))"
    "maps_inv (wk_torrent_maps (ug_service (us_worker s)))"
  using assms by (simp_all add: system_inv_def Let_def)

lemma in_flight_nonsend:
  assumes "system_inv k r s" and "e \<in> set (us_in_flight s)" and "\<not> is_send e"
  shows "e \<in># armed (us_worker s)"
  using assms(2,3) by (simp add: system_invD(2) [OF assms(1), symmetric])

lemma armed_no_send: "e \<in># armed w \<Longrightarrow> \<not> is_send e"
  by (auto simp: armed_def split: if_splits)

lemma resubmit_no_send:
  assumes "system_inv k r s" and "e \<in> set (ug_resubmit (us_worker s))"
  shows "\<not> is_send e"
proof -
  have "e \<in># armed (us_worker s)"
    using assms(2) by (simp add: system_invD(2) [OF assms(1), symmetric])
  then show ?thesis by (rule armed_no_send)
qed

lemma sends_none: "\<forall>e \<in> set es. \<not> is_send e \<Longrightarrow> sends es = []"
  by (induction es rule: sends.induct) auto

lemma carries_send: "carries w e ar \<Longrightarrow> is_send e"
  by (cases ar; cases e) auto

lemma all_sends: "list_all2 (carries w) es ars \<Longrightarrow> filter (\<lambda>e. \<not> is_send e) es = []"
  by (induction rule: list_all2_induct) (auto dest: carries_send)

text \<open>Buffers in use, as sends are added and completed.\<close>

lemma busy_added:
  assumes "buffers_busy s js" and "sends_added ks s s'"
  shows "buffers_busy s' (js @ ks)"
  using assms unfolding buffers_busy_def sends_added_def by (auto; metis)

lemma busy_freed:
  assumes "buffers_busy s js" and "mset js = add_mset i (mset js')"
  shows "\<exists>s'. mark_buffer_as_free i s = Some s' \<and> buffers_busy s' js' \<and>
    (\<forall>j. sb_name (sbs_buffers s' ! j) = sb_name (sbs_buffers s ! j) \<and>
       sb_bytes (sbs_buffers s' ! j) = sb_bytes (sbs_buffers s ! j))"
proof -
  have d: "distinct (i # js')" using assms mset_eq_imp_distinct_iff [of js "i # js'"] by (simp add: buffers_busy_def)
  have st: "set js = insert i (set js')" using arg_cong [OF assms(2), of set_mset] by simp
  then have i: "i < length (sbs_buffers s)" using assms(1) unfolding buffers_busy_def by blast
  define s' where "s' = s\<lparr>sbs_buffers := (sbs_buffers s)[i := (sbs_buffers s ! i)\<lparr>sb_free := True\<rparr>]\<rparr>"
  have at: "sbs_buffers s' ! j = (if j = i then (sbs_buffers s ! i)\<lparr>sb_free := True\<rparr> else sbs_buffers s ! j)" for j
    using i by (simp add: s'_def)
  have "j \<in> set js' \<longleftrightarrow> j < length (sbs_buffers s') \<and> \<not> sb_free (sbs_buffers s' ! j)" for j
  proof -
    have "j \<in> set js' \<longleftrightarrow> j \<in> set js \<and> j \<noteq> i" using d st by auto
    then show ?thesis using assms(1) by (simp add: buffers_busy_def at) (simp add: s'_def)
  qed
  then have "buffers_busy s' js'" using assms(1) d by (simp add: buffers_busy_def) (simp add: s'_def)
  moreover have "mark_buffer_as_free i s = Some s'" using i by (simp add: mark_buffer_as_free_def s'_def)
  ultimately show ?thesis by (simp add: at)
qed

lemma busy_reset [simp]: "buffers_busy (reset_likely_next_free_index s) js = buffers_busy s js"
  by (simp add: buffers_busy_def reset_likely_next_free_index_def)

text \<open>A receive buffer that is reported can be read, and goes back to the ring.\<close>

lemma reported_returns:
  assumes "ring_reached k r (ring_of s)" and "bid \<in> set (us_taken s)"
    and "n \<le> unat (br_buf_len (ug_ring (us_worker s)))"
  shows "\<exists>r1 r2. get_buf n (Some bid) (ug_ring (us_worker s)) = Some (Inr (Some \<lparr>bx_bid = bid, bx_len = n\<rparr>, r1)) \<and>
    stable_ptr bid r1 \<noteq> None \<and> dropping_bid bid r1 = Some r2 \<and>
    ring_reached k r (\<lparr>rs_ring = r2, rs_head = us_head s, rs_taken = remove1 bid (us_taken s), rs_held = []\<rparr> :: ring_state)"
proof -
  let ?r1 = "metric_getting_another (ug_ring (us_worker s))"
  let ?s1 = "\<lparr>rs_ring = ?r1, rs_head = us_head s, rs_taken = remove1 bid (us_taken s), rs_held = [bid]\<rparr> :: ring_state"
  have g: "get_buf n (Some bid) (ug_ring (us_worker s)) = Some (Inr (Some \<lparr>bx_bid = bid, bx_len = n\<rparr>, ?r1))"
    using assms(3) by (simp add: get_buf_def)
  have "ring_step (ring_of s) ?s1"
    using ring_step.reports [of bid "ring_of s" n "\<lparr>bx_bid = bid, bx_len = n\<rparr>" ?r1] assms(2) g
    by (simp add: ring_of_def)
  from ring_step_ok [OF this assms(1)] have k1: "ring_reached k r ?s1" .
  then have "ring_inv k ?s1" by (simp add: ring_reached_def)
  from held_returns [OF this, of bid] ring_room(2) [OF this, of bid] obtain r2 where
    r2: "dropping_bid bid ?r1 = Some r2" and b: "bid < br_buf_cnt ?r1" by auto
  have "ring_step ?s1 (?s1\<lparr>rs_ring := r2, rs_held := remove1 bid [bid]\<rparr>)"
    using ring_step.drops [of bid ?s1 r2] r2 by simp
  from ring_step_ok [OF this k1] have "ring_reached k r (\<lparr>rs_ring = r2, rs_head = us_head s,
      rs_taken = remove1 bid (us_taken s), rs_held = []\<rparr> :: ring_state)" by simp
  moreover have "stable_ptr bid ?r1 \<noteq> None" using b by (simp add: stable_ptr_def)
  ultimately show ?thesis using g r2 by blast
qed

text \<open>A received request is answered, if at all, to an address that can be reached.\<close>

lemma recv_parse_source:
  assumes "recv_parse p v4 m buffer = Inr (req, addr) \<or> recv_parse p v4 m buffer = Inl (RecvRequestParseError e addr)"
  shows "v4 \<longrightarrow> is_ipv4 addr"
  using assms
  by (cases "p v4 buffer"; cases v4; cases "parse_request (rm_payload (the (p v4 buffer))) m")
    (auto simp: recv_parse_def Let_def sockaddr_in_def split: if_splits)

lemma count_received_maps [simp]:
  "wk_torrent_maps (count_received cf addr n m wk) = wk_torrent_maps wk"
  by (simp add: count_received_def)

lemma answer_buffer_ok:
  assumes "crates_ok (ux_udp ux)" and "maps_inv (wk_torrent_maps wk)"
  shows "\<exists>ans wk' :: ('r, 'h) udp_worker. answer_buffer cf ux re v4 buffer wk = Some (ans, wk') \<and>
    maps_inv (wk_torrent_maps wk') \<and> (\<forall>ar. ans = Some ar \<longrightarrow> v4 \<longrightarrow> is_ipv4 (fst ar))"
proof (cases "recv_parse (ux_parse_msg ux) v4 (max_scrape_torrents (uc_protocol (wc_swarm cf))) buffer")
  case (Inr p)
  obtain req addr where p: "p = (req, addr)" by fastforce
  have a: "v4 \<longrightarrow> is_ipv4 addr" using recv_parse_source Inr p by blast
  let ?wk = "count_received cf addr (length buffer) 1 wk"
  obtain ans and wk' :: "('r, 'h) udp_worker" where
    h: "handle_request cf (ux_udp ux) re req addr ?wk = Some (ans, wk')" "maps_inv (wk_torrent_maps wk')"
    using handle_request_ok [OF assms(1), of ?wk] assms(2) by fastforce
  then show ?thesis using Inr p a by (auto simp: answer_buffer_def uring_handle_request)
next
  case (Inl e)
  show ?thesis
  proof (cases e)
    case (RecvRequestParseError err addr)
    have a: "v4 \<longrightarrow> is_ipv4 addr" using recv_parse_source Inl RecvRequestParseError by blast
    then show ?thesis
      using Inl RecvRequestParseError assms(2) by (cases err) (auto simp: answer_buffer_def Let_def)
  qed (use Inl assms(2) in \<open>simp_all add: answer_buffer_def\<close>)
qed

text \<open>Handling what was received: the ring gets its buffer back, and the rest stays.\<close>

lemma handle_recv_ok:
  fixes s :: "('r, 'h) uring_system"
  assumes "crates_ok (ux_udp ux)" and "system_inv k r s" and "completes_as (ug_ring (us_worker s)) (us_taken s) (SqeRecv v4) c"
  shows "\<exists>ans ring' wk'. handle_recv_cqe cf ux c v4 (us_worker s) =
      Some (ans, (us_worker s)\<lparr>ug_ring := ring', ug_service := wk'\<rparr>) \<and> maps_inv (wk_torrent_maps wk') \<and>
    ring_reached k r (\<lparr>rs_ring = ring', rs_head = us_head s,
      rs_taken = (case ce_buffer c of Some bid \<Rightarrow> remove1 bid (us_taken s) | None \<Rightarrow> us_taken s), rs_held = []\<rparr> :: ring_state) \<and>
    (\<forall>ar. ans = Some ar \<longrightarrow> v4 \<longrightarrow> is_ipv4 (fst ar))"
proof (cases "ce_buffer c")
  case None
  have "handle_recv_cqe cf ux c v4 (us_worker s) =
      Some (None, (us_worker s)\<lparr>ug_ring := ug_ring (us_worker s), ug_service := ug_service (us_worker s)\<rparr>)"
    using None by (simp add: handle_recv_cqe_def get_buf_def)
  then show ?thesis
    using None system_invD(1,5) [OF assms(2)] by (intro exI) (auto simp: ring_of_def)
next
  case (Some bid)
  then have c: "bid \<in> set (us_taken s)" "0 \<le> ce_result c" "nat (ce_result c) \<le> unat (br_buf_len (ug_ring (us_worker s)))"
    using assms(3) by simp_all
  obtain r1 r2 where r: "get_buf (nat (ce_result c)) (Some bid) (ug_ring (us_worker s)) =
      Some (Inr (Some \<lparr>bx_bid = bid, bx_len = nat (ce_result c)\<rparr>, r1))" "stable_ptr bid r1 \<noteq> None"
      "dropping_bid bid r1 = Some r2"
      "ring_reached k r (\<lparr>rs_ring = r2, rs_head = us_head s, rs_taken = remove1 bid (us_taken s), rs_held = []\<rparr> :: ring_state)"
    using reported_returns [OF system_invD(1) [OF assms(2)] c(1,3)] by blast
  obtain ans and wk' :: "('r, 'h) udp_worker" where
    a: "answer_buffer cf ux (ce_env c) v4 (take (nat (ce_result c)) (ce_bytes c)) (ug_service (us_worker s)) = Some (ans, wk')"
      "maps_inv (wk_torrent_maps wk')" "\<forall>ar. ans = Some ar \<longrightarrow> v4 \<longrightarrow> is_ipv4 (fst ar)"
    using answer_buffer_ok [OF assms(1) system_invD(5) [OF assms(2)]] by blast
  have "handle_recv_cqe cf ux c v4 (us_worker s) = Some (ans, (us_worker s)\<lparr>ug_ring := r2, ug_service := wk'\<rparr>)"
    using r(1-3) a(1) c(2) Some by (auto simp: handle_recv_cqe_def)
  then show ?thesis using r(4) a(2,3) Some by (intro exI) auto
qed

lemma nonsend_remove:
  assumes "e \<in> set es" and "\<not> is_send e"
  shows "add_mset e (mset (filter (\<lambda>e. \<not> is_send e) (remove1 e es))) = mset (filter (\<lambda>e. \<not> is_send e) es)"
    and "sends (remove1 e es) = sends es"
proof -
  show "add_mset e (mset (filter (\<lambda>e. \<not> is_send e) (remove1 e es))) = mset (filter (\<lambda>e. \<not> is_send e) es)"
    using assms by (simp add: filter_diff_mset)
  show "sends (remove1 e es) = sends es"
    using assms by (induction es rule: sends.induct) auto
qed

lemma rearmed:
  assumes "e \<in> set es" and "\<not> is_send e" and "mset (filter (\<lambda>e. \<not> is_send e) es) + mset rs = A"
  shows "mset (filter (\<lambda>e. \<not> is_send e) (remove1 e es)) + mset (rs @ [e]) = A"
  using nonsend_remove(1) [OF assms(1,2)] assms(3) by (metis add_mset_add_single mset.simps mset_append union_commute union_mset_add_mset_left)

lemma user_data_distinct [simp]:
  "USER_DATA_RECV_V6 \<noteq> USER_DATA_RECV_V4" "USER_DATA_PULSE_TIMEOUT \<noteq> USER_DATA_RECV_V4"
  "USER_DATA_PULSE_TIMEOUT \<noteq> USER_DATA_RECV_V6"
  by (simp_all add: USER_DATA_RECV_V4_def USER_DATA_RECV_V6_def USER_DATA_PULSE_TIMEOUT_def)

lemma user_data_index:
  assumes "i < 2 ^ 16"
  shows "unat (word_of_nat i :: u64) = i" "(word_of_nat i :: u64) \<noteq> USER_DATA_RECV_V4"
    "(word_of_nat i :: u64) \<noteq> USER_DATA_RECV_V6" "(word_of_nat i :: u64) \<noteq> USER_DATA_PULSE_TIMEOUT"
proof -
  show u: "unat (word_of_nat i :: u64) = i" using assms by (simp add: unat_of_nat)
  have n: "i \<noteq> unat (- 1 :: u64)" "i \<noteq> unat (- 2 :: u64)" "i \<noteq> unat (- 3 :: u64)"
    using assms by (simp_all add: unsigned_minus_1_eq_mask mask_eq_exp_minus_1)
  show "(word_of_nat i :: u64) \<noteq> USER_DATA_RECV_V4" "(word_of_nat i :: u64) \<noteq> USER_DATA_RECV_V6"
    "(word_of_nat i :: u64) \<noteq> USER_DATA_PULSE_TIMEOUT"
    using n u unfolding USER_DATA_RECV_V4_def USER_DATA_RECV_V6_def USER_DATA_PULSE_TIMEOUT_def by metis+
qed

text \<open>The system after a completion.\<close>

definition completed :: "sqe \<Rightarrow> uring_cqe \<Rightarrow> ('r, 'h) uring_worker \<Rightarrow> ('r, 'h) uring_system \<Rightarrow> ('r, 'h) uring_system" where
  "completed e c w s =
     s\<lparr>us_worker := w, us_in_flight := (if ce_more c then us_in_flight s else remove1 e (us_in_flight s)),
       us_taken := (case ce_buffer c of Some bid \<Rightarrow> remove1 bid (us_taken s) | None \<Rightarrow> us_taken s)\<rparr>"

lemma completed_worker: "us_worker (completed e c w s) = w"
  by (simp add: completed_def)

lemma recv_completion_ok:
  fixes s :: "('r, 'h) uring_system"
  assumes "crates_ok (ux_udp ux)" and inv: "system_inv k r s" and e: "SqeRecv v4 \<in> set (us_in_flight s)"
    and c: "completes_as (ug_ring (us_worker s)) (us_taken s) (SqeRecv v4) c"
  shows "\<exists>w. handle_cqe cf ux c (us_worker s) = Some w \<and> system_inv k r (completed (SqeRecv v4) c w s) \<and>
    sbs_buffers (ug_send w) = sbs_buffers (ug_send (us_worker s))"
proof -
  obtain ans ring' and wk' :: "('r, 'h) udp_worker" where
    h: "handle_recv_cqe cf ux c v4 (us_worker s) = Some (ans, (us_worker s)\<lparr>ug_ring := ring', ug_service := wk'\<rparr>)"
    and m: "maps_inv (wk_torrent_maps wk')"
    and ring: "ring_reached k r (\<lparr>rs_ring = ring', rs_head = us_head s,
      rs_taken = (case ce_buffer c of Some bid \<Rightarrow> remove1 bid (us_taken s) | None \<Rightarrow> us_taken s), rs_held = []\<rparr> :: ring_state)"
    and v: "\<forall>ar. ans = Some ar \<longrightarrow> v4 \<longrightarrow> is_ipv4 (fst ar)"
    using handle_recv_ok [OF assms(1) inv c] by blast
  define w2 where "w2 = push_answer ans ((us_worker s)\<lparr>ug_ring := ring', ug_service := wk'\<rparr>)"
  define w where "w = (if ce_more c then w2 else push_sqe (SqeRecv v4) w2)"
  have handled: "handle_cqe cf ux c (us_worker s) = Some w"
    using c h by (cases v4) (simp_all add: handle_cqe_def Let_def w_def w2_def)
  have "SqeRecv v4 \<in># armed (us_worker s)" using in_flight_nonsend [OF inv e] by simp
  then have "if v4 then ug_has_ipv4 (us_worker s) else ug_has_ipv6 (us_worker s)"
    by (auto simp: armed_def split: if_splits)
  then have serv: "servable (us_worker s) (fst ar)" if "ans = Some ar" for ar
    using v that by (auto simp: servable_def split: if_splits)
  have same: "ug_has_ipv4 w = ug_has_ipv4 (us_worker s)" "ug_has_ipv6 w = ug_has_ipv6 (us_worker s)"
    "ug_ring w = ring'" "ug_service w = wk'" "ug_send w = ug_send (us_worker s)"
    "ug_resubmit w = ug_resubmit (us_worker s) @ (if ce_more c then [] else [SqeRecv v4])"
    "ug_local_responses w = ug_local_responses (us_worker s) @ (case ans of None \<Rightarrow> [] | Some ar \<Rightarrow> [ar])"
    by (simp_all add: w_def w2_def push_sqe_def push_answer_def split: option.split)
  have congs: "armed w = armed (us_worker s)" "servable w = servable (us_worker s)"
    by (simp_all add: armed_def servable_def same fun_eq_iff)
  have flight: "mset (filter (\<lambda>e. \<not> is_send e) (us_in_flight (completed (SqeRecv v4) c w s))) + mset (ug_resubmit w) =
      armed w"
  proof (cases "ce_more c")
    case True
    then show ?thesis using system_invD(2) [OF inv] by (simp add: completed_def same congs)
  next
    case False
    then have "us_in_flight (completed (SqeRecv v4) c w s) = remove1 (SqeRecv v4) (us_in_flight s)"
      "ug_resubmit w = ug_resubmit (us_worker s) @ [SqeRecv v4]"
      by (simp_all add: completed_def same)
    then show ?thesis unfolding congs using rearmed [OF e _ system_invD(2) [OF inv]] by (metis is_send.simps(2))
  qed
  have busy: "buffers_busy (ug_send w) (sends (us_in_flight (completed (SqeRecv v4) c w s)))"
    using system_invD(3) [OF inv] nonsend_remove(2) [OF e] by (simp add: completed_def same)
  have served: "list_all (\<lambda>ar. servable w (fst ar)) (ug_local_responses w)"
    using system_invD(4) [OF inv] serv by (simp add: same congs split: option.split)
  have "system_inv k r (completed (SqeRecv v4) c w s)"
    unfolding system_inv_def Let_def
  proof (intro conjI)
    show "ring_reached k r (ring_of (completed (SqeRecv v4) c w s))"
      using ring by (simp add: completed_def ring_of_def same(3))
    show "maps_inv (wk_torrent_maps (ug_service (us_worker (completed (SqeRecv v4) c w s))))"
      using m by (simp add: completed_def same(4))
  qed (use flight busy served in \<open>simp_all only: completed_worker\<close>)
  then show ?thesis using handled same(5) by (intro exI [of _ w] conjI) simp_all
qed

lemma pulse_completion_ok:
  assumes inv: "system_inv k r s" and e: "SqePulse \<in> set (us_in_flight s)"
    and c: "completes_as (ug_ring (us_worker s)) (us_taken s) SqePulse c"
  shows "\<exists>w. handle_cqe cf ux c (us_worker s) = Some w \<and> system_inv k r (completed SqePulse c w s) \<and>
    sbs_buffers (ug_send w) = sbs_buffers (ug_send (us_worker s))"
proof -
  obtain wk' where wk': "update_times cf (ce_elapsed c) (ug_service (us_worker s)) = Some wk'"
    "wk_torrent_maps wk' = wk_torrent_maps (ug_service (us_worker s))"
    using update_times_ok c by fastforce
  define w where "w = push_sqe SqePulse ((us_worker s)\<lparr>ug_service := wk'\<rparr>)"
  have congs: "armed w = armed (us_worker s)" "servable w = servable (us_worker s)"
    by (simp_all add: armed_def servable_def w_def push_sqe_def fun_eq_iff)
  have "system_inv k r (completed SqePulse c w s)"
    unfolding system_inv_def Let_def completed_def ring_of_def
    using c system_invD [OF inv] nonsend_remove(2) [OF e] rearmed [OF e _ system_invD(2) [OF inv]] wk'(2)
    by (auto simp: congs) (auto simp: w_def push_sqe_def ring_of_def)
  moreover have "handle_cqe cf ux c (us_worker s) = Some w"
    using c wk'(1) by (simp add: handle_cqe_def w_def)
  ultimately show ?thesis by (auto simp: w_def push_sqe_def)
qed

lemma send_completion_ok:
  assumes inv: "system_inv k r s" and e: "SqeSend i v4 \<in> set (us_in_flight s)"
    and c: "completes_as (ug_ring (us_worker s)) (us_taken s) (SqeSend i v4) c"
  shows "\<exists>w. handle_cqe cf ux c (us_worker s) = Some w \<and> system_inv k r (completed (SqeSend i v4) c w s) \<and>
    (\<forall>j. sb_name (sbs_buffers (ug_send w) ! j) = sb_name (sbs_buffers (ug_send (us_worker s)) ! j) \<and>
       sb_bytes (sbs_buffers (ug_send w) ! j) = sb_bytes (sbs_buffers (ug_send (us_worker s)) ! j))"
proof -
  let ?w = "us_worker s"
  have m: "mset (sends (us_in_flight s)) = add_mset i (mset (sends (remove1 (SqeSend i v4) (us_in_flight s))))"
    using sends_mset [OF e] by simp
  have "i \<in># mset (sends (us_in_flight s))" unfolding m by simp
  then have i: "i < length (sbs_buffers (ug_send ?w))" "i < 2 ^ 16"
    using system_invD(3) [OF inv] by (auto simp: buffers_busy_def)
  obtain s' where s': "mark_buffer_as_free i (ug_send ?w) = Some s'"
    "buffers_busy s' (sends (remove1 (SqeSend i v4) (us_in_flight s)))"
    "\<forall>j. sb_name (sbs_buffers s' ! j) = sb_name (sbs_buffers (ug_send ?w) ! j) \<and>
       sb_bytes (sbs_buffers s' ! j) = sb_bytes (sbs_buffers (ug_send ?w) ! j)"
    using busy_freed [OF system_invD(3) [OF inv] m] by blast
  have "\<exists>wk'. handle_send_cqe cf c ?w = Some (?w\<lparr>ug_service := wk', ug_send := s'\<rparr>) \<and>
      wk_torrent_maps wk' = wk_torrent_maps (ug_service ?w)"
    using c s'(1) i user_data_index(1) [OF i(2)]
    by (auto simp: handle_send_cqe_def response_type_and_ipv4_def count_send_def Let_def intro: exI [of _ "ug_service ?w"])
  then obtain wk' where wk': "handle_send_cqe cf c ?w = Some (?w\<lparr>ug_service := wk', ug_send := s'\<rparr>)"
    "wk_torrent_maps wk' = wk_torrent_maps (ug_service ?w)" by blast
  define w where "w = ?w\<lparr>ug_service := wk', ug_send := s'\<rparr>"
  have congs: "armed w = armed ?w" "servable w = servable ?w"
    by (simp_all add: armed_def servable_def w_def fun_eq_iff)
  have "filter (\<lambda>e. \<not> is_send e) (remove1 (SqeSend i v4) es) = filter (\<lambda>e. \<not> is_send e) es" for es
    by (induction es) auto
  then have "system_inv k r (completed (SqeSend i v4) c w s)"
    unfolding system_inv_def Let_def completed_def ring_of_def
    using c system_invD [OF inv] wk'(2) s'(2)
    by (auto simp: congs) (auto simp: w_def ring_of_def)
  moreover have "handle_cqe cf ux c ?w = Some w"
    using c wk'(1) user_data_index [OF i(2)] by (simp add: handle_cqe_def w_def)
  ultimately show ?thesis using s'(3) by (auto simp: w_def)
qed

lemma armed_size: "size (armed w) \<le> 3"
  by (simp add: armed_def)

lemma resubmit_length:
  assumes "system_inv k r s"
  shows "length (ug_resubmit (us_worker s)) \<le> 3"
proof -
  have "length (ug_resubmit (us_worker s)) \<le> size (armed (us_worker s))"
    unfolding system_invD(2) [OF assms, symmetric] by simp
  then show ?thesis using armed_size order_trans by blast
qed

lemma submitted_ok:
  assumes inv: "system_inv k r s" and sub: "uring_submit capacity entered (us_worker s) = Some (es, n, w)"
  shows "system_inv k r (s\<lparr>us_worker := w, us_in_flight := us_in_flight s @ es, us_waiting := True\<rparr>)"
    and "sends_added (sends es) (ug_send (us_worker s)) (ug_send w)"
proof -
  let ?w = "us_worker s"
  obtain ss where es: "es = ug_resubmit ?w @ ss"
    and e: "enqueue_responses (capacity - length (ug_resubmit ?w)) (?w\<lparr>ug_resubmit := []\<rparr>) = Some (ss, w)"
    using submit_filled [OF sub] by (auto simp: uring_fill_def Let_def split: if_splits)
  obtain m where m: "enqueued (capacity - length (ug_resubmit ?w)) m ss (?w\<lparr>ug_resubmit := []\<rparr>) w"
    using enqueue_spec [OF e] by blast
  then have q: "ug_local_responses w = drop m (ug_local_responses ?w)" "ug_service w = ug_service ?w"
    "ug_has_ipv4 w = ug_has_ipv4 ?w" "ug_has_ipv6 w = ug_has_ipv6 ?w" "ug_ring w = ug_ring ?w" "ug_resubmit w = []"
    by (simp_all add: enqueued_def)
  have nones: "sends (ug_resubmit ?w) = []" using resubmit_no_send [OF inv] by (intro sends_none) blast
  have added: "sends_added (sends ss) (ug_send ?w) (ug_send w)" using m by (simp add: enqueued_def)
  then show "sends_added (sends es) (ug_send ?w) (ug_send w)" by (simp add: es nones)
  have congs: "armed w = armed ?w" "servable w = servable ?w"
    by (simp_all add: armed_def servable_def q fun_eq_iff)
  have "filter (\<lambda>e. \<not> is_send e) (us_in_flight s @ es) = filter (\<lambda>e. \<not> is_send e) (us_in_flight s) @ ug_resubmit ?w"
    using m all_sends [of w ss] resubmit_no_send [OF inv] by (auto simp: es enqueued_def filter_id_conv)
  then have "mset (filter (\<lambda>e. \<not> is_send e) (us_in_flight s @ es)) + mset (ug_resubmit w) = armed w"
    using system_invD(2) [OF inv] by (simp add: congs q)
  moreover have "buffers_busy (ug_send w) (sends (us_in_flight s @ es))"
    using busy_added [OF system_invD(3) [OF inv] added] by (simp add: es nones)
  moreover have "list_all (\<lambda>ar. servable w (fst ar)) (ug_local_responses w)"
    using system_invD(4) [OF inv] set_drop_subset [of m "ug_local_responses ?w"]
    by (auto simp: congs q list_all_iff)
  moreover have "ring_of (s\<lparr>us_worker := w, us_in_flight := us_in_flight s @ es, us_waiting := True\<rparr>) = ring_of s"
    by (simp add: ring_of_def q)
  ultimately show "system_inv k r (s\<lparr>us_worker := w, us_in_flight := us_in_flight s @ es, us_waiting := True\<rparr>)"
    using system_invD(1,5) [OF inv] by (simp add: system_inv_def q(2))
qed

lemma completion_ok:
  fixes s :: "('r, 'h) uring_system"
  assumes "crates_ok (ux_udp ux)" and "system_inv k r s" and "e \<in> set (us_in_flight s)"
    and "completes_as (ug_ring (us_worker s)) (us_taken s) e c"
  shows "\<exists>w. handle_cqe cf ux c (us_worker s) = Some w \<and> system_inv k r (completed e c w s) \<and>
    (\<forall>j. sb_name (sbs_buffers (ug_send w) ! j) = sb_name (sbs_buffers (ug_send (us_worker s)) ! j) \<and>
       sb_bytes (sbs_buffers (ug_send w) ! j) = sb_bytes (sbs_buffers (ug_send (us_worker s)) ! j))"
proof (cases e)
  case (SqeRecv v4)
  show ?thesis
    using recv_completion_ok [OF assms(1,2), of v4 c cf] assms(3,4) unfolding SqeRecv by metis
next
  case SqePulse
  show ?thesis
    using pulse_completion_ok [OF assms(2), of c cf ux] assms(3,4) unfolding SqePulse by metis
next
  case (SqeSend i v4)
  show ?thesis
    using send_completion_ok [OF assms(2), of i v4 c cf ux] assms(3,4) unfolding SqeSend by metis
qed

lemma uring_step_ok:
  assumes "uring_step cf ux capacity s s'" and "crates_ok (ux_udp ux)" and "system_inv k r s"
  shows "system_inv k r s'"
  using assms(1,3)
proof (induction rule: uring_step.induct)
  case (submits s es n w)
  then show ?case using submitted_ok(1) by blast
next
  case (takes s)
  let ?s' = "s\<lparr>us_head := us_head s + 1,
      us_taken := rn_bid (entry_at (ug_ring (us_worker s)) (us_head s)) # us_taken s\<rparr>"
  have "ring_step (ring_of s) (ring_of ?s')"
    using ring_step.takes [of "ring_of s"] takes(1) by (simp add: ring_of_def)
  from ring_step_ok [OF this system_invD(1) [OF takes(2)]] show ?case
    using system_invD(2-5) [OF takes(2)] by (simp add: system_inv_def)
next
  case (completes s e c w)
  then show ?case
    using completion_ok [OF assms(2) completes(5,2,3), of cf] by (auto simp: completed_def)
next
  case (rests s)
  then show ?case
    using system_invD [OF rests(2)] by (simp add: system_inv_def armed_def servable_def ring_of_def)
qed

text \<open>A started worker, and everything it reaches.\<close>

lemma started_ok:
  assumes "uring_start ring_size v4 v6 registers wk = Some w" and "maps_inv (wk_torrent_maps wk)"
  shows "\<exists>k. system_inv k (ug_ring w) (system_start w)"
proof -
  let ?entries = "next_power_of_two ring_size"
  obtain ring where ring: "ring_build ((builder_new 0)\<lparr>bd_ring_entries := ?entries, bd_buf_len := REQUEST_BUF_LEN\<rparr>)
      registers = Some (Inr ring)"
    and w: "w = \<lparr>ug_service = wk, ug_has_ipv4 = v4, ug_has_ipv6 = v6, ug_ring = ring,
      ug_send = send_buffers_new (unat ?entries), ug_local_responses = [],
      ug_resubmit = SqePulse # (if v4 then [SqeRecv True] else []) @ (if v6 then [SqeRecv False] else [])\<rparr>"
    using assms(1) by (auto simp: uring_start_def Let_def split: option.splits sum.splits)
  obtain k where k: "ring_reached k ring (ring_start ring)" using build_ok [OF ring] by blast
  have "unat ?entries < 2 ^ 16" using unsigned_less [of ?entries] by simp
  then have "buffers_busy (send_buffers_new (unat ?entries)) []"
    by (simp add: buffers_busy_def send_buffers_new_def send_buffer_new_def)
  then have "system_inv k ring (system_start w)"
    using k assms(2) by (simp add: system_inv_def system_start_def ring_of_def ring_start_def w armed_def)
  then show ?thesis by (auto simp: w)
qed

lemma uring_reached_ok:
  assumes "crates_ok (ux_udp ux)" and "uring_start ring_size v4 v6 registers wk = Some w"
    and "maps_inv (wk_torrent_maps wk)" and "(uring_step cf ux capacity)\<^sup>*\<^sup>* (system_start w) s"
  shows "\<exists>k. system_inv k (ug_ring w) s"
proof -
  obtain k where "system_inv k (ug_ring w) (system_start w)" using started_ok [OF assms(2,3)] by blast
  with assms(4) have "system_inv k (ug_ring w) s"
    by (induction rule: rtranclp_induct) (auto intro: uring_step_ok [OF _ assms(1)])
  then show ?thesis by blast
qed

lemma send_name_total: "send_to_ipv4_socket addr w = Some v4 \<Longrightarrow> \<exists>name. send_name v4 addr = Some name"
  by (cases addr rule: is_ipv4.cases) (auto simp: send_to_ipv4_socket_def split: if_splits)

lemma send_to_total: "servable w addr \<Longrightarrow> \<exists>v4. send_to_ipv4_socket addr w = Some v4"
  by (cases "is_ipv4 addr"; cases "ug_has_ipv4 w"; cases "ug_has_ipv6 w")
    (auto simp: servable_def send_to_ipv4_socket_def)

lemma prepare_total: "send_name v4 addr = Some name \<Longrightarrow> \<exists>p s'. prepare_entry v4 res addr s = Some (p, s')"
  by (auto simp: prepare_entry_def prepare_buffer_def case_prod_unfold split: option.split)

lemma enqueue_total:
  "list_all (\<lambda>ar. servable w (fst ar)) (ug_local_responses w) \<Longrightarrow> enqueue_responses n w \<noteq> None"
proof (induction n arbitrary: w)
  case (Suc n)
  show ?case
  proof (cases "ug_local_responses w")
    case (Cons ar rest)
    obtain addr res where ar: "ar = (addr, res)" by fastforce
    obtain v4 where v4: "send_to_ipv4_socket addr w = Some v4"
      using Suc.prems Cons ar send_to_total [of w addr] by auto
    then obtain p s' where p: "prepare_entry v4 res addr (ug_send w) = Some (p, s')"
      using send_name_total prepare_total by blast
    have "enqueue_responses n (w\<lparr>ug_send := s', ug_local_responses := rest\<rparr>) \<noteq> None"
      using Suc.prems Cons by (intro Suc.IH) (simp add: servable_def)
    then show ?thesis using Cons ar v4 p by (cases p) auto
  qed simp
qed simp

definition same_contents :: "nat \<Rightarrow> ('r, 'h) uring_system \<Rightarrow> ('r, 'h) uring_system \<Rightarrow> bool" where
  "same_contents i s s' =
     (sb_name (sbs_buffers (ug_send (us_worker s')) ! i) = sb_name (sbs_buffers (ug_send (us_worker s)) ! i) \<and>
      sb_bytes (sbs_buffers (ug_send (us_worker s')) ! i) = sb_bytes (sbs_buffers (ug_send (us_worker s)) ! i))"

lemma step_contents:
  assumes "uring_step cf ux capacity s s'" and "crates_ok (ux_udp ux)" and "system_inv k r s"
    and "i < length (sbs_buffers (ug_send (us_worker s)))" and "\<not> sb_free (sbs_buffers (ug_send (us_worker s)) ! i)"
  shows "same_contents i s s'"
  using assms(1,3-5)
proof (induction rule: uring_step.induct)
  case (submits s es n w)
  then show ?case using submitted_ok(2) [OF submits(3,2)] by (simp add: same_contents_def sends_added_def)
next
  case (takes s)
  then show ?case by (simp add: same_contents_def)
next
  case (completes s e c w)
  then show ?case
    using completion_ok [OF assms(2) completes(5,2,3), of cf] by (auto simp: same_contents_def)
next
  case (rests s)
  then show ?case by (simp add: same_contents_def reset_likely_next_free_index_def)
qed

definition same_sockets :: "('r, 'h) uring_worker \<Rightarrow> ('r, 'h) uring_worker \<Rightarrow> bool" where
  "same_sockets w w' = (ug_has_ipv4 w' = ug_has_ipv4 w \<and> ug_has_ipv6 w' = ug_has_ipv6 w)"

lemma recv_sockets:
  assumes "handle_recv_cqe cf ux c v4 w = Some (ans, w')"
  shows "same_sockets w w'"
proof (cases "ce_result c < 0")
  case True
  then show ?thesis using assms by (auto simp: handle_recv_cqe_def same_sockets_def)
next
  case False
  then obtain got where got: "get_buf (nat (ce_result c)) (ce_buffer c) (ug_ring w) = Some got"
    using assms by (cases "get_buf (nat (ce_result c)) (ce_buffer c) (ug_ring w)") (simp_all add: handle_recv_cqe_def)
  show ?thesis
  proof (cases got)
    case (Inl e)
    then show ?thesis using assms False got by (auto simp: handle_recv_cqe_def same_sockets_def)
  next
    case (Inr p)
    then show ?thesis
      using assms False got
      by (cases p; cases "fst p") (auto simp: handle_recv_cqe_def same_sockets_def bind_eq_Some_conv)
  qed
qed

lemma send_sockets: "handle_send_cqe cf c w = Some w' \<Longrightarrow> same_sockets w w'"
  by (auto simp: handle_send_cqe_def same_sockets_def Let_def bind_eq_Some_conv split: if_splits)

lemma pushed_sockets [simp]:
  "same_sockets w (push_sqe e w') = same_sockets w w'" "same_sockets w (push_answer ans w') = same_sockets w w'"
  by (simp_all add: same_sockets_def push_sqe_def push_answer_def split: option.split)

lemma handle_cqe_sockets:
  assumes "handle_cqe cf ux c w = Some w'"
  shows "same_sockets w w'"
  using assms unfolding handle_cqe_def Let_def
  by (auto simp: same_sockets_def [of w "w\<lparr>ug_service := _\<rparr>"] split: if_splits dest: recv_sockets send_sockets)

lemma submit_sockets:
  assumes "uring_submit capacity entered w = Some (es, n, w')"
  shows "same_sockets w w'"
proof -
  obtain ss where "enqueue_responses (capacity - length (ug_resubmit w)) (w\<lparr>ug_resubmit := []\<rparr>) = Some (ss, w')"
    using submit_filled [OF assms] by (auto simp: uring_fill_def Let_def split: if_splits)
  from enqueue_spec [OF this] show ?thesis by (auto simp: enqueued_def same_sockets_def)
qed

lemma armed_congruence: "same_sockets w w' \<Longrightarrow> armed w' = armed w"
  by (simp add: same_sockets_def armed_def)

lemma reached_sockets:
  assumes "(uring_step cf ux capacity)\<^sup>*\<^sup>* s0 s"
  shows "armed (us_worker s) = armed (us_worker s0)"
  using assms
proof (induction rule: rtranclp_induct)
  case (step s s')
  from step(2) have "armed (us_worker s') = armed (us_worker s)"
    by (induction rule: uring_step.induct)
      (auto intro!: armed_congruence dest: handle_cqe_sockets submit_sockets simp: same_sockets_def)
  then show ?case using step(3) by simp
qed simp

subsection \<open>Properties of the running worker\<close>

text \<open>C18. The worker keeps receiving. Whatever the kernel completes in whatever order, receiving on each open
  socket and the timer are each either in flight or about to be submitted again, exactly once, and
  every receive buffer is in the ring or with the kernel.\<close>

theorem uring_keeps_receiving:
  assumes "crates_ok (ux_udp ux)" and "uring_start ring_size v4 v6 registers wk = Some w"
    and "maps_inv (wk_torrent_maps wk)" and "(uring_step cf ux capacity)\<^sup>*\<^sup>* (system_start w) s"
  shows "mset (filter (\<lambda>e. \<not> is_send e) (us_in_flight s)) + mset (ug_resubmit (us_worker s)) =
      mset (SqePulse # (if v4 then [SqeRecv True] else []) @ (if v6 then [SqeRecv False] else [])) \<and>
    mset (map rn_bid (window (ug_ring (us_worker s)) (us_head s))) + mset (us_taken s) =
      mset (all_bids (ug_ring w))"
proof -
  obtain k where inv: "system_inv k (ug_ring w) s" using uring_reached_ok [OF assms] by blast
  then have "ring_reached k (ug_ring w) (ring_of s)" by (rule system_invD)
  moreover have "armed w = mset (SqePulse # (if v4 then [SqeRecv True] else []) @ (if v6 then [SqeRecv False] else []))"
    using assms(2) by (auto simp: uring_start_def armed_def Let_def split: option.splits sum.splits)
  moreover have "armed (us_worker s) = armed w"
    using reached_sockets [OF assms(4)] by (simp add: system_start_def)
  ultimately show ?thesis
    using system_invD(2) [OF inv] by (simp add: ring_reached_def ring_inv_def ring_of_def all_bids_def)
qed

text \<open>C17. The worker panics in one case only. As long as the submission queue has room for three entries and
  the uptime in seconds fits 32 bits, in every state the worker reaches its next round panics exactly
  when io_uring_enter fails, as when a signal interrupts the waiting; and it handles whatever
  completion of whatever submission in flight the kernel reports.\<close>

theorem uring_panics_only_when_entering_fails:
  assumes "crates_ok (ux_udp ux)" and "uring_start ring_size v4 v6 registers wk = Some w"
    and "maps_inv (wk_torrent_maps wk)" and "(uring_step cf ux capacity)\<^sup>*\<^sup>* (system_start w) s"
    and "3 \<le> capacity"
  shows "(uring_submit capacity entered (us_worker s) = None) = isl entered \<and>
    (\<forall>e \<in> set (us_in_flight s). \<forall>c. completes_as (ug_ring (us_worker s)) (us_taken s) e c \<longrightarrow>
       handle_cqe cf ux c (us_worker s) \<noteq> None)"
proof -
  obtain k where inv: "system_inv k (ug_ring w) s" using uring_reached_ok [OF assms(1-4)] by blast
  have "length (ug_resubmit (us_worker s)) \<le> capacity"
    using resubmit_length [OF inv] assms(5) by simp
  moreover have "enqueue_responses n ((us_worker s)\<lparr>ug_resubmit := []\<rparr>) \<noteq> None" for n
    using system_invD(4) [OF inv] by (intro enqueue_total) (simp add: servable_def)
  ultimately have "uring_fill capacity (us_worker s) \<noteq> None" by (simp add: uring_fill_def Let_def)
  then have "(uring_submit capacity entered (us_worker s) = None) = isl entered"
    by (cases entered) (auto simp: uring_submit_def)
  moreover have "handle_cqe cf ux c (us_worker s) \<noteq> None"
    if "e \<in> set (us_in_flight s)" "completes_as (ug_ring (us_worker s)) (us_taken s) e c" for e c
    using completion_ok [OF assms(1) inv that, of cf] by auto
  ultimately show ?thesis by blast
qed

text \<open>C19. What the kernel reads is not touched. In every state the worker reaches, each send in flight has a
  buffer of its own, which is in use, and no step (submitting, handling a completion, ending a round)
  changes the address or the bytes of a buffer whose send is in flight.\<close>

theorem buffers_in_flight_are_not_touched:
  assumes "crates_ok (ux_udp ux)" and "uring_start ring_size v4 v6 registers wk = Some w"
    and "maps_inv (wk_torrent_maps wk)" and "(uring_step cf ux capacity)\<^sup>*\<^sup>* (system_start w) s"
    and "uring_step cf ux capacity s s'" and "i \<in> set (sends (us_in_flight s))"
  shows "distinct (sends (us_in_flight s)) \<and> \<not> sb_free (sbs_buffers (ug_send (us_worker s)) ! i) \<and>
    sb_name (sbs_buffers (ug_send (us_worker s')) ! i) = sb_name (sbs_buffers (ug_send (us_worker s)) ! i) \<and>
    sb_bytes (sbs_buffers (ug_send (us_worker s')) ! i) = sb_bytes (sbs_buffers (ug_send (us_worker s)) ! i)"
proof -
  obtain k where inv: "system_inv k (ug_ring w) s" using uring_reached_ok [OF assms(1-4)] by blast
  note busy = system_invD(3) [OF inv, unfolded buffers_busy_def]
  then have i: "i < length (sbs_buffers (ug_send (us_worker s)))" "\<not> sb_free (sbs_buffers (ug_send (us_worker s)) ! i)"
    using assms(6) by blast+
  have "same_contents i s s'"
    by (rule step_contents [OF assms(5,1) inv i])
  then show ?thesis using busy i by (simp add: same_contents_def)
qed

subsection \<open>What does not fit a receive buffer\<close>

text \<open>
  The contract of the kernel and the crate for a message received into a buffer of \<open>len\<close> bytes: a
  header of 16 bytes and the name of the sender come first, and the datagram is cut to the rest.
\<close>

definition name_length :: "bool \<Rightarrow> nat" where
  "name_length v4 = (if v4 then 16 else 28)"

locale recv_msg_crate =
  fixes parse_msg :: "bool \<Rightarrow> bytes \<Rightarrow> recv_msg option"
    and recv_buffer :: "bool \<Rightarrow> nat \<Rightarrow> bytes \<Rightarrow> bytes \<Rightarrow> bytes"
  assumes parse_recv: "length name = name_length v4 \<Longrightarrow> 16 + name_length v4 \<le> len \<Longrightarrow>
    parse_msg v4 (recv_buffer v4 len name datagram) = Some
      \<lparr>rm_name_truncated = False, rm_payload_truncated = (len < 16 + name_length v4 + length datagram),
       rm_name = name, rm_payload = take (len - (16 + name_length v4)) datagram\<rparr>"
begin

lemma parse_cut:
  assumes "length name = name_length v4" and "16 + name_length v4 \<le> len"
    and "len < 16 + name_length v4 + length datagram"
  shows "recv_parse parse_msg v4 m (recv_buffer v4 len name datagram) = Inl RecvMsgTruncated"
  using assms by (simp add: recv_parse_def parse_recv)

lemma parse_whole:
  assumes "length name = name_length v4" and "16 + name_length v4 + length datagram \<le> len"
  shows "parse_msg v4 (recv_buffer v4 len name datagram) = Some
      \<lparr>rm_name_truncated = False, rm_payload_truncated = False, rm_name = name, rm_payload = datagram\<rparr>"
  using assms by (simp add: parse_recv)

end

text \<open>A message as it is laid out, with the flag of a cut payload.\<close>

definition ref_recv_buffer :: "bool \<Rightarrow> nat \<Rightarrow> bytes \<Rightarrow> bytes \<Rightarrow> bytes" where
  "ref_recv_buffer v4 len name datagram =
     (let payload = take (len - (16 + name_length v4)) datagram; n = length payload
      in [word_of_nat (length name), 0, 0, 0, 0, 0, 0, 0,
          word_of_nat n, word_of_nat (n div 2 ^ 8), word_of_nat (n div 2 ^ 16), word_of_nat (n div 2 ^ 24),
          (if length payload < length datagram then 32 else 0), 0, 0, 0] @ name @ payload)"

definition ref_parse_msg :: "bool \<Rightarrow> bytes \<Rightarrow> recv_msg option" where
  "ref_parse_msg v4 buffer =
     (if length buffer < 16 + name_length v4 then None
      else Some \<lparr>rm_name_truncated = name_length v4 < unat (buffer ! 0),
        rm_payload_truncated = (buffer ! 12 = 32),
        rm_name = take (name_length v4) (drop 16 buffer), rm_payload = drop (16 + name_length v4) buffer\<rparr>)"

interpretation recv_msgs: recv_msg_crate ref_parse_msg ref_recv_buffer
proof
  fix name datagram :: bytes and v4 :: bool and len :: nat
  assume n: "length name = name_length v4" and l: "16 + name_length v4 \<le> len"
  let ?payload = "take (len - (16 + name_length v4)) datagram"
  have t: "name_length v4 < 256" by (simp add: name_length_def)
  have head: "ref_recv_buffer v4 len name datagram ! 0 = word_of_nat (length name)"
    "ref_recv_buffer v4 len name datagram ! 12 = (if length ?payload < length datagram then 32 else 0)"
    "drop 16 (ref_recv_buffer v4 len name datagram) = name @ ?payload"
    "length (ref_recv_buffer v4 len name datagram) = 16 + length (name @ ?payload)"
    by (simp_all add: ref_recv_buffer_def Let_def)
  have "drop (16 + name_length v4) (ref_recv_buffer v4 len name datagram) =
      drop (name_length v4) (drop 16 (ref_recv_buffer v4 len name datagram))"
    by (simp add: add.commute)
  then have rest: "drop (16 + name_length v4) (ref_recv_buffer v4 len name datagram) = ?payload"
    unfolding head(3) by (simp add: n)
  have cut: "(if length ?payload < length datagram then 32 else 0 :: u8) = 32 \<longleftrightarrow>
      len < 16 + name_length v4 + length datagram"
    using l by auto
  have whole: "\<not> name_length v4 < unat (word_of_nat (length name) :: u8)"
    unfolding n using t by (simp add: unat_of_nat)
  show "ref_parse_msg v4 (ref_recv_buffer v4 len name datagram) = Some
      \<lparr>rm_name_truncated = False, rm_payload_truncated = (len < 16 + name_length v4 + length datagram),
       rm_name = name, rm_payload = ?payload\<rparr>"
    unfolding ref_parse_msg_def head(1,2,3) rest cut using whole n by (simp add: head(4))
qed

lemma write_scrape_length: "length (write_scrape_request r) = 16 + 20 * length (sr_info_hashes r)"
  by (simp add: write_scrape_request_def length_concat comp_def sum_list_triv)

lemma scrape_answered:
  assumes "wf_scrape (max_scrape_torrents (uc_protocol (wc_swarm cf))) r" and "socket_port source \<noteq> 0"
    and "\<not> is_list_banned cf re (canonical_new source) wk"
    and "\<not> is_private_ip_blocked cf (canonical_new source) wk"
    and "connection_id_valid (xc_mac xc) (wk_validator wk) (canonical_new source) (sr_connection_id r)"
  shows "\<exists>res wk'. datagram_answer cf xc re (write_scrape_request r) source wk = Some (Some (ResScrape res), wk')"
proof -
  let ?m = "max_scrape_torrents (uc_protocol (wc_swarm cf))"
  let ?src = "canonical_new source"
  let ?wk = "requested cf ?src (received cf ?src (length (write_scrape_request r)) wk)"
  have "unat ?m < 256" using unsigned_less [of ?m] by simp
  moreover have "length (sr_info_hashes r) \<le> unat ?m" using assms(1) by (simp add: wf_scrape_def)
  ultimately have "length (sr_info_hashes r) < 256" by linarith
  then have "length (write_scrape_request r) \<le> BUFFER_SIZE"
    by (simp add: write_scrape_length BUFFER_SIZE_def)
  then have d: "datagram_answer cf xc re (write_scrape_request r) source wk =
      handle_request cf xc re (ReqScrape r) ?src ?wk"
    using assms(2) parse_write_scrape [OF assms(1)] by (simp add: datagram_answer_def Let_def)
  have s: "same_service wk ?wk"
    by (rule same_service_trans [OF same_service_counted(1) same_service_counted(2)])
  have "\<not> is_list_banned cf re ?src ?wk" using assms(3) same_service_banned [OF s] by simp
  moreover have "\<not> is_private_ip_blocked cf ?src ?wk"
    using assms(4) same_service_fields(7) [OF s] by (simp add: is_private_ip_blocked_def)
  moreover have "connection_id_valid (xc_mac xc) (wk_validator ?wk) ?src (sr_connection_id r)"
    using assms(5) same_service_fields(8) [OF s] by simp
  ultimately show ?thesis
    by (simp add: d handle_request_def run_security_checks_def Let_def)
qed

text \<open>C20. Long scrapes are lost. A scrape of 24 info hashes, on an IPv6 socket of 23, does not fit the receive
  buffers behind the header and the name of the sender: the io_uring worker neither answers nor counts
  it, although it is well-formed and within the limit of the settings, which is 70 by default, and the
  polling worker answers it.\<close>

theorem large_scrapes_are_dropped:
  assumes "recv_msg_crate (ux_parse_msg ux) recv_buffer"
    and "length name = name_length v4" and "socket_port (recv_name v4 name) \<noteq> 0"
    and "wf_scrape (max_scrape_torrents (uc_protocol (wc_swarm cf))) r"
    and "(if v4 then 24 else 23) \<le> length (sr_info_hashes r)"
    and "\<not> is_list_banned cf re (canonical_new (recv_name v4 name)) wk"
    and "\<not> is_private_ip_blocked cf (canonical_new (recv_name v4 name)) wk"
    and "connection_id_valid (xc_mac (ux_udp ux)) (wk_validator wk) (canonical_new (recv_name v4 name))
      (sr_connection_id r)"
  shows "answer_buffer cf ux re v4 (recv_buffer v4 (unat REQUEST_BUF_LEN) name (write_scrape_request r)) wk =
      Some (None, wk) \<and>
    (\<exists>res wk'. datagram_answer cf (ux_udp ux) re (write_scrape_request r) (recv_name v4 name) wk =
      Some (Some (ResScrape res), wk'))"
proof -
  have "unat REQUEST_BUF_LEN = 512" by (simp add: REQUEST_BUF_LEN_def)
  then have "recv_parse (ux_parse_msg ux) v4 m
      (recv_buffer v4 (unat REQUEST_BUF_LEN) name (write_scrape_request r)) = Inl RecvMsgTruncated" for m
    using assms(5)
    by (intro recv_msg_crate.parse_cut [OF assms(1,2)])
      (simp_all add: name_length_def write_scrape_length split: if_splits)
  then show ?thesis
    using scrape_answered [OF assms(4,3,6-8)] by (simp add: answer_buffer_def)
qed

subsection \<open>A run\<close>

text \<open>A worker with four buffers that receives a connect request and sends its response.\<close>

definition sample_uring_crates :: "nat list uring_crates" where
  "sample_uring_crates = \<lparr>ux_udp = sample_crates, ux_parse_msg = ref_parse_msg\<rparr>"

definition sample_name :: bytes where
  "sample_name = [2, 0, 26, 225, 0, 0, 0, 7, 0, 0, 0, 0, 0, 0, 0, 0]"

lemma sample_name_facts:
  "length sample_name = name_length True" "recv_name True sample_name = SocketV4 7 6881"
  by (simp_all add: sample_name_def name_length_def recv_name_def sockaddr_in_def sub_def be_word_def be_nat_def)

definition sample_ring4 :: raw_buf_ring where
  "sample_ring4 = \<lparr>br_bgid = 0, br_ring_entries_mask = 3, br_buf_cnt = 4, br_buf_len = 512,
     br_layout = (2112, 4096),
     br_ring = map (\<lambda>i. \<lparr>rn_addr = 64 + 512 * word_of_nat i, rn_len = 512, rn_bid = word_of_nat i\<rparr>) [0, 1, 2, 3],
     br_buffers_addr = 64, br_local_tail = 4, br_tail = 4, br_registered = True,
     br_possible_cur = 4, br_possible_min = 4\<rparr>"

lemma sample_ring4_built:
  "ring_build ((builder_new 0)\<lparr>bd_ring_entries := 4, bd_buf_len := 512\<rparr>) True = Some (Inr sample_ring4)"
proof -
  have p: "pow2_from (Suc 0) 4 = 4" "pow2_from (Suc 0) 4096 = 4096"
    by (simp_all add: pow2_from.simps)
  have n: "next_power_of_two (4 :: u16) = 4" "next_power_of_two (4096 :: u64) = 4096"
    by (simp_all add: next_power_of_two_def p)
  have four: "replicate 4 e = [e, e, e, e]" for e :: buf_ring_entry by (simp add: numeral_eq_Suc)
  show ?thesis
    by (simp add: ring_build_def builder_new_def raw_buf_ring_new_def Let_def n align_up_def
        ENTRY_SIZE_def from_size_align_def buf_ring_add_def stable_ptr_def mask_of_def ring_register_def
        buf_ring_sync_def sample_ring4_def upt_rec four)
qed

definition sample_uring :: "(nat list, unit) uring_worker" where
  "sample_uring = \<lparr>ug_service = sample_worker, ug_has_ipv4 = True, ug_has_ipv6 = True, ug_ring = sample_ring4,
     ug_send = send_buffers_new 4, ug_local_responses = [],
     ug_resubmit = [SqePulse, SqeRecv True, SqeRecv False]\<rparr>"

lemma sample_uring_started: "uring_start 4 True True True sample_worker = Some sample_uring"
proof -
  have n: "next_power_of_two (4 :: u16) = 4"
    by (simp add: next_power_of_two_def pow2_from.simps)
  show ?thesis
    by (simp add: uring_start_def n Let_def REQUEST_BUF_LEN_def sample_ring4_built sample_uring_def)
qed

lemma sample_uring_laws: "crates_ok (ux_udp sample_uring_crates)" "maps_inv (wk_torrent_maps sample_worker)"
  by (simp_all add: sample_uring_crates_def crates_ok_def sample_crates_def ref_index_map_laws ref_gen_range_laws
      sample_worker_def maps_default_inv)

text \<open>A connect request is received, and its response submitted.\<close>

definition sample_cqe :: uring_cqe where
  "sample_cqe = \<lparr>ce_user_data = USER_DATA_RECV_V4, ce_result = 48, ce_buffer = Some 0, ce_more = True,
     ce_bytes = ref_recv_buffer True 512 sample_name sample_connect, ce_env = sample_env, ce_elapsed = (0, 0)\<rparr>"

definition sample_answer :: "canonical_socket_addr \<times> response" where
  "sample_answer = (Canonical (SocketV4 7 6881), ResConnect \<lparr>cs_transaction_id = 9,
     cs_connection_id = issued_at (xc_mac sample_crates) 0 (Canonical (SocketV4 7 6881))\<rparr>)"

lemma sample_message:
  "ref_parse_msg True (ref_recv_buffer True 512 sample_name sample_connect) = Some
     \<lparr>rm_name_truncated = False, rm_payload_truncated = False, rm_name = sample_name, rm_payload = sample_connect\<rparr>"
  by (rule recv_msgs.parse_whole) (simp_all add: sample_name_facts sample_connect_length name_length_def)

lemma sample_buffer_answered:
  "\<exists>wk'. answer_buffer sample_worker_config sample_uring_crates sample_env True
      (ref_recv_buffer True 512 sample_name sample_connect) sample_worker = Some (Some sample_answer, wk')"
proof -
  have "rel_option (same_answer (canonical_new (recv_name True sample_name)))
      (answer_buffer sample_worker_config sample_uring_crates sample_env True
        (ref_recv_buffer True 512 sample_name sample_connect) sample_worker)
      (datagram_answer sample_worker_config sample_crates sample_env sample_connect (SocketV4 7 6881) sample_worker)"
    using answer_alike [of sample_uring_crates True "ref_recv_buffer True 512 sample_name sample_connect", OF _ _ _ _,
      of _ sample_worker_config sample_env sample_worker] sample_message
    by (simp add: sample_uring_crates_def sample_name_facts(2) sample_connect_length BUFFER_SIZE_def)
  then show ?thesis
    by (auto simp: sample_connect_answer sample_name_facts(2) same_answer_def sample_answer_def option_rel_Some2)
qed

definition sample_running :: "sqe list \<Rightarrow> (nat list, unit) uring_worker \<Rightarrow> (nat list, unit) uring_system" where
  "sample_running es w = \<lparr>us_worker = w, us_head = 1, us_taken = [], us_in_flight = es, us_waiting = True\<rparr>"

lemma sample_received:
  "\<exists>ring wk. (uring_step sample_worker_config sample_uring_crates 4)\<^sup>*\<^sup>* (system_start sample_uring)
     (sample_running [SqePulse, SqeRecv True, SqeRecv False]
       (sample_uring\<lparr>ug_ring := ring, ug_service := wk, ug_local_responses := [sample_answer], ug_resubmit := []\<rparr>))"
proof -
  let ?step = "uring_step sample_worker_config sample_uring_crates 4"
  define w1 where "w1 = sample_uring\<lparr>ug_resubmit := []\<rparr>"
  define s1 where "s1 = \<lparr>us_worker = w1, us_head = 0, us_taken = [],
    us_in_flight = [SqePulse, SqeRecv True, SqeRecv False], us_waiting = True\<rparr>"
  have sub: "uring_submit 4 (Inr m) sample_uring = Some ([SqePulse, SqeRecv True, SqeRecv False], 1, w1)"
    by (simp add: uring_submit_def uring_fill_def sample_uring_def w1_def Let_def numeral_eq_Suc)
  have "?step (system_start sample_uring) s1"
    using uring_step.submits [of "system_start sample_uring" 4 _ _ _ w1 sample_worker_config sample_uring_crates] sub
    by (simp add: system_start_def s1_def)
  define s2 where "s2 = s1\<lparr>us_head := 1, us_taken := [0]\<rparr>"
  have "?step s1 s2"
    using uring_step.takes [of s1 sample_worker_config sample_uring_crates 4]
    by (simp add: s1_def s2_def w1_def sample_uring_def sample_ring4_def entry_at_def mask_of_def)
  obtain wk' where a: "answer_buffer sample_worker_config sample_uring_crates sample_env True
      (ref_recv_buffer True 512 sample_name sample_connect) sample_worker = Some (Some sample_answer, wk')"
    using sample_buffer_answered by blast
  have l: "length (ref_recv_buffer True 512 sample_name sample_connect) = 48"
    by (simp add: ref_recv_buffer_def Let_def sample_connect_length name_length_def sample_name_def)
  obtain r' where r': "dropping_bid 0 (metric_getting_another sample_ring4) = Some r'"
    by (simp add: dropping_bid_def buf_ring_add_def metric_getting_another_def sample_ring4_def stable_ptr_def Let_def)
  define w3 where "w3 = sample_uring\<lparr>ug_ring := r', ug_service := wk', ug_local_responses := [sample_answer], ug_resubmit := []\<rparr>"
  have "handle_recv_cqe sample_worker_config sample_uring_crates sample_cqe True w1 =
      Some (Some sample_answer, w1\<lparr>ug_ring := r', ug_service := wk'\<rparr>)"
    using a l r' by (simp add: handle_recv_cqe_def sample_cqe_def w1_def sample_uring_def get_buf_def stable_ptr_def
      sample_ring4_def metric_getting_another_def Let_def)
  then have "handle_cqe sample_worker_config sample_uring_crates sample_cqe w1 = Some w3"
    by (simp add: handle_cqe_def sample_cqe_def push_answer_def w1_def w3_def sample_uring_def)
  then have "?step s2 (sample_running [SqePulse, SqeRecv True, SqeRecv False] w3)"
    using uring_step.completes [of s2 "SqeRecv True" sample_cqe sample_worker_config sample_uring_crates w3 4]
    by (simp add: s2_def s1_def sample_running_def sample_cqe_def w1_def sample_uring_def sample_ring4_def)
  then have "?step\<^sup>*\<^sup>* (system_start sample_uring) (sample_running [SqePulse, SqeRecv True, SqeRecv False] w3)"
    using \<open>?step (system_start sample_uring) s1\<close> \<open>?step s1 s2\<close>
    by (meson converse_rtranclp_into_rtranclp rtranclp.rtrancl_refl)
  then show ?thesis unfolding w3_def by blast
qed


lemma enqueue_none: "ug_local_responses w = [] \<Longrightarrow> enqueue_responses n w = Some ([], w)"
  by (cases n) simp_all

lemma sample_prepared:
  "\<exists>send. prepare_entry True (snd sample_answer) (fst sample_answer) (send_buffers_new 4) = Some (Prepared 0, send)"
proof -
  have f: "next_free_index (send_buffers_new 4) = Some 0"
    by (simp add: next_free_index_def send_buffers_new_def send_buffer_new_def numeral_eq_Suc)
  show ?thesis
    by (simp add: prepare_entry_def f prepare_buffer_def sample_answer_def write_connect_length RESPONSE_BUF_LEN_def Let_def)
qed

lemma sample_submitted:
  "\<exists>w'. uring_submit 4 (Inr m) (sample_uring\<lparr>ug_ring := ring, ug_service := wk, ug_local_responses := [sample_answer],
      ug_send := send_buffers_new 4, ug_resubmit := []\<rparr>) = Some ([SqeSend 0 True], 1, w')"
    (is "\<exists>w'. uring_submit 4 (Inr m) ?w = _")
proof -
  obtain send where p: "prepare_entry True (snd sample_answer) (fst sample_answer) (send_buffers_new 4) =
      Some (Prepared 0, send)" using sample_prepared by blast
  have v: "send_to_ipv4_socket (fst sample_answer) ?w = Some True"
    by (simp add: send_to_ipv4_socket_def sample_answer_def sample_uring_def)
  have "enqueue_responses (Suc 3) ?w = Some ([SqeSend 0 True], ?w\<lparr>ug_send := send, ug_local_responses := []\<rparr>)"
    unfolding enqueue_responses.simps(2) using p v by (simp add: enqueue_none case_prod_unfold)
  then have "enqueue_responses 4 ?w = Some ([SqeSend 0 True], ?w\<lparr>ug_send := send, ug_local_responses := []\<rparr>)"
    by simp
  then show ?thesis by (simp add: uring_submit_def uring_fill_def Let_def)
qed

lemma sample_sending:
  "\<exists>s. (uring_step sample_worker_config sample_uring_crates 4)\<^sup>*\<^sup>* (system_start sample_uring) s \<and>
    us_waiting s \<and> sends (us_in_flight s) = [0]"
proof -
  let ?step = "uring_step sample_worker_config sample_uring_crates 4"
  obtain ring wk where r: "?step\<^sup>*\<^sup>* (system_start sample_uring)
     (sample_running [SqePulse, SqeRecv True, SqeRecv False]
       (sample_uring\<lparr>ug_ring := ring, ug_service := wk, ug_local_responses := [sample_answer], ug_resubmit := []\<rparr>))"
    using sample_received by blast
  define w where "w = sample_uring\<lparr>ug_ring := ring, ug_service := wk, ug_local_responses := [sample_answer],
      ug_send := send_buffers_new 4, ug_resubmit := []\<rparr>"
  define s where "s = (sample_running [SqePulse, SqeRecv True, SqeRecv False] w)\<lparr>us_waiting := False\<rparr>"
  have "reset_likely_next_free_index (send_buffers_new 4) = send_buffers_new 4"
    by (simp add: reset_likely_next_free_index_def send_buffers_new_def)
  then have "?step (sample_running [SqePulse, SqeRecv True, SqeRecv False]
       (sample_uring\<lparr>ug_ring := ring, ug_service := wk, ug_local_responses := [sample_answer], ug_resubmit := []\<rparr>)) s"
    using uring_step.rests [of "sample_running [SqePulse, SqeRecv True, SqeRecv False]
       (sample_uring\<lparr>ug_ring := ring, ug_service := wk, ug_local_responses := [sample_answer], ug_resubmit := []\<rparr>)"
       sample_worker_config sample_uring_crates 4]
    by (simp add: s_def w_def sample_running_def sample_uring_def)
  moreover obtain w' where "uring_submit 4 (Inr m) w = Some ([SqeSend 0 True], 1, w')"
    using sample_submitted unfolding w_def by blast
  then have "?step s (s\<lparr>us_worker := w', us_in_flight := us_in_flight s @ [SqeSend 0 True], us_waiting := True\<rparr>)"
    by (intro uring_step.submits) (simp_all add: s_def sample_running_def)
  ultimately have "?step\<^sup>*\<^sup>* (system_start sample_uring)
      (s\<lparr>us_worker := w', us_in_flight := us_in_flight s @ [SqeSend 0 True], us_waiting := True\<rparr>)" (is "?step\<^sup>*\<^sup>* _ ?s")
    using r by (meson rtranclp.rtrancl_into_rtrancl)
  moreover have "us_waiting ?s" "sends (us_in_flight ?s) = [0]" by (simp_all add: s_def sample_running_def)
  ultimately show ?thesis by blast
qed

lemma backends_answer_alike_witness:
  "rel_option (same_answer (canonical_new (recv_name True sample_name)))
    (answer_buffer sample_worker_config sample_uring_crates sample_env True
      (ref_recv_buffer True 512 sample_name sample_connect) sample_worker)
    (datagram_answer sample_worker_config sample_crates sample_env sample_connect (recv_name True sample_name) sample_worker)"
  using backends_answer_alike [of sample_uring_crates True "ref_recv_buffer True 512 sample_name sample_connect", OF _ _ _ _,
      of _ sample_worker_config sample_env sample_worker] sample_message
  by (simp add: sample_uring_crates_def sample_connect_length BUFFER_SIZE_def)

lemma responses_are_submitted_in_order_witness:
  "\<exists>(w :: (nat list, unit) uring_worker) (w' :: (nat list, unit) uring_worker) k ss. ug_local_responses w = [sample_answer] \<and>
    list_all2 (carries w') ss (filter fits_buffer (take k [sample_answer])) \<and>
    sends_added (sends ss) (ug_send w) (ug_send w') \<and> ss = [SqeSend 0 True]"
proof -
  define w where "w = sample_uring\<lparr>ug_ring := sample_ring4, ug_service := sample_worker,
      ug_local_responses := [sample_answer], ug_send := send_buffers_new 4, ug_resubmit := []\<rparr>"
  obtain w' where "uring_submit 4 (Inr m) w = Some ([SqeSend 0 True], 1, w')"
    using sample_submitted unfolding w_def by blast
  from responses_are_submitted_in_order [OF this] obtain k ss where
    "[SqeSend 0 True] = ug_resubmit w @ ss" "list_all2 (carries w') ss (filter fits_buffer (take k (ug_local_responses w)))"
    "sends_added (sends ss) (ug_send w) (ug_send w')" by blast
  moreover have "ug_resubmit w = []" "ug_local_responses w = [sample_answer]" by (simp_all add: w_def)
  ultimately show ?thesis by (intro exI [of _ w] exI [of _ w'] exI [of _ k] exI [of _ ss]) simp
qed

lemma uring_keeps_receiving_witness:
  "\<exists>s :: (nat list, unit) uring_system. us_waiting s \<and> sends (us_in_flight s) = [0] \<and>
    mset (filter (\<lambda>e. \<not> is_send e) (us_in_flight s)) + mset (ug_resubmit (us_worker s)) =
      mset [SqePulse, SqeRecv True, SqeRecv False] \<and>
    mset (map rn_bid (window (ug_ring (us_worker s)) (us_head s))) + mset (us_taken s) =
      mset (all_bids sample_ring4)"
  using sample_sending uring_keeps_receiving [OF sample_uring_laws(1) sample_uring_started sample_uring_laws(2)]
  by (fastforce simp: sample_uring_def)

lemma uring_panics_only_when_entering_fails_witness:
  "\<exists>s :: (nat list, unit) uring_system. sends (us_in_flight s) = [0] \<and> uring_submit 4 (Inr 1) (us_worker s) \<noteq> None \<and>
    uring_submit 4 (Inl Interrupted) (us_worker s) = None \<and>
    (\<forall>e \<in> set (us_in_flight s). \<forall>c. completes_as (ug_ring (us_worker s)) (us_taken s) e c \<longrightarrow>
       handle_cqe sample_worker_config sample_uring_crates c (us_worker s) \<noteq> None)"
proof -
  obtain s where s: "(uring_step sample_worker_config sample_uring_crates 4)\<^sup>*\<^sup>* (system_start sample_uring) s"
    "sends (us_in_flight s) = [0]" using sample_sending by blast
  have "3 \<le> (4 :: nat)" by simp
  note panics = uring_panics_only_when_entering_fails [OF sample_uring_laws(1) sample_uring_started sample_uring_laws(2) s(1) this]
  show ?thesis using panics [of "Inr 1"] panics [of "Inl Interrupted"] s(2) by auto
qed

lemma buffers_in_flight_are_not_touched_witness:
  "\<exists>(s :: (nat list, unit) uring_system) s'. uring_step sample_worker_config sample_uring_crates 4 s s' \<and> sends (us_in_flight s) = [0] \<and>
    \<not> sb_free (sbs_buffers (ug_send (us_worker s)) ! 0) \<and>
    sb_bytes (sbs_buffers (ug_send (us_worker s')) ! 0) = sb_bytes (sbs_buffers (ug_send (us_worker s)) ! 0)"
proof -
  obtain s where s: "(uring_step sample_worker_config sample_uring_crates 4)\<^sup>*\<^sup>* (system_start sample_uring) s"
    "us_waiting s" "sends (us_in_flight s) = [0]" using sample_sending by blast
  note step = uring_step.rests [OF s(2), of sample_worker_config sample_uring_crates 4]
  have "0 \<in> set (sends (us_in_flight s))" using s(3) by simp
  from buffers_in_flight_are_not_touched [OF sample_uring_laws(1) sample_uring_started sample_uring_laws(2)
    s(1) step this] step s(3)
  show ?thesis by blast
qed

definition long_scrape :: scrape_request where
  "long_scrape = \<lparr>sr_connection_id = issued_at (xc_mac sample_crates) 0 (Canonical (SocketV4 7 6881)),
     sr_transaction_id = 9, sr_info_hashes = replicate 24 0\<rparr>"

lemma large_scrapes_are_dropped_witness:
  "answer_buffer sample_worker_config sample_uring_crates sample_env True
      (ref_recv_buffer True (unat REQUEST_BUF_LEN) sample_name (write_scrape_request long_scrape)) sample_worker =
      Some (None, sample_worker) \<and>
    (\<exists>res wk'. datagram_answer sample_worker_config (ux_udp sample_uring_crates) sample_env
      (write_scrape_request long_scrape) (recv_name True sample_name) sample_worker = Some (Some (ResScrape res), wk'))"
proof (rule large_scrapes_are_dropped)
  show "recv_msg_crate (ux_parse_msg sample_uring_crates) ref_recv_buffer"
    by (simp add: sample_uring_crates_def recv_msgs.recv_msg_crate_axioms)
  show "length sample_name = name_length True" "socket_port (recv_name True sample_name) \<noteq> 0"
    by (simp_all add: sample_name_facts)
  show "wf_scrape (max_scrape_torrents (uc_protocol (wc_swarm sample_worker_config))) long_scrape"
    by (simp add: wf_scrape_def long_scrape_def sample_worker_config_def sample_config_def)
  show "(if True then 24 else 23) \<le> length (sr_info_hashes long_scrape)" by (simp add: long_scrape_def)
  show "\<not> is_list_banned sample_worker_config sample_env (canonical_new (recv_name True sample_name)) sample_worker"
    by (simp add: sample_name_facts is_list_banned_def sample_worker_def sample_worker_config_def is_banned_def
        ban_matches_def)
  show "\<not> is_private_ip_blocked sample_worker_config (canonical_new (recv_name True sample_name)) sample_worker"
    by (simp add: is_private_ip_blocked_def sample_worker_config_def request_filter_config_default_def)
  have "in_lifetime (wk_validator sample_worker) 0"
    by (simp add: in_lifetime_def sample_worker_def validator_new_def)
  then show "connection_id_valid (xc_mac (ux_udp sample_uring_crates)) (wk_validator sample_worker)
      (canonical_new (recv_name True sample_name)) (sr_connection_id long_scrape)"
    by (auto simp: valid_iff_issued sample_name_facts sample_uring_crates_def long_scrape_def)
qed

end
