(* ===== verification/Peer_Id.thy ===== *)
theory Peer_Id
  imports Udp_Protocol Crates
begin

text \<open>
  \<open>crates/peer_id/src/lib.rs\<close>: the client software a peer id names. The three regular expressions are
  fixed, and so are written out as the bytes they match: the first two have one match at most, the
  third takes as many bytes as it can before a hyphen. Versions and prefixes are texts in UTF-8.
\<close>

definition first_8_bytes_hex :: "hex_ops \<Rightarrow> peer_id \<Rightarrow> bytes" where
  "first_8_bytes_hex hex pid = from_utf8_lossy (hex_encode hex (take 8 (word_be 20 pid)))"

datatype peer_client =
    BitTorrent bytes
  | Deluge bytes
  | LibTorrentRakshasa bytes
  | LibTorrentRasterbar bytes
  | QBitTorrent bytes
  | Transmission bytes
  | UTorrent bytes
  | UTorrentEmbedded bytes
  | UTorrentMac bytes
  | UTorrentWeb bytes
  | Vuze bytes
  | WebTorrent bytes
  | WebTorrentDesktop bytes
  | Mainline bytes
  | OtherWithPrefixAndVersion bytes bytes
  | OtherWithPrefix bytes
  | OtherClient

text \<open>A byte as a character (\<open>as char\<close>), written in UTF-8.\<close>

definition latin1 :: "u8 \<Rightarrow> bytes" where
  "latin1 c = (if c < 128 then [c] else [0xC0 + word_of_nat (unat c div 64), 0x80 + word_of_nat (unat c mod 64)])"

definition dot :: bytes where
  "dot = str ''.''"

definition prerelease :: "u8 \<Rightarrow> bytes" where
  "prerelease c =
     (if c \<in> {100, 68} then str '' dev''
      else if c \<in> {97, 65} then str '' alpha''
      else if c \<in> {98, 66} then str '' beta''
      else if c \<in> {114, 82} then str '' rc''
      else if c \<in> {115, 83} then str '' stable''
      else latin1 c)"

definition three_digits_plus_prerelease :: "u8 \<Rightarrow> u8 \<Rightarrow> u8 \<Rightarrow> u8 \<Rightarrow> bytes" where
  "three_digits_plus_prerelease v1 v2 v3 v4 =
     latin1 v1 @ dot @ latin1 v2 @ dot @ latin1 v3 @ prerelease v4"

definition webtorrent :: "u8 \<Rightarrow> u8 \<Rightarrow> u8 \<Rightarrow> u8 \<Rightarrow> bytes" where
  "webtorrent v1 v2 v3 v4 =
     (let major = (if v1 = 48 then latin1 v2 else latin1 v1 @ latin1 v2);
          minor = (if v3 = 48 then latin1 v4 else latin1 v3 @ latin1 v4)
      in major @ dot @ minor)"

definition transmission_version :: "u8 \<Rightarrow> u8 \<Rightarrow> u8 \<Rightarrow> u8 \<Rightarrow> bytes" where
  "transmission_version v1 v2 v3 v4 =
     (if v1 = 48 \<and> v2 = 48 \<and> v3 = 48 then str ''0.'' @ latin1 v4
      else if v1 = 48 \<and> v2 = 48 then str ''0.'' @ latin1 v3 @ latin1 v4
      else latin1 v1 @ dot @ latin1 v2 @ latin1 v3)"

definition other_client :: "bytes \<Rightarrow> bytes \<Rightarrow> peer_client" where
  "other_client prefix version = OtherWithPrefixAndVersion (from_utf8_lossy prefix) (from_utf8_lossy version)"

definition from_four_bytes :: "bytes \<Rightarrow> bytes \<Rightarrow> u8 \<Rightarrow> u8 \<Rightarrow> u8 \<Rightarrow> u8 \<Rightarrow> peer_client" where
  "from_four_bytes prefix version v1 v2 v3 v4 =
     (let rakshasa = latin1 v1 @ dot @ latin1 v2 @ latin1 v3 @ dot @ latin1 v4;
          release = three_digits_plus_prerelease v1 v2 v3 v4
      in if prefix = str ''AZ'' then Vuze (latin1 v1 @ dot @ latin1 v2 @ dot @ latin1 v3 @ dot @ latin1 v4)
         else if prefix = str ''BT'' then BitTorrent release
         else if prefix = str ''DE'' then Deluge release
         else if prefix = str ''lt'' then LibTorrentRakshasa rakshasa
         else if prefix = str ''LT'' then LibTorrentRasterbar rakshasa
         else if prefix = str ''qB'' then QBitTorrent (latin1 v1 @ dot @ latin1 v2 @ dot @ latin1 v3)
         else if prefix = str ''TR'' then Transmission (transmission_version v1 v2 v3 v4)
         else if prefix = str ''UE'' then UTorrentEmbedded release
         else if prefix = str ''UM'' then UTorrentMac release
         else if prefix = str ''UT'' then UTorrent release
         else if prefix = str ''UW'' then UTorrentWeb release
         else if prefix = str ''WD'' then WebTorrentDesktop (webtorrent v1 v2 v3 v4)
         else if prefix = str ''WW'' then WebTorrent (webtorrent v1 v2 v3 v4)
         else other_client prefix version)"

definition from_six_bytes :: "bytes \<Rightarrow> bytes \<Rightarrow> peer_client" where
  "from_six_bytes prefix version =
     (if prefix \<noteq> str ''M'' then other_client prefix version
      else
        (case version of
           [a, b, c, d, e, f] \<Rightarrow>
             if b = 45 \<and> d = 45 \<and> f = 45 then Mainline (latin1 a @ dot @ latin1 c @ dot @ latin1 e)
             else if b = 45 \<and> e = 45 then Mainline (latin1 a @ dot @ latin1 c @ latin1 d @ dot @ latin1 f)
             else other_client prefix version
         | _ \<Rightarrow> other_client prefix version))"

definition from_prefix_and_version :: "bytes \<Rightarrow> bytes \<Rightarrow> peer_client" where
  "from_prefix_and_version prefix version =
     (case version of
        [v1, v2, v3, v4] \<Rightarrow> from_four_bytes prefix version v1 v2 v3 v4
      | _ \<Rightarrow> from_six_bytes prefix version)"

text \<open>The regular expressions: the parts they capture.\<close>

definition az_match :: "bytes \<Rightarrow> (bytes \<times> bytes) option" where
  "az_match bs =
     (if 8 \<le> length bs \<and> bs ! 0 = 45 \<and> list_all ascii_alphabetic (sub bs 1 2) \<and>
         list_all ascii_digit (sub bs 3 3) \<and> ascii_alphanumeric (bs ! 6)
      then Some (sub bs 1 2, sub bs 3 4) else None)"

definition mainline_match :: "bytes \<Rightarrow> (bytes \<times> bytes) option" where
  "mainline_match bs =
     (if 8 \<le> length bs \<and> ascii_alphabetic (bs ! 0) \<and>
         list_all (\<lambda>c. ascii_digit c \<or> c = 45) (sub bs 1 6) \<and> bs ! 7 = 45
      then Some (take 1 bs, sub bs 1 6) else None)"

fun hyphen_positions :: "nat \<Rightarrow> bytes \<Rightarrow> nat list" where
  "hyphen_positions i [] = []"
| "hyphen_positions i (c # cs) =
     (if ascii_alphanumeric c \<or> c = 45
      then (if c = 45 then [i] else []) @ hyphen_positions (Suc i) cs else [])"

definition prefix_match :: "bytes \<Rightarrow> bytes option" where
  "prefix_match bs =
     (case filter ((<) 0) (hyphen_positions 0 bs) of
        [] \<Rightarrow> None
      | ps \<Rightarrow> Some (take (last ps) bs))"

definition from_peer_id :: "peer_id \<Rightarrow> peer_client" where
  "from_peer_id pid =
     (let bs = word_be 20 pid in
      case az_match bs of
        Some (name, version) \<Rightarrow> from_prefix_and_version name version
      | None \<Rightarrow>
          (case mainline_match bs of
             Some (name, version) \<Rightarrow> from_prefix_and_version name version
           | None \<Rightarrow>
               (case prefix_match bs of
                  Some prefix \<Rightarrow> OtherWithPrefix (from_utf8_lossy prefix)
                | None \<Rightarrow> OtherClient)))"

fun display_client :: "peer_client \<Rightarrow> bytes" where
  "display_client (BitTorrent v) = str ''BitTorrent '' @ v"
| "display_client (Deluge v) = str ''Deluge '' @ v"
| "display_client (LibTorrentRakshasa v) = str ''lt (rakshasa) '' @ v"
| "display_client (LibTorrentRasterbar v) = str ''lt (rasterbar) '' @ v"
| "display_client (QBitTorrent v) = str ''QBitTorrent '' @ v"
| "display_client (Transmission v) = str ''Transmission '' @ v"
| "display_client (UTorrent v) = [0xC2, 0xB5] @ str ''Torrent '' @ v"
| "display_client (UTorrentEmbedded v) = [0xC2, 0xB5] @ str ''Torrent Emb. '' @ v"
| "display_client (UTorrentMac v) = [0xC2, 0xB5] @ str ''Torrent Mac '' @ v"
| "display_client (UTorrentWeb v) = [0xC2, 0xB5] @ str ''Torrent Web '' @ v"
| "display_client (Vuze v) = str ''Vuze '' @ v"
| "display_client (WebTorrent v) = str ''WebTorrent '' @ v"
| "display_client (WebTorrentDesktop v) = str ''WebTorrent Desktop '' @ v"
| "display_client (Mainline v) = str ''Mainline '' @ v"
| "display_client (OtherWithPrefixAndVersion prefix version) =
     str ''Other ('' @ prefix @ str '') ('' @ version @ str '')''"
| "display_client (OtherWithPrefix prefix) = str ''Other ('' @ prefix @ str '')''"
| "display_client OtherClient = str ''Other''"

subsection \<open>What the expressions match\<close>

text \<open>The prefix is the longest run of letters, digits and hyphens before a hyphen: what a greedy match takes.\<close>

definition prefix_byte :: "u8 \<Rightarrow> bool" where
  "prefix_byte c = (ascii_alphanumeric c \<or> c = 45)"

lemma ex_nat_split: "(\<exists>k. P k) \<longleftrightarrow> P 0 \<or> (\<exists>k. P (Suc k))"
  by (metis nat.exhaust)

lemma prefix_byte_hyphen [simp]: "prefix_byte 45"
  by (simp add: prefix_byte_def)

lemma hyphen_positions_Cons:
  "hyphen_positions i (c # cs) =
     (if prefix_byte c then (if c = 45 then [i] else []) @ hyphen_positions (Suc i) cs else [])"
  by (simp add: prefix_byte_def)

lemma hyphen_positions_set:
  "j \<in> set (hyphen_positions i bs) \<longleftrightarrow>
    (\<exists>k. j = i + k \<and> k < length bs \<and> bs ! k = 45 \<and> list_all prefix_byte (take k bs))"
proof (induction bs arbitrary: i)
  case (Cons c cs)
  show ?case
    by (subst ex_nat_split) (auto simp: Cons.IH hyphen_positions_Cons simp del: hyphen_positions.simps(2))
qed simp

lemma hyphen_positions_sorted: "sorted (hyphen_positions i bs)"
proof (induction bs arbitrary: i)
  case (Cons c cs)
  then show ?case by (auto simp: hyphen_positions_set)
qed simp

lemma sorted_last: "sorted xs \<Longrightarrow> x \<in> set xs \<Longrightarrow> x \<le> last xs"
  by (induction xs) (auto split: if_splits)

definition prefix_of :: "bytes \<Rightarrow> nat \<Rightarrow> bool" where
  "prefix_of bs k = (0 < k \<and> k < length bs \<and> bs ! k = 45 \<and> list_all prefix_byte (take k bs))"

lemma prefix_match_longest:
  "prefix_match bs = Some p \<longleftrightarrow> (\<exists>k. prefix_of bs k \<and> (\<forall>j. prefix_of bs j \<longrightarrow> j \<le> k) \<and> p = take k bs)"
proof -
  let ?ps = "filter ((<) 0) (hyphen_positions 0 bs)"
  have mem: "k \<in> set ?ps \<longleftrightarrow> prefix_of bs k" for k
    by (auto simp: hyphen_positions_set prefix_of_def)
  have s: "sorted ?ps" by (simp add: hyphen_positions_sorted sorted_wrt_filter)
  show ?thesis
  proof (cases "?ps = []")
    case True
    then have "\<not> prefix_of bs k" for k using mem [of k] by simp
    then show ?thesis using True by (simp add: prefix_match_def)
  next
    case False
    have "prefix_of bs (last ?ps)" using mem last_in_set [OF False] by blast
    moreover have "\<forall>j. prefix_of bs j \<longrightarrow> j \<le> last ?ps" using sorted_last [OF s] mem by blast
    moreover have "prefix_match bs = Some (take (last ?ps) bs)"
      using False by (simp add: prefix_match_def split: list.split)
    ultimately show ?thesis by (metis le_antisym option.inject)
  qed
qed

text \<open>The examples of the tests of the crate.\<close>

definition padded :: "string \<Rightarrow> bytes" where
  "padded s = str s @ replicate (20 - length s) 0"

lemmas client_evals = from_peer_id_def az_match_def mainline_match_def prefix_match_def padded_def str_def sub_def
  ascii_alphabetic_def ascii_upper_def ascii_lower_def ascii_digit_def ascii_alphanumeric_def from_prefix_and_version_def
  from_four_bytes_def from_six_bytes_def latin1_def dot_def three_digits_plus_prerelease_def prerelease_def
  transmission_version_def webtorrent_def Let_def word_be_inverse

lemma test_client_from_peer_id:
  "from_peer_id (be_word (padded ''-lt1234-k/asdh3'')) = LibTorrentRakshasa (str ''1.23.4'')"
  "from_peer_id (be_word (padded ''-DE123s-k/asdh3'')) = Deluge (str ''1.2.3 stable'')"
  "from_peer_id (be_word (padded ''-DE123r-k/asdh3'')) = Deluge (str ''1.2.3 rc'')"
  "from_peer_id (be_word (padded ''-UT123A-k/asdh3'')) = UTorrent (str ''1.2.3 alpha'')"
  "from_peer_id (be_word (padded ''-TR0012-k/asdh3'')) = Transmission (str ''0.12'')"
  "from_peer_id (be_word (padded ''-TR1212-k/asdh3'')) = Transmission (str ''1.21'')"
  "from_peer_id (be_word (padded ''-WW0102-k/asdh3'')) = WebTorrent (str ''1.2'')"
  "from_peer_id (be_word (padded ''-WW1302-k/asdh3'')) = WebTorrent (str ''13.2'')"
  "from_peer_id (be_word (padded ''-WW1324-k/asdh3'')) = WebTorrent (str ''13.24'')"
  "from_peer_id (be_word (padded ''M1-2-3--k/asdh3'')) = Mainline (str ''1.2.3'')"
  "from_peer_id (be_word (padded ''M1-23-4-k/asdh3'')) = Mainline (str ''1.23.4'')"
  by (simp_all add: client_evals)

lemma test_client_with_prefix:
  "az_match (padded ''S3-k/asdh3'') = None" "mainline_match (padded ''S3-k/asdh3'') = None"
  "prefix_match (padded ''S3-k/asdh3'') = Some (str ''S3'')"
  by (simp_all add: client_evals)

end
