(* ===== verification/Udp_Statistics.thy ===== *)
theory Udp_Statistics
  imports Udp_Worker Peer_Id
begin

text \<open>
  \<open>crates/udp/src/workers/statistics/mod.rs\<close> and \<open>collector.rs\<close>: the statistics worker of the UDP
  tracker. It takes the messages of the swarm off their channel, drains the counters of the socket
  workers and counts the clients of the peers. What it shows is the data it collects: the rates, which
  are floating point, their formatting, the HTML page, the standard output and the metrics are not
  modelled. The histograms, the maps and the sorting are third-party code and arguments. The counts
  of a peer id's torrents are natural numbers: they stay far below \<open>2 ^ 64\<close>.
\<close>

subsection \<open>Histograms\<close>

record peer_histogram_statistics =
  ph_min :: u64
  ph_p10 :: u64
  ph_p20 :: u64
  ph_p30 :: u64
  ph_p40 :: u64
  ph_p50 :: u64
  ph_p60 :: u64
  ph_p70 :: u64
  ph_p80 :: u64
  ph_p90 :: u64
  ph_p95 :: u64
  ph_p99 :: u64
  ph_p999 :: u64
  ph_max :: u64

text \<open>What a histogram tells; percentiles are given in tenths of a percent.\<close>

record 'h histogram_reads =
  hr_min :: "'h \<Rightarrow> u64"
  hr_max :: "'h \<Rightarrow> u64"
  hr_value_at_percentile :: "'h \<Rightarrow> nat \<Rightarrow> u64"

definition peer_histogram_default :: peer_histogram_statistics where
  "peer_histogram_default = \<lparr>ph_min = 0, ph_p10 = 0, ph_p20 = 0, ph_p30 = 0, ph_p40 = 0, ph_p50 = 0,
     ph_p60 = 0, ph_p70 = 0, ph_p80 = 0, ph_p90 = 0, ph_p95 = 0, ph_p99 = 0, ph_p999 = 0, ph_max = 0\<rparr>"

definition peer_histogram_new :: "'h histogram_reads \<Rightarrow> 'h \<Rightarrow> peer_histogram_statistics" where
  "peer_histogram_new hr h =
     (let at = hr_value_at_percentile hr h in
      \<lparr>ph_min = hr_min hr h, ph_p10 = at 100, ph_p20 = at 200, ph_p30 = at 300, ph_p40 = at 400,
       ph_p50 = at 500, ph_p60 = at 600, ph_p70 = at 700, ph_p80 = at 800, ph_p90 = at 900, ph_p95 = at 950,
       ph_p99 = at 990, ph_p999 = at 999, ph_max = hr_max hr h\<rparr>)"

subsection \<open>Collecting\<close>

record statistics_collector =
  sc_ip_version :: ip_version
  sc_last_update :: instant
  sc_last_complete_histogram :: peer_histogram_statistics

definition collector_new :: "instant \<Rightarrow> ip_version \<Rightarrow> statistics_collector" where
  "collector_new now v = \<lparr>sc_ip_version = v, sc_last_update = now,
     sc_last_complete_histogram = peer_histogram_default\<rparr>"

definition add_histogram :: "'h histogram_reads \<Rightarrow> 'h \<Rightarrow> statistics_collector \<Rightarrow> statistics_collector" where
  "add_histogram hr h c = c\<lparr>sc_last_complete_histogram := peer_histogram_new hr h\<rparr>"

definition no_statistics :: socket_worker_statistics where
  "no_statistics = \<lparr>sk_requests = 0, sk_responses_connect = 0, sk_responses_announce = 0,
     sk_responses_scrape = 0, sk_responses_error = 0, sk_bytes_received = 0, sk_bytes_sent = 0\<rparr>"

definition add_statistics ::
  "socket_worker_statistics \<Rightarrow> socket_worker_statistics \<Rightarrow> socket_worker_statistics" where
  "add_statistics a b =
     \<lparr>sk_requests = sk_requests a + sk_requests b,
      sk_responses_connect = sk_responses_connect a + sk_responses_connect b,
      sk_responses_announce = sk_responses_announce a + sk_responses_announce b,
      sk_responses_scrape = sk_responses_scrape a + sk_responses_scrape b,
      sk_responses_error = sk_responses_error a + sk_responses_error b,
      sk_bytes_received = sk_bytes_received a + sk_bytes_received b,
      sk_bytes_sent = sk_bytes_sent a + sk_bytes_sent b\<rparr>"

text \<open>The counters of one address family, set.\<close>

fun set_by_ip_version :: "ip_version \<Rightarrow> 'a \<Rightarrow> 'a ip_version_statistics \<Rightarrow> 'a ip_version_statistics" where
  "set_by_ip_version IpV4 x s = s\<lparr>stats_ipv4 := x\<rparr>"
| "set_by_ip_version IpV6 x s = s\<lparr>stats_ipv6 := x\<rparr>"

text \<open>The loop over the socket workers: each counter is read and set to zero, and added to its sum.\<close>

fun drain_counters ::
  "ip_version \<Rightarrow> socket_worker_statistics \<Rightarrow> socket_worker_statistics ip_version_statistics list \<Rightarrow>
   socket_worker_statistics \<times> socket_worker_statistics ip_version_statistics list" where
  "drain_counters v sums [] = (sums, [])"
| "drain_counters v sums (s # ss) =
     (let (sums', ss') = drain_counters v (add_statistics sums (by_ip_version v s)) ss
      in (sums', set_by_ip_version v no_statistics s # ss'))"

record collected_statistics =
  cd_counters :: socket_worker_statistics
  cd_num_torrents :: nat
  cd_num_peers :: nat
  cd_elapsed :: nat
  cd_peer_histogram :: peer_histogram_statistics

record shared_statistics =
  st_socket :: "socket_worker_statistics ip_version_statistics list"
  st_swarm :: "swarm_statistics ip_version_statistics"

definition collect_from_shared ::
  "instant \<Rightarrow> statistics_collector \<Rightarrow> shared_statistics \<Rightarrow>
   collected_statistics \<times> statistics_collector \<times> shared_statistics" where
  "collect_from_shared now c st =
     (let (sums, socket') = drain_counters (sc_ip_version c) no_statistics (st_socket st);
          swarm = by_ip_version (sc_ip_version c) (st_swarm st)
      in (\<lparr>cd_counters = sums, cd_num_torrents = sw_torrents swarm, cd_num_peers = sw_peers swarm,
           cd_elapsed = now - sc_last_update c, cd_peer_histogram = sc_last_complete_histogram c\<rparr>,
          c\<lparr>sc_last_update := now\<rparr>, st\<lparr>st_socket := socket'\<rparr>))"

subsection \<open>The worker\<close>

text \<open>A peer id with the number of its peers, its client and its prefix.\<close>

type_synonym peer_counts = "(peer_id, nat \<times> peer_client \<times> bytes) index_map"

record 'h statistics_crates =
  sx_peers :: "(peer_id, nat \<times> peer_client \<times> bytes) index_map_ops"
  sx_clients :: "(peer_client, nat) index_map_ops"
  sx_sort_by_count :: "(peer_client, nat) index_map \<Rightarrow> (peer_client, nat) index_map"
  sx_format :: "nat \<Rightarrow> bytes"
  sx_hex :: hex_ops
  sx_histograms :: "'h histogram_reads"

definition process_peer_client_data :: "udp_statistics_config \<Rightarrow> bool" where
  "process_peer_client_data c = ((write_html_to_file c \<or> run_prometheus_endpoint c) \<and> peer_clients c)"

definition peer_added :: "'h statistics_crates \<Rightarrow> peer_id \<Rightarrow> peer_counts \<Rightarrow> peer_counts" where
  "peer_added sx pid peers =
     (case map_of peers pid of
        Some (n, client, prefix) \<Rightarrow> im_insert (sx_peers sx) pid (n + 1, client, prefix) peers
      | None \<Rightarrow> im_insert (sx_peers sx) pid (1, from_peer_id pid, first_8_bytes_hex (sx_hex sx) pid) peers)"

definition peer_removed :: "'h statistics_crates \<Rightarrow> peer_id \<Rightarrow> peer_counts \<Rightarrow> peer_counts" where
  "peer_removed sx pid peers =
     (case map_of peers pid of
        Some (n, client, prefix) \<Rightarrow>
          if n - 1 = 0 then im_swap_remove (sx_peers sx) pid peers
          else im_insert (sx_peers sx) pid (n - 1, client, prefix) peers
      | None \<Rightarrow> peers)"

record statistics_state =
  ss_collector4 :: statistics_collector
  ss_collector6 :: statistics_collector
  ss_peers :: peer_counts

fun handle_statistics_message ::
  "'h statistics_crates \<Rightarrow> udp_statistics_config \<Rightarrow> 'h statistics_message \<Rightarrow> statistics_state \<Rightarrow>
   statistics_state" where
  "handle_statistics_message sx cf (Ipv4PeerHistogram h) s =
     s\<lparr>ss_collector4 := add_histogram (sx_histograms sx) h (ss_collector4 s)\<rparr>"
| "handle_statistics_message sx cf (Ipv6PeerHistogram h) s =
     s\<lparr>ss_collector6 := add_histogram (sx_histograms sx) h (ss_collector6 s)\<rparr>"
| "handle_statistics_message sx cf (PeerAdded pid) s =
     (if process_peer_client_data cf then s\<lparr>ss_peers := peer_added sx pid (ss_peers s)\<rparr> else s)"
| "handle_statistics_message sx cf (PeerRemoved pid) s =
     (if process_peer_client_data cf then s\<lparr>ss_peers := peer_removed sx pid (ss_peers s)\<rparr> else s)"

definition handle_statistics_messages ::
  "'h statistics_crates \<Rightarrow> udp_statistics_config \<Rightarrow> 'h statistics_message list \<Rightarrow> statistics_state \<Rightarrow>
   statistics_state" where
  "handle_statistics_messages sx cf ms s = fold (handle_statistics_message sx cf) ms s"

text \<open>Every peer id counts once for its client.\<close>

definition count_client ::
  "'h statistics_crates \<Rightarrow> peer_client \<Rightarrow> (peer_client, nat) index_map \<Rightarrow> (peer_client, nat) index_map" where
  "count_client sx client clients =
     im_insert (sx_clients sx) client
       ((case map_of clients client of Some n \<Rightarrow> n | None \<Rightarrow> 0) + 1) clients"

definition count_clients :: "'h statistics_crates \<Rightarrow> peer_counts \<Rightarrow> (peer_client, nat) index_map" where
  "count_clients sx peers = fold (\<lambda>(_, _, client, _). count_client sx client) peers []"

definition client_rows ::
  "'h statistics_crates \<Rightarrow> udp_statistics_config \<Rightarrow> peer_counts \<Rightarrow> (bytes \<times> bytes) list" where
  "client_rows sx cf peers =
     (if process_peer_client_data cf \<and> write_html_to_file cf
      then map (\<lambda>(client, n). (display_client client, sx_format sx n))
        (sx_sort_by_count sx (count_clients sx peers))
      else [])"

text \<open>One round: the messages waiting, both families, and the rows of the page.\<close>

record statistics_page =
  pg_ipv4 :: collected_statistics
  pg_ipv6 :: collected_statistics
  pg_peer_clients :: "(bytes \<times> bytes) list"

definition statistics_round ::
  "'h statistics_crates \<Rightarrow> udp_statistics_config \<Rightarrow> 'h statistics_message list \<Rightarrow> instant \<Rightarrow>
   statistics_state \<times> shared_statistics \<Rightarrow> statistics_page \<times> statistics_state \<times> shared_statistics" where
  "statistics_round sx cf ms now st =
     (let (s, shared) = st;
          s1 = handle_statistics_messages sx cf ms s;
          (collected4, c4, shared1) = collect_from_shared now (ss_collector4 s1) shared;
          (collected6, c6, shared2) = collect_from_shared now (ss_collector6 s1) shared1
      in (\<lparr>pg_ipv4 = collected4, pg_ipv6 = collected6, pg_peer_clients = client_rows sx cf (ss_peers s1)\<rparr>,
          s1\<lparr>ss_collector4 := c4, ss_collector6 := c6\<rparr>, shared2))"

definition statistics_start :: "instant \<Rightarrow> statistics_state" where
  "statistics_start now = \<lparr>ss_collector4 = collector_new now IpV4, ss_collector6 = collector_new now IpV6,
     ss_peers = []\<rparr>"

end
