(* ===== verification/Udp_Statistics_Spec.thy ===== *)
theory Udp_Statistics_Spec
  imports Udp_Statistics Udp_Swarm_Spec
begin

text \<open>
  What the statistics worker promises: every request, response and byte the socket workers count is
  reported in exactly one round, and the table of clients counts exactly the peer ids the swarm holds,
  as long as a peer keeps its id and no torrent with peers is taken off the access list.
\<close>

subsection \<open>Counters\<close>

lemma add_statistics_zero [simp]: "add_statistics no_statistics a = a" "add_statistics a no_statistics = a"
  by (simp_all add: add_statistics_def no_statistics_def)

lemma add_statistics_assoc: "add_statistics (add_statistics a b) c = add_statistics a (add_statistics b c)"
  by (simp add: add_statistics_def add.assoc)

lemma add_statistics_commute: "add_statistics a b = add_statistics b a"
  by (simp add: add_statistics_def add.commute)

lemma add_statistics_left_commute: "add_statistics a (add_statistics b c) = add_statistics b (add_statistics a c)"
  by (simp add: add_statistics_def add.left_commute)

lemmas add_statistics_ac = add_statistics_assoc add_statistics_commute add_statistics_left_commute

definition sum_statistics :: "socket_worker_statistics list \<Rightarrow> socket_worker_statistics" where
  "sum_statistics xs = foldr add_statistics xs no_statistics"

lemma sum_statistics_simps [simp]:
  "sum_statistics [] = no_statistics" "sum_statistics (x # xs) = add_statistics x (sum_statistics xs)"
  by (simp_all add: sum_statistics_def)

lemma sum_statistics_append [simp]:
  "sum_statistics (xs @ ys) = add_statistics (sum_statistics xs) (sum_statistics ys)"
  by (induction xs) (simp_all add: add_statistics_ac)

lemma sum_statistics_update:
  "i < length xs \<Longrightarrow>
   sum_statistics (xs[i := add_statistics (xs ! i) d]) = add_statistics (sum_statistics xs) d"
  by (induction xs arbitrary: i) (auto simp: add_statistics_ac split: nat.split)

lemma sum_statistics_zeros: "(\<And>x. x \<in> set xs \<Longrightarrow> x = no_statistics) \<Longrightarrow> sum_statistics xs = no_statistics"
  by (induction xs) auto

lemma by_set_counted [simp]:
  "by_ip_version u (set_by_ip_version v x s) = (if u = v then x else by_ip_version u s)"
  by (cases u; cases v) simp_all

lemma drain:
  "drain_counters v sums ss = (add_statistics sums (sum_statistics (map (by_ip_version v) ss)),
     map (set_by_ip_version v no_statistics) ss)"
  by (induction ss arbitrary: sums) (simp_all add: add_statistics_ac)

text \<open>What waits in the counters of a family.\<close>

definition counted :: "ip_version \<Rightarrow> shared_statistics \<Rightarrow> socket_worker_statistics" where
  "counted v st = sum_statistics (map (by_ip_version v) (st_socket st))"

lemma collect_counted:
  assumes "collect_from_shared now c st = (r, c', st')"
  shows "cd_counters r = counted (sc_ip_version c) st" and "sc_ip_version c' = sc_ip_version c"
    and "counted v st' = (if v = sc_ip_version c then no_statistics else counted v st)"
    and "length (st_socket st') = length (st_socket st)"
proof -
  have "r = fst (collect_from_shared now c st)" "c' = fst (snd (collect_from_shared now c st))"
    "st' = snd (snd (collect_from_shared now c st))" using assms by simp_all
  then show "cd_counters r = counted (sc_ip_version c) st" "sc_ip_version c' = sc_ip_version c"
    "length (st_socket st') = length (st_socket st)"
    "counted v st' = (if v = sc_ip_version c then no_statistics else counted v st)"
    by (auto simp: collect_from_shared_def drain counted_def Let_def comp_def intro!: sum_statistics_zeros)
qed

text \<open>
  What happens to the counters over time: a socket worker adds to its own, and the statistics worker
  runs a round.
\<close>

datatype 'h statistics_event =
    Counts nat ip_version socket_worker_statistics
  | Rounds "'h statistics_message list" instant

definition count_in ::
  "nat \<Rightarrow> ip_version \<Rightarrow> socket_worker_statistics \<Rightarrow> shared_statistics \<Rightarrow> shared_statistics" where
  "count_in i v d st = st\<lparr>st_socket := (st_socket st)[i :=
     set_by_ip_version v (add_statistics (by_ip_version v (st_socket st ! i)) d) (st_socket st ! i)]\<rparr>"

fun statistics_run ::
  "'h statistics_crates \<Rightarrow> udp_statistics_config \<Rightarrow> 'h statistics_event list \<Rightarrow>
   statistics_state \<times> shared_statistics \<Rightarrow> statistics_page list \<times> statistics_state \<times> shared_statistics" where
  "statistics_run sx cf [] (s, shared) = ([], s, shared)"
| "statistics_run sx cf (Counts i v d # es) (s, shared) = statistics_run sx cf es (s, count_in i v d shared)"
| "statistics_run sx cf (Rounds ms now # es) (s, shared) =
     (let (page, s', shared') = statistics_round sx cf ms now (s, shared);
          (pages, result) = statistics_run sx cf es (s', shared')
      in (page # pages, result))"

fun page_of :: "ip_version \<Rightarrow> statistics_page \<Rightarrow> collected_statistics" where
  "page_of IpV4 p = pg_ipv4 p"
| "page_of IpV6 p = pg_ipv6 p"

fun counts_of :: "ip_version \<Rightarrow> 'h statistics_event \<Rightarrow> socket_worker_statistics" where
  "counts_of u (Counts i v d) = (if u = v then d else no_statistics)"
| "counts_of u (Rounds ms now) = no_statistics"

fun event_of_worker :: "nat \<Rightarrow> 'h statistics_event \<Rightarrow> bool" where
  "event_of_worker n (Counts i v d) = (i < n)"
| "event_of_worker n (Rounds ms now) = True"

definition collectors_ok :: "statistics_state \<Rightarrow> bool" where
  "collectors_ok s = (sc_ip_version (ss_collector4 s) = IpV4 \<and> sc_ip_version (ss_collector6 s) = IpV6)"

lemma count_in_counted:
  assumes "i < length (st_socket st)"
  shows "counted u (count_in i v d st) = (if u = v then add_statistics (counted u st) d else counted u st)"
proof -
  have "map (by_ip_version u) (st_socket (count_in i v d st)) =
      (if u = v then (map (by_ip_version u) (st_socket st))[i := add_statistics (map (by_ip_version u) (st_socket st) ! i) d]
       else map (by_ip_version u) (st_socket st))"
    using assms by (auto simp: count_in_def map_update list_eq_iff_nth_eq nth_list_update)
  then show ?thesis
    using assms sum_statistics_update [of i "map (by_ip_version u) (st_socket st)" d]
    by (cases "u = v") (simp_all add: counted_def)
qed

lemma messages_collectors:
  "collectors_ok s \<Longrightarrow> collectors_ok (handle_statistics_messages sx cf ms s)"
proof (induction ms arbitrary: s)
  case (Cons m ms)
  have "collectors_ok (handle_statistics_message sx cf m s)"
    using Cons.prems by (cases m) (simp_all add: collectors_ok_def add_histogram_def)
  then show ?case using Cons.IH by (simp add: handle_statistics_messages_def)
qed (simp add: handle_statistics_messages_def)

lemma round_counted:
  assumes "statistics_round sx cf ms now (s, shared) = (page, s', shared')" and "collectors_ok s"
  shows "cd_counters (page_of v page) = counted v shared \<and> counted v shared' = no_statistics \<and>
    collectors_ok s' \<and> length (st_socket shared') = length (st_socket shared)"
proof -
  define s1 where "s1 = handle_statistics_messages sx cf ms s"
  have ok: "collectors_ok s1" unfolding s1_def by (rule messages_collectors [OF assms(2)])
  obtain r4 c4 sh1 where c4: "collect_from_shared now (ss_collector4 s1) shared = (r4, c4, sh1)"
    by (metis prod_cases3)
  obtain r6 c6 sh2 where c6: "collect_from_shared now (ss_collector6 s1) sh1 = (r6, c6, sh2)"
    by (metis prod_cases3)
  show ?thesis
    using assms(1) c4 c6 ok collect_counted [OF c4] collect_counted [OF c6]
    by (cases v) (auto simp: statistics_round_def s1_def collectors_ok_def Let_def)
qed

lemma run_counted:
  assumes "statistics_run sx cf es (s, shared) = (pages, s', shared')" and "collectors_ok s"
    and "list_all (event_of_worker (length (st_socket shared))) es"
  shows "add_statistics (sum_statistics (map (\<lambda>p. cd_counters (page_of v p)) pages)) (counted v shared') =
    add_statistics (counted v shared) (sum_statistics (map (counts_of v) es))"
  using assms
proof (induction es arbitrary: s shared pages)
  case Nil
  then show ?case by simp
next
  case (Cons e es)
  show ?case
  proof (cases e)
    case (Counts i u d)
    then have i: "i < length (st_socket shared)" using Cons.prems(3) by simp
    have "length (st_socket (count_in i u d shared)) = length (st_socket shared)" by (simp add: count_in_def)
    with Cons.IH [of s "count_in i u d shared" pages] Cons.prems Counts
    show ?thesis by (simp add: count_in_counted [OF i] add_statistics_ac)
  next
    case (Rounds ms now)
    obtain page s1 sh1 where r: "statistics_round sx cf ms now (s, shared) = (page, s1, sh1)"
      by (metis prod_cases3)
    obtain ps where ps: "statistics_run sx cf es (s1, sh1) = (ps, s', shared')" "pages = page # ps"
      using Cons.prems(1) Rounds r by (auto simp: Let_def split: prod.splits)
    have "add_statistics (sum_statistics (map (\<lambda>p. cd_counters (page_of v p)) ps)) (counted v shared') =
        add_statistics (counted v sh1) (sum_statistics (map (counts_of v) es))"
      using Cons.IH [OF ps(1)] Cons.prems(2,3) round_counted [OF r, of v] by simp
    then show ?thesis
      using round_counted [OF r, of v] Cons.prems(2) by (simp add: ps(2) Rounds add_statistics_assoc)
  qed
qed

lemma start_ok: "collectors_ok (statistics_start now)"
  by (simp add: collectors_ok_def statistics_start_def collector_new_def)

text \<open>Every count is reported once. However the socket workers' counting and the rounds interleave, what
  the pages report for an address family and what waits in the counters is, together, what waited
  before and what was counted since, for requests, each kind of response and bytes (modulo 2 to the 64th).\<close>

theorem counters_are_reported_once:
  assumes "statistics_run sx cf es (statistics_start now, shared) = (pages, s', shared')"
    and "list_all (event_of_worker (length (st_socket shared))) es"
  shows "add_statistics (sum_statistics (map (\<lambda>p. cd_counters (page_of v p)) pages)) (counted v shared') =
    add_statistics (counted v shared) (sum_statistics (map (counts_of v) es))"
  by (rule run_counted [OF assms(1) start_ok assms(2)])

subsection \<open>The table of peer ids\<close>

definition ids_in :: "peer_counts \<Rightarrow> peer_id \<Rightarrow> nat" where
  "ids_in peers pid = (case map_of peers pid of Some (n, _) \<Rightarrow> n | None \<Rightarrow> 0)"

definition table_ok :: "peer_counts \<Rightarrow> bool" where
  "table_ok peers = (distinct (im_keys peers) \<and>
     (\<forall>(pid, n, client, prefix) \<in> set peers. 0 < n \<and> client = from_peer_id pid))"

locale statistics_laws = peers: index_map "sx_peers sx" + clients: index_map "sx_clients sx"
  for sx :: "'h statistics_crates" +
  assumes sort_mset: "mset (sx_sort_by_count sx xs) = mset xs"
    and sort_sorted: "sorted_wrt (\<ge>) (map snd (sx_sort_by_count sx xs))"
begin

lemma table_of:
  "table_ok peers \<longleftrightarrow> distinct (im_keys peers) \<and>
     (\<forall>pid n client prefix. map_of peers pid = Some (n, client, prefix) \<longrightarrow> 0 < n \<and> client = from_peer_id pid)"
  by (fastforce simp: table_ok_def)

lemma present:
  assumes "table_ok peers" and "(pid, n, client, prefix) \<in> set peers"
  shows "0 < ids_in peers pid" "client = from_peer_id pid"
proof -
  have "map_of peers pid = Some (n, client, prefix)" using assms by (simp add: table_ok_def)
  moreover have "0 < n" "client = from_peer_id pid" using assms by (fastforce simp: table_ok_def)+
  ultimately show "0 < ids_in peers pid" "client = from_peer_id pid" by (simp_all add: ids_in_def)
qed

lemma listed:
  assumes "0 < ids_in peers pid"
  shows "\<exists>n client prefix. (pid, n, client, prefix) \<in> set peers"
  using assms by (auto simp: ids_in_def dest: map_of_SomeD split: option.splits)

lemma added_ok:
  assumes "table_ok peers"
  shows "table_ok (peer_added sx pid peers) \<and> ids_in (peer_added sx pid peers) = (ids_in peers)(pid := ids_in peers pid + 1)"
proof (cases "map_of peers pid")
  case None
  then show ?thesis
    using assms by (auto simp: table_of peer_added_def peers.map_of_insert peers.distinct_insert ids_in_def fun_eq_iff
      simp del: map_of_eq_Some_iff Some_eq_map_of_iff)
next
  case (Some v)
  obtain n client prefix where v: "v = (n, client, prefix)" by (metis prod_cases3)
  then show ?thesis
    using assms Some by (auto simp: table_of peer_added_def peers.map_of_insert peers.distinct_insert ids_in_def fun_eq_iff
      simp del: map_of_eq_Some_iff Some_eq_map_of_iff)
qed

lemma removed_ok:
  assumes "table_ok peers"
  shows "table_ok (peer_removed sx pid peers) \<and> ids_in (peer_removed sx pid peers) = (ids_in peers)(pid := ids_in peers pid - 1)"
proof (cases "map_of peers pid")
  case None
  then show ?thesis using assms by (auto simp: peer_removed_def ids_in_def fun_eq_iff)
next
  case (Some v)
  obtain n client prefix where v: "v = (n, client, prefix)" by (metis prod_cases3)
  then show ?thesis
    using assms Some
    by (auto simp: table_of peer_removed_def peers.map_of_insert peers.distinct_insert peers.map_of_swap_remove
        peers.distinct_swap_remove ids_in_def fun_eq_iff simp del: map_of_eq_Some_iff Some_eq_map_of_iff)
qed

text \<open>Every peer id of the table counts once.\<close>

lemma count_client_ok:
  assumes "distinct (im_keys clients)"
  shows "distinct (im_keys (count_client sx c clients))"
    and "map_of (count_client sx c clients) = (map_of clients)(c \<mapsto>
      (case map_of clients c of Some n \<Rightarrow> n | None \<Rightarrow> 0) + 1)"
  using assms by (simp_all add: count_client_def clients.map_of_insert clients.distinct_insert)

lemma count_clients_fold:
  assumes "distinct (im_keys clients)" and "\<forall>c n. map_of clients c = Some n \<longrightarrow> 0 < n"
  shows "distinct (im_keys (fold (\<lambda>(_, _, client, _). count_client sx client) peers clients)) \<and>
    (\<forall>c n. map_of (fold (\<lambda>(_, _, client, _). count_client sx client) peers clients) c = Some n \<longleftrightarrow>
      0 < n \<and> n = (case map_of clients c of Some m \<Rightarrow> m | None \<Rightarrow> 0) +
        length (filter (\<lambda>(_, _, client, _). client = c) peers))"
  using assms
proof (induction peers arbitrary: clients)
  case Nil
  then show ?case by (auto simp del: map_of_eq_Some_iff Some_eq_map_of_iff split: option.split)
next
  case (Cons e peers)
  obtain pid k client prefix where e: "e = (pid, k, client, prefix)" by (metis prod_cases4)
  have "distinct (im_keys (count_client sx client clients))"
    "\<forall>c n. map_of (count_client sx client clients) c = Some n \<longrightarrow> 0 < n"
    using Cons.prems by (simp_all add: count_client_ok)
  note step = Cons.IH [OF this]
  have "(case map_of (count_client sx client clients) c of Some m \<Rightarrow> m | None \<Rightarrow> 0) +
      length (filter (\<lambda>(_, _, client, _). client = c) peers) =
    (case map_of clients c of Some m \<Rightarrow> m | None \<Rightarrow> 0) +
      length (filter (\<lambda>(_, _, client, _). client = c) (e # peers))" for c
    using Cons.prems(1) by (simp add: e count_client_ok)
  then show ?case using step by (simp add: e)
qed

lemma client_table:
  assumes "table_ok peers"
  shows "distinct (im_keys (count_clients sx peers)) \<and>
    (\<forall>c n. map_of (count_clients sx peers) c = Some n \<longleftrightarrow>
      0 < n \<and> n = card {pid. 0 < ids_in peers pid \<and> from_peer_id pid = c})"
proof -
  have "length (filter (\<lambda>(_, _, client, _). client = c) peers) =
      card {pid. 0 < ids_in peers pid \<and> from_peer_id pid = c}" for c
  proof -
    have "{pid. 0 < ids_in peers pid \<and> from_peer_id pid = c} =
        fst ` set (filter (\<lambda>(_, _, client, _). client = c) peers)"
    proof (intro set_eqI iffI)
      fix pid assume "pid \<in> {pid. 0 < ids_in peers pid \<and> from_peer_id pid = c}"
      then obtain n client prefix where m: "(pid, n, client, prefix) \<in> set peers" and "from_peer_id pid = c"
        using listed by blast
      then have "(pid, n, client, prefix) \<in> set (filter (\<lambda>(_, _, client, _). client = c) peers)"
        using present(2) [OF assms m] by simp
      then show "pid \<in> fst ` set (filter (\<lambda>(_, _, client, _). client = c) peers)" by force
    next
      fix pid assume "pid \<in> fst ` set (filter (\<lambda>(_, _, client, _). client = c) peers)"
      then obtain n prefix where "(pid, n, c, prefix) \<in> set peers" by auto
      from present [OF assms this] show "pid \<in> {pid. 0 < ids_in peers pid \<and> from_peer_id pid = c}" by simp
    qed
    then have "card {pid. 0 < ids_in peers pid \<and> from_peer_id pid = c} =
        card (set (map fst (filter (\<lambda>(_, _, client, _). client = c) peers)))" by simp
    also have "\<dots> = length (map fst (filter (\<lambda>(_, _, client, _). client = c) peers))"
      using assms by (intro distinct_card) (simp add: table_ok_def distinct_map_filter)
    finally show ?thesis by simp
  qed
  then show ?thesis using count_clients_fold [of "[]" peers] by (simp add: count_clients_def)
qed

end

subsection \<open>The peers of the swarm\<close>

definition has_id :: "peer_id \<Rightarrow> peer \<Rightarrow> bool" where
  "has_id pid p = (p_peer_id p = pid)"

text \<open>How many peers of a shard, and of all, have an id.\<close>

definition shard_ids :: "peer_id \<Rightarrow> 'i torrent_map_shard \<Rightarrow> nat" where
  "shard_ids pid shard = sum_list (map (\<lambda>e. num_with (has_id pid) (pm_abs (td_peer_map (snd e)))) shard)"

definition stored :: "peer_id \<Rightarrow> 'i torrent_map_shards \<Rightarrow> nat" where
  "stored pid shards = sum_list (map (shard_ids pid) shards)"

definition swarm_ids :: "torrent_maps \<Rightarrow> peer_id \<Rightarrow> nat" where
  "swarm_ids maps pid = stored pid (tm_ipv4 maps) + stored pid (tm_ipv6 maps)"

fun adds :: "peer_id \<Rightarrow> 'h statistics_message list \<Rightarrow> nat" where
  "adds pid [] = 0"
| "adds pid (PeerAdded x # ms) = (if x = pid then 1 else 0) + adds pid ms"
| "adds pid (_ # ms) = adds pid ms"

fun removes :: "peer_id \<Rightarrow> 'h statistics_message list \<Rightarrow> nat" where
  "removes pid [] = 0"
| "removes pid (PeerRemoved x # ms) = (if x = pid then 1 else 0) + removes pid ms"
| "removes pid (_ # ms) = removes pid ms"

lemma adds_append [simp]: "adds pid (ms @ ns) = adds pid ms + adds pid ns"
  by (induction ms rule: adds.induct) simp_all

lemma removes_append [simp]: "removes pid (ms @ ns) = removes pid ms + removes pid ns"
  by (induction ms rule: removes.induct) simp_all

lemma num_with_upd:
  assumes "finite (dom m)"
  shows "num_with P (m(k \<mapsto> p)) + (case m k of Some q \<Rightarrow> if P q then 1 else 0 | None \<Rightarrow> 0) =
    num_with P m + (if P p then 1 else 0)"
    and "num_with P (m(k := None)) + (case m k of Some q \<Rightarrow> if P q then 1 else 0 | None \<Rightarrow> 0) = num_with P m"
proof -
  let ?S = "{x. \<exists>q. m x = Some q \<and> P q}"
  have f: "finite ?S" by (rule finite_subset [OF _ assms]) auto
  have r: "{x. \<exists>q. (m(k := None)) x = Some q \<and> P q} = ?S - {k}" by auto
  have a: "{x. \<exists>q. (m(k \<mapsto> p)) x = Some q \<and> P q} = (if P p then insert k (?S - {k}) else ?S - {k})" by auto
  have k: "k \<in> ?S \<longleftrightarrow> (case m k of Some q \<Rightarrow> P q | None \<Rightarrow> False)" by (auto split: option.split)
  have del: "card (?S - {k}) + (case m k of Some q \<Rightarrow> if P q then 1 else 0 | None \<Rightarrow> 0) = card ?S"
    using f k card_Suc_Diff1 [OF f, of k] by (cases "k \<in> ?S") (auto split: option.splits)
  then show "num_with P (m(k := None)) + (case m k of Some q \<Rightarrow> if P q then 1 else 0 | None \<Rightarrow> 0) = num_with P m"
    by (simp only: num_with_def r)
  show "num_with P (m(k \<mapsto> p)) + (case m k of Some q \<Rightarrow> if P q then 1 else 0 | None \<Rightarrow> 0) =
      num_with P m + (if P p then 1 else 0)"
  proof (cases "P p")
    case True
    have "card (insert k (?S - {k})) = Suc (card (?S - {k}))" using f by (intro card_insert_disjoint) simp_all
    then have "card (if P p then insert k (?S - {k}) else ?S - {k}) = card (?S - {k}) + 1"
      unfolding if_P [OF True] by simp
    then show ?thesis unfolding num_with_def a using del True by simp
  next
    case False
    then show ?thesis unfolding num_with_def a using del by simp
  qed
qed

lemma shard_ids_update:
  assumes "distinct (im_keys shard)"
  shows "shard_ids pid (AList.update h td shard) +
      (case map_of shard h of Some td0 \<Rightarrow> num_with (has_id pid) (pm_abs (td_peer_map td0)) | None \<Rightarrow> 0) =
    shard_ids pid shard + num_with (has_id pid) (pm_abs (td_peer_map td))"
  using assms
proof (induction shard)
  case Nil
  then show ?case by (simp add: shard_ids_def)
next
  case (Cons e shard)
  then have "fst e = h \<Longrightarrow> map_of shard h = None" by (auto simp: map_of_eq_None_iff)
  then show ?case using Cons by (cases e) (auto simp: shard_ids_def)
qed

lemma stored_update:
  "i < length shards \<Longrightarrow>
   stored pid (shards[i := shard]) + shard_ids pid (shards ! i) = stored pid shards + shard_ids pid shard"
  by (induction shards arbitrary: i) (auto simp: stored_def split: nat.split)

lemma entry_ids:
  assumes "distinct (im_keys shard)"
  shows "shard_ids pid (entry_or_default h shard) = shard_ids pid shard"
  using shard_ids_update [OF assms, of pid h torrent_data_default]
  by (auto simp: entry_or_default_def torrent_data_default_def)

lemma finite_pm_abs: "finite (dom (pm_abs pm))"
  by (simp add: pm_abs_def finite_dom_map_of)

text \<open>What an announce does to the peers with an id, and the message it sends.\<close>

definition previous_peer :: "announce_request \<Rightarrow> 'i \<Rightarrow> 'i torrent_map_shards \<Rightarrow> peer option" where
  "previous_peer req ip shards = fst (torrent_abs shards (ar_info_hash req)) (announcing_key req ip)"

definition counts_for :: "peer_id \<Rightarrow> peer option \<Rightarrow> nat" where
  "counts_for pid x = (case x of Some q \<Rightarrow> if has_id pid q then 1 else 0 | None \<Rightarrow> 0)"

lemma spec_announce_ids:
  assumes "finite (dom m)"
  shows "num_with (has_id pid) (spec_announce req ip vu m) + counts_for pid (m (announcing_key req ip)) =
    num_with (has_id pid) m +
      (if announce_status req \<noteq> StatusStopped \<and> ar_peer_id req = pid then 1 else 0)"
  using num_with_upd [OF assms, of "has_id pid" "announcing_key req ip"]
  by (simp add: spec_announce_def counts_for_def has_id_def announced_peer_def)

context udp_swarm
begin

lemma announced_peer_ids:
  assumes inv: "shards_inv shards"
    and an: "shards_announce im gen cf req ip vu r shards = Some (res, shards', ms :: 'h statistics_message list, r')"
  shows "stored pid shards' + counts_for pid (previous_peer req ip shards) = stored pid shards +
      (if announce_status req \<noteq> StatusStopped \<and> ar_peer_id req = pid then 1 else 0)"
    and "ms = spec_messages cf req (previous_peer req ip shards)"
proof -
  let ?h = "ar_info_hash req"
  let ?i = "shard_index shards ?h"
  define shard where "shard = entry_or_default ?h (get_shard shards ?h)"
  have i: "shard_inv (length shards) ?i shard"
    unfolding shard_def by (rule entry_inv [OF get_shard_inv [OF inv]]) (simp add: shard_index_def)
  obtain td where td: "map_of shard ?h = Some td" unfolding shard_def using entry_present by metis
  have "torrent_abs shards ?h = (pm_abs (td_peer_map td), pm_completed (td_peer_map td))"
    using td entry_abs [of ?h "get_shard shards ?h" ?h]
    by (simp add: torrent_abs_def shard_def td_abs_def)
  then have prev: "previous_peer req ip shards = pm_abs (td_peer_map td) (announcing_key req ip)"
    by (simp add: previous_peer_def)
  have "pm_inv (td_peer_map td)" using shard_inv_lookup [OF i td] by simp
  from announce_refines [OF this] obtain res1 pm' r1 where
    pa: "peer_map_announce im gen cf req ip vu r (td_peer_map td) =
      Some (res1, pm', spec_messages cf req (previous_peer req ip shards) :: 'h statistics_message list, r1)"
    and pm': "pm_abs pm' = spec_announce req ip vu (pm_abs (td_peer_map td))"
    unfolding prev by blast
  define shard' where "shard' = AList.update ?h (td\<lparr>td_peer_map := pm'\<rparr>) shard"
  have out: "shards' = shards[?i := shard']" "ms = spec_messages cf req (previous_peer req ip shards)"
    using an pa td by (simp_all add: shards_announce_def Let_def shard_def [symmetric] shard'_def)
  then show "ms = spec_messages cf req (previous_peer req ip shards)" by simp
  have d: "distinct (im_keys shard)" "distinct (im_keys (get_shard shards ?h))"
    using i get_shard_inv [OF inv] by (auto simp: shard_inv_def)
  have "shard_ids pid shard' + num_with (has_id pid) (pm_abs (td_peer_map td)) =
      shard_ids pid shard + num_with (has_id pid) (pm_abs pm')"
    using shard_ids_update [OF d(1), of pid ?h "td\<lparr>td_peer_map := pm'\<rparr>"] td by (simp add: shard'_def)
  moreover have "shard_ids pid shard = shard_ids pid (shards ! ?i)"
    using entry_ids [OF d(2)] by (simp add: shard_def get_shard_def)
  moreover have "stored pid shards' + shard_ids pid (shards ! ?i) = stored pid shards + shard_ids pid shard'"
    unfolding out by (rule stored_update [OF shard_index_less [OF inv]])
  ultimately show "stored pid shards' + counts_for pid (previous_peer req ip shards) = stored pid shards +
      (if announce_status req \<noteq> StatusStopped \<and> ar_peer_id req = pid then 1 else 0)"
    using spec_announce_ids [OF finite_pm_abs, of pid req ip vu "td_peer_map td"] by (simp add: pm' prev)
qed

end

text \<open>A peer that keeps its id is added or removed as the message says.\<close>

definition keeps_id :: "announce_request \<Rightarrow> peer option \<Rightarrow> bool" where
  "keeps_id req x = (\<forall>q. x = Some q \<longrightarrow> p_peer_id q = ar_peer_id req)"

lemma spec_messages_count:
  assumes "peer_clients (uc_statistics cf)" and "keeps_id req x"
  shows "counts_for pid x + adds pid (spec_messages cf req x) =
    removes pid (spec_messages cf req x) +
      (if announce_status req \<noteq> StatusStopped \<and> ar_peer_id req = pid then 1 else 0)"
  using assms by (cases x) (auto simp: spec_messages_def counts_for_def has_id_def keeps_id_def)

subsection \<open>Cleaning\<close>

lemma removes_map:
  "removes pid (map (\<lambda>(_, p). PeerRemoved (p_peer_id p)) es) = length (filter (\<lambda>e. has_id pid (snd e)) es)"
  "adds pid (map (\<lambda>(_, p). PeerRemoved (p_peer_id p)) es) = 0"
  by (induction es) (auto simp: has_id_def)

lemma large_retain_messages: "snd (snd (large_retain cf now es n)) = removed_messages cf now es"
  by (induction es arbitrary: n) (auto simp: removed_messages_def case_prod_unfold Let_def)

lemma clean_messages:
  assumes "peer_map_clean cf now pm = (pm', n, ms)"
  shows "ms = removed_messages cf now (pm_peers pm)"
  using assms
  by (cases pm) (auto simp: peer_map_clean_def small_clean_def large_clean_def case_prod_unfold Let_def
      large_retain_messages)

lemma clean_map_ids:
  assumes "pm_inv pm" and "peer_map_clean cf now pm = (pm', n, ms)" and "peer_clients (uc_statistics cf)"
  shows "num_with (has_id pid) (pm_abs pm') + removes pid ms = num_with (has_id pid) (pm_abs pm)" and "adds pid ms = 0"
proof -
  let ?live = "\<lambda>e. udp_alive now (snd e)"
  have ms: "ms = map (\<lambda>(_, p). PeerRemoved (p_peer_id p)) (filter (\<lambda>e. \<not> ?live e) (pm_peers pm))"
    using clean_messages [OF assms(2)] assms(3) by (simp add: removed_messages_def udp_alive_def case_prod_unfold)
  then show "adds pid ms = 0" by (simp add: removes_map)
  have d: "distinct (im_keys (pm_peers pm))" using assms(1) by (rule pm_distinct)
  have "pm_abs pm' = map_of (filter ?live (pm_peers pm))"
    using pm_clean [OF assms(1,2)] map_of_filter_val [OF d] by (simp add: pm_abs_def)
  then have "num_with (has_id pid) (pm_abs pm') = length (filter (\<lambda>e. has_id pid (snd e)) (filter ?live (pm_peers pm)))"
    using num_with_map_of [of "filter ?live (pm_peers pm)"] d by (simp add: distinct_map_filter)
  moreover have "num_with (has_id pid) (pm_abs pm) = length (filter (\<lambda>e. has_id pid (snd e)) (pm_peers pm))"
    using num_with_map_of [OF d] by (simp add: pm_abs_def)
  moreover have "length (filter P xs) = length (filter P (filter Q xs)) + length (filter P (filter (\<lambda>x. \<not> Q x) xs))"
    for P Q :: "'a response_peer \<times> peer \<Rightarrow> bool" and xs
    by (induction xs) auto
  ultimately show "num_with (has_id pid) (pm_abs pm') + removes pid ms = num_with (has_id pid) (pm_abs pm)"
    unfolding ms removes_map by metis
qed

lemma clean_values_ids:
  assumes "list_all (\<lambda>e. pm_inv (td_peer_map (snd e))) es" and "peer_clients (uc_statistics cf)"
    and "clean_values ho cf now hist es = (es', peers, hist', ms)"
  shows "shard_ids pid es' + removes pid ms = shard_ids pid es" and "adds pid ms = 0"
  using assms
proof (induction es arbitrary: hist es' peers hist' ms)
  case Nil
  { case 1 then show ?case by simp }
  { case 2 then show ?case by simp }
next
  case (Cons e es)
  obtain h td where e: "e = (h, td)" by (cases e)
  have main: "shard_ids pid es' + removes pid ms = shard_ids pid (e # es) \<and> adds pid ms = 0"
    if p: "list_all (\<lambda>e. pm_inv (td_peer_map (snd e))) (e # es)"
      and c: "clean_values ho cf now hist (e # es) = (es', peers, hist', ms)" for hist es' peers hist' ms
  proof -
    obtain pm' n ms1 where pm: "peer_map_clean cf now (td_peer_map td) = (pm', n, ms1 :: 'b statistics_message list)"
      by (metis prod_cases3)
    define hist1 where "hist1 = (case hist of Some x \<Rightarrow> if 0 < n then Some (hist_record ho n x) else Some x | None \<Rightarrow> None)"
    obtain es1 t1 hist2 ms2 where r: "clean_values ho cf now hist1 es = (es1, t1, hist2, ms2)"
      by (metis prod_cases4)
    have out: "es' = (h, td\<lparr>td_peer_map := pm', td_pending_removal := (n = 0)\<rparr>) # es1" "ms = ms1 @ ms2"
      using c pm r by (auto simp: e hist1_def Let_def)
    have "pm_inv (td_peer_map td)" "list_all (\<lambda>e. pm_inv (td_peer_map (snd e))) es" using p e by simp_all
    with clean_map_ids [OF this(1) pm assms(2), of pid] Cons.IH(1) [OF this(2) assms(2) r] Cons.IH(2) [OF this(2) assms(2) r]
    show ?thesis by (simp add: out e shard_ids_def)
  qed
  { case 1 then show ?case using main by blast }
  { case 2 then show ?case using main by blast }
qed

text \<open>No torrent with an entry is off the access list.\<close>

definition torrents_allowed :: "udp_config \<Rightarrow> access_list \<Rightarrow> 'i torrent_map_shards \<Rightarrow> bool" where
  "torrents_allowed cf al shards =
     list_all (list_all (\<lambda>e. allows (uc_access_list_mode cf) al (fst e))) shards"

lemma retain_ids:
  assumes "list_all (\<lambda>e. allows (uc_access_list_mode cf) al (fst e)) es"
  shows "shard_ids pid (retain_torrents cf al es) = shard_ids pid es"
  using assms
proof (induction es)
  case (Cons e es)
  then show ?case
    by (cases e) (auto simp: retain_torrents_def shard_ids_def retain_torrent_def pm_is_empty)
qed (simp add: retain_torrents_def)

lemma clean_values_keys: "im_keys (fst (clean_values ho cf now hist es)) = im_keys es"
  by (induction es arbitrary: hist) (auto simp: case_prod_unfold Let_def)

lemma clean_shards_ids:
  assumes "list_all (list_all (\<lambda>e. pm_inv (td_peer_map (snd e)))) shards" and "peer_clients (uc_statistics cf)"
    and "torrents_allowed cf al shards"
    and "clean_shards ho cf al now hist shards = (shards', torrents, peers, hist', ms)"
  shows "stored pid shards' + removes pid ms = stored pid shards \<and> adds pid ms = 0"
  using assms(1,3,4)
proof (induction shards arbitrary: hist shards' torrents peers hist' ms)
  case Nil
  then show ?case by simp
next
  case (Cons shard shards)
  obtain cleaned n hist1 ms1 where c: "clean_values ho cf now hist shard = (cleaned, n, hist1, ms1)"
    by (metis prod_cases4)
  obtain shards1 t1 p1 hist2 ms2 where r: "clean_shards ho cf al now hist1 shards = (shards1, t1, p1, hist2, ms2)"
    by (metis prod_cases5)
  have out: "shards' = retain_torrents cf al cleaned # shards1" "ms = ms1 @ ms2"
    using Cons.prems(3) c r by (auto simp: Let_def)
  have "im_keys cleaned = im_keys shard" using clean_values_keys [of ho cf now hist shard] c by simp
  then have "list_all (\<lambda>h. allows (uc_access_list_mode cf) al h) (im_keys cleaned)"
    using Cons.prems(2) by (simp add: torrents_allowed_def list_all_iff)
  then have k: "shard_ids pid (retain_torrents cf al cleaned) = shard_ids pid cleaned"
    by (intro retain_ids) (simp add: list_all_iff)
  have "list_all (\<lambda>e. pm_inv (td_peer_map (snd e))) shard" using Cons.prems(1) by simp
  note v = clean_values_ids [OF this assms(2) c, of pid]
  have "stored pid shards1 + removes pid ms2 = stored pid shards \<and> adds pid ms2 = 0"
    using Cons.prems(1,2) by (intro Cons.IH [OF _ _ r]) (simp_all add: torrents_allowed_def)
  then show ?case using v k by (simp add: out stored_def)
qed

lemma shards_inv_maps:
  assumes "shards_inv shards"
  shows "list_all (list_all (\<lambda>e. pm_inv (td_peer_map (snd e)))) shards"
proof -
  have "list_all (\<lambda>e. pm_inv (td_peer_map (snd e))) (shards ! i)" if "i < length shards" for i
  proof -
    have "shard_inv (length shards) i (shards ! i)" using assms that by (simp add: shards_inv_def)
    then show ?thesis unfolding shard_inv_def by (auto elim: list.pred_mono_strong)
  qed
  then show ?thesis by (simp add: list_all_length)
qed

lemma hist_messages:
  "adds pid (case x of Some h \<Rightarrow> [Ipv4PeerHistogram h] | None \<Rightarrow> []) = 0"
  "removes pid (case x of Some h \<Rightarrow> [Ipv4PeerHistogram h] | None \<Rightarrow> []) = 0"
  "adds pid (case x of Some h \<Rightarrow> [Ipv6PeerHistogram h] | None \<Rightarrow> []) = 0"
  "removes pid (case x of Some h \<Rightarrow> [Ipv6PeerHistogram h] | None \<Rightarrow> []) = 0"
  by (simp_all split: option.split)

lemma maps_clean_ids:
  assumes inv: "maps_inv maps" and on: "peer_clients (uc_statistics cf)" "statistics_active (uc_statistics cf)"
    and al: "torrents_allowed cf al (tm_ipv4 maps)" "torrents_allowed cf al (tm_ipv6 maps)"
    and c: "clean_and_update_statistics ho cf al now maps = (maps', st, ms)"
  shows "swarm_ids maps' pid + removes pid ms = swarm_ids maps pid \<and> adds pid ms = 0"
proof -
  obtain s4 t4 p4 h4 m4 s6 t6 p6 h6 m6 where
    c4: "clean_and_get_statistics ho cf al now (tm_ipv4 maps) = (s4, t4, p4, h4, m4)" and
    c6: "clean_and_get_statistics ho cf al now (tm_ipv6 maps) = (s6, t6, p6, h6, m6)"
    by (metis prod_cases5)
  have out: "maps' = \<lparr>tm_ipv4 = s4, tm_ipv6 = s6\<rparr>"
    "ms = m4 @ m6 @ (case h4 of Some x \<Rightarrow> [Ipv4PeerHistogram x] | None \<Rightarrow> []) @
      (case h6 of Some x \<Rightarrow> [Ipv6PeerHistogram x] | None \<Rightarrow> [])"
    using c c4 c6 on(2) by (simp_all add: clean_and_update_statistics_def)
  have "stored pid s4 + removes pid m4 = stored pid (tm_ipv4 maps) \<and> adds pid m4 = 0"
    using inv by (intro clean_shards_ids [OF shards_inv_maps on(1) al(1) c4 [unfolded clean_and_get_statistics_def]])
      (simp add: maps_inv_def)
  moreover have "stored pid s6 + removes pid m6 = stored pid (tm_ipv6 maps) \<and> adds pid m6 = 0"
    using inv by (intro clean_shards_ids [OF shards_inv_maps on(1) al(2) c6 [unfolded clean_and_get_statistics_def]])
      (simp add: maps_inv_def)
  ultimately show ?thesis unfolding out by (simp add: swarm_ids_def hist_messages)
qed

subsection \<open>The swarm and the statistics worker\<close>

text \<open>The peer an announce replaces.\<close>

definition maps_previous :: "announce_request \<Rightarrow> canonical_socket_addr \<Rightarrow> torrent_maps \<Rightarrow> peer option" where
  "maps_previous req src maps =
     (case socket_ip (get_addr src) of
        V4 ip \<Rightarrow> previous_peer req ip (tm_ipv4 maps)
      | V6 ip \<Rightarrow> previous_peer req ip (tm_ipv6 maps))"

lemma maps_announce_ids:
  assumes laws: "index_map im4" "index_map im6" "rng_source gen" and inv: "maps_inv maps"
    and an: "maps_announce im4 im6 gen cf req src vu r maps = Some (res, maps', ms :: 'h statistics_message list, r')"
  shows "swarm_ids maps' pid + counts_for pid (maps_previous req src maps) = swarm_ids maps pid +
      (if announce_status req \<noteq> StatusStopped \<and> ar_peer_id req = pid then 1 else 0)"
    and "ms = spec_messages cf req (maps_previous req src maps)"
proof -
  have "swarm_ids maps' pid + counts_for pid (maps_previous req src maps) = swarm_ids maps pid +
      (if announce_status req \<noteq> StatusStopped \<and> ar_peer_id req = pid then 1 else 0) \<and>
      ms = spec_messages cf req (maps_previous req src maps)"
  proof (cases "socket_ip (get_addr src)")
    case (V4 ip)
    then obtain res4 s4 where a: "shards_announce im4 gen cf req ip vu r (tm_ipv4 maps) = Some (res4, s4, ms, r')"
      and out: "maps' = maps\<lparr>tm_ipv4 := s4\<rparr>"
      using an by (auto simp: maps_announce_def)
    have "shards_inv (tm_ipv4 maps)" using inv by (simp add: maps_inv_def)
    from udp_swarm.announced_peer_ids [OF udp_swarm.intro [OF laws(1,3)] this a] V4 show ?thesis
      by (simp add: out swarm_ids_def maps_previous_def)
  next
    case (V6 ip)
    then obtain res6 s6 where a: "shards_announce im6 gen cf req ip vu r (tm_ipv6 maps) = Some (res6, s6, ms, r')"
      and out: "maps' = maps\<lparr>tm_ipv6 := s6\<rparr>"
      using an by (auto simp: maps_announce_def)
    have "shards_inv (tm_ipv6 maps)" using inv by (simp add: maps_inv_def)
    from udp_swarm.announced_peer_ids [OF udp_swarm.intro [OF laws(2,3)] this a] V6 show ?thesis
      by (simp add: out swarm_ids_def maps_previous_def)
  qed
  then show "swarm_ids maps' pid + counts_for pid (maps_previous req src maps) = swarm_ids maps pid +
      (if announce_status req \<noteq> StatusStopped \<and> ar_peer_id req = pid then 1 else 0)"
    and "ms = spec_messages cf req (maps_previous req src maps)" by simp_all
qed

text \<open>
  Announces and cleanings, whose messages the worker takes off the channel in their order: when it
  has taken all, its state is as if it had handled them at once.
\<close>

inductive counted_step ::
  "ipv4_addr_bytes peer_map_ops \<Rightarrow> ipv6_addr_bytes peer_map_ops \<Rightarrow> 'r gen_range \<Rightarrow> 'h histogram_ops \<Rightarrow>
   'h statistics_crates \<Rightarrow> udp_config \<Rightarrow> torrent_maps \<times> statistics_state \<Rightarrow> torrent_maps \<times> statistics_state \<Rightarrow> bool"
  for im4 im6 gen ho sx cf where
  announced: "maps_announce im4 im6 gen cf req src vu r maps = Some (res, maps', ms :: 'h statistics_message list, r') \<Longrightarrow>
    keeps_id req (maps_previous req src maps) \<Longrightarrow>
    counted_step im4 im6 gen ho sx cf (maps, s)
      (maps', handle_statistics_messages sx (uc_statistics cf) ms s)"
| cleaned: "clean_and_update_statistics ho cf al now maps = (maps', st, ms) \<Longrightarrow>
    torrents_allowed cf al (tm_ipv4 maps) \<Longrightarrow> torrents_allowed cf al (tm_ipv6 maps) \<Longrightarrow>
    counted_step im4 im6 gen ho sx cf (maps, s)
      (maps', handle_statistics_messages sx (uc_statistics cf) ms s)"

context statistics_laws
begin

lemma handled:
  assumes "process_peer_client_data cf" and "table_ok (ss_peers s)" and "removes pid ms = 0 \<or> adds pid ms = 0"
  shows "table_ok (ss_peers (handle_statistics_messages sx cf ms s)) \<and>
    ids_in (ss_peers (handle_statistics_messages sx cf ms s)) pid =
      ids_in (ss_peers s) pid + adds pid ms - removes pid ms"
  using assms(2,3)
proof (induction ms arbitrary: s)
  case Nil
  then show ?case by (simp add: handle_statistics_messages_def)
next
  case (Cons m ms)
  let ?s = "handle_statistics_message sx cf m s"
  have h: "table_ok (ss_peers ?s) \<and> ids_in (ss_peers ?s) pid = ids_in (ss_peers s) pid + adds pid [m] - removes pid [m]"
    using added_ok [OF Cons.prems(1)] removed_ok [OF Cons.prems(1)] assms(1) Cons.prems(1) by (cases m) auto
  have split: "adds pid (m # ms) = adds pid [m] + adds pid ms" "removes pid (m # ms) = removes pid [m] + removes pid ms"
    by (cases m; simp)+
  then have "removes pid ms = 0 \<or> adds pid ms = 0" using Cons.prems(2) by auto
  from Cons.IH [OF _ this, of ?s] h show ?case
    using Cons.prems(2) split by (auto simp: handle_statistics_messages_def)
qed

end

definition counts_match :: "torrent_maps \<times> statistics_state \<Rightarrow> bool" where
  "counts_match x = (maps_inv (fst x) \<and> table_ok (ss_peers (snd x)) \<and> ids_in (ss_peers (snd x)) = swarm_ids (fst x))"

lemma spec_messages_one: "removes pid (spec_messages cf req x) = 0 \<or> adds pid (spec_messages cf req x) = 0"
  by (simp add: spec_messages_def)

lemma default_ids: "swarm_ids torrent_maps_default pid = 0"
  by (simp add: swarm_ids_def torrent_maps_default_def shards_new_def stored_def shard_ids_def sum_list_replicate)

lemma counts_start: "counts_match (torrent_maps_default, statistics_start now)"
  by (simp add: counts_match_def maps_default_inv statistics_start_def table_ok_def ids_in_def fun_eq_iff default_ids)

lemma counts_step:
  assumes "index_map im4" and "index_map im6" and "rng_source gen" and "statistics_laws sx"
    and on: "process_peer_client_data (uc_statistics cf)" "statistics_active (uc_statistics cf)"
    and "counted_step im4 im6 gen ho (sx :: 'h statistics_crates) cf x x'" and "counts_match x"
  shows "counts_match x'"
  using assms(7,8)
proof (induction rule: counted_step.induct)
  case (announced req src vu r maps res maps' ms r' s)
  then have inv: "maps_inv maps" and t: "table_ok (ss_peers s)" "ids_in (ss_peers s) = swarm_ids maps"
    by (simp_all add: counts_match_def)
  note an = maps_announce_ids [OF assms(1-3) inv announced(1)]
  have pc: "peer_clients (uc_statistics cf)" using on(1) by (simp add: process_peer_client_data_def)
  have inv': "maps_inv maps'"
    using maps_announce_total [OF assms(1-3) inv, of cf req src vu r, where ?'h = 'h] announced(1) by auto
  have h: "table_ok (ss_peers (handle_statistics_messages sx (uc_statistics cf) ms s)) \<and>
      ids_in (ss_peers (handle_statistics_messages sx (uc_statistics cf) ms s)) pid = swarm_ids maps' pid" for pid
  proof -
    have "counts_for pid (maps_previous req src maps) + adds pid ms =
        removes pid ms + (if announce_status req \<noteq> StatusStopped \<and> ar_peer_id req = pid then 1 else 0)"
      unfolding an(2) by (rule spec_messages_count [OF pc announced(2)])
    then have "swarm_ids maps' pid + removes pid ms = swarm_ids maps pid + adds pid ms"
      using an(1) [of pid] by linarith
    moreover have "removes pid ms = 0 \<or> adds pid ms = 0" unfolding an(2) by (rule spec_messages_one)
    ultimately show ?thesis
      using statistics_laws.handled [OF assms(4) on(1) t(1), of pid ms] t(2) by auto
  qed
  then show ?case using inv' by (auto simp: counts_match_def)
next
  case (cleaned al now maps maps' st ms s)
  then have inv: "maps_inv maps" and t: "table_ok (ss_peers s)" "ids_in (ss_peers s) = swarm_ids maps"
    by (simp_all add: counts_match_def)
  have pc: "peer_clients (uc_statistics cf)" using on(1) by (simp add: process_peer_client_data_def)
  have h: "table_ok (ss_peers (handle_statistics_messages sx (uc_statistics cf) ms s)) \<and>
      ids_in (ss_peers (handle_statistics_messages sx (uc_statistics cf) ms s)) pid = swarm_ids maps' pid" for pid
    using maps_clean_ids [OF inv pc on(2) cleaned(2,3,1), of pid]
      statistics_laws.handled [OF assms(4) on(1) t(1), of pid ms] t(2) by auto
  then show ?case using maps_clean_inv [OF inv cleaned(1)] by (auto simp: counts_match_def)
qed

lemma counts_reached:
  assumes "index_map im4" and "index_map im6" and "rng_source gen" and "statistics_laws sx"
    and "process_peer_client_data (uc_statistics cf)" and "statistics_active (uc_statistics cf)"
    and "(counted_step im4 im6 gen ho (sx :: 'h statistics_crates) cf)\<^sup>*\<^sup>* (torrent_maps_default, statistics_start now) x"
  shows "counts_match x"
  using assms(7)
  by (induction rule: rtranclp_induct) (auto intro: counts_start counts_step [OF assms(1-6)])

text \<open>C35. The page counts the clients of the swarm. As long as a peer that announces again keeps its peer id
  and no torrent that is stored leaves the access list, then whatever was announced and cleaned, once
  the worker has taken the messages, each row of the page stands for a client, with the number of
  different peer ids of that client among the peers the swarm stores, most frequent first.\<close>

theorem page_counts_stored_peers:
  assumes "index_map im4" and "index_map im6" and "rng_source gen" and "statistics_laws sx"
    and "process_peer_client_data (uc_statistics cf)" and "statistics_active (uc_statistics cf)"
    and "write_html_to_file (uc_statistics cf)"
    and "(counted_step im4 im6 gen ho (sx :: 'h statistics_crates) cf)\<^sup>*\<^sup>* (torrent_maps_default, statistics_start now) (maps, s)"
  shows "\<exists>rows. client_rows sx (uc_statistics cf) (ss_peers s) =
      map (\<lambda>(client, n). (display_client client, sx_format sx n)) rows \<and>
    distinct (map fst rows) \<and> sorted_wrt (\<ge>) (map snd rows) \<and>
    (\<forall>client n. (client, n) \<in> set rows \<longleftrightarrow>
      0 < n \<and> n = card {pid. 0 < swarm_ids maps pid \<and> from_peer_id pid = client})"
proof -
  have m: "table_ok (ss_peers s)" "ids_in (ss_peers s) = swarm_ids maps"
    using counts_reached [OF assms(1-6,8)] by (simp_all add: counts_match_def)
  let ?table = "count_clients sx (ss_peers s)"
  note t = statistics_laws.client_table [OF assms(4) m(1)]
  have eq: "mset (sx_sort_by_count sx ?table) = mset ?table" by (rule statistics_laws.sort_mset [OF assms(4)])
  have "distinct (map fst (sx_sort_by_count sx ?table))"
    using t eq by (metis mset_eq_imp_distinct_iff mset_map)
  moreover have "(client, n) \<in> set (sx_sort_by_count sx ?table) \<longleftrightarrow> map_of ?table client = Some n" for client n
    unfolding mset_eq_setD [OF eq] by (rule map_of_eq_Some_iff [symmetric]) (use t in blast)
  ultimately show ?thesis
    using t assms(5,7) statistics_laws.sort_sorted [OF assms(4), of ?table]
    by (intro exI [of _ "sx_sort_by_count sx ?table"])
      (simp add: client_rows_def m(2) del: map_of_eq_Some_iff Some_eq_map_of_iff)
qed

text \<open>C36. A peer that changes its id is miscounted. Where an announce that is no stop replaces a stored peer
  that has another peer id (a client that was restarted on its port), the swarm stores the new id in
  place of the old one and tells the statistics worker nothing: its table stays as it is.\<close>

theorem changed_ids_are_miscounted:
  assumes "index_map im4" and "index_map im6" and "rng_source gen" and "maps_inv maps"
    and "maps_announce im4 im6 gen cf req src vu r maps = Some (res, maps', ms :: 'h statistics_message list, r')"
    and "maps_previous req src maps = Some q" and "p_peer_id q \<noteq> ar_peer_id req"
    and "announce_status req \<noteq> StatusStopped"
  shows "handle_statistics_messages sx (uc_statistics cf) ms s = s \<and>
    swarm_ids maps' (p_peer_id q) + 1 = swarm_ids maps (p_peer_id q) \<and>
    swarm_ids maps' (ar_peer_id req) = swarm_ids maps (ar_peer_id req) + 1"
proof -
  note an = maps_announce_ids [OF assms(1-5)]
  have "ms = []" using an(2) assms(6,8) by (simp add: spec_messages_def)
  then show ?thesis
    using an(1) [of "p_peer_id q"] an(1) [of "ar_peer_id req"] assms(6-8)
    by (auto simp: handle_statistics_messages_def counts_for_def has_id_def)
qed

subsection \<open>A run\<close>

definition sample_statistics_crates :: "unit statistics_crates" where
  "sample_statistics_crates = \<lparr>sx_peers = ref_index_map, sx_clients = ref_index_map,
     sx_sort_by_count = (\<lambda>xs. rev (sort_key snd xs)), sx_format = (\<lambda>n. [word_of_nat (48 + n mod 10)]),
     sx_hex = ref_hex, sx_histograms = \<lparr>hr_min = (\<lambda>_. 0), hr_max = (\<lambda>_. 0), hr_value_at_percentile = (\<lambda>_ _. 0)\<rparr>\<rparr>"

interpretation sample_statistics: statistics_laws sample_statistics_crates
proof (intro statistics_laws.intro statistics_laws_axioms.intro)
  show "index_map (sx_peers sample_statistics_crates)" "index_map (sx_clients sample_statistics_crates)"
    by (simp_all add: sample_statistics_crates_def ref_index_map_laws)
  fix xs :: "(peer_client, nat) index_map"
  show "mset (sx_sort_by_count sample_statistics_crates xs) = mset xs"
    by (simp add: sample_statistics_crates_def)
  have "sorted (map snd (sort_key snd xs))" by simp
  then show "sorted_wrt (\<ge>) (map snd (sx_sort_by_count sample_statistics_crates xs))"
    by (simp add: sample_statistics_crates_def rev_map [symmetric] sorted_wrt_rev)
qed

definition sample_statistics_config :: udp_config where
  "sample_statistics_config = sample_config\<lparr>uc_statistics := (uc_statistics sample_config)\<lparr>write_html_to_file := True\<rparr>\<rparr>"

definition sample_histograms :: "unit histogram_ops" where
  "sample_histograms = \<lparr>hist_new = (), hist_record = (\<lambda>_ _. ())\<rparr>"

lemma sample_statistics_on:
  "process_peer_client_data (uc_statistics sample_statistics_config)" "statistics_active (uc_statistics sample_statistics_config)"
  "write_html_to_file (uc_statistics sample_statistics_config)"
  by (simp_all add: process_peer_client_data_def sample_statistics_config_def sample_config_def statistics_active_def)

text \<open>One socket worker that counts three requests before a round and four after it.\<close>

definition one_worker :: shared_statistics where
  "one_worker = \<lparr>st_socket = [\<lparr>stats_ipv4 = no_statistics, stats_ipv6 = no_statistics\<rparr>],
     st_swarm = \<lparr>stats_ipv4 = \<lparr>sw_torrents = 0, sw_peers = 0\<rparr>, stats_ipv6 = \<lparr>sw_torrents = 0, sw_peers = 0\<rparr>\<rparr>\<rparr>"

definition sample_counts :: "unit statistics_event list" where
  "sample_counts = [Counts 0 IpV4 (no_statistics\<lparr>sk_requests := 3\<rparr>), Rounds [] 5,
     Counts 0 IpV4 (no_statistics\<lparr>sk_requests := 4\<rparr>)]"

lemma counters_are_reported_once_witness:
  "\<exists>pages s' shared'. statistics_run sample_statistics_crates (uc_statistics sample_statistics_config) sample_counts
      (statistics_start 0, one_worker) = (pages, s', shared') \<and>
    sk_requests (add_statistics (sum_statistics (map (\<lambda>p. cd_counters (page_of IpV4 p)) pages)) (counted IpV4 shared')) = 7"
proof -
  obtain pages s' shared' where
    run: "statistics_run sample_statistics_crates (uc_statistics sample_statistics_config) sample_counts
      (statistics_start 0, one_worker) = (pages, s', shared')"
    by (metis prod.exhaust)
  have "list_all (event_of_worker (length (st_socket one_worker))) sample_counts"
    by (simp add: sample_counts_def one_worker_def)
  note total = counters_are_reported_once [OF run this, of IpV4]
  have "sk_requests (add_statistics (sum_statistics (map (\<lambda>p. cd_counters (page_of IpV4 p)) pages)) (counted IpV4 shared')) = 7"
    unfolding total by (simp add: sample_counts_def one_worker_def counted_def add_statistics_def no_statistics_def)
  then show ?thesis using run by blast
qed

text \<open>An announce of a new peer into the empty maps.\<close>

lemma default_previous: "maps_previous req src torrent_maps_default = None"
  by (simp add: maps_previous_def previous_peer_def torrent_abs_def get_shard_def torrent_maps_default_def
      shards_new_def shard_index_def NUM_SHARDS_def td_abs_def split: ip_addr.split)

lemma sample_status: "announce_status sample_announce \<noteq> StatusStopped"
  by (simp add: announce_status_def sample_announce_def from_event_and_bytes_left_def event_of_bytes_def)

lemma announced_previous:
  assumes "maps_announce ref_index_map im6 ref_gen_range cf req (Canonical (SocketV4 ip p)) vu r maps =
      Some (res, maps', ms :: 'h statistics_message list, r')"
    and "maps_inv maps" and "announce_status req \<noteq> StatusStopped"
    and "ar_info_hash req' = ar_info_hash req" "ar_port req' = ar_port req"
  shows "maps_previous req' (Canonical (SocketV4 ip p)) maps' = Some (announced_peer req vu)"
proof -
  obtain res4 s4 where a: "shards_announce ref_index_map ref_gen_range cf req ip vu r (tm_ipv4 maps) = Some (res4, s4, ms, r')"
    and out: "maps' = maps\<lparr>tm_ipv4 := s4\<rparr>"
    using assms(1) by (auto simp: maps_announce_def)
  have "shards_inv (tm_ipv4 maps)" using assms(2) by (simp add: maps_inv_def)
  from udp_ref.shards_announce_ok [OF this, of cf req ip vu r, where ?'h = 'h] a
  have "fst (torrent_abs s4 (ar_info_hash req)) =
      spec_announce req ip vu (fst (torrent_abs (tm_ipv4 maps) (ar_info_hash req)))" by auto
  then show ?thesis
    using assms(3-5) by (simp add: out maps_previous_def previous_peer_def spec_announce_def announcing_key_def)
qed

lemma sample_announced_ids:
  "\<exists>res maps' (ms :: unit statistics_message list) r'.
    maps_announce ref_index_map ref_index_map ref_gen_range sample_statistics_config sample_announce
      (Canonical (SocketV4 7 6881)) (ValidUntil 100) [] torrent_maps_default = Some (res, maps', ms, r') \<and>
    maps_inv maps' \<and> (\<forall>pid. swarm_ids maps' pid = (if pid = 4 then 1 else 0))"
proof -
  obtain res maps' r' and ms :: "unit statistics_message list" where
    an: "maps_announce ref_index_map ref_index_map ref_gen_range sample_statistics_config sample_announce
      (Canonical (SocketV4 7 6881)) (ValidUntil 100) [] torrent_maps_default = Some (res, maps', ms, r')"
    and inv: "maps_inv maps'"
    using maps_announce_total [OF ref_index_map_laws ref_index_map_laws ref_gen_range_laws maps_default_inv,
      where ?'h = unit] by blast
  have "swarm_ids maps' pid = (if pid = 4 then 1 else 0)" for pid
    using maps_announce_ids(1) [OF ref_index_map_laws ref_index_map_laws ref_gen_range_laws maps_default_inv an, of pid]
      sample_status by (auto simp: default_previous counts_for_def default_ids sample_announce_def)
  then show ?thesis using an inv by blast
qed

lemma page_counts_stored_peers_witness:
  "\<exists>maps (s :: statistics_state) rows. client_rows sample_statistics_crates (uc_statistics sample_statistics_config) (ss_peers s) =
      map (\<lambda>(client, n). (display_client client, sx_format sample_statistics_crates n)) rows \<and>
    (\<forall>client n. (client, n) \<in> set rows \<longleftrightarrow>
      0 < n \<and> n = card {pid. 0 < swarm_ids maps pid \<and> from_peer_id pid = client}) \<and>
    (from_peer_id 4, 1) \<in> set rows"
proof -
  obtain res maps r' and ms :: "unit statistics_message list" where
    an: "maps_announce ref_index_map ref_index_map ref_gen_range sample_statistics_config sample_announce
      (Canonical (SocketV4 7 6881)) (ValidUntil 100) [] torrent_maps_default = Some (res, maps, ms, r')"
    and ids: "\<forall>pid. swarm_ids maps pid = (if pid = 4 then 1 else 0)"
    using sample_announced_ids by blast
  have "keeps_id sample_announce (maps_previous sample_announce (Canonical (SocketV4 7 6881)) torrent_maps_default)"
    by (simp add: default_previous keeps_id_def)
  from counted_step.announced [OF an this, of sample_histograms sample_statistics_crates "statistics_start 0"]
  have step: "(counted_step ref_index_map ref_index_map ref_gen_range sample_histograms sample_statistics_crates
      sample_statistics_config)\<^sup>*\<^sup>* (torrent_maps_default, statistics_start 0)
      (maps, handle_statistics_messages sample_statistics_crates (uc_statistics sample_statistics_config) ms (statistics_start 0))"
    by (rule r_into_rtranclp)
  have "{pid. 0 < swarm_ids maps pid \<and> from_peer_id pid = from_peer_id 4} = {4}" using ids by auto
  then have one: "1 = card {pid. 0 < swarm_ids maps pid \<and> from_peer_id pid = from_peer_id 4}" by simp
  obtain rows where
    shown: "client_rows sample_statistics_crates (uc_statistics sample_statistics_config)
      (ss_peers (handle_statistics_messages sample_statistics_crates (uc_statistics sample_statistics_config) ms (statistics_start 0))) =
      map (\<lambda>(client, n). (display_client client, sx_format sample_statistics_crates n)) rows"
    and rows: "\<forall>client n. (client, n) \<in> set rows \<longleftrightarrow>
      0 < n \<and> n = card {pid. 0 < swarm_ids maps pid \<and> from_peer_id pid = client}"
    using page_counts_stored_peers [OF ref_index_map_laws ref_index_map_laws ref_gen_range_laws
      sample_statistics.statistics_laws_axioms sample_statistics_on step] by blast
  have "(from_peer_id 4, 1) \<in> set rows" unfolding rows [rule_format] using one by simp
  then show ?thesis using shown rows by (intro exI conjI)
qed

lemma changed_ids_are_miscounted_witness:
  "\<exists>maps maps' (ms :: unit statistics_message list).
    swarm_ids maps 4 = 1 \<and> swarm_ids maps' 4 = 0 \<and> swarm_ids maps' 5 = 1 \<and>
    handle_statistics_messages sample_statistics_crates (uc_statistics sample_statistics_config) ms (statistics_start 0) =
      statistics_start 0"
proof -
  let ?src = "Canonical (SocketV4 7 6881)"
  let ?req = "sample_announce\<lparr>ar_peer_id := 5\<rparr>"
  obtain res maps r' and ms :: "unit statistics_message list" where
    an: "maps_announce ref_index_map ref_index_map ref_gen_range sample_statistics_config sample_announce
      ?src (ValidUntil 100) [] torrent_maps_default = Some (res, maps, ms, r')"
    and inv: "maps_inv maps" and ids: "\<forall>pid. swarm_ids maps pid = (if pid = 4 then 1 else 0)"
    using sample_announced_ids by blast
  obtain res2 maps2 r2 and ms2 :: "unit statistics_message list" where
    an2: "maps_announce ref_index_map ref_index_map ref_gen_range sample_statistics_config ?req
      ?src (ValidUntil 100) [] maps = Some (res2, maps2, ms2, r2)"
    using maps_announce_total [OF ref_index_map_laws ref_index_map_laws ref_gen_range_laws inv, where ?'h = unit] by blast
  have st: "announce_status ?req \<noteq> StatusStopped"
    using sample_status by (simp add: announce_status_def)
  have q: "maps_previous ?req ?src maps = Some (announced_peer sample_announce (ValidUntil 100))"
    by (rule announced_previous [OF an maps_default_inv sample_status]) simp_all
  have "p_peer_id (announced_peer sample_announce (ValidUntil 100)) = 4"
    by (simp add: announced_peer_def sample_announce_def)
  moreover have "ar_peer_id ?req = 5" by simp
  moreover have "p_peer_id (announced_peer sample_announce (ValidUntil 100)) \<noteq> ar_peer_id ?req"
    using calculation by simp
  ultimately show ?thesis
    using changed_ids_are_miscounted [OF ref_index_map_laws ref_index_map_laws ref_gen_range_laws inv an2 q _ st,
      of sample_statistics_crates "statistics_start 0"] ids
    by (intro exI [of _ maps] exI [of _ maps2] exI [of _ ms2]) simp
qed

end
