(* ===== verification/Http_Swarm_Worker.thy ===== *)
theory Http_Swarm_Worker
  imports Http_Swarm
begin

text \<open>
  \<open>crates/http/src/workers/swarm/mod.rs\<close>: a swarm worker of the HTTP tracker. It takes requests off the
  channels of the socket workers, a task with a random number generator of its own for each, hands them
  to its torrent maps and sends the answer back, while two timers clean the maps and refresh the
  deadline new peers get. The tasks share one thread and hold no borrow across a suspension, so what
  happens is a sequence of events. A failed send is only logged; the metrics are not modelled.
\<close>

datatype http_channel_request =
    ChannelAnnounce http_announce_request canonical_socket_addr
  | ChannelScrape http_scrape_request canonical_socket_addr

datatype http_channel_response =
    AnnounceSent http_announce_response
  | ScrapeSent http_scrape_response

record http_worker_config =
  hwc_swarm :: http_config
  hwc_max_peer_age :: u32

record 'r http_swarm_worker =
  hsw_torrents :: http_torrent_maps
  hsw_peer_valid_until :: valid_until
  hsw_rngs :: "nat \<Rightarrow> 'r"

definition http_swarm_worker_start ::
  "http_worker_config \<Rightarrow> nat \<Rightarrow> (nat \<Rightarrow> 'r) \<Rightarrow> 'r http_swarm_worker option" where
  "http_swarm_worker_start cf secs rngs =
     map_option (\<lambda>valid_until. \<lparr>hsw_torrents = http_torrent_maps_new, hsw_peer_valid_until = valid_until,
         hsw_rngs = rngs\<rparr>)
       (valid_until_new secs (hwc_max_peer_age cf))"

text \<open>A request off the channel of a socket worker.\<close>

fun http_handle_channel_request ::
  "http_swarm_ops \<Rightarrow> 'r gen_range \<Rightarrow> http_worker_config \<Rightarrow> nat \<Rightarrow> http_channel_request \<Rightarrow>
   'r http_swarm_worker \<Rightarrow> (http_channel_response \<times> 'r http_swarm_worker) option" where
  "http_handle_channel_request ops gen cf i (ChannelAnnounce request peer_addr) w =
     map_option (\<lambda>(response, maps, r).
         (AnnounceSent response, w\<lparr>hsw_torrents := maps, hsw_rngs := (hsw_rngs w)(i := r)\<rparr>))
       (handle_announce_request ops gen (hwc_swarm cf) (hsw_peer_valid_until w) peer_addr request
         (hsw_rngs w i) (hsw_torrents w))"
| "http_handle_channel_request ops gen cf i (ChannelScrape request peer_addr) w =
     Some (ScrapeSent (handle_scrape_request (hwc_swarm cf) peer_addr request (hsw_torrents w)), w)"

text \<open>The timers, with the access list and the seconds since the server started.\<close>

definition http_clean_torrents ::
  "http_worker_config \<Rightarrow> access_list \<Rightarrow> nat \<Rightarrow> 'r http_swarm_worker \<Rightarrow> 'r http_swarm_worker option" where
  "http_clean_torrents cf al secs w =
     map_option (\<lambda>now. w\<lparr>hsw_torrents := http_clean (hwc_swarm cf) al now (hsw_torrents w)\<rparr>)
       (seconds_elapsed secs)"

definition http_update_valid_until ::
  "http_worker_config \<Rightarrow> nat \<Rightarrow> 'r http_swarm_worker \<Rightarrow> 'r http_swarm_worker option" where
  "http_update_valid_until cf secs w =
     map_option (\<lambda>valid_until. w\<lparr>hsw_peer_valid_until := valid_until\<rparr>)
       (valid_until_new secs (hwc_max_peer_age cf))"

datatype http_worker_event =
    TorrentsCleaned access_list nat
  | DeadlineUpdated nat
  | RequestTaken nat http_channel_request

fun http_worker_step ::
  "http_swarm_ops \<Rightarrow> 'r gen_range \<Rightarrow> http_worker_config \<Rightarrow> http_worker_event \<Rightarrow> 'r http_swarm_worker \<Rightarrow>
   (http_channel_response list \<times> 'r http_swarm_worker) option" where
  "http_worker_step ops gen cf (TorrentsCleaned al secs) w =
     map_option (\<lambda>w'. ([], w')) (http_clean_torrents cf al secs w)"
| "http_worker_step ops gen cf (DeadlineUpdated secs) w =
     map_option (\<lambda>w'. ([], w')) (http_update_valid_until cf secs w)"
| "http_worker_step ops gen cf (RequestTaken i request) w =
     map_option (\<lambda>(response, w'). ([response], w')) (http_handle_channel_request ops gen cf i request w)"

fun http_worker_run ::
  "http_swarm_ops \<Rightarrow> 'r gen_range \<Rightarrow> http_worker_config \<Rightarrow> http_worker_event list \<Rightarrow> 'r http_swarm_worker \<Rightarrow>
   (http_channel_response list \<times> 'r http_swarm_worker) option" where
  "http_worker_run ops gen cf [] w = Some ([], w)"
| "http_worker_run ops gen cf (e # es) w =
     Option.bind (http_worker_step ops gen cf e w) (\<lambda>(sent, w1).
       map_option (\<lambda>(more, w2). (sent @ more, w2)) (http_worker_run ops gen cf es w1))"

end
