(* ===== verification/Http_Swarm_Worker_Spec.thy ===== *)
theory Http_Swarm_Worker_Spec
  imports Http_Swarm_Worker Http_Connection_Spec
begin

text \<open>
  What a swarm worker of the HTTP tracker promises over its whole life: what it stores of each peer, and
  so what it answers, follows from the peer's own last announce and the cleanings since.
\<close>

subsection \<open>The life of a peer\<close>

text \<open>What the maps hold of the peer at an address.\<close>

definition http_peer_at :: "http_torrent_maps \<Rightarrow> http_info_hash \<Rightarrow> ip_addr \<Rightarrow> u16 \<Rightarrow> http_peer option" where
  "http_peer_at maps h ip port =
     (case ip of
        V4 a \<Rightarrow> fst (http_map_abs (htm_ipv4 maps) h) \<lparr>hp_ip_address = a, hp_port = port\<rparr>
      | V6 a \<Rightarrow> fst (http_map_abs (htm_ipv6 maps) h) \<lparr>hp_ip_address = a, hp_port = port\<rparr>)"

definition http_new_deadline :: "http_worker_config \<Rightarrow> nat \<Rightarrow> valid_until" where
  "http_new_deadline cf secs = ValidUntil (word_of_nat secs + hwc_max_peer_age cf)"

text \<open>One peer of one torrent, with the deadline new announces get: nothing else is looked at.\<close>

fun http_life_step ::
  "http_worker_config \<Rightarrow> http_info_hash \<Rightarrow> ip_addr \<Rightarrow> u16 \<Rightarrow> http_worker_event \<Rightarrow>
   valid_until \<times> http_peer option \<Rightarrow> valid_until \<times> http_peer option" where
  "http_life_step cf h ip port (DeadlineUpdated secs) (vu, p) = (http_new_deadline cf secs, p)"
| "http_life_step cf h ip port (TorrentsCleaned al secs) (vu, p) =
     (vu, if allows (hcf_access_list_mode (hwc_swarm cf)) al h
          then Option.bind p (\<lambda>q. if valid (hpe_valid_until q) (word_of_nat secs) then Some q else None)
          else None)"
| "http_life_step cf h ip port (RequestTaken i (ChannelAnnounce req addr)) (vu, p) =
     (vu, if ha_info_hash req = h \<and> socket_ip (get_addr addr) = ip \<and> ha_port req = port
          then if ha_event req = HttpStopped then None else Some (http_announced_peer req vu)
          else p)"
| "http_life_step cf h ip port (RequestTaken i (ChannelScrape req addr)) s = s"

definition http_peer_life ::
  "http_worker_config \<Rightarrow> http_worker_event list \<Rightarrow> nat \<Rightarrow> http_info_hash \<Rightarrow> ip_addr \<Rightarrow> u16 \<Rightarrow> http_peer option" where
  "http_peer_life cf es secs h ip port =
     snd (fold (http_life_step cf h ip port) es (http_new_deadline cf secs, None))"

fun http_event_ok :: "http_worker_event \<Rightarrow> bool" where
  "http_event_ok (TorrentsCleaned al secs) = (secs \<le> u32_max)"
| "http_event_ok (DeadlineUpdated secs) = (secs \<le> u32_max)"
| "http_event_ok (RequestTaken i request) = True"

fun http_requests_in :: "http_worker_event list \<Rightarrow> http_channel_request list" where
  "http_requests_in [] = []"
| "http_requests_in (RequestTaken i request # es) = request # http_requests_in es"
| "http_requests_in (e # es) = http_requests_in es"

fun http_answers :: "http_channel_request \<Rightarrow> http_channel_response \<Rightarrow> bool" where
  "http_answers (ChannelAnnounce req addr) (AnnounceSent res) = True"
| "http_answers (ChannelScrape req addr) (ScrapeSent res) = True"
| "http_answers _ _ = False"

text \<open>The answer to an announce, judged by the lives of the other peers of the torrent in its family.\<close>

definition http_announce_answered ::
  "http_config \<Rightarrow> http_announce_request \<Rightarrow> canonical_socket_addr \<Rightarrow> (ip_addr \<Rightarrow> u16 \<Rightarrow> http_peer option) \<Rightarrow>
   http_announce_response \<Rightarrow> bool" where
  "http_announce_answered cf req addr peers res =
     (let counts = (har_complete res, har_incomplete res) in
      case socket_ip (get_addr addr) of
        V4 a \<Rightarrow> har_peers6 res = [] \<and>
          http_answer_conforms cf req ((\<lambda>k. peers (V4 (hp_ip_address k)) (hp_port k))(http_announcing_key req a := None))
            counts (har_peers res)
      | V6 a \<Rightarrow> har_peers res = [] \<and>
          http_answer_conforms cf req ((\<lambda>k. peers (V6 (hp_ip_address k)) (hp_port k))(http_announcing_key req a := None))
            counts (har_peers6 res))"

subsection \<open>The crates of the swarm\<close>

lemma http_key_eta [simp]: "\<lparr>hp_ip_address = hp_ip_address k, hp_port = hp_port k\<rparr> = k"
  by (cases k) simp

lemma restrict_with_bind: "restrict_with P m k = Option.bind (m k) (\<lambda>q. if P q then Some q else None)"
  by (simp add: restrict_with_def split: option.split)

locale http_swarm_crates =
  fixes ops :: http_swarm_ops and gen :: "'r gen_range"
  assumes maps4: "index_map (ho_torrents4 ops)" "index_map (ho_peers4 ops)"
    and maps6: "index_map (ho_torrents6 ops)" "index_map (ho_peers6 ops)"
    and random: "rng_source gen"
begin

lemma announced:
  assumes "http_maps_inv maps"
  shows "\<exists>res maps' r'. handle_announce_request ops gen cf vu addr req r maps = Some (res, maps', r') \<and>
    http_maps_inv maps' \<and>
    http_announce_answered cf req addr (http_peer_at maps (ha_info_hash req)) res \<and>
    (\<forall>h ip port. http_peer_at maps' h ip port =
      (if ha_info_hash req = h \<and> socket_ip (get_addr addr) = ip \<and> ha_port req = port
       then if ha_event req = HttpStopped then None else Some (http_announced_peer req vu)
       else http_peer_at maps h ip port))"
proof (cases "socket_ip (get_addr addr)")
  case (V4 a)
  have "http_map_inv (htm_ipv4 maps)" using assms by (simp add: http_maps_inv_def)
  from http_swarm.map_announce [OF http_swarm.intro [OF maps4(2) random] maps4(1) this, of cf req a vu r]
  obtain counts peers m' r' where
    run: "http_map_announce (ho_torrents4 ops) (ho_peers4 ops) gen cf req a vu r (htm_ipv4 maps) = Some (counts, peers, m', r')"
    and inv: "http_map_inv m'"
    and abs: "http_map_abs m' = (http_map_abs (htm_ipv4 maps))(ha_info_hash req :=
      (http_spec_announce req a vu (fst (http_map_abs (htm_ipv4 maps) (ha_info_hash req))),
       http_completed_after req (snd (http_map_abs (htm_ipv4 maps) (ha_info_hash req)))))"
    and answer: "http_answer_conforms cf req
      ((fst (http_map_abs (htm_ipv4 maps) (ha_info_hash req)))(http_announcing_key req a := None)) counts peers" by blast
  obtain seeders leechers where counts: "counts = (seeders, leechers)" by (cases counts)
  have own: "(\<lambda>k. http_peer_at maps (ha_info_hash req) (V4 (hp_ip_address k)) (hp_port k)) =
      fst (http_map_abs (htm_ipv4 maps) (ha_info_hash req))"
    by (simp add: http_peer_at_def)
  show ?thesis
    using assms inv answer
    by (simp add: handle_announce_request_def V4 run counts http_maps_inv_def http_announce_answered_def own)
      (auto simp: http_peer_at_def abs http_spec_announce_def http_announcing_key_def split: ip_addr.splits)
next
  case (V6 a)
  have "http_map_inv (htm_ipv6 maps)" using assms by (simp add: http_maps_inv_def)
  from http_swarm.map_announce [OF http_swarm.intro [OF maps6(2) random] maps6(1) this, of cf req a vu r]
  obtain counts peers m' r' where
    run: "http_map_announce (ho_torrents6 ops) (ho_peers6 ops) gen cf req a vu r (htm_ipv6 maps) = Some (counts, peers, m', r')"
    and inv: "http_map_inv m'"
    and abs: "http_map_abs m' = (http_map_abs (htm_ipv6 maps))(ha_info_hash req :=
      (http_spec_announce req a vu (fst (http_map_abs (htm_ipv6 maps) (ha_info_hash req))),
       http_completed_after req (snd (http_map_abs (htm_ipv6 maps) (ha_info_hash req)))))"
    and answer: "http_answer_conforms cf req
      ((fst (http_map_abs (htm_ipv6 maps) (ha_info_hash req)))(http_announcing_key req a := None)) counts peers" by blast
  obtain seeders leechers where counts: "counts = (seeders, leechers)" by (cases counts)
  have own: "(\<lambda>k. http_peer_at maps (ha_info_hash req) (V6 (hp_ip_address k)) (hp_port k)) =
      fst (http_map_abs (htm_ipv6 maps) (ha_info_hash req))"
    by (simp add: http_peer_at_def)
  show ?thesis
    using assms inv answer
    by (simp add: handle_announce_request_def V6 run counts http_maps_inv_def http_announce_answered_def own)
      (auto simp: http_peer_at_def abs http_spec_announce_def http_announcing_key_def split: ip_addr.splits)
qed

end

lemma http_clean_peer_at:
  assumes "http_maps_inv maps"
  shows "http_maps_inv (http_clean cf al now maps)"
    and "http_peer_at (http_clean cf al now maps) h ip port =
      (if allows (hcf_access_list_mode cf) al h
       then Option.bind (http_peer_at maps h ip port) (\<lambda>q. if valid (hpe_valid_until q) now then Some q else None)
       else None)"
proof -
  note c4 = http_map_clean_ok [of "htm_ipv4 maps" cf al now] and c6 = http_map_clean_ok [of "htm_ipv6 maps" cf al now]
  show "http_maps_inv (http_clean cf al now maps)"
    using assms c4 c6 by (simp add: http_maps_inv_def http_clean_def)
  have cleaned: "fst (http_spec_clean cf al now h t) k =
      (if allows (hcf_access_list_mode cf) al h
       then Option.bind (fst t k) (\<lambda>q. if valid (hpe_valid_until q) now then Some q else None) else None)"
    for t :: "('i http_response_peer \<rightharpoonup> http_peer) \<times> u64" and k
  proof (cases "restrict_with (http_alive now) (fst t) = Map.empty")
    case True
    have "Option.bind (fst t k) (\<lambda>q. if valid (hpe_valid_until q) now then Some q else None) = None"
      using fun_cong [OF True, of k] by (simp add: restrict_with_bind http_alive_def)
    with True show ?thesis by (simp add: http_spec_clean_def)
  next
    case False
    then show ?thesis by (simp add: http_spec_clean_def Let_def) (simp add: restrict_with_bind http_alive_def)
  qed
  show "http_peer_at (http_clean cf al now maps) h ip port =
      (if allows (hcf_access_list_mode cf) al h
       then Option.bind (http_peer_at maps h ip port) (\<lambda>q. if valid (hpe_valid_until q) now then Some q else None)
       else None)"
    using assms c4 c6
    by (cases ip) (simp_all add: http_peer_at_def http_clean_def http_maps_inv_def cleaned)
qed

subsection \<open>The worker\<close>

text \<open>What the worker knows of one peer: its deadline for new peers, and the entry.\<close>

definition http_view ::
  "http_info_hash \<Rightarrow> ip_addr \<Rightarrow> u16 \<Rightarrow> 'r http_swarm_worker \<Rightarrow> valid_until \<times> http_peer option" where
  "http_view h ip port w = (hsw_peer_valid_until w, http_peer_at (hsw_torrents w) h ip port)"

lemma deadline_of: "secs \<le> u32_max \<Longrightarrow> valid_until_new secs (hwc_max_peer_age cf) = Some (http_new_deadline cf secs)"
  by (simp add: valid_until_new_def seconds_elapsed_def http_new_deadline_def)

context http_swarm_crates
begin

lemma step:
  assumes "http_maps_inv (hsw_torrents w)" and "http_event_ok e"
  shows "\<exists>sent w'. http_worker_step ops gen cf e w = Some (sent, w') \<and> http_maps_inv (hsw_torrents w') \<and>
    list_all2 http_answers (http_requests_in [e]) sent \<and>
    (\<forall>h ip port. http_view h ip port w' = http_life_step cf h ip port e (http_view h ip port w))"
proof (cases e)
  case (TorrentsCleaned al secs)
  then have "seconds_elapsed secs = Some (word_of_nat secs)" using assms(2) by (simp add: seconds_elapsed_def)
  then show ?thesis
    using http_clean_peer_at [OF assms(1), of "hwc_swarm cf" al "word_of_nat secs"]
    by (simp add: TorrentsCleaned http_clean_torrents_def http_view_def)
next
  case (DeadlineUpdated secs)
  then show ?thesis using assms by (simp add: http_update_valid_until_def deadline_of http_view_def)
next
  case (RequestTaken i request)
  show ?thesis
  proof (cases request)
    case (ChannelAnnounce req addr)
    from announced [OF assms(1), of "hwc_swarm cf" "hsw_peer_valid_until w" addr req "hsw_rngs w i"]
    show ?thesis by (auto simp: RequestTaken ChannelAnnounce http_view_def)
  next
    case (ChannelScrape req addr)
    then show ?thesis using assms(1) by (simp add: RequestTaken http_view_def)
  qed
qed

lemma http_requests_Cons: "http_requests_in (e # es) = http_requests_in [e] @ http_requests_in es"
  by (cases e) simp_all

lemma run:
  assumes "http_maps_inv (hsw_torrents w)" and "list_all http_event_ok es"
  shows "\<exists>sent w'. http_worker_run ops gen cf es w = Some (sent, w') \<and> http_maps_inv (hsw_torrents w') \<and>
    list_all2 http_answers (http_requests_in es) sent \<and>
    (\<forall>h ip port. http_view h ip port w' = fold (http_life_step cf h ip port) es (http_view h ip port w))"
  using assms
proof (induction es arbitrary: w)
  case Nil
  then show ?case by simp
next
  case (Cons e es)
  have ok: "http_event_ok e" "list_all http_event_ok es" using Cons.prems(2) by simp_all
  obtain sent w1 where s: "http_worker_step ops gen cf e w = Some (sent, w1)" "http_maps_inv (hsw_torrents w1)"
    "list_all2 http_answers (http_requests_in [e]) sent"
    "\<forall>h ip port. http_view h ip port w1 = http_life_step cf h ip port e (http_view h ip port w)"
    using step [OF Cons.prems(1) ok(1), of cf] by blast
  obtain more w2 where r: "http_worker_run ops gen cf es w1 = Some (more, w2)" "http_maps_inv (hsw_torrents w2)"
    "list_all2 http_answers (http_requests_in es) more"
    "\<forall>h ip port. http_view h ip port w2 = fold (http_life_step cf h ip port) es (http_view h ip port w1)"
    using Cons.IH [OF s(2) ok(2)] by blast
  have "list_all2 http_answers (http_requests_in (e # es)) (sent @ more)"
    unfolding http_requests_Cons [of e es] by (rule list_all2_appendI [OF s(3) r(3)])
  then show ?case using s(1,4) r(1,2,4) by simp
qed

lemma life:
  assumes "secs \<le> u32_max" and "list_all http_event_ok es"
  shows "\<exists>w0 sent w. http_swarm_worker_start cf secs rngs = Some w0 \<and>
    http_worker_run ops gen cf es w0 = Some (sent, w) \<and> http_maps_inv (hsw_torrents w) \<and>
    list_all2 http_answers (http_requests_in es) sent \<and>
    (\<forall>h ip port. http_peer_at (hsw_torrents w) h ip port = http_peer_life cf es secs h ip port)"
proof -
  define w0 where "w0 = \<lparr>hsw_torrents = http_torrent_maps_new, hsw_peer_valid_until = http_new_deadline cf secs, hsw_rngs = rngs\<rparr>"
  have view: "http_view h ip port w0 = (http_new_deadline cf secs, None)" for h ip port
    by (cases ip) (simp_all add: http_view_def w0_def http_peer_at_def http_torrent_maps_new_def http_map_abs_def htd_opt_abs_def)
  have inv: "http_maps_inv (hsw_torrents w0)" by (simp add: w0_def new_maps_inv)
  from run [OF inv assms(2), of cf] obtain sent w where
    r: "http_worker_run ops gen cf es w0 = Some (sent, w)" "http_maps_inv (hsw_torrents w)"
    "list_all2 http_answers (http_requests_in es) sent"
    "\<forall>h ip port. http_view h ip port w = fold (http_life_step cf h ip port) es (http_view h ip port w0)" by blast
  have "http_peer_at (hsw_torrents w) h ip port = http_peer_life cf es secs h ip port" for h ip port
    using r(4) [rule_format, of h ip port] by (simp add: view) (metis http_peer_life_def http_view_def snd_conv)
  moreover have "http_swarm_worker_start cf secs rngs = Some w0"
    using assms(1) by (simp add: http_swarm_worker_start_def deadline_of w0_def)
  ultimately show ?thesis using r by blast
qed

end

definition ref_swarm_ops :: http_swarm_ops where
  "ref_swarm_ops = \<lparr>ho_torrents4 = ref_index_map, ho_torrents6 = ref_index_map,
     ho_peers4 = ref_index_map, ho_peers6 = ref_index_map\<rparr>"

interpretation ref_swarm: http_swarm_crates ref_swarm_ops ref_gen_range
  by (rule http_swarm_crates.intro) (simp_all add: ref_swarm_ops_def ref_index_map_laws ref_gen_range_laws)

sublocale http_conn_laws \<subseteq> swarm: http_swarm_crates "hcx_swarm_ops x" "hcx_gen x"
  by (rule http_swarm_crates.intro) (rule torrents4_laws peers4_laws torrents6_laws peers6_laws gen_laws)+

text \<open>C4. What a worker answers follows from the lives of the peers. From its start, through whatever
  requests, cleanings and updates of the deadline and in whatever order, no step panics, every request
  is answered in its turn with an answer of its kind, and of each address of each torrent exactly that
  is stored which its own last announce and the cleanings since leave; and the next announce is
  answered with the counts, and with distinct addresses, of the other peers of the torrent so left.\<close>

theorem http_worker_follows_lives:
  assumes "http_swarm_crates ops gen" and "secs \<le> u32_max" and "list_all http_event_ok es"
  shows "\<exists>w0 sent w. http_swarm_worker_start cf secs rngs = Some w0 \<and>
    http_worker_run ops gen cf es w0 = Some (sent, w) \<and>
    list_all2 http_answers (http_requests_in es) sent \<and>
    (\<forall>h ip port. http_peer_at (hsw_torrents w) h ip port = http_peer_life cf es secs h ip port) \<and>
    (\<exists>res w'. http_handle_channel_request ops gen cf i (ChannelAnnounce req addr) w = Some (AnnounceSent res, w') \<and>
      http_announce_answered (hwc_swarm cf) req addr (http_peer_life cf es secs (ha_info_hash req)) res)"
proof -
  obtain w0 sent w where l: "http_swarm_worker_start cf secs rngs = Some w0"
    "http_worker_run ops gen cf es w0 = Some (sent, w)" "http_maps_inv (hsw_torrents w)"
    "list_all2 http_answers (http_requests_in es) sent"
    "\<forall>h ip port. http_peer_at (hsw_torrents w) h ip port = http_peer_life cf es secs h ip port"
    using http_swarm_crates.life [OF assms, of cf rngs] by blast
  have "http_peer_at (hsw_torrents w) (ha_info_hash req) = http_peer_life cf es secs (ha_info_hash req)"
    using l(5) by (simp add: fun_eq_iff)
  then have "\<exists>res w'. http_handle_channel_request ops gen cf i (ChannelAnnounce req addr) w = Some (AnnounceSent res, w') \<and>
      http_announce_answered (hwc_swarm cf) req addr (http_peer_life cf es secs (ha_info_hash req)) res"
    using http_swarm_crates.announced [OF assms(1) l(3), of "hwc_swarm cf" "hsw_peer_valid_until w" addr req "hsw_rngs w i"]
    by auto
  then show ?thesis using l by blast
qed

subsection \<open>Silent peers\<close>

text \<open>An announce of the peer at an address of a torrent.\<close>

fun http_announce_from :: "http_info_hash \<Rightarrow> ip_addr \<Rightarrow> u16 \<Rightarrow> http_worker_event \<Rightarrow> bool" where
  "http_announce_from h ip port (RequestTaken i (ChannelAnnounce req addr)) =
     (ha_info_hash req = h \<and> socket_ip (get_addr addr) = ip \<and> ha_port req = port)"
| "http_announce_from h ip port e = False"

fun http_clock_until :: "nat \<Rightarrow> http_worker_event \<Rightarrow> bool" where
  "http_clock_until t (DeadlineUpdated secs) = (secs \<le> t)"
| "http_clock_until t e = True"

fun due_by :: "nat \<Rightarrow> valid_until \<Rightarrow> bool" where
  "due_by n (ValidUntil t) = (unat t \<le> n)"

lemma due_by_new: "secs \<le> t \<Longrightarrow> due_by (t + unat (hwc_max_peer_age cf)) (http_new_deadline cf secs)"
proof -
  assume t: "secs \<le> t"
  have "unat (word_of_nat secs + hwc_max_peer_age cf) \<le> unat (word_of_nat secs :: u32) + unat (hwc_max_peer_age cf)"
    by (simp add: unat_word_ariths)
  also have "unat (word_of_nat secs :: u32) \<le> secs" by (simp add: unat_of_nat)
  finally show ?thesis using t by (simp add: http_new_deadline_def)
qed

lemma due_by_expired: "due_by n vu \<Longrightarrow> n \<le> now \<Longrightarrow> now \<le> u32_max \<Longrightarrow> \<not> valid vu (word_of_nat now)"
  by (cases vu) (simp add: word_less_nat_alt unat_of_nat u32_max_def)

lemma life_due:
  assumes "due_by (t + unat (hwc_max_peer_age cf)) (fst s)" and "\<forall>q. snd s = Some q \<longrightarrow> due_by (t + unat (hwc_max_peer_age cf)) (hpe_valid_until q)"
    and "list_all (http_clock_until t) es" and "fold (http_life_step cf h ip port) es s = s'"
  shows "\<forall>q. snd s' = Some q \<longrightarrow> due_by (t + unat (hwc_max_peer_age cf)) (hpe_valid_until q)"
  using assms
proof (induction es arbitrary: s)
  case Nil
  then show ?case by simp
next
  case (Cons e es)
  have "due_by (t + unat (hwc_max_peer_age cf)) (fst (http_life_step cf h ip port e s)) \<and>
      (\<forall>q. snd (http_life_step cf h ip port e s) = Some q \<longrightarrow> due_by (t + unat (hwc_max_peer_age cf)) (hpe_valid_until q))"
    using Cons.prems(1-3)
    by (cases "(cf, h, ip, port, e, s)" rule: http_life_step.cases)
      (auto simp: due_by_new http_announced_peer_def bind_eq_Some_conv split: if_splits)
  then show ?case using Cons.IH [of "http_life_step cf h ip port e s"] Cons.prems(3,4) by simp
qed

lemma life_silent:
  assumes "\<forall>e\<in>set es. \<not> http_announce_from h ip port e" and "fold (http_life_step cf h ip port) es s = s'"
  shows "snd s' = None \<or> snd s' = snd s"
  using assms
proof (induction es arbitrary: s)
  case Nil
  then show ?case by simp
next
  case (Cons e es)
  have "snd (http_life_step cf h ip port e s) = None \<or> snd (http_life_step cf h ip port e s) = snd s"
    using Cons.prems(1)
    by (cases "(cf, h, ip, port, e, s)" rule: http_life_step.cases) (auto split: bind_splits)
  then show ?case using Cons.IH [of "http_life_step cf h ip port e s"] Cons.prems by auto
qed

text \<open>C5. A peer that falls silent is gone. Once an address has not announced for a torrent for the maximum
  age of a peer, counted from the last update of the deadline that its last announce can have seen,
  the next cleaning leaves nothing of it, whatever else was announced, cleaned and updated.\<close>

theorem silent_peers_leave:
  assumes "http_swarm_crates ops gen" and "start \<le> t" and "list_all http_event_ok (es1 @ es2)"
    and "list_all (http_clock_until t) es1" and "\<forall>e\<in>set es2. \<not> http_announce_from h ip port e"
    and "t + unat (hwc_max_peer_age cf) \<le> now" and "now \<le> u32_max"
  shows "\<exists>w0 sent w. http_swarm_worker_start cf start rngs = Some w0 \<and>
    http_worker_run ops gen cf (es1 @ es2 @ [TorrentsCleaned al now]) w0 = Some (sent, w) \<and>
    http_peer_at (hsw_torrents w) h ip port = None"
proof -
  let ?step = "http_life_step cf h ip port" and ?due = "due_by (t + unat (hwc_max_peer_age cf))"
  define s1 where "s1 = fold ?step es1 (http_new_deadline cf start, None)"
  define s2 where "s2 = fold ?step es2 s1"
  have "\<forall>q. snd s1 = Some q \<longrightarrow> ?due (hpe_valid_until q)"
    by (rule life_due [OF _ _ assms(4) s1_def [symmetric]]) (simp_all add: due_by_new assms(2))
  then have due: "\<forall>q. snd s2 = Some q \<longrightarrow> ?due (hpe_valid_until q)"
    using life_silent [OF assms(5) s2_def [symmetric]] by auto
  have "snd (?step (TorrentsCleaned al now) s2) = None"
    using due due_by_expired [OF _ assms(6,7)] by (cases s2) (auto split: bind_splits)
  then have gone: "http_peer_life cf (es1 @ es2 @ [TorrentsCleaned al now]) start h ip port = None"
    by (simp add: http_peer_life_def s1_def s2_def)
  have "start \<le> u32_max" using assms(2,6,7) by simp
  moreover have "list_all http_event_ok (es1 @ es2 @ [TorrentsCleaned al now])" using assms(3,7) by simp
  ultimately show ?thesis
    using http_swarm_crates.life [OF assms(1), of start _ cf rngs] gone by metis
qed

subsection \<open>A run\<close>

definition sample_worker_config :: http_worker_config where
  "sample_worker_config = \<lparr>hwc_swarm = http_sample_config, hwc_max_peer_age = 1800\<rparr>"

definition sample_client :: canonical_socket_addr where
  "sample_client = Canonical (SocketV4 0x7F000001 5000)"

definition sample_worker_events :: "http_worker_event list" where
  "sample_worker_events = [RequestTaken 0 (ChannelAnnounce http_sample_announce sample_client),
     DeadlineUpdated 1000, RequestTaken 1 (ChannelScrape \<lparr>hs_info_hashes = [1]\<rparr> sample_client)]"

lemma http_worker_follows_lives_witness:
  "\<exists>w0 sent w. http_swarm_worker_start sample_worker_config 0 (\<lambda>_. []) = Some w0 \<and>
    http_worker_run ref_swarm_ops ref_gen_range sample_worker_config sample_worker_events w0 = Some (sent, w) \<and>
    list_all2 http_answers (http_requests_in sample_worker_events) sent \<and>
    http_peer_at (hsw_torrents w) 1 (V4 0x7F000001) 6881 =
      Some \<lparr>hpe_valid_until = ValidUntil 1800, hpe_is_seeder = True\<rparr>"
proof -
  have ok: "list_all http_event_ok sample_worker_events" by (simp add: sample_worker_events_def u32_max_def)
  have "http_peer_life sample_worker_config sample_worker_events 0 1 (V4 0x7F000001) 6881 =
      Some \<lparr>hpe_valid_until = ValidUntil 1800, hpe_is_seeder = True\<rparr>"
    by (simp add: http_peer_life_def sample_worker_events_def sample_client_def sample_worker_config_def
        http_sample_announce_def http_new_deadline_def http_announced_peer_def http_announce_status_def http_from_event_and_bytes_left_def)
  then show ?thesis
    using http_worker_follows_lives [OF ref_swarm.http_swarm_crates_axioms _ ok, of 0 sample_worker_config "\<lambda>_. []"]
    by (simp add: u32_max_def) metis
qed

lemma silent_peers_leave_witness:
  "\<exists>w0 sent w. http_swarm_worker_start sample_worker_config 0 (\<lambda>_. []) = Some w0 \<and>
    http_worker_run ref_swarm_ops ref_gen_range sample_worker_config
      ([RequestTaken 0 (ChannelAnnounce http_sample_announce sample_client)] @ [DeadlineUpdated 1000] @
       [TorrentsCleaned {} 1800]) w0 = Some (sent, w) \<and>
    http_peer_at (hsw_torrents w) 1 (V4 0x7F000001) 6881 = None"
  by (rule silent_peers_leave [OF ref_swarm.http_swarm_crates_axioms, of 0 0])
    (simp_all add: sample_worker_config_def u32_max_def)

end
