(* ===== verification/Ban_Flush.thy ===== *)
theory Ban_Flush
  imports Auto_Ban
begin

text \<open>
  The flush thread of the trackers, the same loop in \<open>crates/http/src/lib.rs\<close>, \<open>crates/udp/src/lib.rs\<close>
  and \<open>crates/ws/src/lib.rs\<close>: it writes permanent bans to the file of the IP ban list, has that list
  read again, and takes the bans out of the tracker once the list holds them. The state is what it
  shares with the workers and the signal handler: the tracker, the files and the list in use.
\<close>

record ban_protection =
  bp_tracker :: auto_ban_tracker
  bp_files :: file_system
  bp_ip_ban_list :: ip_ban_list

text \<open>Reading a list file: whether the system lets it be read, and the error it reports where not.\<close>

definition file_at :: "file_system \<Rightarrow> path \<Rightarrow> bool \<times> io_error \<Rightarrow> io_error + bytes" where
  "file_at fs p reading =
     (case fs p of
        Some content \<Rightarrow> if fst reading then Inr content else Inl (snd reading)
      | None \<Rightarrow> Inl (snd reading))"

text \<open>How the system answers the reading of each file.\<close>

type_synonym readings = "path \<Rightarrow> bool \<times> io_error"

text \<open>
  An update of the list in use has two halves without a lock around them: the file is read, and then
  the list made of it is stored. Where nothing comes in between, it is one after the other.
\<close>

definition read_ip_ban_list ::
  "ip_parser \<Rightarrow> path \<Rightarrow> bool \<times> io_error \<Rightarrow> ban_protection \<Rightarrow> io_error + ip_ban_list" where
  "read_ip_ban_list parse_ip path reading s = ip_ban_create parse_ip (file_at (bp_files s) path reading)"

definition store_ip_ban_list ::
  "io_error + ip_ban_list \<Rightarrow> ban_protection \<Rightarrow> ban_protection \<times> (io_error + unit)" where
  "store_ip_ban_list created s =
     (case created of
        Inl e \<Rightarrow> (s, Inl e)
      | Inr l \<Rightarrow> (s\<lparr>bp_ip_ban_list := l\<rparr>, Inr ()))"

definition reload_ip_ban_list ::
  "ip_parser \<Rightarrow> ip_ban_mode \<Rightarrow> path \<Rightarrow> bool \<times> io_error \<Rightarrow> ban_protection \<Rightarrow>
   ban_protection \<times> (io_error + unit)" where
  "reload_ip_ban_list parse_ip mode path reading s =
     (if ip_ban_on mode then store_ip_ban_list (read_ip_ban_list parse_ip path reading s) s else (s, Inr ()))"

definition prune_client_bans ::
  "ip_parser \<Rightarrow> (ip_addr \<Rightarrow> bytes) \<Rightarrow> (path \<Rightarrow> path) \<Rightarrow> environment \<Rightarrow> ban_protection \<Rightarrow> ban_protection" where
  "prune_client_bans parse_ip show_ip tmp_of en s =
     (let (t, fs, _) = maybe_cleanup_client_bans parse_ip show_ip tmp_of en (bp_tracker s) (bp_files s)
      in s\<lparr>bp_tracker := t, bp_files := fs\<rparr>)"

definition flush_bans ::
  "(ip_addr \<Rightarrow> bytes) \<Rightarrow> environment \<Rightarrow> ban_protection \<Rightarrow> ban_protection \<times> ip_addr list" where
  "flush_bans show_ip en s =
     (let (t, fs, flushed) = flush_to_file show_ip en (bp_tracker s) (bp_files s)
      in (s\<lparr>bp_tracker := t, bp_files := fs\<rparr>, flushed))"

definition remove_flushed :: "ip_addr list \<Rightarrow> ban_protection \<Rightarrow> ban_protection" where
  "remove_flushed ips s =
     s\<lparr>bp_tracker := (bp_tracker s)\<lparr>at_inner := remove_ips ips (at_inner (bp_tracker s))\<rparr>\<rparr>"

definition cleanup_bans :: "instant \<Rightarrow> ban_protection \<Rightarrow> ban_protection" where
  "cleanup_bans now s =
     s\<lparr>bp_tracker := (bp_tracker s)\<lparr>at_inner := auto_ban_cleanup now (at_inner (bp_tracker s))\<rparr>\<rparr>"

text \<open>
  What one round meets: the answers of the system to its steps. The round is the thread's own program,
  with no other thread between its steps; below they are taken apart.
\<close>

record flush_env =
  fe_prune :: environment
  fe_flush :: environment
  fe_reading :: "bool \<times> io_error"
  fe_now :: instant

definition flush_round ::
  "ip_parser \<Rightarrow> (ip_addr \<Rightarrow> bytes) \<Rightarrow> (path \<Rightarrow> path) \<Rightarrow> ip_ban_mode \<Rightarrow> path \<Rightarrow> flush_env \<Rightarrow> ban_protection \<Rightarrow>
   ban_protection" where
  "flush_round parse_ip show_ip tmp_of mode path fe s =
     (let s1 = prune_client_bans parse_ip show_ip tmp_of (fe_prune fe) s;
          s2 = (if ip_ban_on mode then
                  (let (s', flushed) = flush_bans show_ip (fe_flush fe) s1
                   in if flushed = [] then s'
                      else (case reload_ip_ban_list parse_ip mode path (fe_reading fe) s' of
                              (s'', Inl _) \<Rightarrow> s''
                            | (s'', Inr _) \<Rightarrow> remove_flushed flushed s''))
                else s1)
      in cleanup_bans (fe_now fe) s2)"

subsection \<open>The threads together\<close>

text \<open>
  Where the flush thread is: between rounds, after a flush that reported addresses, after the file was
  read again, after the list made of it was stored. Where the signal thread is: waiting for a signal,
  or between the two halves of the update a signal asks for; it handles one signal at a time. The
  workers record violations, the parts of which run under separate locks. No thread waits for another.
  A flush collects, writes and marks in one step: until the thread's own next steps no other takes a
  permanent ban out of the tracker.
\<close>

datatype flush_phase =
    FlushIdle | FlushReported "ip_addr list" | FlushRead "ip_addr list" "io_error + ip_ban_list"
  | FlushReloaded "ip_addr list"

datatype signal_phase = SignalIdle | SignalRead "io_error + ip_ban_list"

type_synonym protection_state = "flush_phase \<times> signal_phase \<times> ban_protection"

inductive protection_step ::
  "ip_parser \<Rightarrow> (ip_addr \<Rightarrow> bytes) \<Rightarrow> (path \<Rightarrow> path) \<Rightarrow> ip_ban_mode \<Rightarrow> path \<Rightarrow>
   protection_state \<Rightarrow> protection_state \<Rightarrow> bool"
  for parse_ip show_ip tmp_of mode path
  where
    Violation: "record_violation_locked (at_policy (bp_tracker s)) now ip reason (at_inner (bp_tracker s)) =
        (inner, should_ban, permanent) \<Longrightarrow>
      protection_step parse_ip show_ip tmp_of mode path (ph, sg, s)
        (ph, sg, s\<lparr>bp_tracker := (bp_tracker s)\<lparr>at_inner := inner\<rparr>\<rparr>)"
  | Persist: "persist_ip show_ip en ip (bp_tracker s) (bp_files s) = (t, fs) \<Longrightarrow>
        (en_probe en = NoMetadata \<Longrightarrow> bp_files s path = None) \<Longrightarrow>
      protection_step parse_ip show_ip tmp_of mode path (ph, sg, s) (ph, sg, s\<lparr>bp_tracker := t, bp_files := fs\<rparr>)"
  | Persist_client: "persist_client_ban show_ip en ip (bp_tracker s) (bp_files s) = fs \<Longrightarrow>
      protection_step parse_ip show_ip tmp_of mode path (ph, sg, s) (ph, sg, s\<lparr>bp_files := fs\<rparr>)"
  | Signal_read: "ip_ban_on mode \<Longrightarrow>
      protection_step parse_ip show_ip tmp_of mode path (ph, SignalIdle, s)
        (ph, SignalRead (read_ip_ban_list parse_ip path reading s), s)"
  | Signal_store: "store_ip_ban_list created s = (s', res) \<Longrightarrow>
      protection_step parse_ip show_ip tmp_of mode path (ph, SignalRead created, s) (ph, SignalIdle, s')"
  | Prune: "protection_step parse_ip show_ip tmp_of mode path (FlushIdle, sg, s)
      (FlushIdle, sg, prune_client_bans parse_ip show_ip tmp_of en s)"
  | Flush: "flush_bans show_ip en s = (s', flushed) \<Longrightarrow> ip_ban_on mode \<Longrightarrow>
        (en_probe en = NoMetadata \<Longrightarrow> bp_files s path = None) \<Longrightarrow>
      protection_step parse_ip show_ip tmp_of mode path (FlushIdle, sg, s)
        (if flushed = [] then FlushIdle else FlushReported flushed, sg, s')"
  | Reload_read: "ip_ban_on mode \<Longrightarrow>
      protection_step parse_ip show_ip tmp_of mode path (FlushReported flushed, sg, s)
        (FlushRead flushed (read_ip_ban_list parse_ip path reading s), sg, s)"
  | Reload_store: "store_ip_ban_list created s = (s', res) \<Longrightarrow>
      protection_step parse_ip show_ip tmp_of mode path (FlushRead flushed created, sg, s)
        (case res of Inl _ \<Rightarrow> FlushIdle | Inr _ \<Rightarrow> FlushReloaded flushed, sg, s')"
  | Remove: "protection_step parse_ip show_ip tmp_of mode path (FlushReloaded flushed, sg, s)
      (FlushIdle, sg, remove_flushed flushed s)"
  | Cleanup: "protection_step parse_ip show_ip tmp_of mode path (FlushIdle, sg, s)
      (FlushIdle, sg, cleanup_bans now s)"

abbreviation protection_run where
  "protection_run parse_ip show_ip tmp_of mode path \<equiv> (protection_step parse_ip show_ip tmp_of mode path)\<^sup>*\<^sup>*"

text \<open>
  The runs in which no update a signal asked for is half done when the flush thread stores its list:
  the steps are the same, but for that one.
\<close>

fun overlaps :: "protection_state \<Rightarrow> bool" where
  "overlaps (FlushRead _ _, SignalRead _, _) = True"
| "overlaps _ = False"

inductive orderly_step ::
  "ip_parser \<Rightarrow> (ip_addr \<Rightarrow> bytes) \<Rightarrow> (path \<Rightarrow> path) \<Rightarrow> ip_ban_mode \<Rightarrow> path \<Rightarrow>
   protection_state \<Rightarrow> protection_state \<Rightarrow> bool"
  for parse_ip show_ip tmp_of mode path
  where
    orderly: "protection_step parse_ip show_ip tmp_of mode path x x' \<Longrightarrow>
        (overlaps x \<Longrightarrow> \<forall>flushed. fst x' \<noteq> FlushReloaded flushed) \<Longrightarrow>
      orderly_step parse_ip show_ip tmp_of mode path x x'"

abbreviation orderly_run where
  "orderly_run parse_ip show_ip tmp_of mode path \<equiv> (orderly_step parse_ip show_ip tmp_of mode path)\<^sup>*\<^sup>*"

end
