(* ===== verification/Ban_Flush_Spec.thy ===== *)
theory Ban_Flush_Spec
  imports Ban_Flush Auto_Ban_Spec Crates
begin

text \<open>
  What the flush thread promises, however its steps, the violations the workers record and the updates a
  signal asks for interleave, and whatever writes and reads fail: a permanent ban stays in the tracker
  until it is on file. And what takes it out of use all the same: an update of the list that read the
  file before the ban was in it, and is stored after the flush thread relied on its own.
\<close>

subsection \<open>A line of the file is an entry of the list\<close>

lemma nth_sat_cut: "\<not> P 10 \<Longrightarrow> i \<le> length x \<Longrightarrow> nth_sat P (x @ 10 # y) i = nth_sat P x i"
  by (auto simp: nth_sat_def nth_append)

lemma nth_sat_bound: "nth_sat P x i \<Longrightarrow> Suc i \<le> length x"
  by (simp add: nth_sat_def)

lemma newline_no_cont: "\<not> cont_byte 10" "0x80 \<le> lo \<Longrightarrow> \<not> in_range lo hi 10"
  by (auto simp: cont_byte_def in_range_def word_le_nat_alt)

lemma seq_cut:
  assumes "x \<noteq> []"
  shows "seq2 (x @ 10 # y) = seq2 x"
    and "0x80 \<le> lo \<Longrightarrow> seq3 lo hi (x @ 10 # y) = seq3 lo hi x"
    and "0x80 \<le> lo \<Longrightarrow> seq4 lo hi (x @ 10 # y) = seq4 lo hi x"
proof -
  have one: "1 \<le> length x" using assms by (cases x) simp_all
  show "seq2 (x @ 10 # y) = seq2 x"
    using nth_sat_cut [of cont_byte 1 x y] one by (simp add: seq2_def newline_no_cont)
  assume lo: "0x80 \<le> lo"
  note c1 = nth_sat_cut [of "in_range lo hi" 1 x y, OF newline_no_cont(2) [OF lo] one]
  note c2 = nth_sat_cut [of cont_byte 2 x y, OF newline_no_cont(1)] and c3 = nth_sat_cut [of cont_byte 3 x y, OF newline_no_cont(1)]
  note b1 = nth_sat_bound [of "in_range lo hi" x 1] and b2 = nth_sat_bound [of cont_byte x 2]
  show "seq3 lo hi (x @ 10 # y) = seq3 lo hi x"
    using c1 c2 b1 by (simp add: seq3_def numeral_2_eq_2)
  show "seq4 lo hi (x @ 10 # y) = seq4 lo hi x"
    using c1 c2 c3 b1 b2 by (simp add: seq4_def numeral_2_eq_2 numeral_3_eq_3)
qed

lemma utf8_step_cut: "x \<noteq> [] \<Longrightarrow> utf8_step (x @ 10 # y) = utf8_step x"
  by (simp add: utf8_step_def seq_cut)

lemma seq_within:
  assumes "x \<noteq> []"
  shows "fst (seq2 x) \<le> length x" "fst (seq3 lo hi x) \<le> length x" "fst (seq4 lo hi x) \<le> length x"
  using assms
  by (auto simp: seq2_def seq3_def seq4_def nth_sat_def Suc_le_eq)

lemma utf8_step_within: "x \<noteq> [] \<Longrightarrow> fst (utf8_step x) \<le> length x"
  by (simp add: utf8_step_def seq_within Suc_le_eq)

lemma lossy_newline: "from_utf8_lossy (x @ 10 # y) = from_utf8_lossy x @ 10 # from_utf8_lossy y"
proof (induction x rule: from_utf8_lossy.induct)
  case (1 x)
  show ?case
  proof (cases "x = []")
    case True
    have "utf8_step (10 # y) = (1, True)" by (simp add: utf8_step_def)
    then show ?thesis using True by (simp add: from_utf8_lossy.simps [of "10 # y"] from_utf8_lossy.simps [of "[]"])
  next
    case False
    obtain n ok where st: "utf8_step x = (n, ok)" by (cases "utf8_step x")
    have n: "n \<le> length x" using utf8_step_within [OF False] st by simp
    have IH: "from_utf8_lossy (drop n x @ 10 # y) = from_utf8_lossy (drop n x) @ 10 # from_utf8_lossy y"
      by (rule "1.IH" [OF False st [symmetric] refl])
    have "from_utf8_lossy (x @ 10 # y) =
        (if ok then take n (x @ 10 # y) else [0xEF, 0xBF, 0xBD]) @ from_utf8_lossy (drop n (x @ 10 # y))"
      using False by (simp add: from_utf8_lossy.simps [of "x @ 10 # y"] utf8_step_cut st)
    also have "\<dots> = (if ok then take n x else [0xEF, 0xBF, 0xBD]) @ from_utf8_lossy (drop n x) @ 10 # from_utf8_lossy y"
      using n IH by simp
    also have "\<dots> = from_utf8_lossy x @ 10 # from_utf8_lossy y"
      using False by (simp add: from_utf8_lossy.simps [of x] st)
    finally show ?thesis .
  qed
qed

text \<open>The bytes an address is written with.\<close>

definition address_byte :: "u8 \<Rightarrow> bool" where
  "address_byte c = (c \<in> set (str ''0123456789abcdefABCDEF.:''))"

lemma white_space_no_address: "p \<in> set white_space \<Longrightarrow> p \<noteq> [] \<and> \<not> address_byte (hd p) \<and> \<not> address_byte (last p)"
proof -
  assume p: "p \<in> set white_space"
  have ascii: "address_byte c \<Longrightarrow> c < 0x80" for c by (auto simp: address_byte_def str_def)
  have high: "\<not> address_byte (0x80 + word_of_nat i)" if "i < 11" for i
  proof
    assume "address_byte (0x80 + word_of_nat i)"
    then have "(0x80 + word_of_nat i :: u8) < 0x80" by (rule ascii)
    then show False using that by (simp add: word_less_nat_alt unat_word_ariths unat_of_nat)
  qed
  have "p \<in> set (map (\<lambda>i. [0xE2, 0x80, 0x80 + word_of_nat i]) [0..<11]) \<or> p \<in> set
      ([[9], [10], [11], [12], [13], [32], [0xC2, 0x85], [0xC2, 0xA0], [0xE1, 0x9A, 0x80],
       [0xE2, 0x80, 0xA8], [0xE2, 0x80, 0xA9], [0xE2, 0x80, 0xAF], [0xE2, 0x81, 0x9F], [0xE3, 0x80, 0x80]])"
    using p unfolding white_space_def by (simp only: set_append set_simps Un_iff insert_iff) blast
  then show ?thesis
  proof
    assume "p \<in> set (map (\<lambda>i. [0xE2, 0x80, 0x80 + word_of_nat i]) [0..<11])"
    then obtain i where "i < 11" "p = [0xE2, 0x80, 0x80 + word_of_nat i]" by auto
    then show ?thesis using high [of i] ascii [of "0xE2"] by auto
  next
    assume "p \<in> set
      ([[9], [10], [11], [12], [13], [32], [0xC2, 0x85], [0xC2, 0xA0], [0xE1, 0x9A, 0x80],
       [0xE2, 0x80, 0xA8], [0xE2, 0x80, 0xA9], [0xE2, 0x80, 0xAF], [0xE2, 0x81, 0x9F], [0xE3, 0x80, 0x80]])"
    then show ?thesis by (auto simp: address_byte_def str_def)
  qed
qed

lemma no_strip_prefix:
  assumes "\<And>p. p \<in> set ps \<Longrightarrow> p \<noteq> [] \<and> \<not> address_byte (hd p)" and "s = [] \<or> address_byte (hd s)"
  shows "strip_prefixes ps s = 0"
proof (rule ccontr)
  assume "strip_prefixes ps s \<noteq> 0"
  then obtain p where p: "p \<in> set ps" "starts_with s p" using strip_prefixes_pos by blast
  then have "p \<noteq> []" "\<not> address_byte (hd p)" using assms(1) by blast+
  moreover have "hd p = hd s" "s \<noteq> []"
    using p(2) \<open>p \<noteq> []\<close> unfolding starts_with_def by (metis hd_take length_greater_0_conv) (use p(2) \<open>p \<noteq> []\<close> in \<open>auto simp: starts_with_def\<close>)
  ultimately show False using assms(2) by simp
qed

lemma strip_suffixes_pos:
  "strip_suffixes ps s \<noteq> 0 \<Longrightarrow> \<exists>p \<in> set ps. p \<noteq> [] \<and> ends_with s p"
  by (auto simp: strip_suffixes_def split: list.splits)
    (metis (mono_tags, lifting) filter_eq_ConsD in_set_conv_decomp)

lemma ends_with_last: "ends_with s p \<Longrightarrow> p \<noteq> [] \<Longrightarrow> s \<noteq> [] \<and> last s = last p"
  by (auto simp: ends_with_def) (metis last_drop drop_eq_Nil2 leD list.size(3) linorder_not_le)

lemma no_strip_suffix:
  assumes "\<And>p. p \<in> set ps \<Longrightarrow> p \<noteq> [] \<and> \<not> address_byte (last p)" and "s = [] \<or> address_byte (last s)"
  shows "strip_suffixes ps s = 0"
proof (rule ccontr)
  assume "strip_suffixes ps s \<noteq> 0"
  then obtain p where p: "p \<in> set ps" "ends_with s p" using strip_suffixes_pos by blast
  then have "p \<noteq> []" "\<not> address_byte (last p)" using assms(1) by blast+
  then show False using ends_with_last [OF p(2)] assms(2) by auto
qed

lemma list_entry_address:
  assumes "list_all address_byte a"
  shows "list_entry a = a"
proof -
  have ends: "a = [] \<or> address_byte (hd a)" "a = [] \<or> address_byte (last a)"
    using assms by (cases a; simp add: list_all_iff)+
  have "trim_start_matches [bom] a = a"
    using no_strip_prefix [of "[bom]" a] ends(1)
    by (subst trim_start_matches.simps) (simp add: bom_def address_byte_def str_def)
  moreover have "before_hash a = a"
    using assms unfolding before_hash_def takeWhile_eq_all_conv by (auto simp: list_all_iff address_byte_def str_def)
  moreover have "trim_start_matches white_space a = a"
    using no_strip_prefix [of white_space a] white_space_no_address ends(1) by (subst trim_start_matches.simps) simp
  moreover have "trim_end_matches white_space a = a"
    using no_strip_suffix [of white_space a] white_space_no_address ends(2) by (subst trim_end_matches.simps) simp
  ultimately show ?thesis by (simp add: list_entry_def trim_def)
qed

lemma lossy_address: "list_all address_byte a \<Longrightarrow> from_utf8_lossy a = a"
proof (induction a)
  case (Cons c a)
  then have "c < 0x80" by (auto simp: address_byte_def str_def)
  then have "utf8_step (c # a) = (1, True)" by (simp add: utf8_step_def)
  then show ?case using Cons by (simp add: from_utf8_lossy.simps [of "c # a"])
qed (simp add: from_utf8_lossy.simps)

text \<open>A complete line of the file: what comes before ends with a line feed.\<close>

definition whole_line :: "bytes \<Rightarrow> bytes \<Rightarrow> bool" where
  "whole_line content l = (\<exists>a b. content = a @ l @ 10 # b \<and> (a = [] \<or> last a = 10))"

lemma whole_line_append: "whole_line content l \<Longrightarrow> whole_line (content @ y) l"
proof -
  assume "whole_line content l"
  then obtain a b where c: "content = a @ l @ 10 # b" and a: "a = [] \<or> last a = 10"
    by (auto simp: whole_line_def)
  have "content @ y = a @ l @ 10 # (b @ y)" using c by simp
  then show ?thesis unfolding whole_line_def using a by blast
qed

lemma whole_line_entry:
  assumes "whole_line content l" and "list_all address_byte l" and "l \<noteq> []"
  shows "\<exists>n. (n, l) \<in> set (list_entries content)"
proof -
  obtain a b where c: "content = a @ l @ 10 # b" and a: "a = [] \<or> last a = 10"
    using assms(1) by (auto simp: whole_line_def)
  have nl: "10 \<notin> set l" using assms(2) by (auto simp: list_all_iff address_byte_def str_def)
  have "13 \<notin> set l" using assms(2) by (auto simp: list_all_iff address_byte_def str_def)
  then have "last l \<noteq> 13" using assms(3) last_in_set by metis
  then have cr: "strip_cr l = l" by (simp add: strip_cr_def)
  have "l \<in> set (lines (from_utf8_lossy content))"
  proof (cases "a = []")
    case True
    have "from_utf8_lossy content = l @ 10 # from_utf8_lossy b"
      by (simp add: c True lossy_newline lossy_address assms(2))
    then show ?thesis by (simp add: lines_newline split_on_single nl cr)
  next
    case False
    then have "a = butlast a @ [10]" using a by (metis append_butlast_last_id)
    then have "content = butlast a @ 10 # (l @ 10 # b)" using c by (metis append.assoc append_Cons append_Nil)
    then have "from_utf8_lossy content = from_utf8_lossy (butlast a) @ 10 # (l @ 10 # from_utf8_lossy b)"
      by (simp add: lossy_newline lossy_address assms(2))
    then show ?thesis by (simp add: lines_newline split_on_single nl cr)
  qed
  then obtain i where i: "i < length (lines (from_utf8_lossy content))" "lines (from_utf8_lossy content) ! i = l"
    by (auto simp: in_set_conv_nth)
  then have "(Suc i, l) \<in> set (enumerate 1 (lines (from_utf8_lossy content)))"
    by (auto simp: in_set_enumerate_eq)
  then have "(Suc i, l) \<in> set (list_entries content)"
    using assms(3) list_entry_address [OF assms(2)] by (force simp: list_entries_def)
  then show ?thesis by blast
qed

text \<open>
  The standard library's text of an address: digits, hexadecimal digits, dots and colons, from which it
  reads the address back.
\<close>

locale address_text =
  fixes parse_ip :: ip_parser and show_ip :: "ip_addr \<Rightarrow> bytes"
  assumes parse_show: "parse_ip (show_ip ip) = Some ip"
    and show_bytes: "list_all address_byte (show_ip ip)"
    and show_some: "show_ip ip \<noteq> []"
begin

lemma line_bans:
  assumes "whole_line content (show_ip ip)" and "ip_ban_create parse_ip (Inr content) = Inr l"
  shows "is_banned l ip"
proof -
  obtain n where n: "(n, show_ip ip) \<in> set (list_entries content)"
    using whole_line_entry [OF assms(1) show_bytes show_some] by blast
  have "47 \<notin> set (show_ip ip)"
    using show_bytes [of ip] by (auto simp: list_all_iff address_byte_def str_def)
  then have "entry_covers parse_ip (show_ip ip) ip" by (simp add: entry_covers_def parse_show)
  moreover have "l = fold (add_or_skip parse_ip) (list_entries content) empty_ban_list"
    using assms(2) by (simp add: ip_ban_create_def read_list_file_def)
  ultimately show ?thesis using n by (auto simp: fold_add_banned empty_bans_nothing intro!: bexI [of _ "(n, show_ip ip)"])
qed

end

subsection \<open>Permanent records\<close>

definition permanent_in :: "auto_ban_inner \<Rightarrow> ip_addr \<Rightarrow> bool" where
  "permanent_in inner ip = (\<exists>r. map_of (ab_records inner) ip = Some r \<and> r_permanent r)"

definition persisted_in :: "auto_ban_inner \<Rightarrow> ip_addr \<Rightarrow> bool" where
  "persisted_in inner ip = (\<exists>r. map_of (ab_records inner) ip = Some r \<and> r_permanent r \<and> r_persisted r)"

lemma permanent_is_banned: "permanent_in inner ip \<Longrightarrow> is_auto_banned inner ip now"
  by (auto simp: permanent_in_def is_auto_banned_def record_is_banned_def)

text \<open>A filter that keeps the banned keeps the permanent, and adds none that was persisted.\<close>

lemma kept_records:
  assumes "distinct (map fst (ab_records inner))"
    and "ab_records inner' = filter (\<lambda>e. keep_record now w (snd e)) (ab_records inner)"
  shows "permanent_in inner ip \<Longrightarrow> permanent_in inner' ip" and "persisted_in inner' ip \<Longrightarrow> persisted_in inner ip"
  using map_of_filter_snd [OF assms(1), of "keep_record now w" ip]
  by (auto simp: permanent_in_def persisted_in_def assms(2) keep_record_def record_is_banned_def
      split: option.splits if_splits)

lemma guard_records:
  assumes "ab_inv inner"
  shows "permanent_in inner x \<Longrightarrow> permanent_in (guarded now ip inner) x"
    and "persisted_in (guarded now ip inner) x \<Longrightarrow> persisted_in inner x"
proof -
  have d: "distinct (map fst (ab_records inner))" using assms by (simp add: ab_inv_def)
  show "permanent_in inner x \<Longrightarrow> permanent_in (guarded now ip inner) x"
    using guard_cases [of now ip inner] kept_records(1) [OF d] by (auto simp: permanent_in_def)
  show "persisted_in (guarded now ip inner) x \<Longrightarrow> persisted_in inner x"
    using guard_cases [of now ip inner] kept_records(2) [OF d] by (auto simp: persisted_in_def)
qed

text \<open>A ban just made is not marked as persisted, so that the flush writes it.\<close>

lemma punish_unpersisted: "\<not> r_persisted (punish po now reason ip d r)"
  by (simp add: punish_def apply_ban_def Let_def)

lemma outcome_unpersisted:
  assumes "\<not> is_auto_banned inner ip now"
  shows "r_permanent (fst (outcome po now ip reason inner)) \<Longrightarrow> \<not> r_persisted (fst (outcome po now ip reason inner))"
proof (cases "map_of (ab_records inner) ip")
  case None
  then show "r_permanent (fst (outcome po now ip reason inner)) \<Longrightarrow> \<not> r_persisted (fst (outcome po now ip reason inner))"
    by (auto simp: outcome_def violate_new_def Let_def punish_unpersisted split: if_splits)
next
  case (Some r)
  then have "\<not> r_permanent r" using assms by (simp add: is_auto_banned_def record_is_banned_def)
  then show "r_permanent (fst (outcome po now ip reason inner)) \<Longrightarrow> \<not> r_persisted (fst (outcome po now ip reason inner))"
    using Some
    by (auto simp: outcome_def violate_known_def Let_def punish_unpersisted clear_expired_def
        split: if_splits option.splits)
qed

lemma locked_records:
  assumes "ab_inv inner" and "record_violation_locked po now ip reason inner = (inner', should_ban, permanent)"
  shows "permanent_in inner x \<Longrightarrow> permanent_in inner' x" and "persisted_in inner' x \<Longrightarrow> persisted_in inner x"
proof -
  consider "is_auto_banned inner ip now" "inner' = inner"
    | "\<not> is_auto_banned inner ip now" "inner' = guarded now ip inner"
    | "\<not> is_auto_banned inner ip now" "inner' = (guarded now ip inner)\<lparr>ab_records := AList.update ip
        (fst (outcome po now ip reason (guarded now ip inner))) (ab_records (guarded now ip inner))\<rparr>"
    using assms(2)
    by (cases "is_auto_banned inner ip now"; cases "snd (capacity_guard now ip inner)")
      (auto simp: locked_unfold, auto simp: record_violation_locked_def is_auto_banned_def case_prod_unfold
        guarded_def Let_def split: option.splits)
  note cases = this
  have other: "permanent_in inner ip \<Longrightarrow> is_auto_banned inner ip now" by (rule permanent_is_banned)
  have g: "is_auto_banned (guarded now ip inner) ip now = is_auto_banned inner ip now"
    by (rule guard_bans [OF assms(1)]) simp
  show "permanent_in inner x \<Longrightarrow> permanent_in inner' x"
    using guard_records(1) [OF assms(1), of x now ip] other
    by (cases rule: cases) (auto simp: permanent_in_def update_conv')
  show "persisted_in inner' x \<Longrightarrow> persisted_in inner x"
    using guard_records(2) [OF assms(1), of now ip x] outcome_unpersisted [of "guarded now ip inner" ip now po reason] g
    by (cases rule: cases) (auto simp: persisted_in_def update_conv' split: if_splits)
qed

lemma map_of_set_persisted:
  "map_of (ab_records (set_persisted ip inner)) x =
     (if x = ip then map_option (\<lambda>r. r\<lparr>r_persisted := True\<rparr>) (map_of (ab_records inner) ip)
      else map_of (ab_records inner) x)"
  by (auto simp: set_persisted_def update_conv' split: option.split)

lemma set_persisted_records:
  "permanent_in (set_persisted ip inner) x = permanent_in inner x"
  "persisted_in (set_persisted ip inner) x \<Longrightarrow> x = ip \<or> persisted_in inner x"
  by (auto simp: permanent_in_def persisted_in_def map_of_set_persisted split: if_splits)

lemma fold_set_persisted_records:
  "permanent_in (fold set_persisted ips inner) x = permanent_in inner x"
  "persisted_in (fold set_persisted ips inner) x \<Longrightarrow> x \<in> set ips \<or> persisted_in inner x"
  by (induction ips arbitrary: inner) (auto simp: set_persisted_records(1) dest: set_persisted_records(2))

lemma removed_records:
  assumes "distinct (map fst (ab_records inner))"
  shows "permanent_in inner x \<Longrightarrow> x \<notin> set ips \<Longrightarrow> permanent_in (remove_ips ips inner) x"
    and "persisted_in (remove_ips ips inner) x \<Longrightarrow> persisted_in inner x"
proof -
  have look: "map_of (fold AList.delete ips rs) x = (if x \<in> set ips then None else map_of rs x)"
    for rs :: "(ip_addr \<times> ip_record) list"
    by (induction ips arbitrary: rs) (auto simp: delete_conv')
  show "permanent_in inner x \<Longrightarrow> x \<notin> set ips \<Longrightarrow> permanent_in (remove_ips ips inner) x"
    "persisted_in (remove_ips ips inner) x \<Longrightarrow> persisted_in inner x"
    by (auto simp: permanent_in_def persisted_in_def remove_ips_def look split: if_splits)
qed

subsection \<open>The file only grows\<close>

definition on_file :: "(ip_addr \<Rightarrow> bytes) \<Rightarrow> path \<Rightarrow> file_system \<Rightarrow> ip_addr \<Rightarrow> bool" where
  "on_file show_ip p fs ip = (\<exists>content. fs p = Some content \<and> whole_line content (show_ip ip))"

definition grows :: "path \<Rightarrow> file_system \<Rightarrow> file_system \<Rightarrow> bool" where
  "grows p fs fs' = (\<forall>content. fs p = Some content \<longrightarrow> (\<exists>y. fs' p = Some (content @ y)))"

lemma grows_refl: "fs' p = fs p \<Longrightarrow> grows p fs fs'"
  by (auto simp: grows_def intro: exI [of _ "[]"])

lemma grows_on_file: "grows p fs fs' \<Longrightarrow> on_file show_ip p fs ip \<Longrightarrow> on_file show_ip p fs' ip"
  using whole_line_append by (fastforce simp: grows_def on_file_def)

lemma appended:
  assumes "append_lines pr w p text fs = (fs', ok)"
  shows "grows p fs fs'" and "q \<noteq> p \<Longrightarrow> fs' q = fs q"
    and "ok \<Longrightarrow> (pr = NoMetadata \<Longrightarrow> fs p = None) \<Longrightarrow> \<exists>a. fs' p = Some (a @ text) \<and> (a = [] \<or> last a = 10)"
proof -
  show "grows p fs fs'" "q \<noteq> p \<Longrightarrow> fs' q = fs q"
    using assms by (auto simp: append_lines_def Let_def grows_def split: write_outcome.splits)
  let ?c = "case fs p of Some c \<Rightarrow> c | None \<Rightarrow> []" and ?ends = "file_ends_with_newline pr"
  assume "ok" and pr: "pr = NoMetadata \<Longrightarrow> fs p = None"
  then have "fs' p = Some ((?c @ (if ?ends ?c then [] else [10])) @ text)"
    using assms by (auto simp: append_lines_def Let_def split: write_outcome.splits if_splits)
  moreover have "?c @ (if ?ends ?c then [] else [10]) = [] \<or> last (?c @ (if ?ends ?c then [] else [10])) = 10"
    using pr by (cases pr) (auto simp: file_ends_with_newline_def)
  ultimately show "\<exists>a. fs' p = Some (a @ text) \<and> (a = [] \<or> last a = 10)" by blast
qed

lemma whole_line_among:
  assumes "ip \<in> set ips" and "a = [] \<or> last a = 10"
  shows "whole_line (a @ concat (map (\<lambda>ip. show_ip ip @ [10]) ips)) (show_ip ip)"
proof -
  obtain xs ys where ips: "ips = xs @ ip # ys" using assms(1) by (meson split_list)
  let ?before = "a @ concat (map (\<lambda>ip. show_ip ip @ [10]) xs)"
  have "?before = [] \<or> last ?before = 10"
    using assms(2) by (cases xs rule: rev_cases) auto
  moreover have "a @ concat (map (\<lambda>ip. show_ip ip @ [10]) ips) =
      ?before @ show_ip ip @ 10 # concat (map (\<lambda>ip. show_ip ip @ [10]) ys)"
    by (simp add: ips)
  ultimately show ?thesis unfolding whole_line_def by blast
qed

text \<open>Persisting one address.\<close>

lemma persisted_ip:
  assumes "persist_ip show_ip en ip t fs = (t', fs')" and "usable (at_ban_list_path t) = Some p"
    and "en_probe en = NoMetadata \<Longrightarrow> fs p = None"
  shows "grows p fs fs'" and "at_policy t' = at_policy t" "at_ban_list_path t' = at_ban_list_path t"
    "at_client_ban_list_path t' = at_client_ban_list_path t"
    and "at_inner t' = at_inner t \<or> at_inner t' = set_persisted ip (at_inner t) \<and> on_file show_ip p fs' ip"
proof -
  obtain fs1 ok where ap: "append_ip_line show_ip (en_probe en) (en_write en) p ip fs = (fs1, ok)"
    by (metis prod.exhaust)
  note a = appended [OF ap [unfolded append_ip_line_def]]
  have line: "ok \<Longrightarrow> on_file show_ip p fs1 ip"
    using a(3) assms(3) by (fastforce simp: on_file_def whole_line_def)
  have alt: "(t', fs') = (t, fs) \<or> (t', fs') = (t, fs1) \<or>
      ok \<and> (t', fs') = (t\<lparr>at_inner := set_persisted ip (at_inner t)\<rparr>, fs1)"
    using assms(1,2) by (auto simp: persist_ip_def ap split: option.splits if_splits)
  show "grows p fs fs'" "at_policy t' = at_policy t" "at_ban_list_path t' = at_ban_list_path t"
    "at_client_ban_list_path t' = at_client_ban_list_path t"
    using alt a(1) grows_refl [of fs p fs] by auto
  show "at_inner t' = at_inner t \<or> at_inner t' = set_persisted ip (at_inner t) \<and> on_file show_ip p fs' ip"
    using alt line by auto
qed

lemma persisted_client_ban:
  assumes "usable (at_client_ban_list_path t) \<noteq> Some p"
  shows "persist_client_ban show_ip en ip t fs p = fs p"
proof -
  have other: "q \<noteq> p \<Longrightarrow> fst (append_client_ban_line show_ip pr w q ip u fs) p = fs p" for q pr w u
    using appended(2) [of pr w q _ fs _ _ p] unfolding append_client_ban_line_def by (metis prod.collapse)
  show ?thesis
    using assms other by (auto simp: persist_client_ban_def split: option.splits bool.splits)
qed

lemma pruned_client_bans:
  assumes "maybe_cleanup_client_bans parse_ip show_ip tmp_of en t fs = (t', fs', n)"
    and "\<And>q. usable (at_client_ban_list_path t) = Some q \<Longrightarrow> q \<noteq> p \<and> tmp_of q \<noteq> p"
  shows "fs' p = fs p" and "at_policy t' = at_policy t" "at_ban_list_path t' = at_ban_list_path t"
    "at_client_ban_list_path t' = at_client_ban_list_path t"
    and "ab_records (at_inner t') = ab_records (at_inner t)" "ab_max_records (at_inner t') = ab_max_records (at_inner t)"
proof -
  have files: "fst (cleanup_client_bans parse_ip show_ip tmp_of en u fs) p = fs p"
    if "at_client_ban_list_path u = at_client_ban_list_path t" for u
    using assms(2) that
    by (auto simp: cleanup_client_bans_def Let_def split: option.splits write_outcome.splits)
  show "fs' p = fs p" "at_policy t' = at_policy t" "at_ban_list_path t' = at_ban_list_path t"
    "at_client_ban_list_path t' = at_client_ban_list_path t"
    "ab_records (at_inner t') = ab_records (at_inner t)" "ab_max_records (at_inner t') = ab_max_records (at_inner t)"
    using assms(1) files
    by (auto simp: maybe_cleanup_client_bans_def Let_def split: if_splits prod.splits)
      (metis auto_ban_tracker.select_convs(4) auto_ban_tracker.surjective auto_ban_tracker.update_convs(1) fst_conv)
qed

text \<open>A flush reports permanent bans that are on file, however they got there.\<close>

lemma flushed:
  assumes "flush_to_file show_ip en t fs = (t', fs', ips)" and "usable (at_ban_list_path t) = Some p"
    and "en_probe en = NoMetadata \<Longrightarrow> fs p = None" and "ab_inv (at_inner t)"
    and "\<And>ip. persisted_in (at_inner t) ip \<Longrightarrow> on_file show_ip p fs ip"
  shows "grows p fs fs'" and "at_policy t' = at_policy t" "at_ban_list_path t' = at_ban_list_path t"
    "at_client_ban_list_path t' = at_client_ban_list_path t" and "ab_inv (at_inner t')"
    and "permanent_in (at_inner t') x = permanent_in (at_inner t) x"
    and "persisted_in (at_inner t') x \<Longrightarrow> on_file show_ip p fs' x" and "x \<in> set ips \<Longrightarrow> on_file show_ip p fs' x"
proof -
  define es where "es = filter (permanently_banned (en_now en)) (ab_records (at_inner t))"
  define waiting where "waiting = map fst (filter (\<lambda>e. \<not> r_persisted (snd e)) es)"
  obtain fs1 ok where ap: "append_lines (en_probe en) (en_write en) p
      (concat (map (\<lambda>ip. show_ip ip @ [10]) waiting)) fs = (fs1, ok)" by (metis prod.exhaust)
  note a = appended [OF ap]
  have alt: "(t', fs', ips) \<in> {(t, fs, []), (t, fs1, [])} \<or>
      waiting = [] \<and> (t', fs', ips) = (t, fs, map fst es) \<or>
      ok \<and> (t', fs', ips) = (t\<lparr>at_inner := fold set_persisted waiting (at_inner t)\<rparr>, fs1, map fst es)"
    using assms(1,2)
    by (auto simp: flush_to_file_def Let_def ap es_def [symmetric] waiting_def [symmetric] split: if_splits)
  have written: "on_file show_ip p fs1 y" if "ok" "y \<in> set waiting" for y
    using a(3) [OF that(1) assms(3)] whole_line_among [OF that(2)] by (auto simp: on_file_def)
  have d: "distinct (map fst (ab_records (at_inner t)))" using assms(4) by (simp add: ab_inv_def)
  have known: "y \<in> set waiting \<or> on_file show_ip p fs y" if mem: "y \<in> fst ` set es" for y
  proof -
    obtain r where r: "(y, r) \<in> set (ab_records (at_inner t))" "permanently_banned (en_now en) (y, r)"
      using mem unfolding es_def by fastforce
    have "map_of (ab_records (at_inner t)) y = Some r" using r(1) d by simp
    then show ?thesis
      using r assms(5) [of y]
      by (cases "r_persisted r") (auto simp: persisted_in_def permanently_banned_def waiting_def es_def image_iff
        simp del: map_of_eq_Some_iff)
  qed
  note mono = grows_on_file [OF a(1)]
  show "grows p fs fs'" "at_policy t' = at_policy t" "at_ban_list_path t' = at_ban_list_path t"
    "at_client_ban_list_path t' = at_client_ban_list_path t"
    using alt a(1) grows_refl [of fs p fs] by auto
  have "ab_inv (fold set_persisted waiting (at_inner t)) = ab_inv (at_inner t)"
    by (rule same_keys_inv) (simp_all add: fold_set_persisted_keys)
  then show "ab_inv (at_inner t')" using alt assms(4) by auto
  show "permanent_in (at_inner t') x = permanent_in (at_inner t) x"
    using alt by (auto simp: fold_set_persisted_records(1))
  show "persisted_in (at_inner t') x \<Longrightarrow> on_file show_ip p fs' x"
    using alt assms(5) mono written fold_set_persisted_records(2) [of waiting "at_inner t" x] by auto
  show "x \<in> set ips \<Longrightarrow> on_file show_ip p fs' x"
    using alt known [of x] mono [of show_ip x] written [of x] by auto
qed

subsection \<open>The invariant\<close>

text \<open>What the flush thread carries through its round is on file.\<close>

fun reported :: "flush_phase \<Rightarrow> ip_addr list" where
  "reported FlushIdle = []"
| "reported (FlushReported ips) = ips"
| "reported (FlushRead ips created) = ips"
| "reported (FlushReloaded ips) = ips"

definition protection_inv ::
  "(ip_addr \<Rightarrow> bytes) \<Rightarrow> (path \<Rightarrow> path) \<Rightarrow> path \<Rightarrow> protection_state \<Rightarrow> bool" where
  "protection_inv show_ip tmp_of p x =
     (let s = snd (snd x); t = bp_tracker s in
      usable (at_ban_list_path t) = Some p \<and>
      (\<forall>q. usable (at_client_ban_list_path t) = Some q \<longrightarrow> q \<noteq> p \<and> tmp_of q \<noteq> p) \<and>
      ab_inv (at_inner t) \<and>
      (\<forall>ip. persisted_in (at_inner t) ip \<longrightarrow> on_file show_ip p (bp_files s) ip) \<and>
      (\<forall>ip \<in> set (reported (fst x)). on_file show_ip p (bp_files s) ip))"

lemma protection_invD:
  assumes "protection_inv show_ip tmp_of p (ph, sg, s)"
  shows "usable (at_ban_list_path (bp_tracker s)) = Some p"
    and "usable (at_client_ban_list_path (bp_tracker s)) = Some q \<Longrightarrow> q \<noteq> p \<and> tmp_of q \<noteq> p"
    and "ab_inv (at_inner (bp_tracker s))"
    and "persisted_in (at_inner (bp_tracker s)) ip \<Longrightarrow> on_file show_ip p (bp_files s) ip"
    and "ip \<in> set (reported ph) \<Longrightarrow> on_file show_ip p (bp_files s) ip"
  using assms by (simp_all add: protection_inv_def Let_def)

text \<open>Which lists are read and not yet stored.\<close>

fun flush_list :: "flush_phase \<Rightarrow> ip_ban_list option" where
  "flush_list (FlushRead ips (Inr l)) = Some l"
| "flush_list _ = None"

fun signal_list :: "signal_phase \<Rightarrow> ip_ban_list option" where
  "signal_list (SignalRead (Inr l)) = Some l"
| "signal_list _ = None"

text \<open>An address is banned by the list for good: by that in use, by those about to replace it, and on file.\<close>

definition listed :: "(ip_addr \<Rightarrow> bytes) \<Rightarrow> path \<Rightarrow> ip_addr \<Rightarrow> protection_state \<Rightarrow> bool" where
  "listed show_ip p ip x = (case x of (ph, sg, s) \<Rightarrow>
     on_file show_ip p (bp_files s) ip \<and> is_banned (bp_ip_ban_list s) ip \<and>
     (\<forall>l. flush_list ph = Some l \<or> signal_list sg = Some l \<longrightarrow> is_banned l ip))"

lemma stored:
  "store_ip_ban_list created s = (s', res) \<Longrightarrow>
   bp_tracker s' = bp_tracker s \<and> bp_files s' = bp_files s \<and>
   (case created of Inl e \<Rightarrow> s' = s \<and> res = Inl e \<and> flush_list (FlushRead ips created) = None \<and>
        signal_list (SignalRead created) = None
    | Inr l \<Rightarrow> bp_ip_ban_list s' = l \<and> res = Inr () \<and> flush_list (FlushRead ips created) = Some l \<and>
        signal_list (SignalRead created) = Some l)"
  by (auto simp: store_ip_ban_list_def split: sum.splits)

context address_text
begin

lemma file_bans:
  assumes "on_file show_ip p (bp_files s) ip" and "read_ip_ban_list parse_ip p reading s = Inr l"
  shows "is_banned l ip"
proof -
  obtain content where c: "bp_files s p = Some content" "whole_line content (show_ip ip)"
    using assms(1) by (auto simp: on_file_def)
  have "fst reading"
    using assms(2) by (rule contrapos_pp)
      (simp add: read_ip_ban_list_def file_at_def c(1) ip_ban_create_def read_list_file_def)
  then have "ip_ban_create parse_ip (Inr content) = Inr l"
    using assms(2) by (simp add: read_ip_ban_list_def file_at_def c(1))
  then show ?thesis by (rule line_bans [OF c(2)])
qed

lemma file_bans_list:
  "on_file show_ip p (bp_files s) ip \<Longrightarrow>
   \<exists>l. read_ip_ban_list parse_ip p (True, e) s = Inr l \<and> is_banned l ip"
proof -
  assume on: "on_file show_ip p (bp_files s) ip"
  then obtain l where "read_ip_ban_list parse_ip p (True, e) s = Inr l"
    by (auto simp: on_file_def read_ip_ban_list_def file_at_def ip_ban_create_def read_list_file_def)
  with file_bans [OF on this] show ?thesis by blast
qed

text \<open>
  A step keeps the invariant, lets the file only grow, and leaves permanent bans in the tracker, unless
  it takes out those the flush thread reported.
\<close>

lemma step_kept:
  assumes "protection_step parse_ip show_ip tmp_of mode p x x'" and "protection_inv show_ip tmp_of p x"
  shows "protection_inv show_ip tmp_of p x' \<and> grows p (bp_files (snd (snd x))) (bp_files (snd (snd x'))) \<and>
    (permanent_in (at_inner (bp_tracker (snd (snd x)))) ip \<longrightarrow>
       permanent_in (at_inner (bp_tracker (snd (snd x')))) ip \<or>
       (\<exists>ips. fst x = FlushReloaded ips \<and> ip \<in> set ips))"
  using assms(1,2)
proof (cases rule: protection_step.cases)
  case (Violation s now y reason inner should_ban permanent ph sg)
  note inv = protection_invD [OF assms(2) [unfolded Violation(1)]]
  have "ab_inv inner"
    using locked_inv [OF inv(3), of "at_policy (bp_tracker s)" now y reason] Violation(3) by simp
  then show ?thesis
    using inv locked_records [OF inv(3) Violation(3)]
    by (auto simp: Violation protection_inv_def Let_def grows_refl)
next
  case (Persist en y s t fs ph sg)
  note inv = protection_invD [OF assms(2) [unfolded Persist(1)]]
  note ok = persisted_ip [OF Persist(3) inv(1) Persist(4)]
  note mono = grows_on_file [OF ok(1)]
  have ab: "ab_inv (at_inner t)"
    using ok(5) inv(3) same_keys_inv [OF set_persisted_keys] by auto
  have new: "persisted_in (at_inner t) z \<Longrightarrow> on_file show_ip p fs z" for z
    using ok(5) inv(4) mono set_persisted_records(2) by metis
  have perm: "permanent_in (at_inner t) z = permanent_in (at_inner (bp_tracker s)) z" for z
    using ok(5) set_persisted_records(1) by metis
  show ?thesis
    using inv(1,2,5) ok(1,3,4) ab new perm mono
    by (auto simp: Persist(1,2) protection_inv_def Let_def)
next
  case (Persist_client en y s fs ph sg)
  note inv = protection_invD [OF assms(2) [unfolded Persist_client(1)]]
  have same: "fs p = bp_files s p"
    using persisted_client_ban [of "bp_tracker s" p show_ip en y "bp_files s"] inv(2) Persist_client(3) by blast
  note mono = grows_on_file [OF grows_refl, of fs p "bp_files s", OF same]
  show ?thesis
    using inv mono grows_refl [of fs p "bp_files s", OF same]
    by (auto simp: Persist_client(1,2) protection_inv_def Let_def)
next
  case (Signal_store created s s' res ph)
  then show ?thesis
    using assms(2) stored [OF Signal_store(3)] by (auto simp: protection_inv_def Let_def grows_refl)
next
  case (Prune sg s en)
  note inv = protection_invD [OF assms(2) [unfolded Prune(1)]]
  obtain t fs n where c: "maybe_cleanup_client_bans parse_ip show_ip tmp_of en (bp_tracker s) (bp_files s) = (t, fs, n)"
    by (metis prod_cases3)
  note ok = pruned_client_bans [OF c inv(2)]
  have recs: "permanent_in (at_inner t) z = permanent_in (at_inner (bp_tracker s)) z"
    "persisted_in (at_inner t) z = persisted_in (at_inner (bp_tracker s)) z"
    "ab_inv (at_inner t) = ab_inv (at_inner (bp_tracker s))" for z
    by (simp_all add: permanent_in_def persisted_in_def ab_inv_def ok(5,6))
  have disk: "on_file show_ip p fs z = on_file show_ip p (bp_files s) z" for z by (simp add: on_file_def ok(1))
  have same: "fs p = bp_files s p" using ok(1) by simp
  show ?thesis
    using inv ok(3,4) grows_refl [of fs p "bp_files s", OF same]
    by (auto simp: Prune(1,2) prune_client_bans_def c protection_inv_def Let_def recs disk)
next
  case (Flush en s s' flushed sg)
  note inv = protection_invD [OF assms(2) [unfolded Flush(1)]]
  obtain t fs where f: "flush_to_file show_ip en (bp_tracker s) (bp_files s) = (t, fs, flushed)"
    and s': "s' = s\<lparr>bp_tracker := t, bp_files := fs\<rparr>"
    using Flush(3) by (auto simp: flush_bans_def Let_def split: prod.splits)
  note ok = flushed [OF f inv(1) Flush(5) inv(3,4)]
  show ?thesis
    using inv(1,2) ok by (auto simp: Flush(1,2) s' protection_inv_def Let_def)
next
  case (Reload_store created s s' res flushed sg)
  then show ?thesis
    using assms(2) stored [OF Reload_store(3)]
    by (auto simp: protection_inv_def Let_def grows_refl split: sum.splits)
next
  case (Remove flushed sg s)
  note inv = protection_invD [OF assms(2) [unfolded Remove(1)]]
  let ?i = "at_inner (bp_tracker s)"
  have d: "distinct (map fst (ab_records ?i))" using inv(3) by (simp add: ab_inv_def)
  have ab: "ab_inv (remove_ips flushed ?i)"
    using inv(3) fold_delete_inv [OF d, of flushed] by (simp add: ab_inv_def remove_ips_def)
  show ?thesis
    using inv ab removed_records [OF d]
    by (auto simp: Remove protection_inv_def Let_def remove_flushed_def grows_refl)
next
  case (Cleanup sg s now)
  note inv = protection_invD [OF assms(2) [unfolded Cleanup(1)]]
  let ?i = "at_inner (bp_tracker s)"
  have d: "distinct (map fst (ab_records ?i))" using inv(3) by (simp add: ab_inv_def)
  have kept: "ab_records (auto_ban_cleanup now ?i) = filter (\<lambda>e. keep_record now (ab_window_secs ?i) (snd e)) (ab_records ?i)"
    by (simp add: auto_ban_cleanup_def)
  have ab: "ab_inv (auto_ban_cleanup now ?i)"
    using inv(3) by (auto simp: ab_inv_def auto_ban_cleanup_def distinct_map_filter intro: order.trans [OF length_filter_le])
  show ?thesis
    using inv ab kept_records [OF d kept]
    by (auto simp: Cleanup protection_inv_def Let_def cleanup_bans_def grows_refl)
qed (auto simp: protection_inv_def Let_def grows_refl)

text \<open>What is listed stays listed, in whatever order the halves of the updates come.\<close>

lemma step_listed:
  assumes "protection_step parse_ip show_ip tmp_of mode p x x'" and "protection_inv show_ip tmp_of p x"
    and "listed show_ip p ip x"
  shows "listed show_ip p ip x'"
proof -
  have on: "on_file show_ip p (bp_files (snd (snd x'))) ip"
    using step_kept [OF assms(1,2), THEN conjunct2, THEN conjunct1, THEN grows_on_file] assms(3)
    by (auto simp: listed_def split: prod.splits)
  from assms(1) show ?thesis
  proof (cases rule: protection_step.cases)
    case (Signal_store created s s' res ph)
    then show ?thesis
      using assms(3) on stored [OF Signal_store(3)] by (cases created) (auto simp: listed_def)
  next
    case (Reload_store created s s' res flushed sg)
    then show ?thesis
      using assms(3) on stored [OF Reload_store(3)] by (cases created) (auto simp: listed_def)
  next
    case (Signal_read ph s reading)
    then show ?thesis
      using assms(3) on file_bans [of p s ip reading]
      by (cases "read_ip_ban_list parse_ip p reading s") (auto simp: listed_def)
  next
    case (Reload_read flushed sg s reading)
    then show ?thesis
      using assms(3) on file_bans [of p s ip reading]
      by (cases "read_ip_ban_list parse_ip p reading s") (auto simp: listed_def)
  qed (use assms(3) on in \<open>auto simp: listed_def prune_client_bans_def flush_bans_def remove_flushed_def
      cleanup_bans_def split: prod.splits if_splits\<close>)
qed

end

text \<open>In an orderly run what the flush thread takes out of the tracker is listed.\<close>

definition orderly_phase :: "(ip_addr \<Rightarrow> bytes) \<Rightarrow> path \<Rightarrow> protection_state \<Rightarrow> bool" where
  "orderly_phase show_ip p x =
     ((\<forall>ips l. fst x = FlushRead ips (Inr l) \<longrightarrow> (\<forall>ip \<in> set ips. is_banned l ip)) \<and>
      (\<forall>ips. fst x = FlushReloaded ips \<longrightarrow> (\<forall>ip \<in> set ips. listed show_ip p ip x)))"

context address_text
begin

lemma step_orderly:
  assumes "orderly_step parse_ip show_ip tmp_of mode p x x'" and "protection_inv show_ip tmp_of p x"
    and "orderly_phase show_ip p x"
  shows "orderly_phase show_ip p x'"
proof -
  have step: "protection_step parse_ip show_ip tmp_of mode p x x'"
    and over: "overlaps x \<Longrightarrow> \<forall>flushed. fst x' \<noteq> FlushReloaded flushed"
    using assms(1) by (auto elim: orderly_step.cases)
  have kept: "fst x' = fst x \<Longrightarrow> orderly_phase show_ip p x'"
    using assms(3) step_listed [OF step assms(2)] by (auto simp: orderly_phase_def)
  from step show ?thesis
  proof (cases rule: protection_step.cases)
    case (Reload_read flushed sg s reading)
    then show ?thesis
      using protection_invD(5) [OF assms(2) [unfolded Reload_read(1)]] file_bans [of p s _ reading]
      by (auto simp: orderly_phase_def)
  next
    case (Reload_store created s s' res flushed sg)
    show ?thesis
    proof (cases created)
      case (Inr l)
      have "sg = SignalIdle"
        using over Reload_store stored [OF Reload_store(3)] Inr by (cases sg) auto
      then show ?thesis
        using assms(3) protection_invD(5) [OF assms(2) [unfolded Reload_store(1)]] stored [OF Reload_store(3)]
        by (auto simp: Reload_store(1,2) Inr orderly_phase_def listed_def)
    qed (use stored [OF Reload_store(3)] in \<open>auto simp: Reload_store(1,2) orderly_phase_def\<close>)
  qed ((rule kept, simp; fail) | (auto simp: orderly_phase_def split: if_splits; fail))+
qed

lemma run_kept:
  assumes "protection_run parse_ip show_ip tmp_of mode p x x'" and "protection_inv show_ip tmp_of p x"
  shows "protection_inv show_ip tmp_of p x' \<and>
    (permanent_in (at_inner (bp_tracker (snd (snd x)))) ip \<or> on_file show_ip p (bp_files (snd (snd x))) ip \<longrightarrow>
     permanent_in (at_inner (bp_tracker (snd (snd x')))) ip \<or> on_file show_ip p (bp_files (snd (snd x'))) ip)"
  using assms(1)
proof (induction rule: rtranclp_induct)
  case base
  then show ?case using assms(2) by simp
next
  case (step y z)
  then have inv: "protection_inv show_ip tmp_of p y" by blast
  have "ip \<in> set (reported (fst y)) \<Longrightarrow> on_file show_ip p (bp_files (snd (snd y))) ip"
    using inv by (simp add: protection_inv_def Let_def)
  then show ?case
    using step_kept [OF step.hyps(2) inv, of ip] step.IH grows_on_file by fastforce
qed

lemma run_orderly:
  assumes "orderly_run parse_ip show_ip tmp_of mode p x x'" and "protection_inv show_ip tmp_of p x"
    and "orderly_phase show_ip p x"
  shows "protection_inv show_ip tmp_of p x' \<and> orderly_phase show_ip p x' \<and>
    (permanent_in (at_inner (bp_tracker (snd (snd x)))) ip \<or> listed show_ip p ip x \<longrightarrow>
     permanent_in (at_inner (bp_tracker (snd (snd x')))) ip \<or> listed show_ip p ip x')"
  using assms(1)
proof (induction rule: rtranclp_induct)
  case base
  then show ?case using assms(2,3) by simp
next
  case (step y z)
  then have inv: "protection_inv show_ip tmp_of p y" and ord: "orderly_phase show_ip p y" by blast+
  have s: "protection_step parse_ip show_ip tmp_of mode p y z" using step.hyps(2) by (auto elim: orderly_step.cases)
  have "fst y = FlushReloaded ips \<Longrightarrow> ip \<in> set ips \<Longrightarrow> listed show_ip p ip z" for ips
    using ord step_listed [OF s inv] by (auto simp: orderly_phase_def)
  then show ?case
    using step_kept [OF s inv, of ip] step_listed [OF s inv, of ip] step_orderly [OF step.hyps(2) inv ord] step.IH
    by blast
qed

end

lemma orderly_is_run:
  "orderly_run parse_ip show_ip tmp_of mode p x x' \<Longrightarrow> protection_run parse_ip show_ip tmp_of mode p x x'"
  by (rule mono_rtranclp [rule_format]) (auto elim: orderly_step.cases)

subsection \<open>From startup on\<close>

lemma restored_temporary:
  assumes "\<not> permanent_in inner x"
  shows "\<not> permanent_in (restore_client_ban now u e inner) x"
  using assms
  by (auto simp: restore_client_ban_def permanent_in_def Let_def update_conv' split: prod.splits option.splits if_splits)

lemma fold_restored_temporary:
  "\<not> permanent_in inner x \<Longrightarrow> \<not> permanent_in (fold (restore_client_ban now u) es inner) x"
  by (induction es arbitrary: inner) (simp_all add: restored_temporary)

lemma startup_temporary: "\<not> permanent_in (at_inner (startup parse_ip fs u now cf)) x"
proof -
  have "\<not> permanent_in (at_inner (tracker_from_config cf)) x"
    by (simp add: permanent_in_def tracker_from_config_def tracker_with_policy_def)
  from fold_restored_temporary [OF this] show ?thesis
    by (auto simp: startup_def load_client_bans_def Let_def permanent_in_def raise_limit_def
        tracker_from_config_def tracker_with_policy_def split: option.splits)
qed

lemma startup_paths:
  "at_ban_list_path (startup parse_ip fs u now cf) = nonempty_path (ac_ban_list_path cf)"
  "at_client_ban_list_path (startup parse_ip fs u now cf) = nonempty_path (ac_client_ban_list_path cf)"
  by (auto simp: startup_def load_client_bans_def Let_def tracker_from_config_def tracker_with_policy_def
      split: option.splits)

definition protection_start ::
  "ip_parser \<Rightarrow> file_system \<Rightarrow> nat \<Rightarrow> instant \<Rightarrow> auto_ban_config \<Rightarrow> ip_ban_list \<Rightarrow> protection_state" where
  "protection_start parse_ip fs u now cf l =
     (FlushIdle, SignalIdle, \<lparr>bp_tracker = startup parse_ip fs u now cf, bp_files = fs, bp_ip_ban_list = l\<rparr>)"

lemma protection_start_ok:
  assumes "p \<noteq> []" and "ac_ban_list_path cf = p" and "ac_client_ban_list_path cf \<noteq> p"
    and "tmp_of (ac_client_ban_list_path cf) \<noteq> p"
    and "\<And>q content. fs q = Some content \<Longrightarrow> length content \<le> 2 ^ 40"
  shows "protection_inv show_ip tmp_of p (protection_start parse_ip fs u now cf l)"
    and "orderly_phase show_ip p (protection_start parse_ip fs u now cf l)"
  using startup_inv [OF assms(5), where parse_ip = parse_ip and u = u and now = now and cf = cf] startup_temporary assms(1-4)
  by (auto simp: protection_inv_def protection_start_def Let_def startup_paths usable_def nonempty_path_def
      persisted_in_def permanent_in_def orderly_phase_def)

text \<open>A round of the thread on its own is a run of its steps.\<close>

lemma orderly_steps:
  "protection_step parse_ip show_ip tmp_of mode p (ph, SignalIdle, s) x' \<Longrightarrow>
   orderly_run parse_ip show_ip tmp_of mode p x (ph, SignalIdle, s) \<Longrightarrow>
   orderly_run parse_ip show_ip tmp_of mode p x x'"
  by (erule rtranclp.rtrancl_into_rtrancl) (rule orderly, simp_all)

lemma flush_round_run:
  assumes "\<And>s'. s' = prune_client_bans parse_ip show_ip tmp_of (fe_prune fe) s \<Longrightarrow>
      en_probe (fe_flush fe) = NoMetadata \<Longrightarrow> bp_files s' p = None"
  shows "orderly_run parse_ip show_ip tmp_of mode p (FlushIdle, SignalIdle, s)
    (FlushIdle, SignalIdle, flush_round parse_ip show_ip tmp_of mode p fe s)"
proof -
  let ?run = "orderly_run parse_ip show_ip tmp_of mode p (FlushIdle, SignalIdle, s)"
  define s1 where "s1 = prune_client_bans parse_ip show_ip tmp_of (fe_prune fe) s"
  have first: "?run (FlushIdle, SignalIdle, s1)"
    unfolding s1_def by (rule orderly_steps [OF protection_step.Prune]) simp
  define s2 where "s2 = (if ip_ban_on mode then
                  (let (s', flushed) = flush_bans show_ip (fe_flush fe) s1
                   in if flushed = [] then s'
                      else (case reload_ip_ban_list parse_ip mode p (fe_reading fe) s' of
                              (s'', Inl _) \<Rightarrow> s''
                            | (s'', Inr _) \<Rightarrow> remove_flushed flushed s''))
                else s1)"
  have "?run (FlushIdle, SignalIdle, s2)"
  proof (cases "ip_ban_on mode")
    case False
    then show ?thesis using first by (simp add: s2_def)
  next
    case True
    obtain s' flushed where f: "flush_bans show_ip (fe_flush fe) s1 = (s', flushed)" by (metis prod.exhaust)
    let ?created = "read_ip_ban_list parse_ip p (fe_reading fe) s'"
    obtain s'' res where r: "store_ip_ban_list ?created s' = (s'', res)" by (metis prod.exhaust)
    have 1: "?run (if flushed = [] then FlushIdle else FlushReported flushed, SignalIdle, s')"
      using protection_step.Flush [OF f True assms [OF s1_def]] first by (rule orderly_steps)
    show ?thesis
    proof (cases "flushed = []")
      case False
      then have "?run (FlushReported flushed, SignalIdle, s')" using 1 by simp
      note 2 = orderly_steps [OF protection_step.Reload_read [OF True] this, of "fe_reading fe"]
      note 3 = orderly_steps [OF protection_step.Reload_store [OF r] 2]
      have "?run (FlushIdle, SignalIdle, case res of Inl _ \<Rightarrow> s'' | Inr _ \<Rightarrow> remove_flushed flushed s'')"
        using 3 orderly_steps [OF protection_step.Remove] by (cases res) auto
      then show ?thesis using False True f r by (cases res) (auto simp: s2_def reload_ip_ban_list_def)
    qed (use 1 True f in \<open>simp add: s2_def\<close>)
  qed
  from orderly_steps [OF protection_step.Cleanup this, of "fe_now fe"]
  show ?thesis by (simp add: flush_round_def s1_def [symmetric] s2_def [symmetric])
qed

text \<open>C37. A permanent ban stays in the tracker until it is on file. From startup on, however the steps of the
  flush thread, the violations and their writes, and the updates of the list interleave, and whatever
  writes and reads fail, an address that once has a permanent ban is in every later state banned by the
  tracker, or by any list read from the file. In runs where no update a signal asked for is half done
  when the flush thread stores its list, it is banned by the tracker or by the list in use. The list is
  on and read from the file the tracker writes, which is not that of the client bans and which nothing
  else changes.\<close>

theorem permanent_bans_are_kept:
  assumes "address_text parse_ip show_ip" and "ip_ban_on mode" and "ac_ban_list_path cf = p" and "p \<noteq> []"
    and "ac_client_ban_list_path cf \<noteq> p" and "tmp_of (ac_client_ban_list_path cf) \<noteq> p"
    and "\<And>q content. fs q = Some content \<Longrightarrow> length content \<le> 2 ^ 40"
    and "protection_run parse_ip show_ip tmp_of mode p (protection_start parse_ip fs u t0 cf l) (ph1, sg1, s1)"
    and "permanent_in (at_inner (bp_tracker s1)) ip"
    and "protection_run parse_ip show_ip tmp_of mode p (ph1, sg1, s1) (ph2, sg2, s2)"
  shows "(is_auto_banned (at_inner (bp_tracker s2)) ip now \<or>
      (\<exists>l'. read_ip_ban_list parse_ip p (True, e) s2 = Inr l' \<and> is_banned l' ip)) \<and>
    (orderly_run parse_ip show_ip tmp_of mode p (protection_start parse_ip fs u t0 cf l) (ph1, sg1, s1) \<and>
     orderly_run parse_ip show_ip tmp_of mode p (ph1, sg1, s1) (ph2, sg2, s2) \<longrightarrow>
     is_auto_banned (at_inner (bp_tracker s2)) ip now \<or> is_banned (bp_ip_ban_list s2) ip)"
proof -
  have start: "protection_inv show_ip tmp_of p (protection_start parse_ip fs u t0 cf l)"
    "orderly_phase show_ip p (protection_start parse_ip fs u t0 cf l)"
    using protection_start_ok [of p cf tmp_of fs show_ip parse_ip u t0 l] assms(3-7) by blast+
  have inv: "protection_inv show_ip tmp_of p (ph1, sg1, s1)"
    using address_text.run_kept [OF assms(1,8) start(1)] by blast
  have "permanent_in (at_inner (bp_tracker s2)) ip \<or> on_file show_ip p (bp_files s2) ip"
    using address_text.run_kept [OF assms(1,10) inv, of ip] assms(9) by simp
  moreover have "permanent_in (at_inner (bp_tracker s2)) ip \<or> listed show_ip p ip (ph2, sg2, s2)"
    if "orderly_run parse_ip show_ip tmp_of mode p (protection_start parse_ip fs u t0 cf l) (ph1, sg1, s1)"
      "orderly_run parse_ip show_ip tmp_of mode p (ph1, sg1, s1) (ph2, sg2, s2)"
    using address_text.run_orderly [OF assms(1) that(1) start]
      address_text.run_orderly [OF assms(1) that(2) inv, of ip] assms(9) by auto
  ultimately show ?thesis
    using permanent_is_banned address_text.file_bans_list [OF assms(1)] by (auto simp: listed_def)
qed

subsection \<open>Addresses as text\<close>

text \<open>
  Dotted quads, and eight groups of four hexadecimal digits: texts the standard library reads, though
  it writes an IPv6 address in its shortest form.
\<close>

fun join_with :: "u8 \<Rightarrow> bytes list \<Rightarrow> bytes" where
  "join_with sep [] = []"
| "join_with sep [x] = x"
| "join_with sep (x # y # ys) = x @ sep # join_with sep (y # ys)"

lemma split_on_join: "xs \<noteq> [] \<Longrightarrow> \<forall>x\<in>set xs. sep \<notin> set x \<Longrightarrow> split_on sep (join_with sep xs) = xs"
  by (induction sep xs rule: join_with.induct) (simp_all add: split_on_append split_on_single)

lemma set_join: "set (join_with sep xs) \<subseteq> insert sep (\<Union>x\<in>set xs. set x)"
  by (induction sep xs rule: join_with.induct) auto

lemma filter_join:
  "\<forall>x\<in>set xs. sep \<notin> set x \<Longrightarrow> filter (\<lambda>c. c \<noteq> sep) (join_with sep xs) = concat xs"
  by (induction sep xs rule: join_with.induct) (auto simp: filter_id_conv)

definition ref_show_ip :: "ip_addr \<Rightarrow> bytes" where
  "ref_show_ip ip = (case ip of
     V4 a \<Rightarrow> join_with 46 (map (\<lambda>b. dec_string (unat b)) (word_be 4 a))
   | V6 a \<Rightarrow> join_with 58 (map (hex_encode ref_hex) (chunks 2 (word_be 16 a))))"

definition ref_parse_ip :: ip_parser where
  "ref_parse_ip s =
     (if 46 \<in> set s then
        (let ns = map (parse_uint u8_max) (split_on 46 s)
         in if length ns = 4 \<and> None \<notin> set ns then Some (V4 (be_word (map (word_of_nat \<circ> the) ns))) else None)
      else map_option (\<lambda>bs. V6 (be_word bs)) (hex_decode ref_hex 16 (filter (\<lambda>c. c \<noteq> 58) s)))"

lemma hex_encode_append: "ref_hex_encode (a @ b) = ref_hex_encode a @ ref_hex_encode b"
  by (induction a) simp_all

lemma hex_encode_concat: "concat (map ref_hex_encode xs) = ref_hex_encode (concat xs)"
  by (induction xs) (simp_all add: hex_encode_append)

lemma hexdigit_address: "ascii_hexdigit c \<Longrightarrow> address_byte c \<and> c \<noteq> 46 \<and> c \<noteq> 58"
proof -
  assume h: "ascii_hexdigit c"
  then have "unat c \<in> {48..57} \<union> {65..70} \<union> {97..102}"
    by (auto simp: ascii_hexdigit_def ascii_digit_def word_le_nat_alt)
  then have "unat c \<in> set [48..<58] \<union> set [65..<71] \<union> set [97..<103]"
    unfolding set_upt by auto
  then have "c \<in> word_of_nat ` (set [48..<58] \<union> set [65..<71] \<union> set [97..<103])"
    by (intro image_eqI [of c word_of_nat "unat c"]) simp_all
  then show ?thesis by (auto simp: address_byte_def str_def upt_rec)
qed

lemma dec_string_address: "list_all address_byte (dec_string n)" "46 \<notin> set (dec_string n)"
  using dec_string_ok [of n] hexdigit_address by (auto simp: list_all_iff ascii_hexdigit_def)

lemma four_bytes: "length xs = 4 \<Longrightarrow> \<exists>a b c d. xs = [a, b, c, d]"
  by (auto simp: numeral_eq_Suc length_Suc_conv)

lemma v4_text:
  fixes a :: u32
  shows "ref_parse_ip (ref_show_ip (V4 a)) = Some (V4 a)" and "list_all address_byte (ref_show_ip (V4 a))"
    and "ref_show_ip (V4 a) \<noteq> []"
proof -
  obtain b0 b1 b2 b3 where b: "word_be 4 a = [b0, b1, b2, b3]"
    using four_bytes [OF length_word_be [of 4 a]] by blast
  let ?ds = "map (\<lambda>b. dec_string (unat b)) (word_be 4 a)"
  have sp: "split_on 46 (join_with 46 ?ds) = ?ds"
    by (rule split_on_join) (auto simp: b dec_string_address)
  have "unat c \<le> u8_max" for c :: u8 using unat_byte_lt [of c] unfolding u8_max_def by linarith
  then have parse: "parse_uint u8_max (dec_string (unat c)) = Some (unat c)" for c :: u8
    using parse_dec_string by blast
  have ns: "map (parse_uint u8_max) ?ds = map (\<lambda>b. Some (unat b)) (word_be 4 a)" by (simp add: parse comp_def)
  have dot: "46 \<in> set (join_with 46 ?ds)" by (simp add: b)
  show "ref_parse_ip (ref_show_ip (V4 a)) = Some (V4 a)"
    by (simp add: ref_parse_ip_def ref_show_ip_def sp dot ns comp_def image_iff del: map_map) (simp add: comp_def)
  show "list_all address_byte (ref_show_ip (V4 a))"
    using dec_string_address(1) by (simp add: ref_show_ip_def b) (simp add: address_byte_def str_def)
  show "ref_show_ip (V4 a) \<noteq> []" by (simp add: ref_show_ip_def b)
qed

lemma v6_text:
  fixes a :: u128
  shows "ref_parse_ip (ref_show_ip (V6 a)) = Some (V6 a)" and "list_all address_byte (ref_show_ip (V6 a))"
    and "ref_show_ip (V6 a) \<noteq> []"
proof -
  let ?gs = "map (hex_encode ref_hex) (chunks 2 (word_be 16 a))"
  have digits: "c \<in> set x \<Longrightarrow> x \<in> set ?gs \<Longrightarrow> address_byte c \<and> c \<noteq> 46 \<and> c \<noteq> 58" for x c
    using ref_hex.encode_digits hexdigit_address by fastforce
  have no: "46 \<notin> set (join_with 58 ?gs)" using set_join [of 58 ?gs] digits by fastforce
  have f: "filter (\<lambda>c. c \<noteq> 58) (join_with 58 ?gs) = hex_encode ref_hex (word_be 16 a)"
    using filter_join [of ?gs 58] digits by (auto simp: hex_encode_concat concat_chunks)
  have "hex_decode ref_hex 16 (hex_encode ref_hex (word_be 16 a)) = Some (word_be 16 a)"
    by (rule ref_hex.decode_encode_n) simp
  then show "ref_parse_ip (ref_show_ip (V6 a)) = Some (V6 a)"
    using no f by (simp add: ref_parse_ip_def ref_show_ip_def)
  have "address_byte 58" by (simp add: address_byte_def str_def)
  then show "list_all address_byte (ref_show_ip (V6 a))"
    using set_join [of 58 ?gs] digits by (fastforce simp: ref_show_ip_def list_all_iff)
  have "hex_encode ref_hex (word_be 16 a) \<noteq> []"
    using ref_hex.length_encode [of "word_be 16 a"] by (metis length_word_be list.size(3) mult_is_0 zero_neq_numeral)
  then show "ref_show_ip (V6 a) \<noteq> []" using f by (auto simp: ref_show_ip_def)
qed

interpretation ref_text: address_text ref_parse_ip ref_show_ip
proof
  fix ip
  show "ref_parse_ip (ref_show_ip ip) = Some ip" "list_all address_byte (ref_show_ip ip)" "ref_show_ip ip \<noteq> []"
    using v4_text v6_text by (cases ip; simp)+
qed

text \<open>The tracker of the sample settings, and an injection that gets address 7 a permanent ban.\<close>

definition sample_protection :: "file_system \<Rightarrow> ban_protection" where
  "sample_protection fs = \<lparr>bp_tracker = tracker_from_config sample_config, bp_files = fs, bp_ip_ban_list = empty_ban_list\<rparr>"

lemma sample_start:
  "fs (ac_client_ban_list_path sample_config) = None \<Longrightarrow>
   protection_start ref_parse_ip fs 0 0 sample_config empty_ban_list = (FlushIdle, SignalIdle, sample_protection fs)"
proof -
  assume none: "fs (ac_client_ban_list_path sample_config) = None"
  then have "Option.bind (usable (at_client_ban_list_path (tracker_from_config sample_config))) fs = None"
    by (simp add: tracker_from_config_def tracker_with_policy_def usable_def nonempty_path_def)
  then have "startup ref_parse_ip fs 0 0 sample_config = tracker_from_config sample_config"
    by (simp add: startup_def load_client_bans_def)
  then show ?thesis by (simp add: protection_start_def sample_protection_def)
qed

lemma sample_paths:
  "ac_ban_list_path sample_config = [47, 98]" "ac_client_ban_list_path sample_config \<noteq> [47, 98]"
  by (simp_all add: sample_config_def auto_ban_config_default_def str_def)

lemma sample_violation:
  "\<exists>inner ban permanent r. record_violation_locked (at_policy (tracker_from_config sample_config)) 0 (V4 7) SqlInjection
      (at_inner (tracker_from_config sample_config)) = (inner, ban, permanent) \<and>
    ab_records inner = [(V4 7, r)] \<and> r_permanent r \<and> \<not> r_persisted r \<and>
    ab_ban_duration_secs inner = 0"
  by (simp add: record_violation_locked_def capacity_guard_def violate_new_def tracker_from_config_def
        tracker_with_policy_def punish_def ban_kind_of_def from_secs_def apply_ban_def sample_config_def
        auto_ban_config_default_def Let_def register_offense_def) blast

lemma sample_banned:
  "\<exists>s r. protection_step ref_parse_ip ref_show_ip id IpBanOn [47, 98] (ph, sg, sample_protection fs) (ph, sg, s) \<and>
    bp_files s = fs \<and> bp_ip_ban_list s = empty_ban_list \<and> ab_records (at_inner (bp_tracker s)) = [(V4 7, r)] \<and>
    permanent_in (at_inner (bp_tracker s)) (V4 7) \<and> \<not> r_persisted r \<and>
    at_ban_list_path (bp_tracker s) = Some [47, 98] \<and> ab_ban_duration_secs (at_inner (bp_tracker s)) = 0"
proof -
  obtain inner ban permanent r where v: "record_violation_locked (at_policy (bp_tracker (sample_protection fs))) 0 (V4 7)
      SqlInjection (at_inner (bp_tracker (sample_protection fs))) = (inner, ban, permanent)"
    "ab_records inner = [(V4 7, r)]" "r_permanent r" "\<not> r_persisted r" "ab_ban_duration_secs inner = 0"
    using sample_violation by (auto simp: sample_protection_def)
  show ?thesis
    by (rule exI, rule exI [of _ r], rule conjI [OF protection_step.Violation [OF v(1)]])
      (simp add: v permanent_in_def sample_protection_def tracker_from_config_def tracker_with_policy_def
        sample_config_def auto_ban_config_default_def nonempty_path_def)
qed

subsection \<open>A run\<close>

definition sample_flush_env :: flush_env where
  "sample_flush_env = (let en = \<lparr>en_now = 5, en_unix_now = 0, en_probe = NoMetadata, en_write = WriteOk, en_rename_ok = True\<rparr>
     in \<lparr>fe_prune = en, fe_flush = en, fe_reading = (True, InvalidData), fe_now = 6\<rparr>)"

lemma permanent_bans_are_kept_witness:
  "\<exists>s1. permanent_in (at_inner (bp_tracker s1)) (V4 7) \<and>
    (let s2 = flush_round ref_parse_ip ref_show_ip id IpBanOn [47, 98] sample_flush_env s1
     in orderly_run ref_parse_ip ref_show_ip id IpBanOn [47, 98]
         (protection_start ref_parse_ip Map.empty 0 0 sample_config empty_ban_list) (FlushIdle, SignalIdle, s2) \<and>
       (is_auto_banned (at_inner (bp_tracker s2)) (V4 7) 100 \<or> is_banned (bp_ip_ban_list s2) (V4 7)))"
proof -
  let ?run = "orderly_run ref_parse_ip ref_show_ip id IpBanOn [47, 98]"
  let ?round = "flush_round ref_parse_ip ref_show_ip id IpBanOn [47, 98] sample_flush_env"
  let ?s0 = "protection_start ref_parse_ip Map.empty 0 0 sample_config empty_ban_list"
  have s0: "?s0 = (FlushIdle, SignalIdle, sample_protection Map.empty)" by (rule sample_start) simp
  obtain s1 where v: "protection_step ref_parse_ip ref_show_ip id IpBanOn [47, 98]
      (FlushIdle, SignalIdle, sample_protection Map.empty) (FlushIdle, SignalIdle, s1)" "bp_files s1 = Map.empty"
    "permanent_in (at_inner (bp_tracker s1)) (V4 7)"
    using sample_banned [of FlushIdle SignalIdle Map.empty] by blast
  have first: "?run ?s0 (FlushIdle, SignalIdle, s1)" unfolding s0 by (rule orderly_steps [OF v(1)]) simp
  have second: "?run (FlushIdle, SignalIdle, s1) (FlushIdle, SignalIdle, ?round s1)"
    by (rule flush_round_run) (simp add: v(2) prune_client_bans_def maybe_cleanup_client_bans_def
      cleanup_client_bans_def Let_def split: option.splits)
  have "is_auto_banned (at_inner (bp_tracker (?round s1))) (V4 7) 100 \<or> is_banned (bp_ip_ban_list (?round s1)) (V4 7)"
    by (rule permanent_bans_are_kept [OF ref_text.address_text_axioms _ sample_paths(1) _ sample_paths(2) _ _
          orderly_is_run [OF first] v(3) orderly_is_run [OF second], THEN conjunct2, rule_format,
          OF _ _ _ _ conjI [OF first second]])
      (simp_all add: sample_paths)
  moreover have "?run ?s0 (FlushIdle, SignalIdle, ?round s1)" using first second by (rule rtranclp_trans)
  ultimately show ?thesis unfolding Let_def using v(3) by blast
qed

text \<open>
  A flaw: an update the signal thread began before a flush, and stores after the flush thread has taken
  the ban out of the tracker, leaves a permanent ban in force nowhere, though it is in the file.
\<close>

lemma sample_flushed:
  assumes "ab_records (at_inner (bp_tracker s)) = [(V4 7, r)]" and "r_permanent r" "\<not> r_persisted r"
    and "at_ban_list_path (bp_tracker s) = Some [47, 98]" "ab_ban_duration_secs (at_inner (bp_tracker s)) = 0"
    and "bp_files s [47, 98] = Some []"
  shows "\<exists>s' content. flush_bans ref_show_ip \<lparr>en_now = 5, en_unix_now = 0, en_probe = ProbeOk, en_write = WriteOk,
        en_rename_ok = True\<rparr> s = (s', [V4 7]) \<and> bp_files s' [47, 98] = Some content \<and>
      map fst (ab_records (at_inner (bp_tracker s'))) = [V4 7]"
  using assms
  by (simp add: flush_bans_def flush_to_file_def permanently_banned_def record_is_banned_def usable_def
      nonempty_path_def append_lines_def file_ends_with_newline_def set_persisted_def Let_def)

lemma stale_update_loses_ban:
  "\<exists>fs ph1 sg1 s1 s2. protection_run ref_parse_ip ref_show_ip id IpBanOn [47, 98]
      (protection_start ref_parse_ip fs 0 0 sample_config empty_ban_list) (ph1, sg1, s1) \<and>
    permanent_in (at_inner (bp_tracker s1)) (V4 7) \<and>
    protection_run ref_parse_ip ref_show_ip id IpBanOn [47, 98] (ph1, sg1, s1) (FlushIdle, SignalIdle, s2) \<and>
    \<not> is_auto_banned (at_inner (bp_tracker s2)) (V4 7) now \<and> \<not> is_banned (bp_ip_ban_list s2) (V4 7)"
proof -
  let ?step = "protection_step ref_parse_ip ref_show_ip id IpBanOn [47, 98]"
  define fs :: file_system where "fs = [[47, 98] \<mapsto> []]"
  have s0: "protection_start ref_parse_ip fs 0 0 sample_config empty_ban_list = (FlushIdle, SignalIdle, sample_protection fs)"
    by (rule sample_start) (simp add: fs_def sample_paths(2))
  obtain s1 r where v: "?step (FlushIdle, SignalIdle, sample_protection fs) (FlushIdle, SignalIdle, s1)" "bp_files s1 = fs"
      "ab_records (at_inner (bp_tracker s1)) = [(V4 7, r)]" "permanent_in (at_inner (bp_tracker s1)) (V4 7)"
      "\<not> r_persisted r" "at_ban_list_path (bp_tracker s1) = Some [47, 98]"
      "ab_ban_duration_secs (at_inner (bp_tracker s1)) = 0"
    using sample_banned [of FlushIdle SignalIdle fs] by blast
  have stale: "read_ip_ban_list ref_parse_ip [47, 98] (True, InvalidData) s1 = Inr empty_ban_list"
    by (simp add: read_ip_ban_list_def file_at_def v(2) fs_def ip_ban_create_def read_list_file_def list_entries_def
        from_utf8_lossy.simps lines_def)
  let ?sg = "SignalRead (Inr empty_ban_list)"
  have 1: "?step (FlushIdle, SignalIdle, s1) (FlushIdle, ?sg, s1)"
    using protection_step.Signal_read [of IpBanOn ref_parse_ip ref_show_ip id "[47, 98]" FlushIdle s1 "(True, InvalidData)"] stale
    by simp
  have "r_permanent r" using v(3,4) by (simp add: permanent_in_def)
  from sample_flushed [OF v(3) this v(5-7)] obtain s' content where f: "flush_bans ref_show_ip \<lparr>en_now = 5,
        en_unix_now = 0, en_probe = ProbeOk, en_write = WriteOk, en_rename_ok = True\<rparr> s1 = (s', [V4 7])"
      "bp_files s' [47, 98] = Some content" "map fst (ab_records (at_inner (bp_tracker s'))) = [V4 7]"
    by (auto simp: v(2) fs_def)
  have 2: "?step (FlushIdle, ?sg, s1) (FlushReported [V4 7], ?sg, s')"
    using protection_step.Flush [OF f(1), of IpBanOn "[47, 98]" ref_parse_ip id ?sg] by simp
  obtain l where l: "read_ip_ban_list ref_parse_ip [47, 98] (True, InvalidData) s' = Inr l"
    by (simp add: read_ip_ban_list_def file_at_def f(2) ip_ban_create_def read_list_file_def)
  have 3: "?step (FlushReported [V4 7], ?sg, s') (FlushRead [V4 7] (Inr l), ?sg, s')"
    using protection_step.Reload_read [of IpBanOn ref_parse_ip ref_show_ip id "[47, 98]" "[V4 7]" ?sg s' "(True, InvalidData)"] l
    by simp
  let ?s'' = "s'\<lparr>bp_ip_ban_list := l\<rparr>"
  have 4: "?step (FlushRead [V4 7] (Inr l), ?sg, s') (FlushReloaded [V4 7], ?sg, ?s'')"
    using protection_step.Reload_store [of "Inr l" s' ?s'' "Inr ()" ref_parse_ip ref_show_ip id IpBanOn "[47, 98]" "[V4 7]" ?sg]
    by (simp add: store_ip_ban_list_def)
  have 5: "?step (FlushReloaded [V4 7], ?sg, ?s'') (FlushIdle, ?sg, remove_flushed [V4 7] ?s'')"
    by (rule protection_step.Remove)
  let ?s2 = "(remove_flushed [V4 7] ?s'')\<lparr>bp_ip_ban_list := empty_ban_list\<rparr>"
  have 6: "?step (FlushIdle, ?sg, remove_flushed [V4 7] ?s'') (FlushIdle, SignalIdle, ?s2)"
    by (rule protection_step.Signal_store) (simp add: store_ip_ban_list_def)
  have "ab_records (at_inner (bp_tracker ?s2)) = []"
    using f(3) by (auto simp: remove_flushed_def remove_ips_def)
  then have "\<not> is_auto_banned (at_inner (bp_tracker ?s2)) (V4 7) now" "\<not> is_banned (bp_ip_ban_list ?s2) (V4 7)"
    by (simp_all add: is_auto_banned_def empty_bans_nothing)
  moreover have "?step\<^sup>*\<^sup>* (FlushIdle, SignalIdle, s1) (FlushIdle, SignalIdle, ?s2)"
    using 1 2 3 4 5 6 by (meson converse_rtranclp_into_rtranclp rtranclp.rtrancl_refl)
  ultimately show ?thesis using v(1,4) unfolding s0 [symmetric] by (meson r_into_rtranclp)
qed

end
