(* ===== verification/Http_Startup.thy ===== *)
theory Http_Startup
  imports Http_Connection Ban_Flush
begin

text \<open>
  \<open>crates/http/src/lib.rs\<close>, the start of the HTTP tracker: the checks of the configuration, the state
  the workers share, and what the signals do to it; and the registry of connections of
  \<open>crates/http/src/workers/socket/mod.rs\<close>. Threads, sockets, TLS certificates, metrics and privileges
  are not modelled. The files are what the system yields for a path.
\<close>

subsection \<open>The checks\<close>

record http_run_config =
  rc_use_ipv4 :: bool
  rc_use_ipv6 :: bool
  rc_socket_workers :: nat
  rc_torrent_cleaning_interval :: nat
  rc_connection_cleaning_interval :: nat
  rc_torrent_count_update_interval :: nat
  rc_tcp_keepalive :: bool
  rc_tcp_keepalive_idle_secs :: nat
  rc_tcp_keepalive_interval_secs :: nat
  rc_tcp_keepalive_probes :: nat
  rc_socket :: http_socket_config
  rc_auto_ban :: auto_ban_config
  rc_access_list_path :: path
  rc_ip_ban_path :: path

datatype http_startup_error =
    NoAddressFamily
  | InvalidSetting config_error
  | ZeroKeepaliveProbes
  | ResponseBufferTooLarge
  | ProxyWithoutTrust
  | InvalidAutoBan auto_ban_config_error
  | AccessListFailed list_error
  | IpBanListFailed io_error
  | ClientBanListFailed io_error
  | TrustedProxiesFailed trusted_proxies_error

definition MAX_RESPONSE_BUFFER_SIZE :: nat where
  "MAX_RESPONSE_BUFFER_SIZE = 1024 * 1024"

text \<open>The number of socket workers, where every check passes.\<close>

definition http_validate ::
  "(path \<Rightarrow> path option) \<Rightarrow> nat option \<Rightarrow> http_run_config \<Rightarrow> http_startup_error + nat" where
  "http_validate canonicalize parallelism rc =
     and_then (ensure (rc_use_ipv4 rc \<or> rc_use_ipv6 rc) NoAddressFamily) (\<lambda>_.
     let (socket_workers, counts) =
           validate_worker_counts parallelism (rc_socket_workers rc) (Some (hsc_swarm_workers (rc_socket rc)))
     in and_then (map_err InvalidSetting counts) (\<lambda>_.
     and_then (map_err InvalidSetting
       (validate_interval (str ''cleaning.torrent_cleaning_interval'') (rc_torrent_cleaning_interval rc))) (\<lambda>_.
     and_then (map_err InvalidSetting
       (validate_interval (str ''cleaning.connection_cleaning_interval'') (rc_connection_cleaning_interval rc))) (\<lambda>_.
     and_then (map_err InvalidSetting
       (validate_interval (str ''metrics.torrent_count_update_interval'') (rc_torrent_count_update_interval rc))) (\<lambda>_.
     and_then
       (if rc_tcp_keepalive rc then
          and_then (map_err InvalidSetting
            (validate_interval (str ''network.tcp_keepalive_idle_secs'') (rc_tcp_keepalive_idle_secs rc))) (\<lambda>_.
          and_then (map_err InvalidSetting
            (validate_interval (str ''network.tcp_keepalive_interval_secs'') (rc_tcp_keepalive_interval_secs rc))) (\<lambda>_.
          ensure (rc_tcp_keepalive_probes rc \<noteq> 0) ZeroKeepaliveProbes))
        else Inr ()) (\<lambda>_.
     and_then (ensure (response_buffer_size (rc_socket rc) \<le> MAX_RESPONSE_BUFFER_SIZE) ResponseBufferTooLarge) (\<lambda>_.
     and_then (ensure (\<not> (hsc_runs_behind_reverse_proxy (rc_socket rc) \<and>
         \<not> tp_enabled (hsc_trusted_proxies (rc_socket rc)))) ProxyWithoutTrust) (\<lambda>_.
     and_then (map_err InvalidAutoBan (validate_auto_ban_config canonicalize (rc_auto_ban rc)
         (gc_ip_ban_mode (hsc_guard (rc_socket rc))) (rc_ip_ban_path rc))) (\<lambda>_.
     Inr socket_workers)))))))))"

subsection \<open>The shared state\<close>

record 'n http_state =
  hss_access_list :: access_list
  hss_ip_ban_list :: ip_ban_list
  hss_client_ban_list :: client_ban_list
  hss_trusted_proxies :: "'n trusted_proxies"
  hss_auto_ban_tracker :: "auto_ban_tracker option"

record 'n http_run_crates =
  hrx_hex :: hex_ops
  hrx_networks :: "'n network_crates"
  hrx_parse_ip :: ip_parser
  hrx_canonicalize :: "path \<Rightarrow> path option"

definition http_state_default :: "'n http_state" where
  "http_state_default = \<lparr>hss_access_list = {}, hss_ip_ban_list = empty_ban_list,
     hss_client_ban_list = client_ban_list_default, hss_trusted_proxies = trusted_proxies_default,
     hss_auto_ban_tracker = None\<rparr>"

text \<open>The tracker of automatic bans, with the client bans of an earlier run.\<close>

definition http_auto_ban_tracker ::
  "'n http_run_crates \<Rightarrow> file_system \<Rightarrow> nat \<Rightarrow> instant \<Rightarrow> http_run_config \<Rightarrow> auto_ban_tracker option" where
  "http_auto_ban_tracker x fs now_unix now rc =
     (if ac_enabled (rc_auto_ban rc)
      then Some (fst (load_client_bans (hrx_parse_ip x) fs now_unix now (tracker_from_config (rc_auto_ban rc))))
      else None)"

text \<open>
  The updates of the four lists, each of which leaves its list as it was where it fails; \<open>reading\<close> is
  whether the system lets a file be read, and the error where not.
\<close>

definition http_update_access_list ::
  "'n http_run_crates \<Rightarrow> http_run_config \<Rightarrow> file_system \<Rightarrow> readings \<Rightarrow> 'n http_state \<Rightarrow>
   'n http_state \<times> (http_startup_error + unit)" where
  "http_update_access_list x rc fs reading st =
     (let p = rc_access_list_path rc;
          (l, res) = update_access_list (hrx_hex x) (gc_access_list_mode (hsc_guard (rc_socket rc)))
            (file_at fs p (reading p)) (hss_access_list st)
      in (st\<lparr>hss_access_list := l\<rparr>, map_err AccessListFailed res))"

definition http_update_ip_ban_list ::
  "'n http_run_crates \<Rightarrow> http_run_config \<Rightarrow> file_system \<Rightarrow> readings \<Rightarrow> 'n http_state \<Rightarrow>
   'n http_state \<times> (http_startup_error + unit)" where
  "http_update_ip_ban_list x rc fs reading st =
     (let p = rc_ip_ban_path rc;
          (l, res) = update_ip_ban_list (hrx_parse_ip x) (gc_ip_ban_mode (hsc_guard (rc_socket rc)))
            (file_at fs p (reading p)) (hss_ip_ban_list st)
      in (st\<lparr>hss_ip_ban_list := l\<rparr>, map_err IpBanListFailed res))"

definition http_update_client_ban_list ::
  "http_run_config \<Rightarrow> file_system \<Rightarrow> readings \<Rightarrow> 'n http_state \<Rightarrow>
   'n http_state \<times> (http_startup_error + unit)" where
  "http_update_client_ban_list rc fs reading st =
     (let (l, res) = update_client_ban_list (\<lambda>p. file_at fs p (reading p))
            (gc_client_ban (hsc_guard (rc_socket rc))) (hss_client_ban_list st)
      in (st\<lparr>hss_client_ban_list := l\<rparr>, map_err ClientBanListFailed res))"

definition http_update_trusted_proxies ::
  "'n http_run_crates \<Rightarrow> http_run_config \<Rightarrow> file_system \<Rightarrow> readings \<Rightarrow> 'n http_state \<Rightarrow>
   'n http_state \<times> (http_startup_error + unit)" where
  "http_update_trusted_proxies x rc fs reading st =
     (let (l, res) = update_trusted_proxies (hrx_networks x) (\<lambda>p. file_at fs p (reading p))
            (hsc_trusted_proxies (rc_socket rc)) (hss_trusted_proxies st)
      in (st\<lparr>hss_trusted_proxies := l\<rparr>, map_err TrustedProxiesFailed res))"

definition http_run ::
  "'n http_run_crates \<Rightarrow> nat option \<Rightarrow> file_system \<Rightarrow> readings \<Rightarrow> nat \<Rightarrow> instant \<Rightarrow> http_run_config \<Rightarrow>
   http_startup_error + (nat \<times> 'n http_state)" where
  "http_run x parallelism fs reading now_unix now rc =
     and_then (http_validate (hrx_canonicalize x) parallelism rc) (\<lambda>socket_workers.
     let st = http_state_default\<lparr>hss_auto_ban_tracker := http_auto_ban_tracker x fs now_unix now rc\<rparr>
     in and_then (proceed (http_update_access_list x rc fs reading) st) (\<lambda>st1.
     and_then (proceed (http_update_ip_ban_list x rc fs reading) st1) (\<lambda>st2.
     and_then (proceed (http_update_client_ban_list rc fs reading) st2) (\<lambda>st3.
     and_then (proceed (http_update_trusted_proxies x rc fs reading) st3) (\<lambda>st4.
     Inr (socket_workers, st4))))))"

text \<open>What the signals do; their failures are dropped.\<close>

datatype http_signal = SIGUSR1 | SIGUSR2

fun http_handle_signal ::
  "'n http_run_crates \<Rightarrow> http_run_config \<Rightarrow> file_system \<Rightarrow> readings \<Rightarrow> http_signal \<Rightarrow> 'n http_state \<Rightarrow>
   'n http_state" where
  "http_handle_signal x rc fs reading SIGUSR1 st = fst (http_update_access_list x rc fs reading st)"
| "http_handle_signal x rc fs reading SIGUSR2 st =
     fst (http_update_trusted_proxies x rc fs reading
       (fst (http_update_client_ban_list rc fs reading
         (fst (http_update_ip_ban_list x rc fs reading st)))))"

subsection \<open>The registry of connections\<close>

text \<open>
  The connections of a worker with their deadlines, by a key the slot map gives out, which gives out no
  key twice. A connection has its deadline refreshed by each request while it is registered.
\<close>

record connection_registry =
  cr_handles :: "(nat \<times> valid_until) list"
  cr_used :: "nat list"
  cr_closing :: "nat list"

record listener_config =
  lc_max_connections_per_worker :: nat
  lc_max_connection_idle :: u32

definition registry_new :: connection_registry where
  "registry_new = \<lparr>cr_handles = [], cr_used = [], cr_closing = []\<rparr>"

text \<open>A stream that was accepted: its key, \<open>None\<close> where it is rejected. The outer \<open>None\<close> is a panic.\<close>

definition http_accept_connection ::
  "(nat list \<Rightarrow> nat) \<Rightarrow> listener_config \<Rightarrow> nat \<Rightarrow> connection_registry \<Rightarrow>
   (nat option \<times> connection_registry) option" where
  "http_accept_connection next_key cf secs cr =
     (if 0 < lc_max_connections_per_worker cf \<and> lc_max_connections_per_worker cf \<le> length (cr_handles cr)
      then Some (None, cr)
      else map_option (\<lambda>vu.
          (let k = next_key (cr_used cr)
           in (Some k, cr\<lparr>cr_handles := cr_handles cr @ [(k, vu)], cr_used := cr_used cr @ [k]\<rparr>)))
        (valid_until_new secs (lc_max_connection_idle cf)))"

definition connection_active ::
  "listener_config \<Rightarrow> nat \<Rightarrow> nat \<Rightarrow> connection_registry \<Rightarrow> connection_registry option" where
  "connection_active cf secs k cr =
     map_option (\<lambda>vu. cr\<lparr>cr_handles := map (\<lambda>e. if fst e = k then (k, vu) else e) (cr_handles cr)\<rparr>)
       (valid_until_new secs (lc_max_connection_idle cf))"

definition connection_ended :: "nat \<Rightarrow> connection_registry \<Rightarrow> connection_registry" where
  "connection_ended k cr = cr\<lparr>cr_handles := filter (\<lambda>e. fst e \<noteq> k) (cr_handles cr)\<rparr>"

text \<open>The connections whose deadline has passed are told to close and forgotten.\<close>

definition http_clean_connections :: "nat \<Rightarrow> connection_registry \<Rightarrow> connection_registry option" where
  "http_clean_connections secs cr =
     map_option (\<lambda>now. cr\<lparr>cr_handles := filter (\<lambda>e. valid (snd e) now) (cr_handles cr),
         cr_closing := cr_closing cr @ map fst (filter (\<lambda>e. \<not> valid (snd e) now) (cr_handles cr))\<rparr>)
       (seconds_elapsed secs)"

datatype registry_event = Accepted nat | Active nat nat | Ended nat | Cleaned nat

fun registry_step ::
  "(nat list \<Rightarrow> nat) \<Rightarrow> listener_config \<Rightarrow> registry_event \<Rightarrow> connection_registry \<Rightarrow>
   connection_registry option" where
  "registry_step next_key cf (Accepted secs) cr = map_option snd (http_accept_connection next_key cf secs cr)"
| "registry_step next_key cf (Active secs k) cr = connection_active cf secs k cr"
| "registry_step next_key cf (Ended k) cr = Some (connection_ended k cr)"
| "registry_step next_key cf (Cleaned secs) cr = http_clean_connections secs cr"

fun registry_run ::
  "(nat list \<Rightarrow> nat) \<Rightarrow> listener_config \<Rightarrow> registry_event list \<Rightarrow> connection_registry \<Rightarrow>
   connection_registry option" where
  "registry_run next_key cf [] cr = Some cr"
| "registry_run next_key cf (e # es) cr =
     Option.bind (registry_step next_key cf e cr) (registry_run next_key cf es)"

end
