(* ===== verification/Http_Startup_Spec.thy ===== *)
theory Http_Startup_Spec
  imports Http_Startup Http_Connection_Spec Ban_Flush_Spec
begin

text \<open>
  What a started HTTP tracker can rely on: what the checks of the configuration rule out, what the
  lists hold, and the bound on the connections of a worker.
\<close>

subsection \<open>The checks\<close>

lemma validate_interval_Inr [simp]: "validate_interval name n = Inr u \<longleftrightarrow> n \<noteq> 0"
  by (simp add: validate_interval_def)

lemma http_validated:
  assumes "http_validate canonicalize parallelism rc = Inr n"
  shows "rc_use_ipv4 rc \<or> rc_use_ipv6 rc" and "hsc_swarm_workers (rc_socket rc) \<noteq> 0"
    and "response_buffer_size (rc_socket rc) \<le> MAX_RESPONSE_BUFFER_SIZE"
    and "hsc_runs_behind_reverse_proxy (rc_socket rc) \<Longrightarrow> tp_enabled (hsc_trusted_proxies (rc_socket rc))"
    and "validate_auto_ban_config canonicalize (rc_auto_ban rc) (gc_ip_ban_mode (hsc_guard (rc_socket rc)))
      (rc_ip_ban_path rc) = Inr ()"
  using assms
  by (auto simp: http_validate_def validate_worker_counts_def and_then_Inr Let_def split: if_splits)

text \<open>The limit of peers that the message of the check suggests is itself rejected.\<close>

lemma suggested_limit_is_rejected:
  assumes "hcf_max_peers (hsc_swarm (rc_socket rc)) = 40000"
  shows "http_validate canonicalize parallelism rc \<noteq> Inr n"
proof
  assume "http_validate canonicalize parallelism rc = Inr n"
  then have "response_buffer_size (rc_socket rc) \<le> MAX_RESPONSE_BUFFER_SIZE" by (rule http_validated(3))
  moreover have "3840256 \<le> response_buffer_size (rc_socket rc)"
    by (simp add: response_buffer_size_def Let_def assms sat_defs)
  ultimately show False by (simp add: MAX_RESPONSE_BUFFER_SIZE_def)
qed

lemma consumer_index_bound: "hsc_swarm_workers cf \<noteq> 0 \<Longrightarrow> calculate_request_consumer_index cf h < hsc_swarm_workers cf"
  by (simp add: calculate_request_consumer_index_def)

lemma file_at_Inr: "file_at fs p r = Inr content \<longleftrightarrow> fs p = Some content \<and> fst r"
  by (auto simp: file_at_def split: option.splits)

lemma ip_list_loaded:
  assumes "http_update_ip_ban_list x rc fs reading st = (st', Inr u)"
    and "ip_ban_on (gc_ip_ban_mode (hsc_guard (rc_socket rc)))"
  shows "\<exists>content. fs (rc_ip_ban_path rc) = Some content \<and> (\<forall>ip. is_banned (hss_ip_ban_list st') ip \<longleftrightarrow>
    (\<exists>e\<in>set (list_entries content). entry_covers (hrx_parse_ip x) (snd e) ip))"
proof -
  obtain l where up: "update_ip_ban_list (hrx_parse_ip x) (gc_ip_ban_mode (hsc_guard (rc_socket rc)))
      (file_at fs (rc_ip_ban_path rc) (reading (rc_ip_ban_path rc))) (hss_ip_ban_list st) = (l, Inr ())"
    and st': "st' = st\<lparr>hss_ip_ban_list := l\<rparr>"
    using assms(1) by (auto simp: http_update_ip_ban_list_def Let_def split: prod.splits)
  then obtain content where f: "file_at fs (rc_ip_ban_path rc) (reading (rc_ip_ban_path rc)) = Inr content"
    and l: "ip_ban_create (hrx_parse_ip x) (Inr content) = Inr l"
    using assms(2)
    by (cases "file_at fs (rc_ip_ban_path rc) (reading (rc_ip_ban_path rc))")
      (auto simp: update_ip_ban_list_def ip_ban_create_def read_list_file_def)
  have "l = fold (add_or_skip (hrx_parse_ip x)) (list_entries content) empty_ban_list"
    using l by (simp add: ip_ban_create_def read_list_file_def)
  then have "is_banned l ip \<longleftrightarrow> (\<exists>e\<in>set (list_entries content). entry_covers (hrx_parse_ip x) (snd e) ip)" for ip
    by (simp only: fold_add_banned empty_bans_nothing simp_thms)
  then show ?thesis using f st' by (auto simp: file_at_Inr)
qed

lemma from_iter_Nil: "trusted_proxies_from_iter ns = [] \<longleftrightarrow> ns = []"
  using set_from_iter [of ns] by (metis set_empty2)

lemma proxies_loaded:
  assumes "http_update_trusted_proxies x rc fs reading st = (st', Inr u)"
    and "tp_enabled (hsc_trusted_proxies (rc_socket rc))"
  shows "hss_trusted_proxies st' \<noteq> []"
  using assms
  by (auto simp: http_update_trusted_proxies_def update_trusted_proxies_def Let_def from_iter_Nil
      split: prod.splits sum.splits if_splits)

lemma updates_apart:
  "http_update_client_ban_list rc fs reading st = (st', r) \<Longrightarrow> hss_ip_ban_list st' = hss_ip_ban_list st"
  "http_update_trusted_proxies x rc fs reading st = (st', r) \<Longrightarrow> hss_ip_ban_list st' = hss_ip_ban_list st"
  by (auto simp: http_update_client_ban_list_def http_update_trusted_proxies_def Let_def split: prod.splits)

text \<open>A server that starts is sound: every info hash has a swarm worker; the response buffer of a
  connection is at most a mebibyte, and with one swarm worker every response fits it; where the list of
  banned addresses is on, it was read and bans exactly what the file's entries cover; and where clients
  come through a reverse proxy, the list of trusted proxies is not empty.\<close>

theorem started_server_is_sound:
  assumes "http_run x parallelism fs reading now_unix now rc = Inr (n, st)"
  shows "(\<forall>h. calculate_request_consumer_index (rc_socket rc) h < hsc_swarm_workers (rc_socket rc)) \<and>
    response_buffer_size (rc_socket rc) \<le> 1048576 \<and>
    (hsc_swarm_workers (rc_socket rc) = 1 \<longrightarrow> fitting_config (rc_socket rc)) \<and>
    (ip_ban_on (gc_ip_ban_mode (hsc_guard (rc_socket rc))) \<longrightarrow>
      (\<exists>content. fs (rc_ip_ban_path rc) = Some content \<and> (\<forall>ip. is_banned (hss_ip_ban_list st) ip \<longleftrightarrow>
        (\<exists>e\<in>set (list_entries content). entry_covers (hrx_parse_ip x) (snd e) ip)))) \<and>
    (hsc_runs_behind_reverse_proxy (rc_socket rc) \<longrightarrow> hss_trusted_proxies st \<noteq> [])"
proof -
  obtain st1 st2 st3 u where v: "http_validate (hrx_canonicalize x) parallelism rc = Inr n"
    and ip: "http_update_ip_ban_list x rc fs reading st1 = (st2, Inr u)"
    and client: "http_update_client_ban_list rc fs reading st2 = (st3, Inr u)"
    and proxies: "http_update_trusted_proxies x rc fs reading st3 = (st, Inr u)"
    using assms by (auto simp: http_run_def and_then_Inr proceed_Inr Let_def)
  note ok = http_validated [OF v]
  have size: "response_buffer_size (rc_socket rc) \<le> 1048576" using ok(3) by (simp add: MAX_RESPONSE_BUFFER_SIZE_def)
  then have "hsc_swarm_workers (rc_socket rc) = 1 \<longrightarrow> fitting_config (rc_socket rc)" by (simp add: fitting_config_def)
  moreover have "hss_ip_ban_list st = hss_ip_ban_list st2"
    using updates_apart(1) [OF client] updates_apart(2) [OF proxies] by simp
  ultimately show ?thesis
    using consumer_index_bound [OF ok(2)] size ip_list_loaded [OF ip] proxies_loaded [OF proxies] ok(4) by simp
qed

subsection \<open>Connections\<close>

definition key_source :: "(nat list \<Rightarrow> nat) \<Rightarrow> bool" where
  "key_source next_key = (\<forall>used. next_key used \<notin> set used)"

fun registry_clock_ok :: "registry_event \<Rightarrow> bool" where
  "registry_clock_ok (Accepted secs) = (secs \<le> u32_max)"
| "registry_clock_ok (Active secs k) = (secs \<le> u32_max)"
| "registry_clock_ok (Ended k) = True"
| "registry_clock_ok (Cleaned secs) = (secs \<le> u32_max)"

definition registry_inv :: "listener_config \<Rightarrow> connection_registry \<Rightarrow> bool" where
  "registry_inv cf cr = (distinct (map fst (cr_handles cr)) \<and> fst ` set (cr_handles cr) \<subseteq> set (cr_used cr) \<and>
     distinct (map fst (cr_handles cr) @ cr_closing cr) \<and> set (cr_closing cr) \<subseteq> set (cr_used cr) \<and>
     (0 < lc_max_connections_per_worker cf \<longrightarrow> length (cr_handles cr) \<le> lc_max_connections_per_worker cf))"

lemma registry_new_inv: "registry_inv cf registry_new"
  by (simp add: registry_inv_def registry_new_def)

lemma registry_step_ok:
  assumes "key_source next_key" and "registry_inv cf cr" and "registry_clock_ok e"
  shows "\<exists>cr'. registry_step next_key cf e cr = Some cr' \<and> registry_inv cf cr'"
proof -
  have clock: "secs \<le> u32_max \<Longrightarrow> valid_until_new secs off = Some (ValidUntil (word_of_nat secs + off))"
    "secs \<le> u32_max \<Longrightarrow> seconds_elapsed secs = Some (word_of_nat secs)" for secs off
    by (simp_all add: valid_until_new_def seconds_elapsed_def)
  show ?thesis
  proof (cases e)
    case (Accepted secs)
    have "next_key (cr_used cr) \<notin> set (cr_used cr)" using assms(1) by (simp add: key_source_def)
    then show ?thesis
      using assms(2,3) by (auto simp: Accepted http_accept_connection_def clock registry_inv_def Let_def)
  next
    case (Active secs k)
    define vu where "vu = ValidUntil (word_of_nat secs + lc_max_connection_idle cf)"
    define handles where "handles = map (\<lambda>e. if fst e = k then (k, vu) else e) (cr_handles cr)"
    have same: "map fst handles = map fst (cr_handles cr)" by (simp add: handles_def)
    have keys: "fst ` set handles = fst ` set (cr_handles cr)" using arg_cong [OF same, of set] by simp
    have len: "length handles = length (cr_handles cr)" by (simp add: handles_def)
    have "connection_active cf secs k cr = Some (cr\<lparr>cr_handles := handles\<rparr>)"
      using assms(3) by (simp add: Active connection_active_def clock vu_def handles_def)
    moreover have "registry_inv cf (cr\<lparr>cr_handles := handles\<rparr>)"
      using assms(2) by (simp add: registry_inv_def same keys len)
    ultimately show ?thesis by (simp add: Active)
  next
    case (Ended k)
    then show ?thesis
      using assms(2) by (auto simp: connection_ended_def registry_inv_def distinct_map_filter
          intro: order.trans [OF length_filter_le])
  next
    case (Cleaned secs)
    let ?live = "\<lambda>e :: nat \<times> valid_until. valid (snd e) (word_of_nat secs)"
    have apart: "fst e1 \<noteq> fst e2" if "e1 \<in> set (cr_handles cr)" "e2 \<in> set (cr_handles cr)" "?live e1" "\<not> ?live e2" for e1 e2
      using assms(2) that by (metis distinct_map inj_on_eq_iff registry_inv_def)
    show ?thesis
      using assms(2,3) apart
      by (auto simp: Cleaned http_clean_connections_def clock registry_inv_def distinct_map_filter
          intro: order.trans [OF length_filter_le])
  qed
qed

text \<open>Connections stay bounded. Whatever connections are accepted, become active, end and are cleaned, no
  step panics, no more connections are registered than the limit, each under a key of its own, and a
  connection is told to close at most once, and only when it is no longer registered.\<close>

theorem connections_stay_bounded:
  assumes "key_source next_key" and "list_all registry_clock_ok es" and "0 < lc_max_connections_per_worker cf"
  shows "\<exists>cr. registry_run next_key cf es registry_new = Some cr \<and>
    length (cr_handles cr) \<le> lc_max_connections_per_worker cf \<and> distinct (map fst (cr_handles cr) @ cr_closing cr)"
proof -
  have "registry_inv cf cr \<Longrightarrow> \<exists>cr'. registry_run next_key cf es cr = Some cr' \<and> registry_inv cf cr'" for cr
    using assms(2)
  proof (induction es arbitrary: cr)
    case (Cons e es)
    then obtain cr1 where "registry_step next_key cf e cr = Some cr1" "registry_inv cf cr1"
      using registry_step_ok [OF assms(1), of cf cr e] by auto
    then show ?case using Cons.IH [of cr1] Cons.prems(2) by simp
  qed simp
  from this [OF registry_new_inv] show ?thesis using assms(3) by (auto simp: registry_inv_def)
qed

subsection \<open>A start\<close>

definition sample_run_config :: http_run_config where
  "sample_run_config = \<lparr>rc_use_ipv4 = True, rc_use_ipv6 = False, rc_socket_workers = 2,
     rc_torrent_cleaning_interval = 30, rc_connection_cleaning_interval = 60, rc_torrent_count_update_interval = 10,
     rc_tcp_keepalive = False, rc_tcp_keepalive_idle_secs = 60, rc_tcp_keepalive_interval_secs = 10,
     rc_tcp_keepalive_probes = 6, rc_socket = http_sample_socket_config,
     rc_auto_ban = auto_ban_config_default, rc_access_list_path = [97], rc_ip_ban_path = [98]\<rparr>"

definition sample_run_crates :: "ip_range http_run_crates" where
  "sample_run_crates = \<lparr>hrx_hex = ref_hex, hrx_networks = ref_networks [] [], hrx_parse_ip = ref_parse_ip,
     hrx_canonicalize = Map.empty\<rparr>"

lemma started_server_is_sound_witness:
  "\<exists>st. http_run sample_run_crates None Map.empty (\<lambda>_. (True, InvalidData)) 0 0 sample_run_config = Inr (2, st) \<and>
    fitting_config (rc_socket sample_run_config)"
proof -
  let ?run = "http_run sample_run_crates None Map.empty (\<lambda>_. (True, InvalidData)) 0 0 sample_run_config"
  have size: "response_buffer_size http_sample_socket_config \<le> MAX_RESPONSE_BUFFER_SIZE"
    by (simp add: response_buffer_size_def http_sample_socket_config_def http_sample_config_def
        MAX_RESPONSE_BUFFER_SIZE_def sat_defs response_header_length)
  have valid: "http_validate Map.empty None sample_run_config = Inr 2"
    using size by (simp add: http_validate_def sample_run_config_def validate_worker_counts_def ensure_def
        validate_interval_def validate_auto_ban_config_def auto_ban_config_default_def http_sample_socket_config_def)
  have lists: "\<exists>st'. http_update_access_list sample_run_crates sample_run_config Map.empty (\<lambda>_. (True, InvalidData)) st = (st', Inr ())"
    "\<exists>st'. http_update_ip_ban_list sample_run_crates sample_run_config Map.empty (\<lambda>_. (True, InvalidData)) st = (st', Inr ())"
    "\<exists>st'. http_update_client_ban_list sample_run_config Map.empty (\<lambda>_. (True, InvalidData)) st = (st', Inr ())"
    "\<exists>st'. http_update_trusted_proxies sample_run_crates sample_run_config Map.empty (\<lambda>_. (True, InvalidData)) st = (st', Inr ())" for st
    by (simp_all add: http_update_access_list_def http_update_ip_ban_list_def http_update_client_ban_list_def
        http_update_trusted_proxies_def sample_run_config_def http_sample_socket_config_def sample_guard_config_def
        update_access_list_def update_ip_ban_list_def update_client_ban_list_def update_trusted_proxies_def
        client_ban_config_default_def trusted_proxies_config_default_def)
  have "\<exists>st. ?run = Inr (2, st)"
    using valid lists by (simp add: http_run_def and_then_Inr proceed_Inr Let_def) (simp add: sample_run_crates_def, meson)
  then obtain st where st: "?run = Inr (2, st)" ..
  have "hsc_swarm_workers (rc_socket sample_run_config) = 1"
    by (simp add: sample_run_config_def http_sample_socket_config_def)
  then show ?thesis using started_server_is_sound [OF st] st by blast
qed

lemma connections_stay_bounded_witness:
  "\<exists>cr. registry_run (\<lambda>used. Suc (Max (insert 0 (set used)))) \<lparr>lc_max_connections_per_worker = 1, lc_max_connection_idle = 180\<rparr>
      [Accepted 0, Accepted 1, Cleaned 200, Accepted 201] registry_new = Some cr \<and>
    length (cr_handles cr) \<le> 1"
proof -
  have "key_source (\<lambda>used. Suc (Max (insert 0 (set used))))"
    unfolding key_source_def using Max_ge [of "insert 0 (set used)" for used :: "nat list"]
    by (metis List.finite_set Suc_n_not_le_n finite.insertI insertI2)
  from connections_stay_bounded [OF this, of "[Accepted 0, Accepted 1, Cleaned 200, Accepted 201]"
      "\<lparr>lc_max_connections_per_worker = 1, lc_max_connection_idle = 180\<rparr>"]
  show ?thesis by (auto simp: u32_max_def)
qed

end
