(* ===== verification/Udp_Startup.thy ===== *)
theory Udp_Startup
  imports Udp_Worker Ban_Flush
begin

text \<open>
  \<open>crates/udp/src/lib.rs\<close>, the start of the UDP tracker: the checks of the configuration, the state the
  workers share, and what the signals do to it. Threads, sockets, privileges and the keys of the
  connection validator are not modelled.
\<close>

record udp_run_config =
  ur_use_ipv4 :: bool
  ur_use_ipv6 :: bool
  ur_socket_workers :: nat
  ur_torrent_cleaning_interval :: nat
  ur_worker :: udp_worker_config
  ur_auto_ban :: auto_ban_config
  ur_access_list_path :: path
  ur_ip_ban_path :: path

datatype udp_startup_error =
    UdpNoAddressFamily
  | UdpInvalidSetting config_error
  | AnnounceResponsesTooLarge
  | ScrapeResponsesTooLarge
  | UdpInvalidAutoBan auto_ban_config_error
  | UdpAccessListFailed list_error
  | UdpIpBanListFailed io_error
  | UdpClientBanListFailed io_error

definition max_announce_response_len :: "udp_run_config \<Rightarrow> nat" where
  "max_announce_response_len ur =
     sat_add u64_max (sat_mul u64_max (max_response_peers (uc_protocol (wc_swarm (ur_worker ur)))) 18) 20"

definition max_scrape_response_len :: "udp_run_config \<Rightarrow> nat" where
  "max_scrape_response_len ur =
     sat_add u64_max (sat_mul u64_max (unat (max_scrape_torrents (uc_protocol (wc_swarm (ur_worker ur))))) 12) 8"

definition max_allowed_response_len :: nat where
  "max_allowed_response_len = BUFFER_SIZE - 64"

text \<open>The number of socket workers, where every check passes.\<close>

definition udp_validate ::
  "(path \<Rightarrow> path option) \<Rightarrow> nat option \<Rightarrow> udp_run_config \<Rightarrow> udp_startup_error + nat" where
  "udp_validate canonicalize parallelism ur =
     and_then (ensure (ur_use_ipv4 ur \<or> ur_use_ipv6 ur) UdpNoAddressFamily) (\<lambda>_.
     let (socket_workers, counts) = validate_worker_counts parallelism (ur_socket_workers ur) None
     in and_then (map_err UdpInvalidSetting counts) (\<lambda>_.
     and_then (map_err UdpInvalidSetting
       (validate_interval (str ''cleaning.torrent_cleaning_interval'') (ur_torrent_cleaning_interval ur))) (\<lambda>_.
     and_then (ensure (max_announce_response_len ur \<le> max_allowed_response_len) AnnounceResponsesTooLarge) (\<lambda>_.
     and_then (ensure (max_scrape_response_len ur \<le> max_allowed_response_len) ScrapeResponsesTooLarge) (\<lambda>_.
     and_then (map_err UdpInvalidAutoBan (validate_auto_ban_config canonicalize (ur_auto_ban ur)
         (wc_ip_ban_mode (ur_worker ur)) (ur_ip_ban_path ur))) (\<lambda>_.
     Inr socket_workers))))))"

record udp_state =
  uq_access_list :: access_list
  uq_ip_ban_list :: ip_ban_list
  uq_client_ban_list :: client_ban_list
  uq_auto_ban_tracker :: "auto_ban_tracker option"
  uq_torrent_maps :: torrent_maps

record udp_run_crates =
  urx_hex :: hex_ops
  urx_parse_ip :: ip_parser
  urx_canonicalize :: "path \<Rightarrow> path option"

definition udp_state_default :: udp_state where
  "udp_state_default = \<lparr>uq_access_list = {}, uq_ip_ban_list = empty_ban_list,
     uq_client_ban_list = client_ban_list_default, uq_auto_ban_tracker = None,
     uq_torrent_maps = torrent_maps_default\<rparr>"

definition udp_update_access_list ::
  "udp_run_crates \<Rightarrow> udp_run_config \<Rightarrow> file_system \<Rightarrow> readings \<Rightarrow> udp_state \<Rightarrow>
   udp_state \<times> (udp_startup_error + unit)" where
  "udp_update_access_list x ur fs reading st =
     (let p = ur_access_list_path ur;
          (l, res) = update_access_list (urx_hex x) (uc_access_list_mode (wc_swarm (ur_worker ur)))
            (file_at fs p (reading p)) (uq_access_list st)
      in (st\<lparr>uq_access_list := l\<rparr>, map_err UdpAccessListFailed res))"

definition udp_update_ip_ban_list ::
  "udp_run_crates \<Rightarrow> udp_run_config \<Rightarrow> file_system \<Rightarrow> readings \<Rightarrow> udp_state \<Rightarrow>
   udp_state \<times> (udp_startup_error + unit)" where
  "udp_update_ip_ban_list x ur fs reading st =
     (let p = ur_ip_ban_path ur;
          (l, res) = update_ip_ban_list (urx_parse_ip x) (wc_ip_ban_mode (ur_worker ur))
            (file_at fs p (reading p)) (uq_ip_ban_list st)
      in (st\<lparr>uq_ip_ban_list := l\<rparr>, map_err UdpIpBanListFailed res))"

definition udp_update_client_ban_list ::
  "udp_run_config \<Rightarrow> file_system \<Rightarrow> readings \<Rightarrow> udp_state \<Rightarrow> udp_state \<times> (udp_startup_error + unit)" where
  "udp_update_client_ban_list ur fs reading st =
     (let (l, res) = update_client_ban_list (\<lambda>p. file_at fs p (reading p)) (wc_client_ban (ur_worker ur))
            (uq_client_ban_list st)
      in (st\<lparr>uq_client_ban_list := l\<rparr>, map_err UdpClientBanListFailed res))"

text \<open>The tracker of automatic bans, with the client bans of an earlier run.\<close>

definition udp_auto_ban_tracker ::
  "udp_run_crates \<Rightarrow> file_system \<Rightarrow> nat \<Rightarrow> instant \<Rightarrow> udp_run_config \<Rightarrow> auto_ban_tracker option" where
  "udp_auto_ban_tracker x fs now_unix now ur =
     (if ac_enabled (ur_auto_ban ur)
      then Some (fst (load_client_bans (urx_parse_ip x) fs now_unix now (tracker_from_config (ur_auto_ban ur))))
      else None)"

definition udp_run ::
  "udp_run_crates \<Rightarrow> nat option \<Rightarrow> file_system \<Rightarrow> readings \<Rightarrow> nat \<Rightarrow> instant \<Rightarrow> udp_run_config \<Rightarrow>
   udp_startup_error + (nat \<times> udp_state)" where
  "udp_run x parallelism fs reading now_unix now ur =
     and_then (udp_validate (urx_canonicalize x) parallelism ur) (\<lambda>socket_workers.
     and_then (proceed (udp_update_access_list x ur fs reading) udp_state_default) (\<lambda>st1.
     and_then (proceed (udp_update_ip_ban_list x ur fs reading) st1) (\<lambda>st2.
     and_then (proceed (udp_update_client_ban_list ur fs reading) st2) (\<lambda>st3.
     Inr (socket_workers, st3\<lparr>uq_auto_ban_tracker := udp_auto_ban_tracker x fs now_unix now ur\<rparr>)))))"

text \<open>What the signals do; their failures are dropped.\<close>

datatype udp_signal = UdpSIGUSR1 | UdpSIGUSR2

fun udp_handle_signal ::
  "udp_run_crates \<Rightarrow> udp_run_config \<Rightarrow> file_system \<Rightarrow> readings \<Rightarrow> udp_signal \<Rightarrow> udp_state \<Rightarrow> udp_state" where
  "udp_handle_signal x ur fs reading UdpSIGUSR1 st = fst (udp_update_access_list x ur fs reading st)"
| "udp_handle_signal x ur fs reading UdpSIGUSR2 st =
     fst (udp_update_client_ban_list ur fs reading (fst (udp_update_ip_ban_list x ur fs reading st)))"

end
