(* ===== verification/Udp_Startup_Spec.thy ===== *)
theory Udp_Startup_Spec
  imports Udp_Startup Uring_Spec
begin

text \<open>
  What the checks at the start of the UDP tracker guarantee: every answer of a worker fits the buffer of
  the polling backend. They do not guarantee it for the io_uring backend, whose buffers are smaller.
\<close>

lemma udp_validated:
  assumes "udp_validate canonicalize parallelism ur = Inr n"
  shows "ur_use_ipv4 ur \<or> ur_use_ipv6 ur"
    and "18 * max_response_peers (uc_protocol (wc_swarm (ur_worker ur))) + 20 \<le> 8128"
    and "12 * unat (max_scrape_torrents (uc_protocol (wc_swarm (ur_worker ur)))) + 8 \<le> 8128"
  using assms
  by (auto simp: udp_validate_def and_then_Inr Let_def max_announce_response_len_def max_scrape_response_len_def
      max_allowed_response_len_def BUFFER_SIZE_def sat_defs split: prod.splits)

subsection \<open>The lengths of responses\<close>

lemma length_concat_equal: "(\<And>x. length (f x) = n) \<Longrightarrow> length (concat (map f xs)) = n * length xs"
  by (induction xs) simp_all

lemma announce_response_length:
  "length (write_response (ResAnnounceIpv4 r4)) = 20 + 6 * length (as_peers r4)"
  "length (write_response (ResAnnounceIpv6 r6)) = 20 + 18 * length (as_peers r6)"
  by (simp_all add: write_announce_response_def length_concat_equal [OF peer4.length_enc]
      length_concat_equal [OF peer6.length_enc])

lemma scrape_response_length: "length (write_response (ResScrape r)) = 8 + 12 * length (ss_torrent_stats r)"
  by (simp add: write_scrape_response_def length_concat_equal [OF scrape_stats.length_enc])

lemma parse_error_length:
  assumes "parse_request bs m = Inl (Sendable cid tid e)"
  shows "length e \<le> 32"
proof -
  have "parse_announce bs = Inl (Sendable cid tid e) \<or> parse_scrape bs m = Inl (Sendable cid tid e)"
    using assms parse_connect_unsendable
    by (auto simp: parse_request_def unsendable_text_def ok_or_def split: if_splits)
  then show ?thesis
    by (auto simp: parse_announce_def parse_scrape_def ok_or_def sendable_text_def unsendable_text_def unsendable_io_def
        read_i64_ne_def read_i32_ne_def read_exact_def str_def split: if_splits option.splits)
qed

lemma parsed_scrape_length:
  assumes "parse_request bs m = Inr (ReqScrape r)"
  shows "length (sr_info_hashes r) \<le> unat m"
  using assms
  by (auto simp: parse_request_def parse_connect_def parse_announce_def parse_scrape_def and_then_Inr ok_or_def
      Let_def split: if_splits option.splits)

lemma announced_peers:
  assumes "index_map im" and "rng_source gen" and "shards_inv shards"
    and "shards_announce im gen cf req ip vu r shards =
      Some (res, shards', ms :: 'h statistics_message list, r')"
  shows "length (as_peers res) \<le> max_response_peers (uc_protocol cf)"
  using udp_swarm.shards_announce_ok [OF udp_swarm.intro [OF assms(1,2)] assms(3), of cf req ip vu r,
      where ?'h = 'h] assms(4)
  by (auto simp: response_conforms_def max_num_peers_to_take_def split: if_splits)

lemma announce_answer_length:
  fixes wk :: "('r, 'h) udp_worker"
  assumes "crates_ok xc" and "maps_inv (wk_torrent_maps wk)"
    and "handle_announce cf xc request src wk = Some (Some res, wk')"
  shows "length (write_response res) \<le> max 36 (20 + 18 * max_response_peers (uc_protocol (wc_swarm cf)))"
proof (cases "allows (uc_access_list_mode (wc_swarm cf)) (wk_access_list wk) (ar_info_hash request)")
  case False
  then show ?thesis using assms(3)
    by (auto simp: handle_announce_def write_error_response_def str_def)
next
  case True
  note laws = assms(1,2) [unfolded crates_ok_def maps_inv_def]
  obtain maps' r' and ms :: "'h statistics_message list" where a: "maps_announce (xc_map4 xc) (xc_map6 xc) (xc_gen xc)
      (wc_swarm cf) request src (wk_peer_valid_until wk) (wk_rng wk) (wk_torrent_maps wk) = Some (res, maps', ms, r')"
    using assms(3) True by (auto simp: handle_announce_def)
  show ?thesis
  proof (cases "socket_ip (get_addr src)")
    case (V4 ip)
    then obtain r4 shards where s: "shards_announce (xc_map4 xc) (xc_gen xc) (wc_swarm cf) request ip (wk_peer_valid_until wk)
        (wk_rng wk) (tm_ipv4 (wk_torrent_maps wk)) = Some (r4, shards, ms, r')" "res = ResAnnounceIpv4 r4"
      using a by (auto simp: maps_announce_def)
    then show ?thesis using announced_peers [OF _ _ _ s(1)] laws
      by (simp only: announce_response_length) (simp add: max_def)
  next
    case (V6 ip)
    then obtain r6 shards where s: "shards_announce (xc_map6 xc) (xc_gen xc) (wc_swarm cf) request ip (wk_peer_valid_until wk)
        (wk_rng wk) (tm_ipv6 (wk_torrent_maps wk)) = Some (r6, shards, ms, r')" "res = ResAnnounceIpv6 r6"
      using a by (auto simp: maps_announce_def)
    then show ?thesis using announced_peers [OF _ _ _ s(1)] laws
      by (simp only: announce_response_length) (simp add: max_def)
  qed
qed

lemma request_answer_length:
  fixes wk :: "('r, 'h) udp_worker"
  assumes "crates_ok xc" and "maps_inv (wk_torrent_maps wk)"
    and "handle_request cf xc re req src wk = Some (Some res, wk')"
    and "\<And>r. req = ReqScrape r \<Longrightarrow> length (sr_info_hashes r) \<le> n"
  shows "length (write_response res) \<le> max 40 (max (20 + 18 * max_response_peers (uc_protocol (wc_swarm cf))) (8 + 12 * n))"
proof (cases req)
  case (ReqConnect r)
  then show ?thesis using assms(3) by (auto simp: handle_request_def split: if_splits)
next
  case (ReqAnnounce r)
  obtain b wk1 where c: "run_security_checks cf xc re src (Some (ar_peer_id r)) wk = (b, wk1)" by fastforce
  then have "maps_inv (wk_torrent_maps wk1)" using assms(2) by (simp add: security_checks_maps)
  moreover have "handle_announce cf xc r src wk1 = Some (Some res, wk')"
    using assms(3) ReqAnnounce c by (auto simp: handle_request_def split: if_splits)
  ultimately have "length (write_response res) \<le> max 36 (20 + 18 * max_response_peers (uc_protocol (wc_swarm cf)))"
    using announce_answer_length [OF assms(1)] by blast
  then show ?thesis by simp
next
  case (ReqScrape r)
  then obtain maps f where res: "res = ResScrape (maps_scrape (filter_info_hashes f r) src maps)"
    using assms(3) by (auto simp: handle_request_def Let_def split: if_splits prod.splits)
  have "length (filter f (sr_info_hashes r)) \<le> n"
    using assms(4) [OF ReqScrape] length_filter_le [of f "sr_info_hashes r"] by linarith
  then show ?thesis unfolding res scrape_response_length
    by (simp add: maps_scrape_def shards_scrape_def filter_info_hashes_def)
qed

text \<open>A validated configuration lets every answer be sent. Whatever datagram a worker answers, with a connect
  response, peers, statistics or an error, the answer leaves 64 bytes of the buffer of the polling backend,
  which thus drops none.\<close>
theorem validated_answers_fit:
  fixes wk :: "('r, 'h) udp_worker"
  assumes "udp_validate canonicalize parallelism ur = Inr n"
    and "crates_ok xc" and "maps_inv (wk_torrent_maps wk)"
    and "datagram_answer (ur_worker ur) xc re datagram source wk = Some (Some res, wk')"
  shows "length (write_response res) \<le> BUFFER_SIZE - 64"
proof -
  let ?cf = "ur_worker ur" and ?bs = "take BUFFER_SIZE datagram" and ?src = "canonical_new source"
  let ?wk = "requested ?cf ?src (received ?cf ?src (length ?bs) wk)"
  note ok = udp_validated [OF assms(1)]
  have maps: "wk_torrent_maps ?wk = wk_torrent_maps wk" by (simp add: received_def requested_def)
  show ?thesis
  proof (cases "parse_request ?bs (max_scrape_torrents (uc_protocol (wc_swarm ?cf)))")
    case (Inr req)
    then have h: "handle_request ?cf xc re req ?src ?wk = Some (Some res, wk')"
      using assms(4) by (auto simp: datagram_answer_def Let_def split: if_splits)
    have "length (write_response res) \<le> max 40 (max (20 + 18 * max_response_peers (uc_protocol (wc_swarm ?cf)))
        (8 + 12 * unat (max_scrape_torrents (uc_protocol (wc_swarm ?cf)))))"
      by (rule request_answer_length [OF assms(2) _ h])
        (use assms(3) maps parsed_scrape_length Inr in auto)
    then show ?thesis using ok by (simp add: BUFFER_SIZE_def)
  next
    case (Inl e)
    then obtain cid tid err where e: "e = Sendable cid tid err" "res = ResError \<lparr>er_transaction_id = tid, er_message = err\<rparr>"
      using assms(4) by (auto simp: datagram_answer_def Let_def split: if_splits request_parse_error.splits)
    have "length err \<le> 32" using Inl unfolding e(1) by (rule parse_error_length)
    then show ?thesis by (simp add: e(2) write_error_response_def BUFFER_SIZE_def)
  qed
qed

text \<open>The io_uring backend drops answers of a validated configuration: a response with more than 112 IPv6 peers
  does not fit its send buffers, whatever buffer is free, though up to 450 peers pass the checks.\<close>
theorem uring_drops_validated_answers:
  assumes "113 \<le> length (as_peers r)"
    and "prepare_entry v4 (ResAnnounceIpv6 r) addr s = Some (p, s')"
  shows "p = NoBuffers \<or> p = SerializationFailed"
  using assms(2)
proof (cases rule: prepare_entry_cases)
  case (3 i)
  then show ?thesis using assms(1) by (simp only: announce_response_length RESPONSE_BUF_LEN_def)
qed simp_all

definition large_responses :: udp_run_config where
  "large_responses = \<lparr>ur_use_ipv4 = True, ur_use_ipv6 = True, ur_socket_workers = 1, ur_torrent_cleaning_interval = 120,
     ur_worker = sample_worker_config\<lparr>wc_swarm := sample_config\<lparr>uc_protocol :=
       \<lparr>max_scrape_torrents = 70, max_response_peers = 450, peer_announce_interval = 900\<rparr>\<rparr>\<rparr>,
     ur_auto_ban = auto_ban_config_default, ur_access_list_path = [97], ur_ip_ban_path = [98]\<rparr>"

lemma large_responses_pass: "udp_validate canonicalize None large_responses = Inr 1"
  by (simp add: udp_validate_def large_responses_def validate_worker_counts_def validate_interval_def ensure_def
      max_announce_response_len_def max_scrape_response_len_def max_allowed_response_len_def BUFFER_SIZE_def sat_defs
      validate_auto_ban_config_def auto_ban_config_default_def)

lemma uring_drops_validated_answers_witness:
  "\<exists>s'. prepare_entry False (ResAnnounceIpv6 \<lparr>as_fixed = \<lparr>af_transaction_id = 1, af_announce_interval = 900,
      af_leechers = 113, af_seeders = 0\<rparr>, as_peers = replicate 113 \<lparr>ip_address = 1, peer_port = 6881\<rparr>\<rparr>)
      (Canonical (SocketV6 1 6881 0 0)) (send_buffers_new 1) = Some (SerializationFailed, s')"
proof -
  let ?r = "\<lparr>as_fixed = \<lparr>af_transaction_id = 1, af_announce_interval = 900, af_leechers = 113, af_seeders = 0\<rparr>,
      as_peers = replicate 113 \<lparr>ip_address = 1, peer_port = 6881\<rparr>\<rparr>"
  let ?addr = "Canonical (SocketV6 1 6881 0 0)"
  obtain name where "send_name False ?addr = Some name" by simp
  then obtain p s' where ps: "prepare_entry False (ResAnnounceIpv6 ?r) ?addr (send_buffers_new 1) = Some (p, s')"
    using prepare_total by blast
  have free: "next_free_index (send_buffers_new 1) \<noteq> None"
    by (simp add: next_free_index_def send_buffers_new_def send_buffer_new_def)
  from ps have "p \<noteq> NoBuffers" by (cases rule: prepare_entry_cases) (use free in auto)
  moreover have "p = NoBuffers \<or> p = SerializationFailed"
    by (rule uring_drops_validated_answers [OF _ ps]) simp
  ultimately show ?thesis using ps by blast
qed

definition default_responses :: udp_run_config where
  "default_responses = large_responses\<lparr>ur_worker := sample_worker_config\<rparr>"

lemma default_responses_pass: "udp_validate canonicalize None default_responses = Inr 1"
  by (simp add: default_responses_def udp_validate_def large_responses_def validate_worker_counts_def
      validate_interval_def ensure_def max_announce_response_len_def max_scrape_response_len_def
      max_allowed_response_len_def BUFFER_SIZE_def sat_defs validate_auto_ban_config_def auto_ban_config_default_def
      sample_worker_config_def sample_config_def)

lemma validated_answers_fit_witness:
  "\<exists>res wk'. datagram_answer (ur_worker default_responses) sample_crates sample_env sample_connect (SocketV4 7 6881)
      sample_worker = Some (Some res, wk') \<and> length (write_response res) \<le> BUFFER_SIZE - 64"
proof -
  have "ur_worker default_responses = sample_worker_config" by (simp add: default_responses_def)
  then obtain res wk' where a: "datagram_answer (ur_worker default_responses) sample_crates sample_env sample_connect
      (SocketV4 7 6881) sample_worker = Some (Some res, wk')"
    using sample_connect_answer by simp
  have laws: "crates_ok sample_crates" using sample_uring_laws(1) by (simp add: sample_uring_crates_def)
  have "length (write_response res) \<le> BUFFER_SIZE - 64"
    by (rule validated_answers_fit [OF default_responses_pass laws sample_uring_laws(2) a])
  then show ?thesis using a by blast
qed

end
