(* ===== verification/Ws_Startup.thy ===== *)
theory Ws_Startup
  imports Ws_Connection Ban_Flush
begin

text \<open>
  \<open>crates/ws/src/lib.rs\<close>, the start of the WebTorrent tracker: the checks of the configuration, the state
  the workers share, the TLS configuration, and what the signals do to them. Threads, sockets and
  privileges are not modelled; the parser of certificates and keys is an argument.
\<close>

record ws_run_config =
  wr_enable_tls :: bool
  wr_enable_http_health_checks :: bool
  wr_socket_workers :: nat
  wr_torrent_cleaning_interval :: nat
  wr_connection_cleaning_interval :: nat
  wr_torrent_count_update_interval :: nat
  wr_socket :: ws_socket_config
  wr_auto_ban :: auto_ban_config
  wr_access_list_path :: path
  wr_ip_ban_path :: path
  wr_tls_certificate_path :: path
  wr_tls_private_key_path :: path

datatype ws_startup_error =
    TlsWithHealthChecks
  | WsInvalidSetting config_error
  | WsInvalidAutoBan auto_ban_config_error
  | WsAccessListFailed list_error
  | WsIpBanListFailed io_error
  | WsClientBanListFailed io_error
  | WsTrustedProxiesFailed trusted_proxies_error
  | TlsConfigFailed
  | TlsFileFailed io_error

text \<open>The number of socket workers, where every check passes.\<close>

definition ws_validate ::
  "(path \<Rightarrow> path option) \<Rightarrow> nat option \<Rightarrow> ws_run_config \<Rightarrow> ws_startup_error + nat" where
  "ws_validate canonicalize parallelism wr =
     and_then (ensure (\<not> (wr_enable_tls wr \<and> wr_enable_http_health_checks wr)) TlsWithHealthChecks) (\<lambda>_.
     let (socket_workers, counts) =
           validate_worker_counts parallelism (wr_socket_workers wr) (Some (wcf_swarm_workers (wsc_swarm (wr_socket wr))))
     in and_then (map_err WsInvalidSetting counts) (\<lambda>_.
     and_then (map_err WsInvalidSetting
       (validate_interval (str ''cleaning.torrent_cleaning_interval'') (wr_torrent_cleaning_interval wr))) (\<lambda>_.
     and_then (map_err WsInvalidSetting
       (validate_interval (str ''cleaning.connection_cleaning_interval'') (wr_connection_cleaning_interval wr))) (\<lambda>_.
     and_then (map_err WsInvalidSetting
       (validate_interval (str ''metrics.torrent_count_update_interval'') (wr_torrent_count_update_interval wr))) (\<lambda>_.
     and_then (map_err WsInvalidAutoBan (validate_auto_ban_config canonicalize (wr_auto_ban wr)
         (gc_ip_ban_mode (wsc_guard (wr_socket wr))) (wr_ip_ban_path wr))) (\<lambda>_.
     Inr socket_workers))))))"

subsection \<open>The shared state\<close>

text \<open>
  The TLS configuration in use, with the contents of the two files that were read beside it.
\<close>

record 'c ws_tls =
  tls_config :: 'c
  tls_cert_data :: bytes
  tls_key_data :: bytes

record ('n, 'c) ws_state =
  wss_access_list :: access_list
  wss_ip_ban_list :: ip_ban_list
  wss_client_ban_list :: client_ban_list
  wss_trusted_proxies :: "'n trusted_proxies"
  wss_auto_ban_tracker :: "auto_ban_tracker option"
  wss_tls :: "'c ws_tls option"

record ('n, 'c) ws_run_crates =
  wrx_hex :: hex_ops
  wrx_networks :: "'n network_crates"
  wrx_parse_ip :: ip_parser
  wrx_canonicalize :: "path \<Rightarrow> path option"
  wrx_rustls :: "bytes \<Rightarrow> bytes \<Rightarrow> 'c option"

definition ws_state_default :: "('n, 'c) ws_state" where
  "ws_state_default = \<lparr>wss_access_list = {}, wss_ip_ban_list = empty_ban_list,
     wss_client_ban_list = client_ban_list_default, wss_trusted_proxies = trusted_proxies_default,
     wss_auto_ban_tracker = None, wss_tls = None\<rparr>"

definition ws_update_access_list ::
  "('n, 'c) ws_run_crates \<Rightarrow> ws_run_config \<Rightarrow> file_system \<Rightarrow> readings \<Rightarrow> ('n, 'c) ws_state \<Rightarrow>
   ('n, 'c) ws_state \<times> (ws_startup_error + unit)" where
  "ws_update_access_list x wr fs reading st =
     (let p = wr_access_list_path wr;
          (l, res) = update_access_list (wrx_hex x) (gc_access_list_mode (wsc_guard (wr_socket wr)))
            (file_at fs p (reading p)) (wss_access_list st)
      in (st\<lparr>wss_access_list := l\<rparr>, map_err WsAccessListFailed res))"

definition ws_update_ip_ban_list ::
  "('n, 'c) ws_run_crates \<Rightarrow> ws_run_config \<Rightarrow> file_system \<Rightarrow> readings \<Rightarrow> ('n, 'c) ws_state \<Rightarrow>
   ('n, 'c) ws_state \<times> (ws_startup_error + unit)" where
  "ws_update_ip_ban_list x wr fs reading st =
     (let p = wr_ip_ban_path wr;
          (l, res) = update_ip_ban_list (wrx_parse_ip x) (gc_ip_ban_mode (wsc_guard (wr_socket wr)))
            (file_at fs p (reading p)) (wss_ip_ban_list st)
      in (st\<lparr>wss_ip_ban_list := l\<rparr>, map_err WsIpBanListFailed res))"

definition ws_update_client_ban_list ::
  "ws_run_config \<Rightarrow> file_system \<Rightarrow> readings \<Rightarrow> ('n, 'c) ws_state \<Rightarrow>
   ('n, 'c) ws_state \<times> (ws_startup_error + unit)" where
  "ws_update_client_ban_list wr fs reading st =
     (let (l, res) = update_client_ban_list (\<lambda>p. file_at fs p (reading p))
            (gc_client_ban (wsc_guard (wr_socket wr))) (wss_client_ban_list st)
      in (st\<lparr>wss_client_ban_list := l\<rparr>, map_err WsClientBanListFailed res))"

definition ws_update_trusted_proxies ::
  "('n, 'c) ws_run_crates \<Rightarrow> ws_run_config \<Rightarrow> file_system \<Rightarrow> readings \<Rightarrow> ('n, 'c) ws_state \<Rightarrow>
   ('n, 'c) ws_state \<times> (ws_startup_error + unit)" where
  "ws_update_trusted_proxies x wr fs reading st =
     (let (l, res) = update_trusted_proxies (wrx_networks x) (\<lambda>p. file_at fs p (reading p))
            (wsc_trusted_proxies (wr_socket wr)) (wss_trusted_proxies st)
      in (st\<lparr>wss_trusted_proxies := l\<rparr>, map_err WsTrustedProxiesFailed res))"

definition ws_auto_ban_tracker ::
  "('n, 'c) ws_run_crates \<Rightarrow> file_system \<Rightarrow> nat \<Rightarrow> instant \<Rightarrow> ws_run_config \<Rightarrow> auto_ban_tracker option" where
  "ws_auto_ban_tracker x fs now_unix now wr =
     (if ac_enabled (wr_auto_ban wr)
      then Some (fst (load_client_bans (wrx_parse_ip x) fs now_unix now (tracker_from_config (wr_auto_ban wr))))
      else None)"

subsection \<open>The TLS configuration\<close>

text \<open>
  \<open>create_rustls_config\<close> reads both files itself: the files may have changed since, or before, they were
  read for the comparison. \<open>fs\<close> and \<open>fs'\<close> are the files at the two times.
\<close>

definition create_rustls_config ::
  "(bytes \<Rightarrow> bytes \<Rightarrow> 'c option) \<Rightarrow> ws_run_config \<Rightarrow> file_system \<Rightarrow> readings \<Rightarrow> 'c option" where
  "create_rustls_config rustls wr fs reading =
     (let cert = wr_tls_certificate_path wr; key = wr_tls_private_key_path wr
      in case (file_at fs cert (reading cert), file_at fs key (reading key)) of
           (Inr c, Inr k) \<Rightarrow> rustls c k
         | _ \<Rightarrow> None)"

definition ws_load_tls ::
  "('n, 'c) ws_run_crates \<Rightarrow> ws_run_config \<Rightarrow> file_system \<Rightarrow> file_system \<Rightarrow> readings \<Rightarrow>
   ws_startup_error + 'c ws_tls option" where
  "ws_load_tls x wr fs fs' reading =
     (if wr_enable_tls wr then
        (let cert = wr_tls_certificate_path wr; key = wr_tls_private_key_path wr
         in and_then (ok_or TlsConfigFailed (create_rustls_config (wrx_rustls x) wr fs reading)) (\<lambda>config.
            and_then (map_err TlsFileFailed (file_at fs' cert (reading cert))) (\<lambda>c.
            and_then (map_err TlsFileFailed (file_at fs' key (reading key))) (\<lambda>k.
            Inr (Some \<lparr>tls_config = config, tls_cert_data = c, tls_key_data = k\<rparr>)))))
      else Inr None)"

definition ws_update_tls ::
  "('n, 'c) ws_run_crates \<Rightarrow> ws_run_config \<Rightarrow> file_system \<Rightarrow> file_system \<Rightarrow> readings \<Rightarrow> 'c ws_tls \<Rightarrow> 'c ws_tls" where
  "ws_update_tls x wr fs fs' reading tls =
     (let cert = wr_tls_certificate_path wr; key = wr_tls_private_key_path wr
      in case (file_at fs cert (reading cert), file_at fs key (reading key)) of
           (Inr c, Inr k) \<Rightarrow>
             if tls_cert_data tls = c \<and> tls_key_data tls = k then tls
             else (case create_rustls_config (wrx_rustls x) wr fs' reading of
                     Some config \<Rightarrow> \<lparr>tls_config = config, tls_cert_data = c, tls_key_data = k\<rparr>
                   | None \<Rightarrow> tls)
         | _ \<Rightarrow> tls)"

subsection \<open>The start and the signals\<close>

definition ws_run ::
  "('n, 'c) ws_run_crates \<Rightarrow> nat option \<Rightarrow> file_system \<Rightarrow> file_system \<Rightarrow> readings \<Rightarrow> nat \<Rightarrow> instant \<Rightarrow>
   ws_run_config \<Rightarrow> ws_startup_error + (nat \<times> ('n, 'c) ws_state)" where
  "ws_run x parallelism fs fs' reading now_unix now wr =
     and_then (ws_validate (wrx_canonicalize x) parallelism wr) (\<lambda>socket_workers.
     and_then (proceed (ws_update_access_list x wr fs reading) ws_state_default) (\<lambda>st1.
     and_then (proceed (ws_update_ip_ban_list x wr fs reading) st1) (\<lambda>st2.
     and_then (proceed (ws_update_client_ban_list wr fs reading) st2) (\<lambda>st3.
     and_then (proceed (ws_update_trusted_proxies x wr fs reading) st3) (\<lambda>st4.
     and_then (ws_load_tls x wr fs fs' reading) (\<lambda>tls.
     Inr (socket_workers, st4\<lparr>wss_auto_ban_tracker := ws_auto_ban_tracker x fs now_unix now wr,
       wss_tls := tls\<rparr>)))))))"

datatype ws_signal = WsSIGUSR1 | WsSIGUSR2

fun ws_handle_signal ::
  "('n, 'c) ws_run_crates \<Rightarrow> ws_run_config \<Rightarrow> file_system \<Rightarrow> file_system \<Rightarrow> readings \<Rightarrow> ws_signal \<Rightarrow>
   ('n, 'c) ws_state \<Rightarrow> ('n, 'c) ws_state" where
  "ws_handle_signal x wr fs fs' reading WsSIGUSR1 st =
     (let st1 = fst (ws_update_access_list x wr fs reading st)
      in st1\<lparr>wss_tls := map_option (ws_update_tls x wr fs fs' reading) (wss_tls st1)\<rparr>)"
| "ws_handle_signal x wr fs fs' reading WsSIGUSR2 st =
     fst (ws_update_trusted_proxies x wr fs reading
       (fst (ws_update_client_ban_list wr fs reading
         (fst (ws_update_ip_ban_list x wr fs reading st)))))"

end
