(* ===== verification/Ws_Startup_Spec.thy ===== *)
theory Ws_Startup_Spec
  imports Ws_Startup Ws_Connection_Spec
begin

text \<open>
  What a started WebTorrent tracker can rely on: what the checks rule out, and that the TLS configuration
  follows its files from signal to signal.
\<close>

lemma ws_validated:
  assumes "ws_validate canonicalize parallelism wr = Inr n"
  shows "\<not> (wr_enable_tls wr \<and> wr_enable_http_health_checks wr)" and "wcf_swarm_workers (wsc_swarm (wr_socket wr)) \<noteq> 0"
    and "validate_auto_ban_config canonicalize (wr_auto_ban wr) (gc_ip_ban_mode (wsc_guard (wr_socket wr)))
      (wr_ip_ban_path wr) = Inr ()"
  using assms
  by (auto simp: ws_validate_def validate_worker_counts_def and_then_Inr validate_interval_def Let_def split: if_splits)

text \<open>The configuration in use is the one the recorded files make.\<close>

definition tls_in_step :: "('n, 'c) ws_run_crates \<Rightarrow> 'c ws_tls \<Rightarrow> bool" where
  "tls_in_step x tls = (wrx_rustls x (tls_cert_data tls) (tls_key_data tls) = Some (tls_config tls))"

lemma created_from_files:
  "create_rustls_config rustls wr fs reading = Some c \<longleftrightarrow>
     (\<exists>cert key. file_at fs (wr_tls_certificate_path wr) (reading (wr_tls_certificate_path wr)) = Inr cert \<and>
       file_at fs (wr_tls_private_key_path wr) (reading (wr_tls_private_key_path wr)) = Inr key \<and> rustls cert key = Some c)"
  by (auto simp: create_rustls_config_def Let_def split: sum.splits)

lemma loaded_in_step:
  assumes "ws_load_tls x wr fs fs reading = Inr (Some tls)"
  shows "tls_in_step x tls"
  using assms
  by (auto simp: ws_load_tls_def tls_in_step_def and_then_Inr ok_or_def created_from_files Let_def
      split: if_splits option.splits)

lemma update_tls_in_step:
  assumes "tls_in_step x tls"
  shows "tls_in_step x (ws_update_tls x wr fs fs reading tls)"
    and "tls_config (ws_update_tls x wr fs fs reading tls) =
      (case create_rustls_config (wrx_rustls x) wr fs reading of Some c \<Rightarrow> c | None \<Rightarrow> tls_config tls)"
  using assms
  by (auto simp: ws_update_tls_def tls_in_step_def Let_def create_rustls_config_def split: sum.splits option.splits)

lemma updates_keep_tls [simp]:
  "wss_tls (fst (ws_update_access_list x wr fs reading st)) = wss_tls st"
  "wss_tls (fst (ws_update_ip_ban_list x wr fs reading st)) = wss_tls st"
  "wss_tls (fst (ws_update_client_ban_list wr fs reading st)) = wss_tls st"
  "wss_tls (fst (ws_update_trusted_proxies x wr fs reading st)) = wss_tls st"
  by (simp_all add: ws_update_access_list_def ws_update_ip_ban_list_def ws_update_client_ban_list_def
      ws_update_trusted_proxies_def Let_def split: prod.splits)

text \<open>A run of signals, each with the files it meets.\<close>

definition handle_signals ::
  "('n, 'c) ws_run_crates \<Rightarrow> ws_run_config \<Rightarrow> (ws_signal \<times> file_system \<times> readings) list \<Rightarrow>
   ('n, 'c) ws_state \<Rightarrow> ('n, 'c) ws_state" where
  "handle_signals x wr sigs st = fold (\<lambda>(sig, fs, reading). ws_handle_signal x wr fs fs reading sig) sigs st"

lemma signal_in_step:
  "\<exists>tls. wss_tls st = Some tls \<and> tls_in_step x tls \<Longrightarrow>
   \<exists>tls. wss_tls (ws_handle_signal x wr fs fs reading sig st) = Some tls \<and> tls_in_step x tls"
  by (cases sig) (auto simp: Let_def update_tls_in_step)

lemma signals_in_step:
  assumes "\<exists>tls. wss_tls st = Some tls \<and> tls_in_step x tls"
  shows "\<exists>tls. wss_tls (handle_signals x wr sigs st) = Some tls \<and> tls_in_step x tls"
  using assms
proof (induction sigs arbitrary: st)
  case (Cons e sigs)
  obtain sig fs reading where e: "e = (sig, fs, reading)" by (cases e)
  show ?case using Cons.IH [OF signal_in_step [OF Cons.prems]] by (simp add: handle_signals_def e)
qed (simp add: handle_signals_def)

text \<open>The TLS configuration follows its files. After a start, and any signals, at which the files hold still, a
  further \<open>SIGUSR1\<close> puts the configuration in use that the files then make, though it skips files with the
  contents it remembers; where they make none, the configuration stays.\<close>
theorem tls_follows_the_files:
  fixes x :: "('n, 'c) ws_run_crates"
  assumes "ws_run x parallelism fs0 fs0 reading0 now_unix now wr = Inr (n, st0)" and "wr_enable_tls wr"
  shows "map_option tls_config (wss_tls (ws_handle_signal x wr fs fs reading WsSIGUSR1 (handle_signals x wr sigs st0))) =
    (case create_rustls_config (wrx_rustls x) wr fs reading of
       Some c \<Rightarrow> Some c
     | None \<Rightarrow> map_option tls_config (wss_tls (handle_signals x wr sigs st0)))"
proof -
  obtain tls0 where "ws_load_tls x wr fs0 fs0 reading0 = Inr tls0" "wss_tls st0 = tls0"
    using assms(1) by (auto simp: ws_run_def and_then_Inr Let_def)
  moreover have "tls0 \<noteq> None" using calculation(1) assms(2) by (auto simp: ws_load_tls_def and_then_Inr Let_def)
  ultimately have "\<exists>tls. wss_tls st0 = Some tls \<and> tls_in_step x tls" using loaded_in_step by auto
  from signals_in_step [OF this] obtain tls where
    "wss_tls (handle_signals x wr sigs st0) = Some tls" "tls_in_step x tls" by blast
  then show ?thesis by (auto simp: Let_def update_tls_in_step split: option.splits)
qed

subsection \<open>A start with certificates\<close>

definition sample_ws_run_config :: ws_run_config where
  "sample_ws_run_config = \<lparr>wr_enable_tls = True, wr_enable_http_health_checks = False, wr_socket_workers = 1,
     wr_torrent_cleaning_interval = 30, wr_connection_cleaning_interval = 30, wr_torrent_count_update_interval = 10,
     wr_socket = sample_socket_config,
     wr_auto_ban = auto_ban_config_default, wr_access_list_path = [97], wr_ip_ban_path = [98],
     wr_tls_certificate_path = [99], wr_tls_private_key_path = [107]\<rparr>"

text \<open>Certificates and keys that fit are texts of the same length; a configuration is the pair.\<close>

definition sample_ws_run_crates :: "(ip_range, bytes \<times> bytes) ws_run_crates" where
  "sample_ws_run_crates = \<lparr>wrx_hex = ref_hex, wrx_networks = ref_networks [] [], wrx_parse_ip = Map.empty,
     wrx_canonicalize = Map.empty, wrx_rustls = (\<lambda>c k. if length c = length k then Some (c, k) else None)\<rparr>"

definition tls_files :: "u8 \<Rightarrow> file_system" where
  "tls_files n = Map.empty([99] \<mapsto> [n], [107] \<mapsto> [n])"

definition all_readable :: readings where
  "all_readable = (\<lambda>_. (True, InvalidData))"

lemma sample_ws_started:
  "\<exists>st. ws_run sample_ws_run_crates None (tls_files a) (tls_files b) all_readable 0 0 sample_ws_run_config = Inr (1, st) \<and>
    wss_tls st = Some \<lparr>tls_config = ([a], [a]), tls_cert_data = [b], tls_key_data = [b]\<rparr>"
proof -
  have valid: "ws_validate Map.empty None sample_ws_run_config = Inr 1"
    by (simp add: ws_validate_def sample_ws_run_config_def validate_worker_counts_def ensure_def ws_sample_config_def
        validate_interval_def validate_auto_ban_config_def auto_ban_config_default_def sample_socket_config_def)
  have lists: "\<exists>st'. ws_update_access_list sample_ws_run_crates sample_ws_run_config (tls_files a) all_readable st = (st', Inr ())"
    "\<exists>st'. ws_update_ip_ban_list sample_ws_run_crates sample_ws_run_config (tls_files a) all_readable st = (st', Inr ())"
    "\<exists>st'. ws_update_client_ban_list sample_ws_run_config (tls_files a) all_readable st = (st', Inr ())"
    "\<exists>st'. ws_update_trusted_proxies sample_ws_run_crates sample_ws_run_config (tls_files a) all_readable st = (st', Inr ())" for st
    by (simp_all add: ws_update_access_list_def ws_update_ip_ban_list_def ws_update_client_ban_list_def
        ws_update_trusted_proxies_def sample_ws_run_config_def sample_socket_config_def sample_guard_config_def
        update_access_list_def update_ip_ban_list_def update_client_ban_list_def update_trusted_proxies_def
        client_ban_config_default_def trusted_proxies_config_default_def)
  have tls: "ws_load_tls sample_ws_run_crates sample_ws_run_config (tls_files a) (tls_files b) all_readable =
      Inr (Some \<lparr>tls_config = ([a], [a]), tls_cert_data = [b], tls_key_data = [b]\<rparr>)"
    by (simp add: ws_load_tls_def sample_ws_run_config_def create_rustls_config_def file_at_def tls_files_def
        all_readable_def sample_ws_run_crates_def ok_or_def)
  obtain st4 where st: "ws_run sample_ws_run_crates None (tls_files a) (tls_files b) all_readable 0 0 sample_ws_run_config =
      Inr (1, st4\<lparr>wss_auto_ban_tracker := ws_auto_ban_tracker sample_ws_run_crates (tls_files a) 0 0 sample_ws_run_config,
        wss_tls := Some \<lparr>tls_config = ([a], [a]), tls_cert_data = [b], tls_key_data = [b]\<rparr>\<rparr>)"
  proof -
    obtain st1 where 1: "proceed (ws_update_access_list sample_ws_run_crates sample_ws_run_config (tls_files a) all_readable)
        ws_state_default = Inr st1" using lists(1) [of ws_state_default] by (auto simp: proceed_def)
    obtain st2 where 2: "proceed (ws_update_ip_ban_list sample_ws_run_crates sample_ws_run_config (tls_files a) all_readable)
        st1 = Inr st2" using lists(2) [of st1] by (auto simp: proceed_def)
    obtain st3 where 3: "proceed (ws_update_client_ban_list sample_ws_run_config (tls_files a) all_readable)
        st2 = Inr st3" using lists(3) [of st2] by (auto simp: proceed_def)
    obtain st4 where 4: "proceed (ws_update_trusted_proxies sample_ws_run_crates sample_ws_run_config (tls_files a) all_readable)
        st3 = Inr st4" using lists(4) [of st3] by (auto simp: proceed_def)
    have "wrx_canonicalize sample_ws_run_crates = Map.empty" by (simp add: sample_ws_run_crates_def)
    then show ?thesis using valid 1 2 3 4 tls that [of st4] by (simp add: ws_run_def)
  qed
  then show ?thesis by simp
qed

lemma tls_follows_the_files_witness:
  "\<exists>st. ws_run sample_ws_run_crates None (tls_files 1) (tls_files 1) all_readable 0 0 sample_ws_run_config = Inr (1, st) \<and>
    map_option tls_config (wss_tls (ws_handle_signal sample_ws_run_crates sample_ws_run_config (tls_files 2) (tls_files 2)
      all_readable WsSIGUSR1 st)) = Some ([2], [2])"
proof -
  obtain st where st: "ws_run sample_ws_run_crates None (tls_files 1) (tls_files 1) all_readable 0 0 sample_ws_run_config =
      Inr (1, st)" using sample_ws_started [of 1 1] by blast
  have on: "wr_enable_tls sample_ws_run_config" by (simp add: sample_ws_run_config_def)
  have "create_rustls_config (wrx_rustls sample_ws_run_crates) sample_ws_run_config (tls_files 2) all_readable = Some ([2], [2])"
    by (simp add: create_rustls_config_def sample_ws_run_config_def sample_ws_run_crates_def file_at_def tls_files_def
        all_readable_def)
  then show ?thesis
    using tls_follows_the_files [OF st on, of "tls_files 2" all_readable "[]"] st by (auto simp: handle_signals_def)
qed

text \<open>
  The files are read twice at the start, first for the configuration and then for the comparison. Where they
  are renewed in between, the old configuration stays in use, and every \<open>SIGUSR1\<close> skips the new files.
\<close>

lemma renewed_certificate_is_skipped:
  "\<exists>st. ws_run sample_ws_run_crates None (tls_files 1) (tls_files 2) all_readable 0 0 sample_ws_run_config = Inr (1, st) \<and>
    map_option tls_config (wss_tls (ws_handle_signal sample_ws_run_crates sample_ws_run_config (tls_files 2) (tls_files 2)
      all_readable WsSIGUSR1 st)) = Some ([1], [1])"
proof -
  obtain st where st: "ws_run sample_ws_run_crates None (tls_files 1) (tls_files 2) all_readable 0 0 sample_ws_run_config =
      Inr (1, st)" "wss_tls st = Some \<lparr>tls_config = ([1], [1]), tls_cert_data = [2], tls_key_data = [2]\<rparr>"
    using sample_ws_started [of 1 2] by blast
  then have "map_option tls_config (wss_tls (ws_handle_signal sample_ws_run_crates sample_ws_run_config (tls_files 2)
      (tls_files 2) all_readable WsSIGUSR1 st)) = Some ([1], [1])"
    by (simp add: ws_update_tls_def sample_ws_run_config_def file_at_def tls_files_def all_readable_def Let_def)
  then show ?thesis using st(1) by blast
qed

end
