(* ===== verification/Privileges.thy ===== *)
theory Privileges
  imports Prelude
begin

text \<open>
  \<open>crates/common/src/privileges.rs\<close> and the start of the socket workers around it: the workers of a
  tracker create their sockets one after the other, and after each socket a worker calls
  \<open>after_socket_creation\<close>, which waits at a barrier of the standard library until as many calls have
  arrived as there are sockets; one of them, any, is the leader and drops the privileges of the process.
  The order in which the workers run, the leader, and whether the system calls succeed are the events.
\<close>

text \<open>
  A worker creates its sockets, and has some left; it waits at the barrier after one of them; it is the
  leader and about to drop privileges; it serves; or it returned with an error.
\<close>

datatype startup_phase = Creating nat | Waiting nat | Dropping nat | Serving | StartFailed

record privilege_dropper =
  pd_drop_privileges :: bool
  pd_num_sockets :: nat

record workers_state =
  ws_phases :: "startup_phase list"
  ws_arrived :: nat
  ws_dropped :: bool
  ws_binds :: "bool list"

text \<open>\<open>Barrier::wait\<close>, by a worker with \<open>left\<close> sockets left. The last to arrive opens the barrier.\<close>

fun released :: "startup_phase \<Rightarrow> startup_phase" where
  "released (Waiting n) = Creating n"
| "released p = p"

definition lead :: "nat \<Rightarrow> startup_phase list \<Rightarrow> startup_phase list option" where
  "lead l ps = (case ps ! l of Waiting n \<Rightarrow> Some ((map released ps)[l := Dropping n]) | _ \<Rightarrow> None)"

definition barrier_wait ::
  "privilege_dropper \<Rightarrow> nat \<Rightarrow> nat \<Rightarrow> nat \<Rightarrow> workers_state \<Rightarrow> workers_state option" where
  "barrier_wait pd i left l s =
     (let ps = (ws_phases s)[i := Waiting left];
          n = ws_arrived s + 1
      in if n < pd_num_sockets pd then Some (s\<lparr>ws_phases := ps, ws_arrived := n\<rparr>)
         else if l < length ps
              then map_option (\<lambda>ps'. s\<lparr>ws_phases := ps', ws_arrived := 0\<rparr>) (lead l ps)
              else None)"

definition after_socket_creation ::
  "privilege_dropper \<Rightarrow> nat \<Rightarrow> nat \<Rightarrow> nat \<Rightarrow> workers_state \<Rightarrow> workers_state option" where
  "after_socket_creation pd i left l s =
     (if pd_drop_privileges pd then barrier_wait pd i left l s
      else Some (s\<lparr>ws_phases := (ws_phases s)[i := Creating left]\<rparr>))"

text \<open>
  The sockets bound, each with whether the process held its privileges then, and the events: a worker
  binds its next socket and arrives at the barrier, with the leader should it open it, or fails to bind;
  the leader drops the privileges, or fails to; a worker with no socket left goes on to serve. Binding
  and arriving are one step: in between, a worker neither lets another go on nor keeps it from it.
\<close>

datatype startup_event = Bound nat nat | BindFailed nat | Dropped nat | DropFailed nat | Serves nat

definition bind_socket :: "workers_state \<Rightarrow> workers_state" where
  "bind_socket s = s\<lparr>ws_binds := ws_binds s @ [\<not> ws_dropped s]\<rparr>"

definition phase_of :: "workers_state \<Rightarrow> nat \<Rightarrow> startup_phase option" where
  "phase_of s i = (if i < length (ws_phases s) then Some (ws_phases s ! i) else None)"

fun startup_step :: "privilege_dropper \<Rightarrow> startup_event \<Rightarrow> workers_state \<Rightarrow> workers_state option" where
  "startup_step pd (Bound i l) s =
     (case phase_of s i of
        Some (Creating (Suc left)) \<Rightarrow> after_socket_creation pd i left l (bind_socket s)
      | _ \<Rightarrow> None)"
| "startup_step pd (BindFailed i) s =
     (case phase_of s i of
        Some (Creating (Suc left)) \<Rightarrow> Some (s\<lparr>ws_phases := (ws_phases s)[i := StartFailed]\<rparr>)
      | _ \<Rightarrow> None)"
| "startup_step pd (Dropped i) s =
     (case phase_of s i of
        Some (Dropping left) \<Rightarrow> Some (s\<lparr>ws_phases := (ws_phases s)[i := Creating left], ws_dropped := True\<rparr>)
      | _ \<Rightarrow> None)"
| "startup_step pd (DropFailed i) s =
     (case phase_of s i of
        Some (Dropping left) \<Rightarrow> Some (s\<lparr>ws_phases := (ws_phases s)[i := StartFailed]\<rparr>)
      | _ \<Rightarrow> None)"
| "startup_step pd (Serves i) s =
     (case phase_of s i of
        Some (Creating 0) \<Rightarrow> Some (s\<lparr>ws_phases := (ws_phases s)[i := Serving]\<rparr>)
      | _ \<Rightarrow> None)"

fun startup_run :: "privilege_dropper \<Rightarrow> startup_event list \<Rightarrow> workers_state \<Rightarrow> workers_state option" where
  "startup_run pd [] s = Some s"
| "startup_run pd (e # es) s = Option.bind (startup_step pd e s) (startup_run pd es)"

text \<open>The dropper as the trackers make it, one arrival for each socket, and the workers before they run.\<close>

definition privilege_dropper_new :: "bool \<Rightarrow> nat \<Rightarrow> nat \<Rightarrow> privilege_dropper" where
  "privilege_dropper_new drops workers sockets = \<lparr>pd_drop_privileges = drops, pd_num_sockets = workers * sockets\<rparr>"

definition workers_start :: "nat \<Rightarrow> nat \<Rightarrow> workers_state" where
  "workers_start workers sockets = \<lparr>ws_phases = replicate workers (Creating sockets), ws_arrived = 0,
     ws_dropped = False, ws_binds = []\<rparr>"

text \<open>The sockets of a worker: the HTTP and UDP trackers create one for each address family in use.\<close>

definition num_sockets_per_worker :: "bool \<Rightarrow> bool \<Rightarrow> nat" where
  "num_sockets_per_worker use_ipv4 use_ipv6 = (if use_ipv4 then 1 else 0) + (if use_ipv6 then 1 else 0)"

end
