(* ===== verification/Privileges_Spec.thy ===== *)
theory Privileges_Spec
  imports Privileges
begin

text \<open>
  What the barrier guarantees: no socket is bound without the privileges, whatever the order of the
  workers; trackers with one socket for each worker start; trackers with two sockets for each worker
  that are to drop their privileges do not.
\<close>

lemma run_append:
  "startup_run pd (es @ fs) s = Option.bind (startup_run pd es s) (startup_run pd fs)"
  by (induction es arbitrary: s) (auto split: Option.bind_split)

lemma run_invariant:
  assumes "startup_run pd es s = Some s'" and "P s"
    and "\<And>e s s'. startup_step pd e s = Some s' \<Longrightarrow> e \<in> set es \<Longrightarrow> P s \<Longrightarrow> P s'"
  shows "P s'"
  using assms
proof (induction es arbitrary: s)
  case (Cons e es)
  then obtain s1 where "startup_step pd e s = Some s1" "startup_run pd es s1 = Some s'"
    by (auto split: Option.bind_splits)
  then show ?case using Cons.IH [of s1] Cons.prems by auto
qed simp

lemma phase_of_Some [simp]: "phase_of s i = Some p \<longleftrightarrow> i < length (ws_phases s) \<and> ws_phases s ! i = p"
  by (simp add: phase_of_def)

text \<open>One step, by the phase of the worker that takes it.\<close>

lemma startup_step_cases:
  assumes "startup_step pd e s = Some s'"
  obtains (Bind) i left l where "e = Bound i l" "i < length (ws_phases s)" "ws_phases s ! i = Creating (Suc left)"
      "after_socket_creation pd i left l (bind_socket s) = Some s'"
  | (Fail) i p where "e = BindFailed i \<or> e = DropFailed i" "i < length (ws_phases s)" "ws_phases s ! i = p"
      "s' = s\<lparr>ws_phases := (ws_phases s)[i := StartFailed]\<rparr>"
  | (Drop) i left where "e = Dropped i" "i < length (ws_phases s)" "ws_phases s ! i = Dropping left"
      "s' = s\<lparr>ws_phases := (ws_phases s)[i := Creating left], ws_dropped := True\<rparr>"
  | (Serve) i where "e = Serves i" "i < length (ws_phases s)" "ws_phases s ! i = Creating 0"
      "s' = s\<lparr>ws_phases := (ws_phases s)[i := Serving]\<rparr>"
proof (cases e)
  case (Bound i l)
  then show ?thesis using assms that(1)
    by (auto split: option.splits startup_phase.splits nat.splits)
next
  case (BindFailed i)
  then show ?thesis using assms that(2)
    by (auto split: option.splits startup_phase.splits nat.splits)
next
  case (Dropped i)
  then show ?thesis using assms that(3)
    by (auto split: option.splits startup_phase.splits)
next
  case (DropFailed i)
  then show ?thesis using assms that(2)
    by (auto split: option.splits startup_phase.splits)
next
  case (Serves i)
  then show ?thesis using assms that(4)
    by (auto split: option.splits startup_phase.splits nat.splits)
qed

lemma after_socket_creation_cases:
  assumes "after_socket_creation pd i left l s = Some s'"
  obtains (Free) "\<not> pd_drop_privileges pd" "s' = s\<lparr>ws_phases := (ws_phases s)[i := Creating left]\<rparr>"
  | (Wait) "pd_drop_privileges pd" "ws_arrived s + 1 < pd_num_sockets pd"
      "s' = s\<lparr>ws_phases := (ws_phases s)[i := Waiting left], ws_arrived := ws_arrived s + 1\<rparr>"
  | (Open) n where "pd_drop_privileges pd" "pd_num_sockets pd \<le> ws_arrived s + 1" "l < length (ws_phases s)"
      "(ws_phases s)[i := Waiting left] ! l = Waiting n"
      "s' = s\<lparr>ws_phases := (map released ((ws_phases s)[i := Waiting left]))[l := Dropping n], ws_arrived := 0\<rparr>"
proof (cases "pd_drop_privileges pd")
  case False
  then show ?thesis using assms that(1) by (simp add: after_socket_creation_def)
next
  case True
  then show ?thesis using assms that(2,3)
    by (auto simp: after_socket_creation_def barrier_wait_def lead_def Let_def not_less
        split: if_splits startup_phase.splits)
qed

subsection \<open>Sockets and privileges\<close>

fun sockets_left :: "startup_phase \<Rightarrow> nat" where
  "sockets_left (Creating n) = n"
| "sockets_left (Waiting n) = n"
| "sockets_left (Dropping n) = n"
| "sockets_left _ = 0"

fun is_dropping :: "startup_phase \<Rightarrow> bool" where
  "is_dropping (Dropping n) = True"
| "is_dropping _ = False"

definition sockets_inv :: "privilege_dropper \<Rightarrow> workers_state \<Rightarrow> bool" where
  "sockets_inv pd s =
     (list_all id (ws_binds s) \<and>
      length (ws_binds s) + sum_list (map sockets_left (ws_phases s)) \<le> pd_num_sockets pd \<and>
      (pd_drop_privileges pd \<longrightarrow> ws_arrived s = length (ws_binds s) \<or> length (ws_binds s) = pd_num_sockets pd) \<and>
      (ws_dropped s \<or> list_ex is_dropping (ws_phases s) \<longrightarrow>
        pd_drop_privileges pd \<and> length (ws_binds s) = pd_num_sockets pd))"

lemma sum_list_map_update:
  "i < length xs \<Longrightarrow> sum_list (map f (xs[i := x])) + f (xs ! i) = sum_list (map f xs) + (f x :: nat)"
  by (induction xs arbitrary: i) (auto simp: nth_Cons split: nat.splits)

lemma sum_list_map_le: "i < length xs \<Longrightarrow> (f (xs ! i) :: nat) \<le> sum_list (map f xs)"
  by (induction xs arbitrary: i) (auto simp: nth_Cons trans_le_add2 split: nat.splits)

lemma sockets_left_released [simp]: "sockets_left (released p) = sockets_left p"
  by (cases p) simp_all

lemma sockets_left_opened:
  assumes "l < length ps" and "ps ! l = Waiting n"
  shows "sum_list (map sockets_left ((map released ps)[l := Dropping n])) = sum_list (map sockets_left ps)"
  using sum_list_map_update [of l "map released ps" sockets_left "Dropping n"] assms
  by (simp add: comp_def)

lemma dropping_update:
  "list_ex is_dropping (xs[i := x]) \<Longrightarrow> is_dropping x \<or> list_ex is_dropping xs"
  by (auto simp: list_ex_iff dest: set_update_subset_insert [THEN subsetD])

lemma dropping_at: "i < length ps \<Longrightarrow> ps ! i = Dropping n \<Longrightarrow> list_ex is_dropping ps"
  by (metis is_dropping.simps(1) list_ex_length)

lemma sockets_inv_step:
  assumes "startup_step pd e s = Some s'" and "sockets_inv pd s"
  shows "sockets_inv pd s'"
  using assms(1)
proof (cases rule: startup_step_cases)
  case (Bind i left l)
  note sum = sum_list_map_update [OF Bind(2), of sockets_left]
  have "Suc left \<le> sum_list (map sockets_left (ws_phases s))"
    using sum_list_map_le [OF Bind(2), of sockets_left] Bind(3) by simp
  then have less: "length (ws_binds s) < pd_num_sockets pd"
    and fresh: "\<not> ws_dropped s" "\<not> list_ex is_dropping (ws_phases s)"
    using assms(2) by (auto simp: sockets_inv_def)
  have ok: "list_all id (ws_binds s)"
    "pd_drop_privileges pd \<Longrightarrow> ws_arrived s = length (ws_binds s)"
    "length (ws_binds s) + sum_list (map sockets_left (ws_phases s)) \<le> pd_num_sockets pd"
    using assms(2) less by (auto simp: sockets_inv_def)
  from Bind(4) show ?thesis
  proof (cases rule: after_socket_creation_cases)
    case Free
    then show ?thesis using sum [of "Creating left"] ok fresh Bind(3)
      by (auto simp: sockets_inv_def bind_socket_def dest!: dropping_update)
  next
    case Wait
    then show ?thesis using sum [of "Waiting left"] ok fresh Bind(3)
      by (auto simp: sockets_inv_def bind_socket_def dest!: dropping_update)
  next
    case (Open n)
    let ?ps = "(ws_phases s)[i := Waiting left]"
    have "sum_list (map sockets_left ((map released ?ps)[l := Dropping n])) = sum_list (map sockets_left ?ps)"
      by (rule sockets_left_opened) (use Open in \<open>simp_all add: bind_socket_def\<close>)
    then show ?thesis using sum [of "Waiting left"] ok fresh less Open Bind(3)
      by (simp add: sockets_inv_def bind_socket_def)
  qed
next
  case (Fail i p)
  then show ?thesis using sum_list_map_update [OF Fail(2), of sockets_left StartFailed] assms(2)
    by (auto simp: sockets_inv_def dest!: dropping_update)
next
  case (Drop i left)
  then show ?thesis using sum_list_map_update [OF Drop(2), of sockets_left "Creating left"] assms(2)
      dropping_at [OF Drop(2,3)]
    by (auto simp: sockets_inv_def)
next
  case (Serve i)
  then show ?thesis using sum_list_map_update [OF Serve(2), of sockets_left Serving] assms(2)
    by (auto simp: sockets_inv_def dest!: dropping_update)
qed

lemma sockets_inv_start: "sockets_inv (privilege_dropper_new drops workers sockets) (workers_start workers sockets)"
  by (auto simp: sockets_inv_def privilege_dropper_new_def workers_start_def sum_list_replicate list_ex_iff)

text \<open>C38. No socket is bound without the privileges of the process. However the workers interleave, whichever of
  them leads and whatever fails, the privileges are dropped only when they are to be, and only after the
  last socket of the last worker was bound, so every socket is bound while they are still held.\<close>
theorem sockets_are_bound_with_privileges:
  assumes "startup_run (privilege_dropper_new drops workers sockets) es (workers_start workers sockets) = Some s"
  shows "list_all id (ws_binds s) \<and> (ws_dropped s \<longrightarrow> drops \<and> length (ws_binds s) = workers * sockets)"
proof -
  have "sockets_inv (privilege_dropper_new drops workers sockets) s"
    using assms sockets_inv_start by (rule run_invariant) (rule sockets_inv_step)
  then show ?thesis by (auto simp: sockets_inv_def privilege_dropper_new_def)
qed

subsection \<open>How long a start takes\<close>

fun startup_weight :: "startup_phase \<Rightarrow> nat" where
  "startup_weight (Creating n) = 1 + 2 * n"
| "startup_weight (Waiting n) = 2 + 2 * n"
| "startup_weight (Dropping n) = 2 + 2 * n"
| "startup_weight _ = 0"

lemma weight_released: "startup_weight (released p) \<le> startup_weight p"
  by (cases p) simp_all

lemma weight_opened:
  assumes "l < length ps" and "ps ! l = Waiting n"
  shows "sum_list (map startup_weight ((map released ps)[l := Dropping n])) \<le> sum_list (map startup_weight ps)"
proof -
  have "(map released ps)[l := Dropping n] ! j = (if j = l then Dropping n else released (ps ! j))" if "j < length ps" for j
    using that by simp
  then have "sum_list (map startup_weight ((map released ps)[l := Dropping n])) =
      (\<Sum>j<length ps. startup_weight (if j = l then Dropping n else released (ps ! j)))"
    by (simp add: sum_list_sum_nth atLeast0LessThan)
  also have "\<dots> \<le> (\<Sum>j<length ps. startup_weight (ps ! j))"
    by (rule sum_mono) (use assms in \<open>auto simp: weight_released\<close>)
  finally show ?thesis by (simp add: sum_list_sum_nth atLeast0LessThan)
qed

lemma weight_step:
  assumes "startup_step pd e s = Some s'"
    and "\<not> (\<exists>i. e = BindFailed i \<or> e = DropFailed i)"
  shows "sum_list (map startup_weight (ws_phases s')) < sum_list (map startup_weight (ws_phases s))"
  using assms(1)
proof (cases rule: startup_step_cases)
  case (Bind i left l)
  note sum = sum_list_map_update [OF Bind(2), of startup_weight]
  from Bind(4) show ?thesis
  proof (cases rule: after_socket_creation_cases)
    case (Open n)
    then have "sum_list (map startup_weight (ws_phases s')) \<le>
        sum_list (map startup_weight ((ws_phases s)[i := Waiting left]))"
      using weight_opened [of l "(ws_phases s)[i := Waiting left]" n] by (simp add: bind_socket_def)
    also have "\<dots> < sum_list (map startup_weight (ws_phases s))" using sum [of "Waiting left"] Bind(3) by simp
    finally show ?thesis .
  qed (use sum [of "Creating left"] sum [of "Waiting left"] Bind(3) in \<open>simp_all add: bind_socket_def\<close>)
next
  case (Drop i left)
  then show ?thesis using sum_list_map_update [OF Drop(2), of startup_weight "Creating left"] by simp
next
  case (Serve i)
  then show ?thesis using sum_list_map_update [OF Serve(2), of startup_weight Serving] by simp
qed (use assms(2) in auto)

fun is_failure :: "startup_event \<Rightarrow> bool" where
  "is_failure (BindFailed i) = True"
| "is_failure (DropFailed i) = True"
| "is_failure e = False"

lemma run_weight:
  assumes "startup_run pd es s = Some s'" and "\<not> list_ex is_failure es"
  shows "length es + sum_list (map startup_weight (ws_phases s')) \<le> sum_list (map startup_weight (ws_phases s))"
  using assms
proof (induction es arbitrary: s)
  case (Cons e es)
  then obtain s1 where s1: "startup_step pd e s = Some s1" "startup_run pd es s1 = Some s'"
    by (auto split: Option.bind_splits)
  have "sum_list (map startup_weight (ws_phases s1)) < sum_list (map startup_weight (ws_phases s))"
    by (rule weight_step [OF s1(1)]) (use Cons.prems(2) in auto)
  then show ?case using Cons.IH [OF s1(2)] Cons.prems(2) by simp
qed simp

subsection \<open>One socket for each worker\<close>

text \<open>Before the barrier opens, after it, and where there is nothing to wait for.\<close>

definition before_drop :: "privilege_dropper \<Rightarrow> workers_state \<Rightarrow> bool" where
  "before_drop pd s =
     (set (ws_phases s) \<subseteq> {Creating 1, Waiting 0} \<and> ws_arrived s = length (filter (\<lambda>p. p = Waiting 0) (ws_phases s)) \<and>
      ws_arrived s < pd_num_sockets pd \<and> \<not> ws_dropped s)"

definition after_drop :: "workers_state \<Rightarrow> bool" where
  "after_drop s = (set (ws_phases s) \<subseteq> {Creating 0, Dropping 0, Serving} \<and> (Dropping 0 \<in> set (ws_phases s) \<or> ws_dropped s))"

definition one_socket_inv :: "nat \<Rightarrow> privilege_dropper \<Rightarrow> workers_state \<Rightarrow> bool" where
  "one_socket_inv workers pd s =
     (length (ws_phases s) = workers \<and> pd_num_sockets pd = workers \<and>
      (if pd_drop_privileges pd then before_drop pd s \<or> after_drop s
       else set (ws_phases s) \<subseteq> {Creating 1, Creating 0, Serving} \<and> \<not> ws_dropped s))"

lemma count_waiting_update:
  assumes "i < length ps" and "ps ! i = Creating 1"
  shows "length (filter (\<lambda>p. p = Waiting 0) (ps[i := Waiting 0])) = Suc (length (filter (\<lambda>p. p = Waiting 0) ps))"
  using assms by (induction ps arbitrary: i) (auto simp: nth_Cons split: nat.splits)

lemma all_waiting:
  assumes "length (filter (\<lambda>p. p = Waiting 0) ps) = length ps"
  shows "set ps \<subseteq> {Waiting 0}"
  using assms using length_filter_less [of _ ps "\<lambda>p. p = Waiting 0"] by fastforce

lemma set_update_sub: "set xs \<subseteq> A \<Longrightarrow> x \<in> A \<Longrightarrow> set (xs[i := x]) \<subseteq> A"
  using set_update_subset_insert [of xs i x] by blast

lemma one_socket_step:
  assumes "startup_step pd e s = Some s'" and "\<not> is_failure e" and "one_socket_inv workers pd s"
  shows "one_socket_inv workers pd s'"
  using assms(1)
proof (cases rule: startup_step_cases)
  case (Bind i left l)
  have len: "length (ws_phases s) = workers" "pd_num_sockets pd = workers"
    using assms(3) by (auto simp: one_socket_inv_def)
  have "Creating (Suc left) \<in> set (ws_phases s)" using Bind(2,3) by (metis nth_mem)
  then have before: "pd_drop_privileges pd \<Longrightarrow> before_drop pd s"
    and free: "\<not> pd_drop_privileges pd \<Longrightarrow> set (ws_phases s) \<subseteq> {Creating 1, Creating 0, Serving}" and left: "left = 0"
    using assms(3) by (auto simp: one_socket_inv_def before_drop_def after_drop_def split: if_splits)
  note more = count_waiting_update [OF Bind(2), unfolded One_nat_def, OF Bind(3) [unfolded left]]
  from Bind(4) show ?thesis
  proof (cases rule: after_socket_creation_cases)
    case Free
    then show ?thesis using assms(3) len left set_update_sub [OF free, of "Creating 0" i]
      by (simp add: one_socket_inv_def bind_socket_def)
  next
    case Wait
    then have "before_drop pd s" by (rule_tac before)
    then show ?thesis using Wait len left more set_update_sub [of "ws_phases s" "{Creating 1, Waiting 0}" "Waiting 0" i]
      by (simp add: one_socket_inv_def bind_socket_def before_drop_def)
  next
    case (Open n)
    let ?ps = "(ws_phases s)[i := Waiting left]"
    have "before_drop pd s" using Open(1) by (rule before)
    then have "length (filter (\<lambda>p. p = Waiting 0) ?ps) = length ?ps"
      using more len left Open(2) length_filter_le [of "\<lambda>p. p = Waiting 0" ?ps]
      by (simp add: before_drop_def bind_socket_def)
    then have all: "set ?ps \<subseteq> {Waiting 0}" by (rule all_waiting)
    moreover have "?ps ! l \<in> set ?ps" using Open(3) by (intro nth_mem) (simp add: bind_socket_def)
    ultimately have n: "n = 0" using Open(4) by (auto simp: bind_socket_def)
    have "set (map released ?ps) \<subseteq> {Creating 0, Dropping 0, Serving}" using all by auto
    from set_update_sub [OF this, of "Dropping 0" l]
    have "set ((map released ?ps)[l := Dropping 0]) \<subseteq> {Creating 0, Dropping 0, Serving}" by simp
    moreover have "Dropping 0 \<in> set ((map released ?ps)[l := Dropping 0])"
      using Open(3) by (intro set_update_memI) (simp add: bind_socket_def)
    ultimately show ?thesis using Open len n by (simp add: one_socket_inv_def bind_socket_def after_drop_def)
  qed
next
  case (Fail i p)
  then show ?thesis using assms(2) by auto
next
  case (Drop i left)
  have "Dropping left \<in> set (ws_phases s)" using Drop(2,3) by (metis nth_mem)
  then have "pd_drop_privileges pd" "set (ws_phases s) \<subseteq> {Creating 0, Dropping 0, Serving}" "left = 0"
    using assms(3) by (auto simp: one_socket_inv_def before_drop_def after_drop_def split: if_splits)
  then show ?thesis using assms(3) Drop set_update_sub [of "ws_phases s" "{Creating 0, Dropping 0, Serving}" "Creating 0" i]
    by (simp add: one_socket_inv_def after_drop_def)
next
  case (Serve i)
  have here: "Creating 0 \<in> set (ws_phases s)" using Serve(2,3) by (metis nth_mem)
  show ?thesis
  proof (cases "pd_drop_privileges pd")
    case True
    then have after: "after_drop s" using assms(3) here by (auto simp: one_socket_inv_def before_drop_def)
    have "Dropping 0 \<in> set ((ws_phases s)[i := Serving])" if "Dropping 0 \<in> set (ws_phases s)"
      using that Serve(2,3) by (metis in_set_conv_nth length_list_update nth_list_update_neq startup_phase.distinct(3))
    then show ?thesis using assms(3) after True Serve set_update_sub [of "ws_phases s" "{Creating 0, Dropping 0, Serving}" Serving i]
      by (auto simp: one_socket_inv_def after_drop_def)
  next
    case False
    then show ?thesis using assms(3) Serve set_update_sub [of "ws_phases s" "{Creating 1, Creating 0, Serving}" Serving i]
      by (simp add: one_socket_inv_def)
  qed
qed

lemma one_socket_start:
  assumes "0 < workers"
  shows "one_socket_inv workers (privilege_dropper_new drops workers 1) (workers_start workers 1)"
proof -
  have "filter (\<lambda>p. p = Waiting 0) (replicate workers (Creating 1)) = []" by (simp add: filter_empty_conv)
  then show ?thesis using assms
    by (auto simp: one_socket_inv_def before_drop_def privilege_dropper_new_def workers_start_def)
qed

text \<open>A worker that can create a socket, drop the privileges or serve does not wait.\<close>

lemma can_bind:
  assumes "i < length (ws_phases s)" and "ws_phases s ! i = Creating (Suc left)"
  shows "startup_step pd (Bound i i) s \<noteq> None"
  using assms by (simp add: phase_of_def after_socket_creation_def barrier_wait_def bind_socket_def lead_def Let_def)

lemma stuck_phases:
  assumes "\<And>e. startup_step pd e s = None \<or> is_failure e" and "p \<in> set (ws_phases s)"
  shows "p \<noteq> Creating n" and "p \<noteq> Dropping n"
proof -
  obtain i where i: "i < length (ws_phases s)" "ws_phases s ! i = p" using assms(2) by (metis in_set_conv_nth)
  show "p \<noteq> Creating n"
    using i can_bind [of i s "n - 1" pd] assms(1) [of "Bound i i"] assms(1) [of "Serves i"]
    by (cases n) (auto simp: phase_of_def)
  show "p \<noteq> Dropping n" using i assms(1) [of "Dropped i"] by (auto simp: phase_of_def)
qed

text \<open>C39. Workers with one socket each start. As long as no system call fails the start takes at most three steps for
  each worker, in any order, and it stops only with every worker serving and the privileges dropped exactly
  where they are to be: no worker is left at the barrier.\<close>
theorem one_socket_workers_start:
  assumes "startup_run (privilege_dropper_new drops workers 1) es (workers_start workers 1) = Some s"
    and "\<not> list_ex is_failure es" and "0 < workers"
  shows "length es \<le> 3 * workers \<and>
    ((\<forall>e. startup_step (privilege_dropper_new drops workers 1) e s = None \<or> is_failure e) \<longrightarrow>
      set (ws_phases s) = {Serving} \<and> ws_dropped s = drops)"
proof -
  let ?pd = "privilege_dropper_new drops workers 1"
  have inv: "one_socket_inv workers ?pd s"
    using assms(1) one_socket_start [OF assms(3)]
    by (rule run_invariant) (use assms(2) in \<open>auto simp: list_ex_iff intro: one_socket_step\<close>)
  have "set (ws_phases s) = {Serving} \<and> ws_dropped s = drops"
    if "\<forall>e. startup_step ?pd e s = None \<or> is_failure e"
  proof -
    note stuck = stuck_phases [of ?pd s, OF that [rule_format]]
    have serving: "set (ws_phases s) = {Serving}" if "set (ws_phases s) \<subseteq> {Creating 1, Creating 0, Dropping 0, Serving}"
    proof -
      have "\<forall>p\<in>set (ws_phases s). p = Serving" using that stuck by blast
      moreover have "ws_phases s \<noteq> []" using inv assms(3) by (auto simp: one_socket_inv_def)
      ultimately show ?thesis by (cases "ws_phases s") auto
    qed
    have "\<not> before_drop ?pd s"
    proof
      assume b: "before_drop ?pd s"
      then have "set (ws_phases s) \<subseteq> {Creating 1, Waiting 0}" by (simp add: before_drop_def)
      then have "\<forall>p\<in>set (ws_phases s). p = Waiting 0" using stuck(1) by blast
      then have "filter (\<lambda>p. p = Waiting 0) (ws_phases s) = ws_phases s" by (auto simp: filter_id_conv)
      then show False using b inv unfolding before_drop_def one_socket_inv_def by auto
    qed
    then have phases: "set (ws_phases s) \<subseteq> {Creating 1, Creating 0, Dropping 0, Serving}"
      and "drops = (ws_dropped s \<or> Dropping 0 \<in> set (ws_phases s))"
      using inv stuck(2) by (auto simp: one_socket_inv_def after_drop_def privilege_dropper_new_def split: if_splits)
    moreover have "Dropping 0 \<notin> set (ws_phases s)" using stuck(2) by blast
    ultimately show ?thesis using serving [OF phases] by simp
  qed
  then show ?thesis
    using run_weight [OF assms(1,2)] by (auto simp: workers_start_def sum_list_replicate)
qed

subsection \<open>Two sockets for each worker\<close>

definition two_socket_inv :: "nat \<Rightarrow> workers_state \<Rightarrow> bool" where
  "two_socket_inv workers s =
     (set (ws_phases s) \<subseteq> {Creating 2, Waiting 1, StartFailed} \<and> \<not> ws_dropped s \<and>
      ws_arrived s + sum_list (map (\<lambda>p. if p = Creating 2 then 1 else 0) (ws_phases s)) \<le> workers)"

lemma two_socket_step:
  assumes "startup_step (privilege_dropper_new True workers 2) e s = Some s'" and "two_socket_inv workers s"
  shows "two_socket_inv workers s'"
  using assms(1)
proof (cases rule: startup_step_cases)
  case (Bind i left l)
  have "ws_phases s ! i \<in> {Creating 2, Waiting 1, StartFailed}"
    using Bind(2) assms(2) nth_mem unfolding two_socket_inv_def by blast
  then have left: "left = 1" using Bind(3) by simp
  have sub: "set ((ws_phases s)[i := Waiting 1]) \<subseteq> {Creating 2, Waiting 1, StartFailed}"
    by (rule set_update_sub) (use assms(2) in \<open>simp_all add: two_socket_inv_def\<close>)
  note sum = sum_list_map_update [OF Bind(2), of "\<lambda>p. if p = Creating 2 then 1 else 0" "Waiting 1"]
  have next_arrived: "ws_arrived s + 1 + sum_list (map (\<lambda>p. if p = Creating 2 then 1 else 0) ((ws_phases s)[i := Waiting 1])) \<le> workers"
    using sum Bind(3) left assms(2) by (simp add: two_socket_inv_def numeral_2_eq_2)
  from Bind(4) show ?thesis
  proof (cases rule: after_socket_creation_cases)
    case Wait
    then show ?thesis using sub next_arrived left assms(2)
      by (simp add: two_socket_inv_def bind_socket_def)
  qed (use next_arrived in \<open>auto simp: privilege_dropper_new_def bind_socket_def\<close>)
next
  case (Fail i p)
  have "set ((ws_phases s)[i := StartFailed]) \<subseteq> {Creating 2, Waiting 1, StartFailed}"
    by (rule set_update_sub) (use assms(2) in \<open>simp_all add: two_socket_inv_def\<close>)
  then show ?thesis
    using sum_list_map_update [OF Fail(2), of "\<lambda>p. if p = Creating 2 then 1 else 0" StartFailed] assms(2) Fail(4)
    by (simp add: two_socket_inv_def)
next
  case (Drop i left)
  then show ?thesis using assms(2) nth_mem [OF Drop(2)] by (auto simp: two_socket_inv_def)
next
  case (Serve i)
  then show ?thesis using assms(2) nth_mem [OF Serve(2)] by (auto simp: two_socket_inv_def)
qed

text \<open>C40. A tracker that is to drop its privileges and uses both address families never starts. Each worker waits at the
  barrier after its first socket for the second sockets of all workers, its own included: in no run does a
  worker get to serve, and the privileges are never dropped.\<close>
theorem dual_stack_drop_never_starts:
  assumes "0 < workers"
    and "startup_run (privilege_dropper_new True workers (num_sockets_per_worker True True)) es
      (workers_start workers (num_sockets_per_worker True True)) = Some s"
  shows "Serving \<notin> set (ws_phases s) \<and> \<not> ws_dropped s \<and> length (ws_phases s) = workers"
proof -
  have two: "num_sockets_per_worker True True = 2" by (simp add: num_sockets_per_worker_def)
  have "two_socket_inv workers (workers_start workers 2)"
    by (auto simp: two_socket_inv_def workers_start_def sum_list_replicate)
  with assms(2) have "two_socket_inv workers s"
    unfolding two by (rule run_invariant) (rule two_socket_step)
  moreover have "length (ws_phases s) = workers"
    using assms(2) by (rule run_invariant) (auto simp: workers_start_def elim!: startup_step_cases
      after_socket_creation_cases simp: bind_socket_def)
  ultimately show ?thesis by (auto simp: two_socket_inv_def)
qed

subsection \<open>Starts\<close>

lemma sockets_are_bound_with_privileges_witness:
  "\<exists>s. startup_run (privilege_dropper_new True 2 1) [Bound 1 0, Bound 0 1, Dropped 1] (workers_start 2 1) = Some s \<and>
    ws_dropped s \<and> length (ws_binds s) = 2"
proof -
  define pd where "pd = privilege_dropper_new True 2 1"
  obtain s where s: "startup_run pd [Bound 1 0, Bound 0 1, Dropped 1] (workers_start 2 1) = Some s" "ws_dropped s"
    by (simp add: pd_def privilege_dropper_new_def workers_start_def after_socket_creation_def barrier_wait_def
        bind_socket_def lead_def phase_of_def Let_def numeral_2_eq_2)
  then show ?thesis using sockets_are_bound_with_privileges [OF s(1) [unfolded pd_def]] unfolding pd_def
    by (intro exI [of _ s]) simp
qed

lemma one_socket_workers_start_witness:
  "\<exists>s. startup_run (privilege_dropper_new True 2 1) [Bound 1 0, Bound 0 1, Serves 0, Dropped 1, Serves 1]
      (workers_start 2 1) = Some s \<and> set (ws_phases s) = {Serving} \<and> ws_dropped s"
proof -
  let ?es = "[Bound 1 0, Bound 0 1, Serves 0, Dropped 1, Serves 1]"
  obtain s where s: "startup_run (privilege_dropper_new True 2 1) ?es (workers_start 2 1) = Some s"
      "ws_phases s = [Serving, Serving]"
    by (simp add: privilege_dropper_new_def workers_start_def after_socket_creation_def barrier_wait_def
        bind_socket_def lead_def phase_of_def Let_def numeral_2_eq_2)
  have "startup_step (privilege_dropper_new True 2 1) e s = None \<or> is_failure e" for e
    by (cases e) (auto simp: phase_of_def s(2) nth_Cons split: nat.splits)
  then show ?thesis using one_socket_workers_start [OF s(1)] s(1) by auto
qed

lemma dual_stack_drop_never_starts_witness:
  "\<exists>s. startup_run (privilege_dropper_new True 1 2) [Bound 0 0] (workers_start 1 2) = Some s \<and>
    ws_phases s = [Waiting 1] \<and> Serving \<notin> set (ws_phases s) \<and> \<not> ws_dropped s"
proof -
  obtain s where s: "startup_run (privilege_dropper_new True 1 2) [Bound 0 0] (workers_start 1 2) = Some s"
      "ws_phases s = [Waiting 1]"
    by (simp add: privilege_dropper_new_def workers_start_def after_socket_creation_def barrier_wait_def
        bind_socket_def phase_of_def Let_def numeral_2_eq_2)
  have two: "num_sockets_per_worker True True = 2" by (simp add: num_sockets_per_worker_def)
  show ?thesis using dual_stack_drop_never_starts [OF zero_less_one, of "[Bound 0 0]" s, unfolded two, OF s(1)] s
    by (intro exI [of _ s]) simp
qed

end
