(* ===== verification/Cpu_Pinning.thy ===== *)
theory Cpu_Pinning
  imports Prelude
begin

text \<open>
  \<open>crates/common/src/cpu_pinning.rs\<close>: the processor core a worker is pinned to. Sums of the settings wrap,
  as a \<open>usize\<close> does in a release build. The topology and the pinning itself are the hwloc library's.
\<close>

datatype cpu_pinning_direction = Ascending | Descending

record cpu_pinning_config =
  cp_active :: bool
  cp_direction :: cpu_pinning_direction
  cp_core_offset :: u64

definition cpu_pinning_config_default :: "cpu_pinning_direction \<Rightarrow> cpu_pinning_config" where
  "cpu_pinning_config_default direction = \<lparr>cp_active = False, cp_direction = direction, cp_core_offset = 0\<rparr>"

datatype worker_index = SocketWorker u64 | SwarmWorker u64 | Util

definition get_core_index :: "worker_index \<Rightarrow> cpu_pinning_config \<Rightarrow> u64 \<Rightarrow> u64 \<Rightarrow> u64 \<Rightarrow> u64" where
  "get_core_index w cf socket_workers swarm_workers num_cores =
     (let ascending_index = (case w of
            SocketWorker index \<Rightarrow> cp_core_offset cf + index
          | SwarmWorker index \<Rightarrow> cp_core_offset cf + socket_workers + index
          | Util \<Rightarrow> cp_core_offset cf + socket_workers + swarm_workers)
      in if num_cores = 0 then 0
         else
           let max_core_index = num_cores - 1;
               ascending_index' = min ascending_index max_core_index
           in (case cp_direction cf of
                 Ascending \<Rightarrow> ascending_index'
               | Descending \<Rightarrow> max_core_index - ascending_index'))"

text \<open>The core a worker is pinned to, given the cores hwloc lists; \<open>None\<close> where it is not pinned.\<close>

definition pin_current_if_configured_to ::
  "cpu_pinning_config \<Rightarrow> u64 \<Rightarrow> u64 \<Rightarrow> worker_index \<Rightarrow> 'core list option \<Rightarrow> 'core option" where
  "pin_current_if_configured_to cf socket_workers swarm_workers w core_cpu_sets =
     (if cp_active cf then
        (case core_cpu_sets of
           None \<Rightarrow> None
         | Some cores \<Rightarrow>
             if cores = [] then None
             else
               (let core_index = unat (get_core_index w cf socket_workers swarm_workers (word_of_nat (length cores)))
                in if core_index < length cores then Some (cores ! core_index) else None))
      else None)"

subsection \<open>Workers and cores\<close>

text \<open>The position of a worker among all of them.\<close>

fun worker_rank :: "u64 \<Rightarrow> u64 \<Rightarrow> worker_index \<Rightarrow> nat" where
  "worker_rank socket_workers swarm_workers (SocketWorker i) = unat i"
| "worker_rank socket_workers swarm_workers (SwarmWorker i) = unat socket_workers + unat i"
| "worker_rank socket_workers swarm_workers Util = unat socket_workers + unat swarm_workers"

definition worker_of :: "u64 \<Rightarrow> u64 \<Rightarrow> worker_index \<Rightarrow> bool" where
  "worker_of socket_workers swarm_workers w = (case w of
     SocketWorker i \<Rightarrow> i < socket_workers | SwarmWorker i \<Rightarrow> i < swarm_workers | Util \<Rightarrow> True)"

lemma worker_rank_inj:
  assumes "worker_of m n v" and "worker_of m n w" and "worker_rank m n v = worker_rank m n w"
  shows "v = w"
  using assms by (cases v; cases w) (auto simp: worker_of_def word_less_nat_alt intro: unsigned_word_eqI)

lemma core_index_rank:
  assumes "worker_of m n w" and "unat (cp_core_offset cf) + unat m + unat n < 2 ^ 64" and "num_cores \<noteq> 0"
  shows "unat (get_core_index w cf m n num_cores) =
    (let i = min (unat (cp_core_offset cf) + worker_rank m n w) (unat num_cores - 1)
     in case cp_direction cf of Ascending \<Rightarrow> i | Descending \<Rightarrow> unat num_cores - 1 - i)"
proof -
  have one: "unat (num_cores - 1) = unat num_cores - 1" using assms(3) by (simp add: unat_minus_one)
  have mins: "unat (min a b) = min (unat a) (unat b)" for a b :: u64
    by (simp add: min_def word_le_nat_alt)
  have sum: "unat (cp_core_offset cf + x) = unat (cp_core_offset cf) + unat x"
    if "unat (cp_core_offset cf) + unat x < 2 ^ 64" for x
    using that by (simp add: unat_add_lem [THEN iffD1])
  have sum3: "unat (cp_core_offset cf + m + x) = unat (cp_core_offset cf) + unat m + unat x"
    if "unat (cp_core_offset cf) + unat m + unat x < 2 ^ 64" for x
  proof -
    have "unat (cp_core_offset cf + m) = unat (cp_core_offset cf) + unat m" using that by (intro sum) simp
    then show ?thesis using that by (simp add: unat_add_lem [THEN iffD1])
  qed
  have sub: "unat (num_cores - 1 - min a (num_cores - 1)) = unat num_cores - 1 - min (unat a) (unat num_cores - 1)" for a
    by (subst unat_sub) (simp_all add: one mins)
  show ?thesis
    using assms sum sum3 unfolding get_core_index_def Let_def
    by (cases w; cases "cp_direction cf") (auto simp: one mins sub worker_of_def word_less_nat_alt add.assoc)
qed

text \<open>Workers get cores of their own. Where the cores suffice for the workers after the offset, no two workers
  of a tracker are pinned to the same core, in either direction; and whatever the settings, a worker that
  is pinned is pinned to a core that exists.\<close>
theorem workers_get_their_own_cores:
  assumes "worker_of m n v" and "worker_of m n w" and "v \<noteq> w"
    and "unat (cp_core_offset cf) + unat m + unat n < unat num_cores"
  shows "get_core_index v cf m n num_cores \<noteq> get_core_index w cf m n num_cores \<and>
    get_core_index v cf m n num_cores < num_cores"
proof -
  have nz: "num_cores \<noteq> 0" using assms(4) by auto
  have small: "unat (cp_core_offset cf) + unat m + unat n < 2 ^ 64"
    using assms(4) unsigned_less [of num_cores, where ?'a = nat] by simp
  have rank: "worker_rank m n u \<le> unat m + unat n" if "worker_of m n u" for u
    using that by (cases u) (auto simp: worker_of_def word_less_nat_alt)
  have core: "unat (get_core_index u cf m n num_cores) =
      (case cp_direction cf of Ascending \<Rightarrow> unat (cp_core_offset cf) + worker_rank m n u
       | Descending \<Rightarrow> unat num_cores - 1 - (unat (cp_core_offset cf) + worker_rank m n u))"
    if "worker_of m n u" for u
  proof -
    have "min (unat (cp_core_offset cf) + worker_rank m n u) (unat num_cores - 1) = unat (cp_core_offset cf) + worker_rank m n u"
      using rank [OF that] assms(4) by (intro min_absorb1) linarith
    then show ?thesis using core_index_rank [OF that small nz] by (simp add: Let_def)
  qed
  have different: "worker_rank m n v \<noteq> worker_rank m n w" using worker_rank_inj assms(1-3) by blast
  note bounds = rank [OF assms(1)] rank [OF assms(2)] assms(4)
  have "unat (get_core_index v cf m n num_cores) \<noteq> unat (get_core_index w cf m n num_cores)"
    using different bounds unfolding core [OF assms(1)] core [OF assms(2)]
    by (cases "cp_direction cf") auto
  moreover have "unat (get_core_index v cf m n num_cores) < unat num_cores"
    using bounds unfolding core [OF assms(1)] by (cases "cp_direction cf") auto
  ultimately show ?thesis by (auto simp: word_less_nat_alt)
qed

lemma workers_get_their_own_cores_witness:
  "get_core_index (SocketWorker 1) (cpu_pinning_config_default Descending) 2 1 8 = 6 \<and>
   get_core_index (SocketWorker 1) (cpu_pinning_config_default Descending) 2 1 8 \<noteq>
   get_core_index (SwarmWorker 0) (cpu_pinning_config_default Descending) 2 1 8"
  using workers_get_their_own_cores [of 2 1 "SocketWorker 1" "SwarmWorker 0" "cpu_pinning_config_default Descending" 8]
  by (simp add: worker_of_def cpu_pinning_config_default_def get_core_index_def)

end
