(* ===== verification/Cli.thy ===== *)
theory Cli
  imports List_File
begin

text \<open>
  \<open>crates/common/src/cli.rs\<close> and \<open>crates/combined_binary/src\<close> (\<open>main.rs\<close>, \<open>multiconfig.rs\<close>): the command
  line, and how the combined binary picks a protocol and its section of a merged configuration file. The
  TOML crate is an argument: its parser, its writer, and for each configuration type what it makes of a
  text. Printing is not modelled, only what is printed; a file is the answer of the file system.
\<close>

subsection \<open>Options\<close>

record cli_options =
  co_config_file :: "bytes option"
  co_print_config :: bool
  co_print_parsed_config :: bool
  co_print_version :: bool

definition cli_options_default :: cli_options where
  "cli_options_default = \<lparr>co_config_file = None, co_print_config = False, co_print_parsed_config = False,
     co_print_version = False\<rparr>"

text \<open>An error is a message, or \<open>None\<close> where help was asked for.\<close>

fun parse_options :: "bytes list \<Rightarrow> cli_options \<Rightarrow> bytes option + cli_options" where
  "parse_options [] options = Inr options"
| "parse_options (arg # args) options =
     (if arg = str ''-c'' \<or> arg = str ''--config-file'' then
        (case args of
           path # args' \<Rightarrow> parse_options args' (options\<lparr>co_config_file := Some path\<rparr>)
         | [] \<Rightarrow> Inl (Some (str ''No config file path given'')))
      else if arg = str ''-p'' \<or> arg = str ''--print-config'' then
        parse_options args (options\<lparr>co_print_config := True\<rparr>)
      else if arg = str ''-P'' then parse_options args (options\<lparr>co_print_parsed_config := True\<rparr>)
      else if arg = str ''-v'' \<or> arg = str ''--version'' then
        parse_options args (options\<lparr>co_print_version := True\<rparr>)
      else if arg = str ''-h'' \<or> arg = str ''--help'' then Inl None
      else if arg = [] then parse_options args options
      else Inl (Some (str ''Unrecognized argument'')))"

definition parse_args :: "bytes list \<Rightarrow> bytes option + cli_options" where
  "parse_args args = parse_options args cli_options_default"

subsection \<open>Configuration files\<close>

text \<open>Lossy decoding, and a byte order mark is dropped.\<close>

definition read_config_text :: "bytes \<Rightarrow> bytes" where
  "read_config_text bs =
     (let data = from_utf8_lossy bs; bom = [0xEF, 0xBB, 0xBF]
      in if starts_with data bom then drop 3 data else data)"

datatype config_file_error = ConfigUnreadable io_error | ConfigUnparsable

definition config_from_toml_file ::
  "(bytes \<Rightarrow> 'c option) \<Rightarrow> io_error + bytes \<Rightarrow> config_file_error + 'c" where
  "config_from_toml_file from_str file_bytes =
     and_then (map_err ConfigUnreadable file_bytes) (\<lambda>bs.
       ok_or ConfigUnparsable (from_str (read_config_text bs)))"

text \<open>
  What becomes of a process: what it prints, or the configuration it runs with and whether that is
  printed. \<open>start_logger\<close> fails only where a logger is set already; whether it does is an argument.
\<close>

datatype 'c cli_outcome =
    HelpPrinted "bytes option"
  | VersionPrinted
  | DefaultConfigPrinted
  | ConfigFailed config_file_error
  | LoggerFailed
  | AppRuns 'c bool

record 'c cli_app =
  ca_from_str :: "bytes \<Rightarrow> 'c option"
  ca_default :: 'c
  ca_has_log_level :: "'c \<Rightarrow> bool"

definition run_app_with_config :: "'c cli_app \<Rightarrow> bool \<Rightarrow> 'c \<Rightarrow> bool \<Rightarrow> 'c cli_outcome" where
  "run_app_with_config app logger_ok config print_parsed_config =
     (if ca_has_log_level app config \<and> \<not> logger_ok then LoggerFailed
      else AppRuns config print_parsed_config)"

definition run_options ::
  "'c cli_app \<Rightarrow> bool \<Rightarrow> (bytes \<Rightarrow> io_error + bytes) \<Rightarrow> cli_options \<Rightarrow> 'c cli_outcome" where
  "run_options app logger_ok read_file options =
     (if co_print_version options then VersionPrinted
      else if co_print_config options then DefaultConfigPrinted
      else
        (case (case co_config_file options of
                 Some path \<Rightarrow> config_from_toml_file (ca_from_str app) (read_file path)
               | None \<Rightarrow> Inr (ca_default app)) of
           Inl e \<Rightarrow> ConfigFailed e
         | Inr config \<Rightarrow> run_app_with_config app logger_ok config (co_print_parsed_config options)))"

definition run_inner ::
  "'c cli_app \<Rightarrow> bool \<Rightarrow> (bytes \<Rightarrow> io_error + bytes) \<Rightarrow> bytes list \<Rightarrow> cli_options option \<Rightarrow> 'c cli_outcome" where
  "run_inner app logger_ok read_file args options =
     (case options of
        Some options \<Rightarrow> run_options app logger_ok read_file options
      | None \<Rightarrow>
          (case parse_args args of
             Inl e \<Rightarrow> HelpPrinted e
           | Inr options \<Rightarrow> run_options app logger_ok read_file options))"

subsection \<open>Merged configuration files\<close>

text \<open>A TOML document, as far as it is looked into: tables, and everything else as a text.\<close>

datatype toml_value = TomlTable "(bytes \<times> toml_value) list" | TomlOther bytes

fun as_table :: "toml_value \<Rightarrow> (bytes \<times> toml_value) list option" where
  "as_table (TomlTable es) = Some es"
| "as_table (TomlOther b) = None"

definition PROTOCOLS :: "bytes list" where
  "PROTOCOLS = [str ''udp'', str ''http'', str ''ws'']"

definition has_section :: "toml_value \<Rightarrow> bytes \<Rightarrow> bool" where
  "has_section v protocol = (case as_table v of Some es \<Rightarrow> protocol \<in> fst ` set es | None \<Rightarrow> False)"

definition is_merged :: "toml_value \<Rightarrow> bool" where
  "is_merged v = list_ex (has_section v) PROTOCOLS"

datatype resolve_error =
    ResolveUnreadable io_error | ResolveUnparsable | NotATable | NoSection bytes | SectionNotATable bytes

datatype resolved = MergedSection toml_value | LegacyFile

definition protocol_section :: "toml_value \<Rightarrow> bytes \<Rightarrow> resolve_error + toml_value" where
  "protocol_section v protocol =
     and_then (ok_or (SectionNotATable protocol)
       (Option.bind (as_table v) (\<lambda>es. Option.bind (map_of es protocol) as_table))) (\<lambda>t. Inr (TomlTable t))"

definition resolve_config ::
  "(bytes \<Rightarrow> toml_value option) \<Rightarrow> io_error + bytes \<Rightarrow> bytes \<Rightarrow> resolve_error + resolved" where
  "resolve_config parse_toml file_bytes protocol =
     and_then (map_err ResolveUnreadable file_bytes) (\<lambda>bs.
     and_then (ok_or ResolveUnparsable (parse_toml (read_config_text bs))) (\<lambda>v.
       if as_table v = None then Inl NotATable
       else if \<not> is_merged v then Inr LegacyFile
       else if \<not> has_section v protocol then Inl (NoSection protocol)
       else and_then (protocol_section v protocol) (\<lambda>t. Inr (MergedSection t))))"

subsection \<open>The combined binary\<close>

text \<open>\<open>enabled\<close> are the protocols compiled in.\<close>

datatype combined_error =
    UsageHelp
  | CliError bytes
  | NoProtocolGiven
  | UnavailableProtocol bytes
  | ResolveFailed resolve_error

datatype combined_outcome =
    CombinedVersion
  | CombinedDefaultConfig bytes
  | CombinedTemplate
  | RunSection bytes toml_value bool
  | RunRegular bytes cli_options

definition cli_error :: "bytes option \<Rightarrow> combined_error" where
  "cli_error e = (case e of None \<Rightarrow> UsageHelp | Some m \<Rightarrow> CliError m)"

definition split_protocol :: "bytes list \<Rightarrow> bytes option \<times> bytes list" where
  "split_protocol args =
     (case args of
        arg # rest \<Rightarrow> if \<not> starts_with arg (str ''-'') then (Some arg, rest) else (None, args)
      | [] \<Rightarrow> (None, []))"

definition combined_run ::
  "(bytes \<Rightarrow> toml_value option) \<Rightarrow> (bytes \<Rightarrow> io_error + bytes) \<Rightarrow> bytes list \<Rightarrow> bytes list \<Rightarrow>
   combined_error + combined_outcome" where
  "combined_run parse_toml read_file enabled args =
     (let (cli_protocol, rest) = split_protocol args
      in and_then (map_err cli_error (parse_args rest)) (\<lambda>options.
         if co_print_version options then Inr CombinedVersion
         else if co_print_config options then
           (case cli_protocol of
              Some protocol \<Rightarrow>
                if protocol \<in> set enabled then Inr (CombinedDefaultConfig protocol)
                else Inl (UnavailableProtocol protocol)
            | None \<Rightarrow> Inr CombinedTemplate)
         else
           (case cli_protocol of
              None \<Rightarrow> Inl (if co_config_file options = None then UsageHelp else NoProtocolGiven)
            | Some protocol \<Rightarrow>
                if protocol \<notin> set enabled then Inl (UnavailableProtocol protocol)
                else
                  (case co_config_file options of
                     None \<Rightarrow> Inr (RunRegular protocol options)
                   | Some path \<Rightarrow>
                       and_then (map_err ResolveFailed (resolve_config parse_toml (read_file path) protocol)) (\<lambda>r.
                         case r of
                           MergedSection v \<Rightarrow> Inr (RunSection protocol v (co_print_parsed_config options))
                         | LegacyFile \<Rightarrow> Inr (RunRegular protocol options))))))"

text \<open>The exit code, where the process ends without running a tracker.\<close>

definition exit_code :: "combined_error \<Rightarrow> nat" where
  "exit_code e = (if e = UsageHelp then 0 else 1)"

text \<open>Running a protocol: a section is written as a text again and read as its configuration.\<close>

datatype 'c dispatch_outcome =
    SectionUnwritable | SectionUnparsable | Dispatched "'c cli_outcome"

definition dispatch_section ::
  "(toml_value \<Rightarrow> bytes option) \<Rightarrow> 'c cli_app \<Rightarrow> bool \<Rightarrow> toml_value \<Rightarrow> bool \<Rightarrow> 'c dispatch_outcome" where
  "dispatch_section to_toml app logger_ok v print_parsed_config =
     (case to_toml v of
        None \<Rightarrow> SectionUnwritable
      | Some text \<Rightarrow>
          (case ca_from_str app text of
             None \<Rightarrow> SectionUnparsable
           | Some config \<Rightarrow> Dispatched (run_app_with_config app logger_ok config print_parsed_config)))"

definition dispatch_regular ::
  "'c cli_app \<Rightarrow> bool \<Rightarrow> (bytes \<Rightarrow> io_error + bytes) \<Rightarrow> cli_options \<Rightarrow> 'c dispatch_outcome" where
  "dispatch_regular app logger_ok read_file options =
     Dispatched (run_inner app logger_ok read_file [] (Some options))"

subsection \<open>The template\<close>

text \<open>One protocol's part: its default configuration with the protocol before the name of every table.\<close>

definition apply_override :: "(bytes \<times> bytes) list \<Rightarrow> bytes \<Rightarrow> bytes" where
  "apply_override overrides line =
     (case filter (\<lambda>(from, to). trim_end_matches white_space line = from) overrides of
        (from, to) # _ \<Rightarrow> to
      | [] \<Rightarrow> line)"

definition section_line :: "bytes \<Rightarrow> (bytes \<times> bytes) list \<Rightarrow> bytes \<Rightarrow> bytes" where
  "section_line protocol overrides line0 =
     (let line = apply_override overrides line0
      in if starts_with line (str ''['')
         then str ''['' @ protocol @ str ''.'' @ drop 1 line @ [10]
         else line @ [10])"

definition template_section :: "bytes \<Rightarrow> bytes \<Rightarrow> (bytes \<times> bytes) list \<Rightarrow> bytes" where
  "template_section protocol body overrides =
     str ''['' @ protocol @ str '']'' @ [10] @ concat (map (section_line protocol overrides) (lines body))"

definition merge_blocks :: "bytes \<Rightarrow> (bytes \<times> bytes) list \<Rightarrow> bytes" where
  "merge_blocks header blocks =
     header @ concat (map (\<lambda>(_, block). [10] @ trim_end_matches white_space block @ [10]) blocks)"

text \<open>\<open>name = "value"\<close>, and the addresses that let the three protocols run side by side.\<close>

definition setting :: "string \<Rightarrow> string \<Rightarrow> bytes" where
  "setting name v = str name @ str '' = '' @ [34] @ str v @ [34]"

definition template_overrides :: "bytes \<Rightarrow> (bytes \<times> bytes) list" where
  "template_overrides protocol =
     (if protocol = str ''udp'' then
        [(setting ''address_ipv4'' ''0.0.0.0:3000'', setting ''address_ipv4'' ''0.0.0.0:6969''),
         (setting ''address_ipv6'' ''[::]:3000'', setting ''address_ipv6'' ''[::]:6969''),
         (setting ''prometheus_endpoint_address'' ''0.0.0.0:9000'',
          setting ''prometheus_endpoint_address'' ''127.0.0.1:9001'')]
      else if protocol = str ''http'' then
        [(setting ''address_ipv4'' ''0.0.0.0:3000'', setting ''address_ipv4'' ''0.0.0.0:8080''),
         (setting ''address_ipv6'' ''[::]:3000'', setting ''address_ipv6'' ''[::]:8080''),
         (setting ''prometheus_endpoint_address'' ''0.0.0.0:9000'',
          setting ''prometheus_endpoint_address'' ''127.0.0.1:9002'')]
      else
        [(setting ''address'' ''0.0.0.0:3000'', setting ''address'' ''0.0.0.0:8081''),
         (setting ''prometheus_endpoint_address'' ''0.0.0.0:9000'',
          setting ''prometheus_endpoint_address'' ''127.0.0.1:9003'')])"

definition merged_template :: "bytes \<Rightarrow> (bytes \<Rightarrow> bytes) \<Rightarrow> bytes list \<Rightarrow> bytes" where
  "merged_template header default_config enabled =
     merge_blocks header (map (\<lambda>p. (p, template_section p (default_config p) (template_overrides p))) enabled)"

end
