(* ===== verification/Cli_Spec.thy ===== *)
theory Cli_Spec
  imports Cli
begin

text \<open>
  What the command line promises: options written out are parsed back; the combined binary runs the
  protocol named first, with a configuration that depends on no other protocol's section; and every line
  of a protocol's default configuration stands in the template under the table of that protocol.
\<close>

subsection \<open>Options\<close>

definition option_args :: "cli_options \<Rightarrow> bytes list" where
  "option_args o' =
     (case co_config_file o' of Some path \<Rightarrow> [str ''-c'', path] | None \<Rightarrow> []) @
     (if co_print_config o' then [str ''-p''] else []) @
     (if co_print_parsed_config o' then [str ''-P''] else []) @
     (if co_print_version o' then [str ''-v''] else [])"

text \<open>Options are parsed back: the arguments that stand for a set of options yield them, whatever the path of the
  configuration file looks like.\<close>
theorem parse_args_roundtrip: "parse_args (option_args o') = Inr o'"
  by (cases o') (auto simp: parse_args_def option_args_def cli_options_default_def str_def split: option.splits)

subsection \<open>Sections\<close>

lemma split_protocol_Some: "split_protocol args = (Some p, rest) \<Longrightarrow> args = p # rest"
  by (auto simp: split_protocol_def split: list.splits if_splits)

lemma has_section_map_of: "has_section (TomlTable es) p \<longleftrightarrow> map_of es p \<noteq> None"
  by (force simp: has_section_def map_of_eq_None_iff)

lemma resolved_section:
  assumes "resolve_config parse_toml (Inr bs) p = Inr (MergedSection v)"
  shows "\<exists>es t. parse_toml (read_config_text bs) = Some (TomlTable es) \<and> map_of es p = Some (TomlTable t) \<and> v = TomlTable t"
proof -
  obtain d where d: "parse_toml (read_config_text bs) = Some d" "as_table d \<noteq> None"
    using assms by (auto simp: resolve_config_def ok_or_def split: option.splits if_splits)
  then obtain es where es: "d = TomlTable es" by (cases d) auto
  then have "protocol_section d p = Inr v"
    using assms d by (auto simp: resolve_config_def ok_or_def and_then_Inr split: if_splits)
  then obtain t where "Option.bind (map_of es p) as_table = Some t" "v = TomlTable t"
    by (auto simp: protocol_section_def es ok_or_def and_then_Inr split: option.splits)
  moreover from this obtain w where "map_of es p = Some w" "as_table w = Some t" by (auto simp: bind_eq_Some_conv)
  ultimately show ?thesis using d(1) es by (cases w) auto
qed

text \<open>The command line decides the protocol, and its section the configuration. Where the combined binary runs a
  section, the protocol is the first argument and one the binary supports, and the section is the table of
  that name in the file.\<close>
theorem section_of_the_protocol_runs:
  assumes "combined_run parse_toml read_file enabled args = Inr (RunSection p v b)"
  shows "\<exists>rest options path bs es t. args = p # rest \<and> p \<in> set enabled \<and> parse_args rest = Inr options \<and>
    co_config_file options = Some path \<and> read_file path = Inr bs \<and>
    parse_toml (read_config_text bs) = Some (TomlTable es) \<and> map_of es p = Some (TomlTable t) \<and> v = TomlTable t"
proof -
  obtain protocol rest where sp: "split_protocol args = (protocol, rest)" by fastforce
  obtain options where o': "parse_args rest = Inr options"
    using assms sp by (cases "parse_args rest") (simp_all add: combined_run_def)
  have run: "\<not> co_print_version options" "\<not> co_print_config options"
    using assms sp o' by (auto simp: combined_run_def split: if_splits option.splits)
  obtain q path where q: "protocol = Some q" "co_config_file options = Some path" "q \<in> set enabled"
    using assms sp o' run by (auto simp: combined_run_def split: if_splits option.splits)
  have "and_then (map_err ResolveFailed (resolve_config parse_toml (read_file path) q)) (\<lambda>r.
      case r of MergedSection v \<Rightarrow> Inr (RunSection q v (co_print_parsed_config options))
      | LegacyFile \<Rightarrow> Inr (RunRegular q options)) = Inr (RunSection p v b)"
    using assms sp o' run q by (simp add: combined_run_def)
  then have "q = p \<and> resolve_config parse_toml (read_file path) q = Inr (MergedSection v)"
    by (cases "resolve_config parse_toml (read_file path) q") (auto split: resolved.splits)
  then have "protocol = Some p \<and> p \<in> set enabled \<and> (\<exists>path. co_config_file options = Some path \<and>
      resolve_config parse_toml (read_file path) p = Inr (MergedSection v))"
    using q by blast
  then obtain path where p: "protocol = Some p" "p \<in> set enabled" "co_config_file options = Some path"
      "resolve_config parse_toml (read_file path) p = Inr (MergedSection v)" by blast
  then obtain bs where bs: "read_file path = Inr bs" by (cases "read_file path") (auto simp: resolve_config_def)
  show ?thesis
    using split_protocol_Some [of args p rest] sp p o' bs resolved_section [OF p(4) [unfolded bs]] by auto
qed

text \<open>Other protocols do not matter. Two files with the same section for the protocol that is run give the same
  result, whatever the sections of the other protocols hold, and whatever else the files hold.\<close>
theorem other_sections_do_not_matter:
  assumes "read_file path = Inr bs" and "read_file' path = Inr bs'"
    and "parse_toml (read_config_text bs) = Some (TomlTable es)"
    and "parse_toml (read_config_text bs') = Some (TomlTable es')"
    and "map_of es p = map_of es' p" and "map_of es p \<noteq> None" and "p \<in> set PROTOCOLS"
  shows "resolve_config parse_toml (read_file path) p = resolve_config parse_toml (read_file' path) p \<and>
    resolve_config parse_toml (read_file path) p \<noteq> Inr LegacyFile"
proof -
  have merged: "is_merged (TomlTable es)" "is_merged (TomlTable es')"
    using assms(5-7) unfolding is_merged_def list_ex_iff has_section_map_of by (metis, metis)
  have "map_of es' p \<noteq> None" using assms(5,6) by simp
  then show ?thesis using assms(1-6) merged
    by (auto simp: resolve_config_def ok_or_def has_section_map_of protocol_section_def and_then_Inr
        split: option.splits)
qed

text \<open>The sample document has a section for each of two protocols; its parser yields it for every text.\<close>

definition sample_document :: "bytes \<Rightarrow> toml_value" where
  "sample_document port = TomlTable [(str ''udp'', TomlTable [(str ''port'', TomlOther (str ''6969''))]),
     (str ''ws'', TomlTable [(str ''port'', TomlOther port)])]"

definition sample_toml :: "bytes \<Rightarrow> toml_value option" where
  "sample_toml text = (if text = [] then None else Some (sample_document text))"

lemma ascii_config_text: "read_config_text [c] = [c]" if "c < 128"
  using that by (auto simp: read_config_text_def from_utf8_lossy.simps [of "[c]"] from_utf8_lossy.simps [of "[]"] utf8_step_def starts_with_def Let_def)

lemma section_of_the_protocol_runs_witness:
  "\<exists>es t. combined_run sample_toml (\<lambda>_. Inr [49]) [str ''udp''] [str ''udp'', str ''-c'', [97]] =
      Inr (RunSection (str ''udp'') (TomlTable t) False) \<and> sample_document [49] = TomlTable es \<and>
    map_of es (str ''udp'') = Some (TomlTable t)"
proof -
  have plain: "read_config_text [49] = [49]" by (rule ascii_config_text) simp
  have run: "combined_run sample_toml (\<lambda>_. Inr [49]) [str ''udp''] [str ''udp'', str ''-c'', [97]] =
      Inr (RunSection (str ''udp'') (TomlTable [(str ''port'', TomlOther (str ''6969''))]) False)"
    by (simp add: combined_run_def split_protocol_def starts_with_def parse_args_def cli_options_default_def
        resolve_config_def plain sample_toml_def sample_document_def ok_or_def is_merged_def PROTOCOLS_def
        has_section_def protocol_section_def str_def)
  have "parse_args [str ''-c'', [97]] = Inr \<lparr>co_config_file = Some [97], co_print_config = False,
      co_print_parsed_config = False, co_print_version = False\<rparr>"
    by (simp add: parse_args_def cli_options_default_def str_def)
  with section_of_the_protocol_runs [OF run] show ?thesis using run
    by (auto simp: plain sample_toml_def sample_document_def)
qed

lemma other_sections_do_not_matter_witness:
  "resolve_config sample_toml (Inr [49]) (str ''udp'') = resolve_config sample_toml (Inr [50]) (str ''udp'') \<and>
    sample_document [49] \<noteq> sample_document [50]"
proof -
  have "read_config_text [49] = [49]" "read_config_text [50] = [50]" by (rule ascii_config_text, simp)+
  then have "resolve_config sample_toml ((\<lambda>_. Inr [49]) [97]) (str ''udp'') = resolve_config sample_toml ((\<lambda>_. Inr [50]) [97]) (str ''udp'') \<and>
      resolve_config sample_toml ((\<lambda>_. Inr [49]) [97]) (str ''udp'') \<noteq> Inr LegacyFile"
    by (intro other_sections_do_not_matter [where bs = "[49]" and bs' = "[50]"
        and es = "[(str ''udp'', TomlTable [(str ''port'', TomlOther (str ''6969''))]), (str ''ws'', TomlTable [(str ''port'', TomlOther [49])])]"
        and es' = "[(str ''udp'', TomlTable [(str ''port'', TomlOther (str ''6969''))]), (str ''ws'', TomlTable [(str ''port'', TomlOther [50])])]"])
      (simp_all add: sample_toml_def sample_document_def PROTOCOLS_def)
  then show ?thesis by (simp add: sample_document_def)
qed

subsection \<open>The template\<close>

text \<open>
  The lines of a document, each with the table it stands in: the text after the bracket of the last line
  that begins with one, none at the start.
\<close>

fun lines_in_tables :: "bytes option \<Rightarrow> bytes list \<Rightarrow> (bytes option \<times> bytes) list" where
  "lines_in_tables t [] = []"
| "lines_in_tables t (l # ls) =
     (if starts_with l (str ''['') then lines_in_tables (Some (drop 1 l)) ls else (t, l) # lines_in_tables t ls)"

definition in_protocol :: "bytes \<Rightarrow> bytes option \<Rightarrow> bytes" where
  "in_protocol p t = (case t of None \<Rightarrow> p @ str '']'' | Some name \<Rightarrow> p @ str ''.'' @ name)"

text \<open>Lines as a template needs them: without line feeds and carriage returns, and an override leaves brackets alone.\<close>

definition plain_line :: "bytes \<Rightarrow> bool" where
  "plain_line l = (10 \<notin> set l \<and> 13 \<notin> set l)"

definition override_ok :: "bytes \<times> bytes \<Rightarrow> bool" where
  "override_ok e = (case e of (from, to) \<Rightarrow> plain_line to \<and> \<not> starts_with to (str ''['') \<and>
     from \<noteq> [] \<and> \<not> starts_with from (str ''[''))"

definition template_line :: "bytes \<Rightarrow> (bytes \<times> bytes) list \<Rightarrow> bytes \<Rightarrow> bytes" where
  "template_line p overrides l =
     (let l' = apply_override overrides l
      in if starts_with l' (str ''['') then str ''['' @ p @ str ''.'' @ drop 1 l' else l')"

lemma section_line_eq: "section_line p overrides l = template_line p overrides l @ [10]"
  by (simp add: section_line_def template_line_def Let_def)

lemma bracket: "starts_with l [91] \<longleftrightarrow> (\<exists>r. l = 91 # r)"
  by (cases l) (auto simp: starts_with_def str_def)

lemma bracket_head [simp]: "starts_with (91 # r) [91]"
  by (simp add: bracket)

lemma split_on_pieces: "x \<in> set (split_on sep s) \<Longrightarrow> sep \<notin> set x \<and> set x \<subseteq> set s"
proof (induction s arbitrary: x)
  case (Cons c s)
  show ?case
  proof (cases "split_on sep s")
    case (Cons p ps)
    then have "x = [] \<or> x = c # p \<and> c \<noteq> sep \<or> x \<in> set (split_on sep s)"
      using Cons.prems by (auto split: if_splits)
    then show ?thesis using Cons.IH [of x] Cons.IH [of p] Cons by auto
  qed simp
qed simp

lemma lines_pieces:
  assumes "l \<in> set (lines s)" and "13 \<notin> set s"
  shows "plain_line l"
proof -
  have "l \<in> set (split_on 10 s) \<or> l \<in> strip_cr ` set (split_on 10 s)"
    using assms(1) by (auto simp: lines_def Let_def dest: in_set_butlastD split: if_splits)
  then obtain x where "x \<in> set (split_on 10 s)" "set l \<subseteq> set x"
    by (auto simp: strip_cr_def dest: in_set_butlastD split: if_splits)
  then show ?thesis using split_on_pieces [of x 10 s] assms(2) by (auto simp: plain_line_def)
qed

lemma lines_plain: "plain_line a \<Longrightarrow> lines (a @ 10 # b) = a # lines b"
  by (auto simp: lines_newline split_on_single plain_line_def strip_cr_def dest: last_in_set)

lemma lines_Nil [simp]: "lines [] = []"
  by (simp add: lines_def)

lemma lines_concat:
  "\<forall>l \<in> set ls. plain_line (f l) \<Longrightarrow> lines (concat (map (\<lambda>l. f l @ [10]) ls)) = map f ls"
  by (induction ls) (simp_all add: lines_plain)

lemma override_cases:
  assumes "\<forall>e \<in> set overrides. override_ok e"
  obtains "apply_override overrides l = l"
  | old new where "override_ok (old, new)" "trim_end_matches white_space l = old" "apply_override overrides l = new"
proof (cases "filter (\<lambda>(from, to). trim_end_matches white_space l = from) overrides")
  case Nil
  then show ?thesis using that(1) by (simp add: apply_override_def)
next
  case (Cons e es)
  then have "e \<in> set overrides \<and> trim_end_matches white_space l = fst e"
    using filter_eq_ConsD [OF Cons] by auto
  then show ?thesis using that(2) [of "fst e" "snd e"] assms Cons
    by (cases e) (auto simp: apply_override_def)
qed

lemma override_bracket:
  assumes "\<forall>e \<in> set overrides. override_ok e"
  shows "starts_with (apply_override overrides l) [91] = starts_with l [91]"
    and "starts_with l [91] \<Longrightarrow> apply_override overrides l = l"
    and "plain_line l \<Longrightarrow> plain_line (apply_override overrides l)"
proof -
  have no_override: "\<not> starts_with l [91]"
    if ok: "override_ok (old, new)" and eq: "trim_end_matches white_space l = old" for old new
  proof -
    obtain n where "old = take n l" using trim_end_prefix eq by metis
    then show ?thesis using ok by (cases l; cases n) (auto simp: override_ok_def bracket)
  qed
  show first: "starts_with (apply_override overrides l) [91] = starts_with l [91]"
  proof (rule override_cases [OF assms, of l])
    fix old new
    assume e: "override_ok (old, new)" "trim_end_matches white_space l = old" "apply_override overrides l = new"
    have "\<not> starts_with new [91]" using e(1) by (simp add: override_ok_def)
    then show ?thesis using no_override [OF e(1,2)] e(3) by simp
  qed simp
  show "apply_override overrides l = l" if b: "starts_with l [91]"
    by (rule override_cases [OF assms, of l]) (use b no_override in blast)+
  show "plain_line (apply_override overrides l)" if b: "plain_line l"
    by (rule override_cases [OF assms, of l]) (use b in \<open>auto simp: override_ok_def\<close>)
qed

lemma template_tables:
  assumes "\<forall>e \<in> set overrides. override_ok e"
  shows "lines_in_tables (Some (in_protocol p t)) (map (template_line p overrides) ls) =
    map (\<lambda>(t, l). (Some (in_protocol p t), apply_override overrides l)) (lines_in_tables t ls)"
proof (induction ls arbitrary: t)
  case (Cons l ls)
  show ?case
  proof (cases "starts_with l [91]")
    case True
    then have "template_line p overrides l = str ''['' @ p @ str ''.'' @ drop 1 l"
      by (simp add: template_line_def override_bracket [OF assms])
    then show ?thesis using Cons.IH [of "Some (drop 1 l)"] True
      by (simp add: in_protocol_def)
  next
    case False
    then have "template_line p overrides l = apply_override overrides l"
        "\<not> starts_with (apply_override overrides l) [91]"
      by (simp_all add: template_line_def override_bracket [OF assms])
    then show ?thesis using Cons.IH False by simp
  qed
qed simp

text \<open>A section of the template says what the default configuration says. Line by line, each line of a
  protocol's default configuration stands in the template under the same table with the protocol's name
  before it, changed at most to the override given for that line.\<close>
theorem template_keeps_every_line:
  assumes "\<forall>e \<in> set overrides. override_ok e" and "plain_line p" and "13 \<notin> set body"
  shows "lines_in_tables None (lines (template_section p body overrides)) =
    map (\<lambda>(t, l). (Some (in_protocol p t), apply_override overrides l)) (lines_in_tables None (lines body))"
proof -
  have plain: "plain_line (template_line p overrides l)" if "l \<in> set (lines body)" for l
    using override_bracket(3) [OF assms(1) lines_pieces [OF that assms(3)]] assms(2)
    by (auto simp: template_line_def Let_def plain_line_def str_def dest: in_set_dropD)
  have head: "plain_line (str ''['' @ p @ str '']'')" using assms(2) by (simp add: plain_line_def str_def)
  have "section_line p overrides = (\<lambda>l. template_line p overrides l @ [10])" by (rule ext) (rule section_line_eq)
  then have "lines (template_section p body overrides) =
      (str ''['' @ p @ str '']'') # map (template_line p overrides) (lines body)"
    using lines_plain [OF head, of "concat (map (section_line p overrides) (lines body))"]
      lines_concat [of "lines body" "template_line p overrides"] plain
    by (simp add: template_section_def)
  then show ?thesis using template_tables [OF assms(1), of p None]
    by (simp add: in_protocol_def)
qed

lemma template_overrides_ok: "\<forall>e \<in> set (template_overrides p). override_ok e"
  by (simp add: template_overrides_def setting_def override_ok_def plain_line_def bracket str_def)

lemma template_keeps_every_line_witness:
  "lines_in_tables None (lines (template_section (str ''udp'') (str ''[a'' @ [10] @ setting ''address_ipv4'' ''0.0.0.0:3000'')
      (template_overrides (str ''udp'')))) = [(Some (str ''udp.a''), setting ''address_ipv4'' ''0.0.0.0:6969'')]"
proof -
  let ?body = "str ''[a'' @ [10] @ setting ''address_ipv4'' ''0.0.0.0:3000''"
  have "lines_in_tables None (lines ?body) = [(Some [97], setting ''address_ipv4'' ''0.0.0.0:3000'')]"
    by (simp add: lines_def setting_def starts_with_def str_def strip_cr_def)
  moreover have "trim_end_matches white_space (setting ''address_ipv4'' ''0.0.0.0:3000'') = setting ''address_ipv4'' ''0.0.0.0:3000''"
    by (subst trim_end_matches.simps) (simp add: strip_suffixes_def white_space_def setting_def ends_with_def str_def upt_rec)
  moreover have "13 \<notin> set ?body" by (simp add: setting_def str_def)
  ultimately show ?thesis
    using template_keeps_every_line [OF template_overrides_ok, of "str ''udp''" ?body "str ''udp''"]
    by (simp add: plain_line_def in_protocol_def apply_override_def template_overrides_def)
qed

end
