(* ===== verification/Spec2Isabelle.thy ===== *)
theory Spec2Isabelle
  imports Udp_Worker_Spec Udp_Swarm_Spec Http_Protocol_Spec Http_Swarm_Spec Auto_Ban_Spec Request_Filter Client_Ban Ws_Connection_Spec Http_Connection_Spec Uring_Spec Udp_Statistics_Spec Http_Swarm_Worker_Spec Ban_Flush_Spec Http_Startup_Spec Udp_Startup_Spec Ws_Startup_Spec Privileges_Spec Cpu_Pinning Cli_Spec
begin

text \<open>
  A verification development of a BitTorrent tracker: three servers, over UDP (\<open>crates/udp\<close>), over HTTP
  (\<open>crates/http\<close>) and over WebSockets for WebTorrent (\<open>crates/ws\<close>), which share the code of
  \<open>crates/common\<close> and each have a crate with their messages. This theory imports all others and holds
  no definitions of its own.

  \<^bold>\<open>The program.\<close> A server starts by checking its configuration and reading its lists, creates its
  sockets and drops its privileges. Then socket workers receive requests, check them against the lists,
  and answer them. In the UDP tracker they work on shared, sharded maps of torrents and tell a statistics
  worker which peers come and go; in the other two they send requests over channels to swarm workers,
  each of which owns the torrents of some info hashes, and put the parts of a scrape together again.
  Violations are counted by a tracker of automatic bans; a thread of its own writes permanent bans into
  the file of the IP ban list. Signals have the lists read again.

  \<^bold>\<open>How the code is modelled.\<close> Definitions keep the names and the order of the code. Structs are records,
  with a prefix for each type; enums are datatypes; \<open>Result\<close> is a sum with the error on the left, and
  \<open>and_then\<close> is the question mark operator; \<open>None\<close> of a step that returns an option is a panic, such as
  an index out of bounds or an underflow. Integers have the width of the code where they are read from or
  written to the wire or where they may wrap; lengths and indices are natural numbers, with the saturating
  operations written out. Byte strings are lists of bytes, and a \<open>&str\<close> is its UTF-8. Hash maps are
  association lists, observed through \<open>map_of\<close>. Shared state is passed explicitly; clocks, random choices
  and the answers of the operating system are arguments. Locks and atomics are taken in one step each.

  \<^bold>\<open>Code outside the repository\<close> is an argument of the definitions that use it, and what the code relies on
  is a locale (\<open>Crates\<close> and, where only one component needs it, the theory of that component):
  \<open>index_map\<close>, \<open>rng_source\<close>, \<open>hex_crate\<close>, \<open>slab\<close>, \<open>network_table\<close>, \<open>head_framing\<close> (the HTTP parser),
  \<open>recv_msg_crate\<close> (received messages of io_uring), \<open>http_crate_laws\<close>, \<open>statistics_laws\<close>, \<open>address_text\<close>.
  Every locale is interpreted, on reference implementations of the crates or on the model's own
  definitions. Two locales state interfaces between components: \<open>peer_store\<close>, the contract of the four
  peer maps, which \<open>udp_swarm\<close> and \<open>http_swarm\<close> build on, and \<open>answer_merge\<close>, the gathering of the parts
  of a scrape, which the HTTP and the WebTorrent tracker share.

  \<^bold>\<open>Shared code\<close> (\<open>crates/common/src\<close>).
  \<^item> \<open>Prelude\<close>: integers, bytes, fixed-width codecs, UTF-8, decimal numbers, and lists; \<open>Common_Lib\<close>
    (\<open>lib.rs\<close>): deadlines, canonical addresses, checks of settings.
  \<^item> \<open>List_File\<close>, \<open>Access_List\<close>, \<open>Ip_Ban\<close>, \<open>Client_Ban\<close>, \<open>Trusted_Proxies\<close>, \<open>Request_Filter\<close>, after the
    files of these names: the lists a server reads, what they match, and the filter of requests. A list
    matches exactly what the lines of its file stand for, and a failed update leaves a list as it was.
  \<^item> \<open>Auto_Ban\<close> and \<open>Auto_Ban_Spec\<close> (\<open>auto_ban.rs\<close>): when a violation bans, and for how long; the bound on
    the records; bans of clients over a restart; what a validated configuration excludes.
  \<^item> \<open>Ban_Flush\<close> and \<open>Ban_Flush_Spec\<close> (the flush thread in the \<open>lib.rs\<close> of the three trackers): a step
    relation of the thread, the workers and the signal handler, with the outcomes of reads and writes, in
    which an update of the list is a reading and a later storing. A permanent ban stays in the tracker or
    in the file, in every interleaving, and in force where no signal's update overlaps that of the thread;
    where one does, the ban can be in force nowhere. Files have at most \<open>2 ^ 40\<close> bytes at the start, so
    that the bans restored from them cannot saturate the limit of records.
  \<^item> \<open>Privileges\<close> and \<open>Privileges_Spec\<close> (\<open>privileges.rs\<close>, and the creation of sockets around it): every
    socket is bound with the privileges; workers with one socket start; workers with two do not, where the
    privileges are to be dropped.
  \<^item> \<open>Cli\<close> and \<open>Cli_Spec\<close> (\<open>cli.rs\<close>, \<open>crates/combined_binary\<close>): options, the protocol and its section of a
    merged configuration file, which no other section influences, and the template of such a file;
    \<open>Cpu_Pinning\<close> (\<open>cpu_pinning.rs\<close>): workers get cores of their own.

  \<^bold>\<open>The UDP tracker.\<close>
  \<^item> \<open>Udp_Protocol\<close> (\<open>crates/udp_protocol\<close>): all messages, with round trips and the soundness of the parser.
  \<^item> \<open>Peer_Store\<close>, \<open>Udp_Swarm\<close>, \<open>Udp_Swarm_Spec\<close> (\<open>swarm.rs\<close>): torrent maps in shards, small and large
    peer maps; announce, scrape and cleaning refine operations of a finite map of peers.
  \<^item> \<open>Connection_Validator\<close> (\<open>validator.rs\<close>); \<open>Udp_Worker\<close>, \<open>Udp_Worker_Spec\<close> (\<open>workers/socket/mio\<close>): a
    datagram from its bytes to the answer; amplification, spoofed and banned sources; the loop, which
    only an error of the poll ends.
  \<^item> \<open>Buf_Ring\<close>, \<open>Uring\<close> and their \<open>_Spec\<close> (\<open>workers/socket/uring\<close>): the ring of receive buffers, the send
    buffers, and the loop with the kernel as a step relation (\<open>uring_step\<close>): ownership of buffers, no
    panic but where \<open>io_uring_enter\<close> fails, receiving never stops, agreement with the polling backend. A
    ring has at least three entries.
  \<^item> \<open>Peer_Id\<close> (\<open>crates/peer_id\<close>), \<open>Udp_Statistics\<close>, \<open>Udp_Statistics_Spec\<close> (\<open>workers/statistics\<close>): the
    counters, and the table of clients against the peers of the swarm.
  \<^item> \<open>Udp_Startup\<close>, \<open>Udp_Startup_Spec\<close> (\<open>lib.rs\<close>): checks, start and signals; the answers of a validated
    configuration fit the buffer of the polling backend, but not those of io_uring.

  \<^bold>\<open>The HTTP tracker.\<close>
  \<^item> \<open>Http_Protocol\<close>, \<open>Http_Protocol_Spec\<close> (\<open>crates/http_protocol\<close>): requests with their parser and writer,
    and the writers of responses.
  \<^item> \<open>Http_Swarm\<close>, \<open>Http_Swarm_Spec\<close> (\<open>workers/swarm/storage.rs\<close>); \<open>Http_Swarm_Worker\<close> and its \<open>_Spec\<close>
    (\<open>workers/swarm/mod.rs\<close>): announces refine a finite map of peers; over a worker's whole life what is
    stored of each address follows from its last announce and the cleanings, and silent peers leave.
  \<^item> \<open>Routing\<close>, \<open>Conn_Guard\<close>, \<open>Http_Connection\<close>, \<open>Http_Connection_Spec\<close> (\<open>workers/socket/connection.rs\<close>,
    \<open>request.rs\<close>): a connection from the bytes read to those written. The loop of a connection runs
    over a list of rounds, each with its clock and lists: its fuel. One round for each byte the client
    sends, and one more, is proved to be enough.
  \<^item> \<open>Http_Startup\<close>, \<open>Http_Startup_Spec\<close> (\<open>lib.rs\<close>, \<open>workers/socket/mod.rs\<close>): checks, start and signals,
    and the registry of connections with its limit and its deadlines.

  \<^bold>\<open>The WebTorrent tracker.\<close>
  \<^item> \<open>Ws_Protocol\<close> (\<open>crates/ws_protocol\<close>): the messages; \<open>Ws_Swarm\<close>, \<open>Ws_Swarm_Spec\<close> (\<open>workers/swarm\<close>):
    peers owned by connections, offers and answers, cleaning, closed connections.
  \<^item> \<open>Ws_Connection\<close>, \<open>Ws_Connection_Spec\<close> (\<open>workers/socket\<close>): handshake, reader, writer and cleanup of a
    connection; scrapes split over the workers and gathered; what closing removes and what it leaves,
    with announces and closings on channels of their own; which header line decides a client's address.
  \<^item> \<open>Ws_Startup\<close>, \<open>Ws_Startup_Spec\<close> (\<open>lib.rs\<close>): checks, start and signals; the TLS configuration follows
    its files.

  \<^bold>\<open>What the theorems show\<close> beyond the above is stated before each of them. Some are about flaws, and prove
  that the code does what its comments or its other half do not expect: the deadlock of a start with two
  address families that is to drop its privileges, the closed connection that removes the peer of another,
  announces that are handled after the closing of their connection, the client's own header line that a
  proxy's does not replace, a signal's update that undoes the flush of a ban, scrapes too large for the
  buffers of io_uring, peers that change their id and are miscounted, and scrapes over several HTTP
  workers that overflow the response buffer.

  \<^bold>\<open>Not modelled.\<close> Sockets, threads, executors, TLS and the parsing of certificates and of TOML: calls of
  the operating system and of libraries. JSON, the serde visitors and with them
  the response parser of the HTTP protocol, which only load tests use. Metrics, log lines, and the
  statistics that are formatted (rates in floating point, the HTML page, the standard output). The
  configuration generator, a procedural macro; load tests and benchmarks, which are clients. The
  operations of a component run one after the other, except where a step relation interleaves them
  (\<open>Ban_Flush\<close>, \<open>Privileges\<close>, \<open>Uring\<close>, \<open>Buf_Ring\<close>, the sessions of \<open>Ws_Connection_Spec\<close>). Each channel of the
  WebTorrent tracker delivers its messages in order, and no two are ordered; the answers of the HTTP
  tracker's workers come in any order. Ids of WebTorrent connections are those of one socket worker:
  the properties take the ids of other connections to be different.
\<close>

end
